(* ===== verification/Prelude.thy ===== *)
theory Prelude
  imports Main "HOL-Library.Word" "HOL-Library.Monad_Syntax"
begin

text \<open>
  Shared vocabulary of the development.

  \<^item> Machine integers are words of the width the Rust source declares; a \<^verbatim>\<open>usize\<close> that
    only counts elements of an in-memory collection is a \<^typ>\<open>nat\<close>.
  \<^item> A Rust \<^verbatim>\<open>&str\<close> or \<^verbatim>\<open>&[u8]\<close> is the list of its bytes (\<open>bytes\<close>).
  \<^item> \<open>'a ub\<close> is the result of code that contains \<^verbatim>\<open>unsafe\<close> blocks or may panic:
    \<^term>\<open>None\<close> is an execution that leaves the defined behaviour of Rust (an out-of-bounds
    unchecked access, \<^verbatim>\<open>unwrap_unchecked\<close> of \<^verbatim>\<open>None\<close>, a read of uninitialised memory)
    or panics, \<^term>\<open>Some r\<close> is a defined execution with result \<open>r\<close>.  A Rust
    \<^verbatim>\<open>Option\<close> returned by such code is a second \<open>option\<close> inside.
  \<^item> Raw memory obtained from \<^verbatim>\<open>Vec::with_capacity\<close> is a list of optional bytes:
    \<^term>\<open>None\<close> is a byte not yet initialised.
  \<^item> Byte orders are given by \<open>le_bytes\<close>/\<open>le_val\<close> and their reversals.
\<close>

unbundle bit_operations_syntax

type_synonym u8 = "8 word"
type_synonym u32 = "32 word"
type_synonym u64 = "64 word"
type_synonym u128 = "128 word"
type_synonym bytes = "u8 list"
type_synonym 'a ub = "'a option"
type_synonym mem = "u8 option list"

named_theorems ub_simps "equations that evaluate unchecked memory accesses"
named_theorems codec_simps "round-trip and length facts of the byte codecs"

section \<open>Byte strings\<close>

definition bytes_of :: "string \<Rightarrow> bytes" where
  "bytes_of s = map (\<lambda>c. of_nat (of_char c)) s"

lemma length_bytes_of [simp]: "length (bytes_of s) = length s"
  by (simp add: bytes_of_def)

lemma bytes_of_append [simp]: "bytes_of (s @ t) = bytes_of s @ bytes_of t"
  by (simp add: bytes_of_def)

lemma bytes_of_inj: "bytes_of s = bytes_of t \<longleftrightarrow> s = t"
proof -
  have "inj (\<lambda>c. of_nat (of_char c) :: u8)"
  proof (rule injI)
    fix c d :: char
    assume "of_nat (of_char c) = (of_nat (of_char d) :: u8)"
    then have "(of_char c :: nat) = of_char d"
      by (simp add: word_of_nat_eq_iff take_bit_nat_eq_self)
    then show "c = d"
      by simp
  qed
  then show ?thesis
    by (simp add: bytes_of_def inj_map_eq_map)
qed

section \<open>Raw memory\<close>

definition mem_write :: "mem \<Rightarrow> nat \<Rightarrow> u8 \<Rightarrow> mem ub" where
  "mem_write m i b = (if i < length m then Some (m[i := Some b]) else None)"

fun mem_writes :: "mem \<Rightarrow> nat \<Rightarrow> bytes \<Rightarrow> mem ub" where
  "mem_writes m i [] = Some m"
| "mem_writes m i (b # bs) = do { m' \<leftarrow> mem_write m i b; mem_writes m' (Suc i) bs }"

definition mem_init :: "mem \<Rightarrow> bytes ub" where
  "mem_init m = those m"

abbreviation uninit :: "nat \<Rightarrow> mem" where
  "uninit n \<equiv> replicate n None"

lemma those_map_Some [simp]: "those (map Some xs) = Some xs"
  by (induction xs) auto

lemma mem_init_full [ub_simps]: "mem_init (map Some bs) = Some bs"
  by (simp add: mem_init_def)

lemma mem_write_at_end:
  "mem_write (map Some pre @ uninit (Suc k)) (length pre) b
   = Some (map Some (pre @ [b]) @ uninit k)"
  by (simp add: mem_write_def list_update_append)

lemma mem_writes_at_end:
  "mem_writes (map Some pre @ uninit (length bs + k)) (length pre) bs
   = Some (map Some (pre @ bs) @ uninit k)"
proof (induction bs arbitrary: pre)
  case Nil
  then show ?case by simp
next
  case (Cons b bs)
  have "mem_writes (map Some (pre @ [b]) @ uninit (length bs + k)) (length (pre @ [b])) bs
        = Some (map Some ((pre @ [b]) @ bs) @ uninit k)"
    by (rule Cons.IH)
  then show ?case
    using mem_write_at_end [of pre "length bs + k" b] by simp
qed

section \<open>Byte orders\<close>

primrec le_bytes :: "nat \<Rightarrow> nat \<Rightarrow> bytes" where
  "le_bytes 0 v = []"
| "le_bytes (Suc k) v = of_nat (v mod 256) # le_bytes k (v div 256)"

primrec le_val :: "bytes \<Rightarrow> nat" where
  "le_val [] = 0"
| "le_val (b # bs) = unat b + 256 * le_val bs"

definition be_bytes :: "nat \<Rightarrow> nat \<Rightarrow> bytes" where
  "be_bytes k v = rev (le_bytes k v)"

definition be_val :: "bytes \<Rightarrow> nat" where
  "be_val bs = le_val (rev bs)"

lemma length_le_bytes [simp]: "length (le_bytes k v) = k"
  by (induction k arbitrary: v) auto

lemma length_be_bytes [simp]: "length (be_bytes k v) = k"
  by (simp add: be_bytes_def)

lemma unat_less_256 [simp]: "unat (b :: u8) < 256"
proof -
  have "unat b < 2 ^ LENGTH(8)" by (rule unsigned_less)
  then show ?thesis by simp
qed

lemma unat_of_nat_mod_256 [simp]: "unat (of_nat (v mod 256) :: u8) = v mod 256"
  by (simp add: unat_of_nat)

lemma le_val_le_bytes: "le_val (le_bytes k v) = v mod 256 ^ k"
  by (induction k arbitrary: v) (simp_all add: mod_mult2_eq)

lemma le_val_bound: "le_val bs < 256 ^ length bs"
proof (induction bs)
  case Nil
  then show ?case by simp
next
  case (Cons b bs)
  define p where "p = (256 :: nat) ^ length bs"
  have "Suc (le_val bs) \<le> p"
    using Cons by (simp add: p_def)
  then have "unat b + 256 * le_val bs < 256 * p"
    using unat_less_256 [of b] by linarith
  then show ?case by (simp add: p_def)
qed

lemma le_bytes_le_val: "le_bytes (length bs) (le_val bs) = bs"
proof (induction bs)
  case Nil
  then show ?case by simp
next
  case (Cons b bs)
  have "unat b < 256" by simp
  with Cons show ?case by simp
qed

lemma be_val_be_bytes [codec_simps]: "v < 256 ^ k \<Longrightarrow> be_val (be_bytes k v) = v"
  by (simp add: be_val_def be_bytes_def le_val_le_bytes)

lemma le_val_inj: "length xs = length ys \<Longrightarrow> le_val xs = le_val ys \<Longrightarrow> xs = ys"
  by (metis le_bytes_le_val)

lemma le_val_append: "le_val (xs @ ys) = le_val xs + 256 ^ length xs * le_val ys"
  by (induction xs) (simp_all add: algebra_simps)

lemma le_bytes_append:
  "le_bytes (j + k) v = le_bytes j v @ le_bytes k (v div 256 ^ j)"
  by (induction j arbitrary: v) (simp_all add: div_mult2_eq)

lemma le_bytes_mod: "le_bytes k (v mod 256 ^ k) = le_bytes k v"
  by (metis le_bytes_le_val le_val_le_bytes length_le_bytes)

text \<open>Native byte order: \<open>big\<close> says whether the target is big-endian.\<close>

definition from_ne_bytes_u64 :: "bool \<Rightarrow> bytes \<Rightarrow> u64" where
  "from_ne_bytes_u64 big bs = of_nat (if big then be_val bs else le_val bs)"

definition to_ne_bytes_u64 :: "bool \<Rightarrow> u64 \<Rightarrow> bytes" where
  "to_ne_bytes_u64 big w = (if big then be_bytes 8 (unat w) else le_bytes 8 (unat w))"

lemma to_from_ne_bytes_u64 [codec_simps]:
  "length bs = 8 \<Longrightarrow> to_ne_bytes_u64 big (from_ne_bytes_u64 big bs) = bs"
proof -
  assume l: "length bs = 8"
  have le: "le_bytes 8 (unat (of_nat (le_val xs) :: u64)) = xs" if "length xs = 8" for xs
  proof -
    have "le_val xs < 2 ^ 64"
      using le_val_bound [of xs] by (simp add: that)
    then have "unat (of_nat (le_val xs) :: u64) = le_val xs"
      by (simp add: unat_of_nat)
    then show ?thesis using le_bytes_le_val [of xs] that by simp
  qed
  show ?thesis
    using le [of bs] le [of "rev bs"] l
    by (simp add: to_ne_bytes_u64_def from_ne_bytes_u64_def be_bytes_def be_val_def)
qed

lemma length_to_ne_bytes_u64 [simp]: "length (to_ne_bytes_u64 big w) = 8"
  by (simp add: to_ne_bytes_u64_def)

lemma from_to_ne_bytes_u64 [codec_simps]: "from_ne_bytes_u64 big (to_ne_bytes_u64 big w) = w"
proof -
  have "unat w < 256 ^ 8" using unsigned_less [of w] by simp
  then have "le_val (le_bytes 8 (unat w)) = unat w" by (simp only: le_val_le_bytes mod_less)
  then show ?thesis
    by (simp add: from_ne_bytes_u64_def to_ne_bytes_u64_def be_val_def be_bytes_def)
qed

section \<open>Bit fields of bytes\<close>

lemma and_3F: "(x :: 'a::len word) AND 0x3F = take_bit 6 x"
  by (simp add: take_bit_eq_mask mask_eq_exp_minus_1)

lemma and_0F: "(x :: 'a::len word) AND 0xF = take_bit 4 x"
  by (simp add: take_bit_eq_mask mask_eq_exp_minus_1)

lemma and_03: "(x :: 'a::len word) AND 0x3 = take_bit 2 x"
  by (simp add: take_bit_eq_mask mask_eq_exp_minus_1)

lemmas and_masks = and_3F and_0F and_03

lemma unat_ucast_u8_u32 [simp]: "unat (ucast (x :: u8) :: u32) = unat x"
proof -
  have "unat x < 2 ^ 32"
    using unat_less_256 [of x] by (rule less_trans) simp
  then show ?thesis
    by (simp only: unsigned_ucast_eq) (simp add: take_bit_nat_eq_self)
qed

lemma unat_less_pow2I:
  assumes "\<And>n. k \<le> n \<Longrightarrow> \<not> bit (x :: 'a::len word) n"
  shows "unat x < 2 ^ k"
proof -
  have "take_bit k x = x"
    by (rule bit_word_eqI) (use assms in \<open>auto simp: bit_simps not_le intro: ccontr\<close>)
  then have "unat x = take_bit k (unat x)"
    by (metis unsigned_take_bit_eq)
  then show ?thesis
    by (metis take_bit_nat_less_exp)
qed

lemma not_bit_small: "unat (x :: 'a::len word) < 2 ^ k \<Longrightarrow> k \<le> n \<Longrightarrow> \<not> bit x n"
proof
  assume "unat x < 2 ^ k" "k \<le> n" "bit x n"
  then have "take_bit k (unat x) = unat x" "bit (unat x) n"
    by (simp_all add: take_bit_nat_eq_self bit_unsigned_iff bit_imp_le_length)
  with \<open>k \<le> n\<close> show False by (metis bit_take_bit_iff leD)
qed

lemma not_bit_u8 [simp]: "8 \<le> n \<Longrightarrow> \<not> bit (x :: u8) n"
  using bit_imp_le_length [of x n] by auto

lemma u8_eqI:
  fixes x y :: u8
  assumes "bit x 0 = bit y 0" "bit x 1 = bit y 1" "bit x 2 = bit y 2" "bit x 3 = bit y 3"
    "bit x 4 = bit y 4" "bit x 5 = bit y 5" "bit x 6 = bit y 6" "bit x 7 = bit y 7"
  shows "x = y"
proof (rule bit_word_eqI)
  fix n
  assume "n < LENGTH(8)"
  then have "n = 0 \<or> n = 1 \<or> n = 2 \<or> n = 3 \<or> n = 4 \<or> n = 5 \<or> n = 6 \<or> n = 7"
    by simp linarith
  then show "bit x n = bit y n" using assms by (elim disjE) simp_all
qed

lemma u8_less_64I:
  fixes x :: u8
  assumes "\<not> bit x 6" "\<not> bit x 7"
  shows "unat x < 64"
proof -
  have "\<not> bit x n" if "6 \<le> n" for n
  proof
    assume "bit x n"
    then have "n < 8" using bit_imp_le_length [of x n] by simp
    with that have "n = 6 \<or> n = 7" by linarith
    with \<open>bit x n\<close> assms show False by auto
  qed
  then have "unat x < 2 ^ 6" by (rule unat_less_pow2I)
  then show ?thesis by simp
qed

section \<open>Removing a list element\<close>

lemma in_set_drop_conv: "a \<in> set (drop n xs) \<longleftrightarrow> (\<exists>x. n \<le> x \<and> x < length xs \<and> xs ! x = a)"
proof
  assume "a \<in> set (drop n xs)"
  then obtain p where "p < length xs - n" "xs ! (n + p) = a" by (auto simp: in_set_conv_nth)
  then show "\<exists>x. n \<le> x \<and> x < length xs \<and> xs ! x = a" by (intro exI [of _ "n + p"]) simp
next
  assume "\<exists>x. n \<le> x \<and> x < length xs \<and> xs ! x = a"
  then obtain x where "n \<le> x" "x < length xs" "xs ! x = a" by blast
  then have "x - n < length (drop n xs)" "drop n xs ! (x - n) = a" by simp_all
  then show "a \<in> set (drop n xs)" by (metis nth_mem)
qed

lemma set_remove_nth:
  assumes "distinct xs" "i < length xs"
  shows "set (take i xs @ drop (i + 1) xs) = set xs - {xs ! i}"
proof -
  have "set xs = set (take i xs) \<union> insert (xs ! i) (set (drop (i + 1) xs))"
    using arg_cong [OF id_take_nth_drop [OF assms(2)], of set] by simp
  moreover have "xs ! i \<notin> set (take i xs) \<union> set (drop (i + 1) xs)"
    using assms by (auto simp: in_set_drop_conv in_set_conv_nth nth_eq_iff_index_eq)
  ultimately show ?thesis by auto
qed

lemma distinct_remove_nth: "distinct xs \<Longrightarrow> distinct (take i xs @ drop (i + 1) xs)"
  by (simp add: set_take_disj_set_drop_if_distinct)

section \<open>Slot stores and inverse indices\<close>

text \<open>A vector of optional entries as a partial function, and the maps that index it by a key.\<close>

definition slot :: "'a option list \<Rightarrow> nat \<Rightarrow> 'a option" where
  "slot xs i = (if i < length xs then xs ! i else None)"

definition inverse_index :: "('i \<Rightarrow> 'k option) \<Rightarrow> ('k \<Rightarrow> 'i option) \<Rightarrow> bool" where
  "inverse_index f m \<longleftrightarrow> (\<forall>k i. m k = Some i \<longleftrightarrow> f i = Some k)"

lemma slot_update: "i < length xs \<Longrightarrow> slot (xs[i := v]) = (slot xs)(i := v)"
  by (auto simp: slot_def)

lemma slot_append_None [simp]: "slot (xs @ [None]) = slot xs"
  by (auto simp: slot_def nth_append)

lemma slot_Nil [simp]: "slot [] = Map.empty"
  by (auto simp: slot_def)

lemma slot_Some_length: "slot xs i = Some x \<Longrightarrow> i < length xs"
  by (simp add: slot_def split: if_splits)

lemma slot_nth: "i < length xs \<Longrightarrow> slot xs i = xs ! i"
  by (simp add: slot_def)

lemma inverse_indexD: "inverse_index f m \<Longrightarrow> m k = Some i \<longleftrightarrow> f i = Some k"
  by (simp add: inverse_index_def)

lemma inverse_index_inj: "inverse_index f m \<Longrightarrow> f i = Some k \<Longrightarrow> f j = Some k \<Longrightarrow> i = j"
  by (metis inverse_index_def option.inject)

lemma inverse_index_empty [simp]: "inverse_index Map.empty Map.empty"
  by (simp add: inverse_index_def)

lemma inverse_index_insert:
  "inverse_index f m \<Longrightarrow> f i = None \<Longrightarrow> m k = None \<Longrightarrow> inverse_index (f(i \<mapsto> k)) (m(k \<mapsto> i))"
  by (auto simp: inverse_index_def) (metis option.distinct(1))

lemma inverse_index_delete:
  "inverse_index f m \<Longrightarrow> f i = Some k \<Longrightarrow> inverse_index (f(i := None)) (m(k := None))"
  by (auto simp: inverse_index_def) (metis option.inject)

lemma inverse_index_replace:
  assumes "inverse_index f m" "f i = Some k" "m k' = None \<or> k' = k"
  shows "inverse_index (f(i \<mapsto> k')) (m(k := None, k' \<mapsto> i))"
proof -
  have "inverse_index (f(i := None)) (m(k := None))"
    using assms(1,2) by (rule inverse_index_delete)
  then have "inverse_index (f(i := None, i \<mapsto> k')) (m(k := None, k' \<mapsto> i))"
    by (rule inverse_index_insert) (use assms(3) in auto)
  then show ?thesis by simp
qed

end
