(* ===== verification/Alphabet.thy ===== *)
theory Alphabet
  imports Prelude
begin

text \<open>
  The decode tables of the base64 and base62 codecs: a 256-entry table filled with
  \<^verbatim>\<open>0xFF\<close> into which a \<^verbatim>\<open>const\<close> loop writes the index of every alphabet
  character.  The locale \<open>alphabet\<close> is the contract the codecs rely on (the table is the
  partial inverse of the character list); it is interpreted on both codecs' tables.
\<close>

definition slice_get :: "'a list \<Rightarrow> nat \<Rightarrow> 'a ub" where
  "slice_get xs i = (if i < length xs then Some (xs ! i) else None)"

lemma slice_get_in [simp]: "i < length xs \<Longrightarrow> slice_get xs i = Some (xs ! i)"
  by (simp add: slice_get_def)

definition slice_set :: "'a list \<Rightarrow> nat \<Rightarrow> 'a \<Rightarrow> 'a list ub" where
  "slice_set xs i v = (if i < length xs then Some (xs[i := v]) else None)"

text \<open>A pointer cast to an array of \<open>n\<close> elements at an offset, and a write through it.\<close>

definition array_at :: "'a list \<Rightarrow> nat \<Rightarrow> nat \<Rightarrow> 'a list ub" where
  "array_at xs i n = (if i + n \<le> length xs then Some (take n (drop i xs)) else None)"

definition array_put :: "'a list \<Rightarrow> nat \<Rightarrow> 'a list \<Rightarrow> 'a list ub" where
  "array_put xs i ys =
     (if i + length ys \<le> length xs then Some (take i xs @ ys @ drop (i + length ys) xs) else None)"

lemma slice_set_middle [ub_simps]: "slice_set (pre @ x # post) (length pre) v = Some (pre @ v # post)"
  by (simp add: slice_set_def)

lemma array_at_middle [ub_simps]: "array_at (pre @ ys @ post) (length pre) (length ys) = Some ys"
  by (simp add: array_at_def)

lemma array_put_middle [ub_simps]:
  "length zs = length ys \<Longrightarrow> array_put (pre @ ys @ post) (length pre) zs = Some (pre @ zs @ post)"
  by (simp add: array_put_def)

definition decode_lut :: "bytes \<Rightarrow> bytes" where
  "decode_lut cs =
     fold (\<lambda>i table. table[unat (cs ! i) := of_nat i]) [0..<length cs] (replicate 256 0xFF)"

lemma decode_lut_prefix:
  assumes "distinct cs" and "k \<le> length cs"
  defines "t \<equiv> fold (\<lambda>i table. table[unat (cs ! i) := (of_nat i :: u8)]) [0..<k] (replicate 256 0xFF)"
  shows "length t = 256 \<and> (\<forall>i < k. t ! unat (cs ! i) = of_nat i)
    \<and> (\<forall>b :: u8. b \<notin> set (take k cs) \<longrightarrow> t ! unat b = 0xFF)"
  unfolding t_def using \<open>k \<le> length cs\<close>
proof (induction k)
  case 0
  have "replicate 256 0xFF ! unat b = (0xFF :: u8)" for b :: u8
    by (rule nth_replicate) (rule unat_less_256)
  then show ?case by simp
next
  case (Suc k)
  define t where "t = fold (\<lambda>i table. table[unat (cs ! i) := (of_nat i :: u8)]) [0..<k] (replicate 256 0xFF)"
  from Suc have len: "length t = 256" and hit: "\<forall>i<k. t ! unat (cs ! i) = of_nat i"
    and miss: "\<forall>b. b \<notin> set (take k cs) \<longrightarrow> t ! unat b = 0xFF"
    by (auto simp: t_def)
  have step: "fold (\<lambda>i table. table[unat (cs ! i) := (of_nat i :: u8)]) [0..<Suc k] (replicate 256 0xFF)
      = t[unat (cs ! k) := of_nat k]"
    by (simp add: t_def)
  have diff: "unat (cs ! i) \<noteq> unat (cs ! k)" if "i < k" for i
    using that Suc.prems assms(1) by (auto simp: nth_eq_iff_index_eq simp flip: word_unat_eq_iff)
  have "t[unat (cs ! k) := of_nat k] ! unat (cs ! i) = of_nat i" if "i < Suc k" for i
    using that hit len diff [of i] by (cases "i = k") (simp_all add: nth_list_update)
  moreover have "t[unat (cs ! k) := of_nat k] ! unat b = 0xFF" if "b \<notin> set (take (Suc k) cs)" for b
    using that miss Suc.prems
    by (auto simp: take_Suc_conv_app_nth nth_list_update word_unat_eq_iff)
  ultimately show ?case
    unfolding step using len by simp
qed

lemma length_decode_lut: "distinct cs \<Longrightarrow> length (decode_lut cs) = 256"
  using decode_lut_prefix [of cs "length cs"] by (simp add: decode_lut_def)

lemma decode_lut_hit: "distinct cs \<Longrightarrow> i < length cs \<Longrightarrow> decode_lut cs ! unat (cs ! i) = of_nat i"
  using decode_lut_prefix [of cs "length cs"] by (simp add: decode_lut_def)

lemma decode_lut_miss: "distinct cs \<Longrightarrow> b \<notin> set cs \<Longrightarrow> decode_lut cs ! unat b = 0xFF"
  using decode_lut_prefix [of cs "length cs"] by (simp add: decode_lut_def)

locale alphabet =
  fixes chars :: bytes and table :: bytes
  assumes table_length: "length table = 256"
    and size: "length chars \<le> 255"
    and hit: "i < length chars \<Longrightarrow> table ! unat (chars ! i) = of_nat i"
    and miss: "b \<notin> set chars \<Longrightarrow> table ! unat b = 0xFF"
begin

lemma index_neq_invalid: "i < length chars \<Longrightarrow> (of_nat i :: u8) \<noteq> 0xFF"
proof
  assume "i < length chars" "(of_nat i :: u8) = 0xFF"
  then have "unat (of_nat i :: u8) = 255" by simp
  then show False
    using size \<open>i < length chars\<close> by (simp add: unat_of_nat)
qed

lemma valid_iff: "table ! unat b = 0xFF \<longleftrightarrow> b \<notin> set chars"
  using miss hit index_neq_invalid by (metis in_set_conv_nth)

lemma unat_hit: "i < length chars \<Longrightarrow> unat (table ! unat (chars ! i)) = i"
  using hit [of i] size by (simp add: unat_of_nat)

lemma value_bound: "b \<in> set chars \<Longrightarrow> unat (table ! unat b) < length chars"
  by (metis in_set_conv_nth unat_hit)

lemma decode_then_encode: "b \<in> set chars \<Longrightarrow> chars ! unat (table ! unat b) = b"
  by (metis in_set_conv_nth unat_hit)

lemma table_get: "slice_get table (unat (b :: u8)) = Some (table ! unat b)"
  using unat_less_256 [of b] table_length by simp

end

lemma alphabet_decode_lut:
  "distinct cs \<Longrightarrow> length cs \<le> 255 \<Longrightarrow> alphabet cs (decode_lut cs)"
  by unfold_locales (auto simp: length_decode_lut decode_lut_hit decode_lut_miss)

end
