(* ===== verification/Base62.thy ===== *)
theory Base62
  imports Alphabet
begin

text \<open>
  \<^verbatim>\<open>src/common/utils/base62.rs\<close>: the fixed-length (22 byte) base62 codec for
  \<^verbatim>\<open>u128\<close> values.  The encoder replaces the 128-bit division by \<^verbatim>\<open>62^10\<close> by a
  multiplication with a magic constant (\<open>mulh\<close>, \<open>fast_div_base_to_10\<close>), on words
  that wrap; the lemmas show that no step wraps, that the quotient is exact for every
  \<^verbatim>\<open>u128\<close>, and that encoding and decoding are inverse.
\<close>

section \<open>Definitions\<close>

definition BASE :: u64 where "BASE = 62"

definition BASE62_LEN :: nat where "BASE62_LEN = 22"

definition BASE_TO_10 :: u64 where "BASE_TO_10 = 839299365868340224"

definition BASE_TO_10_U128 :: u128 where "BASE_TO_10_U128 = ucast BASE_TO_10"

definition DIV_BASE_TO_10_MULTIPLY :: u128 where
  "DIV_BASE_TO_10_MULTIPLY = 233718071534448225491982379416108680074"

definition DIV_BASE_TO_10_SHIFT :: nat where "DIV_BASE_TO_10_SHIFT = 59"

definition CHARSET :: bytes where
  "CHARSET = bytes_of ''0123456789ABCDEFGHIJKLMNOPQRSTUVWXYZabcdefghijklmnopqrstuvwxyz''"

definition DECODE_LUT :: bytes where
  "DECODE_LUT = decode_lut CHARSET"

datatype DecodeError = ArithmeticOverflow | InvalidCharacter u8 nat

text \<open>The high 128 bits of a product, by 64-bit limbs; \<^verbatim>\<open>x as u64 as u128\<close> is
  \<open>ucast (ucast x :: u64)\<close>.\<close>

definition mulh :: "u128 \<Rightarrow> u128 \<Rightarrow> u128" where
  "mulh x y =
     (let x_lo = ucast (ucast x :: u64); x_hi = drop_bit 64 x;
          y_lo = ucast (ucast y :: u64); y_hi = drop_bit 64 y;
          z0 = x_lo * y_lo; z1 = x_lo * y_hi; z2 = x_hi * y_lo; z3 = x_hi * y_hi;
          carry = drop_bit 64 z0 + ucast (ucast z1 :: u64) + ucast (ucast z2 :: u64)
      in z3 + drop_bit 64 z1 + drop_bit 64 z2 + drop_bit 64 carry)"

definition fast_div_base_to_10 :: "u128 \<Rightarrow> u128 \<times> u64" where
  "fast_div_base_to_10 num =
     (let quotient = drop_bit DIV_BASE_TO_10_SHIFT (mulh num DIV_BASE_TO_10_MULTIPLY);
          remainder = num - quotient * BASE_TO_10_U128
      in (quotient, ucast remainder))"

definition buf_write :: "bytes \<Rightarrow> nat \<Rightarrow> u8 \<Rightarrow> bytes ub" where
  "buf_write buf i b = (if i < length buf then Some (buf[i := b]) else None)"

text \<open>The loop runs \<^verbatim>\<open>i\<close> from \<^verbatim>\<open>len - 1\<close> down to \<^verbatim>\<open>0\<close> and writes through a raw
  pointer at offset \<open>ptr\<close> of the buffer.\<close>

fun encode_u64_chunk :: "u64 \<Rightarrow> nat \<Rightarrow> nat \<Rightarrow> bytes \<Rightarrow> bytes ub" where
  "encode_u64_chunk num 0 ptr buf = Some buf"
| "encode_u64_chunk num (Suc i) ptr buf = do {
      c \<leftarrow> slice_get CHARSET (unat (num mod BASE));
      buf \<leftarrow> buf_write buf (ptr + i) c;
      encode_u64_chunk (num div BASE) i ptr buf
    }"

definition encode_fixed :: "u128 \<Rightarrow> bytes \<Rightarrow> bytes ub" where
  "encode_fixed num buf =
     (let (quotient, low) = fast_div_base_to_10 num;
          (high, mid) = fast_div_base_to_10 quotient
      in do {
        buf \<leftarrow> encode_u64_chunk low 10 12 buf;
        buf \<leftarrow> encode_u64_chunk mid 10 2 buf;
        encode_u64_chunk (ucast high) 2 0 buf
      })"

definition checked_mul_u128 :: "u128 \<Rightarrow> u128 \<Rightarrow> u128 option" where
  "checked_mul_u128 a b = (if unat a * unat b < 2 ^ 128 then Some (a * b) else None)"

definition checked_add_u128 :: "u128 \<Rightarrow> u128 \<Rightarrow> u128 option" where
  "checked_add_u128 a b = (if unat a + unat b < 2 ^ 128 then Some (a + b) else None)"

fun decode_loop :: "bytes \<Rightarrow> nat \<Rightarrow> u128 \<Rightarrow> DecodeError + u128" where
  "decode_loop [] position result = Inr result"
| "decode_loop (b # bs) position result =
     (let value = DECODE_LUT ! unat b
      in if value = 0xFF then Inl (InvalidCharacter b position)
         else case do { r \<leftarrow> checked_mul_u128 result (ucast BASE); checked_add_u128 r (ucast value) } of
           None \<Rightarrow> Inl ArithmeticOverflow
         | Some r \<Rightarrow> decode_loop bs (Suc position) r)"

definition decode_fixed :: "bytes \<Rightarrow> DecodeError + u128" where
  "decode_fixed buf = decode_loop buf 0 0"

section \<open>The alphabet\<close>

lemma length_CHARSET [simp]: "length CHARSET = 62"
  by (simp add: CHARSET_def)

lemma distinct_CHARSET: "distinct CHARSET"
  by code_simp

interpretation b62: alphabet CHARSET DECODE_LUT
  unfolding DECODE_LUT_def
  by (rule alphabet_decode_lut) (simp_all add: distinct_CHARSET)

section \<open>Division by the magic constant\<close>

lemma unat_ucast_u64_u128 [simp]: "unat (ucast (x :: u64) :: u128) = unat x"
proof -
  have "unat x < 2 ^ LENGTH(64)" by (rule unsigned_less)
  then have "unat x < 2 ^ LENGTH(128)" by (rule less_trans) simp
  then show ?thesis
    by (simp only: unsigned_ucast_eq) (simp only: take_bit_nat_eq_self)
qed

lemma unat_ucast_u128_u64: "unat (ucast (x :: u128) :: u64) = unat x mod 2 ^ 64"
  by (simp only: unsigned_ucast_eq take_bit_eq_mod) simp

lemma unat_u128_bound: "unat (x :: u128) < 2 ^ 128"
proof -
  have "unat x < 2 ^ LENGTH(128)" by (rule unsigned_less)
  then show ?thesis by simp
qed

lemma unat_add_u128: "unat a + unat b < 2 ^ 128 \<Longrightarrow> unat (a + b :: u128) = unat a + unat b"
  by (simp add: unat_word_ariths)

lemma unat_mul_u128: "unat a * unat b < 2 ^ 128 \<Longrightarrow> unat (a * b :: u128) = unat a * unat b"
  by (simp add: unat_word_ariths)

lemma mulh_nat:
  fixes xl xh yl yh N :: nat
  assumes "0 < N"
  shows "(xh * N + xl) * (yh * N + yl) div (N * N) =
    xh * yh + xl * yh div N + xh * yl div N + (xl * yl div N + xl * yh mod N + xh * yl mod N) div N"
proof -
  define a where "a = xl * yh"
  define b where "b = xh * yl"
  define c where "c = xl * yl"
  have "(xh * N + xl) * (yh * N + yl) = (xh * yh * N + a + b) * N + c"
    by (simp add: a_def b_def c_def algebra_simps)
  then have "(xh * N + xl) * (yh * N + yl) div N = xh * yh * N + a + b + c div N"
    using assms by simp
  then have "(xh * N + xl) * (yh * N + yl) div (N * N) = (xh * yh * N + a + b + c div N) div N"
    by (simp add: div_mult2_eq)
  also have "xh * yh * N + a + b + c div N =
      (xh * yh + a div N + b div N) * N + (c div N + a mod N + b mod N)"
  proof -
    have "a = a div N * N + a mod N" "b = b div N * N + b mod N" by simp_all
    then have "a + b = (a div N + b div N) * N + (a mod N + b mod N)"
      by (metis (no_types) add.assoc add.commute add.left_commute add_mult_distrib)
    then show ?thesis
      by (simp add: add_mult_distrib)
  qed
  also have "\<dots> div N = xh * yh + a div N + b div N + (c div N + a mod N + b mod N) div N"
    using assms by simp
  finally show ?thesis
    by (simp add: a_def b_def c_def)
qed

abbreviation limb :: nat where "limb \<equiv> 2 ^ 64"

lemma unat_hi: "unat (drop_bit 64 w) = unat w div limb" for w :: u128
  by (simp add: drop_bit_eq_div unat_div_distrib)

lemma unat_lo: "unat (ucast (ucast w :: u64) :: u128) = unat w mod limb" for w :: u128
  by (simp add: unat_ucast_u128_u64)

lemma limb_bounds: "unat w div limb < limb" "unat w mod limb < limb" for w :: u128
  using unat_u128_bound [of w] by (simp_all add: less_mult_imp_div_less)

lemma unat_limb_mul:
  fixes a b :: u128
  assumes "unat a < limb" and "unat b < limb"
  shows "unat (a * b) = unat a * unat b"
proof -
  have "unat a * unat b < limb * limb"
    using assms by (intro mult_strict_mono) simp_all
  then show ?thesis
    by (intro unat_mul_u128) simp
qed

lemma unat_carry:
  "unat (drop_bit 64 z0 + ucast (ucast z1 :: u64) + ucast (ucast z2 :: u64) :: u128)
   = unat z0 div limb + unat z1 mod limb + unat z2 mod limb" for z0 z1 z2 :: u128
proof -
  have small: "3 * limb < (2 ^ 128 :: nat)" by simp
  have "unat (drop_bit 64 z0 + ucast (ucast z1 :: u64) :: u128) = unat z0 div limb + unat z1 mod limb"
    using limb_bounds(1) [of z0] limb_bounds(2) [of z1] small
    by (subst unat_add_u128) (simp_all only: unat_lo unat_hi)
  then show ?thesis
    using limb_bounds(1) [of z0] limb_bounds(2) [of z1] limb_bounds(2) [of z2] small
    by (subst unat_add_u128) (simp_all only: unat_lo)
qed

lemma unat_add4_u128:
  fixes a b c d :: u128
  assumes "unat a + unat b + unat c + unat d < 2 ^ 128"
  shows "unat (a + b + c + d) = unat a + unat b + unat c + unat d"
proof -
  have "unat (a + b) = unat a + unat b"
    using assms by (intro unat_add_u128) linarith
  moreover from this have "unat (a + b + c) = unat a + unat b + unat c"
    using assms by (subst unat_add_u128) linarith+
  ultimately show ?thesis
    using assms by (subst unat_add_u128) linarith+
qed

lemma unat_mulh: "unat (mulh x y) = unat x * unat y div 2 ^ 128"
proof -
  define z0 z1 z2 z3 :: u128 where
    "z0 = ucast (ucast x :: u64) * ucast (ucast y :: u64)" and
    "z1 = ucast (ucast x :: u64) * drop_bit 64 y" and
    "z2 = drop_bit 64 x * ucast (ucast y :: u64)" and
    "z3 = drop_bit 64 x * drop_bit 64 y"
  define carry where "carry = drop_bit 64 z0 + ucast (ucast z1 :: u64) + (ucast (ucast z2 :: u64) :: u128)"
  have z: "unat z0 = (unat x mod limb) * (unat y mod limb)"
    "unat z1 = (unat x mod limb) * (unat y div limb)"
    "unat z2 = (unat x div limb) * (unat y mod limb)"
    "unat z3 = (unat x div limb) * (unat y div limb)"
    unfolding z0_def z1_def z2_def z3_def
    by (subst unat_limb_mul; simp only: unat_lo unat_hi limb_bounds)+
  have c: "unat carry = unat z0 div limb + unat z1 mod limb + unat z2 mod limb"
    unfolding carry_def by (rule unat_carry)
  have "unat z3 + unat z1 div limb + unat z2 div limb + unat carry div limb
      = (unat x div limb * limb + unat x mod limb) * (unat y div limb * limb + unat y mod limb)
        div (limb * limb)"
    by (subst mulh_nat) (simp_all only: c z, simp)
  then have total: "unat z3 + unat z1 div limb + unat z2 div limb + unat carry div limb
      = unat x * unat y div 2 ^ 128"
    by (simp only: div_mult_mod_eq) simp
  have "unat x * unat y < 2 ^ 128 * 2 ^ 128"
    using unat_u128_bound [of x] unat_u128_bound [of y] by (intro mult_strict_mono) simp_all
  then have "unat x * unat y div 2 ^ 128 < 2 ^ 128"
    by (rule less_mult_imp_div_less)
  with total have "unat (z3 + drop_bit 64 z1 + drop_bit 64 z2 + drop_bit 64 carry)
      = unat x * unat y div 2 ^ 128"
    by (subst unat_add4_u128) (simp_all only: unat_hi)
  then show ?thesis
    by (simp only: mulh_def Let_def carry_def z0_def z1_def z2_def z3_def)
qed

text \<open>The magic constant is the rounded-up reciprocal, and the error it introduces stays below
  one unit for every 128-bit dividend.\<close>

lemma magic_div:
  fixes n d m e k :: nat
  assumes "m * d = k + e" and "e * n < k" and "0 < d" and "0 < k"
  shows "n * m div k = n div d"
proof -
  have k: "n * m * d = n * k + n * e"
    using assms(1) by (metis distrib_left mult.assoc)
  define q where "q = n div d"
  have qd: "q * d \<le> n" and nq: "n < (q + 1) * d"
    using assms(3) by (simp_all add: q_def dividend_less_div_times)
  have "q * k \<le> n * m"
  proof -
    have "q * k * d = q * d * k" by simp
    also have "\<dots> \<le> n * k" using qd by (rule mult_le_mono1)
    also have "\<dots> \<le> n * m * d" by (simp add: k)
    finally have "q * k * d \<le> n * m * d" .
    then show ?thesis using assms(3) by simp
  qed
  moreover have "n * m < (q + 1) * k"
  proof -
    have "n * k + k \<le> (q + 1) * d * k"
      using nq by (metis Suc_leI add.commute mult_Suc mult_le_mono1)
    then have "n * m * d < (q + 1) * k * d"
      unfolding k using assms(2) by (simp add: algebra_simps)
    then show ?thesis by simp
  qed
  ultimately have "n * m div k = q"
    by (intro div_nat_eqI) (simp_all add: algebra_simps)
  then show ?thesis by (simp add: q_def)
qed

lemma fast_div_base_to_10_eq:
  "fast_div_base_to_10 num = (num div BASE_TO_10_U128, ucast (num mod BASE_TO_10_U128))"
proof -
  let ?M = "233718071534448225491982379416108680074 :: nat"
  let ?B = "839299365868340224 :: nat"
  have B: "unat BASE_TO_10_U128 = ?B"
    by (simp add: BASE_TO_10_U128_def BASE_TO_10_def)
  have M: "unat DIV_BASE_TO_10_MULTIPLY = ?M"
    by (simp add: DIV_BASE_TO_10_MULTIPLY_def)
  have "134545834300418048 * unat num < (2 ^ 187 :: nat)"
    using unat_u128_bound [of num] by simp
  then have "unat num * ?M div 2 ^ 187 = unat num div ?B"
    by (intro magic_div [where e = 134545834300418048]) simp_all
  then have "unat num * ?M div 2 ^ 128 div 2 ^ 59 = unat num div ?B"
    by (simp add: div_mult2_eq [symmetric])
  then have q: "drop_bit DIV_BASE_TO_10_SHIFT (mulh num DIV_BASE_TO_10_MULTIPLY) = num div BASE_TO_10_U128"
    by (simp add: word_unat_eq_iff DIV_BASE_TO_10_SHIFT_def drop_bit_eq_div unat_div_distrib
        unat_mulh B M)
  have "num - num div BASE_TO_10_U128 * BASE_TO_10_U128 = num mod BASE_TO_10_U128"
    by (simp add: minus_div_mult_eq_mod)
  with q show ?thesis
    by (simp add: fast_div_base_to_10_def Let_def)
qed

section \<open>Positional representation\<close>

text \<open>Reference definitions: the \<open>k\<close> least significant base-62 digits, most significant first,
  and the value of a digit list.\<close>

fun digits62 :: "nat \<Rightarrow> nat \<Rightarrow> nat list" where
  "digits62 0 n = []"
| "digits62 (Suc k) n = digits62 k (n div 62) @ [n mod 62]"

definition value62 :: "nat list \<Rightarrow> nat" where
  "value62 ds = foldl (\<lambda>v d. v * 62 + d) 0 ds"

lemma value62_snoc [simp]: "value62 (ds @ [d]) = value62 ds * 62 + d"
  by (simp add: value62_def)

lemma length_digits62 [simp]: "length (digits62 k n) = k"
  by (induction k arbitrary: n) auto

lemma digits62_bound: "d \<in> set (digits62 k n) \<Longrightarrow> d < 62"
  by (induction k arbitrary: n) auto

lemma digits62_append: "digits62 (j + k) n = digits62 j (n div 62 ^ k) @ digits62 k n"
  by (induction k arbitrary: n) (simp_all add: div_mult2_eq)

lemma digits62_mod: "digits62 k (n mod 62 ^ k) = digits62 k n"
proof (induction k arbitrary: n)
  case (Suc k)
  have "n mod 62 ^ Suc k div 62 = n div 62 mod 62 ^ k"
    by (simp add: mod_mult2_eq)
  moreover have "n mod 62 ^ Suc k mod 62 = n mod 62"
    by (simp add: mod_mult2_eq)
  ultimately show ?case
    using Suc.IH [of "n div 62"] by simp
qed simp

lemma value62_digits62: "value62 (digits62 k n) = n mod 62 ^ k"
proof (induction k arbitrary: n)
  case 0
  then show ?case by (simp add: value62_def)
next
  case (Suc k)
  then show ?case by (simp add: mod_mult2_eq)
qed

lemma encode_u64_chunk_eq:
  assumes "ptr + k \<le> length buf"
  shows "encode_u64_chunk num k ptr buf =
    Some (take ptr buf @ map (\<lambda>d. CHARSET ! d) (digits62 k (unat num)) @ drop (ptr + k) buf)"
  using assms
proof (induction k arbitrary: num buf)
  case 0
  then show ?case by simp
next
  case (Suc k)
  define c where "c = CHARSET ! (unat num mod 62)"
  have "unat (num mod BASE) = unat num mod 62" "unat (num div BASE) = unat num div 62"
    by (simp_all add: BASE_def unat_mod_distrib unat_div_distrib)
  moreover have "drop (ptr + k) (buf[ptr + k := c]) = c # drop (Suc (ptr + k)) buf"
    using Suc.prems Cons_nth_drop_Suc [of "ptr + k" "buf[ptr + k := c]"]
    by (simp add: drop_update_cancel)
  ultimately show ?case
    using Suc.prems Suc.IH [of "buf[ptr + k := c]" "num div BASE"]
    by (simp add: buf_write_def c_def)
qed

lemma BASE_TO_10_pow: "unat BASE_TO_10_U128 = 62 ^ 10"
  by (simp add: BASE_TO_10_U128_def BASE_TO_10_def)

lemma digits62_split:
  assumes "n < 2 ^ 128"
  shows "digits62 2 (n div 62 ^ 10 div 62 ^ 10) @ digits62 10 (n div 62 ^ 10 mod 62 ^ 10)
         @ digits62 10 (n mod 62 ^ 10) = digits62 BASE62_LEN n"
proof -
  have "digits62 (2 + 10 + 10) n = digits62 (2 + 10) (n div 62 ^ 10) @ digits62 10 n"
    by (rule digits62_append)
  also have "digits62 (2 + 10) (n div 62 ^ 10)
      = digits62 2 (n div 62 ^ 10 div 62 ^ 10) @ digits62 10 (n div 62 ^ 10)"
    by (rule digits62_append)
  finally show ?thesis
    by (simp only: digits62_mod BASE62_LEN_def) simp
qed

lemma encode_fixed_eq:
  assumes "length buf = BASE62_LEN"
  shows "encode_fixed num buf = Some (map (\<lambda>d. CHARSET ! d) (digits62 BASE62_LEN (unat num)))"
proof -
  let ?cs = "map (\<lambda>d. CHARSET ! d)"
  define q where "q = num div BASE_TO_10_U128"
  have n: "unat num < 2 ^ 128" by (rule unat_u128_bound)
  have uq: "unat q = unat num div 62 ^ 10"
    by (simp only: q_def unat_div_distrib BASE_TO_10_pow)
  have small: "m mod 62 ^ 10 mod 2 ^ 64 = m mod 62 ^ 10" for m :: nat
  proof -
    have "m mod 62 ^ 10 < 62 ^ 10" by simp
    then have "m mod 62 ^ 10 < 2 ^ 64" by (rule less_trans) simp
    then show ?thesis by simp
  qed
  have low: "unat (ucast (num mod BASE_TO_10_U128) :: u64) = unat num mod 62 ^ 10"
    by (simp only: unat_ucast_u128_u64 unat_mod_distrib BASE_TO_10_pow small)
  have mid: "unat (ucast (q mod BASE_TO_10_U128) :: u64) = unat num div 62 ^ 10 mod 62 ^ 10"
    by (simp only: unat_ucast_u128_u64 unat_mod_distrib BASE_TO_10_pow small uq)
  have "unat num div 62 ^ 10 div 62 ^ 10 < 2 ^ 64"
    using n by (simp add: less_mult_imp_div_less)
  then have high: "unat (ucast (q div BASE_TO_10_U128) :: u64) = unat num div 62 ^ 10 div 62 ^ 10"
    by (simp only: unat_ucast_u128_u64 unat_div_distrib BASE_TO_10_pow uq mod_less)
  have len: "length buf = 22" using assms by (simp add: BASE62_LEN_def)
  have "encode_fixed num buf = Some (?cs (digits62 2 (unat num div 62 ^ 10 div 62 ^ 10)
      @ digits62 10 (unat num div 62 ^ 10 mod 62 ^ 10) @ digits62 10 (unat num mod 62 ^ 10)))"
    using len
    by (simp add: encode_fixed_def fast_div_base_to_10_eq flip: q_def)
       (simp add: encode_u64_chunk_eq low mid high del: digits62.simps)
  then show ?thesis
    by (simp only: digits62_split [OF n])
qed

lemma CHARSET_value: "d < 62 \<Longrightarrow> unat (DECODE_LUT ! unat (CHARSET ! d)) = d"
  using b62.unat_hit [of d] by simp

section \<open>Decoding\<close>

abbreviation val62 :: "u8 \<Rightarrow> nat" where
  "val62 b \<equiv> unat (DECODE_LUT ! unat b)"

lemma foldl_value62_ge: "v \<le> foldl (\<lambda>v d. v * 62 + d) v ds" for v :: nat
proof (induction ds arbitrary: v)
  case (Cons d ds)
  have "v \<le> v * 62 + d" by simp
  also have "\<dots> \<le> foldl (\<lambda>v d. v * 62 + d) (v * 62 + d) ds" by (rule Cons.IH)
  finally show ?case by simp
qed simp

lemma unat_of_nat_u128: "n < 2 ^ 128 \<Longrightarrow> unat (of_nat n :: u128) = n"
  by (simp add: unat_of_nat)

lemma unat_ucast_u8_u128: "unat (ucast (x :: u8) :: u128) = unat x"
proof -
  have "unat x < 2 ^ LENGTH(128)"
    using unat_less_256 [of x] by (rule less_trans) simp
  then show ?thesis
    by (simp only: unsigned_ucast_eq take_bit_nat_eq_self)
qed

lemma decode_step:
  "do { r \<leftarrow> checked_mul_u128 result (ucast BASE); checked_add_u128 r (ucast v) }
   = (if unat result * 62 + unat (v :: u8) < 2 ^ 128
      then Some (of_nat (unat result * 62 + unat v)) else None)"
proof -
  have b: "unat BASE = 62" by (simp add: BASE_def)
  show ?thesis
    by (auto simp: checked_mul_u128_def checked_add_u128_def b unat_ucast_u8_u128 unat_mul_u128
        word_unat_eq_iff unat_add_u128 unat_of_nat)
qed

lemma decode_loop_Inr:
  "decode_loop bs pos r = Inr v \<longleftrightarrow>
     set bs \<subseteq> set CHARSET \<and> foldl (\<lambda>v d. v * 62 + d) (unat r) (map val62 bs) = unat v"
proof (induction bs arbitrary: pos r)
  case Nil
  then show ?case by (simp add: word_unat_eq_iff)
next
  case (Cons b bs)
  let ?n = "unat r * 62 + val62 b"
  show ?case
  proof (cases "b \<in> set CHARSET \<and> ?n < 2 ^ 128")
    case True
    then have "unat (of_nat ?n :: u128) = ?n"
      by (intro unat_of_nat_u128) simp
    with True Cons.IH show ?thesis
      by (simp add: Let_def b62.valid_iff decode_step del: of_nat_add of_nat_mult)
  next
    case False
    have "unat v < 2 ^ 128" by (rule unat_u128_bound)
    moreover have "?n \<le> foldl (\<lambda>v d. v * 62 + d) ?n (map val62 bs)"
      by (rule foldl_value62_ge)
    ultimately show ?thesis
      using False by (auto simp: Let_def b62.valid_iff decode_step)
  qed
qed

lemma decode_fixed_Inr:
  "decode_fixed s = Inr v \<longleftrightarrow> set s \<subseteq> set CHARSET \<and> value62 (map val62 s) = unat v"
  by (simp add: decode_fixed_def decode_loop_Inr value62_def)

lemma val62_encoded: "map val62 (map (\<lambda>d. CHARSET ! d) (digits62 k n)) = digits62 k n"
  by (auto intro!: map_idI simp: CHARSET_value dest: digits62_bound)

lemma encoded_in_CHARSET: "set (map (\<lambda>d. CHARSET ! d) (digits62 k n)) \<subseteq> set CHARSET"
  by (auto dest: digits62_bound)

lemma value62_inj:
  assumes "\<forall>d \<in> set ds. d < 62"
  shows "digits62 (length ds) (value62 ds) = ds"
  using assms
proof (induction ds rule: rev_induct)
  case (snoc d ds)
  then show ?case by simp
qed simp

section \<open>Properties\<close>

text \<open>C31: the division-free encoder is exact.  For every \<^verbatim>\<open>u128\<close> the magic-number
  multiplication of \<open>fast_div_base_to_10\<close> gives the true quotient and remainder by
  \<^verbatim>\<open>62^10\<close>; no 128-bit operation wraps and the remainder fits the returned \<^verbatim>\<open>u64\<close>.\<close>

theorem fast_div_exact:
  "fast_div_base_to_10 num = (q, r) \<Longrightarrow>
     unat q = unat num div 62 ^ 10 \<and> unat r = unat num mod 62 ^ 10"
proof -
  assume "fast_div_base_to_10 num = (q, r)"
  then have q: "q = num div BASE_TO_10_U128" and r: "r = ucast (num mod BASE_TO_10_U128)"
    by (simp_all add: fast_div_base_to_10_eq)
  have "unat num mod 62 ^ 10 < 2 ^ 64"
    by (rule less_trans [where y = "62 ^ 10"]) simp_all
  then show ?thesis
    unfolding q r by (simp only: unat_ucast_u128_u64 unat_div_distrib unat_mod_distrib
        BASE_TO_10_pow mod_less simp_thms)
qed

theorem fast_div_exact_witness:
  "\<exists>q r. fast_div_base_to_10 (2 ^ 128 - 1) = (q, r)
    \<and> unat q = unat (2 ^ 128 - 1 :: u128) div 62 ^ 10 \<and> unat r = unat (2 ^ 128 - 1 :: u128) mod 62 ^ 10"
proof -
  obtain q r where "fast_div_base_to_10 (2 ^ 128 - 1) = (q, r)"
    by fastforce
  with fast_div_exact [OF this] show ?thesis by blast
qed

text \<open>C32: \<open>encode_fixed\<close> followed by \<open>decode_fixed\<close> is the identity on every \<^verbatim>\<open>u128\<close>; the
  encoder never writes out of bounds and fills exactly the 22-byte buffer it is given.\<close>

theorem base62_roundtrip:
  assumes "length buf = BASE62_LEN"
  shows "\<exists>s. encode_fixed num buf = Some s \<and> length s = BASE62_LEN \<and> decode_fixed s = Inr num"
proof -
  have "2 ^ 128 < (62 :: nat) ^ 22" by simp
  with unat_u128_bound [of num] have "unat num < 62 ^ BASE62_LEN"
    unfolding BASE62_LEN_def by (rule less_trans)
  then have "value62 (map val62 (map (\<lambda>d. CHARSET ! d) (digits62 BASE62_LEN (unat num)))) = unat num"
    by (simp only: val62_encoded value62_digits62 mod_less)
  then have "decode_fixed (map (\<lambda>d. CHARSET ! d) (digits62 BASE62_LEN (unat num))) = Inr num"
    using encoded_in_CHARSET by (simp only: decode_fixed_Inr simp_thms)
  then show ?thesis
    using encode_fixed_eq [OF assms, of num] by simp
qed

theorem base62_roundtrip_witness:
  "\<exists>s. encode_fixed 12345 (replicate 22 0) = Some s \<and> length s = BASE62_LEN \<and> decode_fixed s = Inr 12345"
  using base62_roundtrip [of "replicate 22 0" 12345] by (simp add: BASE62_LEN_def)

text \<open>\<open>decode_fixed\<close> accepts no second spelling.  Whatever 22-byte string it accepts is the
  encoding of the number it returns, so an accepted identifier has one textual form, and the
  value never wraps.\<close>

theorem base62_canonical:
  assumes "length s = BASE62_LEN" and "decode_fixed s = Inr num"
  shows "encode_fixed num s = Some s \<and> value62 (map val62 s) = unat num"
proof -
  from assms(2) have s: "set s \<subseteq> set CHARSET" and v: "value62 (map val62 s) = unat num"
    by (simp_all add: decode_fixed_Inr)
  have "\<forall>d \<in> set (map val62 s). d < 62"
    using s b62.value_bound by auto
  then have "digits62 (length (map val62 s)) (value62 (map val62 s)) = map val62 s"
    by (rule value62_inj)
  then have "digits62 BASE62_LEN (unat num) = map val62 s"
    by (simp only: length_map assms(1) v)
  moreover have "map (\<lambda>d. CHARSET ! d) (map val62 s) = s"
    using s b62.decode_then_encode by (auto intro!: map_idI)
  ultimately show ?thesis
    using encode_fixed_eq [OF assms(1), of num] v by simp
qed

theorem base62_canonical_witness:
  "encode_fixed 0 (replicate 22 48) = Some (replicate 22 48)
   \<and> value62 (map val62 (replicate 22 48)) = unat (0 :: u128)"
proof (rule base62_canonical)
  show "length (replicate 22 (48 :: u8)) = BASE62_LEN" by (simp add: BASE62_LEN_def)
  have c: "CHARSET ! 0 = 48" by (simp add: CHARSET_def bytes_of_def)
  then have "val62 48 = 0" "48 \<in> set CHARSET"
    using CHARSET_value [of 0] nth_mem [of 0 CHARSET] by simp_all
  moreover have "value62 (replicate n 0) = 0" for n
    unfolding value62_def by (induction n) simp_all
  ultimately show "decode_fixed (replicate 22 48) = Inr 0"
    by (simp add: decode_fixed_Inr)
qed

end
