(* ===== verification/Hex_Hash.thy ===== *)
theory Hex_Hash
  imports Alphabet
begin

text \<open>
  \<^verbatim>\<open>src/common/utils/hex.rs\<close> and \<^verbatim>\<open>src/app/model/hash.rs\<close>: the hexadecimal decode
  table and the 32-byte \<^verbatim>\<open>Hash\<close> with its textual form of 64 lower-case digits.  The random
  generator and SHA-256 are parameters of \<open>hash_random\<close>.
\<close>

section \<open>Definitions\<close>

definition hex_entry :: "u8 \<Rightarrow> u8" where
  "hex_entry i =
     (if 0x30 \<le> i \<and> i \<le> 0x39 then i - 0x30
      else if 0x61 \<le> i \<and> i \<le> 0x66 then i - 0x61 + 10
      else if 0x41 \<le> i \<and> i \<le> 0x46 then i - 0x41 + 10
      else 0xFF)"

definition HEX_TABLE :: bytes where
  "HEX_TABLE = map (\<lambda>i. hex_entry (of_nat i)) [0..<256]"

definition HEX_CHARS :: bytes where
  "HEX_CHARS = bytes_of ''0123456789abcdef''"

definition hex_to_byte :: "u8 \<Rightarrow> u8 \<Rightarrow> u8 option" where
  "hex_to_byte hi lo =
     (let high = HEX_TABLE ! unat hi
      in if high = 0xFF then None
         else let low = HEX_TABLE ! unat lo
              in if low = 0xFF then None else Some (push_bit 4 high OR low))"

datatype HashError = InvalidLength | InvalidUtf8 | InvalidHex

definition hash_error_display :: "HashError \<Rightarrow> string" where
  "hash_error_display e =
     (case e of InvalidLength \<Rightarrow> ''Invalid Hash length''
      | InvalidUtf8 \<Rightarrow> ''Invalid UTF-8 sequence''
      | InvalidHex \<Rightarrow> ''Invalid hex value'')"

datatype Hash = Hash (hash_bytes: bytes)

text \<open>The array type \<^verbatim>\<open>[u8; 32]\<close>.\<close>

definition hash_wf :: "Hash \<Rightarrow> bool" where
  "hash_wf h \<longleftrightarrow> length (hash_bytes h) = 32"

definition hash_random ::
  "('r \<Rightarrow> nat \<Rightarrow> bytes \<times> 'r) \<Rightarrow> bool \<Rightarrow> (bytes \<Rightarrow> bytes) \<Rightarrow> 'r \<Rightarrow> Hash \<times> 'r" where
  "hash_random fill_bytes SAFE_HASH sha256 r =
     (let (bs, r) = fill_bytes r 32; bs = (if SAFE_HASH then sha256 bs else bs) in (Hash bs, r))"

definition hash_nil :: Hash where
  "hash_nil = Hash (replicate 32 0)"

definition hash_is_nil :: "Hash \<Rightarrow> bool" where
  "hash_is_nil h \<longleftrightarrow> hash_bytes h = replicate 32 0"

fun hash_to_str_loop :: "nat \<Rightarrow> bytes \<Rightarrow> bytes \<Rightarrow> bytes ub" where
  "hash_to_str_loop i [] out = Some out"
| "hash_to_str_loop i (byte # rest) out = do {
     c0 \<leftarrow> slice_get HEX_CHARS (unat (drop_bit 4 byte));
     out \<leftarrow> slice_set out (i * 2) c0;
     c1 \<leftarrow> slice_get HEX_CHARS (unat (byte AND 0x0f));
     out \<leftarrow> slice_set out (i * 2 + 1) c1;
     hash_to_str_loop (Suc i) rest out
   }"

definition hash_to_str :: "Hash \<Rightarrow> bytes \<Rightarrow> bytes ub" where
  "hash_to_str h out = hash_to_str_loop 0 (hash_bytes h) out"

definition hash_display :: "Hash \<Rightarrow> bytes ub" where
  "hash_display h = hash_to_str h (replicate 64 0)"

fun hash_decode_pairs :: "bytes \<Rightarrow> HashError + bytes" where
  "hash_decode_pairs (hi # lo # rest) =
     (case hex_to_byte hi lo of
        None \<Rightarrow> Inl InvalidHex
      | Some b \<Rightarrow> (case hash_decode_pairs rest of Inl e \<Rightarrow> Inl e | Inr bs \<Rightarrow> Inr (b # bs)))"
| "hash_decode_pairs _ = Inr []"

definition hash_from_str :: "bytes \<Rightarrow> HashError + Hash" where
  "hash_from_str s =
     (if length s \<noteq> 64 then Inl InvalidLength
      else case hash_decode_pairs s of Inl e \<Rightarrow> Inl e | Inr bs \<Rightarrow> Inr (Hash bs))"

section \<open>Hexadecimal digits\<close>

definition hex_encode :: "bytes \<Rightarrow> bytes" where
  "hex_encode bs = concat (map (\<lambda>b. [HEX_CHARS ! unat (drop_bit 4 b), HEX_CHARS ! unat (b AND 0xF)]) bs)"

definition to_ascii_lowercase :: "u8 \<Rightarrow> u8" where
  "to_ascii_lowercase b = (if 0x41 \<le> b \<and> b \<le> 0x5A then b OR 0x20 else b)"

lemma hex_encode_simps [simp]:
  "hex_encode [] = []"
  "hex_encode (b # bs) = HEX_CHARS ! unat (drop_bit 4 b) # HEX_CHARS ! unat (b AND 0xF) # hex_encode bs"
  by (simp_all add: hex_encode_def)

lemma length_hex_encode [simp]: "length (hex_encode bs) = 2 * length bs"
  by (induction bs) simp_all

lemma length_HEX_CHARS [simp]: "length HEX_CHARS = 16"
  by (simp add: HEX_CHARS_def)

lemma nibble_bounds [simp]:
  "unat (drop_bit 4 (b :: u8)) < 16" "unat ((b :: u8) AND 0xF) < 16"
proof -
  have "unat (drop_bit 4 b) < 2 ^ 4" "unat (b AND 0xF) < 2 ^ 4"
    by (rule unat_less_pow2I; simp add: bit_simps and_masks)+
  then show "unat (drop_bit 4 b) < 16" "unat (b AND 0xF) < 16" by simp_all
qed

lemma HEX_TABLE_nth: "HEX_TABLE ! unat (b :: u8) = hex_entry b"
  using unat_less_256 [of b] by (simp add: HEX_TABLE_def)

lemma hex_entry_char: "i < 16 \<Longrightarrow> hex_entry (HEX_CHARS ! i) = of_nat i"
proof -
  have "list_all (\<lambda>i. hex_entry (HEX_CHARS ! i) = of_nat i) [0..<16]" by code_simp
  then show "i < 16 \<Longrightarrow> ?thesis" by (simp add: list_all_iff)
qed

lemma hex_entry_valid:
  "hex_entry b \<noteq> 0xFF \<Longrightarrow> unat (hex_entry b) < 16 \<and> HEX_CHARS ! unat (hex_entry b) = to_ascii_lowercase b"
proof -
  have "list_all (\<lambda>i. let b = of_nat i in hex_entry b \<noteq> 0xFF \<longrightarrow>
      unat (hex_entry b) < 16 \<and> HEX_CHARS ! unat (hex_entry b) = to_ascii_lowercase b) [0..<256]"
    by code_simp
  then have "\<forall>i < 256. let b = of_nat i in hex_entry b \<noteq> 0xFF \<longrightarrow>
      unat (hex_entry b) < 16 \<and> HEX_CHARS ! unat (hex_entry b) = to_ascii_lowercase b"
    by (simp add: list_all_iff)
  then show "hex_entry b \<noteq> 0xFF \<Longrightarrow> ?thesis"
    using unat_less_256 [of b] by (auto simp: Let_def dest!: spec [of _ "unat b"])
qed

lemma nibbles_join [codec_simps]: "push_bit 4 (drop_bit 4 b) OR (b AND 0xF) = (b :: u8)"
  unfolding and_masks by (rule u8_eqI; simp add: bit_simps)

lemma nibble_neq_invalid: "unat (x :: u8) < 16 \<Longrightarrow> x \<noteq> 0xFF"
  by auto

lemma hex_to_byte_encode [codec_simps]:
  "hex_to_byte (HEX_CHARS ! unat (drop_bit 4 b)) (HEX_CHARS ! unat (b AND 0xF)) = Some b"
proof -
  have "drop_bit 4 b \<noteq> 0xFF" "b AND 0xF \<noteq> 0xFF"
    by (rule nibble_neq_invalid, simp)+
  then show ?thesis
    by (simp add: hex_to_byte_def HEX_TABLE_nth hex_entry_char nibbles_join)
qed

lemma nibbles_split:
  assumes "unat (h :: u8) < 16" "unat (l :: u8) < 16"
  shows "drop_bit 4 (push_bit 4 h OR l) = h" "(push_bit 4 h OR l) AND 0xF = l"
proof -
  have "unat h < 2 ^ 4" "unat l < 2 ^ 4" using assms by simp_all
  note high = this [THEN not_bit_small]
  show "drop_bit 4 (push_bit 4 h OR l) = h" "(push_bit 4 h OR l) AND 0xF = l"
    unfolding and_masks
    by (rule u8_eqI; simp add: bit_simps high)+
qed

lemma hex_to_byte_Some:
  "hex_to_byte hi lo = Some b \<Longrightarrow>
     HEX_CHARS ! unat (drop_bit 4 b) = to_ascii_lowercase hi
     \<and> HEX_CHARS ! unat (b AND 0xF) = to_ascii_lowercase lo"
proof -
  assume "hex_to_byte hi lo = Some b"
  then have v: "hex_entry hi \<noteq> 0xFF" "hex_entry lo \<noteq> 0xFF"
    and b: "b = push_bit 4 (hex_entry hi) OR hex_entry lo"
    by (auto simp: hex_to_byte_def HEX_TABLE_nth Let_def split: if_splits)
  show ?thesis
    unfolding b using v hex_entry_valid nibbles_split by metis
qed

section \<open>The loops of the codec\<close>

lemma hash_to_str_loop_eq:
  "length pre = 2 * i \<Longrightarrow> length junk = 2 * length bs \<Longrightarrow>
   hash_to_str_loop i bs (pre @ junk @ post) = Some (pre @ hex_encode bs @ post)"
proof (induction bs arbitrary: i pre junk)
  case Nil
  then show ?case by simp
next
  case (Cons b bs)
  from Cons.prems obtain x y junk' where j: "junk = x # y # junk'" "length junk' = 2 * length bs"
    by (auto simp: length_Suc_conv)
  let ?c0 = "HEX_CHARS ! unat (drop_bit 4 b)" and ?c1 = "HEX_CHARS ! unat (b AND 0xF)"
  have s0: "slice_set (pre @ x # y # junk' @ post) (i * 2) ?c0 = Some (pre @ ?c0 # y # junk' @ post)"
    using slice_set_middle [of pre x "y # junk' @ post" ?c0] Cons.prems(1) by (simp add: mult.commute)
  have s1: "slice_set (pre @ ?c0 # y # junk' @ post) (i * 2 + 1) ?c1
      = Some (pre @ ?c0 # ?c1 # junk' @ post)"
    using slice_set_middle [of "pre @ [?c0]" y "junk' @ post" ?c1] Cons.prems(1)
    by (simp add: mult.commute)
  have "hash_to_str_loop (Suc i) bs ((pre @ [?c0, ?c1]) @ junk' @ post)
      = Some ((pre @ [?c0, ?c1]) @ hex_encode bs @ post)"
    by (rule Cons.IH) (use Cons.prems j in simp_all)
  with s0 s1 show ?case by (simp add: j)
qed

lemma hash_to_str_eq:
  "hash_wf h \<Longrightarrow> length out = 64 \<Longrightarrow> hash_to_str h out = Some (hex_encode (hash_bytes h))"
  using hash_to_str_loop_eq [of "[]" 0 out "hash_bytes h" "[]"]
  by (simp add: hash_to_str_def hash_wf_def)

lemma hash_decode_pairs_encode [codec_simps]: "hash_decode_pairs (hex_encode bs) = Inr bs"
  by (induction bs) (simp_all add: hex_to_byte_encode)

lemma hash_decode_pairs_Inr:
  "hash_decode_pairs s = Inr bs \<Longrightarrow> even (length s) \<Longrightarrow>
   hex_encode bs = map to_ascii_lowercase s \<and> 2 * length bs = length s"
  by (induction s arbitrary: bs rule: hash_decode_pairs.induct)
     (auto simp: hex_to_byte_Some split: option.splits sum.splits)

section \<open>Properties\<close>

text \<open>The textual form of a hash is faithful.  Printing a 32-byte hash succeeds and parsing the
  result gives the hash back.\<close>

theorem hash_roundtrip:
  assumes "hash_wf h"
  shows "\<exists>s. hash_display h = Some s \<and> hash_from_str s = Inr h"
  using assms hash_to_str_eq [of h "replicate 64 0"]
  by (cases h) (simp add: hash_display_def hash_from_str_def hash_decode_pairs_encode hash_wf_def)

theorem hash_roundtrip_witness:
  "\<exists>s. hash_display (Hash (map of_nat [0..<32])) = Some s \<and> hash_from_str s = Inr (Hash (map of_nat [0..<32]))"
  by (rule hash_roundtrip) (simp add: hash_wf_def)

text \<open>Parsing a hash accepts hexadecimal text of either case and nothing else is lost.  When
  \<open>from_str\<close> accepts a text, it has 64 characters, the hash has 32 bytes and prints as the
  lower-case form of that text.\<close>

theorem hash_from_str_canonical:
  assumes "hash_from_str s = Inr h"
  shows "length s = 64 \<and> hash_wf h \<and> hash_display h = Some (map to_ascii_lowercase s)"
proof -
  from assms obtain bs where s: "length s = 64" and bs: "hash_decode_pairs s = Inr bs" and h: "h = Hash bs"
    by (auto simp: hash_from_str_def split: if_splits sum.splits)
  then have "hex_encode bs = map to_ascii_lowercase s" "length bs = 32"
    using hash_decode_pairs_Inr [of s bs] by auto
  with s h show ?thesis
    using hash_to_str_eq [of h "replicate 64 0"] by (simp add: hash_display_def hash_wf_def)
qed

theorem hash_from_str_canonical_witness:
  "length (replicate 64 (0x41 :: u8)) = 64 \<and> hash_wf (Hash (replicate 32 0xAA))
    \<and> hash_display (Hash (replicate 32 0xAA)) = Some (map to_ascii_lowercase (replicate 64 0x41))"
proof (rule hash_from_str_canonical)
  have "hex_to_byte 0x41 0x41 = Some 0xAA"
    by (simp only: hex_to_byte_def HEX_TABLE_nth) code_simp
  then have "hash_decode_pairs (replicate (2 * n) 0x41) = Inr (replicate n 0xAA)" for n
    by (induction n) simp_all
  from this [of 32] show "hash_from_str (replicate 64 0x41) = Inr (Hash (replicate 32 0xAA))"
    by (simp only: hash_from_str_def) simp
qed

end
