(* ===== verification/Ulid.thy ===== *)
theory Ulid
  imports Alphabet
begin

text \<open>
  \<^verbatim>\<open>patch/ulid-1.2.1/src/base32.rs\<close>: the Crockford base32 codec of the patched \<^verbatim>\<open>ulid\<close>
  crate, which prints and parses the 128-bit user identifiers as 26 characters.
\<close>

section \<open>Definitions\<close>

definition ULID_LEN :: nat where
  "ULID_LEN = 26"

definition ALPHABET :: bytes where
  "ALPHABET = bytes_of ''0123456789ABCDEFGHJKMNPQRSTVWXYZ''"

definition NO_VALUE :: u8 where
  "NO_VALUE = 255"

definition LOOKUP :: bytes where
  "LOOKUP =
     [255, 255, 255, 255, 255, 255, 255, 255, 255, 255, 255, 255, 255, 255, 255, 255, 255, 255, 255, 255, 255, 255, 255, 255,
      255, 255, 255, 255, 255, 255, 255, 255, 255, 255, 255, 255, 255, 255, 255, 255, 255, 255, 255, 255, 255, 255, 255, 255,
      0, 1, 2, 3, 4, 5, 6, 7, 8, 9, 255, 255, 255, 255, 255, 255, 255, 10, 11, 12, 13, 14, 15, 16,
      17, 255, 18, 19, 255, 20, 21, 255, 22, 23, 24, 25, 26, 255, 27, 28, 29, 30, 31, 255, 255, 255, 255, 255,
      255, 10, 11, 12, 13, 14, 15, 16, 17, 255, 18, 19, 255, 20, 21, 255, 22, 23, 24, 25, 26, 255, 27, 28,
      29, 30, 31, 255, 255, 255, 255, 255, 255, 255, 255, 255, 255, 255, 255, 255, 255, 255, 255, 255, 255, 255, 255, 255,
      255, 255, 255, 255, 255, 255, 255, 255, 255, 255, 255, 255, 255, 255, 255, 255, 255, 255, 255, 255, 255, 255, 255, 255,
      255, 255, 255, 255, 255, 255, 255, 255, 255, 255, 255, 255, 255, 255, 255, 255, 255, 255, 255, 255, 255, 255, 255, 255,
      255, 255, 255, 255, 255, 255, 255, 255, 255, 255, 255, 255, 255, 255, 255, 255, 255, 255, 255, 255, 255, 255, 255, 255,
      255, 255, 255, 255, 255, 255, 255, 255, 255, 255, 255, 255, 255, 255, 255, 255, 255, 255, 255, 255, 255, 255, 255, 255,
      255, 255, 255, 255, 255, 255, 255, 255, 255, 255, 255, 255, 255, 255, 255, 255]"

datatype DecodeError = UlidInvalidLength | UlidInvalidChar

text \<open>The loop \<^verbatim>\<open>for i in 0..ULID_LEN\<close>; \<open>k\<close> counts the remaining iterations.\<close>

fun encode_to_array_loop :: "nat \<Rightarrow> nat \<Rightarrow> u128 \<Rightarrow> bytes \<Rightarrow> bytes ub" where
  "encode_to_array_loop i 0 value buffer = Some buffer"
| "encode_to_array_loop i (Suc k) value buffer = do {
     c \<leftarrow> slice_get ALPHABET (unat (value AND 0x1f));
     buffer \<leftarrow> slice_set buffer (ULID_LEN - 1 - i) c;
     encode_to_array_loop (i + 1) k (drop_bit 5 value) buffer
   }"

definition encode_to_array :: "u128 \<Rightarrow> bytes \<Rightarrow> bytes ub" where
  "encode_to_array value buffer = encode_to_array_loop 0 ULID_LEN value buffer"

definition ulid_encode :: "u128 \<Rightarrow> bytes ub" where
  "ulid_encode value = encode_to_array value (replicate ULID_LEN 0)"

fun ulid_decode_loop :: "u128 \<Rightarrow> bytes \<Rightarrow> DecodeError + u128" where
  "ulid_decode_loop value [] = Inr value"
| "ulid_decode_loop value (b # bs) =
     (let val = LOOKUP ! unat b
      in if val \<noteq> NO_VALUE then ulid_decode_loop (push_bit 5 value OR ucast val) bs
         else Inl UlidInvalidChar)"

definition ulid_decode :: "bytes \<Rightarrow> DecodeError + u128" where
  "ulid_decode encoded =
     (if length encoded \<noteq> ULID_LEN then Inl UlidInvalidLength else ulid_decode_loop 0 encoded)"

section \<open>Base-32 digits\<close>

primrec digits32 :: "nat \<Rightarrow> nat \<Rightarrow> nat list" where
  "digits32 0 v = []"
| "digits32 (Suc k) v = digits32 k (v div 32) @ [v mod 32]"

definition value32 :: "nat list \<Rightarrow> nat" where
  "value32 ds = foldl (\<lambda>acc d. acc * 32 + d) 0 ds"

lemma length_digits32 [simp]: "length (digits32 k v) = k"
  by (induction k arbitrary: v) simp_all

lemma digits32_bound: "d \<in> set (digits32 k v) \<Longrightarrow> d < 32"
  by (induction k arbitrary: v) auto

lemma value32_digits32: "value32 (digits32 k v) = v mod 32 ^ k"
proof (induction k arbitrary: v)
  case (Suc k)
  have "value32 (digits32 k (v div 32) @ [v mod 32]) = value32 (digits32 k (v div 32)) * 32 + v mod 32"
    by (simp add: value32_def)
  also have "\<dots> = v mod 32 ^ Suc k"
    by (simp add: Suc.IH mod_mult2_eq)
  finally show ?case by simp
qed (simp add: value32_def)

section \<open>The loops\<close>

lemma length_ALPHABET [simp]: "length ALPHABET = 32"
  by (simp add: ALPHABET_def)

lemma LOOKUP_ALPHABET: "d < 32 \<Longrightarrow> LOOKUP ! unat (ALPHABET ! d) = of_nat d"
proof -
  have "list_all (\<lambda>d. LOOKUP ! unat (ALPHABET ! d) = of_nat d) [0..<32]" by code_simp
  then show "d < 32 \<Longrightarrow> ?thesis" by (simp add: list_all_iff)
qed

lemma LOOKUP_bound: "LOOKUP ! unat (b :: u8) \<noteq> NO_VALUE \<Longrightarrow> unat (LOOKUP ! unat b) < 32"
proof -
  have "length LOOKUP = 256" "list_all (\<lambda>x. x \<noteq> NO_VALUE \<longrightarrow> unat x < 32) LOOKUP" by code_simp+
  then show "LOOKUP ! unat b \<noteq> NO_VALUE \<Longrightarrow> ?thesis"
    using unat_less_256 [of b] by (simp add: list_all_length)
qed

lemma unat_and_1f: "unat (v AND 0x1f :: u128) = unat v mod 32"
proof -
  have "v AND 0x1f = take_bit 5 v" by (simp add: take_bit_eq_mask mask_eq_exp_minus_1)
  then show ?thesis by (simp only: unsigned_take_bit_eq) (simp add: take_bit_eq_mod)
qed

lemma unat_drop_5: "unat (drop_bit 5 v :: u128) = unat v div 32"
  by (simp add: drop_bit_eq_div unat_div_distrib)

lemma shift_in:
  fixes x :: u8
  assumes "unat x < 32"
  shows "push_bit 5 (of_nat n :: u128) OR ucast x = of_nat (n * 32 + unat x)"
proof -
  have "unat x < 2 ^ 5" using assms by simp
  note small = not_bit_small [OF this]
  have "push_bit 5 (of_nat n :: u128) AND ucast x = 0"
    by (rule bit_word_eqI) (auto simp: bit_simps dest: small)
  then have "push_bit 5 (of_nat n :: u128) OR ucast x = push_bit 5 (of_nat n) + ucast x"
    by (simp add: disjunctive_add_eq_or)
  also have "\<dots> = of_nat (n * 32 + unat x)"
    by (simp add: push_bit_eq_mult)
  finally show ?thesis .
qed

lemma ulid_decode_loop_eq:
  "ulid_decode_loop (of_nat n) bs =
     (if \<forall>b \<in> set bs. LOOKUP ! unat b \<noteq> NO_VALUE
      then Inr (of_nat (foldl (\<lambda>acc d. acc * 32 + d) n (map (\<lambda>b. unat (LOOKUP ! unat b)) bs)))
      else Inl UlidInvalidChar)"
proof (induction bs arbitrary: n)
  case (Cons b bs)
  show ?case
  proof (cases "LOOKUP ! unat b = NO_VALUE")
    case False
    then have "push_bit 5 (of_nat n :: u128) OR ucast (LOOKUP ! unat b)
        = of_nat (n * 32 + unat (LOOKUP ! unat b))"
      by (intro shift_in LOOKUP_bound)
    with False Cons.IH [of "n * 32 + unat (LOOKUP ! unat b)"] show ?thesis
      by (simp del: of_nat_add of_nat_mult)
  qed simp
qed simp

lemma encode_to_array_loop_eq:
  "i + k = ULID_LEN \<Longrightarrow> length pre = k \<Longrightarrow>
   encode_to_array_loop i k v (pre @ post)
     = Some (map (\<lambda>d. ALPHABET ! d) (digits32 k (unat v)) @ post)"
proof (induction k arbitrary: i v pre post)
  case (Suc k)
  then obtain pre' x where pre: "pre = pre' @ [x]" "length pre' = k"
    by (auto simp: length_Suc_conv_rev)
  have i: "ULID_LEN - 1 - i = length pre'" using Suc.prems(1) pre(2) by simp
  define c where "c = ALPHABET ! (unat v mod 32)"
  have "encode_to_array_loop (i + 1) k (drop_bit 5 v) (pre' @ c # post)
      = Some (map (\<lambda>d. ALPHABET ! d) (digits32 k (unat (drop_bit 5 v))) @ c # post)"
    using Suc.prems(1) pre(2) by (intro Suc.IH) simp_all
  with slice_set_middle [of pre' x post c] show ?case
    unfolding encode_to_array_loop.simps pre(1) i unat_and_1f
    by (simp add: unat_drop_5 c_def del: drop_bit_numeral_bit0)
qed simp

lemma ulid_encode_eq:
  assumes "length buffer = ULID_LEN"
  shows "encode_to_array v buffer = Some (map (\<lambda>d. ALPHABET ! d) (digits32 ULID_LEN (unat v)))"
  using encode_to_array_loop_eq [of 0 ULID_LEN buffer v "[]"] assms
  by (simp add: encode_to_array_def)

lemma ulid_decode_encoded:
  "ulid_decode (map (\<lambda>d. ALPHABET ! d) (digits32 ULID_LEN (unat v))) = Inr v"
proof -
  let ?ds = "digits32 ULID_LEN (unat v)"
  have vals: "unat (LOOKUP ! unat (ALPHABET ! d)) = d" if "d \<in> set ?ds" for d
  proof -
    have "d < 32" using that by (rule digits32_bound)
    then show ?thesis by (simp add: LOOKUP_ALPHABET unat_of_nat)
  qed
  then have valid: "LOOKUP ! unat (ALPHABET ! d) \<noteq> NO_VALUE" if "d \<in> set ?ds" for d
    using that digits32_bound [OF that] by (fastforce simp: NO_VALUE_def)
  have "map (\<lambda>b. unat (LOOKUP ! unat b)) (map (\<lambda>d. ALPHABET ! d) ?ds) = ?ds"
    by (simp add: map_idI vals)
  then have "ulid_decode (map (\<lambda>d. ALPHABET ! d) ?ds) = Inr (of_nat (value32 ?ds))"
    using ulid_decode_loop_eq [of 0 "map (\<lambda>d. ALPHABET ! d) ?ds"] valid
    by (simp add: ulid_decode_def value32_def)
  moreover have "unat v mod 32 ^ ULID_LEN = unat v"
  proof (rule mod_less)
    have "unat v < 2 ^ 128" using unsigned_less [of v] by simp
    also have "\<dots> < 32 ^ ULID_LEN" by (simp add: ULID_LEN_def)
    finally show "unat v < 32 ^ ULID_LEN" .
  qed
  ultimately show ?thesis by (simp add: value32_digits32)
qed

section \<open>Properties\<close>

text \<open>User identifiers survive their base32 text.  Encoding any 128-bit value into a 26-byte
  buffer writes every position and never leaves the buffer, and decoding the text gives the
  value back.\<close>

theorem ulid_roundtrip: "\<exists>s. ulid_encode v = Some s \<and> length s = ULID_LEN \<and> ulid_decode s = Inr v"
  by (simp add: ulid_encode_def ulid_encode_eq ulid_decode_encoded)

end
