(* ===== verification/Text_Util.thy ===== *)
theory Text_Util
  imports Prelude
begin

text \<open>
  The operations of Rust's standard library on \<^verbatim>\<open>&str\<close> that the program uses, on byte lists:
  \<^verbatim>\<open>strip_prefix\<close>, \<^verbatim>\<open>split_once\<close> with a one-byte separator, \<^verbatim>\<open>parse\<close> for unsigned and
  signed 64-bit integers and the decimal \<^verbatim>\<open>Display\<close> of integers.
\<close>

section \<open>Prefixes and separators\<close>

definition strip_prefix :: "bytes \<Rightarrow> bytes \<Rightarrow> bytes option" where
  "strip_prefix p s = (if take (length p) s = p then Some (drop (length p) s) else None)"

fun split_once :: "u8 \<Rightarrow> bytes \<Rightarrow> (bytes \<times> bytes) option" where
  "split_once c [] = None"
| "split_once c (b # bs) =
     (if b = c then Some ([], bs)
      else case split_once c bs of None \<Rightarrow> None | Some (x, y) \<Rightarrow> Some (b # x, y))"

lemma strip_prefix_append [simp]: "strip_prefix p (p @ s) = Some s"
  by (simp add: strip_prefix_def)

lemma strip_prefix_Some: "strip_prefix p s = Some r \<longleftrightarrow> s = p @ r"
  unfolding strip_prefix_def by (metis append_eq_conv_conj option.distinct(1) option.inject)

lemma split_once_append [simp]: "c \<notin> set x \<Longrightarrow> split_once c (x @ c # y) = Some (x, y)"
  by (induction x) auto

lemma split_once_Some: "split_once c s = Some (x, y) \<longleftrightarrow> s = x @ c # y \<and> c \<notin> set x"
proof
  show "split_once c s = Some (x, y) \<Longrightarrow> s = x @ c # y \<and> c \<notin> set x"
    by (induction s arbitrary: x) (auto split: option.splits if_splits prod.splits)
qed auto

lemma split_once_None: "split_once c s = None \<longleftrightarrow> c \<notin> set s"
  by (induction s) (auto split: option.splits)

section \<open>Decimal integers\<close>

definition is_ascii_digit :: "u8 \<Rightarrow> bool" where
  "is_ascii_digit b \<longleftrightarrow> 0x30 \<le> b \<and> b \<le> 0x39"

definition digit_char :: "nat \<Rightarrow> u8" where
  "digit_char d = of_nat (48 + d)"

fun show_nat :: "nat \<Rightarrow> bytes" where
  "show_nat n = (if n < 10 then [digit_char n] else show_nat (n div 10) @ [digit_char (n mod 10)])"

declare show_nat.simps [simp del]

definition show_int :: "int \<Rightarrow> bytes" where
  "show_int i = (if i < 0 then 0x2D # show_nat (nat (- i)) else show_nat (nat i))"

text \<open>\<open>checked_mul\<close> and \<open>checked_add\<close> with the limit of the target type; \<^term>\<open>None\<close> is a
  \<^verbatim>\<open>ParseIntError\<close>.\<close>

fun parse_digits :: "nat \<Rightarrow> nat \<Rightarrow> bytes \<Rightarrow> nat option" where
  "parse_digits limit acc [] = Some acc"
| "parse_digits limit acc (b # bs) =
     (if is_ascii_digit b then
        let v = acc * 10 + (unat b - 48)
        in if v < limit then parse_digits limit v bs else None
      else None)"

definition parse_unsigned :: "nat \<Rightarrow> bytes \<Rightarrow> nat option" where
  "parse_unsigned width s =
     (case s of
        [] \<Rightarrow> None
      | b # bs \<Rightarrow>
          if b = 0x2B then (if bs = [] then None else parse_digits (2 ^ width) 0 bs)
          else parse_digits (2 ^ width) 0 s)"

definition parse_signed :: "nat \<Rightarrow> bytes \<Rightarrow> int option" where
  "parse_signed width s =
     (case s of
        [] \<Rightarrow> None
      | b # bs \<Rightarrow>
          if b = 0x2B \<or> b = 0x2D then
            (if bs = [] then None
             else if b = 0x2B then map_option int (parse_digits (2 ^ (width - 1)) 0 bs)
             else map_option (\<lambda>n. - int n) (parse_digits (2 ^ (width - 1) + 1) 0 bs))
          else map_option int (parse_digits (2 ^ (width - 1)) 0 s))"

lemma digit_char_facts:
  assumes "d < 10"
  shows "is_ascii_digit (digit_char d)" "unat (digit_char d) - 48 = d"
    "digit_char d \<noteq> 0x2B" "digit_char d \<noteq> 0x2D"
proof -
  have "list_all (\<lambda>d. is_ascii_digit (digit_char d) \<and> unat (digit_char d) - 48 = d
      \<and> digit_char d \<noteq> 0x2B \<and> digit_char d \<noteq> 0x2D) [0..<10]"
    by code_simp
  then show "is_ascii_digit (digit_char d)" "unat (digit_char d) - 48 = d"
    "digit_char d \<noteq> 0x2B" "digit_char d \<noteq> 0x2D"
    using assms by (simp_all add: list_all_iff)
qed

lemma show_nat_digits: "b \<in> set (show_nat n) \<Longrightarrow> is_ascii_digit b"
proof (induction n rule: show_nat.induct)
  case (1 n)
  then show ?case
    by (subst (asm) (2) show_nat.simps)
       (auto simp: digit_char_facts split: if_splits)
qed

lemma show_nat_nonempty [simp]: "show_nat n \<noteq> []"
  by (subst show_nat.simps) simp

lemma parse_digits_append:
  "parse_digits l acc (xs @ ys) =
     (case parse_digits l acc xs of None \<Rightarrow> None | Some v \<Rightarrow> parse_digits l v ys)"
  by (induction xs arbitrary: acc) (simp_all add: Let_def)

lemma parse_show_digits: "n < limit \<Longrightarrow> parse_digits limit 0 (show_nat n) = Some n"
proof (induction n rule: show_nat.induct)
  case (1 n)
  show ?case
  proof (cases "n < 10")
    case True
    with "1.prems" show ?thesis
      by (subst show_nat.simps) (simp add: digit_char_facts)
  next
    case False
    with 1 have "parse_digits limit 0 (show_nat (n div 10)) = Some (n div 10)" by simp
    with False "1.prems" show ?thesis
      by (subst show_nat.simps) (simp add: parse_digits_append digit_char_facts)
  qed
qed

lemma hd_show_nat: "\<exists>b bs. show_nat n = b # bs \<and> b \<noteq> 0x2B \<and> b \<noteq> 0x2D"
proof -
  obtain b bs where s: "show_nat n = b # bs" by (cases "show_nat n") simp_all
  then have "is_ascii_digit b" using show_nat_digits [of b n] by simp
  with s show ?thesis by (auto simp: is_ascii_digit_def)
qed

lemma parse_unsigned_show [codec_simps]: "n < 2 ^ w \<Longrightarrow> parse_unsigned w (show_nat n) = Some n"
proof -
  assume n: "n < 2 ^ w"
  obtain b bs where s: "show_nat n = b # bs" "b \<noteq> 0x2B" using hd_show_nat by blast
  then show ?thesis
    using parse_show_digits [OF n] by (simp add: parse_unsigned_def)
qed

lemma parse_signed_show [codec_simps]:
  "- (2 ^ (w - 1)) \<le> i \<Longrightarrow> i < 2 ^ (w - 1) \<Longrightarrow> parse_signed w (show_int i) = Some i"
proof -
  assume lo: "- (2 ^ (w - 1)) \<le> i" and hi: "i < 2 ^ (w - 1)"
  show ?thesis
  proof (cases "i < 0")
    case True
    have "- i \<le> 2 ^ (w - 1)" using lo by simp
    then have "nat (- i) \<le> 2 ^ (w - 1)" by (simp only: nat_le_iff of_nat_power) simp
    then have "nat (- i) < 2 ^ (w - 1) + 1" by (simp only: less_Suc_eq_le Suc_eq_plus1 [symmetric])
    then have "parse_digits (2 ^ (w - 1) + 1) 0 (show_nat (nat (- i))) = Some (nat (- i))"
      by (rule parse_show_digits)
    with True show ?thesis by (simp add: parse_signed_def show_int_def)
  next
    case False
    have "nat i < nat (2 ^ (w - 1))" using hi False by (simp add: nat_less_iff)
    then have "nat i < 2 ^ (w - 1)" by (simp add: nat_power_eq)
    then have "parse_digits (2 ^ (w - 1)) 0 (show_nat (nat i)) = Some (nat i)"
      by (rule parse_show_digits)
    moreover obtain b bs where "show_nat (nat i) = b # bs" "b \<noteq> 0x2B" "b \<noteq> 0x2D"
      using hd_show_nat by blast
    ultimately show ?thesis using False by (simp add: parse_signed_def show_int_def)
  qed
qed

lemma length_show_nat: "n < 10 ^ k \<Longrightarrow> 0 < k \<Longrightarrow> length (show_nat n) \<le> k"
proof (induction k arbitrary: n)
  case (Suc k)
  show ?case
  proof (cases "n < 10")
    case True
    then show ?thesis by (subst show_nat.simps) simp
  next
    case False
    with Suc.prems have "n div 10 < 10 ^ k" "0 < k"
      by (simp_all add: less_mult_imp_div_less mult.commute) (cases k; simp)
    with False Suc.IH [of "n div 10"] show ?thesis
      by (subst show_nat.simps) simp
  qed
qed simp

end
