(* ===== verification/Base64.thy ===== *)
theory Base64
  imports Alphabet
begin

text \<open>
  \<^verbatim>\<open>src/common/utils/base64.rs\<close>: the unpadded base64 codec with a private alphabet that
  carries token keys.  The encoder and decoder write through unchecked indices into
  uninitialised memory; the model keeps those writes, so the theorems show that every write
  is in bounds, that the returned buffer is fully initialised and that the two directions
  are inverse.
\<close>

section \<open>Definitions\<close>

definition BASE64_CHARS :: bytes where
  "BASE64_CHARS = bytes_of ''-AaBbCcDdEeFfGgHhIiJjKkLlMmNnOoPpQqRrSsTtUuVvWwXxYyZz1032547698_''"

definition BASE64_DECODE_TABLE :: bytes where
  "BASE64_DECODE_TABLE = decode_lut BASE64_CHARS"

definition encoded_len :: "nat \<Rightarrow> nat" where
  "encoded_len input_len =
     (let d = input_len div 3; r = input_len mod 3
      in (if r > 0 then d + 1 else d) * 4
         - (if r = 1 then 2 else if r = 2 then 1 else 0))"

definition decoded_len :: "nat \<Rightarrow> nat option" where
  "decoded_len n =
     (if n mod 4 = 0 then Some ((n div 4) * 3)
      else if n mod 4 = 2 then Some ((n div 4) * 3 + 1)
      else if n mod 4 = 3 then Some ((n div 4) * 3 + 2)
      else None)"

definition enc_char :: "u32 \<Rightarrow> u8 ub" where
  "enc_char k = slice_get BASE64_CHARS (unat k)"

definition dec_char :: "u8 \<Rightarrow> u8 ub" where
  "dec_char c = slice_get BASE64_DECODE_TABLE (unat c)"

text \<open>The main loop over \<^verbatim>\<open>chunks_exact(3)\<close>: it returns the remainder, the write position
  and the memory.\<close>

fun encode_main :: "bytes \<Rightarrow> nat \<Rightarrow> mem \<Rightarrow> (bytes \<times> nat \<times> mem) ub" where
  "encode_main (b1 # b2 # b3 # rest) j out =
     (let n = push_bit 16 (ucast b1) OR push_bit 8 (ucast b2) OR ucast b3 :: u32 in do {
        c0 \<leftarrow> enc_char (drop_bit 18 n);
        c1 \<leftarrow> enc_char (drop_bit 12 n AND 0x3F);
        c2 \<leftarrow> enc_char (drop_bit 6 n AND 0x3F);
        c3 \<leftarrow> enc_char (n AND 0x3F);
        out \<leftarrow> mem_writes out j [c0, c1, c2, c3];
        encode_main rest (j + 4) out
      })"
| "encode_main remainder j out = Some (remainder, j, out)"

fun encode_tail :: "bytes \<Rightarrow> nat \<Rightarrow> mem \<Rightarrow> mem ub" where
  "encode_tail [] j out = Some out"
| "encode_tail [b1] j out =
     (let n = push_bit 16 (ucast b1) :: u32 in do {
        c0 \<leftarrow> enc_char (drop_bit 18 n);
        c1 \<leftarrow> enc_char (drop_bit 12 n AND 0x3F);
        mem_writes out j [c0, c1]
      })"
| "encode_tail [b1, b2] j out =
     (let n = push_bit 16 (ucast b1) OR push_bit 8 (ucast b2) :: u32 in do {
        c0 \<leftarrow> enc_char (drop_bit 18 n);
        c1 \<leftarrow> enc_char (drop_bit 12 n AND 0x3F);
        c2 \<leftarrow> enc_char (drop_bit 6 n AND 0x3F);
        mem_writes out j [c0, c1, c2]
      })"
| "encode_tail (_ # _ # _ # _) j out = None" \<comment> \<open>\<^verbatim>\<open>unreachable_unchecked\<close>\<close>

definition encode_to_slice_unchecked :: "bytes \<Rightarrow> mem \<Rightarrow> mem ub" where
  "encode_to_slice_unchecked input out =
     do { (remainder, j, out) \<leftarrow> encode_main input 0 out; encode_tail remainder j out }"

fun decode_main :: "bytes \<Rightarrow> nat \<Rightarrow> mem \<Rightarrow> (bytes \<times> nat \<times> mem) ub" where
  "decode_main (x1 # x2 # x3 # x4 # rest) j out = do {
      c1 \<leftarrow> dec_char x1;
      c2 \<leftarrow> dec_char x2;
      c3 \<leftarrow> dec_char x3;
      c4 \<leftarrow> dec_char x4;
      let n = (push_bit 18 (ucast c1) OR push_bit 12 (ucast c2) OR push_bit 6 (ucast c3)
               OR ucast c4 :: u32);
      out \<leftarrow> mem_writes out j [ucast (drop_bit 16 n), ucast (drop_bit 8 n), ucast n];
      decode_main rest (j + 3) out
    }"
| "decode_main remainder j out = Some (remainder, j, out)"

fun decode_tail :: "bytes \<Rightarrow> nat \<Rightarrow> mem \<Rightarrow> mem ub" where
  "decode_tail [x1, x2] j out = do {
      c1 \<leftarrow> dec_char x1;
      c2 \<leftarrow> dec_char x2;
      mem_writes out j [push_bit 2 c1 OR drop_bit 4 c2]
    }"
| "decode_tail [x1, x2, x3] j out = do {
      c1 \<leftarrow> dec_char x1;
      c2 \<leftarrow> dec_char x2;
      c3 \<leftarrow> dec_char x3;
      mem_writes out j [push_bit 2 c1 OR drop_bit 4 c2, push_bit 4 c2 OR drop_bit 2 c3]
    }"
| "decode_tail [] j out = Some out"
| "decode_tail _ j out = None" \<comment> \<open>\<^verbatim>\<open>unreachable_unchecked\<close>\<close>

definition decode_to_slice_unchecked :: "bytes \<Rightarrow> mem \<Rightarrow> mem ub" where
  "decode_to_slice_unchecked input out =
     do { (remainder, j, out) \<leftarrow> decode_main input 0 out; decode_tail remainder j out }"

definition to_base64 :: "bytes \<Rightarrow> bytes ub" where
  "to_base64 bs =
     (if bs = [] then Some []
      else do {
        out \<leftarrow> encode_to_slice_unchecked bs (uninit (encoded_len (length bs)));
        mem_init out
      })"

definition from_base64 :: "bytes \<Rightarrow> bytes option ub" where
  "from_base64 input =
     (if input = [] then Some (Some [])
      else case decoded_len (length input) of
        None \<Rightarrow> Some None
      | Some output_len \<Rightarrow>
          if list_ex (\<lambda>b. BASE64_DECODE_TABLE ! unat b = 0xFF) input then Some None
          else do {
            out \<leftarrow> decode_to_slice_unchecked input (uninit output_len);
            bs \<leftarrow> mem_init out;
            Some (Some bs)
          })"

section \<open>The alphabet\<close>

lemma length_BASE64_CHARS [simp]: "length BASE64_CHARS = 64"
  by (simp add: BASE64_CHARS_def)

lemma distinct_BASE64_CHARS: "distinct BASE64_CHARS"
  by code_simp

interpretation b64: alphabet BASE64_CHARS BASE64_DECODE_TABLE
  unfolding BASE64_DECODE_TABLE_def
  by (rule alphabet_decode_lut) (simp_all add: distinct_BASE64_CHARS)

section \<open>Reference definitions on six-bit groups\<close>

text \<open>RFC 4648 grouping: three bytes are four six-bit values, most significant first.\<close>

definition group3 :: "u8 \<Rightarrow> u8 \<Rightarrow> u8 \<Rightarrow> bytes" where
  "group3 b1 b2 b3 =
     [drop_bit 2 b1, push_bit 4 (b1 AND 3) OR drop_bit 4 b2,
      push_bit 2 (b2 AND 0xF) OR drop_bit 6 b3, b3 AND 0x3F]"

definition group2 :: "u8 \<Rightarrow> u8 \<Rightarrow> bytes" where
  "group2 b1 b2 =
     [drop_bit 2 b1, push_bit 4 (b1 AND 3) OR drop_bit 4 b2, push_bit 2 (b2 AND 0xF)]"

definition group1 :: "u8 \<Rightarrow> bytes" where
  "group1 b1 = [drop_bit 2 b1, push_bit 4 (b1 AND 3)]"

fun sextets :: "bytes \<Rightarrow> bytes" where
  "sextets (b1 # b2 # b3 # rest) = group3 b1 b2 b3 @ sextets rest"
| "sextets [b1, b2] = group2 b1 b2"
| "sextets [b1] = group1 b1"
| "sextets [] = []"

lemmas group_defs = group3_def group2_def group1_def

fun unsextets :: "bytes \<Rightarrow> bytes" where
  "unsextets (c1 # c2 # c3 # c4 # rest) =
     [push_bit 2 c1 OR drop_bit 4 c2, push_bit 4 c2 OR drop_bit 2 c3, push_bit 6 c3 OR c4]
     @ unsextets rest"
| "unsextets [c1, c2, c3] = [push_bit 2 c1 OR drop_bit 4 c2, push_bit 4 c2 OR drop_bit 2 c3]"
| "unsextets [c1, c2] = [push_bit 2 c1 OR drop_bit 4 c2]"
| "unsextets _ = []"

abbreviation b64_char :: "u8 \<Rightarrow> u8" where
  "b64_char x \<equiv> BASE64_CHARS ! unat x"

abbreviation b64_val :: "u8 \<Rightarrow> u8" where
  "b64_val c \<equiv> BASE64_DECODE_TABLE ! unat c"

lemma unsextets_sextets [codec_simps]: "unsextets (sextets bs) = bs"
proof (induction bs rule: sextets.induct)
  case (1 b1 b2 b3 rest)
  have "push_bit 2 (drop_bit 2 b1) OR drop_bit 4 (push_bit 4 (b1 AND 3) OR drop_bit 4 b2) = b1"
    "push_bit 4 (push_bit 4 (b1 AND 3) OR drop_bit 4 b2)
       OR drop_bit 2 (push_bit 2 (b2 AND 0xF) OR drop_bit 6 b3) = b2"
    "push_bit 6 (push_bit 2 (b2 AND 0xF) OR drop_bit 6 b3) OR (b3 AND 0x3F) = b3"
    unfolding and_masks by (rule u8_eqI; simp add: bit_simps)+
  with "1.IH" show ?case by (simp add: group_defs)
next
  case (2 b1 b2)
  have "push_bit 2 (drop_bit 2 b1) OR drop_bit 4 (push_bit 4 (b1 AND 3) OR drop_bit 4 b2) = b1"
    "push_bit 4 (push_bit 4 (b1 AND 3) OR drop_bit 4 b2) OR drop_bit 2 (push_bit 2 (b2 AND 0xF)) = b2"
    unfolding and_masks by (rule u8_eqI; simp add: bit_simps)+
  then show ?case by (simp add: group_defs)
next
  case (3 b1)
  have "push_bit 2 (drop_bit 2 b1) OR drop_bit 4 (push_bit 4 (b1 AND 3)) = b1"
    unfolding and_masks by (rule u8_eqI; simp add: bit_simps)
  then show ?case by (simp add: group_defs)
qed simp

lemma group_bounds:
  "x \<in> set (group3 b1 b2 b3) \<Longrightarrow> unat x < 64"
  "x \<in> set (group2 b1 b2) \<Longrightarrow> unat x < 64"
  "x \<in> set (group1 b1) \<Longrightarrow> unat x < 64"
proof -
  have "unat (drop_bit 2 b1) < 64" "unat (push_bit 4 (b1 AND 3) OR drop_bit 4 b2) < 64"
    "unat (push_bit 2 (b2 AND 0xF) OR drop_bit 6 b3) < 64" "unat (b3 AND 0x3F) < 64"
    "unat (push_bit 2 (b2 AND 0xF)) < 64" "unat (push_bit 4 (b1 AND 3)) < 64"
    by (rule u8_less_64I; simp add: bit_simps and_masks)+
  then show "x \<in> set (group3 b1 b2 b3) \<Longrightarrow> unat x < 64"
    "x \<in> set (group2 b1 b2) \<Longrightarrow> unat x < 64" "x \<in> set (group1 b1) \<Longrightarrow> unat x < 64"
    by (auto simp: group_defs)
qed

lemma length_groups [simp]:
  "length (group3 b1 b2 b3) = 4" "length (group2 b1 b2) = 3" "length (group1 b1) = 2"
  by (simp_all add: group_defs)

lemma sextets_bound: "x \<in> set (sextets bs) \<Longrightarrow> unat x < 64"
  by (induction bs rule: sextets.induct) (auto dest: group_bounds)

lemma encoded_len_3: "encoded_len (Suc (Suc (Suc n))) = encoded_len n + 4"
proof -
  have "Suc (Suc (Suc n)) div 3 = Suc (n div 3)" "Suc (Suc (Suc n)) mod 3 = n mod 3"
    by simp_all
  then show ?thesis
    by (simp only: encoded_len_def Let_def) auto
qed

lemma encoded_len_small [simp]:
  "encoded_len 0 = 0" "encoded_len (Suc 0) = 2" "encoded_len (Suc (Suc 0)) = 3"
  by (simp_all add: encoded_len_def)

lemma length_sextets: "length (sextets bs) = encoded_len (length bs)"
  by (induction bs rule: sextets.induct) (simp_all add: encoded_len_3)

lemma decoded_len_4:
  "decoded_len (Suc (Suc (Suc (Suc n)))) = map_option (\<lambda>k. k + 3) (decoded_len n)"
proof -
  have "Suc (Suc (Suc (Suc n))) div 4 = Suc (n div 4)" "Suc (Suc (Suc (Suc n))) mod 4 = n mod 4"
    by simp_all
  then show ?thesis
    by (simp only: decoded_len_def) auto
qed

lemma decoded_encoded_len: "decoded_len (encoded_len n) = Some n"
proof (induction n rule: nat_less_induct)
  case (1 n)
  show ?case
  proof (cases "n < 3")
    case True
    then have "n = 0 \<or> n = Suc 0 \<or> n = Suc (Suc 0)" by linarith
    then show ?thesis by (elim disjE) (simp_all add: decoded_len_def)
  next
    case False
    then obtain m where m: "n = Suc (Suc (Suc m))"
      by (metis add_2_eq_Suc' add_Suc_right le_Suc_ex not_less numeral_3_eq_3 plus_nat.simps)
    with 1 have "decoded_len (encoded_len m) = Some m" by simp
    then show ?thesis by (simp add: m encoded_len_3 decoded_len_4 numeral_eq_Suc)
  qed
qed

section \<open>The unchecked loops compute the reference definitions\<close>

lemma enc_char_sextet: "unat x < 64 \<Longrightarrow> enc_char (ucast x) = Some (b64_char x)"
  by (simp add: enc_char_def)

lemma enc_fields:
  fixes b1 b2 b3 :: u8
  defines "n \<equiv> push_bit 16 (ucast b1) OR push_bit 8 (ucast b2) OR ucast b3 :: u32"
  shows "drop_bit 18 n = ucast (drop_bit 2 b1)"
    and "drop_bit 12 n AND 0x3F = ucast (push_bit 4 (b1 AND 3) OR drop_bit 4 b2)"
    and "drop_bit 6 n AND 0x3F = ucast (push_bit 2 (b2 AND 0xF) OR drop_bit 6 b3)"
    and "n AND 0x3F = ucast (b3 AND 0x3F)"
  unfolding n_def and_masks
  by (rule bit_word_eqI; auto simp: bit_simps dest: bit_imp_le_length)+

lemma enc_fields_2:
  fixes b1 b2 :: u8
  defines "n \<equiv> push_bit 16 (ucast b1) OR push_bit 8 (ucast b2) :: u32"
  shows "drop_bit 18 n = ucast (drop_bit 2 b1)"
    and "drop_bit 12 n AND 0x3F = ucast (push_bit 4 (b1 AND 3) OR drop_bit 4 b2)"
    and "drop_bit 6 n AND 0x3F = ucast (push_bit 2 (b2 AND 0xF))"
  using enc_fields(1-3) [of b1 b2 0] by (simp_all add: n_def)

lemma enc_fields_1:
  fixes b1 :: u8
  defines "n \<equiv> push_bit 16 (ucast b1) :: u32"
  shows "drop_bit 18 n = ucast (drop_bit 2 b1)"
    and "drop_bit 12 n AND 0x3F = ucast (push_bit 4 (b1 AND 3))"
  using enc_fields(1-2) [of b1 0 0] by (simp_all add: n_def)

lemma encode_main_step:
  "encode_main (b1 # b2 # b3 # rest) j out =
     do { out \<leftarrow> mem_writes out j (map b64_char (group3 b1 b2 b3)); encode_main rest (j + 4) out }"
  using group_bounds(1) [of _ b1 b2 b3]
  by (simp only: encode_main.simps Let_def enc_fields group3_def list.set_intros list.simps
      enc_char_sextet Option.bind_lunit insert_iff simp_thms)

lemma encode_tail_2: "encode_tail [b1, b2] j out = mem_writes out j (map b64_char (group2 b1 b2))"
  using group_bounds(2) [of _ b1 b2]
  by (simp only: encode_tail.simps Let_def enc_fields_2 group2_def list.set_intros list.simps
      enc_char_sextet Option.bind_lunit insert_iff simp_thms)

lemma encode_tail_1: "encode_tail [b1] j out = mem_writes out j (map b64_char (group1 b1))"
  using group_bounds(3) [of _ b1]
  by (simp only: encode_tail.simps Let_def enc_fields_1 group1_def list.set_intros list.simps
      enc_char_sextet Option.bind_lunit insert_iff simp_thms)

lemma encode_refines:
  "do { (remainder, j, out) \<leftarrow> encode_main bs (length pre)
                                (map Some pre @ uninit (encoded_len (length bs)));
        encode_tail remainder j out }
   = Some (map Some (pre @ map b64_char (sextets bs)))"
proof (induction bs arbitrary: pre rule: sextets.induct)
  case (1 b1 b2 b3 rest)
  define cs where "cs = map b64_char (group3 b1 b2 b3)"
  have len: "length cs = 4" by (simp add: cs_def)
  have w: "mem_writes (map Some pre @ uninit (length cs + encoded_len (length rest))) (length pre) cs
      = Some (map Some (pre @ cs) @ uninit (encoded_len (length rest)))"
    by (rule mem_writes_at_end)
  show ?case
    using w "1.IH" [of "pre @ cs"] len
    by (simp add: encode_main_step encoded_len_3 add.commute
        del: encode_main.simps(1) flip: cs_def)
next
  case (2 b1 b2)
  show ?case
    using mem_writes_at_end [of pre "map b64_char (group2 b1 b2)" 0]
    by (simp add: encode_tail_2 del: encode_tail.simps)
next
  case (3 b1)
  show ?case
    using mem_writes_at_end [of pre "map b64_char (group1 b1)" 0]
    by (simp add: encode_tail_1 del: encode_tail.simps)
qed simp

lemma to_base64_eq: "to_base64 bs = Some (map b64_char (sextets bs))"
  using encode_refines [of bs "[]"] mem_init_full [of "map b64_char (sextets bs)"]
  by (auto simp: to_base64_def encode_to_slice_unchecked_def)

lemma dec_char_eq [simp]: "dec_char c = Some (b64_val c)"
  by (simp add: dec_char_def b64.table_get)

lemma dec_fields:
  fixes c1 c2 c3 c4 :: u8
  defines "n \<equiv> push_bit 18 (ucast c1) OR push_bit 12 (ucast c2) OR push_bit 6 (ucast c3)
               OR ucast c4 :: u32"
  shows "ucast (drop_bit 16 n) = push_bit 2 c1 OR drop_bit 4 c2"
    and "ucast (drop_bit 8 n) = push_bit 4 c2 OR drop_bit 2 c3"
    and "ucast n = push_bit 6 c3 OR c4"
  unfolding n_def by (rule u8_eqI; simp add: bit_simps)+

definition ungroup4 :: "u8 \<Rightarrow> u8 \<Rightarrow> u8 \<Rightarrow> u8 \<Rightarrow> bytes" where
  "ungroup4 c1 c2 c3 c4 =
     [push_bit 2 c1 OR drop_bit 4 c2, push_bit 4 c2 OR drop_bit 2 c3, push_bit 6 c3 OR c4]"

lemma decode_main_step:
  "decode_main (x1 # x2 # x3 # x4 # rest) j out =
     do { out \<leftarrow> mem_writes out j (ungroup4 (b64_val x1) (b64_val x2) (b64_val x3) (b64_val x4));
          decode_main rest (j + 3) out }"
  by (simp only: decode_main.simps Let_def dec_fields ungroup4_def dec_char_eq Option.bind_lunit)

lemma decode_refines:
  assumes "decoded_len (length s) = Some k"
  shows "do { (remainder, j, out) \<leftarrow> decode_main s (length pre) (map Some pre @ uninit k);
              decode_tail remainder j out }
     = Some (map Some (pre @ unsextets (map b64_val s)))"
  using assms
proof (induction s arbitrary: pre k rule: unsextets.induct)
  case (1 x1 x2 x3 x4 rest)
  define bs where "bs = ungroup4 (b64_val x1) (b64_val x2) (b64_val x3) (b64_val x4)"
  have len: "length bs = 3" by (simp add: bs_def ungroup4_def)
  have un: "unsextets (map b64_val (x1 # x2 # x3 # x4 # rest)) = bs @ unsextets (map b64_val rest)"
    by (simp add: bs_def ungroup4_def)
  from "1.prems" obtain m where m: "decoded_len (length rest) = Some m" and k: "k = m + 3"
    by (auto simp: decoded_len_4)
  have w: "mem_writes (map Some pre @ uninit (length bs + m)) (length pre) bs
      = Some (map Some (pre @ bs) @ uninit m)"
    by (rule mem_writes_at_end)
  show ?case
    using w "1.IH" [OF m, of "pre @ bs"] len
    by (simp add: decode_main_step k add.commute un del: decode_main.simps(1) unsextets.simps(1)
        list.map flip: bs_def)
next
  case (2 x1 x2 x3)
  then have "k = 2" by (simp add: decoded_len_def)
  with mem_writes_at_end [of pre "unsextets (map b64_val [x1, x2, x3])" 0] show ?case
    by (simp add: numeral_2_eq_2)
next
  case (3 x1 x2)
  then have "k = 1" by (simp add: decoded_len_def)
  with mem_writes_at_end [of pre "unsextets (map b64_val [x1, x2])" 0] show ?case
    by simp
qed (simp_all add: decoded_len_def)

lemma from_base64_eq:
  "from_base64 s =
     Some (if length s mod 4 = 1 \<or> \<not> set s \<subseteq> set BASE64_CHARS then None
           else Some (unsextets (map b64_val s)))"
proof (cases "decoded_len (length s)")
  case None
  then have "length s mod 4 = 1 \<and> s \<noteq> []"
    by (auto simp: decoded_len_def split: if_splits)
  with None show ?thesis by (simp add: from_base64_def)
next
  case (Some k)
  then have "length s mod 4 \<noteq> 1"
    by (auto simp: decoded_len_def)
  moreover have "list_ex (\<lambda>b. b64_val b = 0xFF) s \<longleftrightarrow> \<not> set s \<subseteq> set BASE64_CHARS"
    by (auto simp: list_ex_iff b64.valid_iff)
  ultimately show ?thesis
    using Some decode_refines [OF Some, of "[]"]
    by (auto simp: from_base64_def decode_to_slice_unchecked_def ub_simps)
qed

lemma b64_val_char: "unat x < 64 \<Longrightarrow> b64_val (b64_char x) = x"
  using b64.hit [of "unat x"] by simp

lemma b64_val_sextets: "map b64_val (map b64_char (sextets bs)) = sextets bs"
  by (auto intro!: map_idI simp: b64_val_char dest: sextets_bound)

lemma from_base64_encoded [codec_simps]:
  "from_base64 (map b64_char (sextets bs)) = Some (Some bs)"
proof -
  define s where "s = map b64_char (sextets bs)"
  have len: "length s = encoded_len (length bs)"
    by (simp add: s_def length_sextets)
  have "length s mod 4 \<noteq> 1"
    using decoded_encoded_len [of "length bs"] unfolding len
    by (auto simp: decoded_len_def split: if_splits)
  moreover have "set s \<subseteq> set BASE64_CHARS"
    by (auto simp: s_def dest: sextets_bound)
  moreover have "unsextets (map b64_val s) = bs"
    unfolding s_def b64_val_sextets by (rule unsextets_sextets)
  ultimately have "from_base64 s = Some (Some bs)"
    by (simp add: from_base64_eq)
  then show ?thesis by (simp only: s_def)
qed

lemma length_unsextets:
  "length xs mod 4 \<noteq> 1 \<Longrightarrow> decoded_len (length xs) = Some (length (unsextets xs))"
  by (induction xs rule: unsextets.induct) (simp_all add: decoded_len_4, simp_all add: decoded_len_def)

section \<open>Properties\<close>

text \<open>C33: decoding the base64 text of any byte string gives the byte string back.  Both unchecked
  loops stay inside the buffers allocated from \<open>encoded_len\<close> and \<open>decoded_len\<close> and leave no
  byte uninitialised.\<close>

theorem base64_roundtrip:
  "\<exists>s. to_base64 bs = Some s \<and> length s = encoded_len (length bs) \<and> from_base64 s = Some (Some bs)"
  by (simp add: to_base64_eq from_base64_encoded length_sextets)

text \<open>\<open>from_base64\<close> is total and memory safe on arbitrary text.  It rejects exactly the
  strings whose length is one modulo four or that contain a byte outside the alphabet, and
  otherwise returns \<open>decoded_len\<close> bytes.\<close>

theorem from_base64_safe:
  "\<exists>r. from_base64 s = Some r \<and>
     (r = None \<longleftrightarrow> length s mod 4 = 1 \<or> (\<exists>b \<in> set s. b \<notin> set BASE64_CHARS)) \<and>
     map_option length r = (if r = None then None else decoded_len (length s))"
  using length_unsextets [of "map b64_val s"] by (auto simp: from_base64_eq)

end
