(* ===== verification/Token_Types.thy ===== *)
theory Token_Types
  imports Hex_Hash Ulid Text_Util Base64
begin

text \<open>
  \<^verbatim>\<open>src/app/model/token.rs\<close>, \<^verbatim>\<open>src/app/model/token/provider.rs\<close> and the key type of
  \<^verbatim>\<open>src/app/model/token/cache.rs\<close>: the random part and the user identifier of a token, the
  subject, and the token key with its two textual forms.  \<open>big\<close> says whether the target is
  big-endian; \<open>PROVIDERS\<close> is the configured provider list; \<open>itoa\<close> stands for the decimal
  printer of the \<^verbatim>\<open>itoa\<close> crate.
\<close>

section \<open>Randomness\<close>

datatype RandomnessError = RandomnessInvalidLength | RandomnessInvalidFormat

definition BYTE_OFFSETS :: "nat list" where
  "BYTE_OFFSETS = [0, 2, 4, 6, 9, 11, 14, 16]"

fun randomness_to_str_loop :: "(u8 \<times> nat) list \<Rightarrow> bytes \<Rightarrow> bytes ub" where
  "randomness_to_str_loop [] out = Some out"
| "randomness_to_str_loop ((byte, pos) # rest) out = do {
     c0 \<leftarrow> slice_get HEX_CHARS (unat (drop_bit 4 byte));
     out \<leftarrow> slice_set out pos c0;
     c1 \<leftarrow> slice_get HEX_CHARS (unat (byte AND 0x0F));
     out \<leftarrow> slice_set out (pos + 1) c1;
     randomness_to_str_loop rest out
   }"

definition randomness_to_str :: "bool \<Rightarrow> u64 \<Rightarrow> bytes \<Rightarrow> bytes ub" where
  "randomness_to_str big r out = do {
     out \<leftarrow> randomness_to_str_loop (zip (to_ne_bytes_u64 big r) BYTE_OFFSETS) out;
     out \<leftarrow> slice_set out 8 0x2D;
     slice_set out 13 0x2D
   }"

definition randomness_display :: "bool \<Rightarrow> u64 \<Rightarrow> bytes ub" where
  "randomness_display big r = randomness_to_str big r (replicate 18 0)"

fun randomness_decode :: "bytes \<Rightarrow> nat list \<Rightarrow> RandomnessError + bytes" where
  "randomness_decode s [] = Inr []"
| "randomness_decode s (pos # ps) =
     (case hex_to_byte (s ! pos) (s ! (pos + 1)) of
        None \<Rightarrow> Inl RandomnessInvalidFormat
      | Some b \<Rightarrow> (case randomness_decode s ps of Inl e \<Rightarrow> Inl e | Inr bs \<Rightarrow> Inr (b # bs)))"

definition randomness_from_str :: "bool \<Rightarrow> bytes \<Rightarrow> RandomnessError + u64" where
  "randomness_from_str big s =
     (if length s \<noteq> 18 then Inl RandomnessInvalidLength
      else if s ! 8 \<noteq> 0x2D \<or> s ! 13 \<noteq> 0x2D then Inl RandomnessInvalidFormat
      else case randomness_decode s BYTE_OFFSETS of
             Inl e \<Rightarrow> Inl e
           | Inr bs \<Rightarrow> Inr (from_ne_bytes_u64 big bs))"

section \<open>User identifiers\<close>

datatype SubjectError =
  MissingProvider | MissingUserId | SubjectInvalidFormat | InvalidUlid | SubjectInvalidHex
  | UnsupportedProvider

text \<open>\<^verbatim>\<open>#[repr(C)] struct UserId(u64, u64)\<close>.\<close>

datatype UserId = UserId u64 u64

fun user_id_low :: "bool \<Rightarrow> UserId \<Rightarrow> u64" where
  "user_id_low big (UserId x y) = (if big then y else x)"

fun user_id_high :: "bool \<Rightarrow> UserId \<Rightarrow> u64" where
  "user_id_high big (UserId x y) = (if big then x else y)"

definition user_id_from_parts :: "bool \<Rightarrow> u64 \<Rightarrow> u64 \<Rightarrow> UserId" where
  "user_id_from_parts big low high = (if big then UserId high low else UserId low high)"

definition user_id_from_u128 :: "bool \<Rightarrow> u128 \<Rightarrow> UserId" where
  "user_id_from_u128 big v = user_id_from_parts big (ucast v) (ucast (drop_bit 64 v))"

definition user_id_as_u128 :: "bool \<Rightarrow> UserId \<Rightarrow> u128" where
  "user_id_as_u128 big u = push_bit 64 (ucast (user_id_high big u)) OR ucast (user_id_low big u)"

text \<open>\<^verbatim>\<open>transmute\<close> between \<^verbatim>\<open>[u8; 16]\<close> and two words in native order.\<close>

definition user_id_from_bytes :: "bool \<Rightarrow> bytes \<Rightarrow> UserId" where
  "user_id_from_bytes big bs =
     UserId (from_ne_bytes_u64 big (take 8 bs)) (from_ne_bytes_u64 big (drop 8 bs))"

fun user_id_to_bytes :: "bool \<Rightarrow> UserId \<Rightarrow> bytes" where
  "user_id_to_bytes big (UserId x y) = to_ne_bytes_u64 big x @ to_ne_bytes_u64 big y"

definition is_legacy :: "bool \<Rightarrow> UserId \<Rightarrow> bool" where
  "is_legacy big u \<longleftrightarrow> drop_bit 32 (user_id_high big u) = 0"

definition USER_PREFIX :: bytes where
  "USER_PREFIX = bytes_of ''user_''"

definition user_id_to_str :: "bool \<Rightarrow> UserId \<Rightarrow> bytes \<Rightarrow> bytes ub" where
  "user_id_to_str big u out =
     (if is_legacy big u then do {
        let bs = user_id_to_bytes big u;
        out \<leftarrow> hash_to_str_loop 0 (drop 4 bs) out;
        array_at out 0 24
      } else do {
        out \<leftarrow> array_put out 0 USER_PREFIX;
        w \<leftarrow> array_at out 5 26;
        w \<leftarrow> encode_to_array (user_id_as_u128 big u) w;
        array_put out 5 w
      })"

definition user_id_display :: "bool \<Rightarrow> UserId \<Rightarrow> bytes ub" where
  "user_id_display big u = user_id_to_str big u (replicate 31 0)"

definition user_id_from_str :: "bool \<Rightarrow> bytes \<Rightarrow> SubjectError + UserId" where
  "user_id_from_str big s =
     (if length s = 31 then
        (case strip_prefix USER_PREFIX s of
           None \<Rightarrow> Inl SubjectInvalidFormat
         | Some id_str \<Rightarrow>
             (case ulid_decode id_str of
                Inl _ \<Rightarrow> Inl InvalidUlid
              | Inr v \<Rightarrow> Inr (user_id_from_u128 big v)))
      else if length s = 24 then
        (case hash_decode_pairs s of
           Inl _ \<Rightarrow> Inl SubjectInvalidHex
         | Inr bs \<Rightarrow> Inr (user_id_from_bytes big (replicate 4 0 @ bs)))
      else Inl MissingUserId)"

section \<open>Providers and subjects\<close>

definition AUTH0 :: bytes where "AUTH0 = bytes_of ''auth0''"

definition GOOGLE_OAUTH2 :: bytes where "GOOGLE_OAUTH2 = bytes_of ''google-oauth2''"

definition GITHUB :: bytes where "GITHUB = bytes_of ''github''"

definition DEFAULT_PROVIDERS :: "bytes list" where
  "DEFAULT_PROVIDERS = [AUTH0, GOOGLE_OAUTH2, GITHUB]"

datatype Provider = Provider (provider_name: bytes)

definition provider_from_str :: "bytes list \<Rightarrow> bytes \<Rightarrow> SubjectError + Provider" where
  "provider_from_str PROVIDERS s =
     (case find (\<lambda>p. s = p) PROVIDERS of
        Some p \<Rightarrow> Inr (Provider p)
      | None \<Rightarrow> Inl UnsupportedProvider)"

datatype ProviderHelper = HelperAuth0 | HelperGithub | HelperGoogle | HelperOther bytes

definition provider_to_helper :: "Provider \<Rightarrow> ProviderHelper" where
  "provider_to_helper p =
     (if provider_name p = AUTH0 then HelperAuth0
      else if provider_name p = GITHUB then HelperGithub
      else if provider_name p = GOOGLE_OAUTH2 then HelperGoogle
      else HelperOther (provider_name p))"

definition provider_try_extract :: "bytes list \<Rightarrow> ProviderHelper \<Rightarrow> SubjectError + Provider" where
  "provider_try_extract PROVIDERS h =
     (case h of
        HelperAuth0 \<Rightarrow> provider_from_str PROVIDERS AUTH0
      | HelperGithub \<Rightarrow> provider_from_str PROVIDERS GITHUB
      | HelperGoogle \<Rightarrow> provider_from_str PROVIDERS GOOGLE_OAUTH2
      | HelperOther s \<Rightarrow> provider_from_str PROVIDERS s)"

record subject =
  provider :: Provider
  sub_id :: UserId

definition subject_from_str :: "bool \<Rightarrow> bytes list \<Rightarrow> bytes \<Rightarrow> SubjectError + subject" where
  "subject_from_str big PROVIDERS s =
     (case split_once 0x7C s of
        None \<Rightarrow> Inl SubjectInvalidFormat
      | Some (prov, id_str) \<Rightarrow>
          if prov = [] then Inl MissingProvider
          else if id_str = [] then Inl MissingUserId
          else case provider_from_str PROVIDERS prov of
                 Inl e \<Rightarrow> Inl e
               | Inr p \<Rightarrow>
                   (case user_id_from_str big id_str of
                      Inl _ \<Rightarrow> Inl InvalidUlid
                    | Inr u \<Rightarrow> Inr \<lparr>provider = p, sub_id = u\<rparr>))"

definition subject_display :: "bool \<Rightarrow> subject \<Rightarrow> bytes ub" where
  "subject_display big s = do {
     i \<leftarrow> user_id_display big (sub_id s);
     Some (provider_name (provider s) @ [0x7C] @ i)
   }"

record subject_helper =
  sh_provider :: ProviderHelper
  sh_id :: bytes

definition subject_to_helper :: "bool \<Rightarrow> subject \<Rightarrow> subject_helper" where
  "subject_to_helper big s =
     \<lparr>sh_provider = provider_to_helper (provider s), sh_id = user_id_to_bytes big (sub_id s)\<rparr>"

definition subject_try_extract :: "bool \<Rightarrow> bytes list \<Rightarrow> subject_helper \<Rightarrow> SubjectError + subject" where
  "subject_try_extract big PROVIDERS h =
     (case provider_try_extract PROVIDERS (sh_provider h) of
        Inl e \<Rightarrow> Inl e
      | Inr p \<Rightarrow> Inr \<lparr>provider = p, sub_id = user_id_from_bytes big (sh_id h)\<rparr>)"

section \<open>Token keys\<close>

record token_key =
  user_id :: UserId
  randomness :: u64

definition token_key_to_string :: "bool \<Rightarrow> token_key \<Rightarrow> bytes ub" where
  "token_key_to_string big k = do {
     let bs = replicate 24 0;
     bs \<leftarrow> array_put bs 0 (user_id_to_bytes big (user_id k));
     bs \<leftarrow> array_put bs 16 (to_ne_bytes_u64 big (randomness k));
     to_base64 bs
   }"

definition token_key_to_string2 :: "(nat \<Rightarrow> bytes) \<Rightarrow> bool \<Rightarrow> token_key \<Rightarrow> bytes" where
  "token_key_to_string2 itoa big k =
     itoa (unat (user_id_as_u128 big (user_id k))) @ [0x2D] @ itoa (unat (randomness k))"

text \<open>The scan for the separator: the outer option is the early \<^verbatim>\<open>return None\<close>.\<close>

fun find_sep :: "nat \<Rightarrow> nat option \<Rightarrow> bytes \<Rightarrow> nat option option" where
  "find_sep i sep [] = Some sep"
| "find_sep i sep (b # bs) =
     (if \<not> is_ascii_digit b then
        (case sep of None \<Rightarrow> find_sep (i + 1) (Some i) bs | Some _ \<Rightarrow> None)
      else find_sep (i + 1) sep bs)"

definition token_key_from_string :: "bool \<Rightarrow> bytes \<Rightarrow> token_key option ub" where
  "token_key_from_string big s =
     (if length s > 60 then Some None
      else if length s = 32 then do {
        d \<leftarrow> from_base64 s;
        (case d of
           None \<Rightarrow> Some None
         | Some decoded \<Rightarrow>
             (if length decoded = 24 then
                Some (Some \<lparr>user_id = user_id_from_bytes big (take 16 decoded),
                            randomness = from_ne_bytes_u64 big (take 8 (drop 16 decoded))\<rparr>)
              else None))
      }
      else case find_sep 0 None s of
             None \<Rightarrow> Some None
           | Some None \<Rightarrow> Some None
           | Some (Some sep_pos) \<Rightarrow> do {
               first_part \<leftarrow> array_at s 0 sep_pos;
               second_part \<leftarrow> array_at s (sep_pos + 1) (length s - (sep_pos + 1));
               Some (do {
                 user_id_val \<leftarrow> parse_unsigned 128 first_part;
                 randomness_val \<leftarrow> parse_unsigned 64 second_part;
                 Some \<lparr>user_id = user_id_from_u128 big (of_nat user_id_val),
                       randomness = of_nat randomness_val\<rparr>
               })
             })"

section \<open>Randomness: lemmas\<close>

lemma length_8: "length xs = 8 \<Longrightarrow> \<exists>a b c d e f g h. xs = [a, b, c, d, e, f, g, h]"
  by (auto simp: numeral_eq_Suc length_Suc_conv)

lemma randomness_codec:
  "\<exists>s. randomness_display big r = Some s \<and> length s = 18 \<and> randomness_from_str big s = Inr r"
proof -
  obtain b0 b1 b2 b3 b4 b5 b6 b7 where
    bs: "to_ne_bytes_u64 big r = [b0, b1, b2, b3, b4, b5, b6, b7]"
    using length_8 length_to_ne_bytes_u64 by metis
  define h where "h b = HEX_CHARS ! unat (drop_bit 4 b)" for b :: u8
  define l where "l b = HEX_CHARS ! unat (b AND 0xF)" for b :: u8
  have get: "slice_get HEX_CHARS (unat (drop_bit 4 b)) = Some (h b)"
    "slice_get HEX_CHARS (unat (b AND 0xF)) = Some (l b)" for b
    by (simp_all add: h_def l_def)
  let ?s = "[h b0, l b0, h b1, l b1, h b2, l b2, h b3, l b3, 0x2D, h b4, l b4, h b5, l b5,
    0x2D, h b6, l b6, h b7, l b7]"
  have "randomness_display big r = Some ?s"
    unfolding randomness_display_def randomness_to_str_def bs BYTE_OFFSETS_def zip_Cons_Cons zip_Nil
      randomness_to_str_loop.simps get Option.bind_lunit
    by (simp add: slice_set_def numeral_eq_Suc)
  moreover have "randomness_decode ?s BYTE_OFFSETS = Inr [b0, b1, b2, b3, b4, b5, b6, b7]"
    by (simp add: BYTE_OFFSETS_def hex_to_byte_encode h_def l_def)
  then have "randomness_from_str big ?s = Inr r"
    using from_to_ne_bytes_u64 [of big r] by (simp add: randomness_from_str_def bs)
  ultimately show ?thesis by auto
qed

section \<open>User identifiers: lemmas\<close>

lemma user_id_u128 [codec_simps]: "user_id_from_u128 big (user_id_as_u128 big u) = u"
proof -
  obtain x y where u: "u = UserId x y" by (cases u)
  have "ucast (push_bit 64 (ucast h) OR ucast l :: u128) = l"
    "ucast (drop_bit 64 (push_bit 64 (ucast h) OR ucast l :: u128)) = h" for h l :: u64
    by (rule bit_word_eqI; auto simp: bit_simps dest: bit_imp_le_length)+
  then show ?thesis
    by (simp add: u user_id_from_u128_def user_id_as_u128_def user_id_from_parts_def)
qed

lemma user_id_u128' [codec_simps]: "user_id_as_u128 big (user_id_from_u128 big v) = v"
proof -
  have "push_bit 64 (ucast (ucast (drop_bit 64 v) :: u64)) OR ucast (ucast v :: u64) = v"
    by (rule bit_word_eqI) (auto simp: bit_simps)
  then show ?thesis
    by (simp add: user_id_from_u128_def user_id_as_u128_def user_id_from_parts_def)
qed

lemma user_id_bytes [codec_simps]: "user_id_from_bytes big (user_id_to_bytes big u) = u"
  by (cases u) (simp add: user_id_from_bytes_def from_to_ne_bytes_u64)

lemma user_id_bytes' [codec_simps]:
  "length bs = 16 \<Longrightarrow> user_id_to_bytes big (user_id_from_bytes big bs) = bs"
  by (simp add: user_id_from_bytes_def to_from_ne_bytes_u64)

lemma length_user_id_to_bytes [simp]: "length (user_id_to_bytes big u) = 16"
  by (cases u) simp

lemma length_USER_PREFIX [simp]: "length USER_PREFIX = 5"
  by (simp add: USER_PREFIX_def)

lemma user_id_display_legacy:
  "is_legacy big u \<Longrightarrow> user_id_display big u = Some (hex_encode (drop 4 (user_id_to_bytes big u)))"
  using hash_to_str_loop_eq [of "[]" 0 "replicate 24 0" "drop 4 (user_id_to_bytes big u)" "replicate 7 0"]
  by (simp add: user_id_display_def user_id_to_str_def array_at_def flip: replicate_add)

lemma user_id_display_ulid:
  assumes "\<not> is_legacy big u"
  shows "user_id_display big u = Some (USER_PREFIX
    @ map (\<lambda>d. ALPHABET ! d) (digits32 ULID_LEN (unat (user_id_as_u128 big u))))"
proof -
  let ?z = "\<lambda>n. replicate n (0 :: u8)"
  let ?t = "map (\<lambda>d. ALPHABET ! d) (digits32 ULID_LEN (unat (user_id_as_u128 big u)))"
  have "array_put (?z 31) 0 USER_PREFIX = Some (USER_PREFIX @ ?z 26)"
    by (simp add: array_put_def)
  moreover have "array_at (USER_PREFIX @ ?z 26) 5 26 = Some (?z 26)"
    by (simp add: array_at_def)
  moreover have "encode_to_array (user_id_as_u128 big u) (?z 26) = Some ?t"
    by (rule ulid_encode_eq) (simp add: ULID_LEN_def)
  moreover have "array_put (USER_PREFIX @ ?z 26) 5 ?t = Some (USER_PREFIX @ ?t)"
    by (simp add: array_put_def ULID_LEN_def)
  ultimately show ?thesis
    using assms unfolding user_id_display_def user_id_to_str_def
    by (simp only: if_False Option.bind_lunit)
qed

lemma user_id_codec_ulid:
  assumes "\<not> is_legacy big u"
  shows "\<exists>s. user_id_display big u = Some s \<and> length s = 31 \<and> user_id_from_str big s = Inr u"
  using assms
  by (simp add: user_id_display_ulid user_id_from_str_def ulid_decode_encoded user_id_u128 ULID_LEN_def
      flip: ULID_LEN_def)

lemma user_id_codec_legacy:
  assumes "is_legacy big u"
  shows "\<exists>s. user_id_display big u = Some s \<and> length s = 24
    \<and> user_id_from_str big s = Inr (user_id_from_bytes big (replicate 4 0 @ drop 4 (user_id_to_bytes big u)))"
  using assms by (simp add: user_id_display_legacy user_id_from_str_def hash_decode_pairs_encode)

lemma user_id_low_bytes:
  "user_id_from_bytes big (replicate 4 0 @ drop 4 (user_id_to_bytes big u)) = u
     \<longleftrightarrow> take 4 (user_id_to_bytes big u) = replicate 4 0"
proof -
  let ?bs = "user_id_to_bytes big u"
  have "length (replicate 4 0 @ drop 4 ?bs) = 16" by simp
  then have "user_id_from_bytes big (replicate 4 0 @ drop 4 ?bs) = u \<longleftrightarrow> replicate 4 0 @ drop 4 ?bs = ?bs"
    by (metis user_id_bytes user_id_bytes')
  also have "\<dots> \<longleftrightarrow> take 4 ?bs = replicate 4 0"
    by (metis append_same_eq append_take_drop_id)
  finally show ?thesis .
qed

lemma high_half_bytes:
  "drop_bit 32 (w :: u64) = 0 \<longleftrightarrow> drop 4 (le_bytes 8 (unat w)) = replicate 4 0"
proof -
  define h where "h = unat w div 2 ^ 32"
  have "unat w < 2 ^ 32 * 2 ^ 32" using unsigned_less [of w] by simp
  then have h: "h < 256 ^ 4" unfolding h_def by (simp add: less_mult_imp_div_less)
  have "le_bytes k 0 = replicate k 0" for k by (induction k) simp_all
  then have z: "le_bytes 4 0 = replicate 4 0" .
  have "drop_bit 32 w = 0 \<longleftrightarrow> h = 0"
    by (simp add: word_unat_eq_iff drop_bit_eq_div unat_div_distrib h_def)
  also have "\<dots> \<longleftrightarrow> le_bytes 4 h = replicate 4 0"
  proof
    assume "le_bytes 4 h = replicate 4 0"
    then have "le_val (le_bytes 4 h) = le_val (le_bytes 4 0)" by (simp only: z)
    then show "h = 0" using h by (simp add: le_val_le_bytes)
  qed (simp add: z)
  also have "le_bytes 4 h = drop 4 (le_bytes 8 (unat w))"
    using le_bytes_append [of 4 4 "unat w"] by (simp add: h_def)
  finally show ?thesis .
qed

lemma is_legacy_bytes:
  "is_legacy big u \<longleftrightarrow>
     (if big then take 4 (user_id_to_bytes big u) = replicate 4 0
      else drop 12 (user_id_to_bytes big u) = replicate 4 0)"
proof (cases u)
  case (UserId x y)
  have r: "rev (replicate 4 (0 :: u8)) = replicate 4 0" by simp
  have "take 4 (be_bytes 8 (unat x)) = rev (drop 4 (le_bytes 8 (unat x)))"
    by (simp add: be_bytes_def take_rev)
  then have "take 4 (be_bytes 8 (unat x)) = replicate 4 0 \<longleftrightarrow> drop 4 (le_bytes 8 (unat x)) = replicate 4 0"
    by (metis r rev_rev_ident)
  with UserId show ?thesis
    by (simp add: is_legacy_def high_half_bytes to_ne_bytes_u64_def)
qed

lemma drop_hex_encode: "drop (2 * n) (hex_encode bs) = hex_encode (drop n bs)"
  by (induction bs arbitrary: n) (simp, case_tac n, simp_all)

lemma hex_encode_zeros: "hex_encode (replicate n 0) = replicate (2 * n) 0x30"
proof (induction n)
  case (Suc n)
  have "HEX_CHARS ! 0 = 0x30" by code_simp
  with Suc show ?case by simp
qed simp

lemma hex_encode_inj: "hex_encode xs = hex_encode ys \<longleftrightarrow> xs = ys"
  by (metis hash_decode_pairs_encode sum.inject(2))

lemma lowercase_zero: "to_ascii_lowercase b = 0x30 \<longleftrightarrow> b = 0x30"
proof -
  have "list_all (\<lambda>i. to_ascii_lowercase (of_nat i) = 0x30 \<longleftrightarrow> of_nat i = (0x30 :: u8)) [0..<256]"
    by code_simp
  then have "\<forall>i < 256. to_ascii_lowercase (of_nat i) = 0x30 \<longleftrightarrow> of_nat i = (0x30 :: u8)"
    by (simp add: list_all_iff)
  then show ?thesis using unat_less_256 [of b] by (auto dest!: spec [of _ "unat b"])
qed

lemma hex_tail_zero:
  assumes "hex_encode bs = map to_ascii_lowercase s"
  shows "drop n bs = replicate k 0 \<longleftrightarrow> drop (2 * n) s = replicate (2 * k) 0x30"
proof -
  have "drop n bs = replicate k 0 \<longleftrightarrow> hex_encode (drop n bs) = hex_encode (replicate k 0)"
    by (simp only: hex_encode_inj)
  also have "\<dots> \<longleftrightarrow> map to_ascii_lowercase (drop (2 * n) s) = replicate (2 * k) 0x30"
    by (simp only: drop_hex_encode [symmetric] assms drop_map hex_encode_zeros)
  also have "\<dots> \<longleftrightarrow> drop (2 * n) s = replicate (2 * k) 0x30"
    unfolding list_eq_iff_nth_eq by (auto simp: lowercase_zero)
  finally show ?thesis .
qed

lemma hd_le_bytes: "0 < k \<Longrightarrow> hd (le_bytes k v) = of_nat (v mod 256)"
  by (cases k) simp_all

section \<open>Subjects and keys: lemmas\<close>

lemma user_id_codec:
  assumes "is_legacy big u \<Longrightarrow> take 4 (user_id_to_bytes big u) = replicate 4 0"
  shows "\<exists>s. user_id_display big u = Some s \<and> s \<noteq> [] \<and> user_id_from_str big s = Inr u"
proof (cases "is_legacy big u")
  case True
  with assms user_id_codec_legacy [OF True] show ?thesis
    by (metis list.size(3) user_id_low_bytes zero_neq_numeral)
next
  case False
  with user_id_codec_ulid [OF False] show ?thesis by (metis list.size(3) zero_neq_numeral)
qed

lemma provider_from_str_in: "p \<in> set PROVIDERS \<Longrightarrow> provider_from_str PROVIDERS p = Inr (Provider p)"
  by (auto simp: provider_from_str_def find_None_iff find_Some_iff in_set_conv_nth split: option.splits)

lemma provider_helper [codec_simps]:
  "provider_name p \<in> set PROVIDERS \<Longrightarrow> provider_try_extract PROVIDERS (provider_to_helper p) = Inr p"
  by (auto simp: provider_try_extract_def provider_to_helper_def provider_from_str_in) (metis provider_from_str_in Provider.collapse)+

lemma provider_not_extracted:
  "provider_name p \<notin> set PROVIDERS \<Longrightarrow>
   provider_try_extract PROVIDERS (provider_to_helper p) = Inl UnsupportedProvider"
proof -
  have "provider_from_str PROVIDERS q = Inl UnsupportedProvider" if "q \<notin> set PROVIDERS" for q
  proof -
    have "find (\<lambda>p. q = p) PROVIDERS = None" using that by (auto simp: find_None_iff)
    then show ?thesis by (simp add: provider_from_str_def)
  qed
  then show "provider_name p \<notin> set PROVIDERS \<Longrightarrow> ?thesis"
    by (auto simp: provider_try_extract_def provider_to_helper_def)
qed

text \<open>A subject the configuration supports: its provider is in the list and has a name that the
  textual form can carry, and its identifier is one the textual form does not truncate.\<close>

definition subject_ok :: "bool \<Rightarrow> bytes list \<Rightarrow> subject \<Rightarrow> bool" where
  "subject_ok big PROVIDERS s \<longleftrightarrow>
     provider_name (provider s) \<in> set PROVIDERS \<and> provider_name (provider s) \<noteq> []
     \<and> 0x7C \<notin> set (provider_name (provider s))
     \<and> \<not> (is_legacy big (sub_id s) \<and> take 4 (user_id_to_bytes big (sub_id s)) \<noteq> replicate 4 0)"

lemma subject_codec:
  assumes "subject_ok big PROVIDERS s"
  shows "\<exists>t. subject_display big s = Some t \<and> subject_from_str big PROVIDERS t = Inr s"
proof -
  obtain i where i: "user_id_display big (sub_id s) = Some i" "i \<noteq> []"
    "user_id_from_str big i = Inr (sub_id s)"
    using user_id_codec [of big "sub_id s"] assms by (auto simp: subject_ok_def)
  have "provider_from_str PROVIDERS (provider_name (provider s)) = Inr (provider s)"
    using assms by (simp add: provider_from_str_in subject_ok_def)
  with i assms show ?thesis
    by (simp add: subject_display_def subject_from_str_def subject_ok_def)
qed

lemma subject_helper_codec [codec_simps]:
  "provider_name (provider s) \<in> set PROVIDERS \<Longrightarrow>
   subject_try_extract big PROVIDERS (subject_to_helper big s) = Inr s"
  by (simp add: subject_try_extract_def subject_to_helper_def provider_helper user_id_bytes)

lemma find_sep_digits: "\<forall>b \<in> set x. is_ascii_digit b \<Longrightarrow> find_sep i sep (x @ y) = find_sep (i + length x) sep y"
  by (induction x arbitrary: i) simp_all

lemma find_sep_bound:
  "find_sep i sep s = Some (Some p) \<Longrightarrow> sep = Some p \<or> p < i + length s"
  by (induction i sep s rule: find_sep.induct) (fastforce split: if_splits option.splits)+

lemma is_ascii_digit_dash: "\<not> is_ascii_digit 0x2D"
  by (simp add: is_ascii_digit_def)

lemma token_key_string2_parts:
  assumes "m < 2 ^ 128" "n < 2 ^ 64" "length (show_nat m @ [0x2D] @ show_nat n) \<noteq> 32"
  shows "token_key_from_string big (show_nat m @ [0x2D] @ show_nat n) =
    Some (Some \<lparr>user_id = user_id_from_u128 big (of_nat m), randomness = of_nat n\<rparr>)"
proof -
  have "(m :: nat) < 10 ^ 39" "(n :: nat) < 10 ^ 20"
    by (rule less_trans, rule assms, simp)+
  then have "length (show_nat m) \<le> 39" "length (show_nat n) \<le> 20"
    by (simp_all add: length_show_nat)
  then have len: "\<not> length (show_nat m @ [0x2D] @ show_nat n) > 60" by simp
  have y: "find_sep i (Some p) (show_nat n) = Some (Some p)" for i p
    using find_sep_digits [of "show_nat n" i "Some p" "[]"] show_nat_digits [of _ n] by simp
  have "find_sep 0 None (show_nat m @ [0x2D] @ show_nat n) = Some (Some (length (show_nat m)))"
    using find_sep_digits [of "show_nat m" 0 None "0x2D # show_nat n"] show_nat_digits [of _ m] y
    by (simp add: is_ascii_digit_dash)
  with len assms show ?thesis
    by (simp add: token_key_from_string_def array_at_def parse_unsigned_show)
qed

lemma token_key_bytes:
  "token_key_to_string big k =
     Some (map b64_char (sextets (user_id_to_bytes big (user_id k) @ to_ne_bytes_u64 big (randomness k))))"
  by (simp add: token_key_to_string_def array_put_def to_base64_eq)

section \<open>Properties\<close>

text \<open>When the text of a user identifier can be read back.  Printing never panics; parsing the text
  returns the identifier except for the ones taken for the old format (upper 32 bits zero) whose
  first four bytes in memory are not zero: those bytes are not printed.\<close>

theorem user_id_text_faithful:
  "\<exists>s. user_id_display big u = Some s \<and>
     (user_id_from_str big s \<noteq> Inr u
        \<longleftrightarrow> is_legacy big u \<and> take 4 (user_id_to_bytes big u) \<noteq> replicate 4 0)"
proof (cases "is_legacy big u")
  case True
  with user_id_codec_legacy [OF True] user_id_low_bytes [of big u] show ?thesis by auto
next
  case False
  with user_id_codec_ulid [OF False] show ?thesis by auto
qed

text \<open>The fate of an old-format identifier.  The identifier parsed from 24 hexadecimal digits always
  survives printing and parsing again, but it is printed in its old form on a little-endian target
  only when its last eight digits are zero; otherwise it turns into a \<^verbatim>\<open>user_\<close> text of 31
  characters.  On a big-endian target it keeps its 24 digits.\<close>

theorem legacy_user_id_text:
  assumes "user_id_from_str big s = Inr u" and "length s = 24"
  shows "\<exists>t. user_id_display big u = Some t \<and> user_id_from_str big t = Inr u
    \<and> length t = (if big \<or> drop 16 s = replicate 8 0x30 then 24 else 31)"
proof -
  obtain bs where bs: "hash_decode_pairs s = Inr bs" "u = user_id_from_bytes big (replicate 4 0 @ bs)"
    using assms by (auto simp: user_id_from_str_def split: sum.splits)
  have enc: "hex_encode bs = map to_ascii_lowercase s" and len: "length bs = 12"
    using hash_decode_pairs_Inr [OF bs(1)] assms(2) by auto
  have ub: "user_id_to_bytes big u = replicate 4 0 @ bs"
    using bs(2) len by (simp add: user_id_bytes')
  have "drop 8 bs = replicate 4 0 \<longleftrightarrow> drop 16 s = replicate 8 0x30"
    using hex_tail_zero [OF enc, of 8 4] by simp
  then have leg: "is_legacy big u \<longleftrightarrow> big \<or> drop 16 s = replicate 8 0x30"
    using ub by (cases big) (simp_all add: is_legacy_bytes)
  have "take 4 (user_id_to_bytes big u) = replicate 4 0" by (simp add: ub)
  with leg show ?thesis
    using user_id_codec_legacy [of big u] user_id_codec_ulid [of big u] user_id_low_bytes [of big u]
    by (cases "is_legacy big u") auto
qed

text \<open>Token keys survive their compact text.  The 24 bytes of a key become 32 characters and
  \<open>token_key_from_string\<close> returns the key.\<close>

theorem token_key_roundtrip:
  "\<exists>s. token_key_to_string big k = Some s \<and> length s = 32 \<and> token_key_from_string big s = Some (Some k)"
proof -
  let ?bs = "user_id_to_bytes big (user_id k) @ to_ne_bytes_u64 big (randomness k)"
  have "length (map b64_char (sextets ?bs)) = 32"
    by (simp only: length_map length_sextets) (simp add: encoded_len_def)
  then show ?thesis
    by (simp add: token_key_bytes token_key_from_string_def from_base64_encoded user_id_bytes
        from_to_ne_bytes_u64 del: length_map)
qed

text \<open>Token keys survive their readable text unless it has 32 characters.  The decimal form of a key
  is at most 60 characters long and parses back to the key, except when its length is exactly 32,
  where the parser takes it for the compact form.\<close>

theorem token_key_string2_roundtrip:
  assumes "\<forall>n. itoa n = show_nat n" and "length (token_key_to_string2 itoa big k) \<noteq> 32"
  shows "token_key_from_string big (token_key_to_string2 itoa big k) = Some (Some k)"
proof -
  let ?m = "unat (user_id_as_u128 big (user_id k))" and ?n = "unat (randomness k)"
  have "?m < 2 ^ 128" "?n < 2 ^ 64"
    using unsigned_less [of "user_id_as_u128 big (user_id k)"] unsigned_less [of "randomness k"] by simp_all
  with assms token_key_string2_parts [of ?m ?n big] show ?thesis
    by (simp add: token_key_to_string2_def user_id_u128)
qed

theorem token_key_string2_roundtrip_witness:
  "token_key_from_string False (token_key_to_string2 show_nat False \<lparr>user_id = UserId 77 0, randomness = 5\<rparr>)
   = Some (Some \<lparr>user_id = UserId 77 0, randomness = 5\<rparr>)"
  by (rule token_key_string2_roundtrip) (simp, code_simp)

text \<open>Parsing a token key is safe.  On every text \<open>token_key_from_string\<close> is defined: the unchecked
  conversion of the decoded bytes to an array and the unchecked slices around the separator never
  leave their preconditions.\<close>

theorem token_key_from_string_safe: "\<exists>r. token_key_from_string big s = Some r"
proof -
  have b64: "length (unsextets (map b64_val s)) = 24" if "length s = 32"
    using length_unsextets [of "map b64_val s"] that by (simp add: decoded_len_def)
  have sep: "p < length s" if "find_sep 0 None s = Some (Some p)" for p
    using find_sep_bound [OF that] by simp
  show ?thesis
    by (auto simp: token_key_from_string_def from_base64_eq b64 array_at_def sep Suc_leI
        split: option.splits dest: sep)
qed

theorem legacy_user_id_text_witness:
  "\<exists>t u. user_id_from_str False (hex_encode (replicate 12 1)) = Inr u \<and> user_id_display False u = Some t
     \<and> user_id_from_str False t = Inr u \<and> length t = 31"
proof -
  let ?s = "hex_encode (replicate 12 1)"
  obtain u where u: "user_id_from_str False ?s = Inr u"
    by (simp add: user_id_from_str_def hash_decode_pairs_encode)
  have "drop (2 * 8) ?s \<noteq> replicate (2 * 4) 0x30"
    unfolding drop_hex_encode hex_encode_zeros [symmetric] hex_encode_inj by simp
  with legacy_user_id_text [OF u] u show ?thesis by auto
qed

text \<open>The decimal text of a key that has 32 characters is read as another key.\<close>

theorem token_key_string2_confused:
  fixes k :: token_key
  defines "k \<equiv> \<lparr>user_id = user_id_from_u128 False 1000000000000000000000, randomness = 100000000\<rparr>"
  shows "token_key_from_string False (token_key_to_string2 show_nat False k) \<noteq> Some (Some k)"
proof
  define s where "s = token_key_to_string2 show_nat False k"
  define d where "d = unsextets (map b64_val s)"
  have s: "s = bytes_of ''1000000000000000000000-100000000''"
    unfolding s_def k_def token_key_to_string2_def
    by (simp add: user_id_u128' show_nat.simps digit_char_def bytes_of_def)
  then have len: "length s = 32" by simp
  assume "token_key_from_string False (token_key_to_string2 show_nat False k) = Some (Some k)"
  then have "token_key_from_string False s = Some (Some k)" by (simp only: s_def)
  then have "user_id_from_bytes False (take 16 d) = user_id k" and "length d = 24"
    using len by (auto simp: token_key_from_string_def from_base64_eq d_def split: if_splits)
  then have "take 16 d = user_id_to_bytes False (user_id k)"
    using user_id_bytes' [of "take 16 d" False] by simp
  then have "hd d = hd (user_id_to_bytes False (user_id k))"
    using \<open>length d = 24\<close> by (metis hd_take zero_less_numeral)
  moreover have "(ucast (1000000000000000000000 :: u128) :: u64) = 3875820019684212736" by simp
  then have "hd (user_id_to_bytes False (user_id k)) = 0"
    by (simp add: k_def user_id_from_u128_def user_id_from_parts_def to_ne_bytes_u64_def hd_append
        hd_le_bytes flip: length_greater_0_conv)
  moreover have "b64_val 0x31 = 53" "b64_val 0x30 = 54"
    using b64.hit [of 53] b64.hit [of 54] by (simp_all add: BASE64_CHARS_def bytes_of_def)
  then have "hd d = 0xD7"
    by (simp add: d_def s bytes_of_def)
  ultimately show False by simp
qed

end
