(* ===== verification/Raw_Token.thy ===== *)
theory Raw_Token
  imports Token_Types "HOL-Library.Multiset"
begin

text \<open>
  The JSON Web Token itself: \<^verbatim>\<open>TokenPayload\<close> with its hand-written serde visitor
  (\<^verbatim>\<open>src/common/model/token.rs\<close>, \<^verbatim>\<open>stringify.rs\<close>) and \<^verbatim>\<open>RawToken\<close> with its printer, parser
  and archive helper (\<^verbatim>\<open>src/app/model/token.rs\<close>).

  A JSON object is the list of its entries in textual order.  \<open>json_to_vec\<close>/\<open>json_from_slice\<close>
  stand for \<^verbatim>\<open>serde_json\<close>'s text layer, \<open>b64_encode\<close>/\<open>b64_decode\<close> for the \<^verbatim>\<open>base64\<close> crate's
  URL-safe engine, and \<open>downcast\<close> for the classification of a \<^verbatim>\<open>serde_json\<close> error by
  \<^verbatim>\<open>io::Error::downcast\<close>.
\<close>

section \<open>Payload\<close>

datatype json = JStr bytes | JInt int | JOther

record token_payload =
  p_sub :: subject
  p_time :: int
  p_randomness :: u64
  p_exp :: int
  p_is_session :: bool

abbreviation FIELD_SUB :: bytes where "FIELD_SUB \<equiv> bytes_of ''sub''"
abbreviation FIELD_TIME :: bytes where "FIELD_TIME \<equiv> bytes_of ''time''"
abbreviation FIELD_RANDOMNESS :: bytes where "FIELD_RANDOMNESS \<equiv> bytes_of ''randomness''"
abbreviation FIELD_EXP :: bytes where "FIELD_EXP \<equiv> bytes_of ''exp''"
abbreviation FIELD_ISS :: bytes where "FIELD_ISS \<equiv> bytes_of ''iss''"
abbreviation FIELD_SCOPE :: bytes where "FIELD_SCOPE \<equiv> bytes_of ''scope''"
abbreviation FIELD_AUD :: bytes where "FIELD_AUD \<equiv> bytes_of ''aud''"
abbreviation FIELD_TYPE :: bytes where "FIELD_TYPE \<equiv> bytes_of ''type''"

definition ISSUER :: bytes where "ISSUER = bytes_of ''https://authentication.cursor.sh''"

definition SCOPE :: bytes where "SCOPE = bytes_of ''openid profile email offline_access''"

definition AUDIENCE :: bytes where "AUDIENCE = bytes_of ''https://cursor.com''"

definition TYPE_SESSION :: bytes where "TYPE_SESSION = bytes_of ''session''"

definition TYPE_WEB :: bytes where "TYPE_WEB = bytes_of ''web''"

definition payload_serialize :: "bool \<Rightarrow> token_payload \<Rightarrow> (bytes \<times> json) list ub" where
  "payload_serialize big p = do {
     sub \<leftarrow> subject_display big (p_sub p);
     rnd \<leftarrow> randomness_display big (p_randomness p);
     Some [(FIELD_SUB, JStr sub), (FIELD_TIME, JStr (show_int (p_time p))),
           (FIELD_RANDOMNESS, JStr rnd), (FIELD_EXP, JInt (p_exp p)), (FIELD_ISS, JStr ISSUER),
           (FIELD_SCOPE, JStr SCOPE), (FIELD_AUD, JStr AUDIENCE),
           (FIELD_TYPE, JStr (if p_is_session p then TYPE_SESSION else TYPE_WEB))]
   }"

datatype payload_error =
  UnknownField bytes | DuplicateField bytes | MissingField bytes | InvalidType bytes
  | OutOfRange int | InvalidInteger bytes | WrongConstant bytes
  | ValueSubject SubjectError | ValueRandomness RandomnessError

definition in_i64 :: "int \<Rightarrow> bool" where
  "in_i64 i \<longleftrightarrow> - (2 ^ 63) \<le> i \<and> i < 2 ^ 63"

definition subject_value :: "bool \<Rightarrow> bytes list \<Rightarrow> json \<Rightarrow> payload_error + subject" where
  "subject_value big PROVIDERS v =
     (case v of
        JStr s \<Rightarrow> (case subject_from_str big PROVIDERS s of Inl e \<Rightarrow> Inl (ValueSubject e) | Inr x \<Rightarrow> Inr x)
      | _ \<Rightarrow> Inl (InvalidType FIELD_SUB))"

text \<open>\<^verbatim>\<open>Stringify<i64>\<close>: a string is parsed, a non-negative integer arrives as \<^verbatim>\<open>u64\<close> and is
  converted, a negative one as \<^verbatim>\<open>i64\<close>; integers outside both types are floats to
  \<^verbatim>\<open>serde_json\<close>.\<close>

definition stringify_i64_value :: "json \<Rightarrow> payload_error + int" where
  "stringify_i64_value v =
     (case v of
        JStr s \<Rightarrow> (case parse_signed 64 s of None \<Rightarrow> Inl (InvalidInteger s) | Some i \<Rightarrow> Inr i)
      | JInt i \<Rightarrow>
          if 0 \<le> i \<and> i < 2 ^ 64 then (if i < 2 ^ 63 then Inr i else Inl (OutOfRange i))
          else if - (2 ^ 63) \<le> i \<and> i < 0 then Inr i
          else Inl (InvalidType FIELD_TIME)
      | JOther \<Rightarrow> Inl (InvalidType FIELD_TIME))"

definition randomness_value :: "bool \<Rightarrow> json \<Rightarrow> payload_error + u64" where
  "randomness_value big v =
     (case v of
        JStr s \<Rightarrow> (case randomness_from_str big s of Inl e \<Rightarrow> Inl (ValueRandomness e) | Inr x \<Rightarrow> Inr x)
      | _ \<Rightarrow> Inl (InvalidType FIELD_RANDOMNESS))"

definition i64_value :: "json \<Rightarrow> payload_error + int" where
  "i64_value v =
     (case v of
        JInt i \<Rightarrow> if in_i64 i then Inr i else Inl (OutOfRange i)
      | _ \<Rightarrow> Inl (InvalidType FIELD_EXP))"

definition string_value :: "bytes \<Rightarrow> json \<Rightarrow> payload_error + bytes" where
  "string_value k v = (case v of JStr s \<Rightarrow> Inr s | _ \<Rightarrow> Inl (InvalidType k))"

record payload_acc =
  a_sub :: "subject option"
  a_time :: "int option"
  a_randomness :: "u64 option"
  a_exp :: "int option"
  a_is_session :: "bool option"
  iss_seen :: bool
  scope_seen :: bool
  aud_seen :: bool

definition payload_acc_init :: payload_acc where
  "payload_acc_init =
     \<lparr>a_sub = None, a_time = None, a_randomness = None, a_exp = None, a_is_session = None,
      iss_seen = False, scope_seen = False, aud_seen = False\<rparr>"

definition visit_entry ::
  "bool \<Rightarrow> bytes list \<Rightarrow> bytes \<Rightarrow> json \<Rightarrow> payload_acc \<Rightarrow> payload_error + payload_acc" where
  "visit_entry big PROVIDERS key v acc =
     (if key = FIELD_SUB then
        (if a_sub acc \<noteq> None then Inl (DuplicateField key)
         else case subject_value big PROVIDERS v of Inl e \<Rightarrow> Inl e | Inr x \<Rightarrow> Inr (acc\<lparr>a_sub := Some x\<rparr>))
      else if key = FIELD_TIME then
        (if a_time acc \<noteq> None then Inl (DuplicateField key)
         else case stringify_i64_value v of Inl e \<Rightarrow> Inl e | Inr x \<Rightarrow> Inr (acc\<lparr>a_time := Some x\<rparr>))
      else if key = FIELD_RANDOMNESS then
        (if a_randomness acc \<noteq> None then Inl (DuplicateField key)
         else case randomness_value big v of Inl e \<Rightarrow> Inl e | Inr x \<Rightarrow> Inr (acc\<lparr>a_randomness := Some x\<rparr>))
      else if key = FIELD_EXP then
        (if a_exp acc \<noteq> None then Inl (DuplicateField key)
         else case i64_value v of Inl e \<Rightarrow> Inl e | Inr x \<Rightarrow> Inr (acc\<lparr>a_exp := Some x\<rparr>))
      else if key = FIELD_TYPE then
        (if a_is_session acc \<noteq> None then Inl (DuplicateField key)
         else case string_value key v of
                Inl e \<Rightarrow> Inl e
              | Inr s \<Rightarrow>
                  if s = TYPE_SESSION then Inr (acc\<lparr>a_is_session := Some True\<rparr>)
                  else if s = TYPE_WEB then Inr (acc\<lparr>a_is_session := Some False\<rparr>)
                  else Inl (WrongConstant key))
      else if key = FIELD_ISS then
        (if iss_seen acc then Inl (DuplicateField key)
         else case string_value key v of
                Inl e \<Rightarrow> Inl e
              | Inr s \<Rightarrow> if s \<noteq> ISSUER then Inl (WrongConstant key) else Inr (acc\<lparr>iss_seen := True\<rparr>))
      else if key = FIELD_SCOPE then
        (if scope_seen acc then Inl (DuplicateField key)
         else case string_value key v of
                Inl e \<Rightarrow> Inl e
              | Inr s \<Rightarrow> if s \<noteq> SCOPE then Inl (WrongConstant key) else Inr (acc\<lparr>scope_seen := True\<rparr>))
      else if key = FIELD_AUD then
        (if aud_seen acc then Inl (DuplicateField key)
         else case string_value key v of
                Inl e \<Rightarrow> Inl e
              | Inr s \<Rightarrow> if s \<noteq> AUDIENCE then Inl (WrongConstant key) else Inr (acc\<lparr>aud_seen := True\<rparr>))
      else Inl (UnknownField key))"

fun visit_entries ::
  "bool \<Rightarrow> bytes list \<Rightarrow> (bytes \<times> json) list \<Rightarrow> payload_acc \<Rightarrow> payload_error + payload_acc" where
  "visit_entries big PROVIDERS [] acc = Inr acc"
| "visit_entries big PROVIDERS ((key, v) # rest) acc =
     (case visit_entry big PROVIDERS key v acc of
        Inl e \<Rightarrow> Inl e
      | Inr acc \<Rightarrow> visit_entries big PROVIDERS rest acc)"

definition finish_payload :: "payload_acc \<Rightarrow> payload_error + token_payload" where
  "finish_payload acc =
     (case a_sub acc of None \<Rightarrow> Inl (MissingField FIELD_SUB) | Some sub \<Rightarrow>
      case a_time acc of None \<Rightarrow> Inl (MissingField FIELD_TIME) | Some time \<Rightarrow>
      case a_randomness acc of None \<Rightarrow> Inl (MissingField FIELD_RANDOMNESS) | Some rnd \<Rightarrow>
      case a_exp acc of None \<Rightarrow> Inl (MissingField FIELD_EXP) | Some e \<Rightarrow>
      case a_is_session acc of None \<Rightarrow> Inl (MissingField FIELD_TYPE) | Some is_session \<Rightarrow>
        if \<not> iss_seen acc then Inl (MissingField FIELD_ISS)
        else if \<not> scope_seen acc then Inl (MissingField FIELD_SCOPE)
        else if \<not> aud_seen acc then Inl (MissingField FIELD_AUD)
        else Inr \<lparr>p_sub = sub, p_time = time, p_randomness = rnd, p_exp = e, p_is_session = is_session\<rparr>)"

definition payload_deserialize ::
  "bool \<Rightarrow> bytes list \<Rightarrow> (bytes \<times> json) list \<Rightarrow> payload_error + token_payload" where
  "payload_deserialize big PROVIDERS es =
     (case visit_entries big PROVIDERS es payload_acc_init of Inl e \<Rightarrow> Inl e | Inr acc \<Rightarrow> finish_payload acc)"

section \<open>Raw tokens\<close>

record duration =
  dur_start :: int
  dur_end :: int

datatype TokenError =
  InvalidHeader | TokenInvalidFormat | InvalidBase64 | InvalidJson | InvalidSubject SubjectError
  | InvalidRandomness RandomnessError | InvalidSignatureLength

record raw_token =
  raw_subject :: subject
  raw_signature :: bytes
  raw_duration :: duration
  raw_randomness :: u64
  raw_is_session :: bool

definition raw_token_eq :: "raw_token \<Rightarrow> raw_token \<Rightarrow> bool" where
  "raw_token_eq s t \<longleftrightarrow> raw_signature s = raw_signature t"

definition to_token_payload :: "raw_token \<Rightarrow> token_payload" where
  "to_token_payload t =
     \<lparr>p_sub = raw_subject t, p_time = dur_start (raw_duration t), p_randomness = raw_randomness t,
      p_exp = dur_end (raw_duration t), p_is_session = raw_is_session t\<rparr>"

definition raw_key :: "raw_token \<Rightarrow> token_key" where
  "raw_key t = \<lparr>user_id = sub_id (raw_subject t), randomness = raw_randomness t\<rparr>"

definition raw_is_web :: "raw_token \<Rightarrow> bool" where
  "raw_is_web t \<longleftrightarrow> \<not> raw_is_session t"

definition HEADER_B64 :: bytes where
  "HEADER_B64 = bytes_of ''eyJhbGciOiJIUzI1NiIsInR5cCI6IkpXVCJ9.''"

definition raw_token_display ::
  "bool \<Rightarrow> ((bytes \<times> json) list \<Rightarrow> bytes) \<Rightarrow> (bytes \<Rightarrow> bytes) \<Rightarrow> raw_token \<Rightarrow> bytes ub" where
  "raw_token_display big json_to_vec b64_encode t = do {
     es \<leftarrow> payload_serialize big (to_token_payload t);
     Some (HEADER_B64 @ b64_encode (json_to_vec es) @ [0x2E] @ b64_encode (raw_signature t))
   }"

definition raw_token_from_str ::
  "bool \<Rightarrow> bytes list \<Rightarrow> (bytes \<Rightarrow> (bytes \<times> json) list option) \<Rightarrow> (bytes \<Rightarrow> bytes option)
   \<Rightarrow> (payload_error option \<Rightarrow> TokenError) \<Rightarrow> bytes \<Rightarrow> TokenError + raw_token" where
  "raw_token_from_str big PROVIDERS json_from_slice b64_decode downcast token =
     (case strip_prefix HEADER_B64 token of None \<Rightarrow> Inl InvalidHeader | Some parts \<Rightarrow>
      case split_once 0x2E parts of None \<Rightarrow> Inl TokenInvalidFormat | Some (payload_b64, signature_b64) \<Rightarrow>
      case b64_decode payload_b64 of None \<Rightarrow> Inl InvalidBase64 | Some payload \<Rightarrow>
      case b64_decode signature_b64 of None \<Rightarrow> Inl InvalidBase64 | Some signature \<Rightarrow>
        if length signature \<noteq> 32 then Inl InvalidSignatureLength
        else case json_from_slice payload of None \<Rightarrow> Inl (downcast None) | Some es \<Rightarrow>
             case payload_deserialize big PROVIDERS es of Inl e \<Rightarrow> Inl (downcast (Some e)) | Inr p \<Rightarrow>
               Inr \<lparr>raw_subject = p_sub p, raw_signature = signature,
                    raw_duration = \<lparr>dur_start = p_time p, dur_end = p_exp p\<rparr>,
                    raw_randomness = p_randomness p, raw_is_session = p_is_session p\<rparr>)"

record raw_token_helper =
  rth_subject :: subject_helper
  rth_signature :: bytes
  rth_duration :: duration
  rth_randomness :: u64
  rth_is_session :: bool

definition raw_to_helper :: "bool \<Rightarrow> raw_token \<Rightarrow> raw_token_helper" where
  "raw_to_helper big t =
     \<lparr>rth_subject = subject_to_helper big (raw_subject t), rth_signature = raw_signature t,
      rth_duration = raw_duration t, rth_randomness = raw_randomness t,
      rth_is_session = raw_is_session t\<rparr>"

text \<open>\<^verbatim>\<open>extract\<close> panics on an unsupported provider.\<close>

definition raw_extract :: "bool \<Rightarrow> bytes list \<Rightarrow> raw_token_helper \<Rightarrow> raw_token ub" where
  "raw_extract big PROVIDERS h =
     (case subject_try_extract big PROVIDERS (rth_subject h) of
        Inl _ \<Rightarrow> None
      | Inr s \<Rightarrow> Some \<lparr>raw_subject = s, raw_signature = rth_signature h,
                       raw_duration = rth_duration h, raw_randomness = rth_randomness h,
                       raw_is_session = rth_is_session h\<rparr>)"

section \<open>The visitor accepts the fields in any order\<close>

definition payload_ok :: "bool \<Rightarrow> bytes list \<Rightarrow> token_payload \<Rightarrow> bool" where
  "payload_ok big PROVIDERS p \<longleftrightarrow>
     subject_ok big PROVIDERS (p_sub p) \<and> in_i64 (p_time p) \<and> in_i64 (p_exp p)"

text \<open>The accumulator after the fields named in \<open>K\<close>.\<close>

definition acc_of :: "token_payload \<Rightarrow> bytes set \<Rightarrow> payload_acc" where
  "acc_of p K =
     \<lparr>a_sub = (if FIELD_SUB \<in> K then Some (p_sub p) else None),
      a_time = (if FIELD_TIME \<in> K then Some (p_time p) else None),
      a_randomness = (if FIELD_RANDOMNESS \<in> K then Some (p_randomness p) else None),
      a_exp = (if FIELD_EXP \<in> K then Some (p_exp p) else None),
      a_is_session = (if FIELD_TYPE \<in> K then Some (p_is_session p) else None),
      iss_seen = (FIELD_ISS \<in> K), scope_seen = (FIELD_SCOPE \<in> K), aud_seen = (FIELD_AUD \<in> K)\<rparr>"

lemma payload_serialize_values:
  assumes "payload_ok big PROVIDERS p"
  obtains sub rnd where
    "payload_serialize big p = Some [(FIELD_SUB, JStr sub), (FIELD_TIME, JStr (show_int (p_time p))),
       (FIELD_RANDOMNESS, JStr rnd), (FIELD_EXP, JInt (p_exp p)), (FIELD_ISS, JStr ISSUER),
       (FIELD_SCOPE, JStr SCOPE), (FIELD_AUD, JStr AUDIENCE),
       (FIELD_TYPE, JStr (if p_is_session p then TYPE_SESSION else TYPE_WEB))]"
    "subject_value big PROVIDERS (JStr sub) = Inr (p_sub p)"
    "randomness_value big (JStr rnd) = Inr (p_randomness p)"
    "stringify_i64_value (JStr (show_int (p_time p))) = Inr (p_time p)"
    "i64_value (JInt (p_exp p)) = Inr (p_exp p)"
proof -
  obtain sub where "subject_display big (p_sub p) = Some sub"
    "subject_from_str big PROVIDERS sub = Inr (p_sub p)"
    using subject_codec assms unfolding payload_ok_def by blast
  moreover obtain rnd where "randomness_display big (p_randomness p) = Some rnd"
    "randomness_from_str big rnd = Inr (p_randomness p)"
    using randomness_codec by blast
  moreover have "parse_signed 64 (show_int (p_time p)) = Some (p_time p)"
    using assms by (intro parse_signed_show) (simp_all add: payload_ok_def in_i64_def)
  ultimately show thesis
    using assms that
    by (simp add: payload_serialize_def subject_value_def randomness_value_def
        stringify_i64_value_def i64_value_def payload_ok_def)
qed

lemma type_neq: "TYPE_WEB \<noteq> TYPE_SESSION"
  by (simp add: TYPE_WEB_def TYPE_SESSION_def bytes_of_inj)

lemma visit_entry_acc:
  assumes ok: "payload_ok big PROVIDERS p" and es: "payload_serialize big p = Some es"
    and "(k, v) \<in> set es" and "k \<notin> K"
  shows "visit_entry big PROVIDERS k v (acc_of p K) = Inr (acc_of p (insert k K))"
proof -
  obtain sub rnd where vals:
    "es = [(FIELD_SUB, JStr sub), (FIELD_TIME, JStr (show_int (p_time p))),
       (FIELD_RANDOMNESS, JStr rnd), (FIELD_EXP, JInt (p_exp p)), (FIELD_ISS, JStr ISSUER),
       (FIELD_SCOPE, JStr SCOPE), (FIELD_AUD, JStr AUDIENCE),
       (FIELD_TYPE, JStr (if p_is_session p then TYPE_SESSION else TYPE_WEB))]"
    "subject_value big PROVIDERS (JStr sub) = Inr (p_sub p)"
    "randomness_value big (JStr rnd) = Inr (p_randomness p)"
    "stringify_i64_value (JStr (show_int (p_time p))) = Inr (p_time p)"
    "i64_value (JInt (p_exp p)) = Inr (p_exp p)"
    using payload_serialize_values [OF ok] es by auto
  from assms(3,4) show ?thesis
    unfolding vals(1) list.set insert_iff empty_iff prod.inject
    by (elim disjE conjE)
       (simp_all add: visit_entry_def acc_of_def vals(2-) string_value_def bytes_of_inj type_neq type_neq [symmetric])
qed

lemma visit_entries_acc:
  assumes ok: "payload_ok big PROVIDERS p" and es: "payload_serialize big p = Some es"
    and "set xs \<subseteq> set es" and "distinct (map fst xs)" and "fst ` set xs \<inter> K = {}"
  shows "visit_entries big PROVIDERS xs (acc_of p K) = Inr (acc_of p (K \<union> fst ` set xs))"
  using assms(3-)
proof (induction xs arbitrary: K)
  case (Cons x xs)
  obtain k v where x: "x = (k, v)" by fastforce
  have "visit_entry big PROVIDERS k v (acc_of p K) = Inr (acc_of p (insert k K))"
    by (rule visit_entry_acc [OF ok es]) (use Cons.prems x in auto)
  moreover have "visit_entries big PROVIDERS xs (acc_of p (insert k K))
      = Inr (acc_of p (insert k K \<union> fst ` set xs))"
    by (rule Cons.IH) (use Cons.prems x in auto)
  ultimately show ?case by (simp add: x)
qed simp

lemma payload_codec:
  assumes ok: "payload_ok big PROVIDERS p" and es: "payload_serialize big p = Some es"
    and "mset xs = mset es"
  shows "payload_deserialize big PROVIDERS xs = Inr p"
proof -
  have fields: "map fst es = [FIELD_SUB, FIELD_TIME, FIELD_RANDOMNESS, FIELD_EXP, FIELD_ISS, FIELD_SCOPE,
      FIELD_AUD, FIELD_TYPE]"
    using es by (auto simp: payload_serialize_def split: bind_splits)
  have "mset (map fst xs) = mset (map fst es)" by (simp only: mset_map assms(3))
  moreover have set: "set xs = set es" using assms(3) by (rule mset_eq_setD)
  ultimately have "distinct (map fst xs)"
    using mset_eq_imp_distinct_iff [of "map fst xs" "map fst es"] fields by (simp add: bytes_of_inj)
  then have "visit_entries big PROVIDERS xs (acc_of p {}) = Inr (acc_of p (set (map fst es)))"
    using visit_entries_acc [OF ok es, of xs "{}"] set by simp
  moreover have "payload_acc_init = acc_of p {}"
    by (simp add: payload_acc_init_def acc_of_def)
  ultimately show ?thesis
    by (simp add: payload_deserialize_def fields acc_of_def finish_payload_def)
qed

section \<open>Properties\<close>

text \<open>The payload visitor is the inverse of the serializer and does not depend on field order.  The
  entries of a serialised payload, in any order, are read back as the payload.\<close>

theorem payload_any_order:
  assumes "payload_ok big PROVIDERS p" and "payload_serialize big p = Some es" and "mset xs = mset es"
  shows "payload_deserialize big PROVIDERS xs = Inr p"
  using assms by (rule payload_codec)

definition example_payload :: token_payload where
  "example_payload =
     \<lparr>p_sub = \<lparr>provider = Provider AUTH0, sub_id = UserId 7 (2 ^ 63)\<rparr>, p_time = 1700000000,
      p_randomness = 5, p_exp = 1800000000, p_is_session = True\<rparr>"

lemma example_payload_ok: "payload_ok False DEFAULT_PROVIDERS example_payload"
proof -
  have "\<not> is_legacy False (UserId 7 (2 ^ 63))"
    by (simp add: is_legacy_def drop_bit_eq_div)
  moreover have "0x7C \<notin> set AUTH0" "AUTH0 \<noteq> []" by code_simp+
  ultimately show ?thesis
    by (simp add: payload_ok_def subject_ok_def example_payload_def in_i64_def DEFAULT_PROVIDERS_def)
qed

theorem payload_any_order_witness:
  "\<exists>es. payload_serialize False example_payload = Some es
     \<and> payload_deserialize False DEFAULT_PROVIDERS (rev es) = Inr example_payload"
proof -
  obtain es where es: "payload_serialize False example_payload = Some es"
    by (rule payload_serialize_values [OF example_payload_ok])
  with payload_any_order [OF example_payload_ok es, of "rev es"] show ?thesis by auto
qed



text \<open>A token survives the archive.  Extracting the helper of a token whose provider is configured
  returns the token; with a provider that is no longer configured the extraction panics.\<close>

theorem raw_token_archive:
  "raw_extract big PROVIDERS (raw_to_helper big t) =
     (if provider_name (provider (raw_subject t)) \<in> set PROVIDERS then Some t else None)"
proof (cases "provider_name (provider (raw_subject t)) \<in> set PROVIDERS")
  case True
  then show ?thesis
    by (simp add: raw_extract_def raw_to_helper_def subject_helper_codec)
next
  case False
  then show ?thesis
    by (auto simp: raw_extract_def raw_to_helper_def subject_try_extract_def subject_to_helper_def
        provider_not_extracted)
qed

end
