(* ===== verification/Token_Cache.thy ===== *)
theory Token_Cache
  imports Raw_Token
begin

text \<open>
  \<^verbatim>\<open>src/app/model/token/cache.rs\<close>: the global cache of reference-counted tokens.  A
  \<^verbatim>\<open>Token\<close> is a pointer to a heap block (\<open>token_inner\<close>); the heap is a partial map in which
  \<^term>\<open>None\<close> is a block not allocated or already freed, and reading or freeing such a block is
  undefined behaviour (\<^term>\<open>None\<close> of the whole operation, as is the abort on a count overflow
  and the panic on an over-long string).  \<open>to_string\<close> is \<^verbatim>\<open>RawToken\<close>'s printer and
  \<open>max_len\<close> the constant \<^verbatim>\<open>STRING_MAX_LEN\<close>.

  First every operation runs to completion before the next one starts; then \<open>drop\<close> is split at
  the point where it has decremented the count and does not hold the lock yet.
\<close>

section \<open>Operations\<close>

record token_inner =
  inner_raw :: raw_token
  inner_count :: nat
  inner_string :: bytes

record token_cache =
  heap :: "nat \<rightharpoonup> token_inner"
  next_ptr :: nat
  TOKEN_MAP :: "token_key \<rightharpoonup> nat"

definition token_cache_init :: token_cache where
  "token_cache_init = \<lparr>heap = Map.empty, next_ptr = 0, TOKEN_MAP = Map.empty\<rparr>"

definition ISIZE_MAX :: nat where
  "ISIZE_MAX = 2 ^ 63 - 1"

text \<open>\<^verbatim>\<open>fetch_add(1)\<close> with the overflow check that follows it.\<close>

definition fetch_add :: "nat \<Rightarrow> token_cache \<Rightarrow> token_cache ub" where
  "fetch_add ptr st =
     (case heap st ptr of
        None \<Rightarrow> None
      | Some i \<Rightarrow>
          if inner_count i > ISIZE_MAX then None
          else Some (st\<lparr>heap := (heap st)(ptr \<mapsto> i\<lparr>inner_count := inner_count i + 1\<rparr>)\<rparr>))"

text \<open>The lookup both paths of \<^verbatim>\<open>Token::new\<close> make: the inner option is a hit.\<close>

definition lookup_and_add :: "raw_token \<Rightarrow> token_cache \<Rightarrow> (nat \<times> token_cache) option ub" where
  "lookup_and_add raw st =
     (case TOKEN_MAP st (raw_key raw) of
        None \<Rightarrow> Some None
      | Some ptr \<Rightarrow>
          (case heap st ptr of
             None \<Rightarrow> None
           | Some i \<Rightarrow>
               if raw_token_eq (inner_raw i) raw
               then do { st \<leftarrow> fetch_add ptr st; Some (Some (ptr, st)) }
               else Some None))"

definition layout_for_string :: "nat \<Rightarrow> nat \<Rightarrow> unit ub" where
  "layout_for_string max_len string_len = (if string_len > max_len then None else Some ())"

definition token_new_slow ::
  "(raw_token \<Rightarrow> bytes) \<Rightarrow> nat \<Rightarrow> raw_token \<Rightarrow> bytes option \<Rightarrow> token_cache \<Rightarrow> (nat \<times> token_cache) ub" where
  "token_new_slow to_string max_len raw string st = do {
     hit \<leftarrow> lookup_and_add raw st;
     (case hit of
        Some r \<Rightarrow> Some r
      | None \<Rightarrow> do {
          let str = (case string of Some s \<Rightarrow> s | None \<Rightarrow> to_string raw);
          layout_for_string max_len (length str);
          let ptr = next_ptr st;
          Some (ptr, \<lparr>heap = (heap st)(ptr \<mapsto> \<lparr>inner_raw = raw, inner_count = 1, inner_string = str\<rparr>),
                      next_ptr = ptr + 1, TOKEN_MAP = (TOKEN_MAP st)(raw_key raw \<mapsto> ptr)\<rparr>)
        })
   }"

definition token_new ::
  "(raw_token \<Rightarrow> bytes) \<Rightarrow> nat \<Rightarrow> raw_token \<Rightarrow> bytes option \<Rightarrow> token_cache \<Rightarrow> (nat \<times> token_cache) ub" where
  "token_new to_string max_len raw string st = do {
     hit \<leftarrow> lookup_and_add raw st;
     (case hit of
        Some r \<Rightarrow> Some r
      | None \<Rightarrow> token_new_slow to_string max_len raw string st)
   }"

definition token_clone :: "nat \<Rightarrow> token_cache \<Rightarrow> (nat \<times> token_cache) ub" where
  "token_clone ptr st = do { st \<leftarrow> fetch_add ptr st; Some (ptr, st) }"

text \<open>\<^verbatim>\<open>drop\<close> in two parts: the decrement, which says whether this was the last reference, and
  the clean-up under the write lock.\<close>

definition drop_dec :: "nat \<Rightarrow> token_cache \<Rightarrow> (bool \<times> token_cache) ub" where
  "drop_dec ptr st =
     (case heap st ptr of
        None \<Rightarrow> None
      | Some i \<Rightarrow>
          Some (inner_count i = 1,
                st\<lparr>heap := (heap st)(ptr \<mapsto> i\<lparr>inner_count := inner_count i - 1\<rparr>)\<rparr>))"

definition drop_finish :: "nat \<Rightarrow> nat \<Rightarrow> token_cache \<Rightarrow> token_cache ub" where
  "drop_finish max_len ptr st =
     (case heap st ptr of
        None \<Rightarrow> None
      | Some i \<Rightarrow>
          if inner_count i \<noteq> 0 then Some st
          else do {
            let key = raw_key (inner_raw i);
            layout_for_string max_len (length (inner_string i));
            Some (st\<lparr>TOKEN_MAP := (TOKEN_MAP st)(key := None), heap := (heap st)(ptr := None)\<rparr>)
          })"

definition token_drop :: "nat \<Rightarrow> nat \<Rightarrow> token_cache \<Rightarrow> token_cache ub" where
  "token_drop max_len ptr st = do {
     (last, st) \<leftarrow> drop_dec ptr st;
     (if \<not> last then Some st else drop_finish max_len ptr st)
   }"

definition token_raw :: "nat \<Rightarrow> token_cache \<Rightarrow> raw_token ub" where
  "token_raw ptr st = map_option inner_raw (heap st ptr)"

definition token_as_str :: "nat \<Rightarrow> token_cache \<Rightarrow> bytes ub" where
  "token_as_str ptr st = map_option inner_string (heap st ptr)"

definition token_key_of :: "nat \<Rightarrow> token_cache \<Rightarrow> token_key ub" where
  "token_key_of ptr st = map_option raw_key (token_raw ptr st)"

section \<open>Invariant\<close>

text \<open>\<open>H\<close> is the multiset of the pointers held by live \<^verbatim>\<open>Token\<close> values.\<close>

definition cell_ok :: "nat \<Rightarrow> nat \<Rightarrow> token_inner option \<Rightarrow> bool" where
  "cell_ok max_len n c =
     (case c of
        None \<Rightarrow> n = 0
      | Some i \<Rightarrow> inner_count i = n \<and> 0 < n \<and> length (inner_string i) \<le> max_len)"

definition cache_inv :: "nat \<Rightarrow> nat multiset \<Rightarrow> token_cache \<Rightarrow> bool" where
  "cache_inv max_len H st \<longleftrightarrow>
     (\<forall>p. cell_ok max_len (count H p) (heap st p))
     \<and> (\<forall>k p. TOKEN_MAP st k = Some p \<longrightarrow> (\<exists>i. heap st p = Some i \<and> raw_key (inner_raw i) = k))
     \<and> (\<forall>p. next_ptr st \<le> p \<longrightarrow> heap st p = None)"

lemma cell_ok_simps [simp]:
  "cell_ok m n None \<longleftrightarrow> n = 0"
  "cell_ok m n (Some i) \<longleftrightarrow> inner_count i = n \<and> 0 < n \<and> length (inner_string i) \<le> m"
  by (simp_all add: cell_ok_def)

lemma cache_inv_cell: "cache_inv m H st \<Longrightarrow> cell_ok m (count H p) (heap st p)"
  by (simp add: cache_inv_def)

lemma cache_inv_none: "cache_inv m H st \<Longrightarrow> heap st p = None \<longleftrightarrow> p \<notin># H"
  using cache_inv_cell [of m H st p] by (cases "heap st p") (simp_all add: not_in_iff)

lemma cache_inv_map:
  "cache_inv m H st \<Longrightarrow> TOKEN_MAP st k = Some p \<Longrightarrow> \<exists>i. heap st p = Some i \<and> raw_key (inner_raw i) = k"
  by (auto simp: cache_inv_def)

lemma cache_inv_next: "cache_inv m H st \<Longrightarrow> next_ptr st \<le> p \<Longrightarrow> heap st p = None"
  by (auto simp: cache_inv_def)

lemma cache_invI:
  assumes "\<And>p. cell_ok m (count H p) (heap st p)"
    and "\<And>k p. TOKEN_MAP st k = Some p \<Longrightarrow> \<exists>i. heap st p = Some i \<and> raw_key (inner_raw i) = k"
    and "\<And>p. next_ptr st \<le> p \<Longrightarrow> heap st p = None"
  shows "cache_inv m H st"
  using assms by (simp add: cache_inv_def)

lemma cache_inv_init: "cache_inv m {#} token_cache_init"
  by (simp add: cache_inv_def token_cache_init_def)

lemma fetch_add_inv:
  assumes inv: "cache_inv m H st" and p: "p \<in># H" and "size H \<le> ISIZE_MAX"
  shows "\<exists>st'. fetch_add p st = Some st' \<and> cache_inv m (add_mset p H) st'
    \<and> token_raw p st' = token_raw p st"
proof -
  obtain i where i: "heap st p = Some i" using cache_inv_none [OF inv, of p] p by (cases "heap st p") auto
  have c: "inner_count i = count H p" "length (inner_string i) \<le> m"
    using cache_inv_cell [OF inv, of p] by (simp_all add: i)
  have le: "\<not> inner_count i > ISIZE_MAX"
    using count_le_size [of H p] assms(3) by (simp add: c(1))
  let ?st = "st\<lparr>heap := (heap st)(p \<mapsto> i\<lparr>inner_count := inner_count i + 1\<rparr>)\<rparr>"
  have "cache_inv m (add_mset p H) ?st"
  proof (rule cache_invI)
    show "cell_ok m (count (add_mset p H) q) (heap ?st q)" for q
      using cache_inv_cell [OF inv, of q] c by simp
    show "\<exists>i. heap ?st q = Some i \<and> raw_key (inner_raw i) = k" if "TOKEN_MAP ?st k = Some q" for k q
      using cache_inv_map [OF inv, of k q] that i by auto
    show "heap ?st q = None" if "next_ptr ?st \<le> q" for q
      using cache_inv_next [OF inv, of q] that i by auto
  qed
  then show ?thesis
    using i le by (simp add: fetch_add_def token_raw_def)
qed

lemma lookup_and_add_inv:
  assumes inv: "cache_inv m H st" and "size H \<le> ISIZE_MAX"
  shows "lookup_and_add raw st = Some None \<or>
    (\<exists>p st'. lookup_and_add raw st = Some (Some (p, st')) \<and> cache_inv m (add_mset p H) st' \<and> p \<in># H
       \<and> TOKEN_MAP st (raw_key raw) = Some p
       \<and> (\<exists>r. token_raw p st' = Some r \<and> raw_token_eq r raw \<and> raw_key r = raw_key raw))"
proof (cases "TOKEN_MAP st (raw_key raw)")
  case None
  then show ?thesis by (simp add: lookup_and_add_def)
next
  case (Some p)
  then obtain i where i: "heap st p = Some i" "raw_key (inner_raw i) = raw_key raw"
    using cache_inv_map [OF inv] by blast
  then have p: "p \<in># H" using cache_inv_none [OF inv, of p] by auto
  then obtain st' where "fetch_add p st = Some st'" "cache_inv m (add_mset p H) st'"
    "token_raw p st' = token_raw p st"
    using fetch_add_inv [OF inv p assms(2)] by blast
  with Some i p show ?thesis by (auto simp: lookup_and_add_def token_raw_def)
qed

lemma alloc_inv:
  assumes inv: "cache_inv m H st" and "length str \<le> m"
  shows "cache_inv m (add_mset (next_ptr st) H)
    \<lparr>heap = (heap st)(next_ptr st \<mapsto> \<lparr>inner_raw = raw, inner_count = 1, inner_string = str\<rparr>),
     next_ptr = next_ptr st + 1, TOKEN_MAP = (TOKEN_MAP st)(raw_key raw \<mapsto> next_ptr st)\<rparr>"
    (is "cache_inv m _ ?st")
proof (rule cache_invI)
  have new: "heap st (next_ptr st) = None" by (rule cache_inv_next [OF inv]) simp
  show "cell_ok m (count (add_mset (next_ptr st) H) q) (heap ?st q)" for q
    using cache_inv_cell [OF inv, of q] assms(2) new by auto
  show "\<exists>i. heap ?st q = Some i \<and> raw_key (inner_raw i) = k" if "TOKEN_MAP ?st k = Some q" for k q
    using that cache_inv_map [OF inv, of k q] new by (auto split: if_splits)
  show "heap ?st q = None" if "next_ptr ?st \<le> q" for q
    using that cache_inv_next [OF inv, of q] by simp
qed

lemma token_new_inv:
  assumes inv: "cache_inv m H st" and "size H \<le> ISIZE_MAX"
    and "length (case string of Some s \<Rightarrow> s | None \<Rightarrow> to_string raw) \<le> m"
  shows "\<exists>p st'. token_new to_string m raw string st = Some (p, st') \<and> cache_inv m (add_mset p H) st'
    \<and> (\<exists>r. token_raw p st' = Some r \<and> raw_token_eq r raw \<and> raw_key r = raw_key raw)"
  using lookup_and_add_inv [OF assms(1,2), of raw]
proof (elim disjE exE conjE)
  assume miss: "lookup_and_add raw st = Some None"
  show ?thesis
    using alloc_inv [OF inv assms(3), of raw] assms(3)
    by (auto simp: token_new_def token_new_slow_def miss layout_for_string_def token_raw_def
        raw_token_eq_def Let_def)
qed (auto simp: token_new_def)

lemma drop_dec_last_inv:
  assumes inv: "cache_inv m H st" and "count H p = 1"
  shows "\<exists>st'. token_drop m p st = Some st' \<and> cache_inv m (H - {#p#}) st' \<and> heap st' p = None"
proof -
  have p: "p \<in># H" using assms(2) by (simp flip: count_greater_zero_iff)
  obtain i where i: "heap st p = Some i" using cache_inv_none [OF inv, of p] p by (cases "heap st p") auto
  have c: "inner_count i = 1" "length (inner_string i) \<le> m"
    using cache_inv_cell [OF inv, of p] assms(2) by (simp_all add: i)
  let ?st = "st\<lparr>TOKEN_MAP := (TOKEN_MAP st)(raw_key (inner_raw i) := None), heap := (heap st)(p := None)\<rparr>"
  have "cache_inv m (H - {#p#}) ?st"
  proof (rule cache_invI)
    show "cell_ok m (count (H - {#p#}) q) (heap ?st q)" for q
      using cache_inv_cell [OF inv, of q] assms(2) by simp
    show "\<exists>i. heap ?st q = Some i \<and> raw_key (inner_raw i) = k" if "TOKEN_MAP ?st k = Some q" for k q
      using that cache_inv_map [OF inv, of k q] i by (auto split: if_splits)
    show "heap ?st q = None" if "next_ptr ?st \<le> q" for q
      using that cache_inv_next [OF inv, of q] by simp
  qed
  then show ?thesis
    using i c by (simp add: token_drop_def drop_dec_def drop_finish_def layout_for_string_def)
qed

lemma drop_dec_shared_inv:
  assumes inv: "cache_inv m H st" and "count H p > 1"
  shows "\<exists>st'. token_drop m p st = Some st' \<and> cache_inv m (H - {#p#}) st' \<and> heap st' p \<noteq> None"
proof -
  have p: "p \<in># H" using assms(2) by (simp flip: count_greater_zero_iff)
  obtain i where i: "heap st p = Some i" using cache_inv_none [OF inv, of p] p by (cases "heap st p") auto
  have c: "inner_count i = count H p" "length (inner_string i) \<le> m"
    using cache_inv_cell [OF inv, of p] by (simp_all add: i)
  let ?st = "st\<lparr>heap := (heap st)(p \<mapsto> i\<lparr>inner_count := inner_count i - 1\<rparr>)\<rparr>"
  have "cache_inv m (H - {#p#}) ?st"
  proof (rule cache_invI)
    show "cell_ok m (count (H - {#p#}) q) (heap ?st q)" for q
      using cache_inv_cell [OF inv, of q] c assms(2) by simp
    show "\<exists>i. heap ?st q = Some i \<and> raw_key (inner_raw i) = k" if "TOKEN_MAP ?st k = Some q" for k q
      using cache_inv_map [OF inv, of k q] that i by auto
    show "heap ?st q = None" if "next_ptr ?st \<le> q" for q
      using cache_inv_next [OF inv, of q] that i by auto
  qed
  then show ?thesis
    using i c assms(2) by (simp add: token_drop_def drop_dec_def)
qed

lemma token_drop_inv:
  assumes "cache_inv m H st" "p \<in># H"
  shows "\<exists>st'. token_drop m p st = Some st' \<and> cache_inv m (H - {#p#}) st'
    \<and> (heap st' p = None \<longleftrightarrow> count H p = 1)"
proof (cases "count H p = 1")
  case True
  with drop_dec_last_inv [OF assms(1) True] show ?thesis by auto
next
  case False
  moreover have "count H p > 0" using assms(2) by simp
  ultimately have "count H p > 1" by linarith
  with drop_dec_shared_inv [OF assms(1)] False show ?thesis by auto
qed

section \<open>Reference-counted resources\<close>

text \<open>The contract a holder of tokens relies on: \<open>acquire\<close> and \<open>copy\<close> give one more handle, \<open>release\<close>
  gives one back, and each of them keeps the invariant that ties the state to the multiset of
  handles.  Programs are sequences of requests; a program may copy and release only what it
  holds.\<close>

datatype 'a request = Acquire 'a | Copy nat | Release nat

fun run_requests ::
  "('a \<Rightarrow> 's \<Rightarrow> (nat \<times> 's) ub) \<Rightarrow> (nat \<Rightarrow> 's \<Rightarrow> (nat \<times> 's) ub) \<Rightarrow> (nat \<Rightarrow> 's \<Rightarrow> 's ub)
   \<Rightarrow> 'a request list \<Rightarrow> nat multiset \<Rightarrow> 's \<Rightarrow> (nat multiset \<times> 's) ub" where
  "run_requests acquire copy release [] H s = Some (H, s)"
| "run_requests acquire copy release (Acquire x # rs) H s =
     do { (p, s) \<leftarrow> acquire x s; run_requests acquire copy release rs (add_mset p H) s }"
| "run_requests acquire copy release (Copy p # rs) H s =
     (if p \<in># H then do { (p, s) \<leftarrow> copy p s; run_requests acquire copy release rs (add_mset p H) s }
      else run_requests acquire copy release rs H s)"
| "run_requests acquire copy release (Release p # rs) H s =
     (if p \<in># H then do { s \<leftarrow> release p s; run_requests acquire copy release rs (H - {#p#}) s }
      else run_requests acquire copy release rs H s)"

locale refcounted =
  fixes inv :: "nat multiset \<Rightarrow> 's \<Rightarrow> bool"
    and bound :: nat
    and admissible :: "'a \<Rightarrow> bool"
    and acquire :: "'a \<Rightarrow> 's \<Rightarrow> (nat \<times> 's) ub"
    and copy :: "nat \<Rightarrow> 's \<Rightarrow> (nat \<times> 's) ub"
    and release :: "nat \<Rightarrow> 's \<Rightarrow> 's ub"
  assumes acquire_inv: "inv H s \<Longrightarrow> size H \<le> bound \<Longrightarrow> admissible x \<Longrightarrow>
            \<exists>p s'. acquire x s = Some (p, s') \<and> inv (add_mset p H) s'"
    and copy_inv: "inv H s \<Longrightarrow> size H \<le> bound \<Longrightarrow> p \<in># H \<Longrightarrow>
            \<exists>s'. copy p s = Some (p, s') \<and> inv (add_mset p H) s'"
    and release_inv: "inv H s \<Longrightarrow> p \<in># H \<Longrightarrow> \<exists>s'. release p s = Some s' \<and> inv (H - {#p#}) s'"
begin

lemma run_safe:
  assumes "inv H s" and "size H + length rs \<le> bound" and "\<And>x. Acquire x \<in> set rs \<Longrightarrow> admissible x"
  shows "\<exists>H' s'. run_requests acquire copy release rs H s = Some (H', s') \<and> inv H' s'"
  using assms
proof (induction rs arbitrary: H s)
  case (Cons r rs)
  show ?case
  proof (cases r)
    case (Acquire x)
    then obtain p s' where "acquire x s = Some (p, s')" "inv (add_mset p H) s'"
      using acquire_inv [of H s x] Cons.prems by auto
    with Cons.IH [of "add_mset p H" s'] Cons.prems Acquire show ?thesis by auto
  next
    case (Copy p)
    show ?thesis
    proof (cases "p \<in># H")
      case True
      then obtain s' where "copy p s = Some (p, s')" "inv (add_mset p H) s'"
        using copy_inv [of H s p] Cons.prems by auto
      with Cons.IH [of "add_mset p H" s'] Cons.prems Copy True show ?thesis by auto
    next
      case False
      with Cons.IH [of H s] Cons.prems Copy show ?thesis by auto
    qed
  next
    case (Release p)
    show ?thesis
    proof (cases "p \<in># H")
      case True
      then obtain s' where "release p s = Some s'" "inv (H - {#p#}) s'"
        using release_inv [of H s p] Cons.prems by auto
      moreover have "size (H - {#p#}) \<le> size H" by (rule size_mset_mono) simp
      ultimately show ?thesis
        using Cons.IH [of "H - {#p#}" s'] Cons.prems Release True by auto
    next
      case False
      with Cons.IH [of H s] Cons.prems Release show ?thesis by auto
    qed
  qed
qed auto

end

definition string_fits :: "(raw_token \<Rightarrow> bytes) \<Rightarrow> nat \<Rightarrow> raw_token \<times> bytes option \<Rightarrow> bool" where
  "string_fits to_string m x \<longleftrightarrow> length (case snd x of Some s \<Rightarrow> s | None \<Rightarrow> to_string (fst x)) \<le> m"

interpretation tc: refcounted "cache_inv m" ISIZE_MAX "string_fits to_string m"
  "\<lambda>(raw, string). token_new to_string m raw string" token_clone "token_drop m" for to_string m
proof (unfold_locales, goal_cases)
  case (1 H s x)
  then show ?case
    using token_new_inv [where m = m and H = H and st = s and string = "snd x" and raw = "fst x"
        and to_string = to_string] by (auto simp: string_fits_def split_beta)
next
  case (2 H s p)
  then show ?case
    using fetch_add_inv [of m H s p] by (auto simp: token_clone_def)
next
  case (3 H s p)
  then show ?case
    using token_drop_inv [of m H s p] by blast
qed

section \<open>Interleaved drops\<close>

text \<open>\<open>pending\<close> holds the pointers of the threads that have decremented a count to zero and wait for
  the write lock.  A step that leaves the defined behaviour leads to \<^term>\<open>None\<close>.\<close>

datatype cache_event = ENew raw_token | EDropDec nat | EDropFinish nat

record conc_state =
  cs_cache :: token_cache
  cs_handles :: "nat multiset"
  cs_pending :: "nat multiset"

inductive conc_step ::
  "(raw_token \<Rightarrow> bytes) \<Rightarrow> nat \<Rightarrow> conc_state \<Rightarrow> cache_event \<Rightarrow> conc_state option \<Rightarrow> bool"
  for to_string m where
  new: "token_new to_string m raw None (cs_cache s) = Some (p, c) \<Longrightarrow>
        conc_step to_string m s (ENew raw)
          (Some (s\<lparr>cs_cache := c, cs_handles := add_mset p (cs_handles s)\<rparr>))"
| dec: "p \<in># cs_handles s \<Longrightarrow> drop_dec p (cs_cache s) = Some (was_last, c) \<Longrightarrow>
        conc_step to_string m s (EDropDec p)
          (Some \<lparr>cs_cache = c, cs_handles = cs_handles s - {#p#},
                 cs_pending = (if was_last then add_mset p (cs_pending s) else cs_pending s)\<rparr>)"
| finish: "p \<in># cs_pending s \<Longrightarrow> drop_finish m p (cs_cache s) = Some c \<Longrightarrow>
        conc_step to_string m s (EDropFinish p)
          (Some (s\<lparr>cs_cache := c, cs_pending := cs_pending s - {#p#}\<rparr>))"
| finish_ub: "p \<in># cs_pending s \<Longrightarrow> drop_finish m p (cs_cache s) = None \<Longrightarrow>
        conc_step to_string m s (EDropFinish p) None"

inductive conc_run ::
  "(raw_token \<Rightarrow> bytes) \<Rightarrow> nat \<Rightarrow> conc_state \<Rightarrow> cache_event list \<Rightarrow> conc_state option \<Rightarrow> bool"
  for to_string m where
  conc_nil: "conc_run to_string m s [] (Some s)"
| conc_cons: "conc_step to_string m s e (Some s') \<Longrightarrow> conc_run to_string m s' es r \<Longrightarrow>
     conc_run to_string m s (e # es) r"
| conc_ub: "conc_step to_string m s e None \<Longrightarrow> conc_run to_string m s [e] None"

definition conc_init :: conc_state where
  "conc_init = \<lparr>cs_cache = token_cache_init, cs_handles = {#}, cs_pending = {#}\<rparr>"

section \<open>Properties\<close>

text \<open>C25: creating, cloning and dropping tokens is memory safe when the operations do not overlap.  Any
  program that clones and drops only tokens it holds, makes fewer than \<open>2^63\<close> requests and passes
  strings that fit the layout runs without touching freed memory, and afterwards the count of every
  block is the number of tokens that point to it; in particular a block is live exactly while
  some token points to it, so nothing leaks.\<close>

theorem token_cache_safe:
  assumes "length rs \<le> ISIZE_MAX" and "\<forall>x. Acquire x \<in> set rs \<longrightarrow> string_fits to_string m x"
  shows "\<exists>H st. run_requests (\<lambda>(raw, string). token_new to_string m raw string)
      token_clone (token_drop m) rs {#} token_cache_init = Some (H, st)
    \<and> (\<forall>p. heap st p = None \<longleftrightarrow> p \<notin># H)
    \<and> (\<forall>p i. heap st p = Some i \<longrightarrow> inner_count i = count H p)"
proof -
  obtain H st where r: "run_requests (\<lambda>(raw, string). token_new to_string m raw string)
      token_clone (token_drop m) rs {#} token_cache_init = Some (H, st)" and inv: "cache_inv m H st"
    using tc.run_safe [OF cache_inv_init, of rs to_string m] assms by auto
  have "inner_count i = count H p" if "heap st p = Some i" for p i
    using cache_inv_cell [OF inv, of p] that by simp
  with r cache_inv_none [OF inv] show ?thesis by blast
qed

text \<open>Equal tokens share one block.  As long as the cached token with the key of \<open>raw\<close> has its
  signature, \<^verbatim>\<open>Token::new\<close> returns the pointer in the cache, allocates nothing and adds one to the
  count.\<close>

theorem token_new_shares:
  assumes "cache_inv m H st" and "size H \<le> ISIZE_MAX"
    and "TOKEN_MAP st (raw_key raw) = Some p" and "token_raw p st = Some r" and "raw_token_eq r raw"
  shows "\<exists>st'. token_new to_string m raw string st = Some (p, st') \<and> next_ptr st' = next_ptr st
    \<and> cache_inv m (add_mset p H) st'"
proof -
  obtain i where i: "heap st p = Some i" "inner_raw i = r"
    using assms(4) by (auto simp: token_raw_def)
  have "p \<in># H" using cache_inv_none [OF assms(1), of p] i by auto
  then obtain st' where "fetch_add p st = Some st'" "cache_inv m (add_mset p H) st'"
    using fetch_add_inv [OF assms(1) _ assms(2)] by blast
  with i assms(3,5) show ?thesis
    by (auto simp: token_new_def lookup_and_add_def fetch_add_def split: if_splits)
qed

definition example_raw :: raw_token where
  "example_raw =
     \<lparr>raw_subject = \<lparr>provider = Provider AUTH0, sub_id = UserId 7 (2 ^ 63)\<rparr>, raw_signature = replicate 32 9,
      raw_duration = \<lparr>dur_start = 0, dur_end = 1\<rparr>, raw_randomness = 5, raw_is_session = False\<rparr>"

theorem token_cache_safe_witness:
  "\<exists>H st. run_requests (\<lambda>(raw, string). token_new (\<lambda>_. []) 10 raw string) token_clone (token_drop 10)
       [Acquire (example_raw, None), Copy 0, Release 0] {#} token_cache_init = Some (H, st)
    \<and> (\<forall>p. heap st p = None \<longleftrightarrow> p \<notin># H)
    \<and> (\<forall>p i. heap st p = Some i \<longrightarrow> inner_count i = count H p)"
  by (rule token_cache_safe) (simp_all add: ISIZE_MAX_def string_fits_def)

theorem token_new_shares_witness:
  "\<exists>st st'. token_new (\<lambda>_. []) 10 example_raw None token_cache_init = Some (0, st)
    \<and> token_new (\<lambda>_. []) 10 example_raw None st = Some (0, st') \<and> next_ptr st' = next_ptr st"
proof -
  obtain st where st: "token_new (\<lambda>_. []) 10 example_raw None token_cache_init = Some (0, st)"
    "TOKEN_MAP st (raw_key example_raw) = Some 0" "token_raw 0 st = Some example_raw"
    by (simp add: token_new_def token_new_slow_def lookup_and_add_def token_cache_init_def
        layout_for_string_def token_raw_def Let_def)
  have inv: "cache_inv 10 {#0#} st"
    using token_new_inv [OF cache_inv_init, where m = 10 and string = None and to_string = "\<lambda>_. []"
        and raw = example_raw] st(1) by simp
  have "\<exists>st'. token_new (\<lambda>_. []) 10 example_raw None st = Some (0, st') \<and> next_ptr st' = next_ptr st
      \<and> cache_inv 10 (add_mset 0 {#0#}) st'"
    by (rule token_new_shares [OF inv _ st(2,3)]) (simp_all add: ISIZE_MAX_def raw_token_eq_def)
  with st(1) show ?thesis by blast
qed

text \<open>Overlapping drops are not safe.  Two threads suffice: the first drops the last token and is
  preempted before it takes the write lock; the second finds the block in the cache, takes a
  reference, drops it and frees the block; the first then reads and frees the block again.\<close>

theorem token_drop_race:
  assumes "length (to_string raw) \<le> m"
  shows "conc_run to_string m conc_init
    [ENew raw, EDropDec 0, ENew raw, EDropDec 0, EDropFinish 0, EDropFinish 0] None"
proof -
  define C where "C n = \<lparr>heap = [0 \<mapsto> \<lparr>inner_raw = raw, inner_count = n, inner_string = to_string raw\<rparr>],
      next_ptr = 1, TOKEN_MAP = [raw_key raw \<mapsto> 0]\<rparr>" for n
  define F where "F = \<lparr>heap = Map.empty, next_ptr = 1, TOKEN_MAP = Map.empty\<rparr>"
  have 1: "token_new to_string m raw None token_cache_init = Some (0, C 1)"
    using assms by (simp add: token_new_def token_new_slow_def lookup_and_add_def token_cache_init_def
        layout_for_string_def Let_def C_def)
  have 2: "drop_dec 0 (C 1) = Some (True, C 0)"
    by (simp add: drop_dec_def C_def)
  have 3: "token_new to_string m raw None (C 0) = Some (0, C 1)"
    by (simp add: token_new_def lookup_and_add_def fetch_add_def C_def raw_token_eq_def)
  have 4: "drop_finish m 0 (C 0) = Some F"
    using assms by (simp add: drop_finish_def layout_for_string_def C_def F_def Let_def)
  have 5: "drop_finish m 0 F = None"
    by (simp add: drop_finish_def F_def)
  let ?S = "\<lambda>c h q. \<lparr>cs_cache = c, cs_handles = h, cs_pending = q\<rparr>"
  have "conc_step to_string m (?S token_cache_init {#} {#}) (ENew raw) (Some (?S (C 1) {#0#} {#}))"
    using conc_step.new [where s = "?S token_cache_init {#} {#}" and p = 0 and c = "C 1"] 1 by simp
  moreover have "conc_step to_string m (?S (C 1) {#0#} q) (EDropDec 0) (Some (?S (C 0) {#} (add_mset 0 q)))" for q
    using conc_step.dec [where s = "?S (C 1) {#0#} q" and p = 0 and was_last = True and c = "C 0"] 2 by simp
  moreover have "conc_step to_string m (?S (C 0) {#} {#0#}) (ENew raw) (Some (?S (C 1) {#0#} {#0#}))"
    using conc_step.new [where s = "?S (C 0) {#} {#0#}" and p = 0 and c = "C 1"] 3 by simp
  moreover have "conc_step to_string m (?S (C 0) {#} {#0, 0#}) (EDropFinish 0) (Some (?S F {#} {#0#}))"
    using conc_step.finish [where s = "?S (C 0) {#} {#0, 0#}" and p = 0 and c = F] 4 by simp
  moreover have "conc_step to_string m (?S F {#} {#0#}) (EDropFinish 0) None"
    using 5 by (intro conc_step.finish_ub) simp_all
  ultimately show ?thesis
    unfolding conc_init_def by (meson conc_cons conc_ub)
qed

theorem token_drop_race_witness:
  "conc_run (\<lambda>_. []) 10 conc_init
    [ENew example_raw, EDropDec 0, ENew example_raw, EDropDec 0, EDropFinish 0, EDropFinish 0] None"
  by (rule token_drop_race) simp

end
