(* ===== verification/Checksum.thy ===== *)
theory Checksum
  imports Hex_Hash Base64
begin

text \<open>
  \<^verbatim>\<open>src/app/model/timestamp_header.rs\<close> and \<^verbatim>\<open>src/app/model/checksum.rs\<close>: the obfuscated
  timestamp of eight characters kept in a global atomic, and the device checksum (two hashes)
  with its textual form \<^verbatim>\<open>timestamp hash / hash\<close>, its strict parser \<open>checksum_from_str\<close> and
  the lenient \<open>checksum_repair\<close>, which falls back to fresh random hashes.

  \<open>rnd\<close> is \<^verbatim>\<open>Hash::random\<close> over a generator state; \<open>big\<close> says whether the target is
  big-endian (\<^verbatim>\<open>from_ne_bytes\<close>, \<^verbatim>\<open>to_ne_bytes\<close>).
\<close>

section \<open>The timestamp header\<close>

definition B64_ENCODE :: bytes where
  "B64_ENCODE = bytes_of ''ABCDEFGHIJKLMNOPQRSTUVWXYZabcdefghijklmnopqrstuvwxyz0123456789-_''"

fun obfuscate_loop :: "u8 \<Rightarrow> u8 \<Rightarrow> bytes \<Rightarrow> bytes" where
  "obfuscate_loop prev i [] = []"
| "obfuscate_loop prev i (b # bs) = (let c = (b XOR prev) + i in c # obfuscate_loop c (i + 1) bs)"

definition obfuscate_bytes :: "bytes \<Rightarrow> bytes" where
  "obfuscate_bytes bs = obfuscate_loop 165 0 bs"

definition encode_chunk :: "u8 \<Rightarrow> u8 \<Rightarrow> u8 \<Rightarrow> bytes ub" where
  "encode_chunk b0 b1 b2 = do {
     c0 \<leftarrow> slice_get B64_ENCODE (unat (drop_bit 2 b0));
     c1 \<leftarrow> slice_get B64_ENCODE (unat (push_bit 4 (b0 AND 0x03) OR drop_bit 4 b1));
     c2 \<leftarrow> slice_get B64_ENCODE (unat (push_bit 2 (b1 AND 0x0F) OR drop_bit 6 b2));
     c3 \<leftarrow> slice_get B64_ENCODE (unat (b2 AND 0x3F));
     Some [c0, c1, c2, c3]
   }"

definition encode_base64 :: "bytes \<Rightarrow> bytes ub" where
  "encode_base64 input =
     (case input of
        [b0, b1, b2, b3, b4, b5] \<Rightarrow> do {
          x \<leftarrow> encode_chunk b0 b1 b2;
          y \<leftarrow> encode_chunk b3 b4 b5;
          Some (x @ y)
        }
      | _ \<Rightarrow> None)"

definition timestamp_bytes :: "u64 \<Rightarrow> bytes" where
  "timestamp_bytes kilo_seconds =
     [ucast (drop_bit 8 kilo_seconds AND 0xFF), ucast (kilo_seconds AND 0xFF),
      ucast (drop_bit 24 kilo_seconds AND 0xFF), ucast (drop_bit 16 kilo_seconds AND 0xFF),
      ucast (drop_bit 8 kilo_seconds AND 0xFF), ucast (kilo_seconds AND 0xFF)]"

definition timestamp_new :: "bool \<Rightarrow> u64 \<Rightarrow> u64 ub" where
  "timestamp_new big kilo_seconds = do {
     out \<leftarrow> encode_base64 (obfuscate_bytes (timestamp_bytes kilo_seconds));
     Some (from_ne_bytes_u64 big out)
   }"

text \<open>The global \<^verbatim>\<open>TIMESTAMP_HEADER\<close> is the argument of \<open>timestamp_read\<close> and the result of
  \<open>update_global_with\<close>.\<close>

definition TIMESTAMP_HEADER_init :: u64 where
  "TIMESTAMP_HEADER_init = 0"

definition timestamp_read :: "bool \<Rightarrow> u64 \<Rightarrow> bytes" where
  "timestamp_read big header = to_ne_bytes_u64 big header"

definition update_global_with :: "bool \<Rightarrow> u64 \<Rightarrow> u64 \<Rightarrow> u64 ub" where
  "update_global_with big kilo_seconds header = timestamp_new big kilo_seconds"

section \<open>Checksums\<close>

datatype ChecksumError = InvalidFormat | ChecksumHashError HashError

definition checksum_error_display :: "ChecksumError \<Rightarrow> string" where
  "checksum_error_display e =
     (case e of InvalidFormat \<Rightarrow> ''Invalid Checksum format''
      | ChecksumHashError h \<Rightarrow> ''Hash error: '' @ hash_error_display h)"

record checksum =
  first :: Hash
  second :: Hash

definition checksum_random :: "('r \<Rightarrow> Hash \<times> 'r) \<Rightarrow> 'r \<Rightarrow> checksum \<times> 'r" where
  "checksum_random rnd r =
     (let (a, r) = rnd r; (b, r) = rnd r in (\<lparr>first = a, second = b\<rparr>, r))"

definition is_ascii_alphanumeric :: "u8 \<Rightarrow> bool" where
  "is_ascii_alphanumeric b \<longleftrightarrow>
     (0x30 \<le> b \<and> b \<le> 0x39) \<or> (0x41 \<le> b \<and> b \<le> 0x5A) \<or> (0x61 \<le> b \<and> b \<le> 0x7A)"

fun is_valid_timestamp :: "bytes \<Rightarrow> bool" where
  "is_valid_timestamp [] = True"
| "is_valid_timestamp (b # bs) =
     (if \<not> (is_ascii_alphanumeric b \<or> b = 0x2D \<or> b = 0x5F) then False else is_valid_timestamp bs)"

text \<open>The \<^verbatim>\<open>while i < 32\<close> loop of \<^verbatim>\<open>decode_hex_hash\<close>: \<open>k\<close> counts the remaining iterations.\<close>

fun decode_hex_loop :: "bytes \<Rightarrow> nat \<Rightarrow> nat \<Rightarrow> bytes \<Rightarrow> bytes option ub" where
  "decode_hex_loop hex i 0 result = Some (Some result)"
| "decode_hex_loop hex i (Suc k) result = do {
     hi \<leftarrow> slice_get hex (i * 2);
     lo \<leftarrow> slice_get hex (i * 2 + 1);
     let high = HEX_TABLE ! unat hi;
     let low = HEX_TABLE ! unat lo;
     (if high = 0xFF \<or> low = 0xFF then Some None
      else do {
        result \<leftarrow> slice_set result i (push_bit 4 high OR low);
        decode_hex_loop hex (i + 1) k result
      })
   }"

definition decode_hex_hash :: "bytes \<Rightarrow> Hash option ub" where
  "decode_hex_hash hex = do {
     r \<leftarrow> decode_hex_loop hex 0 32 (replicate 32 0);
     Some (map_option Hash r)
   }"

definition repair_short :: "('r \<Rightarrow> Hash \<times> 'r) \<Rightarrow> bytes \<Rightarrow> 'r \<Rightarrow> (checksum \<times> 'r) ub" where
  "repair_short rnd bs r = do {
     ts \<leftarrow> array_at bs 0 8;
     (if \<not> is_valid_timestamp ts then Some (checksum_random rnd r)
      else do {
        hex \<leftarrow> array_at bs 8 64;
        h1 \<leftarrow> decode_hex_hash hex;
        (case h1 of
           None \<Rightarrow> Some (checksum_random rnd r)
         | Some a \<Rightarrow> (let (b, r) = rnd r in Some (\<lparr>first = a, second = b\<rparr>, r)))
      })
   }"

definition repair_hashes :: "('r \<Rightarrow> Hash \<times> 'r) \<Rightarrow> bytes \<Rightarrow> nat \<Rightarrow> 'r \<Rightarrow> (checksum \<times> 'r) ub" where
  "repair_hashes rnd bs i r = do {
     hex \<leftarrow> array_at bs i 64;
     h1 \<leftarrow> decode_hex_hash hex;
     (case h1 of
        None \<Rightarrow> Some (checksum_random rnd r)
      | Some a \<Rightarrow> do {
          hex \<leftarrow> array_at bs (i + 65) 64;
          h2 \<leftarrow> decode_hex_hash hex;
          (case h2 of
             None \<Rightarrow> Some (checksum_random rnd r)
           | Some b \<Rightarrow> Some (\<lparr>first = a, second = b\<rparr>, r))
        })
   }"

definition repair_normal :: "('r \<Rightarrow> Hash \<times> 'r) \<Rightarrow> bytes \<Rightarrow> 'r \<Rightarrow> (checksum \<times> 'r) ub" where
  "repair_normal rnd bs r = do {
     sep \<leftarrow> slice_get bs 64;
     (if sep \<noteq> 0x2F then Some (checksum_random rnd r) else repair_hashes rnd bs 0 r)
   }"

definition repair_full :: "('r \<Rightarrow> Hash \<times> 'r) \<Rightarrow> bytes \<Rightarrow> 'r \<Rightarrow> (checksum \<times> 'r) ub" where
  "repair_full rnd bs r = do {
     ts \<leftarrow> array_at bs 0 8;
     (if \<not> is_valid_timestamp ts then Some (checksum_random rnd r)
      else do {
        sep \<leftarrow> slice_get bs 72;
        (if sep \<noteq> 0x2F then Some (checksum_random rnd r) else repair_hashes rnd bs 8 r)
      })
   }"

definition checksum_repair :: "('r \<Rightarrow> Hash \<times> 'r) \<Rightarrow> bytes \<Rightarrow> 'r \<Rightarrow> (checksum \<times> 'r) ub" where
  "checksum_repair rnd bs r =
     (if length bs = 72 then repair_short rnd bs r
      else if length bs = 129 then repair_normal rnd bs r
      else if length bs = 137 then repair_full rnd bs r
      else Some (checksum_random rnd r))"

definition checksum_from_bytes :: "bytes \<Rightarrow> checksum ub" where
  "checksum_from_bytes bs = do {
     a \<leftarrow> array_at bs 0 32;
     b \<leftarrow> array_at bs 32 32;
     Some \<lparr>first = Hash a, second = Hash b\<rparr>
   }"

definition checksum_into_bytes :: "checksum \<Rightarrow> bytes" where
  "checksum_into_bytes c = hash_bytes (first c) @ hash_bytes (second c)"

definition checksum_to_str :: "bool \<Rightarrow> u64 \<Rightarrow> checksum \<Rightarrow> bytes \<Rightarrow> bytes ub" where
  "checksum_to_str big header c out = do {
     out \<leftarrow> array_put out 0 (timestamp_read big header);
     w \<leftarrow> array_at out 8 64;
     w \<leftarrow> hash_to_str (first c) w;
     out \<leftarrow> array_put out 8 w;
     out \<leftarrow> slice_set out 72 0x2F;
     w \<leftarrow> array_at out 73 64;
     w \<leftarrow> hash_to_str (second c) w;
     array_put out 73 w
   }"

definition checksum_display :: "bool \<Rightarrow> u64 \<Rightarrow> checksum \<Rightarrow> bytes ub" where
  "checksum_display big header c = checksum_to_str big header c (replicate 137 0)"

definition checksum_from_str :: "bytes \<Rightarrow> (ChecksumError + checksum) ub" where
  "checksum_from_str s =
     (if length s = 129 \<and> s ! 64 = 0x2F \<or> length s = 137 \<and> s ! 72 = 0x2F then do {
        bs \<leftarrow> array_at (if length s = 129 then s else drop 8 s) 0 129;
        Some (case hash_from_str (take 64 bs) of
                Inl e \<Rightarrow> Inl (ChecksumHashError e)
              | Inr a \<Rightarrow>
                  (case hash_from_str (drop 65 bs) of
                     Inl e \<Rightarrow> Inl (ChecksumHashError e)
                   | Inr b \<Rightarrow> Inr \<lparr>first = a, second = b\<rparr>))
      }
      else Some (Inl InvalidFormat))"

definition checksum_wf :: "checksum \<Rightarrow> bool" where
  "checksum_wf c \<longleftrightarrow> hash_wf (first c) \<and> hash_wf (second c)"

section \<open>The timestamp header: lemmas\<close>

lemma length_B64_ENCODE [simp]: "length B64_ENCODE = 64"
  by (simp add: B64_ENCODE_def)

lemma distinct_B64_ENCODE: "distinct B64_ENCODE"
  by code_simp

interpretation b64url: alphabet B64_ENCODE "decode_lut B64_ENCODE"
  by (rule alphabet_decode_lut) (simp_all add: distinct_B64_ENCODE)

lemma valid_timestamp_iff:
  "is_valid_timestamp bs \<longleftrightarrow> (\<forall>b \<in> set bs. is_ascii_alphanumeric b \<or> b = 0x2D \<or> b = 0x5F)"
  by (induction bs) auto

lemma valid_B64_ENCODE: "is_valid_timestamp B64_ENCODE"
  by code_simp

lemma encode_chunk_eq: "encode_chunk b0 b1 b2 = Some (map (\<lambda>x. B64_ENCODE ! unat x) (group3 b0 b1 b2))"
  using group_bounds(1) [of _ b0 b1 b2]
  by (simp only: encode_chunk_def group3_def list.set_intros list.simps insert_iff simp_thms
      slice_get_in length_B64_ENCODE Option.bind_lunit)

lemma encode_base64_eq:
  "length bs = 6 \<Longrightarrow> encode_base64 bs = Some (map (\<lambda>x. B64_ENCODE ! unat x) (sextets bs))"
  by (auto simp: encode_base64_def encode_chunk_eq numeral_eq_Suc length_Suc_conv)

lemma b64url_inj:
  assumes "map (\<lambda>x. B64_ENCODE ! unat x) (sextets xs) = map (\<lambda>x. B64_ENCODE ! unat x) (sextets ys)"
  shows "xs = ys"
proof -
  have "inj_on (\<lambda>x. B64_ENCODE ! unat x) (set (sextets xs) \<union> set (sextets ys))"
    using distinct_B64_ENCODE
    by (intro inj_onI) (auto simp: nth_eq_iff_index_eq dest!: sextets_bound simp flip: word_unat_eq_iff)
  with assms have "sextets xs = sextets ys"
    by (simp add: inj_on_map_eq_map)
  then show ?thesis by (metis unsextets_sextets)
qed

lemma length_obfuscate_loop [simp]: "length (obfuscate_loop prev i bs) = length bs"
  by (induction prev i bs rule: obfuscate_loop.induct) (simp_all add: Let_def)

lemma obfuscate_loop_inj:
  "obfuscate_loop prev i xs = obfuscate_loop prev i ys \<longleftrightarrow> xs = ys"
proof (induction prev i xs arbitrary: ys rule: obfuscate_loop.induct)
  case (1 prev i)
  then show ?case by (cases ys) (simp_all add: Let_def)
next
  case (2 prev i b bs)
  have "x XOR prev = y XOR prev \<longleftrightarrow> x = y" for x y
    by (metis xor.assoc xor_self_eq xor.right_neutral)
  with 2 show ?case by (cases ys) (auto simp: Let_def)
qed

lemma length_timestamp_bytes [simp]:
  "length (timestamp_bytes ks) = 6" "length (obfuscate_bytes bs) = length bs"
  by (simp_all add: timestamp_bytes_def obfuscate_bytes_def)

lemma timestamp_bytes_inj:
  "timestamp_bytes a = timestamp_bytes b \<longleftrightarrow> take_bit 32 a = take_bit 32 b"
proof
  have ff: "x AND 0xFF = take_bit 8 x" for x :: u64
    by (simp add: take_bit_eq_mask mask_eq_exp_minus_1)
  have low: "(ucast (drop_bit n a AND 0xFF) :: u8) = ucast (drop_bit n b AND 0xFF)
      \<longleftrightarrow> (\<forall>j < 8. bit a (n + j) = bit b (n + j))" for n
    unfolding ff by (auto simp: bit_eq_iff bit_simps)
  show "timestamp_bytes a = timestamp_bytes b \<Longrightarrow> take_bit 32 a = take_bit 32 b"
  proof (rule bit_word_eqI)
    fix n :: nat
    assume "timestamp_bytes a = timestamp_bytes b"
    then have "\<forall>j < 8. bit a (0 + j) = bit b (0 + j)" "\<forall>j < 8. bit a (8 + j) = bit b (8 + j)"
      "\<forall>j < 8. bit a (16 + j) = bit b (16 + j)" "\<forall>j < 8. bit a (24 + j) = bit b (24 + j)"
      unfolding low [symmetric] by (simp_all add: timestamp_bytes_def)
    moreover have "n < 32 \<Longrightarrow> n < 8 \<or> (\<exists>j<8. n = 8 + j) \<or> (\<exists>j<8. n = 16 + j) \<or> (\<exists>j<8. n = 24 + j)"
      by presburger
    ultimately show "bit (take_bit 32 a) n = bit (take_bit 32 b) n"
      by (auto simp: bit_simps)
  qed
  assume eq: "take_bit 32 a = take_bit 32 b"
  have "bit a n = bit b n" if "n < 32" for n
    using arg_cong [OF eq, of "\<lambda>x. bit x n"] that by (simp add: bit_simps)
  then show "timestamp_bytes a = timestamp_bytes b"
    unfolding timestamp_bytes_def using low [of 0] low [of 8] low [of 16] low [of 24] by simp
qed

definition header_text :: "u64 \<Rightarrow> bytes" where
  "header_text ks = map (\<lambda>x. B64_ENCODE ! unat x) (sextets (obfuscate_bytes (timestamp_bytes ks)))"

lemma length_header_text [simp]: "length (header_text ks) = 8"
  by (simp add: header_text_def length_sextets encoded_len_def)

lemma valid_header_text: "is_valid_timestamp (header_text ks)"
proof -
  have "set (header_text ks) \<subseteq> set B64_ENCODE"
    by (auto simp: header_text_def dest!: sextets_bound)
  with valid_B64_ENCODE show ?thesis
    unfolding valid_timestamp_iff by blast
qed

lemma timestamp_new_eq: "timestamp_new big ks = Some (from_ne_bytes_u64 big (header_text ks))"
  by (simp add: timestamp_new_def encode_base64_eq header_text_def)

lemma header_text_inj: "header_text a = header_text b \<longleftrightarrow> take_bit 32 a = take_bit 32 b"
proof -
  have "header_text a = header_text b \<longleftrightarrow> timestamp_bytes a = timestamp_bytes b"
    unfolding header_text_def using b64url_inj obfuscate_loop_inj
    by (metis obfuscate_bytes_def)
  then show ?thesis by (simp add: timestamp_bytes_inj)
qed

section \<open>Checksums: lemmas\<close>

lemma decode_hex_loop_eq:
  assumes "length pre = i" "length junk = k" "length hpre = i * 2" "length hx = 2 * k"
  shows "decode_hex_loop (hpre @ hx) i k (pre @ junk) =
    Some (case hash_decode_pairs hx of Inl _ \<Rightarrow> None | Inr bs \<Rightarrow> Some (pre @ bs))"
  using assms
proof (induction k arbitrary: i pre junk hpre hx)
  case 0
  then show ?case by simp
next
  case (Suc k)
  from Suc.prems obtain x junk' where j: "junk = x # junk'" "length junk' = k"
    by (auto simp: length_Suc_conv)
  from Suc.prems obtain hi lo hx' where h: "hx = hi # lo # hx'" "length hx' = 2 * k"
    by (auto simp: length_Suc_conv)
  have g: "slice_get (hpre @ hi # lo # hx') (i * 2) = Some hi"
    "slice_get (hpre @ hi # lo # hx') (i * 2 + 1) = Some lo"
    using Suc.prems(3) by (simp_all add: slice_get_def nth_append)
  have w: "slice_set (pre @ x # junk') i v = Some ((pre @ [v]) @ junk')" for v
    using slice_set_middle [of pre x junk' v] Suc.prems(1) by simp
  have IH: "decode_hex_loop ((hpre @ [hi, lo]) @ hx') (i + 1) k ((pre @ [v]) @ junk') =
      Some (case hash_decode_pairs hx' of Inl _ \<Rightarrow> None | Inr bs \<Rightarrow> Some ((pre @ [v]) @ bs))" for v
    by (rule Suc.IH) (use Suc.prems j h in simp_all)
  show ?case
    using g w IH by (auto simp: j h hex_to_byte_def Let_def split: sum.splits)
qed

lemma decode_hex_hash_eq:
  "length hx = 64 \<Longrightarrow>
   decode_hex_hash hx = Some (case hash_from_str hx of Inl _ \<Rightarrow> None | Inr h \<Rightarrow> Some h)"
  using decode_hex_loop_eq [of "[]" 0 "replicate 32 0" 32 "[]" hx]
  by (simp add: decode_hex_hash_def hash_from_str_def split: sum.splits)

lemma checksum_display_eq:
  assumes "checksum_wf c"
  shows "checksum_display big header c = Some (timestamp_read big header
    @ hex_encode (hash_bytes (first c)) @ [0x2F] @ hex_encode (hash_bytes (second c)))"
proof -
  define ts where "ts = timestamp_read big header"
  define f where "f = hex_encode (hash_bytes (first c))"
  define g where "g = hex_encode (hash_bytes (second c))"
  have len: "length ts = 8" "length f = 64" "length g = 64"
    using assms
    by (simp_all add: ts_def f_def g_def timestamp_read_def to_ne_bytes_u64_def checksum_wf_def hash_wf_def)
  have hs: "hash_to_str (first c) w = Some f" "hash_to_str (second c) w = Some g"
    if "length w = 64" for w
    using that assms by (simp_all add: f_def g_def hash_to_str_eq checksum_wf_def)
  let ?z = "\<lambda>n. replicate n (0 :: u8)"
  have b0: "array_put (?z 137) 0 ts = Some (ts @ ?z 129)"
    by (simp add: array_put_def len)
  have b1: "array_at (ts @ ?z 129) 8 64 = Some (?z 64)" "array_put (ts @ ?z 129) 8 f = Some (ts @ f @ ?z 65)"
    by (simp_all add: array_at_def array_put_def len)
  have b2: "slice_set (ts @ f @ ?z 65) 72 0x2F = Some (ts @ f @ [0x2F] @ ?z 64)"
    using slice_set_middle [of "ts @ f" 0 "?z 64" "0x2F"] len
    by (simp add: replicate_Suc [symmetric] del: replicate_Suc)
  have b3: "array_at (ts @ f @ [0x2F] @ ?z 64) 73 64 = Some (?z 64)"
    "array_put (ts @ f @ [0x2F] @ ?z 64) 73 g = Some (ts @ f @ [0x2F] @ g)"
    by (simp_all add: array_at_def array_put_def len)
  show ?thesis
    unfolding checksum_display_def checksum_to_str_def ts_def [symmetric] f_def [symmetric] g_def [symmetric]
    by (simp only: b0 b1 b2 b3 hs length_replicate Option.bind_lunit)
qed

lemma hash_from_str_hex: "hash_wf h \<Longrightarrow> hash_from_str (hex_encode (hash_bytes h)) = Inr h"
  by (cases h) (simp add: hash_from_str_def hash_decode_pairs_encode hash_wf_def)

lemma checksum_from_str_parts:
  "length ts = 8 \<Longrightarrow> length f = 64 \<Longrightarrow> length g = 64 \<Longrightarrow>
   checksum_from_str (ts @ f @ [0x2F] @ g) =
     Some (case (hash_from_str f, hash_from_str g) of
             (Inr a, Inr b) \<Rightarrow> Inr \<lparr>first = a, second = b\<rparr>
           | (Inl e, _) \<Rightarrow> Inl (ChecksumHashError e)
           | (Inr a, Inl e) \<Rightarrow> Inl (ChecksumHashError e))"
  by (auto simp: checksum_from_str_def array_at_def nth_append split: sum.splits)

text \<open>What \<open>checksum_repair\<close> keeps of a text: both hashes, the first one, or nothing.\<close>

definition repair_spec :: "('r \<Rightarrow> Hash \<times> 'r) \<Rightarrow> bytes \<Rightarrow> 'r \<Rightarrow> checksum \<times> 'r" where
  "repair_spec rnd s r =
     (if length s = 72 \<and> is_valid_timestamp (take 8 s)
      then (case hash_from_str (drop 8 s) of
              Inr a \<Rightarrow> (\<lparr>first = a, second = fst (rnd r)\<rparr>, snd (rnd r))
            | Inl _ \<Rightarrow> checksum_random rnd r)
      else if length s = 129 \<or> length s = 137 \<and> is_valid_timestamp (take 8 s)
      then (case checksum_from_str s of
              Some (Inr c) \<Rightarrow> (c, r)
            | _ \<Rightarrow> checksum_random rnd r)
      else checksum_random rnd r)"

lemma repair_hashes_eq:
  "length s = i + 129 \<Longrightarrow>
   repair_hashes rnd s i r =
     Some (case (hash_from_str (take 64 (drop i s)), hash_from_str (drop (i + 65) s)) of
             (Inr a, Inr b) \<Rightarrow> (\<lparr>first = a, second = b\<rparr>, r)
           | _ \<Rightarrow> checksum_random rnd r)"
  by (auto simp: repair_hashes_def array_at_def decode_hex_hash_eq split: sum.splits)

lemma checksum_repair_eq: "checksum_repair rnd s r = Some (repair_spec rnd s r)"
proof -
  consider "length s = 72" | "length s = 129" | "length s = 137"
    | "length s \<noteq> 72" "length s \<noteq> 129" "length s \<noteq> 137" by blast
  then show ?thesis
  proof cases
    case 1
    then show ?thesis
      by (simp add: checksum_repair_def repair_spec_def repair_short_def array_at_def
          decode_hex_hash_eq split_def Let_def split: sum.splits)
  next
    case 2
    then show ?thesis
      by (simp add: checksum_repair_def repair_spec_def repair_normal_def repair_hashes_eq
          checksum_from_str_def array_at_def split: sum.splits)
  next
    case 3
    then show ?thesis
      by (simp add: checksum_repair_def repair_spec_def repair_full_def repair_hashes_eq
          checksum_from_str_def array_at_def drop_drop split: sum.splits)
  next
    case 4
    then show ?thesis by (simp add: checksum_repair_def repair_spec_def)
  qed
qed

section \<open>Properties\<close>

text \<open>The timestamp header is well formed and keeps the low 32 bits of the time.  Updating the
  global never panics, the eight characters read back pass the check the checksum parser makes,
  and two times give the same characters exactly when they agree modulo \<open>2^32\<close>.\<close>

theorem timestamp_header_faithful:
  "\<exists>h1 h2. update_global_with big ks1 old1 = Some h1 \<and> update_global_with big ks2 old2 = Some h2
     \<and> length (timestamp_read big h1) = 8 \<and> is_valid_timestamp (timestamp_read big h1)
     \<and> (timestamp_read big h1 = timestamp_read big h2 \<longleftrightarrow> take_bit 32 ks1 = take_bit 32 ks2)"
  by (simp add: update_global_with_def timestamp_new_eq timestamp_read_def to_from_ne_bytes_u64
      valid_header_text header_text_inj)

text \<open>Printed checksums parse back.  For every header in the global, also the initial zero,
  printing a checksum is defined and the strict parser returns the same checksum.\<close>

theorem checksum_roundtrip:
  assumes "checksum_wf c"
  shows "\<exists>s. checksum_display big header c = Some s \<and> checksum_from_str s = Some (Inr c)"
proof -
  let ?f = "hex_encode (hash_bytes (first c))" and ?g = "hex_encode (hash_bytes (second c))"
  have "checksum_from_str (timestamp_read big header @ ?f @ [0x2F] @ ?g) = Some (Inr c)"
    using assms
    by (subst checksum_from_str_parts)
       (simp_all add: timestamp_read_def to_ne_bytes_u64_def hash_from_str_hex checksum_wf_def hash_wf_def)
  with assms show ?thesis by (simp add: checksum_display_eq)
qed

theorem checksum_roundtrip_witness:
  "\<exists>s. checksum_display False 0 \<lparr>first = hash_nil, second = Hash (replicate 32 7)\<rparr> = Some s
     \<and> checksum_from_str s = Some (Inr \<lparr>first = hash_nil, second = Hash (replicate 32 7)\<rparr>)"
  by (rule checksum_roundtrip) (simp add: checksum_wf_def hash_wf_def hash_nil_def)

text \<open>Repairing is safe and loses nothing.  For every text \<open>checksum_repair\<close> is defined (the
  pointer casts stay inside it); it keeps the checksum whenever the strict parser accepts the
  text and the timestamp, if there is one, is well formed, keeps the device hash of the short
  form, and draws fresh hashes in every other case.\<close>

theorem checksum_repair_total:
  "checksum_repair rnd s r = Some (repair_spec rnd s r)"
  by (rule checksum_repair_eq)

text \<open>The header, the printer and the lenient parser work together.  Once the header has been
  updated, whatever the time, repairing a printed checksum returns it and draws no random
  number.\<close>

theorem repair_printed_checksum:
  assumes "checksum_wf c" "update_global_with big ks old = Some header"
    "checksum_display big header c = Some s"
  shows "checksum_repair rnd s r = Some (c, r)"
proof -
  let ?f = "hex_encode (hash_bytes (first c))" and ?g = "hex_encode (hash_bytes (second c))"
  have ts: "timestamp_read big header = header_text ks"
    using assms(2)
    by (simp add: update_global_with_def timestamp_new_eq timestamp_read_def)
       (metis to_from_ne_bytes_u64 length_header_text)
  have len: "length ?f = 64" "length ?g = 64"
    using assms(1) by (simp_all add: checksum_wf_def hash_wf_def)
  have s: "s = header_text ks @ ?f @ [0x2F] @ ?g"
    using assms(1,3) by (simp add: checksum_display_eq ts)
  have p: "checksum_from_str s = Some (Inr c)"
    unfolding s using assms(1) len
    by (subst checksum_from_str_parts) (simp_all add: hash_from_str_hex checksum_wf_def)
  have "length s = 137" "take 8 s = header_text ks"
    unfolding s using len by simp_all
  then show ?thesis
    by (simp add: checksum_repair_eq repair_spec_def p valid_header_text)
qed

theorem repair_printed_checksum_witness:
  "\<exists>header s. update_global_with False 1700000 0 = Some header
     \<and> checksum_display False header \<lparr>first = hash_nil, second = hash_nil\<rparr> = Some s
     \<and> checksum_repair (\<lambda>r. (Hash [], r)) s () = Some (\<lparr>first = hash_nil, second = hash_nil\<rparr>, ())"
proof -
  let ?c = "\<lparr>first = hash_nil, second = hash_nil\<rparr>"
  have wf: "checksum_wf ?c" by (simp add: checksum_wf_def hash_wf_def hash_nil_def)
  obtain header where h: "update_global_with False 1700000 0 = Some header"
    by (simp add: update_global_with_def timestamp_new_eq)
  obtain s where s: "checksum_display False header ?c = Some s"
    using checksum_display_eq [OF wf] by blast
  show ?thesis
    by (intro exI conjI, rule h, rule s, rule repair_printed_checksum [OF wf h s])
qed

end
