(* ===== verification/Token_Manager.thy ===== *)
theory Token_Manager
  imports Raw_Token Checksum
begin

text \<open>
  \<^verbatim>\<open>src/app/model/state/token.rs\<close> and \<^verbatim>\<open>src/app/model/state/token/queue.rs\<close> (with the default
  feature \<^verbatim>\<open>horizon\<close>), and the token records of \<^verbatim>\<open>src/app/model.rs\<close>: the slot store of tokens
  with its three indices, the list of free slots and the round-robin queue.  The accesses the
  source makes with \<^verbatim>\<open>get_unchecked\<close> and \<^verbatim>\<open>unwrap_unchecked\<close> are partial here.

  The global \<^verbatim>\<open>QUEUE_HEADS\<close> is the argument \<open>heads\<close> of the operations that use it.  A
  \<^verbatim>\<open>Token\<close> is its raw token and its string.  The profiles fetched from the network are opaque
  (\<open>'p\<close>), except for the names of the user profile.
\<close>

section \<open>Records\<close>

record token =
  tok_raw :: raw_token
  tok_str :: bytes

definition key_of_token :: "token \<Rightarrow> token_key" where
  "key_of_token t = raw_key (tok_raw t)"

definition token_is_web :: "token \<Rightarrow> bool" where
  "token_is_web t = raw_is_web (tok_raw t)"

type_synonym uuid = u128
type_synonym tz = bytes

datatype GcppHost = Asia | EU | US

record ext_token =
  primary_token :: token
  secondary_token :: "token option"
  ext_checksum :: checksum
  client_key :: Hash
  config_version :: "uuid option"
  session_id :: uuid
  proxy :: "bytes option"
  timezone :: "tz option"
  gcpp_host :: "GcppHost option"

text \<open>The inherent \<^verbatim>\<open>ExtToken::clone\<close> drops the secondary token.\<close>

definition ext_clone :: "ext_token \<Rightarrow> ext_token" where
  "ext_clone e = e\<lparr>secondary_token := None\<rparr>"

definition ext_clone_without_config_version :: "ext_token \<Rightarrow> ext_token" where
  "ext_clone_without_config_version e = e\<lparr>secondary_token := None, config_version := None\<rparr>"

record token_health =
  backoff_until :: u64
  consecutive_failures :: u32

definition token_health_new :: token_health where
  "token_health_new = \<lparr>backoff_until = 0, consecutive_failures = 0\<rparr>"

definition is_available :: "u64 \<Rightarrow> token_health \<Rightarrow> bool" where
  "is_available now h \<longleftrightarrow> backoff_until h \<le> now"

definition set_backoff :: "u64 \<Rightarrow> u64 \<Rightarrow> token_health \<Rightarrow> token_health" where
  "set_backoff now seconds h = h\<lparr>backoff_until := now + seconds\<rparr>"

definition set_permanent_backoff :: "token_health \<Rightarrow> token_health" where
  "set_permanent_backoff h = h\<lparr>backoff_until := - 1\<rparr>"

definition clear_backoff :: "token_health \<Rightarrow> token_health" where
  "clear_backoff h = h\<lparr>backoff_until := 0, consecutive_failures := 0\<rparr>"

definition inc_failures :: "token_health \<Rightarrow> u32 \<times> token_health" where
  "inc_failures h = (let n = consecutive_failures h + 1 in (n, h\<lparr>consecutive_failures := n\<rparr>))"

record token_status =
  enabled :: bool
  health :: token_health

definition token_status_default :: token_status where
  "token_status_default = \<lparr>enabled = True, health = token_health_new\<rparr>"

record 'p user_profile =
  email :: "bytes option"
  first_name :: "bytes option"
  last_name :: "bytes option"
  user_rest :: 'p

definition user_alias :: "'p user_profile \<Rightarrow> bytes option" where
  "user_alias u =
     (case email u of Some e \<Rightarrow> Some e
      | None \<Rightarrow> (case first_name u of Some f \<Rightarrow> Some f | None \<Rightarrow> last_name u))"

record 'p token_info =
  ext_bundle :: ext_token
  status :: token_status
  usage :: "'p option"
  user :: "'p user_profile option"
  stripe :: "'p option"
  sessions :: "'p list"

definition is_enabled :: "'p token_info \<Rightarrow> bool" where
  "is_enabled t \<longleftrightarrow> enabled (status t)"

definition info_key :: "'p token_info \<Rightarrow> token_key" where
  "info_key t = key_of_token (primary_token (ext_bundle t))"

section \<open>The queue\<close>

datatype QueueType = PrivilegedPaid | PrivilegedFree | NormalPaid | NormalFree

definition as_index :: "QueueType \<Rightarrow> nat" where
  "as_index q = (case q of PrivilegedPaid \<Rightarrow> 0 | PrivilegedFree \<Rightarrow> 1 | NormalPaid \<Rightarrow> 2 | NormalFree \<Rightarrow> 3)"

definition QUEUE_HEADS_init :: "nat list" where
  "QUEUE_HEADS_init = [0, 0, 0, 0]"

record token_queue =
  q_vec :: "nat list"
  q_map :: "token_key \<rightharpoonup> nat"

definition token_queue_new :: token_queue where
  "token_queue_new = \<lparr>q_vec = [], q_map = Map.empty\<rparr>"

definition queue_push :: "token_key \<Rightarrow> nat \<Rightarrow> token_queue \<Rightarrow> token_queue" where
  "queue_push key token_id q =
     \<lparr>q_vec = q_vec q @ [token_id], q_map = (q_map q)(key \<mapsto> length (q_vec q))\<rparr>"

definition queue_set_key :: "token_key \<Rightarrow> token_key \<Rightarrow> token_queue \<Rightarrow> bool \<times> token_queue" where
  "queue_set_key old_key new_key q =
     (case q_map q old_key of
        None \<Rightarrow> (False, q)
      | Some vec_index \<Rightarrow>
          let m = (q_map q)(old_key := None)
          in (m new_key = None, q\<lparr>q_map := m(new_key \<mapsto> vec_index)\<rparr>))"

text \<open>The loop that renumbers the entries behind the removed one; \<open>ids\<close> are the slots still to
  visit and \<open>j\<close> the position of the first of them.\<close>

fun reindex ::
  "'p token_info option list \<Rightarrow> nat list \<Rightarrow> nat \<Rightarrow> (token_key \<rightharpoonup> nat) \<Rightarrow> (token_key \<rightharpoonup> nat) ub" where
  "reindex tokens [] j m = Some m"
| "reindex tokens (tid # ids) j m = do {
     slot \<leftarrow> slice_get tokens tid;
     info \<leftarrow> slot;
     let key = info_key info;
     m key;
     reindex tokens ids (j + 1) (m(key \<mapsto> j))
   }"

definition queue_remove ::
  "token_key \<Rightarrow> 'p token_info option list \<Rightarrow> nat list \<Rightarrow> token_queue
   \<Rightarrow> (nat option \<times> nat list \<times> token_queue) ub" where
  "queue_remove key tokens heads q =
     (case q_map q key of
        None \<Rightarrow> Some (None, heads, q)
      | Some vec_index \<Rightarrow> do {
          let m = (q_map q)(key := None);
          let heads = map (\<lambda>current. if current > vec_index then current - 1 else current) heads;
          removed \<leftarrow> slice_get (q_vec q) vec_index;
          let vec = take vec_index (q_vec q) @ drop (vec_index + 1) (q_vec q);
          m \<leftarrow> reindex tokens (drop vec_index vec) vec_index m;
          Some (Some removed, heads, \<lparr>q_vec = vec, q_map = m\<rparr>)
        })"

text \<open>The loop \<^verbatim>\<open>for i in 0..len\<close> of \<^verbatim>\<open>select\<close>; \<open>k\<close> counts the remaining iterations.  The result
  is the position and the token found.\<close>

fun select_loop ::
  "u64 \<Rightarrow> 'p token_info option list \<Rightarrow> nat list \<Rightarrow> nat \<Rightarrow> nat \<Rightarrow> nat \<Rightarrow> (nat \<times> 'p token_info) option ub" where
  "select_loop now tokens vec start i 0 = Some None"
| "select_loop now tokens vec start i (Suc k) = do {
     let index = (start + i) mod length vec;
     tid \<leftarrow> slice_get vec index;
     slot \<leftarrow> slice_get tokens tid;
     token \<leftarrow> slot;
     (if \<not> is_enabled token \<or> \<not> is_available now (health (status token))
      then select_loop now tokens vec start (i + 1) k
      else Some (Some (index, token)))
   }"

definition queue_select ::
  "u64 \<Rightarrow> QueueType \<Rightarrow> 'p token_info option list \<Rightarrow> nat list \<Rightarrow> token_queue
   \<Rightarrow> (ext_token option \<times> nat list) ub" where
  "queue_select now queue_type tokens heads q =
     (if q_vec q = [] then Some (None, heads)
      else do {
        start \<leftarrow> slice_get heads (as_index queue_type);
        let len = length (q_vec q);
        r \<leftarrow> select_loop now tokens (q_vec q) start 0 len;
        Some (case r of
                None \<Rightarrow> (None, heads)
              | Some (index, token) \<Rightarrow>
                  (Some (ext_clone (ext_bundle token)), heads[as_index queue_type := (index + 1) mod len]))
      })"

section \<open>The manager\<close>

datatype TokenManagerError = AliasExists | InvalidId

record 'p token_manager =
  tokens :: "'p token_info option list"
  id_map :: "token_key \<rightharpoonup> nat"
  alias_map :: "bytes \<rightharpoonup> nat"
  id_to_alias :: "bytes option list"
  free_ids :: "nat list"
  queue :: token_queue

definition manager_new :: "'p token_manager" where
  "manager_new =
     \<lparr>tokens = [], id_map = Map.empty, alias_map = Map.empty, id_to_alias = [], free_ids = [],
      queue = token_queue_new\<rparr>"

definition UNNAMED_PATTERN :: bytes where
  "UNNAMED_PATTERN = bytes_of ''unnamed-''"

definition UNNAMED :: bytes where
  "UNNAMED = take 7 UNNAMED_PATTERN"

definition starts_with :: "bytes \<Rightarrow> bytes \<Rightarrow> bool" where
  "starts_with s p \<longleftrightarrow> take (length p) s = p"

text \<open>The digits are pushed least significant first and reversed in place.\<close>

fun push_digits :: "nat \<Rightarrow> bytes" where
  "push_digits n = (if n > 0 then of_nat (48 + n mod 10) # push_digits (n div 10) else [])"

declare push_digits.simps [simp del]

definition generate_unnamed_alias :: "nat \<Rightarrow> bytes" where
  "generate_unnamed_alias tid =
     UNNAMED_PATTERN @ (if tid = 0 then [0x30] else rev (push_digits tid))"

definition normalize_alias :: "bytes \<Rightarrow> nat \<Rightarrow> bytes" where
  "normalize_alias alias tid =
     (if alias = UNNAMED \<or> starts_with alias UNNAMED_PATTERN then generate_unnamed_alias tid else alias)"

definition manager_add ::
  "'p token_info \<Rightarrow> bytes \<Rightarrow> 'p token_manager \<Rightarrow> ((TokenManagerError + nat) \<times> 'p token_manager) ub" where
  "manager_add info alias m =
     (let alias = normalize_alias alias (case free_ids m of [] \<Rightarrow> length (tokens m) | i # _ \<Rightarrow> i)
      in if alias_map m alias \<noteq> None then Some (Inl AliasExists, m)
         else do {
           let (tid, m) = (case free_ids m of
               i # rest \<Rightarrow> (i, m\<lparr>free_ids := rest\<rparr>)
             | [] \<Rightarrow> (length (tokens m),
                      m\<lparr>tokens := tokens m @ [None], id_to_alias := id_to_alias m @ [None]\<rparr>));
           let key = info_key info;
           let m = m\<lparr>id_map := (id_map m)(key \<mapsto> tid), queue := queue_push key tid (queue m)\<rparr>;
           toks \<leftarrow> slice_set (tokens m) tid (Some info);
           let m = m\<lparr>tokens := toks, alias_map := (alias_map m)(alias \<mapsto> tid)\<rparr>;
           als \<leftarrow> slice_set (id_to_alias m) tid (Some alias);
           Some (Inr tid, m\<lparr>id_to_alias := als\<rparr>)
         })"

definition get_by_alias :: "bytes \<Rightarrow> 'p token_manager \<Rightarrow> 'p token_info option ub" where
  "get_by_alias alias m =
     (case alias_map m alias of
        None \<Rightarrow> Some None
      | Some tid \<Rightarrow> do { slot \<leftarrow> slice_get (tokens m) tid; info \<leftarrow> slot; Some (Some info) })"

definition manager_remove ::
  "nat \<Rightarrow> nat list \<Rightarrow> 'p token_manager \<Rightarrow> ('p token_info option \<times> nat list \<times> 'p token_manager) ub" where
  "manager_remove tid heads m =
     (if tid < length (tokens m) then
        (case tokens m ! tid of
           None \<Rightarrow> Some (None, heads, m)
         | Some info \<Rightarrow> do {
             let toks = (tokens m)[tid := None];
             let key = info_key info;
             let m = m\<lparr>tokens := toks, id_map := (id_map m)(key := None)\<rparr>;
             (_, heads, q) \<leftarrow> queue_remove key (tokens m) heads (queue m);
             slot \<leftarrow> slice_get (id_to_alias m) tid;
             alias \<leftarrow> slot;
             Some (Some info, heads,
                   m\<lparr>queue := q, id_to_alias := (id_to_alias m)[tid := None],
                     alias_map := (alias_map m)(alias := None), free_ids := free_ids m @ [tid]\<rparr>)
           })
      else Some (None, heads, m))"

definition manager_set_alias ::
  "nat \<Rightarrow> bytes \<Rightarrow> 'p token_manager \<Rightarrow> ((TokenManagerError + unit) \<times> 'p token_manager) ub" where
  "manager_set_alias tid alias m =
     (if tid < length (tokens m) \<and> tokens m ! tid \<noteq> None then
        (let alias = normalize_alias alias tid
         in if alias_map m alias \<noteq> None then Some (Inl AliasExists, m)
            else do {
              slot \<leftarrow> slice_get (id_to_alias m) tid;
              old_alias \<leftarrow> slot;
              let m = m\<lparr>alias_map := (alias_map m)(old_alias := None, alias \<mapsto> tid)\<rparr>;
              Some (Inr (), m\<lparr>id_to_alias := (id_to_alias m)[tid := Some alias]\<rparr>)
            })
      else Some (Inl InvalidId, m))"

definition manager_select ::
  "u64 \<Rightarrow> QueueType \<Rightarrow> nat list \<Rightarrow> 'p token_manager \<Rightarrow> (ext_token option \<times> nat list) ub" where
  "manager_select now queue_type heads m = queue_select now queue_type (tokens m) heads (queue m)"

fun list_loop :: "nat \<Rightarrow> 'p token_info option list \<Rightarrow> bytes option list \<Rightarrow> (nat \<times> bytes \<times> 'p token_info) list ub" where
  "list_loop tid [] als = Some []"
| "list_loop tid (None # ts) als = list_loop (tid + 1) ts als"
| "list_loop tid (Some info # ts) als = do {
     slot \<leftarrow> slice_get als tid;
     alias \<leftarrow> slot;
     rest \<leftarrow> list_loop (tid + 1) ts als;
     Some ((tid, alias, info) # rest)
   }"

definition manager_list :: "'p token_manager \<Rightarrow> (nat \<times> bytes \<times> 'p token_info) list ub" where
  "manager_list m = list_loop 0 (tokens m) (id_to_alias m)"

text \<open>\<^verbatim>\<open>update_client_key\<close> draws a hash and a UUID for every token.\<close>

fun update_client_key_loop ::
  "('r \<Rightarrow> Hash \<times> 'r) \<Rightarrow> ('r \<Rightarrow> uuid \<times> 'r) \<Rightarrow> 'p token_info option list \<Rightarrow> 'r
   \<Rightarrow> 'p token_info option list \<times> 'r" where
  "update_client_key_loop rnd new_v4 [] r = ([], r)"
| "update_client_key_loop rnd new_v4 (None # ts) r =
     (let (ts, r) = update_client_key_loop rnd new_v4 ts r in (None # ts, r))"
| "update_client_key_loop rnd new_v4 (Some t # ts) r =
     (let (h, r) = rnd r; (u, r) = new_v4 r; (ts, r) = update_client_key_loop rnd new_v4 ts r
      in (Some (t\<lparr>ext_bundle := (ext_bundle t)\<lparr>client_key := h, session_id := u\<rparr>\<rparr>) # ts, r))"

definition update_client_key ::
  "('r \<Rightarrow> Hash \<times> 'r) \<Rightarrow> ('r \<Rightarrow> uuid \<times> 'r) \<Rightarrow> 'p token_manager \<Rightarrow> 'r \<Rightarrow> 'p token_manager \<times> 'r" where
  "update_client_key rnd new_v4 m r =
     (let (ts, r) = update_client_key_loop rnd new_v4 (tokens m) r in (m\<lparr>tokens := ts\<rparr>, r))"

section \<open>Writers\<close>

text \<open>\<open>writer_update tid f\<close> is the life of a \<^verbatim>\<open>TokenWriter\<close>: created for slot \<open>tid\<close>, its client changes
  the bundle by \<open>f\<close>, and \<^verbatim>\<open>drop\<close> brings the indices up to date.\<close>

definition writer_drop ::
  "token_key \<Rightarrow> token_key \<Rightarrow> 'p token_manager \<Rightarrow> 'p token_manager ub" where
  "writer_drop old_key key m =
     (if key \<noteq> old_key then do {
        i \<leftarrow> id_map m old_key;
        let m = m\<lparr>id_map := (id_map m)(old_key := None, key \<mapsto> i)\<rparr>;
        let (ok, q) = queue_set_key old_key key (queue m);
        (if ok then Some (m\<lparr>queue := q\<rparr>) else None)
      }
      else Some m)"

definition writer_update ::
  "nat \<Rightarrow> (ext_token \<Rightarrow> ext_token) \<Rightarrow> 'p token_manager \<Rightarrow> 'p token_manager ub" where
  "writer_update tid f m = do {
     slot \<leftarrow> slice_get (tokens m) tid;
     info \<leftarrow> slot;
     let old_key = info_key info;
     let info = info\<lparr>ext_bundle := f (ext_bundle info)\<rparr>;
     writer_drop old_key (info_key info) (m\<lparr>tokens := (tokens m)[tid := Some info]\<rparr>)
   }"

text \<open>\<^verbatim>\<open>tokens_mut().get_unchecked_mut(tid)\<close> followed by an assignment.\<close>

definition info_update ::
  "nat \<Rightarrow> ('p token_info \<Rightarrow> 'p token_info) \<Rightarrow> 'p token_manager \<Rightarrow> 'p token_manager ub" where
  "info_update tid f m = do {
     slot \<leftarrow> slice_get (tokens m) tid;
     info \<leftarrow> slot;
     Some (m\<lparr>tokens := (tokens m)[tid := Some (f info)]\<rparr>)
   }"

section \<open>Invariant\<close>

text \<open>The key stored in a slot, and the key at a position of the queue.\<close>

definition key_at :: "'p token_info option list \<Rightarrow> nat \<Rightarrow> token_key option" where
  "key_at toks i = map_option info_key (slot toks i)"

definition key_in_queue :: "'p token_info option list \<Rightarrow> nat list \<Rightarrow> nat \<Rightarrow> token_key option" where
  "key_in_queue toks vec j = (if j < length vec then key_at toks (vec ! j) else None)"

definition queue_inv :: "'p token_info option list \<Rightarrow> token_queue \<Rightarrow> bool" where
  "queue_inv toks q \<longleftrightarrow>
     distinct (q_vec q) \<and> set (q_vec q) = {i. slot toks i \<noteq> None}
     \<and> inverse_index (key_in_queue toks (q_vec q)) (q_map q)"

text \<open>The four clauses of the documentation comment of \<^verbatim>\<open>TokenManager\<close>, the ones it leaves implicit
  (the maps are inverse to the vectors, every empty slot is free exactly once), the queue, and the
  shape of automatic aliases.\<close>

definition manager_inv :: "'p token_manager \<Rightarrow> bool" where
  "manager_inv m \<longleftrightarrow>
     length (id_to_alias m) = length (tokens m)
     \<and> inverse_index (key_at (tokens m)) (id_map m)
     \<and> inverse_index (slot (id_to_alias m)) (alias_map m)
     \<and> (\<forall>i. slot (tokens m) i = None \<longleftrightarrow> slot (id_to_alias m) i = None)
     \<and> distinct (free_ids m)
     \<and> set (free_ids m) = {i. i < length (tokens m) \<and> tokens m ! i = None}
     \<and> queue_inv (tokens m) (queue m)
     \<and> (\<forall>i a. slot (id_to_alias m) i = Some a \<longrightarrow> normalize_alias a i = a)"

lemma key_at_update: "i < length toks \<Longrightarrow> key_at (toks[i := v]) = (key_at toks)(i := map_option info_key v)"
  by (auto simp: key_at_def slot_update)

lemma key_at_append_None [simp]: "key_at (toks @ [None]) = key_at toks"
  by (auto simp: key_at_def)

lemma queue_inv_append_None [simp]: "queue_inv (toks @ [None]) q = queue_inv toks q"
proof -
  have "key_in_queue (toks @ [None]) vec = key_in_queue toks vec" for vec
    by (rule ext) (simp add: key_in_queue_def)
  then show ?thesis by (simp add: queue_inv_def)
qed

lemma key_at_None: "key_at toks i = None \<longleftrightarrow> slot toks i = None"
  by (simp add: key_at_def)

lemma manager_new_inv: "manager_inv manager_new"
  by (auto simp: manager_inv_def manager_new_def queue_inv_def token_queue_new_def key_at_def [abs_def]
      key_in_queue_def [abs_def])

section \<open>Automatic aliases\<close>

lemma push_digits_0: "push_digits 0 = []"
  by (subst push_digits.simps) simp

lemma push_digits_show: "0 < n \<Longrightarrow> rev (push_digits n) = show_nat n"
proof (induction n rule: push_digits.induct)
  case (1 n)
  show ?case
  proof (cases "n < 10")
    case True
    with 1 show ?thesis
      by (subst push_digits.simps, subst show_nat.simps)
         (simp add: push_digits_0 digit_char_def)
  next
    case False
    with 1 show ?thesis
      by (subst push_digits.simps, subst show_nat.simps) (simp add: digit_char_def)
  qed
qed

lemma generate_unnamed_alias_eq: "generate_unnamed_alias i = UNNAMED_PATTERN @ show_nat i"
proof (cases "i = 0")
  case True
  have "show_nat 0 = [0x30]" by (subst show_nat.simps) (simp add: digit_char_def)
  with True show ?thesis by (simp add: generate_unnamed_alias_def)
qed (simp add: generate_unnamed_alias_def push_digits_show)

lemma show_nat_inj: "show_nat m = show_nat n \<longleftrightarrow> m = n"
proof
  assume eq: "show_nat m = show_nat n"
  have "parse_digits (Suc (m + n)) 0 (show_nat m) = Some m"
    by (rule parse_show_digits) simp
  moreover have "parse_digits (Suc (m + n)) 0 (show_nat n) = Some n"
    by (rule parse_show_digits) simp
  ultimately have "Some m = Some n" by (simp only: eq)
  then show "m = n" by simp
qed simp

lemma generate_unnamed_alias_inj: "generate_unnamed_alias i = generate_unnamed_alias j \<longleftrightarrow> i = j"
  by (simp add: generate_unnamed_alias_eq show_nat_inj)

lemma generate_unnamed_alias_text: "generate_unnamed_alias i = bytes_of ''unnamed-'' @ show_nat i"
  by (simp add: generate_unnamed_alias_eq UNNAMED_PATTERN_def)

lemma normalize_alias_text:
  "normalize_alias a i = (if a = bytes_of ''unnamed'' \<or> take 8 a = bytes_of ''unnamed-'' then bytes_of ''unnamed-'' @ show_nat i else a)"
proof -
  have "UNNAMED = bytes_of ''unnamed''" "length UNNAMED_PATTERN = 8"
    by (simp_all add: UNNAMED_def UNNAMED_PATTERN_def bytes_of_def)
  then show ?thesis
    by (simp add: normalize_alias_def generate_unnamed_alias_text starts_with_def) (simp add: UNNAMED_PATTERN_def)
qed

lemma normalize_generated [simp]: "normalize_alias (generate_unnamed_alias i) i = generate_unnamed_alias i"
  by (simp add: normalize_alias_def)

lemma normalize_idem [simp]: "normalize_alias (normalize_alias a i) i = normalize_alias a i"
  by (simp add: normalize_alias_def)

lemma normalize_cases: "normalize_alias a i = a \<or> normalize_alias a i = generate_unnamed_alias i"
  by (simp add: normalize_alias_def)

lemma starts_with_generated: "starts_with (generate_unnamed_alias i) UNNAMED_PATTERN"
  by (simp add: starts_with_def generate_unnamed_alias_eq)

section \<open>The queue operations\<close>

lemma queue_push_inv:
  assumes "queue_inv toks q" "i < length toks" "toks ! i = None" "q_map q (info_key info) = None"
  shows "queue_inv (toks[i := Some info]) (queue_push (info_key info) i q)"
proof -
  let ?toks = "toks[i := Some info]"
  have ni: "i \<notin> set (q_vec q)" using assms(1-3) by (simp add: queue_inv_def slot_def)
  have "key_in_queue ?toks (q_vec q @ [i]) = (key_in_queue toks (q_vec q))(length (q_vec q) \<mapsto> info_key info)"
    using assms(2) ni by (auto simp: key_in_queue_def key_at_update nth_append intro!: ext)
  moreover have "key_in_queue toks (q_vec q) (length (q_vec q)) = None"
    by (simp add: key_in_queue_def)
  ultimately show ?thesis
    using assms ni
    by (auto simp: queue_inv_def queue_push_def slot_update intro!: inverse_index_insert)
qed

lemma reindex_spec:
  assumes "\<And>i. i \<in> set ids \<Longrightarrow> \<exists>k. key_at toks i = Some k \<and> m k \<noteq> None"
    and "inj_on (key_at toks) (set ids)" and "distinct ids"
  shows "\<exists>m'. reindex toks ids j m = Some m' \<and>
    (\<forall>k x. m' k = Some x \<longleftrightarrow>
       (\<exists>p < length ids. key_at toks (ids ! p) = Some k \<and> x = j + p)
       \<or> ((\<forall>i \<in> set ids. key_at toks i \<noteq> Some k) \<and> m k = Some x))"
  using assms
proof (induction ids arbitrary: j m)
  case (Cons i ids)
  obtain info where info: "slot toks i = Some info" "m (info_key info) \<noteq> None"
    using Cons.prems(1) [of i] by (auto simp: key_at_def)
  then have get: "slice_get toks i = Some (Some info)"
    by (auto simp: slot_def slice_get_def split: if_splits)
  have ki: "key_at toks i = Some (info_key info)" by (simp add: key_at_def info)
  have diff: "key_at toks i' \<noteq> Some (info_key info)" if "i' \<in> set ids" for i'
    using Cons.prems(2,3) that ki by (metis distinct.simps(2) inj_onD list.set_intros)
  obtain m' where m': "reindex toks ids (j + 1) (m(info_key info \<mapsto> j)) = Some m'"
    and spec: "\<And>k x. m' k = Some x \<longleftrightarrow>
       (\<exists>p < length ids. key_at toks (ids ! p) = Some k \<and> x = j + 1 + p)
       \<or> ((\<forall>i \<in> set ids. key_at toks i \<noteq> Some k) \<and> (m(info_key info \<mapsto> j)) k = Some x)"
    using Cons.IH [of "m(info_key info \<mapsto> j)" "j + 1"] Cons.prems by (fastforce simp: inj_on_insert)
  have r: "reindex toks (i # ids) j m = Some m'"
    using get info m' by (auto simp: Let_def)
  have "m' k = Some x \<longleftrightarrow>
       (\<exists>p < length (i # ids). key_at toks ((i # ids) ! p) = Some k \<and> x = j + p)
       \<or> ((\<forall>i \<in> set (i # ids). key_at toks i \<noteq> Some k) \<and> m k = Some x)" for k x
  proof (cases "k = info_key info")
    case True
    have "\<not> key_at toks (ids ! p) = Some k" if "p < length ids" for p
      using diff [of "ids ! p"] that True by simp
    then show ?thesis
      using True diff by (auto simp: spec ki less_Suc_eq_0_disj)
  next
    case False
    then show ?thesis
      by (auto simp: spec ki less_Suc_eq_0_disj)
  qed
  with r show ?case by blast
qed auto

lemma reindexed_queue:
  assumes qi: "inverse_index (key_in_queue toks vec) qm" and idx: "inverse_index (key_at toks) idm"
    and dist: "distinct vec" and vi: "vi < length vec" and s: "slot toks (vec ! vi) = Some info"
    and spec: "\<And>k x. m' k = Some x \<longleftrightarrow>
       (\<exists>p < length (drop (vi + 1) vec). key_at toks (drop (vi + 1) vec ! p) = Some k \<and> x = vi + p)
       \<or> ((\<forall>i \<in> set (drop (vi + 1) vec). key_at toks i \<noteq> Some k) \<and> (qm(info_key info := None)) k = Some x)"
  shows "inverse_index (key_in_queue toks (take vi vec @ drop (vi + 1) vec)) m'"
  unfolding inverse_index_def
proof (intro allI)
  fix k x
  let ?vec' = "take vi vec @ drop (vi + 1) vec"
  have kvi: "key_at toks (vec ! vi) = Some (info_key info)" by (simp add: key_at_def s)
  have uniq: "x = y" if "x < length vec" "y < length vec" "key_at toks (vec ! x) = Some k"
    "key_at toks (vec ! y) = Some k" for x y k
    using inverse_index_inj [OF idx that(3,4)] that(1,2) dist by (simp add: nth_eq_iff_index_eq)
  have orig: "(qm(info_key info := None)) k = Some x
      \<longleftrightarrow> k \<noteq> info_key info \<and> x < length vec \<and> key_at toks (vec ! x) = Some k"
    using inverse_indexD [OF qi, of k x] by (simp add: key_in_queue_def)
  show "m' k = Some x \<longleftrightarrow> key_in_queue toks ?vec' x = Some k"
  proof (cases "x < vi")
    case True
    have "(\<forall>i \<in> set (drop (vi + 1) vec). key_at toks i \<noteq> Some k) \<and> k \<noteq> info_key info"
      if "key_at toks (vec ! x) = Some k"
      using that uniq [of x _ k] kvi True vi by (fastforce simp: in_set_drop_conv)
    moreover have "x < length vec - 1" using True vi by linarith
    then have "key_in_queue toks ?vec' x = key_at toks (vec ! x)"
      using True vi by (simp add: key_in_queue_def nth_append)
    ultimately show ?thesis
      unfolding spec orig using True vi by auto
  next
    case False
    have "\<not> ((\<forall>i \<in> set (drop (vi + 1) vec). key_at toks i \<noteq> Some k) \<and> k \<noteq> info_key info
        \<and> x < length vec \<and> key_at toks (vec ! x) = Some k)"
    proof (cases "x = vi")
      case True
      with kvi show ?thesis by auto
    next
      case neq: False
      have "vec ! x \<in> set (drop (vi + 1) vec)" if "x < length vec"
        using that False neq unfolding in_set_drop_conv by (intro exI [of _ x]) simp
      then show ?thesis by blast
    qed
    moreover have "key_in_queue toks ?vec' x = (if x + 1 < length vec then key_at toks (vec ! (x + 1)) else None)"
      using False vi by (simp add: key_in_queue_def nth_append less_diff_conv)
    moreover have "(\<exists>p < length (drop (vi + 1) vec). key_at toks (drop (vi + 1) vec ! p) = Some k \<and> x = vi + p)
        \<longleftrightarrow> x + 1 < length vec \<and> key_at toks (vec ! (x + 1)) = Some k"
      using False vi by (auto simp: less_diff_conv intro!: exI [of _ "x - vi"])
    ultimately show ?thesis
      unfolding spec orig by (auto split: if_splits)
  qed
qed

text \<open>Removing the queue entry of a slot that has just been emptied.\<close>

lemma queue_remove_inv:
  assumes inv: "queue_inv toks q" and idx: "inverse_index (key_at toks) idm"
    and s: "slot toks i = Some info"
  shows "\<exists>vi q'. vi < length (q_vec q) \<and> q_vec q ! vi = i
    \<and> queue_remove (info_key info) (toks[i := None]) heads q
        = Some (Some i, map (\<lambda>c. if c > vi then c - 1 else c) heads, q')
    \<and> q_vec q' = take vi (q_vec q) @ drop (vi + 1) (q_vec q) \<and> queue_inv (toks[i := None]) q'"
proof -
  let ?k = "info_key info" and ?toks = "toks[i := None]" and ?vec = "q_vec q"
  have il: "i < length toks" using s by (rule slot_Some_length)
  have dist: "distinct ?vec" and live: "set ?vec = {i. slot toks i \<noteq> None}"
    and qi: "inverse_index (key_in_queue toks ?vec) (q_map q)"
    using inv by (simp_all add: queue_inv_def)
  have "i \<in> set ?vec" using live s by simp
  then obtain vi where vi: "vi < length ?vec" "?vec ! vi = i" by (auto simp: in_set_conv_nth)
  have qk: "q_map q ?k = Some vi"
    using inverse_indexD [OF qi] vi s by (simp add: key_in_queue_def key_at_def)
  let ?vec' = "take vi ?vec @ drop (vi + 1) ?vec"
  let ?m = "(q_map q)(?k := None)"
  have dv: "drop vi ?vec' = drop (vi + 1) ?vec" using vi(1) by simp
  have nth': "?vec' ! x = (if x < vi then ?vec ! x else ?vec ! (x + 1))" if "x < length ?vec - 1" for x
    using that vi(1) by (auto simp: nth_append)
  have len': "length ?vec' = length ?vec - 1" using vi(1) by simp
  have kat: "key_at ?toks = (key_at toks)(i := None)" using il by (simp add: key_at_update)
  have other: "key_at ?toks (?vec ! x) = key_at toks (?vec ! x)" if "x < length ?vec" "x \<noteq> vi" for x
    using that vi dist by (auto simp: kat nth_eq_iff_index_eq)
  have rest: "i' \<noteq> i" if "i' \<in> set (drop (vi + 1) ?vec)" for i'
    using that vi dist by (auto simp: in_set_conv_nth nth_eq_iff_index_eq)
  have "\<exists>k. key_at ?toks i' = Some k \<and> ?m k \<noteq> None" if i': "i' \<in> set (drop (vi + 1) ?vec)" for i'
  proof -
    have mem: "i' \<in> set ?vec" using i' by (rule in_set_dropD)
    then obtain t where t: "slot toks i' = Some t" using live by auto
    obtain x where x: "x < length ?vec" "?vec ! x = i'" using mem by (auto simp: in_set_conv_nth)
    have "q_map q (info_key t) = Some x"
      using inverse_indexD [OF qi] x t by (simp add: key_in_queue_def key_at_def)
    moreover have "info_key t \<noteq> ?k"
      using inverse_index_inj [OF idx, of i "?k" i'] s t rest [OF i'] by (auto simp: key_at_def)
    ultimately show ?thesis using t rest [OF i'] by (simp add: kat key_at_def)
  qed
  moreover have "inj_on (key_at ?toks) (set (drop (vi + 1) ?vec))"
  proof (rule inj_onI)
    fix a b assume a: "a \<in> set (drop (vi + 1) ?vec)" and b: "b \<in> set (drop (vi + 1) ?vec)"
      and eq: "key_at ?toks a = key_at ?toks b"
    then have "key_at toks a = key_at toks b" using rest by (simp add: kat)
    moreover have "a \<in> set ?vec" "b \<in> set ?vec" using a b by (auto dest: in_set_dropD)
    then obtain ta where "slot toks a = Some ta" using live by auto
    then have "key_at toks a = Some (info_key ta)" by (simp add: key_at_def)
    ultimately show "a = b" using inverse_index_inj [OF idx] by metis
  qed
  ultimately obtain m' where m': "reindex ?toks (drop (vi + 1) ?vec) vi ?m = Some m'"
    and spec: "\<And>k x. m' k = Some x \<longleftrightarrow>
       (\<exists>p < length (drop (vi + 1) ?vec). key_at ?toks (drop (vi + 1) ?vec ! p) = Some k \<and> x = vi + p)
       \<or> ((\<forall>i \<in> set (drop (vi + 1) ?vec). key_at ?toks i \<noteq> Some k) \<and> ?m k = Some x)"
    using reindex_spec [of "drop (vi + 1) ?vec" ?toks ?m vi] dist by auto
  have same: "key_at ?toks i' = key_at toks i'" if "i' \<in> set (drop (vi + 1) ?vec)" for i'
    using rest [OF that] by (simp add: kat)
  then have "key_at ?toks (drop (vi + 1) ?vec ! p) = key_at toks (drop (vi + 1) ?vec ! p)"
    if "p < length (drop (vi + 1) ?vec)" for p
    using that by (metis nth_mem)
  with spec same have "m' k = Some x \<longleftrightarrow>
       (\<exists>p < length (drop (vi + 1) ?vec). key_at toks (drop (vi + 1) ?vec ! p) = Some k \<and> x = vi + p)
       \<or> ((\<forall>i \<in> set (drop (vi + 1) ?vec). key_at toks i \<noteq> Some k) \<and> ?m k = Some x)" for k x
    by (metis (no_types, lifting))
  then have "inverse_index (key_in_queue toks ?vec') m'"
    using s vi(2) by (intro reindexed_queue [OF qi idx dist vi(1), of info]) simp_all
  moreover have "key_in_queue ?toks ?vec' = key_in_queue toks ?vec'"
  proof
    fix x
    show "key_in_queue ?toks ?vec' x = key_in_queue toks ?vec' x"
      using nth_mem [of x ?vec'] set_remove_nth [OF dist vi(1)] vi(2)
      by (auto simp: key_in_queue_def kat)
  qed
  ultimately have "inverse_index (key_in_queue ?toks ?vec') m'" by simp
  moreover have "distinct ?vec'" using dist by (rule distinct_remove_nth)
  moreover have "set ?vec' = set ?vec - {i}" using set_remove_nth [OF dist vi(1)] vi(2) by simp
  then have "set ?vec' = {i'. slot ?toks i' \<noteq> None}"
    using il live by (auto simp: slot_update)
  ultimately have "queue_inv ?toks \<lparr>q_vec = ?vec', q_map = m'\<rparr>" by (simp add: queue_inv_def)
  moreover have "queue_remove ?k ?toks heads q
      = Some (Some i, map (\<lambda>c. if c > vi then c - 1 else c) heads, \<lparr>q_vec = ?vec', q_map = m'\<rparr>)"
    using vi m' dv by (simp add: queue_remove_def qk Let_def)
  ultimately show ?thesis using vi by auto
qed

lemma queue_set_key_inv:
  assumes inv: "queue_inv toks q" and s: "slot toks i = Some info"
    and new: "q_map q (info_key info') = None"
  shows "\<exists>q'. queue_set_key (info_key info) (info_key info') q = (True, q')
    \<and> queue_inv (toks[i := Some info']) q' \<and> q_vec q' = q_vec q"
proof -
  let ?toks = "toks[i := Some info']" and ?vec = "q_vec q"
  have il: "i < length toks" using s by (rule slot_Some_length)
  have dist: "distinct ?vec" and live: "set ?vec = {i. slot toks i \<noteq> None}"
    and qi: "inverse_index (key_in_queue toks ?vec) (q_map q)"
    using inv by (simp_all add: queue_inv_def)
  obtain vi where vi: "vi < length ?vec" "?vec ! vi = i"
  proof -
    have "i \<in> set ?vec" using live s by simp
    then show thesis using that by (auto simp: in_set_conv_nth)
  qed
  have kvi: "key_in_queue toks ?vec vi = Some (info_key info)"
    using vi s by (simp add: key_in_queue_def key_at_def)
  have kq: "key_in_queue ?toks ?vec = (key_in_queue toks ?vec)(vi \<mapsto> info_key info')"
    using vi dist il by (auto simp: key_in_queue_def key_at_update nth_eq_iff_index_eq intro!: ext)
  have "inverse_index (key_in_queue ?toks ?vec) ((q_map q)(info_key info := None, info_key info' \<mapsto> vi))"
    unfolding kq using inverse_index_replace [OF qi kvi] new by blast
  moreover have "set ?vec = {i. slot ?toks i \<noteq> None}"
    using live il s by (auto simp: slot_update)
  moreover have "q_map q (info_key info) = Some vi"
    using inverse_indexD [OF qi] kvi by blast
  ultimately show ?thesis
    using dist new by (auto simp: queue_set_key_def queue_inv_def Let_def)
qed

section \<open>The manager operations keep the invariant\<close>

lemma manager_inv_lookup:
  assumes "manager_inv m"
  shows "alias_map m a = Some i \<longleftrightarrow> slot (id_to_alias m) i = Some a"
    and "id_map m k = Some i \<longleftrightarrow> key_at (tokens m) i = Some k"
    and "slot (tokens m) i = None \<longleftrightarrow> slot (id_to_alias m) i = None"
    and "length (id_to_alias m) = length (tokens m)"
  using assms by (auto simp: manager_inv_def inverse_indexD)

lemma manager_inv_queue: "manager_inv m \<Longrightarrow> queue_inv (tokens m) (queue m)"
  by (simp add: manager_inv_def)

lemma manager_inv_indices:
  "manager_inv m \<Longrightarrow> inverse_index (key_at (tokens m)) (id_map m)"
  "manager_inv m \<Longrightarrow> inverse_index (slot (id_to_alias m)) (alias_map m)"
  by (simp_all add: manager_inv_def)

lemma manager_inv_free:
  "manager_inv m \<Longrightarrow> i \<in> set (free_ids m) \<longleftrightarrow> i < length (tokens m) \<and> tokens m ! i = None"
  by (auto simp: manager_inv_def)

lemma q_map_id_map: "manager_inv m \<Longrightarrow> q_map (queue m) k = None \<longleftrightarrow> id_map m k = None"
proof -
  assume inv: "manager_inv m"
  have q: "inverse_index (key_in_queue (tokens m) (q_vec (queue m))) (q_map (queue m))"
    and live: "set (q_vec (queue m)) = {i. slot (tokens m) i \<noteq> None}"
    using manager_inv_queue [OF inv] by (simp_all add: queue_inv_def)
  have "(\<exists>j. q_map (queue m) k = Some j) \<longleftrightarrow> (\<exists>i \<in> set (q_vec (queue m)). key_at (tokens m) i = Some k)"
    unfolding inverse_indexD [OF q] key_in_queue_def
    by (metis (no_types, lifting) in_set_conv_nth option.distinct(1))
  also have "\<dots> \<longleftrightarrow> (\<exists>i. id_map m k = Some i)"
    using live by (auto simp: manager_inv_lookup(2) [OF inv] key_at_def)
  finally show ?thesis by (cases "q_map (queue m) k"; cases "id_map m k") auto
qed

text \<open>An automatic alias is never taken: only its own slot may carry it.\<close>

lemma unnamed_alias_free:
  assumes inv: "manager_inv m" and free: "slot (tokens m) i = None"
  shows "alias_map m (generate_unnamed_alias i) = None"
proof (rule ccontr)
  assume "alias_map m (generate_unnamed_alias i) \<noteq> None"
  then obtain j where j: "slot (id_to_alias m) j = Some (generate_unnamed_alias i)"
    using manager_inv_lookup(1) [OF inv] by blast
  then have "normalize_alias (generate_unnamed_alias i) j = generate_unnamed_alias i"
    using inv by (auto simp: manager_inv_def)
  then have "j = i"
    by (auto simp: normalize_alias_def starts_with_generated generate_unnamed_alias_inj)
  with j free manager_inv_lookup(3) [OF inv] show False by auto
qed

text \<open>Filling the empty slot \<open>i\<close> of a manager whose free list has been brought up to date.\<close>

lemma fill_slot_inv:
  assumes inv: "manager_inv m" and i: "i < length (tokens m)" "tokens m ! i = None"
    and al: "alias_map m a = None" "normalize_alias a i = a" and key: "id_map m (info_key info) = None"
    and free: "distinct fr" "set fr = set (free_ids m) - {i}"
  shows "manager_inv (m\<lparr>tokens := (tokens m)[i := Some info], id_map := (id_map m)(info_key info \<mapsto> i),
    alias_map := (alias_map m)(a \<mapsto> i), id_to_alias := (id_to_alias m)[i := Some a], free_ids := fr,
    queue := queue_push (info_key info) i (queue m)\<rparr>)" (is "manager_inv ?m")
proof -
  have len: "i < length (id_to_alias m)" using i manager_inv_lookup(4) [OF inv] by simp
  have none: "key_at (tokens m) i = None" "slot (id_to_alias m) i = None"
    using i manager_inv_lookup(3) [OF inv, of i] by (simp_all add: key_at_def slot_nth)
  have "inverse_index (key_at (tokens ?m)) (id_map ?m)"
    using inverse_index_insert [OF manager_inv_indices(1) [OF inv] none(1) key] i by (simp add: key_at_update)
  moreover have "inverse_index (slot (id_to_alias ?m)) (alias_map ?m)"
    using inverse_index_insert [OF manager_inv_indices(2) [OF inv] none(2) al(1)] len by (simp add: slot_update)
  moreover have "queue_inv (tokens ?m) (queue ?m)"
    using queue_push_inv [OF manager_inv_queue [OF inv] i] key q_map_id_map [OF inv] by simp
  moreover have "set fr = {j. j < length (tokens ?m) \<and> tokens ?m ! j = None}"
  proof (rule set_eqI)
    fix j
    show "j \<in> set fr \<longleftrightarrow> j \<in> {j. j < length (tokens ?m) \<and> tokens ?m ! j = None}"
      using i by (cases "j = i") (simp_all add: free(2) manager_inv_free [OF inv])
  qed
  ultimately show ?thesis
    using inv al(2) free(1) i len by (auto simp: manager_inv_def slot_update)
qed

lemma extend_inv:
  "manager_inv m \<Longrightarrow>
   manager_inv (m\<lparr>tokens := tokens m @ [None], id_to_alias := id_to_alias m @ [None],
     free_ids := free_ids m @ [length (tokens m)]\<rparr>)"
  by (auto simp: manager_inv_def nth_append less_Suc_eq)

definition next_id :: "'p token_manager \<Rightarrow> nat" where
  "next_id m = (case free_ids m of [] \<Rightarrow> length (tokens m) | i # _ \<Rightarrow> i)"

lemma manager_add_taken:
  "alias_map m (normalize_alias alias (next_id m)) \<noteq> None \<Longrightarrow>
   manager_add info alias m = Some (Inl AliasExists, m)"
  by (simp add: manager_add_def next_id_def)

lemma next_id_free: "manager_inv m \<Longrightarrow> slot (tokens m) (next_id m) = None"
  using manager_inv_free [of m "hd (free_ids m)"]
  by (auto simp: next_id_def slot_def split: list.splits)

lemma manager_add_ok:
  assumes inv: "manager_inv m" and key: "id_map m (info_key info) = None"
    and al: "alias_map m (normalize_alias alias (next_id m)) = None"
  defines "i \<equiv> next_id m" and "a \<equiv> normalize_alias alias (next_id m)"
  shows "\<exists>m'. manager_add info alias m = Some (Inr i, m') \<and> manager_inv m'
    \<and> slot (tokens m') = (slot (tokens m))(i \<mapsto> info)
    \<and> slot (id_to_alias m') = (slot (id_to_alias m))(i \<mapsto> a)
    \<and> q_vec (queue m') = q_vec (queue m) @ [i]"
proof -
  have na: "normalize_alias a i = a" by (simp add: a_def i_def)
  have len: "length (id_to_alias m) = length (tokens m)" by (rule manager_inv_lookup(4) [OF inv])
  show ?thesis
  proof (cases "free_ids m")
    case Nil
    let ?n = "length (tokens m)"
    let ?e = "m\<lparr>tokens := tokens m @ [None], id_to_alias := id_to_alias m @ [None],
      free_ids := free_ids m @ [?n]\<rparr>"
    let ?m = "?e\<lparr>tokens := (tokens ?e)[?n := Some info], id_map := (id_map ?e)(info_key info \<mapsto> ?n),
      alias_map := (alias_map ?e)(a \<mapsto> ?n), id_to_alias := (id_to_alias ?e)[?n := Some a], free_ids := [],
      queue := queue_push (info_key info) ?n (queue ?e)\<rparr>"
    have i: "i = ?n" by (simp add: i_def next_id_def Nil)
    have "manager_inv ?m"
      by (rule fill_slot_inv [OF extend_inv [OF inv]]) (use al key na i Nil in \<open>simp_all add: a_def\<close>)
    moreover have "manager_add info alias m = Some (Inr ?n, ?m)"
      using al len Nil by (simp add: manager_add_def a_def next_id_def slice_set_def Let_def)
    moreover have "slot (tokens ?m) = (slot (tokens m))(?n \<mapsto> info)"
      "slot (id_to_alias ?m) = (slot (id_to_alias m))(?n \<mapsto> a)"
      using slot_update [of ?n "tokens m @ [None]" "Some info"]
        slot_update [of ?n "id_to_alias m @ [None]" "Some a"] len by simp_all
    ultimately show ?thesis unfolding i by (intro exI [of _ ?m]) (simp add: queue_push_def)
  next
    case (Cons j fr)
    let ?m = "m\<lparr>tokens := (tokens m)[j := Some info], id_map := (id_map m)(info_key info \<mapsto> j),
      alias_map := (alias_map m)(a \<mapsto> j), id_to_alias := (id_to_alias m)[j := Some a], free_ids := fr,
      queue := queue_push (info_key info) j (queue m)\<rparr>"
    have i: "i = j" by (simp add: i_def next_id_def Cons)
    have j: "j < length (tokens m)" "tokens m ! j = None"
      using manager_inv_free [OF inv, of j] Cons by simp_all
    have "distinct (free_ids m)" using inv by (simp add: manager_inv_def)
    then have "manager_inv ?m"
      by (intro fill_slot_inv [OF inv j]) (use al key na i Cons in \<open>simp_all add: a_def\<close>)
    moreover have "manager_add info alias m = Some (Inr j, ?m)"
      using al len j Cons by (simp add: manager_add_def a_def next_id_def slice_set_def Let_def)
    ultimately show ?thesis
      unfolding i using j len by (intro exI [of _ ?m]) (simp add: queue_push_def slot_update)
  qed
qed

lemma manager_remove_ok:
  assumes inv: "manager_inv m" and t: "slot (tokens m) i = Some info"
  shows "\<exists>heads' m' vi. manager_remove i heads m = Some (Some info, heads', m') \<and> manager_inv m'
    \<and> slot (tokens m') = (slot (tokens m))(i := None)
    \<and> slot (id_to_alias m') = (slot (id_to_alias m))(i := None)
    \<and> vi < length (q_vec (queue m)) \<and> q_vec (queue m) ! vi = i
    \<and> q_vec (queue m') = take vi (q_vec (queue m)) @ drop (vi + 1) (q_vec (queue m))
    \<and> heads' = map (\<lambda>c. if c > vi then c - 1 else c) heads"
proof -
  have i: "i < length (tokens m)" "tokens m ! i = Some info"
    using t by (auto simp: slot_def split: if_splits)
  have len: "length (id_to_alias m) = length (tokens m)" by (rule manager_inv_lookup(4) [OF inv])
  obtain a where a: "slot (id_to_alias m) i = Some a"
    using manager_inv_lookup(3) [OF inv, of i] t by (cases "slot (id_to_alias m) i") auto
  then have a': "id_to_alias m ! i = Some a" using i len by (simp add: slot_nth)
  obtain vi q' where vi: "vi < length (q_vec (queue m))" "q_vec (queue m) ! vi = i"
    and q': "queue_remove (info_key info) ((tokens m)[i := None]) heads (queue m)
        = Some (Some i, map (\<lambda>c. if c > vi then c - 1 else c) heads, q')"
    and vec': "q_vec q' = take vi (q_vec (queue m)) @ drop (vi + 1) (q_vec (queue m))"
    and qinv: "queue_inv ((tokens m)[i := None]) q'"
    using queue_remove_inv [OF manager_inv_queue [OF inv] manager_inv_indices(1) [OF inv] t] by blast
  let ?m = "m\<lparr>tokens := (tokens m)[i := None], id_map := (id_map m)(info_key info := None), queue := q',
    id_to_alias := (id_to_alias m)[i := None], alias_map := (alias_map m)(a := None),
    free_ids := free_ids m @ [i]\<rparr>"
  have "inverse_index (key_at (tokens ?m)) (id_map ?m)"
    using inverse_index_delete [OF manager_inv_indices(1) [OF inv], of i "info_key info"] i t
    by (simp add: key_at_update key_at_def)
  moreover have "inverse_index (slot (id_to_alias ?m)) (alias_map ?m)"
    using inverse_index_delete [OF manager_inv_indices(2) [OF inv] a] i len by (simp add: slot_update)
  moreover have "set (free_ids ?m) = {j. j < length (tokens ?m) \<and> tokens ?m ! j = None}"
  proof (rule set_eqI)
    fix j
    show "j \<in> set (free_ids ?m) \<longleftrightarrow> j \<in> {j. j < length (tokens ?m) \<and> tokens ?m ! j = None}"
      using i by (cases "j = i") (simp_all add: manager_inv_free [OF inv])
  qed
  moreover have "distinct (free_ids ?m)"
    using inv i manager_inv_free [OF inv, of i] by (simp add: manager_inv_def)
  ultimately have "manager_inv ?m"
    using inv qinv i len by (auto simp: manager_inv_def slot_update)
  moreover have "manager_remove i heads m
      = Some (Some info, map (\<lambda>c. if c > vi then c - 1 else c) heads, ?m)"
    using i len a' q' by (simp add: manager_remove_def Let_def)
  ultimately show ?thesis
    using vi vec' i len
    by (intro exI [of _ "map (\<lambda>c. if c > vi then c - 1 else c) heads"] exI [of _ ?m] exI [of _ vi])
       (simp add: slot_update)
qed

lemma manager_remove_absent: "slot (tokens m) i = None \<Longrightarrow> manager_remove i heads m = Some (None, heads, m)"
  by (auto simp: manager_remove_def slot_def split: if_splits)

lemma manager_set_alias_ok:
  assumes inv: "manager_inv m" and t: "slot (tokens m) i \<noteq> None"
    and al: "alias_map m (normalize_alias alias i) = None"
  shows "\<exists>m'. manager_set_alias i alias m = Some (Inr (), m') \<and> manager_inv m'
    \<and> tokens m' = tokens m \<and> queue m' = queue m
    \<and> slot (id_to_alias m') = (slot (id_to_alias m))(i \<mapsto> normalize_alias alias i)"
proof -
  let ?a = "normalize_alias alias i"
  have i: "i < length (tokens m)" "tokens m ! i \<noteq> None"
    using t by (auto simp: slot_def split: if_splits)
  have len: "length (id_to_alias m) = length (tokens m)" by (rule manager_inv_lookup(4) [OF inv])
  obtain b where b: "slot (id_to_alias m) i = Some b"
    using manager_inv_lookup(3) [OF inv, of i] t by (cases "slot (id_to_alias m) i") auto
  then have b': "id_to_alias m ! i = Some b" using i len by (simp add: slot_nth)
  let ?m = "m\<lparr>alias_map := (alias_map m)(b := None, ?a \<mapsto> i), id_to_alias := (id_to_alias m)[i := Some ?a]\<rparr>"
  have "inverse_index (slot (id_to_alias ?m)) (alias_map ?m)"
    using inverse_index_replace [OF manager_inv_indices(2) [OF inv] b, of ?a] al i len
    by (simp add: slot_update)
  then have "manager_inv ?m"
    using inv t i len by (auto simp: manager_inv_def slot_update)
  moreover have "manager_set_alias i alias m = Some (Inr (), ?m)"
    using i len b' al by (simp add: manager_set_alias_def Let_def)
  ultimately show ?thesis
    using i len by (intro exI [of _ ?m]) (simp add: slot_update)
qed

lemma info_update_ok:
  assumes inv: "manager_inv m" and t: "slot (tokens m) i = Some info"
    and key: "info_key (f info) = info_key info"
  shows "\<exists>m'. info_update i f m = Some m' \<and> manager_inv m'
    \<and> slot (tokens m') = (slot (tokens m))(i \<mapsto> f info) \<and> id_to_alias m' = id_to_alias m \<and> queue m' = queue m"
proof -
  have i: "i < length (tokens m)" "tokens m ! i = Some info"
    using t by (auto simp: slot_def split: if_splits)
  let ?m = "m\<lparr>tokens := (tokens m)[i := Some (f info)]\<rparr>"
  have k: "key_at (tokens ?m) = key_at (tokens m)"
    using i t key by (auto simp: key_at_update key_at_def intro!: ext)
  then have "key_in_queue (tokens ?m) vec = key_in_queue (tokens m) vec" for vec
    by (intro ext) (simp add: key_in_queue_def)
  moreover have "slot (tokens ?m) j = None \<longleftrightarrow> slot (tokens m) j = None" for j
    using i t by (simp add: slot_update)
  ultimately have "queue_inv (tokens ?m) (queue m)"
    using manager_inv_queue [OF inv] by (simp add: queue_inv_def)
  moreover have "{j. j < length (tokens ?m) \<and> tokens ?m ! j = None} = {j. j < length (tokens m) \<and> tokens m ! j = None}"
    using i by (auto simp: nth_list_update)
  moreover have "slot (id_to_alias m) i \<noteq> None" using manager_inv_lookup(3) [OF inv, of i] t by simp
  ultimately have "manager_inv ?m"
    using inv k i t by (auto simp: manager_inv_def slot_update)
  then show ?thesis
    using i by (intro exI [of _ ?m]) (simp add: info_update_def slot_update slice_get_def)
qed

lemma writer_update_ok:
  fixes m :: "'p token_manager" and f :: "ext_token \<Rightarrow> ext_token" and info :: "'p token_info"
  assumes inv: "manager_inv m" and t: "slot (tokens m) i = Some info"
  defines "info' \<equiv> info\<lparr>ext_bundle := f (ext_bundle info)\<rparr>"
  assumes key: "info_key info' = info_key info \<or> id_map m (info_key info') = None"
  shows "\<exists>m'. writer_update i f m = Some m' \<and> manager_inv m'
    \<and> slot (tokens m') = (slot (tokens m))(i \<mapsto> info') \<and> id_to_alias m' = id_to_alias m
    \<and> q_vec (queue m') = q_vec (queue m)"
proof (cases "info_key info' = info_key info")
  case True
  have "\<exists>m'. info_update i (\<lambda>x. x\<lparr>ext_bundle := f (ext_bundle x)\<rparr>) m = Some m' \<and> manager_inv m'
      \<and> slot (tokens m') = (slot (tokens m))(i \<mapsto> info') \<and> id_to_alias m' = id_to_alias m \<and> queue m' = queue m"
    using info_update_ok [OF inv t, of "\<lambda>x. x\<lparr>ext_bundle := f (ext_bundle x)\<rparr>"] True by (simp add: info'_def)
  moreover have "writer_update i f m = info_update i (\<lambda>x. x\<lparr>ext_bundle := f (ext_bundle x)\<rparr>) m"
    using t True
    by (auto simp: writer_update_def info_update_def writer_drop_def slot_def slice_get_def info'_def Let_def
        split: if_splits)
  ultimately show ?thesis by auto
next
  case False
  with key have new: "id_map m (info_key info') = None" by simp
  have i: "i < length (tokens m)" "tokens m ! i = Some info"
    using t by (auto simp: slot_def split: if_splits)
  obtain q' where q': "queue_set_key (info_key info) (info_key info') (queue m) = (True, q')"
    and qinv: "queue_inv ((tokens m)[i := Some info']) q'" and vec: "q_vec q' = q_vec (queue m)"
    using queue_set_key_inv [OF manager_inv_queue [OF inv] t, of info'] new
      q_map_id_map [OF inv, of "info_key info'"] by auto
  have ki: "key_at (tokens m) i = Some (info_key info)" by (simp add: key_at_def t)
  let ?m = "m\<lparr>tokens := (tokens m)[i := Some info'],
    id_map := (id_map m)(info_key info := None, info_key info' \<mapsto> i), queue := q'\<rparr>"
  have "inverse_index (key_at (tokens ?m)) (id_map ?m)"
    using inverse_index_replace [OF manager_inv_indices(1) [OF inv] ki, of "info_key info'"] new i
    by (simp add: key_at_update)
  moreover have "{j. j < length (tokens ?m) \<and> tokens ?m ! j = None} = {j. j < length (tokens m) \<and> tokens m ! j = None}"
    using i by (auto simp: nth_list_update)
  moreover have "slot (id_to_alias m) i \<noteq> None" using manager_inv_lookup(3) [OF inv, of i] t by simp
  ultimately have "manager_inv ?m"
    using inv qinv i t by (auto simp: manager_inv_def slot_update)
  moreover have "id_map m (info_key info) = Some i"
    using manager_inv_lookup(2) [OF inv] ki by simp
  then have "writer_update i f m = Some ?m"
    using i False q' by (simp add: writer_update_def writer_drop_def slice_get_def info'_def Let_def)
  ultimately show ?thesis
    using i vec by (intro exI [of _ ?m]) (simp add: slot_update)
qed

section \<open>Round-robin selection\<close>

definition avail :: "u64 \<Rightarrow> 'p token_info option list \<Rightarrow> nat \<Rightarrow> bool" where
  "avail now toks i =
     (case slot toks i of
        None \<Rightarrow> False
      | Some t \<Rightarrow> is_enabled t \<and> is_available now (health (status t)))"

text \<open>The abstract view of a queue from a head: the slots that can be selected, in the order in which
  they come.  Selecting takes the first and rotates it to the end.\<close>

definition ready :: "u64 \<Rightarrow> 'p token_info option list \<Rightarrow> nat list \<Rightarrow> nat \<Rightarrow> nat list" where
  "ready now toks vec head = filter (avail now toks) (rotate head vec)"

lemma select_loop_eq:
  assumes "\<forall>i \<in> set vec. slot toks i \<noteq> None" and "i + k = length vec"
  shows "select_loop now toks vec start i k =
    Some (case List.extract (avail now toks) (drop i (rotate start vec)) of
            None \<Rightarrow> None
          | Some (pre, x, post) \<Rightarrow> Some ((start + i + length pre) mod length vec, the (slot toks x)))"
  using assms(2)
proof (induction k arbitrary: i)
  case (Suc k)
  let ?r = "rotate start vec" and ?n = "length vec"
  have i: "i < ?n" using Suc.prems by simp
  have x: "?r ! i = vec ! ((start + i) mod ?n)"
    using i by (simp add: nth_rotate)
  have drop: "drop i ?r = ?r ! i # drop (Suc i) ?r"
    using i by (simp add: Cons_nth_drop_Suc)
  have pos: "(start + i) mod ?n < ?n" using i by (intro mod_less_divisor) linarith
  then obtain t where t: "slot toks (?r ! i) = Some t"
    using assms(1) x by (metis nth_mem option.exhaust)
  then have get: "slice_get toks (vec ! ((start + i) mod ?n)) = Some (Some t)"
    unfolding x by (auto simp: slot_def slice_get_def split: if_splits)
  show ?case
  proof (cases "avail now toks (?r ! i)")
    case True
    then have "is_enabled t \<and> is_available now (health (status t))" by (simp add: avail_def t)
    with True get pos t show ?thesis
      by (simp add: drop extract_Cons_code Let_def)
  next
    case False
    then have "\<not> (is_enabled t \<and> is_available now (health (status t)))" by (simp add: avail_def t)
    with False get pos Suc.IH [of "Suc i"] Suc.prems show ?thesis
      by (auto simp: drop extract_Cons_code Let_def split: option.splits prod.splits)
  qed
qed (simp add: extract_Nil_code)


lemma rotate_past:
  assumes "rotate h vec = pre @ x # post"
  shows "rotate (((h + length pre) mod length vec + 1) mod length vec) vec = post @ pre @ [x]"
proof -
  have "rotate (((h + length pre) mod length vec + 1) mod length vec) vec = rotate (Suc (h + length pre)) vec"
    by (metis Suc_eq_plus1 mod_Suc_eq rotate_conv_mod)
  also have "\<dots> = rotate (length (pre @ [x])) (rotate h vec)"
    by (simp add: rotate_rotate add.commute)
  also have "\<dots> = post @ pre @ [x]"
    using rotate_append [of "pre @ [x]" post] assms by simp
  finally show ?thesis .
qed

lemma queue_select_ready:
  fixes qt :: QueueType
  assumes "queue_inv toks q" and "length heads = 4"
  defines "h \<equiv> heads ! as_index qt"
  shows "case ready now toks (q_vec q) h of
      [] \<Rightarrow> queue_select now qt toks heads q = Some (None, heads)
    | x # xs \<Rightarrow> \<exists>h'. queue_select now qt toks heads q
          = Some (Some (ext_clone (ext_bundle (the (slot toks x)))), heads[as_index qt := h'])
        \<and> ready now toks (q_vec q) h' = xs @ [x]"
proof (cases "q_vec q")
  case Nil
  then show ?thesis by (simp add: ready_def queue_select_def)
next
  case Cons
  let ?vec = "q_vec q"
  have qi: "as_index qt < length heads" using assms(2) by (cases qt) (simp_all add: as_index_def)
  have full: "\<forall>i \<in> set ?vec. slot toks i \<noteq> None" using assms(1) by (simp add: queue_inv_def)
  note loop = select_loop_eq [OF full, of 0 "length ?vec" now h, simplified]
  show ?thesis
  proof (cases "List.extract (avail now toks) (rotate h ?vec)")
    case None
    then have "ready now toks ?vec h = []"
      by (auto simp: extract_None_iff ready_def filter_empty_conv)
    then show ?thesis
      using Cons qi loop None by (simp add: queue_select_def h_def [symmetric] slice_get_def)
  next
    case (Some r)
    then obtain pre x post where r: "r = (pre, x, post)" by (cases r) auto
    with Some have rot: "rotate h ?vec = pre @ x # post" and x: "avail now toks x"
      and pre: "\<forall>y \<in> set pre. \<not> avail now toks y"
      by (auto simp: extract_Some_iff)
    let ?h = "((h + length pre) mod length ?vec + 1) mod length ?vec"
    have "ready now toks ?vec h = x # filter (avail now toks) post"
      "ready now toks ?vec ?h = filter (avail now toks) post @ [x]"
      using rotate_past [OF rot] pre x rot by (simp_all add: ready_def filter_empty_conv)
    moreover have "queue_select now qt toks heads q
        = Some (Some (ext_clone (ext_bundle (the (slot toks x)))), heads[as_index qt := ?h])"
      using Cons qi loop Some r by (simp add: queue_select_def h_def [symmetric] slice_get_def)
    ultimately show ?thesis by (intro list.split [THEN iffD2]) auto
  qed
qed

lemma ready_set:
  "queue_inv toks q \<Longrightarrow> set (ready now toks (q_vec q) h) = {i. avail now toks i}"
  by (auto simp: ready_def queue_inv_def avail_def split: option.splits)

text \<open>A run of \<open>k\<close> selections from one queue type at one time.\<close>

primrec select_run ::
  "nat \<Rightarrow> u64 \<Rightarrow> QueueType \<Rightarrow> 'p token_manager \<Rightarrow> nat list \<Rightarrow> (ext_token option list \<times> nat list) ub" where
  "select_run 0 now qt m heads = Some ([], heads)"
| "select_run (Suc k) now qt m heads = do {
     (r, heads) \<leftarrow> manager_select now qt heads m;
     (rs, heads) \<leftarrow> select_run k now qt m heads;
     Some (r # rs, heads)
   }"

lemma rotate1_nth_mod:
  "map (\<lambda>j. (xs @ [x]) ! (j mod Suc (length xs))) [0..<k]
     = map (\<lambda>j. (x # xs) ! (j mod Suc (length xs))) [Suc 0..<Suc k]"
proof -
  have "(xs @ [x]) ! (j mod Suc (length xs)) = (x # xs) ! (Suc j mod Suc (length xs))" for j
  proof -
    let ?n = "length (x # xs)"
    have "rotate 1 (x # xs) ! (j mod ?n) = (x # xs) ! ((1 + j mod ?n) mod ?n)"
      by (rule nth_rotate) simp
    then show ?thesis by (simp add: mod_Suc_eq)
  qed
  then show ?thesis by (simp add: map_Suc_upt [symmetric] del: upt_Suc)
qed

lemma select_run_ready:
  assumes "manager_inv m" "length heads = 4"
    and "ready now (tokens m) (q_vec (queue m)) (heads ! as_index qt) = r"
  shows "\<exists>heads'. select_run k now qt m heads =
      Some (if r = [] then replicate k None
            else map (\<lambda>j. Some (ext_clone (ext_bundle (the (slot (tokens m) (r ! (j mod length r))))))) [0..<k], heads')"
  using assms(2,3)
proof (induction k arbitrary: heads r)
  case (Suc k)
  have qi: "as_index qt < length heads" using Suc.prems(1) by (cases qt) (simp_all add: as_index_def)
  note sel = queue_select_ready [OF manager_inv_queue [OF assms(1)] Suc.prems(1), of now qt]
  show ?case
  proof (cases r)
    case Nil
    then show ?thesis using sel Suc.prems Suc.IH [of heads r] by (auto simp: manager_select_def)
  next
    case (Cons x xs)
    then obtain h' where h': "queue_select now qt (tokens m) heads (queue m)
          = Some (Some (ext_clone (ext_bundle (the (slot (tokens m) x)))), heads[as_index qt := h'])"
      "ready now (tokens m) (q_vec (queue m)) h' = xs @ [x]"
      using sel Suc.prems by auto
    let ?f = "\<lambda>i. Some (ext_clone (ext_bundle (the (slot (tokens m) i))))"
    obtain heads' where "select_run k now qt m (heads[as_index qt := h'])
        = Some (map (\<lambda>j. ?f ((xs @ [x]) ! (j mod Suc (length xs)))) [0..<k], heads')"
      using Suc.IH [of "heads[as_index qt := h']" "xs @ [x]"] Suc.prems(1) qi h'(2) by auto
    moreover have "map (\<lambda>j. ?f ((xs @ [x]) ! (j mod Suc (length xs)))) [0..<k]
        = map (\<lambda>j. ?f ((x # xs) ! (j mod Suc (length xs)))) [Suc 0..<Suc k]"
      using arg_cong [OF rotate1_nth_mod [where x = x and xs = xs and k = k], of "map ?f"]
      by (simp add: comp_def del: upt_Suc)
    ultimately show ?thesis
      using Cons h'(1) by (simp add: manager_select_def upt_conv_Cons del: upt_Suc)
  qed
qed simp


section \<open>The abstract table of aliases\<close>

definition alias_table :: "'p token_manager \<Rightarrow> bytes \<Rightarrow> 'p token_info option" where
  "alias_table m a = (case alias_map m a of None \<Rightarrow> None | Some i \<Rightarrow> slot (tokens m) i)"

lemma alias_table_iff:
  assumes "manager_inv m"
  shows "alias_table m a = Some t \<longleftrightarrow> (\<exists>i. slot (id_to_alias m) i = Some a \<and> slot (tokens m) i = Some t)"
  unfolding manager_inv_lookup(1) [OF assms, symmetric]
  by (auto simp: alias_table_def split: option.splits)

lemma alias_table_eqI:
  assumes "manager_inv m"
    and "\<And>a t. (\<exists>i. slot (id_to_alias m) i = Some a \<and> slot (tokens m) i = Some t) \<longleftrightarrow> f a = Some t"
  shows "alias_table m = f"
proof
  fix a
  show "alias_table m a = f a"
    using assms by (metis alias_table_iff not_Some_eq)
qed

lemma alias_slot_live:
  assumes "manager_inv m" "alias_map m a = Some i"
  shows "\<exists>t. slot (tokens m) i = Some t"
  using assms manager_inv_lookup(1,3) [OF assms(1)] by (metis not_Some_eq)

lemma get_by_alias_table: "manager_inv m \<Longrightarrow> get_by_alias a m = Some (alias_table m a)"
  by (cases "alias_map m a")
     (auto simp: get_by_alias_def alias_table_def slot_def slice_get_def dest!: alias_slot_live split: if_splits)

lemma alias_table_None: "manager_inv m \<Longrightarrow> alias_table m a = None \<longleftrightarrow> alias_map m a = None"
  by (cases "alias_map m a") (auto simp: alias_table_def dest!: alias_slot_live)

lemma alias_table_put:
  assumes "manager_inv m" "manager_inv m'"
    and toks: "slot (tokens m') = (slot (tokens m))(i \<mapsto> t)"
    and als: "slot (id_to_alias m') = (slot (id_to_alias m))(i \<mapsto> a)"
    and new: "alias_map m a = None" and old: "slot (id_to_alias m) i = b"
  shows "alias_table m' = (case b of None \<Rightarrow> alias_table m | Some o' \<Rightarrow> (alias_table m)(o' := None))(a \<mapsto> t)"
proof (rule alias_table_eqI [OF assms(2)])
  fix c u
  have uniq: "slot (id_to_alias m) j \<noteq> Some a" for j
    using new manager_inv_lookup(1) [OF assms(1), of a j] by simp
  have inj: "b = Some c \<Longrightarrow> slot (id_to_alias m) j = Some c \<Longrightarrow> j = i" for j
    using inverse_index_inj [OF manager_inv_indices(2) [OF assms(1)]] old by blast
  let ?g = "(case b of None \<Rightarrow> alias_table m | Some o' \<Rightarrow> (alias_table m)(o' := None))(a \<mapsto> t)"
  show "(\<exists>j. slot (id_to_alias m') j = Some c \<and> slot (tokens m') j = Some u) \<longleftrightarrow> ?g c = Some u"
  proof (cases "c = a")
    case True
    with uniq show ?thesis by (auto simp: toks als)
  next
    case False
    then have "?g c = (if b = Some c then None else alias_table m c)" by (cases b) auto
    moreover have "(\<exists>j. slot (id_to_alias m') j = Some c \<and> slot (tokens m') j = Some u)
        \<longleftrightarrow> (\<exists>j. j \<noteq> i \<and> slot (id_to_alias m) j = Some c \<and> slot (tokens m) j = Some u)"
      using False by (auto simp: toks als)
    ultimately show ?thesis
      using inj old by (auto simp: alias_table_iff [OF assms(1)])
  qed
qed

lemma alias_table_drop:
  assumes "manager_inv m" "manager_inv m'"
    and toks: "slot (tokens m') = (slot (tokens m))(i := None)"
    and als: "slot (id_to_alias m') = (slot (id_to_alias m))(i := None)"
    and old: "slot (id_to_alias m) i = Some a"
  shows "alias_table m' = (alias_table m)(a := None)"
proof (rule alias_table_eqI [OF assms(2)])
  fix c u
  have inj: "slot (id_to_alias m) j = Some a \<Longrightarrow> j = i" for j
    using inverse_index_inj [OF manager_inv_indices(2) [OF assms(1)] _ old] by blast
  have eq: "(\<exists>j. slot (id_to_alias m') j = Some c \<and> slot (tokens m') j = Some u)
      \<longleftrightarrow> (\<exists>j. j \<noteq> i \<and> slot (id_to_alias m) j = Some c \<and> slot (tokens m) j = Some u)"
    by (auto simp: toks als)
  show "(\<exists>j. slot (id_to_alias m') j = Some c \<and> slot (tokens m') j = Some u)
    \<longleftrightarrow> ((alias_table m)(a := None)) c = Some u"
  proof (cases "c = a")
    case True
    with inj show ?thesis
      unfolding eq by auto
  next
    case False
    then have "j \<noteq> i" if "slot (id_to_alias m) j = Some c" for j using old that by auto
    with False show ?thesis
      unfolding eq by (auto simp: alias_table_iff [OF assms(1)])
  qed
qed

lemma manager_add_table:
  assumes "manager_inv m" "id_map m (info_key info) = None"
    and new: "alias_table m (normalize_alias a (next_id m)) = None"
  shows "\<exists>m'. manager_add info a m = Some (Inr (next_id m), m') \<and> manager_inv m'
    \<and> alias_table m' = (alias_table m)(normalize_alias a (next_id m) \<mapsto> info)"
proof -
  have free: "slot (id_to_alias m) (next_id m) = None"
    using next_id_free [OF assms(1)] manager_inv_lookup(3) [OF assms(1)] by simp
  have new': "alias_map m (normalize_alias a (next_id m)) = None"
    using new by (simp add: alias_table_None [OF assms(1)])
  show ?thesis
    using manager_add_ok [OF assms(1,2) new'] alias_table_put [OF assms(1) _ _ _ new' free] by auto
qed

lemma manager_remove_table:
  assumes inv: "manager_inv m" and b: "slot (id_to_alias m) i = Some b"
  shows "\<exists>heads' m'. manager_remove i heads m = Some (alias_table m b, heads', m') \<and> manager_inv m'
    \<and> length heads' = length heads \<and> alias_table m' = (alias_table m)(b := None)"
proof -
  obtain t where t: "slot (tokens m) i = Some t"
    using manager_inv_lookup(3) [OF inv, of i] b by (metis not_Some_eq)
  with b have "alias_table m b = Some t" by (auto simp: alias_table_iff [OF inv])
  then show ?thesis
    using manager_remove_ok [OF inv t, of heads] alias_table_drop [OF inv _ _ _ b] by auto
qed

lemma manager_set_alias_table:
  assumes inv: "manager_inv m" and b: "slot (id_to_alias m) i = Some b"
    and new: "alias_table m (normalize_alias a i) = None"
  shows "\<exists>m'. manager_set_alias i a m = Some (Inr (), m') \<and> manager_inv m'
    \<and> alias_table m' = (alias_table m)(b := None, normalize_alias a i := alias_table m b)"
proof -
  obtain t where t: "slot (tokens m) i = Some t"
    using manager_inv_lookup(3) [OF inv, of i] b by (metis not_Some_eq)
  with b have tb: "alias_table m b = Some t" by (auto simp: alias_table_iff [OF inv])
  have new': "alias_map m (normalize_alias a i) = None"
    using new by (simp add: alias_table_None [OF inv])
  obtain m' where m': "manager_set_alias i a m = Some (Inr (), m')" "manager_inv m'"
    "tokens m' = tokens m" "slot (id_to_alias m') = (slot (id_to_alias m))(i \<mapsto> normalize_alias a i)"
    using manager_set_alias_ok [OF inv _ new'] t by auto
  have "slot (tokens m') = (slot (tokens m))(i \<mapsto> t)" using t m'(3) by auto
  from alias_table_put [OF inv m'(2) this m'(4) new' b] show ?thesis
    using m'(1,2) tb by auto
qed

section \<open>Runs of the manager\<close>

text \<open>What the request handlers do to the manager and the heads.  A client adds a token only when its
  key is not in use, and the changes made through a writer keep the key or move to an unused one.\<close>

inductive manager_step :: "'p token_manager \<times> nat list \<Rightarrow> 'p token_manager \<times> nat list \<Rightarrow> bool" where
  step_add: "id_map m (info_key info) = None \<Longrightarrow> manager_add info al m = Some (r, m') \<Longrightarrow>
    manager_step (m, heads) (m', heads)"
| step_remove: "manager_remove i heads m = Some (r, heads', m') \<Longrightarrow> manager_step (m, heads) (m', heads')"
| step_alias: "manager_set_alias i al m = Some (r, m') \<Longrightarrow> manager_step (m, heads) (m', heads)"
| step_update: "slot (tokens m) i = Some info \<Longrightarrow> info_key (f info) = info_key info \<Longrightarrow>
    info_update i f m = Some m' \<Longrightarrow> manager_step (m, heads) (m', heads)"
| step_write: "slot (tokens m) i = Some info \<Longrightarrow> info' = info\<lparr>ext_bundle := g (ext_bundle info)\<rparr> \<Longrightarrow>
    info_key info' = info_key info \<or> id_map m (info_key info') = None \<Longrightarrow>
    writer_update i g m = Some m' \<Longrightarrow> manager_step (m, heads) (m', heads)"
| step_select: "manager_select now qt heads m = Some (r, heads') \<Longrightarrow> manager_step (m, heads) (m, heads')"

definition manager_state_ok :: "'p token_manager \<times> nat list \<Rightarrow> bool" where
  "manager_state_ok = (\<lambda>(m, heads). manager_inv m \<and> length heads = 4)"

lemma manager_add_inv:
  "manager_inv m \<Longrightarrow> id_map m (info_key info) = None \<Longrightarrow>
   \<exists>r m'. manager_add info al m = Some (r, m') \<and> manager_inv m'"
  using manager_add_ok [of m info al] manager_add_taken [of m al info] by blast

lemma manager_remove_inv:
  "manager_inv m \<Longrightarrow> \<exists>r heads' m'. manager_remove i heads m = Some (r, heads', m') \<and> manager_inv m'
     \<and> length heads' = length heads"
  using manager_remove_ok [of m i _ heads] manager_remove_absent [of m i heads]
  by (cases "slot (tokens m) i") fastforce+

lemma manager_set_alias_invalid:
  "slot (tokens m) i = None \<Longrightarrow> manager_set_alias i al m = Some (Inl InvalidId, m)"
  by (auto simp: manager_set_alias_def slot_def split: if_splits)

lemma manager_set_alias_taken:
  "slot (tokens m) i \<noteq> None \<Longrightarrow> alias_map m (normalize_alias al i) \<noteq> None \<Longrightarrow>
   manager_set_alias i al m = Some (Inl AliasExists, m)"
  by (auto simp: manager_set_alias_def slot_def split: if_splits)

lemma manager_set_alias_inv:
  "manager_inv m \<Longrightarrow> \<exists>r m'. manager_set_alias i al m = Some (r, m') \<and> manager_inv m'"
  using manager_set_alias_ok [of m i al] manager_set_alias_invalid [of m i al]
    manager_set_alias_taken [of m i al] by blast

lemma manager_select_inv:
  assumes "manager_inv m" "length heads = 4"
  shows "\<exists>r heads'. manager_select now qt heads m = Some (r, heads') \<and> length heads' = 4"
  using queue_select_ready [OF manager_inv_queue [OF assms(1)] assms(2), of now qt] assms(2)
  by (auto simp: manager_select_def split: list.splits)

lemma manager_step_ok:
  "manager_step s s' \<Longrightarrow> manager_state_ok s \<Longrightarrow> manager_state_ok s'"
proof (induction rule: manager_step.induct)
  case (step_add m info al r m' heads)
  then show ?case using manager_add_inv [of m info al] by (auto simp: manager_state_ok_def)
next
  case (step_remove i heads m r heads' m')
  then show ?case using manager_remove_inv [of m i heads] by (auto simp: manager_state_ok_def)
next
  case (step_alias i al m r m' heads)
  then show ?case using manager_set_alias_inv [of m i al] by (auto simp: manager_state_ok_def)
next
  case (step_update m i info f m' heads)
  then show ?case using info_update_ok [of m i info f] by (auto simp: manager_state_ok_def)
next
  case (step_write m i info info' g m' heads)
  then show ?case using writer_update_ok [of m i info g] by (auto simp: manager_state_ok_def)
next
  case (step_select now qt heads m r heads')
  then show ?case using manager_select_inv [of m heads now qt] by (auto simp: manager_state_ok_def)
qed

lemma manager_run_ok: "manager_step\<^sup>*\<^sup>* s s' \<Longrightarrow> manager_state_ok s \<Longrightarrow> manager_state_ok s'"
  by (induction rule: rtranclp_induct) (auto intro: manager_step_ok)


section \<open>Properties\<close>

text \<open>C18: Whatever sequence of additions, removals, renamings, updates, writes and selections the
  manager has gone through, its invariant holds (slots, aliases, both maps, the free list and the
  queue describe the same tokens), there are four heads, and no operation can reach an unchecked
  access outside a vector, an \<^verbatim>\<open>unwrap_unchecked\<close> of \<^verbatim>\<open>None\<close> or a violated \<^verbatim>\<open>assert_unchecked\<close>:
  adding a token with an unused key, removing, renaming, selecting and looking up always, an update of a slot in use
  that keeps the key, and a write to one that keeps the key or moves to an unused one.  The last two change this slot
  as the client says and nothing else.\<close>

theorem manager_invariant:
  assumes "manager_step\<^sup>*\<^sup>* (manager_new, QUEUE_HEADS_init) (m, heads)"
  shows "manager_inv m \<and> length heads = 4
    \<and> (id_map m (info_key info) = None \<longrightarrow> manager_add info al m \<noteq> None)
    \<and> manager_remove i heads m \<noteq> None \<and> manager_set_alias i al m \<noteq> None
    \<and> manager_select now qt heads m \<noteq> None \<and> get_by_alias al m \<noteq> None
    \<and> (slot (tokens m) j = Some t \<and> info_key (f t) = info_key t \<longrightarrow>
        (\<exists>m'. info_update j f m = Some m' \<and> manager_inv m' \<and> slot (tokens m') = (slot (tokens m))(j \<mapsto> f t)
          \<and> id_to_alias m' = id_to_alias m))
    \<and> (slot (tokens m) j = Some t \<and> written = t\<lparr>ext_bundle := g (ext_bundle t)\<rparr>
         \<and> (info_key written = info_key t \<or> id_map m (info_key written) = None) \<longrightarrow>
        (\<exists>m'. writer_update j g m = Some m' \<and> manager_inv m' \<and> slot (tokens m') = (slot (tokens m))(j \<mapsto> written)
          \<and> id_to_alias m' = id_to_alias m))"
proof -
  have ok: "manager_inv m" "length heads = 4"
    using manager_run_ok [OF assms]
    by (simp_all add: manager_state_ok_def manager_new_inv QUEUE_HEADS_init_def)
  then show ?thesis
    using manager_add_inv [OF ok(1), of info al] manager_remove_inv [OF ok(1), of i heads]
      manager_set_alias_inv [OF ok(1), of i al] manager_select_inv [OF ok, of now qt]
      get_by_alias_table [OF ok(1), of al] info_update_ok [OF ok(1), of j t f] writer_update_ok [OF ok(1), of j t g]
    by fastforce
qed

text \<open>C20: The manager refines a table from aliases to tokens: looking up an alias reads the table;
  adding a token with an unused key stores it under its normalized alias, or changes nothing and
  reports the alias as taken; an automatic alias, which is the pattern with the number of the slot and stands in for every
  alias that looks like one, is never taken; removing a slot deletes its alias and
  returns its token; renaming moves the entry, and is refused without any change when the new alias is taken, also by the
  slot itself; an empty slot is neither removed nor renamed.\<close>

theorem manager_refines_table:
  assumes "manager_inv m"
  shows "get_by_alias a m = Some (alias_table m a)
    \<and> (id_map m (info_key info) = None \<and> alias_table m (normalize_alias a (next_id m)) = None \<longrightarrow>
        (\<exists>m'. manager_add info a m = Some (Inr (next_id m), m') \<and> manager_inv m'
          \<and> alias_table m' = (alias_table m)(normalize_alias a (next_id m) \<mapsto> info)))
    \<and> (alias_table m (normalize_alias a (next_id m)) \<noteq> None \<longrightarrow>
        manager_add info a m = Some (Inl AliasExists, m))
    \<and> normalize_alias a i = (if a = bytes_of ''unnamed'' \<or> take 8 a = bytes_of ''unnamed-''
                              then bytes_of ''unnamed-'' @ show_nat i else a)
    \<and> alias_table m (bytes_of ''unnamed-'' @ show_nat (next_id m)) = None
    \<and> (slot (id_to_alias m) i = Some b \<longrightarrow>
        (\<exists>heads' m'. manager_remove i heads m = Some (alias_table m b, heads', m') \<and> manager_inv m'
          \<and> length heads' = length heads \<and> alias_table m' = (alias_table m)(b := None)))
    \<and> (slot (id_to_alias m) i = Some b \<and> alias_table m (normalize_alias a i) = None \<longrightarrow>
        (\<exists>m'. manager_set_alias i a m = Some (Inr (), m') \<and> manager_inv m'
          \<and> alias_table m' = (alias_table m)(b := None, normalize_alias a i := alias_table m b)))
    \<and> (slot (id_to_alias m) i = Some b \<and> alias_table m (normalize_alias a i) \<noteq> None \<longrightarrow>
        manager_set_alias i a m = Some (Inl AliasExists, m))
    \<and> (slot (id_to_alias m) i = None \<longrightarrow>
        manager_set_alias i a m = Some (Inl InvalidId, m) \<and> manager_remove i heads m = Some (None, heads, m))"
  using get_by_alias_table [OF assms, of a] manager_add_table [OF assms, of info a]
    manager_add_taken [of m a info] unnamed_alias_free [OF assms next_id_free [OF assms]]
    manager_remove_table [OF assms, of i b heads] manager_set_alias_table [OF assms, of i b a]
    manager_set_alias_invalid [of m i a] manager_set_alias_taken [of m i a] manager_remove_absent [of m i heads]
    manager_inv_lookup(3) [OF assms, of i] normalize_alias_text [of a i]
  by (auto simp: alias_table_None [OF assms] generate_unnamed_alias_text)

text \<open>Tokens for concrete instances: the randomness distinguishes their keys.\<close>

definition sample_token :: "u64 \<Rightarrow> token" where
  "sample_token rnd =
     \<lparr>tok_raw = \<lparr>raw_subject = \<lparr>provider = Provider AUTH0, sub_id = UserId 7 0\<rparr>, raw_signature = replicate 32 0,
        raw_duration = \<lparr>dur_start = 0, dur_end = 1\<rparr>, raw_randomness = rnd, raw_is_session = True\<rparr>,
      tok_str = []\<rparr>"

definition sample_info :: "u64 \<Rightarrow> bool \<Rightarrow> unit token_info" where
  "sample_info rnd on =
     \<lparr>ext_bundle = \<lparr>primary_token = sample_token rnd, secondary_token = None,
        ext_checksum = \<lparr>first = Hash [], second = Hash []\<rparr>, client_key = Hash [], config_version = None,
        session_id = 0, proxy = None, timezone = None, gcpp_host = None\<rparr>,
      status = \<lparr>enabled = on, health = token_health_new\<rparr>, usage = None, user = None, stripe = None,
      sessions = []\<rparr>"

lemma sample_key [simp]: "info_key (sample_info rnd on) = \<lparr>user_id = UserId 7 0, randomness = rnd\<rparr>"
  by (simp add: info_key_def sample_info_def key_of_token_def sample_token_def raw_key_def)

definition sample_manager :: "unit token_manager" where
  "sample_manager =
     snd (the (manager_add (sample_info 3 True) (bytes_of ''c'')
       (snd (the (manager_add (sample_info 2 False) UNNAMED
         (snd (the (manager_add (sample_info 1 True) (bytes_of ''a'') manager_new))))))))"

lemma sample_manager_eq:
  "sample_manager =
     \<lparr>tokens = [Some (sample_info 1 True), Some (sample_info 2 False), Some (sample_info 3 True)],
      id_map = [\<lparr>user_id = UserId 7 0, randomness = 1\<rparr> \<mapsto> 0, \<lparr>user_id = UserId 7 0, randomness = 2\<rparr> \<mapsto> 1,
        \<lparr>user_id = UserId 7 0, randomness = 3\<rparr> \<mapsto> 2],
      alias_map = [bytes_of ''a'' \<mapsto> 0, generate_unnamed_alias 1 \<mapsto> 1, bytes_of ''c'' \<mapsto> 2],
      id_to_alias = [Some (bytes_of ''a''), Some (generate_unnamed_alias 1), Some (bytes_of ''c'')],
      free_ids = [],
      queue = \<lparr>q_vec = [0, 1, 2], q_map = [\<lparr>user_id = UserId 7 0, randomness = 1\<rparr> \<mapsto> 0,
        \<lparr>user_id = UserId 7 0, randomness = 2\<rparr> \<mapsto> 1, \<lparr>user_id = UserId 7 0, randomness = 3\<rparr> \<mapsto> 2]\<rparr>\<rparr>"
proof -
  have n: "normalize_alias (bytes_of ''a'') i = bytes_of ''a''" "normalize_alias (bytes_of ''c'') i = bytes_of ''c''"
    "normalize_alias UNNAMED i = generate_unnamed_alias i" for i
    by (simp_all add: normalize_alias_def UNNAMED_def UNNAMED_PATTERN_def starts_with_def bytes_of_def)
  have d: "generate_unnamed_alias 1 \<noteq> bytes_of ''a''" "bytes_of ''c'' \<noteq> generate_unnamed_alias 1"
    "bytes_of ''c'' \<noteq> bytes_of ''a''"
    by (simp_all add: generate_unnamed_alias_def UNNAMED_PATTERN_def bytes_of_def)
  show ?thesis
    unfolding sample_manager_def manager_new_def token_queue_new_def manager_add_def
    using d by (simp add: n queue_push_def slice_set_def Let_def numeral_2_eq_2)
qed

lemma manager_add_key:
  "manager_add info al m = Some (r, m') \<Longrightarrow> k \<noteq> info_key info \<Longrightarrow> id_map m' k = id_map m k"
  by (auto simp: manager_add_def Let_def split: if_splits list.splits bind_splits)

lemma manager_add_pair:
  fixes al :: bytes
  assumes "manager_inv m" "id_map m (info_key info) = None"
  defines "m' \<equiv> snd (the (manager_add info al m))"
  shows "manager_inv m'" and "k \<noteq> info_key info \<Longrightarrow> id_map m' k = id_map m k"
  using manager_add_inv [OF assms(1,2), of al] manager_add_key [of info al m _ _ k]
  by (auto simp: m'_def)

lemma id_map_new [simp]: "id_map manager_new = Map.empty"
  by (simp add: manager_new_def)

lemma sample_manager_inv: "manager_inv sample_manager"
  unfolding sample_manager_def
  by (intro manager_add_pair(1) manager_new_inv)
     (simp_all add: manager_add_pair manager_new_inv)


theorem manager_invariant_witness:
  "\<exists>m. manager_add (sample_info 1 True) (bytes_of ''a'') manager_new = Some (Inr 0, m)
    \<and> manager_inv m \<and> manager_add (sample_info 2 True) UNNAMED m \<noteq> None
    \<and> manager_remove 0 QUEUE_HEADS_init m \<noteq> None \<and> manager_set_alias 0 UNNAMED m \<noteq> None
    \<and> manager_select 0 NormalPaid QUEUE_HEADS_init m \<noteq> None \<and> get_by_alias UNNAMED m \<noteq> None
    \<and> (\<exists>m'. info_update 0 (\<lambda>t. t\<lparr>status := \<lparr>enabled = False, health = token_health_new\<rparr>\<rparr>) m = Some m'
         \<and> slot (tokens m') 0 = Some (sample_info 1 False))
    \<and> (\<exists>m'. writer_update 0 (\<lambda>b. b\<lparr>primary_token := sample_token 5\<rparr>) m = Some m' \<and> manager_inv m'
         \<and> slot (tokens m') 0 = Some (sample_info 5 True))"
proof -
  have n: "normalize_alias (bytes_of ''a'') i = bytes_of ''a''" for i
    by (simp add: normalize_alias_def UNNAMED_def UNNAMED_PATTERN_def starts_with_def bytes_of_def)
  obtain m where m: "manager_add (sample_info 1 True) (bytes_of ''a'') manager_new = Some (Inr 0, m)"
    by (simp add: manager_add_def manager_new_def n slice_set_def Let_def)
  then have "manager_step (manager_new, QUEUE_HEADS_init) (m, QUEUE_HEADS_init)"
    by (intro step_add) simp
  then have reach: "manager_step\<^sup>*\<^sup>* (manager_new, QUEUE_HEADS_init) (m, QUEUE_HEADS_init)" by blast
  have "id_map m (info_key (sample_info 2 True)) = None"
    using manager_add_key [OF m, of "info_key (sample_info 2 True)"] by simp
  moreover have t: "slot (tokens m) 0 = Some (sample_info 1 True)" and k5: "id_map m (info_key (sample_info 5 True)) = None"
    using m manager_add_key [OF m, of "info_key (sample_info 5 True)"]
    by (auto simp: manager_add_def manager_new_def n slice_set_def Let_def slot_def)
  moreover have w: "sample_info 5 True = (sample_info 1 True)\<lparr>ext_bundle := (ext_bundle (sample_info 1 True))\<lparr>primary_token := sample_token 5\<rparr>\<rparr>"
    "(sample_info 1 True)\<lparr>status := \<lparr>enabled = False, health = token_health_new\<rparr>\<rparr> = sample_info 1 False"
    by (simp_all add: sample_info_def)
  ultimately show ?thesis
    using manager_invariant [OF reach, of "sample_info 2 True" UNNAMED 0 0 NormalPaid 0 "sample_info 1 True"
        "\<lambda>t. t\<lparr>status := \<lparr>enabled = False, health = token_health_new\<rparr>\<rparr>" "sample_info 5 True" "\<lambda>b. b\<lparr>primary_token := sample_token 5\<rparr>"] m
    by auto
qed

theorem manager_refines_table_witness:
  "(\<exists>m'. manager_add (sample_info 4 True) UNNAMED sample_manager = Some (Inr 3, m') \<and> manager_inv m'
      \<and> alias_table m' = (alias_table sample_manager)(generate_unnamed_alias 3 \<mapsto> sample_info 4 True))
   \<and> manager_add (sample_info 4 True) (bytes_of ''a'') sample_manager = Some (Inl AliasExists, sample_manager)
   \<and> (\<exists>heads' m'. manager_remove 0 QUEUE_HEADS_init sample_manager = Some (Some (sample_info 1 True), heads', m')
      \<and> alias_table m' = (alias_table sample_manager)(bytes_of ''a'' := None))
   \<and> manager_set_alias 0 (bytes_of ''a'') sample_manager = Some (Inl AliasExists, sample_manager)"
proof -
  have next3: "next_id sample_manager = 3" by (simp add: next_id_def sample_manager_eq)
  have a: "alias_table sample_manager (bytes_of ''a'') = Some (sample_info 1 True)"
    by (simp add: alias_table_def sample_manager_eq slot_def bytes_of_def generate_unnamed_alias_def UNNAMED_PATTERN_def)
  have u: "normalize_alias UNNAMED i = generate_unnamed_alias i" for i by (simp add: normalize_alias_def)
  have na: "normalize_alias (bytes_of ''a'') i = bytes_of ''a''" for i
    by (simp add: normalize_alias_def UNNAMED_def UNNAMED_PATTERN_def starts_with_def bytes_of_def)
  have ida: "slot (id_to_alias sample_manager) 0 = Some (bytes_of ''a'')"
    by (simp add: sample_manager_eq slot_def)
  have k: "id_map sample_manager (info_key (sample_info 4 True)) = None"
    by (simp add: sample_manager_eq)
  have x: "UNNAMED = bytes_of ''unnamed''" "bytes_of ''a'' \<noteq> bytes_of ''unnamed''" "bytes_of ''a'' \<noteq> bytes_of ''unnamed-''"
    "take 8 (bytes_of ''a'') = bytes_of ''a''"
    by (simp_all add: UNNAMED_def UNNAMED_PATTERN_def bytes_of_def)
  show ?thesis
    using manager_refines_table [OF sample_manager_inv, of UNNAMED "sample_info 4 True" 0 "bytes_of ''a''" QUEUE_HEADS_init]
      manager_refines_table [OF sample_manager_inv, of "bytes_of ''a''" "sample_info 4 True" 0 "bytes_of ''a''" QUEUE_HEADS_init]
      k a ida by (auto simp: u [unfolded x(1)] na next3 x generate_unnamed_alias_text)
qed

text \<open>C19: Selection is a fair round robin.  The tokens that are enabled and out of back-off, in the order
  of the queue from the head of the queue type, are served one after the other and then again from
  the first: the \<open>j\<close>-th of \<open>k\<close> selections returns the token at \<open>j mod length r\<close>, so each available
  token is served within \<open>length r\<close> selections, and \<^verbatim>\<open>None\<close> is returned only when none is available.\<close>

theorem select_round_robin:
  fixes now :: u64 and qt :: QueueType
  assumes "manager_inv m" "length heads = 4"
  defines "r \<equiv> ready now (tokens m) (q_vec (queue m)) (heads ! as_index qt)"
  shows "set r = {i. avail now (tokens m) i} \<and> distinct r
    \<and> (\<exists>heads'. select_run k now qt m heads =
        Some (if r = [] then replicate k None
              else map (\<lambda>j. Some (ext_clone (ext_bundle (the (slot (tokens m) (r ! (j mod length r))))))) [0..<k],
              heads'))"
proof (intro conjI)
  show "set r = {i. avail now (tokens m) i}"
    unfolding r_def by (rule ready_set [OF manager_inv_queue [OF assms(1)]])
  show "distinct r"
    using manager_inv_queue [OF assms(1)] by (simp add: r_def ready_def queue_inv_def)
qed (rule select_run_ready [OF assms(1,2) meta_eq_to_obj_eq [OF r_def, symmetric]])

theorem select_round_robin_witness:
  "\<exists>heads'. select_run 3 0 NormalPaid sample_manager [0, 0, 1, 0] =
     Some ([Some (ext_bundle (sample_info 3 True)), Some (ext_bundle (sample_info 1 True)),
            Some (ext_bundle (sample_info 3 True))], heads')"
proof -
  have r: "ready 0 (tokens sample_manager) (q_vec (queue sample_manager)) ([0, 0, 1, 0] ! as_index NormalPaid)
      = [2, 0]"
    by (simp add: as_index_def ready_def sample_manager_eq avail_def slot_def sample_info_def is_enabled_def
        is_available_def token_health_new_def rotate1_def)
  have t: "slot (tokens sample_manager) 2 = Some (sample_info 3 True)"
    "slot (tokens sample_manager) 0 = Some (sample_info 1 True)"
    by (simp_all add: sample_manager_eq slot_def)
  show ?thesis
    using select_round_robin [OF sample_manager_inv, of "[0, 0, 1, 0]" 0 NormalPaid 3]
    unfolding r by (simp add: t upt_rec ext_clone_def del: select_run.simps) (simp add: sample_info_def)
qed

text \<open>The keys have to be distinct.  Adding two tokens with one key is accepted; removing the first of
  them then takes the other one out of the queue, the queue keeps the emptied slot, and the next
  selection unwraps \<^verbatim>\<open>None\<close> without a check.\<close>

theorem duplicate_key_select_undefined:
  assumes "info_key s = info_key t" "normalize_alias a 0 = a" "normalize_alias b 1 = b" "a \<noteq> b"
  shows "\<exists>m heads m'. manager_add s a manager_new = Some (Inr 0, m)
    \<and> (\<exists>m''. manager_add t b m = Some (Inr 1, m'')
      \<and> manager_remove 0 QUEUE_HEADS_init m'' = Some (Some s, heads, m')
      \<and> manager_select now qt heads m' = None)"
  using assms
  by (cases qt)
     (simp_all add: manager_add_def manager_new_def token_queue_new_def queue_push_def slice_set_def Let_def
       manager_remove_def queue_remove_def slice_get_def QUEUE_HEADS_init_def manager_select_def
       queue_select_def as_index_def)

end
