(* ===== verification/Token_Store.thy ===== *)
theory Token_Store
  imports Token_Cache Token_Manager
begin

text \<open>
  Tokens between the manager, the token cache and the file: the archive records
  \<^verbatim>\<open>ExtTokenHelper\<close> and \<^verbatim>\<open>TokenInfoHelper\<close> of \<^verbatim>\<open>src/app/model.rs\<close> and \<^verbatim>\<open>save\<close> and \<^verbatim>\<open>load\<close> of
  \<^verbatim>\<open>src/app/model/state/token.rs\<close>.  The archive library (\<^verbatim>\<open>rkyv\<close>), the parser of time zones and
  the file system are parameters.

  Here a \<^verbatim>\<open>Token\<close> is a value and the cache a map from keys to such values; \<open>token_intern\<close> is
  \<^verbatim>\<open>Token::new\<close> on that view, and it is shown to be what the reference-counted implementation
  of \<^theory_text>\<open>Token_Cache\<close> computes.
\<close>

section \<open>Interning tokens\<close>

type_synonym token_view = "token_key \<rightharpoonup> token"

definition token_intern ::
  "(raw_token \<Rightarrow> bytes) \<Rightarrow> raw_token \<Rightarrow> bytes option \<Rightarrow> token_view \<Rightarrow> token \<times> token_view" where
  "token_intern to_string raw string c =
     (let fresh = \<lparr>tok_raw = raw, tok_str = (case string of Some s \<Rightarrow> s | None \<Rightarrow> to_string raw)\<rparr>
      in case c (raw_key raw) of
           Some t \<Rightarrow> if raw_token_eq (tok_raw t) raw then (t, c) else (fresh, c(raw_key raw \<mapsto> fresh))
         | None \<Rightarrow> (fresh, c(raw_key raw \<mapsto> fresh)))"

definition view_ok :: "token_view \<Rightarrow> bool" where
  "view_ok c \<longleftrightarrow> (\<forall>k t. c k = Some t \<longrightarrow> key_of_token t = k)"

text \<open>Equality of tokens as the program has it: the same key and the same signature.\<close>

definition token_equiv :: "token \<Rightarrow> token \<Rightarrow> bool" where
  "token_equiv s t \<longleftrightarrow> key_of_token s = key_of_token t \<and> raw_token_eq (tok_raw s) (tok_raw t)"

lemma token_intern_ok:
  assumes "view_ok c" "token_intern to_string raw string c = (t, c')"
  shows "view_ok c' \<and> key_of_token t = raw_key raw \<and> raw_token_eq (tok_raw t) raw"
  using assms
  by (auto simp: token_intern_def view_ok_def key_of_token_def raw_token_eq_def Let_def split: option.splits if_splits)

text \<open>Equal tokens need not have the same duration or kind, unless the tokens around are told apart by key and signature: then
  interning gives back the very token.  \<open>view_in R\<close> says that the cache only has tokens of \<open>R\<close>.\<close>

definition coherent :: "raw_token set \<Rightarrow> bool" where
  "coherent R \<longleftrightarrow> (\<forall>s \<in> R. \<forall>u \<in> R. raw_key s = raw_key u \<and> raw_signature s = raw_signature u \<longrightarrow> s = u)"

definition view_in :: "raw_token set \<Rightarrow> token_view \<Rightarrow> bool" where
  "view_in R c \<longleftrightarrow> (\<forall>k t. c k = Some t \<longrightarrow> tok_raw t \<in> R)"

lemma token_intern_same:
  assumes "view_ok c" "view_in R c" "raw \<in> R" "token_intern to_string raw string c = (t, c')"
  shows "view_in R c' \<and> (coherent R \<longrightarrow> tok_raw t = raw)"
  using assms
  by (fastforce simp: token_intern_def view_ok_def view_in_def coherent_def key_of_token_def raw_token_eq_def Let_def
      split: option.splits if_splits)

text \<open>The value a pointer stands for, and the map of values a cache stands for.\<close>

definition value_at :: "nat \<Rightarrow> token_cache \<Rightarrow> token option" where
  "value_at p st = map_option (\<lambda>i. \<lparr>tok_raw = inner_raw i, tok_str = inner_string i\<rparr>) (heap st p)"

definition cache_view :: "token_cache \<Rightarrow> token_view" where
  "cache_view st k = (case TOKEN_MAP st k of None \<Rightarrow> None | Some p \<Rightarrow> value_at p st)"

lemma cache_view_ok: "cache_inv m H st \<Longrightarrow> view_ok (cache_view st)"
  by (auto simp: view_ok_def cache_view_def value_at_def key_of_token_def split: option.splits
      dest: cache_inv_map)

lemma cache_view_fetch_add:
  assumes "heap st p = Some i" "fetch_add p st = Some st'"
  shows "cache_view st' = cache_view st" "value_at p st' = value_at p st"
proof -
  have st': "st' = st\<lparr>heap := (heap st)(p \<mapsto> i\<lparr>inner_count := inner_count i + 1\<rparr>)\<rparr>"
    using assms by (auto simp: fetch_add_def split: if_splits)
  have "value_at q st' = value_at q st" for q
    using assms(1) by (simp add: st' value_at_def)
  moreover have "TOKEN_MAP st' = TOKEN_MAP st" by (simp add: st')
  ultimately show "cache_view st' = cache_view st" "value_at p st' = value_at p st"
    by (auto simp: cache_view_def intro!: ext split: option.split)
qed

lemma cache_view_alloc:
  fixes raw :: raw_token and str :: bytes
  assumes "cache_inv m H st"
  defines "p \<equiv> next_ptr st"
  defines "st' \<equiv> \<lparr>heap = (heap st)(p \<mapsto> \<lparr>inner_raw = raw, inner_count = 1, inner_string = str\<rparr>),
      next_ptr = p + 1, TOKEN_MAP = (TOKEN_MAP st)(raw_key raw \<mapsto> p)\<rparr>"
  shows "cache_view st' = (cache_view st)(raw_key raw \<mapsto> \<lparr>tok_raw = raw, tok_str = str\<rparr>)"
proof
  fix k
  have new: "heap st p = None" unfolding p_def by (rule cache_inv_next [OF assms(1)]) simp
  have "TOKEN_MAP st k \<noteq> Some p" using cache_inv_map [OF assms(1), of k p] new by auto
  then show "cache_view st' k = ((cache_view st)(raw_key raw \<mapsto> \<lparr>tok_raw = raw, tok_str = str\<rparr>)) k"
    by (auto simp: cache_view_def value_at_def st'_def split: option.splits)
qed

section \<open>Archive records\<close>

record ext_token_helper =
  eh_primary_token :: raw_token_helper
  eh_secondary_token :: "raw_token_helper option"
  eh_checksum :: checksum
  eh_client_key :: Hash
  eh_config_version :: "uuid option"
  eh_session_id :: uuid
  eh_proxy :: "bytes option"
  eh_timezone :: "bytes option"
  eh_gcpp_host :: "GcppHost option"

definition ext_helper_new :: "bool \<Rightarrow> ext_token \<Rightarrow> ext_token_helper" where
  "ext_helper_new big t =
     \<lparr>eh_primary_token = raw_to_helper big (tok_raw (primary_token t)),
      eh_secondary_token = map_option (\<lambda>s. raw_to_helper big (tok_raw s)) (secondary_token t),
      eh_checksum = ext_checksum t, eh_client_key = client_key t, eh_config_version = config_version t,
      eh_session_id = session_id t, eh_proxy = proxy t, eh_timezone = timezone t,
      eh_gcpp_host = gcpp_host t\<rparr>"

text \<open>What reading an archive uses: the byte order, the configured providers, the token printer and
  the parser of time zones.\<close>

record extract_env =
  x_big :: bool
  x_providers :: "bytes list"
  x_to_string :: "raw_token \<Rightarrow> bytes"
  x_parse_tz :: "bytes \<Rightarrow> tz option"

definition extract_token ::
  "extract_env \<Rightarrow> raw_token_helper \<Rightarrow> token_view \<Rightarrow> (token \<times> token_view) ub" where
  "extract_token x h c = do {
     raw \<leftarrow> raw_extract (x_big x) (x_providers x) h;
     Some (token_intern (x_to_string x) raw None c)
   }"

definition extract_optional ::
  "('a \<Rightarrow> 's \<Rightarrow> ('b \<times> 's) ub) \<Rightarrow> 'a option \<Rightarrow> 's \<Rightarrow> ('b option \<times> 's) ub" where
  "extract_optional f o' s =
     (case o' of None \<Rightarrow> Some (None, s) | Some a \<Rightarrow> do { (b, s) \<leftarrow> f a s; Some (Some b, s) })"

definition ext_helper_extract ::
  "extract_env \<Rightarrow> ext_token_helper \<Rightarrow> token_view \<Rightarrow> (ext_token \<times> token_view) ub" where
  "ext_helper_extract x h c = do {
     (p, c) \<leftarrow> extract_token x (eh_primary_token h) c;
     (s, c) \<leftarrow> extract_optional (extract_token x) (eh_secondary_token h) c;
     (z, c) \<leftarrow> extract_optional (\<lambda>n c. do { z \<leftarrow> x_parse_tz x n; Some (z, c) }) (eh_timezone h) c;
     Some (\<lparr>primary_token = p, secondary_token = s, ext_checksum = eh_checksum h,
            client_key = eh_client_key h, config_version = eh_config_version h,
            session_id = eh_session_id h, proxy = eh_proxy h, timezone = z,
            gcpp_host = eh_gcpp_host h\<rparr>, c)
   }"

record 'p token_info_helper =
  ih_alias :: bytes
  ih_bundle :: ext_token_helper
  ih_status :: token_status
  ih_usage :: "'p option"
  ih_user :: "'p user_profile option"
  ih_stripe :: "'p option"
  ih_sessions :: "'p list"

definition info_helper_new :: "bool \<Rightarrow> 'p token_info \<Rightarrow> bytes \<Rightarrow> 'p token_info_helper" where
  "info_helper_new big t a =
     \<lparr>ih_alias = a, ih_bundle = ext_helper_new big (ext_bundle t), ih_status = status t,
      ih_usage = usage t, ih_user = user t, ih_stripe = stripe t, ih_sessions = sessions t\<rparr>"

definition info_helper_extract ::
  "extract_env \<Rightarrow> 'p token_info_helper \<Rightarrow> token_view \<Rightarrow> (('p token_info \<times> bytes) \<times> token_view) ub" where
  "info_helper_extract x h c = do {
     (b, c) \<leftarrow> ext_helper_extract x (ih_bundle h) c;
     Some ((\<lparr>ext_bundle = b, status = ih_status h, usage = ih_usage h, user = ih_user h,
             stripe = ih_stripe h, sessions = ih_sessions h\<rparr>, ih_alias h), c)
   }"

section \<open>Saving and loading\<close>

fun save_helpers :: "bool \<Rightarrow> nat \<Rightarrow> 'p token_info option list \<Rightarrow> bytes option list \<Rightarrow> 'p token_info_helper list ub" where
  "save_helpers big tid [] als = Some []"
| "save_helpers big tid (None # ts) als = save_helpers big (tid + 1) ts als"
| "save_helpers big tid (Some t # ts) als = do {
     slot \<leftarrow> slice_get als tid;
     a \<leftarrow> slot;
     hs \<leftarrow> save_helpers big (tid + 1) ts als;
     Some (info_helper_new big t a # hs)
   }"

datatype SaveError = ArchiveError | DataTooLarge | IoError

definition USIZE_MAX :: nat where
  "USIZE_MAX = 2 ^ 64 - 1"

text \<open>\<open>write_file\<close> opens, truncates, maps, copies and flushes; its result says whether all of it
  succeeded, and \<open>'w\<close> is the state of the file system.\<close>

definition manager_save ::
  "bool \<Rightarrow> ('p token_info_helper list \<Rightarrow> bytes option) \<Rightarrow> (bytes \<Rightarrow> 'w \<Rightarrow> bool \<times> 'w)
   \<Rightarrow> 'p token_manager \<Rightarrow> 'w \<Rightarrow> ((SaveError + unit) \<times> 'w) ub" where
  "manager_save big to_bytes write_file m w = do {
     helpers \<leftarrow> save_helpers big 0 (tokens m) (id_to_alias m);
     Some (case to_bytes helpers of
             None \<Rightarrow> (Inl ArchiveError, w)
           | Some bs \<Rightarrow>
               if length bs > USIZE_MAX div 2 then (Inl DataTooLarge, w)
               else let (ok, w) = write_file bs w in (if ok then Inr () else Inl IoError, w))
   }"

datatype file_read = NotFound | ReadFailed | Contents bytes

datatype LoadError = LoadIoError | FileTooLarge | LoadArchiveError | LoadTokenError TokenManagerError

fun load_loop ::
  "extract_env \<Rightarrow> 'p token_info_helper list \<Rightarrow> 'p token_manager \<Rightarrow> token_view
   \<Rightarrow> ((LoadError + 'p token_manager) \<times> token_view) ub" where
  "load_loop x [] m c = Some (Inr m, c)"
| "load_loop x (h # hs) m c = do {
     ((t, a), c) \<leftarrow> info_helper_extract x h c;
     (r, m) \<leftarrow> manager_add t a m;
     (case r of
        Inl e \<Rightarrow> Some (Inl (LoadTokenError e), c)
      | Inr _ \<Rightarrow> load_loop x hs m c)
   }"

definition manager_load ::
  "extract_env \<Rightarrow> (bytes \<Rightarrow> 'p token_info_helper list option) \<Rightarrow> file_read \<Rightarrow> token_view
   \<Rightarrow> ((LoadError + 'p token_manager) \<times> token_view) ub" where
  "manager_load x from_bytes file c =
     (case file of
        NotFound \<Rightarrow> Some (Inr manager_new, c)
      | ReadFailed \<Rightarrow> Some (Inl LoadIoError, c)
      | Contents bs \<Rightarrow>
          if length bs > USIZE_MAX then Some (Inl FileTooLarge, c)
          else (case from_bytes bs of
                  None \<Rightarrow> Some (Inl LoadArchiveError, c)
                | Some helpers \<Rightarrow> load_loop x helpers manager_new c))"


section \<open>Loading what was saved\<close>

definition ext_equiv :: "ext_token \<Rightarrow> ext_token \<Rightarrow> bool" where
  "ext_equiv s t \<longleftrightarrow>
     token_equiv (primary_token s) (primary_token t)
     \<and> rel_option token_equiv (secondary_token s) (secondary_token t)
     \<and> s = t\<lparr>primary_token := primary_token s, secondary_token := secondary_token s\<rparr>"

definition info_equiv :: "'p token_info \<Rightarrow> 'p token_info \<Rightarrow> bool" where
  "info_equiv s t \<longleftrightarrow> ext_equiv (ext_bundle s) (ext_bundle t) \<and> s = t\<lparr>ext_bundle := ext_bundle s\<rparr>"

text \<open>The tokens themselves, with duration and kind.\<close>

definition bundle_raws :: "ext_token \<Rightarrow> raw_token \<times> raw_token option" where
  "bundle_raws b = (tok_raw (primary_token b), map_option tok_raw (secondary_token b))"

definition raws_of :: "ext_token \<Rightarrow> raw_token set" where
  "raws_of b = insert (tok_raw (primary_token b)) (set_option (map_option tok_raw (secondary_token b)))"

lemma info_equiv_key: "info_equiv s t \<Longrightarrow> info_key s = info_key t"
  by (simp add: info_equiv_def ext_equiv_def token_equiv_def info_key_def)

text \<open>What the environment has to provide for the tokens of a manager: their providers are configured
  and their time zones can be parsed.\<close>

definition loadable :: "extract_env \<Rightarrow> 'p token_info \<Rightarrow> bool" where
  "loadable x t \<longleftrightarrow>
     (\<forall>s \<in> insert (primary_token (ext_bundle t)) (set_option (secondary_token (ext_bundle t))).
        provider_name (provider (raw_subject (tok_raw s))) \<in> set (x_providers x))
     \<and> (\<forall>z \<in> set_option (timezone (ext_bundle t)). x_parse_tz x z = Some z)"

lemma raw_extract_to_helper:
  "provider_name (provider (raw_subject t)) \<in> set ps \<Longrightarrow> raw_extract big ps (raw_to_helper big t) = Some t"
  by (simp add: raw_extract_def raw_to_helper_def subject_helper_codec)

lemma extract_token_ok:
  assumes "provider_name (provider (raw_subject (tok_raw s))) \<in> set (x_providers x)" "view_ok c" "view_in R c" "tok_raw s \<in> R"
  shows "\<exists>t c'. extract_token x (raw_to_helper (x_big x) (tok_raw s)) c = Some (t, c')
    \<and> view_ok c' \<and> token_equiv t s \<and> view_in R c' \<and> (coherent R \<longrightarrow> tok_raw t = tok_raw s)"
proof -
  obtain t c' where i: "token_intern (x_to_string x) (tok_raw s) None c = (t, c')" by fastforce
  with token_intern_ok [OF assms(2) i] token_intern_same [OF assms(2-4) i] show ?thesis
    using assms(1)
    by (auto simp: extract_token_def raw_extract_to_helper token_equiv_def key_of_token_def)
qed

lemma ext_helper_extract_ok:
  assumes ps: "\<And>s. s = primary_token t \<or> secondary_token t = Some s \<Longrightarrow>
      provider_name (provider (raw_subject (tok_raw s))) \<in> set (x_providers x)"
    and tz: "\<And>z. timezone t = Some z \<Longrightarrow> x_parse_tz x z = Some z" and "view_ok c"
    and R: "view_in R c" "raws_of t \<subseteq> R"
  shows "\<exists>t' c'. ext_helper_extract x (ext_helper_new (x_big x) t) c = Some (t', c') \<and> view_ok c' \<and> ext_equiv t' t
    \<and> view_in R c' \<and> (coherent R \<longrightarrow> bundle_raws t' = bundle_raws t)"
proof -
  obtain p c1 where p: "extract_token x (raw_to_helper (x_big x) (tok_raw (primary_token t))) c = Some (p, c1)"
    "view_ok c1" "token_equiv p (primary_token t)" "view_in R c1" "coherent R \<longrightarrow> tok_raw p = tok_raw (primary_token t)"
    using extract_token_ok [OF ps assms(3) R(1), of "primary_token t"] R(2) by (auto simp: raws_of_def)
  obtain s c2 where s: "extract_optional (extract_token x)
      (map_option (\<lambda>s. raw_to_helper (x_big x) (tok_raw s)) (secondary_token t)) c1 = Some (s, c2)"
    "view_ok c2" "rel_option token_equiv s (secondary_token t)" "view_in R c2"
    "coherent R \<longrightarrow> map_option tok_raw s = map_option tok_raw (secondary_token t)"
  proof (cases "secondary_token t")
    case None
    then show ?thesis using that [of None c1] p(2,4) by (simp add: extract_optional_def)
  next
    case (Some u)
    then have "tok_raw u \<in> R" using R(2) by (simp add: raws_of_def)
    from extract_token_ok [OF ps p(2,4) this] Some obtain u' c2 where
      "extract_token x (raw_to_helper (x_big x) (tok_raw u)) c1 = Some (u', c2)" "view_ok c2" "token_equiv u' u"
      "view_in R c2" "coherent R \<longrightarrow> tok_raw u' = tok_raw u"
      by blast
    then show ?thesis using that [of "Some u'" c2] Some by (simp add: extract_optional_def)
  qed
  have z: "extract_optional (\<lambda>n c. do { z \<leftarrow> x_parse_tz x n; Some (z, c) }) (timezone t) c2 = Some (timezone t, c2)"
    using tz by (cases "timezone t") (simp_all add: extract_optional_def)
  show ?thesis
    using p s z by (simp add: ext_helper_extract_def ext_helper_new_def ext_equiv_def bundle_raws_def)
qed

lemma info_helper_extract_ok:
  assumes "loadable x t" "view_ok c" "view_in R c" "raws_of (ext_bundle t) \<subseteq> R"
  shows "\<exists>t' c'. info_helper_extract x (info_helper_new (x_big x) t a) c = Some ((t', a), c') \<and> view_ok c'
    \<and> info_equiv t' t \<and> view_in R c' \<and> (coherent R \<longrightarrow> bundle_raws (ext_bundle t') = bundle_raws (ext_bundle t))"
proof -
  obtain b c' where "ext_helper_extract x (ext_helper_new (x_big x) (ext_bundle t)) c = Some (b, c')"
    "view_ok c'" "ext_equiv b (ext_bundle t)" "view_in R c'" "coherent R \<longrightarrow> bundle_raws b = bundle_raws (ext_bundle t)"
    using ext_helper_extract_ok [of "ext_bundle t" x c R] assms by (auto simp: loadable_def)
  then show ?thesis
    by (simp add: info_helper_extract_def info_helper_new_def info_equiv_def)
qed

text \<open>Without free slots a token goes to the end of the vectors.\<close>

lemma manager_add_append:
  assumes "manager_inv m" "free_ids m = []" "id_map m (info_key t) = None"
    and "alias_map m (normalize_alias a (length (tokens m))) = None"
  shows "\<exists>m'. manager_add t a m = Some (Inr (length (tokens m)), m') \<and> manager_inv m' \<and> free_ids m' = []
    \<and> tokens m' = tokens m @ [Some t]
    \<and> id_to_alias m' = id_to_alias m @ [Some (normalize_alias a (length (tokens m)))]
    \<and> id_map m' = (id_map m)(info_key t \<mapsto> length (tokens m))
    \<and> alias_map m' = (alias_map m)(normalize_alias a (length (tokens m)) \<mapsto> length (tokens m))"
proof -
  have len: "length (id_to_alias m) = length (tokens m)" by (rule manager_inv_lookup(4) [OF assms(1)])
  obtain r m' where m': "manager_add t a m = Some (r, m')" "manager_inv m'"
    using manager_add_inv [OF assms(1,3)] by blast
  with assms len show ?thesis
    by (auto simp: manager_add_def Let_def slice_set_def list_update_append)
qed

definition named :: "bytes \<Rightarrow> bool" where
  "named a \<longleftrightarrow> a \<noteq> UNNAMED \<and> \<not> starts_with a UNNAMED_PATTERN"

lemma normalize_named: "normalize_alias a i = (if named a then a else generate_unnamed_alias i)"
  by (simp add: normalize_alias_def named_def)

lemma generated_not_named: "\<not> named (generate_unnamed_alias i)"
  by (simp add: named_def starts_with_generated)

lemma load_loop_ok:
  assumes "manager_inv m" "free_ids m = []" "view_ok c"
    and "distinct (map fst es)" "distinct (map (info_key \<circ> snd) es)" "view_in R c"
    and "\<forall>(a, t) \<in> set es. raws_of (ext_bundle t) \<subseteq> R \<and> loadable x t \<and> id_map m (info_key t) = None \<and> (named a \<longrightarrow> alias_map m a = None)"
  shows "\<exists>m' c' ts. load_loop x (map (\<lambda>(a, t). info_helper_new (x_big x) t a) es) m c = Some (Inr m', c')
    \<and> manager_inv m' \<and> free_ids m' = [] \<and> list_all2 info_equiv ts (map snd es)
    \<and> (coherent R \<longrightarrow> map (bundle_raws \<circ> ext_bundle) ts = map (bundle_raws \<circ> ext_bundle \<circ> snd) es)
    \<and> tokens m' = tokens m @ map Some ts
    \<and> id_to_alias m' = id_to_alias m
        @ map (\<lambda>i. Some (normalize_alias (fst (es ! i)) (length (tokens m) + i))) [0..<length es]"
  using assms
proof (induction es arbitrary: m c)
  case (Cons e es)
  obtain a t where e: "e = (a, t)" by fastforce
  let ?n = "length (tokens m)"
  let ?a = "normalize_alias a ?n"
  obtain t' c1 where x: "info_helper_extract x (info_helper_new (x_big x) t a) c = Some ((t', a), c1)"
    "view_ok c1" "info_equiv t' t" "view_in R c1" "coherent R \<longrightarrow> bundle_raws (ext_bundle t') = bundle_raws (ext_bundle t)"
    using info_helper_extract_ok [of x t c R a] Cons.prems(3,6,7) e by auto
  have free: "slot (tokens m) ?n = None" by (simp add: slot_def)
  have al: "alias_map m ?a = None"
    using Cons.prems(7) e unnamed_alias_free [OF Cons.prems(1) free] by (auto simp: normalize_named)
  have key: "info_key t' = info_key t" by (rule info_equiv_key [OF x(3)])
  then obtain m1 where m1: "manager_add t' a m = Some (Inr ?n, m1)" "manager_inv m1" "free_ids m1 = []"
    "tokens m1 = tokens m @ [Some t']" "id_to_alias m1 = id_to_alias m @ [Some ?a]"
    "id_map m1 = (id_map m)(info_key t \<mapsto> ?n)" "alias_map m1 = (alias_map m)(?a \<mapsto> ?n)"
    using manager_add_append [OF Cons.prems(1,2), of t' a] Cons.prems(7) al e by auto
  have rest: "\<forall>(b, u) \<in> set es. raws_of (ext_bundle u) \<subseteq> R \<and> loadable x u \<and> id_map m1 (info_key u) = None \<and> (named b \<longrightarrow> alias_map m1 b = None)"
  proof clarify
    fix b u assume bu: "(b, u) \<in> set es"
    then have "b \<noteq> a" "info_key u \<noteq> info_key t"
      using Cons.prems(4,5) e by (force simp: image_iff)+
    moreover have "named b \<longrightarrow> b \<noteq> ?a"
      using \<open>b \<noteq> a\<close> generated_not_named by (auto simp: normalize_named)
    ultimately show "raws_of (ext_bundle u) \<subseteq> R \<and> loadable x u \<and> id_map m1 (info_key u) = None \<and> (named b \<longrightarrow> alias_map m1 b = None)"
      using Cons.prems(7) bu by (auto simp: m1(6,7))
  qed
  have d: "distinct (map fst es)" "distinct (map (info_key \<circ> snd) es)" using Cons.prems(4,5) by (simp_all add: comp_def)
  from Cons.IH [OF m1(2,3) x(2) d x(4) rest] obtain m' c' ts where m': "load_loop x (map (\<lambda>(a, t). info_helper_new (x_big x) t a) es) m1 c1 = Some (Inr m', c')"
    "manager_inv m'" "free_ids m' = []" "list_all2 info_equiv ts (map snd es)"
    "coherent R \<longrightarrow> map (bundle_raws \<circ> ext_bundle) ts = map (bundle_raws \<circ> ext_bundle \<circ> snd) es"
    "tokens m' = tokens m1 @ map Some ts"
    "id_to_alias m' = id_to_alias m1
        @ map (\<lambda>i. Some (normalize_alias (fst (es ! i)) (length (tokens m1) + i))) [0..<length es]"
    by blast
  have "map (\<lambda>i. Some (normalize_alias (fst ((e # es) ! i)) (?n + i))) [0..<length (e # es)]
      = Some ?a # map (\<lambda>i. Some (normalize_alias (fst (es ! i)) (length (tokens m1) + i))) [0..<length es]"
    by (simp add: upt_conv_Cons map_Suc_upt [symmetric] m1(4) e del: upt_Suc)
  with m' m1(4,5) x m1(1) show ?case
    by (intro exI [of _ m'] exI [of _ c'] exI [of _ "t' # ts"]) (simp add: e comp_def)
qed simp


text \<open>The live slots in order, and the entries \<^verbatim>\<open>save\<close> writes.\<close>

definition live :: "nat \<Rightarrow> 'a option list \<Rightarrow> (nat \<times> 'a) list" where
  "live n ts = concat (map (\<lambda>(i, t). case t of None \<Rightarrow> [] | Some t \<Rightarrow> [(i, t)]) (List.enumerate n ts))"

definition entries :: "'p token_manager \<Rightarrow> (bytes \<times> 'p token_info) list" where
  "entries m = map (\<lambda>(i, t). (the (slot (id_to_alias m) i), t)) (live 0 (tokens m))"

lemma live_simps [simp]:
  "live n [] = []" "live n (None # ts) = live (Suc n) ts" "live n (Some t # ts) = (n, t) # live (Suc n) ts"
  by (simp_all add: live_def)

lemma live_iff: "(i, t) \<in> set (live n ts) \<longleftrightarrow> n \<le> i \<and> slot ts (i - n) = Some t"
proof (induction ts arbitrary: n)
  case (Cons u ts)
  show ?case
  proof (cases "n < i")
    case True
    then obtain k where "i = Suc (n + k)" using less_imp_Suc_add by blast
    with Cons [of "Suc n"] show ?thesis by (cases u) (auto simp: slot_def)
  next
    case False
    with Cons [of "Suc n"] show ?thesis by (cases u) (auto simp: slot_def)
  qed
qed (simp add: slot_def)

lemma live_sorted: "distinct (map fst (live n ts))"
proof (induction ts arbitrary: n)
  case (Cons u ts)
  then show ?case by (cases u) (auto simp: live_iff)
qed simp

lemma distinct_map_by_index:
  assumes "distinct (map fst xs)" "\<And>i t j u. (i, t) \<in> set xs \<Longrightarrow> (j, u) \<in> set xs \<Longrightarrow> f (i, t) = f (j, u) \<Longrightarrow> i = j"
  shows "distinct (map f xs)"
  using assms
proof (induction xs)
  case (Cons x xs)
  obtain i t where x: "x = (i, t)" by fastforce
  have "f x \<notin> f ` set xs"
  proof
    assume "f x \<in> f ` set xs"
    then obtain j u where "(j, u) \<in> set xs" "f (i, t) = f (j, u)" unfolding x by (metis imageE prod.exhaust)
    with Cons.prems(2) [of i t j u] x have "i = j" by simp
    with Cons.prems(1) \<open>(j, u) \<in> set xs\<close> show False unfolding x by (auto simp: rev_image_eqI)
  qed
  moreover have "distinct (map f xs)"
    using Cons.prems by (intro Cons.IH) auto
  ultimately show ?case by simp
qed simp

lemma live_alias:
  assumes "manager_inv m" "(i, t) \<in> set (live 0 (tokens m))"
  shows "\<exists>a. slot (id_to_alias m) i = Some a"
  using assms(2) manager_inv_lookup(3) [OF assms(1), of i]
  by (cases "slot (id_to_alias m) i") (simp_all add: live_iff)

lemma entries_distinct:
  assumes "manager_inv m"
  shows "distinct (map fst (entries m))" "distinct (map (info_key \<circ> snd) (entries m))"
proof -
  have "distinct (map (\<lambda>(i, t). the (slot (id_to_alias m) i)) (live 0 (tokens m)))"
  proof (rule distinct_map_by_index [OF live_sorted])
    fix i t j u
    assume ij: "(i, t) \<in> set (live 0 (tokens m))" "(j, u) \<in> set (live 0 (tokens m))"
      and eq: "(case (i, t) of (i, t) \<Rightarrow> the (slot (id_to_alias m) i))
        = (case (j, u) of (i, t) \<Rightarrow> the (slot (id_to_alias m) i))"
    obtain a b where "slot (id_to_alias m) i = Some a" "slot (id_to_alias m) j = Some b"
      using live_alias [OF assms ij(1)] live_alias [OF assms ij(2)] by blast
    with eq inverse_index_inj [OF manager_inv_indices(2) [OF assms], of i a j] show "i = j" by simp
  qed
  then show "distinct (map fst (entries m))" by (simp add: entries_def comp_def case_prod_unfold)
  have "distinct (map (\<lambda>(i, t). info_key t) (live 0 (tokens m)))"
  proof (rule distinct_map_by_index [OF live_sorted])
    fix i t j u
    assume "(i, t) \<in> set (live 0 (tokens m))" "(j, u) \<in> set (live 0 (tokens m))"
      and "(case (i, t) of (i, t) \<Rightarrow> info_key t) = (case (j, u) of (i, t) \<Rightarrow> info_key t)"
    then show "i = j"
      using inverse_index_inj [OF manager_inv_indices(1) [OF assms], of i "info_key t" j]
      by (simp add: live_iff key_at_def)
  qed
  then show "distinct (map (info_key \<circ> snd) (entries m))"
    by (simp add: entries_def comp_def case_prod_unfold)
qed

lemma save_helpers_eq:
  assumes "\<And>i t. (i, t) \<in> set (live n ts) \<Longrightarrow> \<exists>a. slot als i = Some a"
  shows "save_helpers big n ts als
    = Some (map (\<lambda>(i, t). info_helper_new big t (the (slot als i))) (live n ts))"
  using assms
proof (induction ts arbitrary: n)
  case (Cons u ts)
  show ?case
  proof (cases u)
    case None
    with Cons.IH [of "Suc n"] Cons.prems show ?thesis by simp
  next
    case (Some t)
    then obtain a where a: "slot als n = Some a" using Cons.prems [of n t] by auto
    then have "slice_get als n = Some (Some a)" by (auto simp: slot_def slice_get_def split: if_splits)
    moreover have "save_helpers big (Suc n) ts als
        = Some (map (\<lambda>(i, t). info_helper_new big t (the (slot als i))) (live (Suc n) ts))"
    proof (rule Cons.IH)
      fix i v assume "(i, v) \<in> set (live (Suc n) ts)"
      then show "\<exists>a. slot als i = Some a" using Cons.prems [of i v] Some by simp
    qed
    ultimately show ?thesis using a Some by simp
  qed
qed simp

lemma manager_save_helpers:
  assumes "manager_inv m"
  shows "save_helpers big 0 (tokens m) (id_to_alias m) = Some (map (\<lambda>(a, t). info_helper_new big t a) (entries m))"
  using save_helpers_eq [OF live_alias [OF assms], where big = big]
  by (simp add: entries_def case_prod_unfold comp_def)

section \<open>Properties\<close>

text \<open>The reference-counted cache implements interning.  In a cache whose invariant holds, creating a
  token is defined, the token returned is the one \<open>token_intern\<close> returns on the cache seen as a map of
  values, and the map changes the way \<open>token_intern\<close> changes it.\<close>

theorem token_new_refines_intern:
  assumes "cache_inv max_len H st" "size H \<le> ISIZE_MAX"
    and "length (case string of Some s \<Rightarrow> s | None \<Rightarrow> to_string raw) \<le> max_len"
  shows "\<exists>p st'. token_new to_string max_len raw string st = Some (p, st') \<and> cache_inv max_len (add_mset p H) st'
    \<and> value_at p st' = Some (fst (token_intern to_string raw string (cache_view st)))
    \<and> cache_view st' = snd (token_intern to_string raw string (cache_view st))"
proof -
  obtain p st' where n: "token_new to_string max_len raw string st = Some (p, st')"
    "cache_inv max_len (add_mset p H) st'"
    using token_new_inv [OF assms(1,2), where string = string and to_string = to_string and raw = raw] assms(3) by blast
  let ?str = "case string of Some s \<Rightarrow> s | None \<Rightarrow> to_string raw"
  show ?thesis
  proof (cases "lookup_and_add raw st")
    case None
    with n show ?thesis by (simp add: token_new_def)
  next
    case hit: (Some r)
    show ?thesis
    proof (cases r)
      case None
      with hit n(1) have p: "p = next_ptr st"
        and st': "st' = \<lparr>heap = (heap st)(p \<mapsto> \<lparr>inner_raw = raw, inner_count = 1, inner_string = ?str\<rparr>),
          next_ptr = p + 1, TOKEN_MAP = (TOKEN_MAP st)(raw_key raw \<mapsto> p)\<rparr>"
        using assms(3) by (auto simp: token_new_def token_new_slow_def layout_for_string_def Let_def)
      have "token_intern to_string raw string (cache_view st)
          = (\<lparr>tok_raw = raw, tok_str = ?str\<rparr>, (cache_view st)(raw_key raw \<mapsto> \<lparr>tok_raw = raw, tok_str = ?str\<rparr>))"
        using hit None cache_inv_map [OF assms(1)]
        by (auto simp: token_intern_def lookup_and_add_def cache_view_def value_at_def Let_def
            split: option.splits if_splits bind_splits)
      moreover have "cache_view st' = (cache_view st)(raw_key raw \<mapsto> \<lparr>tok_raw = raw, tok_str = ?str\<rparr>)"
        unfolding st' p by (rule cache_view_alloc [OF assms(1)])
      moreover have "value_at p st' = Some \<lparr>tok_raw = raw, tok_str = ?str\<rparr>" by (simp add: st' value_at_def)
      ultimately show ?thesis using n by auto
    next
      case (Some q)
      with hit n(1) have h: "lookup_and_add raw st = Some (Some (p, st'))"
        by (simp add: token_new_def)
      then obtain i where i: "TOKEN_MAP st (raw_key raw) = Some p" "heap st p = Some i"
        "raw_token_eq (inner_raw i) raw" "fetch_add p st = Some st'"
        by (auto simp: lookup_and_add_def split: option.splits if_splits bind_splits)
      then have "token_intern to_string raw string (cache_view st) = (the (value_at p st), cache_view st)"
        by (simp add: token_intern_def cache_view_def value_at_def)
      with i cache_view_fetch_add [OF i(2,4)] n show ?thesis by (auto simp: value_at_def)
    qed
  qed
qed


theorem token_new_refines_intern_witness:
  "\<exists>p st'. token_new (\<lambda>_. []) 8 example_raw None token_cache_init = Some (p, st')
    \<and> value_at p st' = Some \<lparr>tok_raw = example_raw, tok_str = []\<rparr>
    \<and> cache_view st' = [raw_key example_raw \<mapsto> \<lparr>tok_raw = example_raw, tok_str = []\<rparr>]"
proof -
  have "cache_view token_cache_init = Map.empty"
    by (simp add: cache_view_def [abs_def] token_cache_init_def)
  then have i: "token_intern (\<lambda>_. []) example_raw None (cache_view token_cache_init)
      = (\<lparr>tok_raw = example_raw, tok_str = []\<rparr>, [raw_key example_raw \<mapsto> \<lparr>tok_raw = example_raw, tok_str = []\<rparr>])"
    by (simp add: token_intern_def Let_def)
  show ?thesis
    using token_new_refines_intern [OF cache_inv_init [of 8], where string = None and to_string = "\<lambda>_. []" and raw = example_raw]
    by (auto simp: i)
qed

text \<open>C24: Saving and loading loses nothing.  Saving a manager whose invariant holds is defined whatever
  the archive library and the disk do.  When it reports success and the environment can read back what
  it wrote, loading succeeds: no alias is refused, the tokens come back in slot order in slots without gaps, with
  everything that was stored beside them and equal in the sense of the program, which looks at key and signature; they
  are the very same, with their durations and kinds, when no two different ones among the saved and the cached ones have
  both in common.  Named aliases are unchanged, automatic aliases are renumbered, and the invariant holds.\<close>

theorem save_load_roundtrip:
  assumes "manager_inv m"
    and archive: "\<And>hs bs. to_bytes hs = Some bs \<Longrightarrow> from_bytes bs = Some hs"
    and disk: "\<And>bs w w'. write_file bs w = (True, w') \<Longrightarrow> read_file w' = Contents bs"
    and env: "\<forall>(a, t) \<in> set (entries m). loadable x t" and "view_ok c"
  shows "\<exists>r w'. manager_save (x_big x) to_bytes write_file m w = Some (r, w')
    \<and> (r = Inr () \<longrightarrow> (\<exists>m' c' ts. manager_load x from_bytes (read_file w') c = Some (Inr m', c')
        \<and> manager_inv m' \<and> free_ids m' = [] \<and> list_all2 info_equiv ts (map snd (entries m))
        \<and> (coherent ((\<Union>(a, t) \<in> set (entries m). raws_of (ext_bundle t)) \<union> tok_raw ` ran c) \<longrightarrow>
             map (bundle_raws \<circ> ext_bundle) ts = map (bundle_raws \<circ> ext_bundle \<circ> snd) (entries m))
        \<and> tokens m' = map Some ts
        \<and> id_to_alias m' = map (\<lambda>i. Some (normalize_alias (fst (entries m ! i)) i)) [0..<length (entries m)]))"
proof -
  let ?R = "(\<Union>(a, t) \<in> set (entries m). raws_of (ext_bundle t)) \<union> tok_raw ` ran c"
  let ?hs = "map (\<lambda>(a, t). info_helper_new (x_big x) t a) (entries m)"
  have "\<exists>rw. manager_save (x_big x) to_bytes write_file m w = Some rw"
    by (simp add: manager_save_def manager_save_helpers [OF assms(1)])
  then obtain r w' where save: "manager_save (x_big x) to_bytes write_file m w = Some (r, w')" by fastforce
  have "\<exists>bs. from_bytes bs = Some ?hs \<and> read_file w' = Contents bs \<and> length bs \<le> USIZE_MAX" if "r = Inr ()"
  proof -
    have "\<exists>bs. to_bytes ?hs = Some bs \<and> length bs \<le> USIZE_MAX div 2 \<and> write_file bs w = (True, w')"
      using save that
      by (auto simp: manager_save_def manager_save_helpers [OF assms(1)] Let_def split: option.splits if_splits prod.splits)
    then obtain bs where bs: "to_bytes ?hs = Some bs" "length bs \<le> USIZE_MAX div 2" "write_file bs w = (True, w')"
      by blast
    moreover have "length bs \<le> USIZE_MAX" using bs(2) by linarith
    ultimately show ?thesis using archive [OF bs(1)] disk [OF bs(3)] by blast
  qed
  moreover have "\<exists>m' c' ts. load_loop x ?hs manager_new c = Some (Inr m', c')
      \<and> manager_inv m' \<and> free_ids m' = [] \<and> list_all2 info_equiv ts (map snd (entries m))
      \<and> (coherent ?R \<longrightarrow> map (bundle_raws \<circ> ext_bundle) ts = map (bundle_raws \<circ> ext_bundle \<circ> snd) (entries m))
      \<and> tokens m' = map Some ts
      \<and> id_to_alias m' = map (\<lambda>i. Some (normalize_alias (fst (entries m ! i)) i)) [0..<length (entries m)]"
    using load_loop_ok [OF manager_new_inv _ assms(5) entries_distinct [OF assms(1)], of ?R x] env
    by (force simp: manager_new_def case_prod_unfold view_in_def ran_def)
  ultimately show ?thesis
    using save by (force simp: manager_load_def)
qed

theorem save_load_roundtrip_witness:
  "\<exists>x to_bytes from_bytes (m' :: unit token_manager) c' ts.
     manager_save (x_big x) to_bytes (\<lambda>bs w. (True, Contents bs)) sample_manager NotFound = Some (Inr (), Contents [1])
     \<and> manager_load x from_bytes (Contents [1]) Map.empty = Some (Inr m', c') \<and> manager_inv m'
     \<and> tokens m' = map Some ts \<and> map (tok_raw \<circ> primary_token \<circ> ext_bundle) ts = map (tok_raw \<circ> sample_token) [1, 2, 3]
     \<and> id_to_alias m' = [Some (bytes_of ''a''), Some (generate_unnamed_alias 1), Some (bytes_of ''c'')]"
proof -
  let ?x = "\<lparr>x_big = False, x_providers = DEFAULT_PROVIDERS, x_to_string = \<lambda>_. [], x_parse_tz = \<lambda>z. Some z\<rparr>"
  let ?hs = "map (\<lambda>(a, t). info_helper_new False t a) (entries sample_manager)"
  let ?to = "\<lambda>hs. if hs = ?hs then Some [1::u8] else None"
  let ?from = "\<lambda>bs. if bs = [1::u8] then Some ?hs else None"
  have es: "entries sample_manager =
      [(bytes_of ''a'', sample_info 1 True), (generate_unnamed_alias 1, sample_info 2 False), (bytes_of ''c'', sample_info 3 True)]"
    by (simp add: entries_def sample_manager_eq slot_def)
  have ok: "loadable ?x (sample_info k b)" for k b
    by (simp add: loadable_def sample_info_def sample_token_def DEFAULT_PROVIDERS_def)
  have save: "manager_save (x_big ?x) ?to (\<lambda>bs w. (True, Contents bs)) sample_manager NotFound = Some (Inr (), Contents [1])"
    by (simp add: manager_save_def manager_save_helpers [OF sample_manager_inv] USIZE_MAX_def)
  have n: "normalize_alias (bytes_of ''a'') i = bytes_of ''a''" "normalize_alias (bytes_of ''c'') i = bytes_of ''c''" for i
    by (simp_all add: normalize_alias_def UNNAMED_def UNNAMED_PATTERN_def starts_with_def bytes_of_def)
  have coh: "coherent ((\<Union>(a, t) \<in> set (entries sample_manager). raws_of (ext_bundle t)) \<union> tok_raw ` ran (Map.empty :: token_view))"
    by (simp add: es coherent_def raws_of_def raw_key_def) (simp add: sample_info_def sample_token_def)
  let ?raws = "\<lambda>ts. map (bundle_raws \<circ> ext_bundle) ts = map (bundle_raws \<circ> ext_bundle \<circ> snd) (entries sample_manager)"
  let ?als = "map (\<lambda>i. Some (normalize_alias (fst (entries sample_manager ! i)) i)) [0..<length (entries sample_manager)]"
  have "\<exists>r w'. manager_save (x_big ?x) ?to (\<lambda>bs w. (True, Contents bs)) sample_manager NotFound = Some (r, w')
      \<and> (r = Inr () \<longrightarrow> (\<exists>m' c' ts. manager_load ?x ?from w' Map.empty = Some (Inr m', c') \<and> manager_inv m'
        \<and> free_ids m' = [] \<and> list_all2 info_equiv ts (map snd (entries sample_manager))
        \<and> (coherent ((\<Union>(a, t) \<in> set (entries sample_manager). raws_of (ext_bundle t)) \<union> tok_raw ` ran (Map.empty :: token_view)) \<longrightarrow>
             ?raws ts)
        \<and> tokens m' = map Some ts \<and> id_to_alias m' = ?als))"
    by (rule save_load_roundtrip [OF sample_manager_inv, where read_file = "\<lambda>w. w"])
       (auto simp: es ok view_ok_def split: if_splits)
  then have "\<exists>m' c' ts. manager_load ?x ?from (Contents [1]) Map.empty = Some (Inr m', c') \<and> manager_inv m' \<and> ?raws ts
      \<and> tokens m' = map Some ts \<and> id_to_alias m' = ?als"
    unfolding save option.inject prod.inject using coh by blast
  then obtain m' c' ts where m: "manager_load ?x ?from (Contents [1]) Map.empty = Some (Inr m', c')" "manager_inv m'"
      "tokens m' = map Some ts" "?raws ts" "id_to_alias m' = ?als" by blast
  moreover have "id_to_alias m' = [Some (bytes_of ''a''), Some (generate_unnamed_alias 1), Some (bytes_of ''c'')]"
    unfolding m(5) by (simp add: es upt_rec n)
  moreover from m(4) have "map fst (map (bundle_raws \<circ> ext_bundle) ts) = map fst (map (bundle_raws \<circ> ext_bundle \<circ> snd) (entries sample_manager))"
    by simp
  then have "map (tok_raw \<circ> primary_token \<circ> ext_bundle) ts = map (tok_raw \<circ> sample_token) [1, 2, 3]"
    by (simp add: es bundle_raws_def comp_def) (simp add: sample_info_def)
  ultimately show ?thesis using save
    by - (intro exI [of _ ?x] exI [of _ ?to] exI [of _ ?from] exI [of _ m'] exI [of _ c'] exI [of _ ts] conjI)
qed

end
