(* ===== verification/Token_Routes.thy ===== *)
theory Token_Routes
  imports Token_Store
begin

text \<open>
  \<^verbatim>\<open>src/core/route/tokens.rs\<close>: the HTTP handlers that list, replace, add, delete and change tokens,
  with the request types of \<^verbatim>\<open>src/app/model.rs\<close> and the token renewal of \<^verbatim>\<open>src/common/utils.rs\<close>.
  A handler holds the write lock of the token manager for all of its work, so it is a function of the
  state.  The state of the rest of the world (network, disk, random numbers) is \<open>'w\<close>, and the record
  \<open>env\<close> holds what the handlers use of it.  Set-valued and map-valued requests are lists in the order
  in which the hash table is traversed.
\<close>

section \<open>State and environment\<close>

record ('p, 'w) app =
  manager :: "'p token_manager"
  queue_heads :: "nat list"
  view :: token_view
  world :: 'w

datatype poll_response = PollFailed | PollOk "token option" | PollNotFound | PollOther

record ('p, 'w) env =
  env_big :: bool
  to_bytes :: "'p token_info_helper list \<Rightarrow> bytes option"
  write_file :: "bytes \<Rightarrow> 'w \<Rightarrow> bool \<times> 'w"
  parse_raw :: "bytes \<Rightarrow> TokenError + raw_token"
  raw_to_string :: "raw_token \<Rightarrow> bytes"
  random_hash :: "'w \<Rightarrow> Hash \<times> 'w"
  new_v4 :: "'w \<Rightarrow> uuid \<times> 'w"
  parse_uuid :: "bytes \<Rightarrow> uuid option"
  parse_tz :: "bytes \<Rightarrow> tz option"
  is_blank :: "bytes \<Rightarrow> bool"
  get_token_profile :: "ext_token \<Rightarrow> 'w \<Rightarrow> ('p option \<times> 'p option \<times> 'p user_profile option \<times> 'p list option) \<times> 'w"
  get_server_config :: "ext_token \<Rightarrow> 'w \<Rightarrow> uuid option \<times> 'w"
  send_refresh :: "ext_token \<Rightarrow> 'w \<Rightarrow> token option \<times> 'w"
  send_upgrade :: "ext_token \<Rightarrow> 'w \<Rightarrow> bool \<times> 'w"
  send_poll :: "ext_token \<Rightarrow> 'w \<Rightarrow> poll_response \<times> 'w"

section \<open>Responses\<close>

datatype StatusCode = BAD_REQUEST | INTERNAL_SERVER_ERROR

datatype ApiStatus = Success | Error

text \<open>The constants of the file and the literals of the handlers; \<open>Num\<close> is a printed counter and
  \<open>SaveMessage\<close> the text of an error of \<^verbatim>\<open>save\<close>.\<close>

datatype text_const =
  SET_SUCCESS | SET_FAILURE_COUNT | UPDATE_SUCCESS | UPDATE_FAILURE_COUNT
  | ERROR_SAVE_TOKEN_DATA | MESSAGE_SAVE_TOKEN_DATA_FAILED | ERROR_NO_TOKENS_PROVIDED | MESSAGE_NO_TOKENS_PROVIDED
  | ERROR_SAVE_TOKEN_PROFILES | ERROR_SAVE_TOKENS | ERROR_SAVE_TOKEN_STATUSES | ERROR_SAVE_TOKEN_ALIASES
  | ERROR_SAVE_TOKEN_PROXIES | ERROR_SAVE_TOKEN_TIMEZONES | MESSAGE_SAVE_TOKEN_PROFILE_FAILED
  | MESSAGE_SAVE_TOKEN_CONFIG_VERSION_FAILED | MESSAGE_SAVE_TOKEN_STATUS_FAILED | MESSAGE_SAVE_TOKEN_PROXY_FAILED
  | MESSAGE_SAVE_TOKEN_TIMEZONE_FAILED
  | T_PROFILES | T_CONFIG_VERSIONS | T_FAILED_OF_WHICH | T_NOT_SESSION | T_REFRESHED | T_TOKENS | T_REFRESH_FAILED
  | T_STATUSES | T_ALIASES | T_PROXIES | T_TIMEZONES | T_MERGED | T_MERGE_FAILED
  | T_FILES_UPDATED | T_NEW_ADDED | T_NONE_ADDED

datatype piece = Txt text_const | Num u32 | SaveMessage SaveError

record generic_error =
  ge_status :: ApiStatus
  ge_error :: text_const
  ge_message :: "piece list"

datatype 'p response =
  TokensGet "(nat \<times> bytes \<times> 'p token_info) list"
  | TokensAdd nat text_const
  | TokensDelete ApiStatus "bytes list option"
  | Common ApiStatus "piece list"
  | Failure StatusCode "generic_error option"

definition failure :: "StatusCode \<Rightarrow> text_const \<Rightarrow> text_const \<Rightarrow> 'p response" where
  "failure code e msg = Failure code (Some \<lparr>ge_status = Error, ge_error = e, ge_message = [Txt msg]\<rparr>)"

abbreviation no_tokens_provided :: "'p response" where
  "no_tokens_provided \<equiv> failure BAD_REQUEST ERROR_NO_TOKENS_PROVIDED MESSAGE_NO_TOKENS_PROVIDED"

text \<open>\<^verbatim>\<open>token_manager.save().await\<close>.\<close>

definition save :: "('p, 'w) env \<Rightarrow> ('p, 'w) app \<Rightarrow> ((SaveError + unit) \<times> ('p, 'w) app) ub" where
  "save e s = do {
     (r, w) \<leftarrow> manager_save (env_big e) (to_bytes e) (write_file e) (manager s) (world s);
     Some (r, s\<lparr>world := w\<rparr>)
   }"

section \<open>Listing, replacing and adding\<close>

definition handle_get_tokens :: "('p, 'w) app \<Rightarrow> ('p response \<times> ('p, 'w) app) ub" where
  "handle_get_tokens s = do { l \<leftarrow> manager_list (manager s); Some (TokensGet l, s) }"

fun add_all :: "('p token_info \<times> bytes) list \<Rightarrow> 'p token_manager \<Rightarrow> 'p token_manager ub" where
  "add_all [] m = Some m"
| "add_all ((t, a) # ts) m = do { (_, m) \<leftarrow> manager_add t a m; add_all ts m }"

definition handle_set_tokens ::
  "('p, 'w) env \<Rightarrow> (bytes \<times> 'p token_info) list \<Rightarrow> ('p, 'w) app \<Rightarrow> ('p response \<times> ('p, 'w) app) ub" where
  "handle_set_tokens e request s = do {
     m \<leftarrow> add_all (map (\<lambda>(a, t). (t, a)) request) manager_new;
     let s = s\<lparr>manager := m\<rparr>;
     let tokens_count = length (tokens m);
     (r, s) \<leftarrow> save e s;
     Some (case r of Inl _ \<Rightarrow> Failure INTERNAL_SERVER_ERROR None
                   | Inr _ \<Rightarrow> TokensAdd tokens_count T_FILES_UPDATED, s)
   }"

record add_request_token =
  ar_alias :: "bytes option"
  ar_token :: bytes
  ar_checksum :: "bytes option"
  ar_client_key :: "bytes option"
  ar_config_version :: "bytes option"
  ar_session_id :: "bytes option"
  ar_proxy :: "bytes option"
  ar_timezone :: "bytes option"
  ar_gcpp_host :: "bytes option"

definition CURSOR_GCPP_ASIA_HOST :: bytes where "CURSOR_GCPP_ASIA_HOST = bytes_of ''us-asia.gcpp.cursor.sh''"

definition CURSOR_GCPP_EU_HOST :: bytes where "CURSOR_GCPP_EU_HOST = bytes_of ''us-eu.gcpp.cursor.sh''"

definition CURSOR_GCPP_US_HOST :: bytes where "CURSOR_GCPP_US_HOST = bytes_of ''us-only.gcpp.cursor.sh''"

definition gcpp_host_from_str :: "bytes \<Rightarrow> GcppHost option" where
  "gcpp_host_from_str s =
     (let s = (case strip_prefix (bytes_of ''https://'') s of Some s \<Rightarrow> s | None \<Rightarrow> s)
      in if s = CURSOR_GCPP_ASIA_HOST \<or> s = bytes_of ''Asia'' then Some Asia
         else if s = CURSOR_GCPP_EU_HOST \<or> s = bytes_of ''EU'' then Some EU
         else if s = CURSOR_GCPP_US_HOST \<or> s = bytes_of ''US'' then Some US
         else None)"

text \<open>The three fields that may draw random numbers, in the order of the struct expression.\<close>

definition request_checksum :: "('p, 'w) env \<Rightarrow> bytes option \<Rightarrow> 'w \<Rightarrow> (checksum \<times> 'w) ub" where
  "request_checksum e c w =
     (case c of None \<Rightarrow> Some (checksum_random (random_hash e) w) | Some t \<Rightarrow> checksum_repair (random_hash e) t w)"

definition request_client_key :: "('p, 'w) env \<Rightarrow> bytes option \<Rightarrow> 'w \<Rightarrow> Hash \<times> 'w" where
  "request_client_key e k w =
     (case Option.bind k (\<lambda>t. case hash_from_str t of Inl _ \<Rightarrow> None | Inr h \<Rightarrow> Some h) of
        Some h \<Rightarrow> (h, w) | None \<Rightarrow> random_hash e w)"

definition request_session_id :: "('p, 'w) env \<Rightarrow> bytes option \<Rightarrow> 'w \<Rightarrow> uuid \<times> 'w" where
  "request_session_id e u w =
     (case Option.bind u (parse_uuid e) of Some u \<Rightarrow> (u, w) | None \<Rightarrow> new_v4 e w)"

definition request_info ::
  "('p, 'w) env \<Rightarrow> bool \<Rightarrow> add_request_token \<Rightarrow> raw_token \<Rightarrow> ('p, 'w) app
   \<Rightarrow> (('p token_info \<times> bytes) \<times> ('p, 'w) app) ub" where
  "request_info e on q raw s = do {
     let (t, c) = token_intern (raw_to_string e) raw (Some (ar_token q)) (view s);
     (sum, w) \<leftarrow> request_checksum e (ar_checksum q) (world s);
     let (key, w) = request_client_key e (ar_client_key q) w;
     let (sid, w) = request_session_id e (ar_session_id q) w;
     Some ((\<lparr>ext_bundle = \<lparr>primary_token = t, secondary_token = None, ext_checksum = sum, client_key = key,
               config_version = Option.bind (ar_config_version q) (parse_uuid e), session_id = sid,
               proxy = ar_proxy q, timezone = Option.bind (ar_timezone q) (parse_tz e),
               gcpp_host = Option.bind (ar_gcpp_host q) gcpp_host_from_str\<rparr>,
             status = \<lparr>enabled = on, health = token_health_new\<rparr>, usage = None, user = None, stripe = None,
             sessions = []\<rparr>,
            case ar_alias q of Some a \<Rightarrow> if is_blank e a then UNNAMED else a | None \<Rightarrow> UNNAMED),
           s\<lparr>view := c, world := w\<rparr>)
   }"

fun request_infos ::
  "('p, 'w) env \<Rightarrow> bool \<Rightarrow> bytes set \<Rightarrow> add_request_token list \<Rightarrow> ('p, 'w) app
   \<Rightarrow> (('p token_info \<times> bytes) list \<times> ('p, 'w) app) ub" where
  "request_infos e on existing [] s = Some ([], s)"
| "request_infos e on existing (q # qs) s =
     (if ar_token q \<in> existing then request_infos e on existing qs s
      else (case parse_raw e (ar_token q) of
              Inl _ \<Rightarrow> request_infos e on existing qs s
            | Inr raw \<Rightarrow> do {
                (t, s) \<leftarrow> request_info e on q raw s;
                (ts, s) \<leftarrow> request_infos e on existing qs s;
                Some (t # ts, s)
              }))"

definition existing_tokens :: "'p token_manager \<Rightarrow> bytes set" where
  "existing_tokens m = set (concat (map (\<lambda>o'. case o' of None \<Rightarrow> [] | Some t \<Rightarrow> [tok_str (primary_token (ext_bundle t))]) (tokens m)))"

definition handle_add_tokens ::
  "('p, 'w) env \<Rightarrow> add_request_token list \<Rightarrow> bool \<Rightarrow> ('p, 'w) app \<Rightarrow> ('p response \<times> ('p, 'w) app) ub" where
  "handle_add_tokens e request on s = do {
     (new_tokens, s) \<leftarrow> request_infos e on (existing_tokens (manager s)) request s;
     (if new_tokens \<noteq> [] then do {
        m \<leftarrow> add_all new_tokens (manager s);
        let s = s\<lparr>manager := m\<rparr>;
        let tokens_count = length (tokens m);
        (r, s) \<leftarrow> save e s;
        Some (case r of
                Inl _ \<Rightarrow> failure INTERNAL_SERVER_ERROR ERROR_SAVE_TOKEN_DATA MESSAGE_SAVE_TOKEN_DATA_FAILED
              | Inr _ \<Rightarrow> TokensAdd tokens_count T_NEW_ADDED, s)
      }
      else Some (TokensAdd (length (tokens (manager s))) T_NONE_ADDED, s))
   }"


section \<open>Deleting\<close>

fun delete_loop ::
  "bytes list \<Rightarrow> bool \<Rightarrow> bytes list option \<Rightarrow> ('p, 'w) app \<Rightarrow> (bool \<times> bytes list option \<times> ('p, 'w) app) ub" where
  "delete_loop [] has_updates failed s = Some (has_updates, failed, s)"
| "delete_loop (a # as) has_updates failed s =
     (case alias_map (manager s) a of
        Some tid \<Rightarrow> do {
          (_, heads, m) \<leftarrow> manager_remove tid (queue_heads s) (manager s);
          delete_loop as True failed (s\<lparr>manager := m, queue_heads := heads\<rparr>)
        }
      | None \<Rightarrow> delete_loop as has_updates (map_option (\<lambda>fs. fs @ [a]) failed) s)"

definition handle_delete_tokens ::
  "('p, 'w) env \<Rightarrow> bytes list \<Rightarrow> bool \<Rightarrow> ('p, 'w) app \<Rightarrow> ('p response \<times> ('p, 'w) app) ub" where
  "handle_delete_tokens e aliases include_failed_tokens s = do {
     (has_updates, failed_tokens, s) \<leftarrow>
       delete_loop aliases False (if include_failed_tokens then Some [] else None) s;
     (if has_updates then do {
        (r, s) \<leftarrow> save e s;
        Some (case r of
                Inl _ \<Rightarrow> Failure INTERNAL_SERVER_ERROR (Some \<lparr>ge_status = Success,
                   ge_error = ERROR_SAVE_TOKEN_DATA, ge_message = [Txt MESSAGE_SAVE_TOKEN_DATA_FAILED]\<rparr>)
              | Inr _ \<Rightarrow> TokensDelete Success failed_tokens, s)
      }
      else Some (TokensDelete Success failed_tokens, s))
   }"

section \<open>Bulk updates\<close>

text \<open>The loop that the remaining handlers share: a step per element of the request, which reports
  whether it updated a token; the two counters are \<^verbatim>\<open>u32\<close>.\<close>

fun count_loop :: "('a \<Rightarrow> 's \<Rightarrow> (bool \<times> 's) ub) \<Rightarrow> 'a list \<Rightarrow> u32 \<Rightarrow> u32 \<Rightarrow> 's \<Rightarrow> (u32 \<times> u32 \<times> 's) ub" where
  "count_loop step [] updated failed s = Some (updated, failed, s)"
| "count_loop step (x # xs) updated failed s = do {
     (ok, s) \<leftarrow> step x s;
     (if ok then count_loop step xs (updated + 1) failed s else count_loop step xs updated (failed + 1) s)
   }"

definition save_if_updated ::
  "('p, 'w) env \<Rightarrow> u32 \<Rightarrow> (SaveError \<Rightarrow> 'p response) \<Rightarrow> 'p response \<Rightarrow> ('p, 'w) app
   \<Rightarrow> ('p response \<times> ('p, 'w) app) ub" where
  "save_if_updated e updated on_error ok s =
     (if updated > 0 then do {
        (r, s) \<leftarrow> save e s;
        Some (case r of Inl x \<Rightarrow> on_error x | Inr _ \<Rightarrow> ok, s)
      }
      else Some (ok, s))"

text \<open>\<^verbatim>\<open>alias_map().get(alias).copied().map(|id| tokens_mut().get_unchecked_mut(id))\<close> and an assignment.\<close>

definition with_info ::
  "('p token_info \<Rightarrow> 'p token_info) \<Rightarrow> bytes \<Rightarrow> ('p, 'w) app \<Rightarrow> (bool \<times> ('p, 'w) app) ub" where
  "with_info f a s =
     (case alias_map (manager s) a of
        Some tid \<Rightarrow> do { m \<leftarrow> info_update tid f (manager s); Some (True, s\<lparr>manager := m\<rparr>) }
      | None \<Rightarrow> Some (False, s))"

definition handle_set_tokens_status ::
  "('p, 'w) env \<Rightarrow> bytes list \<Rightarrow> token_status \<Rightarrow> ('p, 'w) app \<Rightarrow> ('p response \<times> ('p, 'w) app) ub" where
  "handle_set_tokens_status e aliases st s =
     (if aliases = [] then Some (no_tokens_provided, s)
      else do {
        (updated, failed, s) \<leftarrow> count_loop (with_info (\<lambda>t. t\<lparr>status := st\<rparr>)) aliases 0 0 s;
        save_if_updated e updated
          (\<lambda>_. failure INTERNAL_SERVER_ERROR ERROR_SAVE_TOKEN_STATUSES MESSAGE_SAVE_TOKEN_STATUS_FAILED)
          (Common Success [Txt SET_SUCCESS, Num updated, Txt T_STATUSES, Num failed, Txt SET_FAILURE_COUNT]) s
      })"

definition handle_set_tokens_proxy ::
  "('p, 'w) env \<Rightarrow> bytes list \<Rightarrow> bytes option \<Rightarrow> ('p, 'w) app \<Rightarrow> ('p response \<times> ('p, 'w) app) ub" where
  "handle_set_tokens_proxy e aliases px s =
     (if aliases = [] then Some (no_tokens_provided, s)
      else do {
        (updated, failed, s) \<leftarrow>
          count_loop (with_info (\<lambda>t. t\<lparr>ext_bundle := (ext_bundle t)\<lparr>proxy := px\<rparr>\<rparr>)) aliases 0 0 s;
        save_if_updated e updated
          (\<lambda>_. failure INTERNAL_SERVER_ERROR ERROR_SAVE_TOKEN_PROXIES MESSAGE_SAVE_TOKEN_PROXY_FAILED)
          (Common Success [Txt SET_SUCCESS, Num updated, Txt T_PROXIES, Num failed, Txt SET_FAILURE_COUNT]) s
      })"

definition handle_set_tokens_timezone ::
  "('p, 'w) env \<Rightarrow> bytes list \<Rightarrow> tz option \<Rightarrow> ('p, 'w) app \<Rightarrow> ('p response \<times> ('p, 'w) app) ub" where
  "handle_set_tokens_timezone e aliases z s =
     (if aliases = [] then Some (no_tokens_provided, s)
      else do {
        (updated, failed, s) \<leftarrow>
          count_loop (with_info (\<lambda>t. t\<lparr>ext_bundle := (ext_bundle t)\<lparr>timezone := z\<rparr>\<rparr>)) aliases 0 0 s;
        save_if_updated e updated
          (\<lambda>_. failure INTERNAL_SERVER_ERROR ERROR_SAVE_TOKEN_TIMEZONES MESSAGE_SAVE_TOKEN_TIMEZONE_FAILED)
          (Common Success [Txt SET_SUCCESS, Num updated, Txt T_TIMEZONES, Num failed, Txt SET_FAILURE_COUNT]) s
      })"

definition alias_step :: "bytes \<times> bytes \<Rightarrow> ('p, 'w) app \<Rightarrow> (bool \<times> ('p, 'w) app) ub" where
  "alias_step = (\<lambda>(old_alias, new_alias) s.
     (case alias_map (manager s) old_alias of
        Some token_id \<Rightarrow> do {
          (r, m) \<leftarrow> manager_set_alias token_id new_alias (manager s);
          Some (case r of Inr _ \<Rightarrow> True | Inl AliasExists \<Rightarrow> False | Inl InvalidId \<Rightarrow> False, s\<lparr>manager := m\<rparr>)
        }
      | None \<Rightarrow> Some (False, s)))"

definition handle_set_tokens_alias ::
  "('p, 'w) env \<Rightarrow> (bytes \<times> bytes) list \<Rightarrow> ('p, 'w) app \<Rightarrow> ('p response \<times> ('p, 'w) app) ub" where
  "handle_set_tokens_alias e request s =
     (if request = [] then Some (no_tokens_provided, s)
      else do {
        (updated, failed, s) \<leftarrow> count_loop alias_step request 0 0 s;
        save_if_updated e updated
          (\<lambda>x. Failure INTERNAL_SERVER_ERROR (Some \<lparr>ge_status = Error, ge_error = ERROR_SAVE_TOKEN_ALIASES,
             ge_message = [SaveMessage x]\<rparr>))
          (Common Success [Txt SET_SUCCESS, Num updated, Txt T_ALIASES, Num failed, Txt SET_FAILURE_COUNT]) s
      })"

section \<open>Profiles and configuration versions\<close>

definition is_unnamed :: "bytes \<Rightarrow> bool" where
  "is_unnamed a \<longleftrightarrow> starts_with a UNNAMED_PATTERN"

text \<open>The write behind the end of \<^verbatim>\<open>alias_updaters\<close>, which was allocated with capacity \<open>cap\<close>.\<close>

definition push_within :: "nat \<Rightarrow> 'a list \<Rightarrow> 'a \<Rightarrow> 'a list ub" where
  "push_within cap xs x = (if length xs < cap then Some (xs @ [x]) else None)"

definition profile_step ::
  "('p, 'w) env \<Rightarrow> nat \<Rightarrow> bytes \<Rightarrow> (nat \<times> bytes) list \<times> ('p, 'w) app
   \<Rightarrow> (bool \<times> (nat \<times> bytes) list \<times> ('p, 'w) app) ub" where
  "profile_step e cap a = (\<lambda>(updaters, s).
     (case alias_map (manager s) a of
        Some tid \<Rightarrow> do {
          al \<leftarrow> slice_get (id_to_alias (manager s)) tid;
          al \<leftarrow> al;
          info \<leftarrow> slice_get (tokens (manager s)) tid;
          info \<leftarrow> info;
          let ((us, st, u, se), w) = get_token_profile e (ext_bundle info) (world s);
          updaters \<leftarrow> (case (if is_unnamed al then Option.bind u user_alias else None) of
                         Some n \<Rightarrow> push_within cap updaters (tid, n)
                       | None \<Rightarrow> Some updaters);
          m \<leftarrow> info_update tid (\<lambda>t. t\<lparr>usage := us, user := u, stripe := st,
                 sessions := (case se of Some x \<Rightarrow> x | None \<Rightarrow> sessions t)\<rparr>) (manager s);
          Some (True, updaters, s\<lparr>manager := m, world := w\<rparr>)
        }
      | None \<Rightarrow> Some (False, updaters, s)))"

fun set_aliases :: "(nat \<times> bytes) list \<Rightarrow> 'p token_manager \<Rightarrow> 'p token_manager ub" where
  "set_aliases [] m = Some m"
| "set_aliases ((tid, a) # us) m = do { (_, m) \<leftarrow> manager_set_alias tid a m; set_aliases us m }"

definition handle_update_tokens_profile ::
  "('p, 'w) env \<Rightarrow> bytes list \<Rightarrow> ('p, 'w) app \<Rightarrow> ('p response \<times> ('p, 'w) app) ub" where
  "handle_update_tokens_profile e aliases s =
     (if aliases = [] then Some (no_tokens_provided, s)
      else do {
        (updated, failed, updaters, s) \<leftarrow> count_loop (profile_step e (length aliases)) aliases 0 0 ([], s);
        m \<leftarrow> set_aliases updaters (manager s);
        save_if_updated e updated
          (\<lambda>_. failure INTERNAL_SERVER_ERROR ERROR_SAVE_TOKEN_PROFILES MESSAGE_SAVE_TOKEN_PROFILE_FAILED)
          (Common Success [Txt UPDATE_SUCCESS, Num updated, Txt T_PROFILES, Num failed, Txt UPDATE_FAILURE_COUNT])
          (s\<lparr>manager := m\<rparr>)
      })"

definition config_version_step ::
  "('p, 'w) env \<Rightarrow> bytes \<Rightarrow> u32 \<times> ('p, 'w) app \<Rightarrow> (bool \<times> u32 \<times> ('p, 'w) app) ub" where
  "config_version_step e a = (\<lambda>(short, s).
     (case alias_map (manager s) a of
        Some tid \<Rightarrow> do {
          info \<leftarrow> slice_get (tokens (manager s)) tid;
          info \<leftarrow> info;
          (if token_is_web (primary_token (ext_bundle info)) then Some (False, short + 1, s)
           else do {
             let (v, w) = get_server_config e (ext_clone_without_config_version (ext_bundle info)) (world s);
             (case v of
                Some version \<Rightarrow> do {
                  m \<leftarrow> info_update tid (\<lambda>t. t\<lparr>ext_bundle := (ext_bundle t)\<lparr>config_version := Some version\<rparr>\<rparr>) (manager s);
                  Some (True, short, s\<lparr>manager := m, world := w\<rparr>)
                }
              | None \<Rightarrow> Some (False, short, s\<lparr>world := w\<rparr>))
           })
        }
      | None \<Rightarrow> Some (False, short, s)))"

definition handle_update_tokens_config_version ::
  "('p, 'w) env \<Rightarrow> bytes list \<Rightarrow> ('p, 'w) app \<Rightarrow> ('p response \<times> ('p, 'w) app) ub" where
  "handle_update_tokens_config_version e aliases s =
     (if aliases = [] then Some (no_tokens_provided, s)
      else do {
        (updated, failed, short, s) \<leftarrow> count_loop (config_version_step e) aliases 0 0 (0, s);
        save_if_updated e updated
          (\<lambda>_. failure INTERNAL_SERVER_ERROR ERROR_SAVE_TOKEN_PROFILES MESSAGE_SAVE_TOKEN_CONFIG_VERSION_FAILED)
          (Common Success ([Txt UPDATE_SUCCESS, Num updated, Txt T_CONFIG_VERSIONS, Num failed]
             @ (if short > 0 then [Txt T_FAILED_OF_WHICH, Num short, Txt T_NOT_SESSION] else [Txt UPDATE_FAILURE_COUNT]))) s
      })"

section \<open>Renewing and merging\<close>

fun poll_loop :: "('p, 'w) env \<Rightarrow> ext_token \<Rightarrow> nat \<Rightarrow> 'w \<Rightarrow> token option \<times> 'w" where
  "poll_loop e t 0 w = (None, w)"
| "poll_loop e t (Suc n) w =
     (let (r, w) = send_poll e t w
      in case r of
           PollFailed \<Rightarrow> (None, w)
         | PollOk tok \<Rightarrow> (tok, w)
         | PollNotFound \<Rightarrow> poll_loop e t n w
         | PollOther \<Rightarrow> (None, w))"

definition POLL_MAX_ATTEMPTS :: nat where
  "POLL_MAX_ATTEMPTS = 5"

definition upgrade_token :: "('p, 'w) env \<Rightarrow> ext_token \<Rightarrow> 'w \<Rightarrow> token option \<times> 'w" where
  "upgrade_token e t w =
     (let (ok, w) = send_upgrade e t w in if \<not> ok then (None, w) else poll_loop e t POLL_MAX_ATTEMPTS w)"

definition refresh_token :: "('p, 'w) env \<Rightarrow> ext_token \<Rightarrow> 'w \<Rightarrow> token option \<times> 'w" where
  "refresh_token e t w = send_refresh e t w"

definition get_new_token :: "('p, 'w) env \<Rightarrow> ext_token \<Rightarrow> 'w \<Rightarrow> (bool \<times> ext_token) \<times> 'w" where
  "get_new_token e t w =
     (let is_session = raw_is_session (tok_raw (primary_token t));
          (r, w) = (if is_session then refresh_token e t w else upgrade_token e t w)
      in case r of
           Some new_token \<Rightarrow>
             ((True,
               if \<not> is_session \<and> secondary_token t = None
               then t\<lparr>primary_token := new_token, secondary_token := Some (primary_token t)\<rparr>
               else t\<lparr>primary_token := new_token\<rparr>), w)
         | None \<Rightarrow>
             if is_session \<and> secondary_token t \<noteq> None
             then (let (r, w) = upgrade_token e t w
                   in case r of
                        Some new_token \<Rightarrow> ((True, t\<lparr>primary_token := new_token\<rparr>), w)
                      | None \<Rightarrow> ((False, t), w))
             else ((False, t), w))"

definition refresh_step :: "('p, 'w) env \<Rightarrow> bytes \<Rightarrow> ('p, 'w) app \<Rightarrow> (bool \<times> ('p, 'w) app) ub" where
  "refresh_step e a s =
     (case alias_map (manager s) a of
        Some tid \<Rightarrow> do {
          info \<leftarrow> slice_get (tokens (manager s)) tid;
          info \<leftarrow> info;
          let ((ok, b), w) = get_new_token e (ext_bundle info) (world s);
          m \<leftarrow> writer_update tid (\<lambda>_. b) (manager s);
          Some (ok, s\<lparr>manager := m, world := w\<rparr>)
        }
      | None \<Rightarrow> Some (False, s))"

definition handle_refresh_tokens ::
  "('p, 'w) env \<Rightarrow> bytes list \<Rightarrow> ('p, 'w) app \<Rightarrow> ('p response \<times> ('p, 'w) app) ub" where
  "handle_refresh_tokens e aliases s =
     (if aliases = [] then Some (no_tokens_provided, s)
      else do {
        (updated, failed, s) \<leftarrow> count_loop (refresh_step e) aliases 0 0 s;
        save_if_updated e updated
          (\<lambda>_. failure INTERNAL_SERVER_ERROR ERROR_SAVE_TOKENS MESSAGE_SAVE_TOKEN_DATA_FAILED)
          (Common Success [Txt T_REFRESHED, Num updated, Txt T_TOKENS, Num failed, Txt T_REFRESH_FAILED]) s
      })"

record merge_token =
  mt_primary_token :: "token option"
  mt_secondary_token :: "token option"
  mt_checksum :: "checksum option"
  mt_client_key :: "Hash option"
  mt_config_version :: "uuid option"
  mt_session_id :: "uuid option"
  mt_proxy :: "bytes option"
  mt_timezone :: "tz option"
  mt_gcpp_host :: "GcppHost option"

definition has_some :: "merge_token \<Rightarrow> bool" where
  "has_some t \<longleftrightarrow>
     \<not> (mt_primary_token t = None \<and> mt_secondary_token t = None \<and> mt_checksum t = None
       \<and> mt_client_key t = None \<and> mt_config_version t = None \<and> mt_session_id t = None
       \<and> mt_proxy t = None \<and> mt_timezone t = None \<and> mt_gcpp_host t = None)"

definition or_else :: "'a option \<Rightarrow> 'a \<Rightarrow> 'a" where
  "or_else o' x = (case o' of Some y \<Rightarrow> y | None \<Rightarrow> x)"

definition or_keep :: "'a option \<Rightarrow> 'a option \<Rightarrow> 'a option" where
  "or_keep o' x = (case o' of Some y \<Rightarrow> Some y | None \<Rightarrow> x)"

definition merge_bundle :: "merge_token \<Rightarrow> ext_token \<Rightarrow> ext_token" where
  "merge_bundle t b =
     \<lparr>primary_token = or_else (mt_primary_token t) (primary_token b),
      secondary_token = or_keep (mt_secondary_token t) (secondary_token b),
      ext_checksum = or_else (mt_checksum t) (ext_checksum b),
      client_key = or_else (mt_client_key t) (client_key b),
      config_version = or_keep (mt_config_version t) (config_version b),
      session_id = or_else (mt_session_id t) (session_id b),
      proxy = or_keep (mt_proxy t) (proxy b),
      timezone = or_keep (mt_timezone t) (timezone b),
      gcpp_host = or_keep (mt_gcpp_host t) (gcpp_host b)\<rparr>"

definition merge_step :: "bytes \<times> merge_token \<Rightarrow> ('p, 'w) app \<Rightarrow> (bool \<times> ('p, 'w) app) ub" where
  "merge_step = (\<lambda>(a, t) s.
     (if \<not> has_some t then Some (False, s)
      else (case alias_map (manager s) a of
              Some tid \<Rightarrow> do {
                m \<leftarrow> writer_update tid (merge_bundle t) (manager s);
                Some (True, s\<lparr>manager := m\<rparr>)
              }
            | None \<Rightarrow> Some (False, s))))"

definition handle_merge_tokens ::
  "('p, 'w) env \<Rightarrow> (bytes \<times> merge_token) list \<Rightarrow> ('p, 'w) app \<Rightarrow> ('p response \<times> ('p, 'w) app) ub" where
  "handle_merge_tokens e request s =
     (if request = [] then Some (no_tokens_provided, s)
      else do {
        (updated, failed, s) \<leftarrow> count_loop merge_step request 0 0 s;
        save_if_updated e updated
          (\<lambda>_. failure INTERNAL_SERVER_ERROR ERROR_SAVE_TOKENS MESSAGE_SAVE_TOKEN_DATA_FAILED)
          (Common Success [Txt T_MERGED, Num updated, Txt T_TOKENS, Num failed, Txt T_MERGE_FAILED]) s
      })"


section \<open>Steps that keep an invariant\<close>

fun adm_run :: "('a \<Rightarrow> 's \<Rightarrow> (bool \<times> 's) ub) \<Rightarrow> ('a \<Rightarrow> 's \<Rightarrow> bool) \<Rightarrow> 'a list \<Rightarrow> 's \<Rightarrow> bool" where
  "adm_run step adm [] s = True"
| "adm_run step adm (x # xs) s =
     (adm x s \<and> (case step x s of None \<Rightarrow> True | Some (_, s') \<Rightarrow> adm_run step adm xs s'))"

locale safe_step =
  fixes inv :: "'s \<Rightarrow> bool"
    and step :: "'a \<Rightarrow> 's \<Rightarrow> (bool \<times> 's) ub"
    and adm :: "'a \<Rightarrow> 's \<Rightarrow> bool"
  assumes step_safe: "inv s \<Longrightarrow> adm x s \<Longrightarrow> \<exists>r s'. step x s = Some (r, s') \<and> inv s'"
begin

lemma count_loop_safe:
  "inv s \<Longrightarrow> adm_run step adm xs s \<Longrightarrow>
   \<exists>k s'. count_loop step xs updated failed s = Some (updated + of_nat k, failed + of_nat (length xs - k), s')
     \<and> k \<le> length xs \<and> inv s'"
proof (induction xs arbitrary: updated failed s)
  case Nil
  then show ?case by (intro exI [of _ 0] exI [of _ s]) simp
next
  case (Cons x xs)
  then obtain r s1 where s1: "step x s = Some (r, s1)" "inv s1"
    using step_safe [of s x] by auto
  with Cons obtain k s' where
    "count_loop step xs (if r then updated + 1 else updated) (if r then failed else failed + 1) s1
       = Some ((if r then updated + 1 else updated) + of_nat k, (if r then failed else failed + 1) + of_nat (length xs - k), s')"
    "k \<le> length xs" "inv s'"
    by fastforce
  with s1 show ?case
    by (intro exI [of _ "if r then Suc k else k"] exI [of _ s']) (auto simp: algebra_simps Suc_diff_le)
qed

end

text \<open>A step whose effect on an abstraction of the state, and whose verdict, are known.\<close>

locale table_step = safe_step +
  fixes abs :: "'s \<Rightarrow> 't" and hit :: "'a \<Rightarrow> 't \<Rightarrow> bool" and upd :: "'a \<Rightarrow> 't \<Rightarrow> 't"
  assumes step_abs: "inv s \<Longrightarrow> adm x s \<Longrightarrow> step x s = Some (r, s') \<Longrightarrow> r = hit x (abs s) \<and> abs s' = upd x (abs s)"
    and hit_upd: "hit y (upd x t) = hit y t"
begin

lemma count_loop_abs:
  "inv s \<Longrightarrow> adm_run step adm xs s \<Longrightarrow>
   \<exists>s'. count_loop step xs updated failed s
       = Some (updated + of_nat (length (filter (\<lambda>x. hit x (abs s)) xs)),
               failed + of_nat (length (filter (\<lambda>x. \<not> hit x (abs s)) xs)), s')
     \<and> inv s' \<and> abs s' = fold upd xs (abs s)"
proof (induction xs arbitrary: updated failed s)
  case (Cons x xs)
  then obtain r s1 where s1: "step x s = Some (r, s1)" "inv s1"
    using step_safe [of s x] by auto
  with Cons.prems have a: "r = hit x (abs s)" "abs s1 = upd x (abs s)"
    using step_abs [of s x r s1] by auto
  from Cons.IH [of s1 "if r then updated + 1 else updated" "if r then failed else failed + 1"] Cons.prems s1 a
  show ?case by (auto simp: hit_upd algebra_simps)
qed simp

end

section \<open>The invariant of the application state\<close>

definition app_inv :: "('p, 'w) app \<Rightarrow> bool" where
  "app_inv s \<longleftrightarrow> manager_inv (manager s) \<and> length (queue_heads s) = 4 \<and> view_ok (view s)"

lemma app_inv_simps [simp]:
  "app_inv (s\<lparr>world := w\<rparr>) = app_inv s"
  "app_inv (s\<lparr>manager := m\<rparr>) \<longleftrightarrow> manager_inv m \<and> length (queue_heads s) = 4 \<and> view_ok (view s)"
  by (simp_all add: app_inv_def)

lemma app_invD:
  "app_inv s \<Longrightarrow> manager_inv (manager s)" "app_inv s \<Longrightarrow> length (queue_heads s) = 4" "app_inv s \<Longrightarrow> view_ok (view s)"
  by (simp_all add: app_inv_def)

lemma save_ok:
  assumes "app_inv s"
  shows "\<exists>r w. save e s = Some (r, s\<lparr>world := w\<rparr>)"
proof -
  have "\<exists>rw. manager_save (env_big e) (to_bytes e) (write_file e) (manager s) (world s) = Some rw"
    by (simp add: manager_save_def manager_save_helpers [OF app_invD(1) [OF assms]])
  then show ?thesis by (auto simp: save_def)
qed

lemma save_if_updated_ok:
  assumes "app_inv s"
  shows "\<exists>r w. save_if_updated e updated on_error ok s = Some (r, s\<lparr>world := w\<rparr>)
    \<and> (r = ok \<or> updated > 0 \<and> (\<exists>x. r = on_error x))"
proof (cases "updated > 0")
  case True
  obtain r w where "save e s = Some (r, s\<lparr>world := w\<rparr>)" using save_ok [OF assms] by blast
  with True show ?thesis by (cases r) (auto simp: save_if_updated_def)
next
  case False
  then show ?thesis by (intro exI [of _ ok] exI [of _ "world s"]) (simp add: save_if_updated_def)
qed

lemma slot_slice_get: "slot xs i = Some x \<Longrightarrow> slice_get xs i = Some (Some x)"
  by (auto simp: slot_def slice_get_def split: if_splits)

lemma alias_live:
  assumes "app_inv s" "alias_map (manager s) a = Some i"
  obtains t where "slot (tokens (manager s)) i = Some t" "slot (id_to_alias (manager s)) i = Some a"
    "slice_get (tokens (manager s)) i = Some (Some t)" "slice_get (id_to_alias (manager s)) i = Some (Some a)"
proof -
  have inv: "manager_inv (manager s)" using assms(1) by (rule app_invD)
  have a: "slot (id_to_alias (manager s)) i = Some a" using assms(2) manager_inv_lookup(1) [OF inv] by simp
  obtain t where t: "slot (tokens (manager s)) i = Some t" using alias_slot_live [OF inv assms(2)] by blast
  from a t show ?thesis by (intro that) (auto simp: slot_slice_get)
qed

section \<open>The steps of the handlers\<close>

lemma with_info_ok:
  assumes "app_inv s" and f: "\<And>t. info_key (f t) = info_key t"
  shows "\<exists>s'. with_info f a s = Some (alias_table (manager s) a \<noteq> None, s') \<and> app_inv s'
    \<and> alias_table (manager s') = (alias_table (manager s))(a := map_option f (alias_table (manager s) a))"
proof (cases "alias_map (manager s) a")
  case None
  then show ?thesis using assms(1) by (auto simp: with_info_def alias_table_def fun_upd_idem)
next
  case (Some i)
  let ?m = "manager s"
  have inv: "manager_inv ?m" using assms(1) by (rule app_invD)
  obtain t where t: "slot (tokens ?m) i = Some t" "slot (id_to_alias ?m) i = Some a"
    using alias_live [OF assms(1) Some] by metis
  then have ta: "alias_table ?m a = Some t" by (auto simp: alias_table_iff [OF inv])
  obtain m' where m': "info_update i f ?m = Some m'" "manager_inv m'"
    "slot (tokens m') = (slot (tokens ?m))(i \<mapsto> f t)" "id_to_alias m' = id_to_alias ?m"
    using info_update_ok [OF inv t(1), of f, OF f] by blast
  have "alias_table m' = (alias_table ?m)(a \<mapsto> f t)"
  proof (rule alias_table_eqI [OF m'(2)])
    fix b u
    have at_a: "slot (id_to_alias ?m) j = Some a \<longleftrightarrow> j = i" for j
      using inverse_index_inj [OF manager_inv_indices(2) [OF inv] _ t(2)] t(2) by blast
    show "(\<exists>j. slot (id_to_alias m') j = Some b \<and> slot (tokens m') j = Some u)
        \<longleftrightarrow> ((alias_table ?m)(a \<mapsto> f t)) b = Some u"
    proof (cases "b = a")
      case True
      then show ?thesis by (auto simp: m'(3,4) at_a)
    next
      case False
      then have "j \<noteq> i" if "slot (id_to_alias ?m) j = Some b" for j using that t(2) by auto
      with False show ?thesis by (auto simp: m'(3,4) alias_table_iff [OF inv])
    qed
  qed
  then show ?thesis
    using m'(1,2) Some assms(1) ta by (auto simp: with_info_def app_inv_def)
qed

locale info_setter =
  fixes f :: "'p token_info \<Rightarrow> 'p token_info"
  assumes keeps_key: "info_key (f t) = info_key t"
begin

sublocale table_step app_inv "with_info f" "\<lambda>_ _. True" "\<lambda>s. alias_table (manager s)"
  "\<lambda>a t. t a \<noteq> None" "\<lambda>a t. t(a := map_option f (t a))"
proof
  show "\<exists>r s'. with_info f x s = Some (r, s') \<and> app_inv s'" if "app_inv s" for s :: "('p, 'w) app" and x
    using with_info_ok [OF that keeps_key] by blast
  show "r = (alias_table (manager s) x \<noteq> None)
      \<and> alias_table (manager s') = (alias_table (manager s))(x := map_option f (alias_table (manager s) x))"
    if "app_inv s" "with_info f x s = Some (r, s')" for s s' :: "('p, 'w) app" and x r
    using with_info_ok [OF that(1) keeps_key, of x] that(2) by auto
qed auto

end

interpretation set_status: info_setter "\<lambda>t. t\<lparr>status := st\<rparr>" for st
  by unfold_locales (simp add: info_key_def)

interpretation set_proxy: info_setter "\<lambda>t. t\<lparr>ext_bundle := (ext_bundle t)\<lparr>proxy := px\<rparr>\<rparr>" for px
  by unfold_locales (simp add: info_key_def)

interpretation set_timezone: info_setter "\<lambda>t. t\<lparr>ext_bundle := (ext_bundle t)\<lparr>timezone := z\<rparr>\<rparr>" for z
  by unfold_locales (simp add: info_key_def)

interpretation set_alias: safe_step app_inv alias_step "\<lambda>_ _. True"
proof
  show "\<exists>r s'. alias_step x s = Some (r, s') \<and> app_inv s'" if inv: "app_inv s" for s :: "('p, 'w) app" and x
  proof (cases "alias_map (manager s) (fst x)")
    case None
    with inv show ?thesis by (auto simp: alias_step_def case_prod_unfold)
  next
    case (Some i)
    obtain r m' where "manager_set_alias i (snd x) (manager s) = Some (r, m')" "manager_inv m'"
      using manager_set_alias_inv [OF app_invD(1) [OF inv]] by blast
    with Some inv show ?thesis by (auto simp: alias_step_def case_prod_unfold app_inv_def)
  qed
qed


lemma info_update_live:
  assumes "app_inv s" "slot (tokens (manager s)) i = Some t" "info_key (f t) = info_key t"
  shows "\<exists>m'. info_update i f (manager s) = Some m' \<and> app_inv (s\<lparr>manager := m'\<rparr>)"
  using info_update_ok [OF app_invD(1) [OF assms(1)] assms(2), of f] assms by (auto simp: app_inv_def)

interpretation set_config_version:
  safe_step "\<lambda>(short, s). app_inv s" "config_version_step e" "\<lambda>_ _. True" for e :: "('p, 'w) env"
proof
  fix st :: "u32 \<times> ('p, 'w) app" and a
  assume "case st of (short, s) \<Rightarrow> app_inv s"
  then obtain short s where st: "st = (short, s)" and inv: "app_inv s" by auto
  show "\<exists>r st'. config_version_step e a st = Some (r, st') \<and> (case st' of (short, s) \<Rightarrow> app_inv s)"
  proof (cases "alias_map (manager s) a")
    case None
    with inv show ?thesis by (auto simp: config_version_step_def st)
  next
    case (Some i)
    obtain t where t: "slot (tokens (manager s)) i = Some t" "slice_get (tokens (manager s)) i = Some (Some t)"
      using alias_live [OF inv Some] by metis
    obtain v w where v: "get_server_config e (ext_clone_without_config_version (ext_bundle t)) (world s) = (v, w)"
      by fastforce
    show ?thesis
    proof (cases v)
      case None
      with Some inv t v show ?thesis by (auto simp: config_version_step_def st)
    next
      case (Some version)
      obtain m' where "info_update i (\<lambda>t. t\<lparr>ext_bundle := (ext_bundle t)\<lparr>config_version := Some version\<rparr>\<rparr>) (manager s) = Some m'"
        "app_inv (s\<lparr>manager := m'\<rparr>)"
        using info_update_live [OF inv t(1), of "\<lambda>t. t\<lparr>ext_bundle := (ext_bundle t)\<lparr>config_version := Some version\<rparr>\<rparr>"]
        by (auto simp: info_key_def)
      with Some \<open>alias_map (manager s) a = Some i\<close> inv t v show ?thesis
        by (auto simp: config_version_step_def st app_inv_def)
    qed
  qed
qed

text \<open>The buffer of pending renamings has room for one more.\<close>

definition has_room :: "nat \<Rightarrow> bytes \<Rightarrow> (nat \<times> bytes) list \<times> ('p, 'w) app \<Rightarrow> bool" where
  "has_room cap a = (\<lambda>(updaters, s). length updaters < cap)"

lemma profile_step_ok:
  assumes inv: "app_inv s" and "length updaters < cap"
  shows "\<exists>r updaters' s'. profile_step e cap a (updaters, s) = Some (r, updaters', s') \<and> app_inv s'
    \<and> length updaters' \<le> Suc (length updaters)"
proof (cases "alias_map (manager s) a")
  case None
  with inv show ?thesis by (auto simp: profile_step_def)
next
  case (Some i)
  obtain t where t: "slot (tokens (manager s)) i = Some t" "slice_get (tokens (manager s)) i = Some (Some t)"
    "slice_get (id_to_alias (manager s)) i = Some (Some a)"
    using alias_live [OF inv Some] by metis
  obtain us stp u se w where p: "get_token_profile e (ext_bundle t) (world s) = ((us, stp, u, se), w)"
    by (metis surj_pair)
  let ?f = "\<lambda>t. t\<lparr>usage := us, user := u, stripe := stp, sessions := (case se of Some x \<Rightarrow> x | None \<Rightarrow> sessions t)\<rparr>"
  obtain m' where "info_update i ?f (manager s) = Some m'" "app_inv (s\<lparr>manager := m'\<rparr>)"
    using info_update_live [OF inv t(1), of ?f] by (auto simp: info_key_def)
  with Some inv t p assms(2) show ?thesis
    by (cases "if is_unnamed a then Option.bind u user_alias else None")
       (auto simp: profile_step_def push_within_def app_inv_def)
qed

interpretation set_profile:
  safe_step "\<lambda>(updaters, s). app_inv s" "profile_step e cap" "has_room cap" for e :: "('p, 'w) env" and cap
proof
  fix st :: "(nat \<times> bytes) list \<times> ('p, 'w) app" and a
  assume "case st of (updaters, s) \<Rightarrow> app_inv s" "has_room cap a st"
  then show "\<exists>r st'. profile_step e cap a st = Some (r, st') \<and> (case st' of (updaters, s) \<Rightarrow> app_inv s)"
    using profile_step_ok [of "snd st" "fst st" cap e a] by (cases st) (auto simp: has_room_def)
qed

lemma profile_has_room:
  "app_inv s \<Longrightarrow> length updaters + length as \<le> cap \<Longrightarrow>
   adm_run (profile_step e cap) (has_room cap) as (updaters, s)"
proof (induction as arbitrary: updaters s)
  case (Cons a as)
  then obtain r updaters' s' where "profile_step e cap a (updaters, s) = Some (r, updaters', s')" "app_inv s'"
    "length updaters' \<le> Suc (length updaters)"
    using profile_step_ok [of s updaters cap e a] by auto
  with Cons show ?case by (auto simp: has_room_def)
qed simp

lemma set_aliases_ok: "manager_inv m \<Longrightarrow> \<exists>m'. set_aliases us m = Some m' \<and> manager_inv m'"
proof (induction us arbitrary: m)
  case (Cons u us)
  obtain i a where u: "u = (i, a)" by fastforce
  obtain r m1 where "manager_set_alias i a m = Some (r, m1)" "manager_inv m1"
    using manager_set_alias_inv [OF Cons.prems] by blast
  with Cons.IH [of m1] show ?case by (simp add: u)
qed simp

text \<open>A writer may leave the key alone or move it to one that is not in use.\<close>

definition renewal_ok :: "('p, 'w) env \<Rightarrow> bytes \<Rightarrow> ('p, 'w) app \<Rightarrow> bool" where
  "renewal_ok e a s \<longleftrightarrow>
     (\<forall>i t. alias_map (manager s) a = Some i \<longrightarrow> slot (tokens (manager s)) i = Some t \<longrightarrow>
        (let b = snd (fst (get_new_token e (ext_bundle t) (world s)))
         in key_of_token (primary_token b) = info_key t
            \<or> id_map (manager s) (key_of_token (primary_token b)) = None))"

definition merge_ok :: "bytes \<times> merge_token \<Rightarrow> ('p, 'w) app \<Rightarrow> bool" where
  "merge_ok = (\<lambda>(a, mt) s.
     \<forall>i t. alias_map (manager s) a = Some i \<longrightarrow> slot (tokens (manager s)) i = Some t \<longrightarrow>
        (let b = merge_bundle mt (ext_bundle t)
         in key_of_token (primary_token b) = info_key t
            \<or> id_map (manager s) (key_of_token (primary_token b)) = None))"

lemma writer_update_live:
  assumes "app_inv s" "slot (tokens (manager s)) i = Some t"
    and "key_of_token (primary_token (g (ext_bundle t))) = info_key t
      \<or> id_map (manager s) (key_of_token (primary_token (g (ext_bundle t)))) = None"
  shows "\<exists>m'. writer_update i g (manager s) = Some m' \<and> app_inv (s\<lparr>manager := m'\<rparr>)"
  using writer_update_ok [OF app_invD(1) [OF assms(1)] assms(2), of g] assms
  by (auto simp: app_inv_def info_key_def)

interpretation renew: safe_step app_inv "refresh_step e" "renewal_ok e" for e :: "('p, 'w) env"
proof
  fix s :: "('p, 'w) app" and a
  assume inv: "app_inv s" and ok: "renewal_ok e a s"
  show "\<exists>r s'. refresh_step e a s = Some (r, s') \<and> app_inv s'"
  proof (cases "alias_map (manager s) a")
    case None
    with inv show ?thesis by (auto simp: refresh_step_def)
  next
    case (Some i)
    obtain t where t: "slot (tokens (manager s)) i = Some t" "slice_get (tokens (manager s)) i = Some (Some t)"
      using alias_live [OF inv Some] by metis
    obtain r b w where g: "get_new_token e (ext_bundle t) (world s) = ((r, b), w)" by (metis surj_pair)
    obtain m' where "writer_update i (\<lambda>_. b) (manager s) = Some m'" "app_inv (s\<lparr>manager := m'\<rparr>)"
      using writer_update_live [OF inv t(1), of "\<lambda>_. b"] ok Some t(1) g by (auto simp: renewal_ok_def Let_def)
    with Some inv t g show ?thesis by (auto simp: refresh_step_def app_inv_def)
  qed
qed

interpretation merge: safe_step app_inv merge_step merge_ok
proof
  fix s :: "('p, 'w) app" and x
  assume inv: "app_inv s" and ok: "merge_ok x s"
  obtain a mt where x: "x = (a, mt)" by fastforce
  show "\<exists>r s'. merge_step x s = Some (r, s') \<and> app_inv s'"
  proof (cases "alias_map (manager s) a")
    case None
    with inv show ?thesis by (auto simp: merge_step_def x)
  next
    case (Some i)
    obtain t where t: "slot (tokens (manager s)) i = Some t"
      using alias_live [OF inv Some] by metis
    obtain m' where "writer_update i (merge_bundle mt) (manager s) = Some m'" "app_inv (s\<lparr>manager := m'\<rparr>)"
      using writer_update_live [OF inv t, of "merge_bundle mt"] ok Some t by (auto simp: merge_ok_def x Let_def)
    with Some inv show ?thesis by (auto simp: merge_step_def x app_inv_def)
  qed
qed


lemma add_all_ok:
  assumes "manager_inv m" "distinct (map (info_key \<circ> fst) ts)" "\<forall>(t, a) \<in> set ts. id_map m (info_key t) = None"
  shows "\<exists>m'. add_all ts m = Some m' \<and> manager_inv m'"
  using assms
proof (induction ts arbitrary: m)
  case (Cons x ts)
  obtain t a where x: "x = (t, a)" by fastforce
  obtain r m1 where m1: "manager_add t a m = Some (r, m1)" "manager_inv m1"
    using manager_add_inv [OF Cons.prems(1), of t a] Cons.prems(3) x by auto
  have "id_map m1 (info_key u) = None" if "(u, b) \<in> set ts" for u b
  proof -
    have "info_key u \<noteq> info_key t" using Cons.prems(2) that x by (force simp: image_iff)
    then show ?thesis using manager_add_key [OF m1(1)] Cons.prems(3) that by auto
  qed
  with Cons.IH [OF m1(2)] Cons.prems(2) m1(1) show ?case by (auto simp: x)
qed simp

lemma request_checksum_total: "\<exists>r. request_checksum e c w = Some r"
  by (cases c) (simp_all add: request_checksum_def checksum_repair_eq)

lemma request_info_ok:
  assumes "view_ok (view s)"
  shows "\<exists>x s'. request_info e on q raw s = Some (x, s') \<and> manager s' = manager s \<and> queue_heads s' = queue_heads s
    \<and> view_ok (view s')"
proof -
  obtain t c where i: "token_intern (raw_to_string e) raw (Some (ar_token q)) (view s) = (t, c)" by fastforce
  obtain sum w where sum: "request_checksum e (ar_checksum q) (world s) = Some (sum, w)"
    using request_checksum_total [of e "ar_checksum q" "world s"] by auto
  obtain k w1 where k: "request_client_key e (ar_client_key q) w = (k, w1)" by fastforce
  obtain u w2 where u: "request_session_id e (ar_session_id q) w1 = (u, w2)" by fastforce
  show ?thesis
    using token_intern_ok [OF assms i] by (simp add: request_info_def i sum k u)
qed

lemma request_infos_ok:
  "view_ok (view s) \<Longrightarrow>
   \<exists>ts s'. request_infos e on ex qs s = Some (ts, s') \<and> manager s' = manager s \<and> queue_heads s' = queue_heads s
     \<and> view_ok (view s')"
proof (induction qs arbitrary: s)
  case (Cons q qs)
  show ?case
  proof (cases "parse_raw e (ar_token q)")
    case (Inr raw)
    obtain x s1 where s1: "request_info e on q raw s = Some (x, s1)" "manager s1 = manager s"
      "queue_heads s1 = queue_heads s" "view_ok (view s1)"
      using request_info_ok [OF Cons.prems] by blast
    with Cons.IH [OF s1(4)] Cons.IH [OF Cons.prems] Inr show ?thesis by auto
  qed (use Cons in simp)
qed simp

text \<open>The aliases a deletion request reports: those without a token when their turn comes.\<close>

fun missing :: "bytes list \<Rightarrow> (bytes \<rightharpoonup> 'a) \<Rightarrow> bytes list" where
  "missing [] t = []"
| "missing (a # as) t = (if t a = None then a # missing as t else missing as (t(a := None)))"

lemma delete_loop_ok:
  "app_inv s \<Longrightarrow>
   \<exists>s'. delete_loop as upd failed s
       = Some (upd \<or> (\<exists>a \<in> set as. alias_table (manager s) a \<noteq> None),
               map_option (\<lambda>fs. fs @ missing as (alias_table (manager s))) failed, s')
     \<and> app_inv s' \<and> alias_table (manager s') = alias_table (manager s) |` (- set as)"
proof (induction as arbitrary: upd failed s)
  case Nil
  then show ?case by (cases failed) simp_all
next
  case (Cons a as)
  let ?t = "alias_table (manager s)"
  have inv: "manager_inv (manager s)" using Cons.prems by (rule app_invD)
  show ?case
  proof (cases "alias_map (manager s) a")
    case None
    then have ta: "?t a = None" by (simp add: alias_table_def)
    then have "?t |` (- set (a # as)) = ?t |` (- set as)" by (auto simp: restrict_map_def)
    with Cons.IH [OF Cons.prems, of upd "map_option (\<lambda>fs. fs @ [a]) failed"] None ta show ?thesis
      by (auto simp: option.map_comp comp_def)
  next
    case (Some i)
    then have ia: "slot (id_to_alias (manager s)) i = Some a" using manager_inv_lookup(1) [OF inv] by simp
    have ta: "?t a \<noteq> None" using Some by (simp add: alias_table_None [OF inv])
    obtain heads m' where m': "manager_remove i (queue_heads s) (manager s) = Some (?t a, heads, m')"
      "manager_inv m'" "length heads = length (queue_heads s)" "alias_table m' = ?t(a := None)"
      using manager_remove_table [OF inv ia] by blast
    let ?s = "s\<lparr>manager := m', queue_heads := heads\<rparr>"
    have "app_inv ?s" using m' Cons.prems by (simp add: app_inv_def)
    then obtain s' where s': "delete_loop as True failed ?s
        = Some (True, map_option (\<lambda>fs. fs @ missing as (alias_table m')) failed, s')"
      "app_inv s'" "alias_table (manager s') = alias_table m' |` (- set as)"
      using Cons.IH [of ?s True failed] by auto
    have t: "alias_table m' |` (- set as) = ?t |` (- set (a # as))"
      unfolding m'(4) by (auto simp: restrict_map_def)
    have mi: "missing (a # as) ?t = missing as (alias_table m')" using ta by (auto simp: m'(4))
    have "(\<exists>b \<in> set (a # as). ?t b \<noteq> None)" using ta by auto
    then show ?thesis
      unfolding mi t [symmetric] using s' Some m'(1) by simp
  qed
qed


section \<open>Serving requests\<close>

datatype 'p request =
  GetTokens | SetTokens "(bytes \<times> 'p token_info) list" | AddTokens "add_request_token list" bool
  | DeleteTokens "bytes list" bool | UpdateProfile "bytes list" | UpdateConfigVersion "bytes list"
  | RefreshTokens "bytes list" | SetStatus "bytes list" token_status | SetAlias "(bytes \<times> bytes) list"
  | SetProxy "bytes list" "bytes option" | SetTimezone "bytes list" "tz option"
  | MergeTokens "(bytes \<times> merge_token) list"

fun handle :: "('p, 'w) env \<Rightarrow> 'p request \<Rightarrow> ('p, 'w) app \<Rightarrow> ('p response \<times> ('p, 'w) app) ub" where
  "handle e GetTokens s = handle_get_tokens s"
| "handle e (SetTokens ts) s = handle_set_tokens e ts s"
| "handle e (AddTokens qs on) s = handle_add_tokens e qs on s"
| "handle e (DeleteTokens as inc) s = handle_delete_tokens e as inc s"
| "handle e (UpdateProfile as) s = handle_update_tokens_profile e as s"
| "handle e (UpdateConfigVersion as) s = handle_update_tokens_config_version e as s"
| "handle e (RefreshTokens as) s = handle_refresh_tokens e as s"
| "handle e (SetStatus as st) s = handle_set_tokens_status e as st s"
| "handle e (SetAlias as) s = handle_set_tokens_alias e as s"
| "handle e (SetProxy as px) s = handle_set_tokens_proxy e as px s"
| "handle e (SetTimezone as z) s = handle_set_tokens_timezone e as z s"
| "handle e (MergeTokens ms) s = handle_merge_tokens e ms s"

text \<open>What the handlers do not check: that the keys of new tokens differ from each other and from the
  keys in use.\<close>

fun request_ok :: "('p, 'w) env \<Rightarrow> 'p request \<Rightarrow> ('p, 'w) app \<Rightarrow> bool" where
  "request_ok e (SetTokens ts) s = distinct (map (info_key \<circ> snd) ts)"
| "request_ok e (AddTokens qs on) s =
     (case request_infos e on (existing_tokens (manager s)) qs s of
        None \<Rightarrow> True
      | Some (ts, _) \<Rightarrow> distinct (map (info_key \<circ> fst) ts) \<and> (\<forall>(t, a) \<in> set ts. id_map (manager s) (info_key t) = None))"
| "request_ok e (RefreshTokens as) s = adm_run (refresh_step e) (renewal_ok e) as s"
| "request_ok e (MergeTokens ms) s = adm_run merge_step merge_ok ms s"
| "request_ok e _ s = True"

fun serve :: "('p, 'w) env \<Rightarrow> 'p request list \<Rightarrow> ('p, 'w) app \<Rightarrow> ('p response list \<times> ('p, 'w) app) ub" where
  "serve e [] s = Some ([], s)"
| "serve e (q # qs) s = do { (r, s) \<leftarrow> handle e q s; (rs, s) \<leftarrow> serve e qs s; Some (r # rs, s) }"

fun requests_ok :: "('p, 'w) env \<Rightarrow> 'p request list \<Rightarrow> ('p, 'w) app \<Rightarrow> bool" where
  "requests_ok e [] s = True"
| "requests_ok e (q # qs) s =
     (request_ok e q s \<and> (case handle e q s of None \<Rightarrow> True | Some (_, s') \<Rightarrow> requests_ok e qs s'))"

lemma adm_run_True [simp]: "adm_run step (\<lambda>_ _. True) xs s"
  by (induction xs arbitrary: s) (auto split: option.splits)

lemma list_loop_total:
  assumes "\<And>i t. (i, t) \<in> set (live n ts) \<Longrightarrow> \<exists>a. slot als i = Some a"
  shows "\<exists>l. list_loop n ts als = Some l"
  using assms
proof (induction ts arbitrary: n)
  case (Cons u ts)
  have "\<exists>l. list_loop (Suc n) ts als = Some l"
    using Cons.prems by (intro Cons.IH) (cases u; fastforce)
  moreover have "u = Some t \<Longrightarrow> \<exists>a. slice_get als n = Some (Some a)" for t
    using Cons.prems [of n t] slot_slice_get by fastforce
  ultimately show ?case by (cases u) fastforce+
qed simp

lemma save_if_updated_safe:
  "app_inv s \<Longrightarrow> \<exists>r s'. save_if_updated e updated on_error ok s = Some (r, s') \<and> app_inv s'"
  using save_if_updated_ok [of s e updated on_error ok] by fastforce

lemma save_safe: "app_inv s \<Longrightarrow> \<exists>r s'. save e s = Some (r, s') \<and> app_inv s'"
  using save_ok [of s e] by fastforce

text \<open>The handlers of the form \<open>count, then save\<close>.\<close>

lemma count_then_save:
  assumes "\<exists>k s'. count_loop step xs 0 0 s = Some (0 + of_nat k, 0 + of_nat (length xs - k), s') \<and> k \<le> length xs \<and> I s'"
    and "\<And>s'. I s' \<Longrightarrow> app_inv (g s')"
  shows "\<exists>r s'. do { (updated, failed, s) \<leftarrow> count_loop step xs 0 0 s;
      save_if_updated e updated (h updated failed) (ok updated failed s) (g s) } = Some (r, s') \<and> app_inv s'"
proof -
  obtain k s1 where "count_loop step xs 0 0 s = Some (0 + of_nat k, 0 + of_nat (length xs - k), s1)" "I s1"
    using assms(1) by blast
  with save_if_updated_safe [OF assms(2)] show ?thesis by fastforce
qed


lemma handle_set_tokens_safe:
  assumes inv: "app_inv s" and ok: "distinct (map (info_key \<circ> snd) ts)"
  shows "\<exists>r s'. handle_set_tokens e ts s = Some (r, s') \<and> app_inv s'"
proof -
  have "distinct (map (info_key \<circ> fst) (map (\<lambda>(a, t). (t, a)) ts))"
    using ok by (simp add: comp_def case_prod_unfold)
  then obtain m' where m': "add_all (map (\<lambda>(a, t). (t, a)) ts) manager_new = Some m'" "manager_inv m'"
    using add_all_ok [OF manager_new_inv, of "map (\<lambda>(a, t). (t, a)) ts"] by auto
  have "app_inv (s\<lparr>manager := m'\<rparr>)" using m'(2) inv by (simp add: app_inv_def)
  with save_safe [of "s\<lparr>manager := m'\<rparr>" e] m' show ?thesis by (auto simp: handle_set_tokens_def)
qed

lemma handle_add_tokens_safe:
  assumes inv: "app_inv s" and ok: "request_ok e (AddTokens qs on) s"
  shows "\<exists>r s'. handle_add_tokens e qs on s = Some (r, s') \<and> app_inv s'"
proof -
  obtain ts s1 where s1: "request_infos e on (existing_tokens (manager s)) qs s = Some (ts, s1)"
    "manager s1 = manager s" "queue_heads s1 = queue_heads s" "view_ok (view s1)"
    using request_infos_ok [OF app_invD(3) [OF inv]] by blast
  obtain m' where m': "add_all ts (manager s) = Some m'" "manager_inv m'"
    using add_all_ok [OF app_invD(1) [OF inv], of ts] ok s1(1) by auto
  have "app_inv s1" "app_inv (s1\<lparr>manager := m'\<rparr>)"
    using m'(2) inv s1 by (simp_all add: app_inv_def)
  with save_safe [of "s1\<lparr>manager := m'\<rparr>" e] m' s1 show ?thesis
    by (auto simp: handle_add_tokens_def)
qed

lemma handle_update_tokens_profile_safe:
  fixes e :: "('p, 'w) env"
  assumes inv: "app_inv s"
  shows "\<exists>r s'. handle_update_tokens_profile e as s = Some (r, s') \<and> app_inv s'"
proof -
  obtain k us s1 where s1: "count_loop (profile_step e (length as)) as 0 0 ([], s)
      = Some (0 + of_nat k, 0 + of_nat (length as - k), us, s1)" "app_inv s1"
    using set_profile.count_loop_safe [of "([], s)" e "length as" as 0 0] inv
      profile_has_room [OF inv, of "[]" as "length as" e] by auto
  obtain m' where m': "set_aliases us (manager s1) = Some m'" "manager_inv m'"
    using set_aliases_ok [OF app_invD(1) [OF s1(2)]] by blast
  have "app_inv (s1\<lparr>manager := m'\<rparr>)" using m'(2) s1(2) by (simp add: app_inv_def)
  note saved = save_if_updated_safe [OF this]
  show ?thesis
  proof (cases "as = []")
    case True
    with inv show ?thesis by (simp add: handle_update_tokens_profile_def)
  next
    case False
    then show ?thesis
      unfolding handle_update_tokens_profile_def s1(1) using m'(1) saved by simp
  qed
qed

lemma handle_update_tokens_config_version_safe:
  fixes e :: "('p, 'w) env"
  assumes inv: "app_inv s"
  shows "\<exists>r s'. handle_update_tokens_config_version e as s = Some (r, s') \<and> app_inv s'"
proof (cases "as = []")
  case True
  with inv show ?thesis by (simp add: handle_update_tokens_config_version_def)
next
  case False
  obtain k short s1 where s1: "count_loop (config_version_step e) as 0 0 (0, s)
      = Some (0 + of_nat k, 0 + of_nat (length as - k), short, s1)" "app_inv s1"
    using set_config_version.count_loop_safe [of "(0, s)" e as 0 0] inv by auto
  from False show ?thesis
    unfolding handle_update_tokens_config_version_def s1(1) using save_if_updated_safe [OF s1(2)] by simp
qed

lemma handle_delete_tokens_safe:
  assumes "app_inv s"
  shows "\<exists>r s'. handle_delete_tokens e as inc s = Some (r, s') \<and> app_inv s'"
proof -
  obtain u f s1 where s1: "delete_loop as False (if inc then Some [] else None) s = Some (u, f, s1)" "app_inv s1"
    using delete_loop_ok [OF assms] by blast
  with save_safe [OF s1(2), of e] show ?thesis by (auto simp: handle_delete_tokens_def)
qed

lemma handle_safe:
  fixes e :: "('p, 'w) env"
  assumes inv: "app_inv s" and ok: "request_ok e q s"
  shows "\<exists>r s'. handle e q s = Some (r, s') \<and> app_inv s'"
proof (cases q)
  case GetTokens
  have "\<exists>l. manager_list (manager s) = Some l"
    unfolding manager_list_def using live_alias [OF app_invD(1) [OF inv]] by (rule list_loop_total)
  with GetTokens inv show ?thesis by (auto simp: handle_get_tokens_def)
next
  case (RefreshTokens as)
  with count_then_save [OF renew.count_loop_safe [OF inv, of e as 0 0], where g = "\<lambda>s. s"] inv ok show ?thesis
    by (simp add: handle_refresh_tokens_def)
next
  case (SetStatus as st)
  with count_then_save [OF set_status.count_loop_safe [OF inv, of st as 0 0], where g = "\<lambda>s. s"] inv show ?thesis
    by (simp add: handle_set_tokens_status_def)
next
  case (SetAlias as)
  with count_then_save [OF set_alias.count_loop_safe [OF inv, of as 0 0], where g = "\<lambda>s. s"] inv show ?thesis
    by (simp add: handle_set_tokens_alias_def)
next
  case (SetProxy as px)
  with count_then_save [OF set_proxy.count_loop_safe [OF inv, of px as 0 0], where g = "\<lambda>s. s"] inv show ?thesis
    by (simp add: handle_set_tokens_proxy_def)
next
  case (SetTimezone as z)
  with count_then_save [OF set_timezone.count_loop_safe [OF inv, of z as 0 0], where g = "\<lambda>s. s"] inv show ?thesis
    by (simp add: handle_set_tokens_timezone_def)
next
  case (MergeTokens ms)
  with count_then_save [OF merge.count_loop_safe [OF inv, of ms 0 0], where g = "\<lambda>s. s"] inv ok show ?thesis
    by (simp add: handle_merge_tokens_def)
qed (use handle_set_tokens_safe [OF inv] handle_add_tokens_safe [OF inv] handle_delete_tokens_safe [OF inv]
       handle_update_tokens_profile_safe [OF inv]
       handle_update_tokens_config_version_safe [OF inv] ok in auto)


section \<open>Properties\<close>

definition sample_env :: "(unit, unit) env" where
  "sample_env =
     \<lparr>env_big = False, to_bytes = (\<lambda>_. Some []), write_file = (\<lambda>_ w. (True, w)), parse_raw = (\<lambda>_. Inl InvalidHeader),
      raw_to_string = (\<lambda>_. []), random_hash = (\<lambda>w. (hash_nil, w)), new_v4 = (\<lambda>w. (0, w)), parse_uuid = (\<lambda>_. None),
      parse_tz = (\<lambda>_. None), is_blank = (\<lambda>a. a = []), get_token_profile = (\<lambda>_ w. ((None, None, None, None), w)),
      get_server_config = (\<lambda>_ w. (None, w)), send_refresh = (\<lambda>_ w. (None, w)), send_upgrade = (\<lambda>_ w. (False, w)),
      send_poll = (\<lambda>_ w. (PollFailed, w))\<rparr>"

definition sample_app :: "(unit, unit) app" where
  "sample_app = \<lparr>manager = sample_manager, queue_heads = QUEUE_HEADS_init, view = Map.empty, world = ()\<rparr>"

lemma sample_app_inv: "app_inv sample_app"
  by (simp add: app_inv_def sample_app_def sample_manager_inv QUEUE_HEADS_init_def view_ok_def)

text \<open>C21: The token routes never reach undefined behaviour.  Starting from a state in which the invariant
  holds, every sequence of requests (listing, replacing, adding, deleting, profiles, configuration
  versions, renewals, statuses, aliases, proxies, time zones, merges), whatever the network, the disk
  and the random numbers do, is answered request by request and leaves the invariant in place,
  provided new tokens do not reuse the key of another token.\<close>

theorem serve_safe:
  assumes "app_inv s" "requests_ok e qs s"
  shows "\<exists>rs s'. serve e qs s = Some (rs, s') \<and> length rs = length qs \<and> app_inv s'"
  using assms
proof (induction qs arbitrary: s)
  case (Cons q qs)
  then obtain r s1 where s1: "handle e q s = Some (r, s1)" "app_inv s1"
    using handle_safe [of s e q] by auto
  with Cons.IH [OF s1(2)] Cons.prems(2) show ?case by auto
qed simp

theorem serve_safe_witness:
  "\<exists>rs s'. serve sample_env
      [SetStatus [bytes_of ''a''] token_status_default, DeleteTokens [bytes_of ''c''] True,
       UpdateProfile [bytes_of ''a''], SetAlias [(bytes_of ''a'', UNNAMED)], GetTokens] sample_app = Some (rs, s')
     \<and> length rs = 5 \<and> app_inv s'"
proof -
  let ?qs = "[SetStatus [bytes_of ''a''] token_status_default, DeleteTokens [bytes_of ''c''] True,
       UpdateProfile [bytes_of ''a''], SetAlias [(bytes_of ''a'', UNNAMED)], GetTokens] :: unit request list"
  have "requests_ok sample_env ?qs sample_app"
    by (simp del: handle.simps split: option.split prod.split)
  from serve_safe [OF sample_app_inv this] obtain rs s' where
    "serve sample_env ?qs sample_app = Some (rs, s')" "length rs = length ?qs" "app_inv s'" by blast
  moreover have "length ?qs = 5" by simp
  ultimately show ?thesis by (intro exI [of _ rs] exI [of _ s']) (simp del: serve.simps)
qed

lemma fold_setter:
  assumes "\<And>t. f (f t) = f t"
  shows "fold (\<lambda>a t. t(a := map_option f (t a))) as t = (\<lambda>a. if a \<in> set as then map_option f (t a) else t a)"
proof -
  have "map_option f (map_option f x) = map_option f x" for x by (cases x) (simp_all add: assms)
  then show ?thesis by (induction as arbitrary: t) (auto simp: fun_eq_iff)
qed

text \<open>Setting the status of a list of aliases does exactly that.  The response counts the aliases that
  name a token and those that do not (the only other answer is the report of a failed save), the tokens
  named have the new status and are otherwise unchanged, all other tokens are untouched; an empty
  list is refused and changes nothing.\<close>

theorem set_tokens_status_spec:
  assumes "app_inv s"
  shows "handle_set_tokens_status e [] st s = Some (no_tokens_provided, s)
    \<and> (aliases \<noteq> [] \<longrightarrow> (\<exists>r s'. handle_set_tokens_status e aliases st s = Some (r, s') \<and> app_inv s'
        \<and> alias_table (manager s') = (\<lambda>a. if a \<in> set aliases
            then map_option (\<lambda>t. t\<lparr>status := st\<rparr>) (alias_table (manager s) a) else alias_table (manager s) a)
        \<and> (r = Common Success [Txt SET_SUCCESS,
               Num (of_nat (length (filter (\<lambda>a. alias_table (manager s) a \<noteq> None) aliases))), Txt T_STATUSES,
               Num (of_nat (length (filter (\<lambda>a. alias_table (manager s) a = None) aliases))), Txt SET_FAILURE_COUNT]
           \<or> r = failure INTERNAL_SERVER_ERROR ERROR_SAVE_TOKEN_STATUSES MESSAGE_SAVE_TOKEN_STATUS_FAILED)))"
proof (intro conjI impI)
  show "handle_set_tokens_status e [] st s = Some (no_tokens_provided, s)"
    by (simp add: handle_set_tokens_status_def)
  assume ne: "aliases \<noteq> []"
  let ?t = "alias_table (manager s)" and ?f = "\<lambda>t. t\<lparr>status := st\<rparr>"
  let ?n = "of_nat (length (filter (\<lambda>a. ?t a \<noteq> None) aliases)) :: u32"
    and ?k = "of_nat (length (filter (\<lambda>a. ?t a = None) aliases)) :: u32"
  obtain s1 where s1: "count_loop (with_info ?f) aliases 0 0 s = Some (?n, ?k, s1)" "app_inv s1"
    "alias_table (manager s1) = (\<lambda>a. if a \<in> set aliases then map_option ?f (?t a) else ?t a)"
    using set_status.count_loop_abs [OF assms, of st aliases 0 0] by (auto simp: fold_setter)
  from save_if_updated_ok [OF s1(2), of e ?n
    "\<lambda>_. failure INTERNAL_SERVER_ERROR ERROR_SAVE_TOKEN_STATUSES MESSAGE_SAVE_TOKEN_STATUS_FAILED"
    "Common Success [Txt SET_SUCCESS, Num ?n, Txt T_STATUSES, Num ?k, Txt SET_FAILURE_COUNT]"]
  obtain r w where "save_if_updated e ?n
      (\<lambda>_. failure INTERNAL_SERVER_ERROR ERROR_SAVE_TOKEN_STATUSES MESSAGE_SAVE_TOKEN_STATUS_FAILED)
      (Common Success [Txt SET_SUCCESS, Num ?n, Txt T_STATUSES, Num ?k, Txt SET_FAILURE_COUNT]) s1 = Some (r, s1\<lparr>world := w\<rparr>)"
    "r = Common Success [Txt SET_SUCCESS, Num ?n, Txt T_STATUSES, Num ?k, Txt SET_FAILURE_COUNT]
     \<or> r = failure INTERNAL_SERVER_ERROR ERROR_SAVE_TOKEN_STATUSES MESSAGE_SAVE_TOKEN_STATUS_FAILED"
    by auto
  with ne s1 show "\<exists>r s'. handle_set_tokens_status e aliases st s = Some (r, s') \<and> app_inv s'
        \<and> alias_table (manager s') = (\<lambda>a. if a \<in> set aliases then map_option ?f (?t a) else ?t a)
        \<and> (r = Common Success [Txt SET_SUCCESS, Num ?n, Txt T_STATUSES, Num ?k, Txt SET_FAILURE_COUNT]
           \<or> r = failure INTERNAL_SERVER_ERROR ERROR_SAVE_TOKEN_STATUSES MESSAGE_SAVE_TOKEN_STATUS_FAILED)"
    by (intro exI [of _ r] exI [of _ "s1\<lparr>world := w\<rparr>"]) (simp add: handle_set_tokens_status_def)
qed


theorem set_tokens_status_spec_witness:
  "\<exists>r s'. handle_set_tokens_status sample_env [bytes_of ''a'', bytes_of ''zz''] (token_status_default\<lparr>enabled := False\<rparr>) sample_app
      = Some (r, s')
    \<and> map_option is_enabled (alias_table (manager s') (bytes_of ''a'')) = Some False"
proof -
  have a: "alias_table (manager sample_app) (bytes_of ''a'') = Some (sample_info 1 True)"
    by (simp add: alias_table_def sample_manager_eq slot_def bytes_of_def generate_unnamed_alias_def UNNAMED_PATTERN_def
        sample_app_def)
  show ?thesis
    using set_tokens_status_spec [OF sample_app_inv, of sample_env "token_status_default\<lparr>enabled := False\<rparr>"
        "[bytes_of ''a'', bytes_of ''zz'']"]
    by (auto simp: a is_enabled_def)
qed

text \<open>Deleting removes exactly the aliases of the request: the table afterwards is the old table without
  them; the aliases reported as failed are those that named no token when their turn came, in order,
  and only when asked for; a failed save can be reported only when something was deleted.\<close>

theorem delete_tokens_spec:
  assumes "app_inv s"
  shows "\<exists>r s'. handle_delete_tokens e aliases inc s = Some (r, s') \<and> app_inv s'
    \<and> alias_table (manager s') = alias_table (manager s) |` (- set aliases)
    \<and> (r = TokensDelete Success (if inc then Some (missing aliases (alias_table (manager s))) else None)
       \<or> (\<exists>a \<in> set aliases. alias_table (manager s) a \<noteq> None) \<and> (\<exists>g. r = Failure INTERNAL_SERVER_ERROR (Some g)))"
proof -
  let ?t = "alias_table (manager s)"
  obtain s1 where s1: "delete_loop aliases False (if inc then Some [] else None) s
      = Some (\<exists>a \<in> set aliases. ?t a \<noteq> None, if inc then Some (missing aliases ?t) else None, s1)"
    "app_inv s1" "alias_table (manager s1) = ?t |` (- set aliases)"
    using delete_loop_ok [OF assms, of aliases False "if inc then Some [] else None"] by (cases inc) auto
  obtain r w where w: "save e s1 = Some (r, s1\<lparr>world := w\<rparr>)" using save_ok [OF s1(2)] by blast
  show ?thesis
  proof (cases "\<exists>a \<in> set aliases. ?t a \<noteq> None")
    case True
    with s1 w show ?thesis
      by (cases r) (simp_all add: handle_delete_tokens_def)
  next
    case False
    with s1 show ?thesis by (simp add: handle_delete_tokens_def)
  qed
qed

theorem delete_tokens_spec_witness:
  "\<exists>r s'. handle_delete_tokens sample_env [bytes_of ''a'', bytes_of ''a''] True sample_app = Some (r, s')
    \<and> alias_table (manager s') (bytes_of ''a'') = None
    \<and> missing [bytes_of ''a'', bytes_of ''a''] (alias_table (manager sample_app)) = [bytes_of ''a'']"
proof -
  have a: "alias_table (manager sample_app) (bytes_of ''a'') = Some (sample_info 1 True)"
    by (simp add: alias_table_def sample_manager_eq slot_def bytes_of_def generate_unnamed_alias_def UNNAMED_PATTERN_def
        sample_app_def)
  show ?thesis
    using delete_tokens_spec [OF sample_app_inv, of sample_env "[bytes_of ''a'', bytes_of ''a'']" True]
    by (auto simp: a)
qed

text \<open>The condition on keys is needed.  Merging into a token the primary token of another slot is accepted
  by the handler and runs into the unchecked assertion of the writer.\<close>

theorem merge_duplicate_key_undefined:
  assumes "app_inv s" "alias_map (manager s) a = Some i" "slot (tokens (manager s)) i = Some t"
    and "mt_primary_token mt = Some tok" "key_of_token tok \<noteq> info_key t"
    and "id_map (manager s) (key_of_token tok) = Some j"
  shows "handle_merge_tokens e [(a, mt)] s = None"
proof -
  have k: "info_key (t\<lparr>ext_bundle := merge_bundle mt (ext_bundle t)\<rparr>) = key_of_token tok"
    using assms(4) by (simp add: info_key_def merge_bundle_def or_else_def)
  have q: "q_map (queue (manager s)) (key_of_token tok) \<noteq> None"
    using q_map_id_map [OF app_invD(1) [OF assms(1)]] assms(6) by simp
  then have "fst (queue_set_key (info_key t) (key_of_token tok) (queue (manager s))) = False"
    using assms(5) by (auto simp: queue_set_key_def Let_def split: option.splits)
  then have "writer_update i (merge_bundle mt) (manager s) = None"
    using slot_slice_get [OF assms(3)] assms(5) k
    by (auto simp: writer_update_def writer_drop_def Let_def case_prod_unfold bind_eq_None_conv)
  then show ?thesis
    using assms(2,4) by (simp add: handle_merge_tokens_def merge_step_def has_some_def)
qed

end
