(* ===== verification/Grpc_Stream.thy ===== *)
theory Grpc_Stream
  imports Alphabet
begin

text \<open>
  \<^verbatim>\<open>crates/grpc-stream\<close>: the incremental decoder of length-prefixed gRPC frames.  A
  \<open>buffer\<close> accumulates the bytes received so far; \<open>iter_next\<close> cuts complete frames off it
  with unchecked slice accesses; \<open>decode\<close> feeds one network chunk and returns the messages it
  completed.  \<^verbatim>\<open>usize\<close> offsets are natural numbers: on the 64-bit targets an offset into a
  buffer plus five plus a 32-bit length does not wrap.

  The Protobuf decoder (\<^verbatim>\<open>prost\<close>) and the gzip decompressor (\<^verbatim>\<open>flate2\<close>) are
  parameters.
\<close>

section \<open>Frames and buffers\<close>

record raw_message =
  type_of :: u8
  data_of :: bytes

definition total_size :: "raw_message \<Rightarrow> nat" where
  "total_size m = 5 + length (data_of m)"

record buffer =
  inner :: bytes

definition buffer_new :: buffer where
  "buffer_new = \<lparr>inner = []\<rparr>"

definition buffer_len :: "buffer \<Rightarrow> nat" where
  "buffer_len b = length (inner b)"

definition buffer_is_empty :: "buffer \<Rightarrow> bool" where
  "buffer_is_empty b \<longleftrightarrow> inner b = []"

definition extend_from_slice :: "buffer \<Rightarrow> bytes \<Rightarrow> buffer" where
  "extend_from_slice b data = b\<lparr>inner := inner b @ data\<rparr>"

text \<open>\<^verbatim>\<open>BytesMut::advance\<close> panics past the end of the buffer.\<close>

definition advance :: "buffer \<Rightarrow> nat \<Rightarrow> buffer ub" where
  "advance b cnt =
     (if cnt \<le> length (inner b) then Some (b\<lparr>inner := drop cnt (inner b)\<rparr>) else None)"

section \<open>The message iterator\<close>

record message_iter =
  buf :: bytes
  off :: nat

definition into_iter :: "buffer \<Rightarrow> message_iter" where
  "into_iter b = \<lparr>buf = inner b, off = 0\<rparr>"

text \<open>\<^verbatim>\<open>get_offset_len_noubcheck\<close>: a raw sub-slice, undefined when it leaves the buffer.\<close>

definition get_offset_len_noubcheck :: "bytes \<Rightarrow> nat \<Rightarrow> nat \<Rightarrow> bytes ub" where
  "get_offset_len_noubcheck bs offset len =
     (if offset + len \<le> length bs then Some (take len (drop offset bs)) else None)"

definition from_be_bytes_u32 :: "bytes \<Rightarrow> u32" where
  "from_be_bytes_u32 bs = of_nat (be_val bs)"

definition iter_next :: "message_iter \<Rightarrow> (raw_message option \<times> message_iter) ub" where
  "iter_next it =
     (if off it + 5 > length (buf it) then Some (None, it)
      else do {
        ty \<leftarrow> slice_get (buf it) (off it);
        len_bytes \<leftarrow> get_offset_len_noubcheck (buf it) (off it + 1) 4;
        let msg_len = unat (from_be_bytes_u32 len_bytes);
        (if off it + 5 + msg_len > length (buf it) then Some (None, it)
         else do {
           data \<leftarrow> get_offset_len_noubcheck (buf it) (off it + 5) msg_len;
           Some (Some \<lparr>type_of = ty, data_of = data\<rparr>, it\<lparr>off := off it + 5 + msg_len\<rparr>)
         })
      })"

text \<open>\<^verbatim>\<open>size_hint\<close>: the loop over \<^verbatim>\<open>(count, offset)\<close>.\<close>

function size_hint_loop :: "bytes \<Rightarrow> nat \<Rightarrow> nat \<Rightarrow> nat ub" where
  "size_hint_loop bs offset count =
     (if offset + 5 \<le> length bs then
        (case get_offset_len_noubcheck bs (offset + 1) 4 of
           None \<Rightarrow> None
         | Some len_bytes \<Rightarrow>
             let msg_len = unat (from_be_bytes_u32 len_bytes)
             in if offset + 5 + msg_len > length bs then Some count
                else size_hint_loop bs (offset + (5 + msg_len)) (count + 1))
      else Some count)"
  by pat_completeness auto
termination
  by (relation "measure (\<lambda>(bs, offset, count). length bs - offset)") auto

declare size_hint_loop.simps [simp del]

definition size_hint :: "message_iter \<Rightarrow> (nat \<times> nat option) ub" where
  "size_hint it = do { count \<leftarrow> size_hint_loop (buf it) (off it) 0; Some (count, Some count) }"

definition iter_len :: "message_iter \<Rightarrow> nat ub" where
  "iter_len it = do { (count, _) \<leftarrow> size_hint it; Some count }"

lemma iter_next_progress:
  "iter_next it = Some (Some m, it') \<Longrightarrow> buf it' = buf it \<and> off it < off it' \<and> off it' \<le> length (buf it)"
  by (auto simp: iter_next_def Let_def split: if_splits bind_splits)

text \<open>\<^verbatim>\<open>for raw_msg in &mut iter\<close> with the processor's results pushed in order.\<close>

function iter_for ::
  "(raw_message \<Rightarrow> 'm option ub) \<Rightarrow> message_iter \<Rightarrow> ('m list \<times> message_iter) ub" where
  "iter_for processor it =
     (case iter_next it of
        None \<Rightarrow> None
      | Some (None, it') \<Rightarrow> Some ([], it')
      | Some (Some raw_msg, it') \<Rightarrow> do {
          r \<leftarrow> processor raw_msg;
          (messages, it'') \<leftarrow> iter_for processor it';
          Some (case r of None \<Rightarrow> (messages, it'') | Some msg \<Rightarrow> (msg # messages, it''))
        })"
  by pat_completeness auto
termination
  by (relation "measure (\<lambda>(p, it). length (buf it) - off it)")
     (auto dest!: iter_next_progress)

declare iter_for.simps [simp del]

section \<open>The stream decoder\<close>

record stream_decoder =
  sd_buffer :: buffer

definition stream_decoder_new :: stream_decoder where
  "stream_decoder_new = \<lparr>sd_buffer = buffer_new\<rparr>"

definition decode ::
  "stream_decoder \<Rightarrow> bytes \<Rightarrow> (raw_message \<Rightarrow> 'm option ub) \<Rightarrow> ('m list \<times> stream_decoder) ub" where
  "decode self data processor =
     (let b = extend_from_slice (sd_buffer self) data; it = into_iter b
      in do {
        exact_count \<leftarrow> iter_len it;
        (messages, it) \<leftarrow> iter_for processor it;
        b \<leftarrow> advance b (off it);
        Some (messages, self\<lparr>sd_buffer := b\<rparr>)
      })"

definition MAX_DECOMPRESSED_SIZE_BYTES :: nat where
  "MAX_DECOMPRESSED_SIZE_BYTES = 0x400000"

definition from_le_bytes_u32 :: "bytes \<Rightarrow> u32" where
  "from_le_bytes_u32 bs = of_nat (le_val bs)"

text \<open>\<open>gunzip\<close> stands for \<^verbatim>\<open>GzDecoder::read_to_end\<close>: \<^term>\<open>None\<close> is its \<^verbatim>\<open>Err\<close>.\<close>

definition decompress_gzip :: "(bytes \<Rightarrow> bytes option) \<Rightarrow> bytes \<Rightarrow> bytes option ub" where
  "decompress_gzip gunzip data =
     (if length data < 20 then Some None
      else do {
        b0 \<leftarrow> slice_get data 0;
        b1 \<leftarrow> slice_get data 1;
        b2 \<leftarrow> slice_get data 2;
        (if b0 \<noteq> 0x1f \<or> b1 \<noteq> 0x8b \<or> b2 \<noteq> 0x08 then Some None
         else do {
           footer \<leftarrow> get_offset_len_noubcheck data (length data - 4) 4;
           let capacity = unat (from_le_bytes_u32 footer);
           (if capacity > MAX_DECOMPRESSED_SIZE_BYTES then Some None
            else Some (gunzip data))
         })
      })"

definition decode_message :: "(bytes \<Rightarrow> 'm option) \<Rightarrow> bytes \<Rightarrow> 'm option" where
  "decode_message prost_decode data = prost_decode data"

definition decode_compressed_message ::
  "(bytes \<Rightarrow> bytes option) \<Rightarrow> (bytes \<Rightarrow> 'm option) \<Rightarrow> bytes \<Rightarrow> 'm option ub" where
  "decode_compressed_message gunzip prost_decode data = do {
     decompressed \<leftarrow> decompress_gzip gunzip data;
     Some (case decompressed of None \<Rightarrow> None | Some d \<Rightarrow> decode_message prost_decode d)
   }"

definition default_processor ::
  "(bytes \<Rightarrow> bytes option) \<Rightarrow> (bytes \<Rightarrow> 'm option) \<Rightarrow> raw_message \<Rightarrow> 'm option ub" where
  "default_processor gunzip prost_decode raw_msg =
     (if type_of raw_msg = 0 then Some (decode_message prost_decode (data_of raw_msg))
      else if type_of raw_msg = 1 then decode_compressed_message gunzip prost_decode (data_of raw_msg)
      else Some None)"

definition decode_default ::
  "(bytes \<Rightarrow> bytes option) \<Rightarrow> (bytes \<Rightarrow> 'm option) \<Rightarrow> stream_decoder \<Rightarrow> bytes
   \<Rightarrow> ('m list \<times> stream_decoder) ub" where
  "decode_default gunzip prost_decode self data =
     decode self data (default_processor gunzip prost_decode)"

section \<open>Reference parser\<close>

text \<open>The frame format: one type byte, a big-endian 32-bit length, the data.\<close>

definition frame_bytes :: "raw_message \<Rightarrow> bytes" where
  "frame_bytes m = type_of m # be_bytes 4 (length (data_of m)) @ data_of m"

definition parse1 :: "bytes \<Rightarrow> raw_message option" where
  "parse1 bs =
     (if length bs < 5 then None
      else let n = be_val (take 4 (drop 1 bs))
           in if length bs < 5 + n then None
              else Some \<lparr>type_of = hd bs, data_of = take n (drop 5 bs)\<rparr>)"

lemma parse1_size: "parse1 bs = Some m \<Longrightarrow> total_size m \<le> length bs \<and> 5 \<le> total_size m"
  by (auto simp: parse1_def Let_def total_size_def split: if_splits)

function parse_frames :: "bytes \<Rightarrow> raw_message list \<times> bytes" where
  "parse_frames bs =
     (case parse1 bs of
        None \<Rightarrow> ([], bs)
      | Some m \<Rightarrow> let (ms, rest) = parse_frames (drop (total_size m) bs) in (m # ms, rest))"
  by pat_completeness auto
termination
  by (relation "measure length") (auto dest!: parse1_size)

declare parse_frames.simps [simp del]

lemma length_frame_bytes: "length (frame_bytes m) = total_size m"
  by (simp add: frame_bytes_def total_size_def)

lemma parse1_append: "parse1 xs = Some m \<Longrightarrow> parse1 (xs @ ys) = Some m"
  by (auto simp: parse1_def Let_def hd_append split: if_splits)

lemma parse1_frame [codec_simps]:
  "length (data_of m) < 2 ^ 32 \<Longrightarrow> parse1 (frame_bytes m @ rest) = Some m"
  by (cases m) (simp add: parse1_def frame_bytes_def Let_def be_val_be_bytes)

lemma parse_frames_append:
  "parse_frames (xs @ ys) =
     (let (m1, r1) = parse_frames xs; (m2, r2) = parse_frames (r1 @ ys) in (m1 @ m2, r2))"
proof (induction xs rule: parse_frames.induct)
  case (1 xs)
  show ?case
  proof (cases "parse1 xs")
    case None
    then show ?thesis
      by (simp add: parse_frames.simps [of xs] split: prod.split)
  next
    case (Some m)
    then have "drop (total_size m) (xs @ ys) = drop (total_size m) xs @ ys"
      by (simp add: parse1_size)
    with Some "1.IH" [OF Some] show ?thesis
      by (simp add: parse_frames.simps [of "xs @ ys"] parse_frames.simps [of xs] parse1_append
          split: prod.split)
  qed
qed

lemma parse_frames_rest: "parse1 (snd (parse_frames bs)) = None"
proof (induction bs rule: parse_frames.induct)
  case (1 bs)
  then show ?case
    by (subst parse_frames.simps) (auto split: option.split prod.split)
qed

lemma parse_frames_drained [simp]: "parse1 bs = None \<Longrightarrow> parse_frames bs = ([], bs)"
  by (simp add: parse_frames.simps)

lemma parse_frames_frames:
  "\<forall>m \<in> set ms. length (data_of m) < 2 ^ 32 \<Longrightarrow>
     parse_frames (concat (map frame_bytes ms) @ rest)
     = (let (ms', r) = parse_frames rest in (ms @ ms', r))"
proof (induction ms)
  case (Cons m ms)
  have "drop (total_size m) (frame_bytes m @ concat (map frame_bytes ms) @ rest)
      = concat (map frame_bytes ms) @ rest"
    by (simp flip: length_frame_bytes)
  with Cons show ?case
    by (subst parse_frames.simps) (simp add: parse1_frame split: prod.split)
qed simp

lemma length_parse_frames:
  "length bs = sum_list (map total_size (fst (parse_frames bs))) + length (snd (parse_frames bs))"
proof (induction bs rule: parse_frames.induct)
  case (1 bs)
  show ?case
  proof (cases "parse1 bs")
    case None
    then show ?thesis by simp
  next
    case (Some m)
    with "1.IH" [OF Some] parse1_size [OF Some] show ?thesis
      by (auto simp: parse_frames.simps [of bs] split: prod.split)
  qed
qed

lemma parse_frames_suffix: "\<exists>used. bs = used @ snd (parse_frames bs)"
proof (induction bs rule: parse_frames.induct)
  case (1 bs)
  show ?case
  proof (cases "parse1 bs")
    case None
    then show ?thesis by simp
  next
    case (Some m)
    from "1.IH" [OF Some] obtain u where
      "drop (total_size m) bs = u @ snd (parse_frames (drop (total_size m) bs))" by blast
    then have "bs = (take (total_size m) bs @ u) @ snd (parse_frames (drop (total_size m) bs))"
      by (metis append.assoc append_take_drop_id)
    with Some show ?thesis
      by (simp add: parse_frames.simps [of bs] split: prod.split) (metis append.assoc snd_conv)
  qed
qed

section \<open>The unchecked iterator computes the reference parser\<close>

lemma be_val_4_bound: "length bs = 4 \<Longrightarrow> be_val bs < 2 ^ 32"
  using le_val_bound [of "rev bs"] by (simp add: be_val_def)

lemma unat_from_be_bytes_u32: "length bs = 4 \<Longrightarrow> unat (from_be_bytes_u32 bs) = be_val bs"
  using be_val_4_bound [of bs] by (simp add: from_be_bytes_u32_def unat_of_nat)

lemma iter_next_eq:
  assumes "off it \<le> length (buf it)"
  shows "iter_next it =
    Some (case parse1 (drop (off it) (buf it)) of
            None \<Rightarrow> (None, it)
          | Some m \<Rightarrow> (Some m, it\<lparr>off := off it + total_size m\<rparr>))"
proof (cases "off it + 5 \<le> length (buf it)")
  case True
  have "take 4 (drop (Suc (off it)) (buf it)) = take 4 (drop 1 (drop (off it) (buf it)))"
    by simp
  moreover have "drop (off it + 5) (buf it) = drop 5 (drop (off it) (buf it))"
    by (simp add: add.commute)
  ultimately show ?thesis
    using True
    by (auto simp: iter_next_def parse1_def Let_def get_offset_len_noubcheck_def
        unat_from_be_bytes_u32 total_size_def hd_drop_conv_nth)
next
  case False
  with assms show ?thesis
    by (auto simp: iter_next_def parse1_def)
qed

primrec run_processor :: "(raw_message \<Rightarrow> 'm option ub) \<Rightarrow> raw_message list \<Rightarrow> 'm list ub" where
  "run_processor p [] = Some []"
| "run_processor p (m # ms) = do {
     r \<leftarrow> p m;
     rs \<leftarrow> run_processor p ms;
     Some (case r of None \<Rightarrow> rs | Some x \<Rightarrow> x # rs)
   }"

lemma run_processor_append:
  "run_processor p (xs @ ys) =
     do { a \<leftarrow> run_processor p xs; b \<leftarrow> run_processor p ys; Some (a @ b) }"
proof (induction xs)
  case (Cons x xs)
  then show ?case
    by (cases "p x"; cases "run_processor p xs"; cases "run_processor p ys") (auto split: option.split)
qed (cases "run_processor p ys"; simp)

lemma run_processor_total: "(\<And>m. p m \<noteq> None) \<Longrightarrow> \<exists>xs. run_processor p ms = Some xs"
proof (induction ms)
  case (Cons m ms)
  then obtain r xs where "p m = Some r" "run_processor p ms = Some xs" by blast
  then show ?case by simp
qed simp

lemma iter_for_eq:
  assumes "off it \<le> length (buf it)"
  shows "iter_for p it =
    (let (ms, rest) = parse_frames (drop (off it) (buf it))
     in do { xs \<leftarrow> run_processor p ms; Some (xs, it\<lparr>off := length (buf it) - length rest\<rparr>) })"
  using assms
proof (induction p it rule: iter_for.induct)
  case (1 p it)
  let ?bs = "drop (off it) (buf it)"
  show ?case
  proof (cases "parse1 ?bs")
    case None
    with "1.prems" show ?thesis
      by (subst iter_for.simps) (simp add: iter_next_eq)
  next
    case (Some m)
    let ?it' = "it\<lparr>off := off it + total_size m\<rparr>"
    have nx: "iter_next it = Some (Some m, ?it')"
      using "1.prems" Some by (simp add: iter_next_eq)
    have le: "off ?it' \<le> length (buf ?it')"
      using parse1_size [OF Some] "1.prems" by auto
    have IH: "iter_for p ?it' = (let (ms, rest) = parse_frames (drop (off ?it') (buf ?it'))
        in do { xs \<leftarrow> run_processor p ms; Some (xs, ?it'\<lparr>off := length (buf ?it') - length rest\<rparr>) })"
      if "p m = Some r" for r
      using "1.IH" [OF nx refl refl that le] .
    have "drop (off ?it') (buf ?it') = drop (total_size m) ?bs"
      by (simp add: add.commute)
    with Some nx IH show ?thesis
      by (subst iter_for.simps; cases "p m")
         (auto simp: parse_frames.simps [of ?bs] Let_def split: prod.split option.split bind_split)
  qed
qed

lemma size_hint_loop_eq:
  "offset \<le> length bs \<Longrightarrow>
   size_hint_loop bs offset count = Some (count + length (fst (parse_frames (drop offset bs))))"
proof (induction bs offset count rule: size_hint_loop.induct)
  case (1 bs offset count)
  have n4: "offset + 5 \<le> length bs \<Longrightarrow>
      get_offset_len_noubcheck bs (offset + 1) 4 = Some (take 4 (drop (Suc offset) bs))"
    by (simp add: get_offset_len_noubcheck_def)
  show ?case
  proof (cases "parse1 (drop offset bs)")
    case None
    with "1.prems" n4 show ?thesis
      by (subst size_hint_loop.simps)
         (auto simp: Let_def parse1_def unat_from_be_bytes_u32 split: if_splits)
  next
    case (Some m)
    then have m: "total_size m = 5 + be_val (take 4 (drop (Suc offset) bs))"
      "offset + 5 \<le> length bs" "offset + total_size m \<le> length bs"
      using "1.prems" by (auto simp: parse1_def total_size_def Let_def split: if_splits)
    have "size_hint_loop bs (offset + total_size m) (count + 1)
        = Some (count + 1 + length (fst (parse_frames (drop (offset + total_size m) bs))))"
      using "1.IH" [OF m(2) n4 [OF m(2)] refl] m by (simp add: unat_from_be_bytes_u32)
    moreover have "drop (total_size m) (drop offset bs) = drop (offset + total_size m) bs"
      by (simp add: add.commute)
    ultimately show ?thesis
      using m n4 Some
      by (subst size_hint_loop.simps)
         (simp add: Let_def unat_from_be_bytes_u32 parse_frames.simps [of "drop offset bs"]
           split: prod.split)
  qed
qed

lemma decode_eq:
  "decode d data p =
     (let (ms, rest) = parse_frames (inner (sd_buffer d) @ data)
      in do { xs \<leftarrow> run_processor p ms; Some (xs, \<lparr>sd_buffer = \<lparr>inner = rest\<rparr>\<rparr>) })"
proof -
  obtain b0 where d: "d = \<lparr>sd_buffer = \<lparr>inner = b0\<rparr>\<rparr>"
    by (metis (full_types) buffer.surjective old.unit.exhaust stream_decoder.surjective)
  let ?bs = "b0 @ data"
  obtain ms rest where pf: "parse_frames ?bs = (ms, rest)" by fastforce
  obtain used where used: "?bs = used @ rest"
    using parse_frames_suffix [of ?bs] by (auto simp: pf)
  have it: "iter_len \<lparr>buf = ?bs, off = 0\<rparr> = Some (length ms)"
    by (simp add: iter_len_def size_hint_def size_hint_loop_eq pf)
  have fo: "iter_for p \<lparr>buf = ?bs, off = 0\<rparr> =
      do { xs \<leftarrow> run_processor p ms; Some (xs, \<lparr>buf = ?bs, off = length ?bs - length rest\<rparr>) }"
    by (simp add: iter_for_eq pf)
  have ad: "advance \<lparr>inner = ?bs\<rparr> (length ?bs - length rest) = Some \<lparr>inner = rest\<rparr>"
    unfolding used by (simp add: advance_def)
  show ?thesis
    unfolding d by (cases "run_processor p ms")
      (simp_all add: decode_def Let_def into_iter_def extend_from_slice_def it fo ad pf
        del: length_append)
qed

section \<open>Feeding a stream in chunks\<close>

text \<open>The contract a client of an incremental decoder relies on: after any call the state holds
  no complete message, and one call on a concatenation is two calls on its parts.  The
  client's view is the loop that feeds the chunks as they arrive.\<close>

primrec feed_chunks ::
  "('s \<Rightarrow> 'c list \<Rightarrow> ('m list \<times> 's) ub) \<Rightarrow> 's \<Rightarrow> 'c list list \<Rightarrow> ('m list \<times> 's) ub" where
  "feed_chunks feed s [] = Some ([], s)"
| "feed_chunks feed s (c # cs) =
     do { (m1, s1) \<leftarrow> feed s c; (m2, s2) \<leftarrow> feed_chunks feed s1 cs; Some (m1 @ m2, s2) }"

locale incremental =
  fixes feed :: "'s \<Rightarrow> 'c list \<Rightarrow> ('m list \<times> 's) ub"
    and drained :: "'s \<Rightarrow> bool"
  assumes feed_nil: "drained s \<Longrightarrow> feed s [] = Some ([], s)"
    and feed_append: "feed s (xs @ ys) =
          do { (m1, s1) \<leftarrow> feed s xs; (m2, s2) \<leftarrow> feed s1 ys; Some (m1 @ m2, s2) }"
    and feed_drained: "feed s xs = Some (ms, s') \<Longrightarrow> drained s'"
begin

lemma feed_chunks_concat: "drained s \<Longrightarrow> feed_chunks feed s cs = feed s (concat cs)"
proof (induction cs arbitrary: s)
  case Nil
  then show ?case by (simp add: feed_nil)
next
  case (Cons c cs)
  show ?case
  proof (cases "feed s c")
    case None
    then show ?thesis by (simp add: feed_append)
  next
    case (Some r)
    obtain m1 s1 where r: "r = (m1, s1)" by fastforce
    with Some have "drained s1" by (auto dest: feed_drained)
    then have "feed_chunks feed s1 cs = feed s1 (concat cs)" by (rule Cons.IH)
    with Some r show ?thesis by (simp add: feed_append)
  qed
qed

end

definition drained_decoder :: "stream_decoder \<Rightarrow> bool" where
  "drained_decoder d \<longleftrightarrow> parse1 (inner (sd_buffer d)) = None"

lemma decode_append:
  "decode d (xs @ ys) p =
     do { (m1, d1) \<leftarrow> decode d xs p; (m2, d2) \<leftarrow> decode d1 ys p; Some (m1 @ m2, d2) }"
proof -
  obtain ms1 r1 where 1: "parse_frames (inner (sd_buffer d) @ xs) = (ms1, r1)" by fastforce
  obtain ms2 r2 where 2: "parse_frames (r1 @ ys) = (ms2, r2)" by fastforce
  have "parse_frames (inner (sd_buffer d) @ xs @ ys) = (ms1 @ ms2, r2)"
    using parse_frames_append [of "inner (sd_buffer d) @ xs" ys] by (simp add: 1 2)
  then show ?thesis
    using 1 2
    by (cases "run_processor p ms1"; cases "run_processor p ms2")
       (simp_all add: decode_eq run_processor_append)
qed

interpretation gs: incremental "\<lambda>d data. decode d data p" drained_decoder for p
proof unfold_locales
  fix s
  assume "drained_decoder s"
  then show "decode s [] p = Some ([], s)"
    by (cases s; cases "sd_buffer s") (simp add: decode_eq drained_decoder_def)
next
  fix s xs ys
  show "decode s (xs @ ys) p =
      do { (m1, s1) \<leftarrow> decode s xs p; (m2, s2) \<leftarrow> decode s1 ys p; Some (m1 @ m2, s2) }"
    by (rule decode_append)
next
  fix s xs ms s'
  assume "decode s xs p = Some (ms, s')"
  then show "drained_decoder s'"
    using parse_frames_rest [of "inner (sd_buffer s) @ xs"]
    by (auto simp: decode_eq drained_decoder_def split: prod.splits bind_splits)
qed

lemma parse1_nil [simp]: "parse1 [] = None"
  by (simp add: parse1_def)

lemma drained_new: "drained_decoder stream_decoder_new"
  by (simp add: drained_decoder_def stream_decoder_new_def buffer_new_def)

section \<open>Properties\<close>

text \<open>C28: frames survive any fragmentation.  Whatever way the bytes of a frame sequence, followed by
  an incomplete frame, are cut into network chunks, feeding the chunks to a new decoder hands
  the processor exactly these frames, once each and in order, and the incomplete tail stays in
  the buffer.\<close>

theorem decode_any_chunking:
  assumes "\<forall>m \<in> set ms. length (data_of m) < 2 ^ 32"
    and "concat chunks = concat (map frame_bytes ms) @ tail"
    and "parse1 tail = None"
  shows "feed_chunks (\<lambda>d data. decode d data p) stream_decoder_new chunks =
    do { xs \<leftarrow> run_processor p ms; Some (xs, \<lparr>sd_buffer = \<lparr>inner = tail\<rparr>\<rparr>) }"
proof -
  have "feed_chunks (\<lambda>d data. decode d data p) stream_decoder_new chunks
      = decode stream_decoder_new (concat chunks) p"
    by (rule gs.feed_chunks_concat) (rule drained_new)
  also have "\<dots> = do { xs \<leftarrow> run_processor p ms; Some (xs, \<lparr>sd_buffer = \<lparr>inner = tail\<rparr>\<rparr>) }"
    using parse_frames_frames [OF assms(1), of tail] assms(3)
    by (simp add: assms(2) decode_eq stream_decoder_new_def buffer_new_def)
  finally show ?thesis .
qed

theorem decode_any_chunking_witness:
  "feed_chunks (\<lambda>d data. decode d data (\<lambda>m. Some (Some m))) stream_decoder_new
     [[0, 0, 0], [], [0, 2, 97, 98, 1], [0, 0, 0, 1], [99, 0]]
   = Some ([\<lparr>type_of = 0, data_of = [97, 98]\<rparr>, \<lparr>type_of = 1, data_of = [99]\<rparr>],
           \<lparr>sd_buffer = \<lparr>inner = [0]\<rparr>\<rparr>)"
proof -
  let ?ms = "[\<lparr>type_of = 0, data_of = [97, 98]\<rparr>, \<lparr>type_of = 1, data_of = [99]\<rparr>]"
  let ?chunks = "[[0, 0, 0], [], [0, 2, 97, 98, 1], [0, 0, 0, 1], [99, 0]]"
  have 1: "\<forall>m \<in> set ?ms. length (data_of m) < 2 ^ 32" by simp
  have 2: "concat ?chunks = concat (map frame_bytes ?ms) @ [0]" by code_simp
  have 3: "parse1 [0] = None" by code_simp
  show ?thesis
    using decode_any_chunking [OF 1 2 3, of "\<lambda>m. Some (Some m)"] by simp
qed

text \<open>C29: the decoder is memory safe and loses no byte.  For any state, any chunk and any processor
  that itself returns, \<open>decode\<close> is defined (no unchecked access leaves the buffer, \<open>advance\<close>
  does not panic), the count it reserves is the exact number of frames, the bytes consumed are
  the sizes of these frames, and no complete frame is left behind.\<close>

theorem decode_safe_and_exact:
  assumes "\<And>m. p m \<noteq> None"
  shows "\<exists>ms xs d'. decode d data p = Some (xs, d') \<and> run_processor p ms = Some xs
    \<and> iter_len (into_iter (extend_from_slice (sd_buffer d) data)) = Some (length ms)
    \<and> length (inner (sd_buffer d)) + length data
        = sum_list (map total_size ms) + length (inner (sd_buffer d'))
    \<and> iter_next (into_iter (sd_buffer d')) = Some (None, into_iter (sd_buffer d'))"
proof -
  let ?bs = "inner (sd_buffer d) @ data"
  obtain ms rest where pf: "parse_frames ?bs = (ms, rest)" by fastforce
  obtain xs where xs: "run_processor p ms = Some xs"
    using run_processor_total [of p ms, OF assms] by blast
  have "decode d data p = Some (xs, \<lparr>sd_buffer = \<lparr>inner = rest\<rparr>\<rparr>)"
    by (simp add: decode_eq pf xs)
  moreover have "iter_len (into_iter (extend_from_slice (sd_buffer d) data)) = Some (length ms)"
    by (simp add: iter_len_def size_hint_def into_iter_def extend_from_slice_def size_hint_loop_eq pf)
  moreover have "length ?bs = sum_list (map total_size ms) + length rest"
    using length_parse_frames [of ?bs] by (simp add: pf)
  moreover have "parse1 rest = None"
    using parse_frames_rest [of ?bs] by (simp add: pf)
  ultimately show ?thesis
    using xs by (auto simp: iter_next_eq into_iter_def)
qed

theorem decode_safe_and_exact_witness:
  "\<exists>ms xs d'. decode stream_decoder_new [0, 0, 0, 0, 1, 7, 9] (\<lambda>m. Some (Some m)) = Some (xs, d')
    \<and> run_processor (\<lambda>m. Some (Some m)) ms = Some xs
    \<and> iter_len (into_iter (extend_from_slice (sd_buffer stream_decoder_new) [0, 0, 0, 0, 1, 7, 9])) = Some (length ms)
    \<and> length (inner (sd_buffer stream_decoder_new)) + length [0, 0, 0, 0, 1, 7, 9 :: u8]
        = sum_list (map total_size ms) + length (inner (sd_buffer d'))
    \<and> iter_next (into_iter (sd_buffer d')) = Some (None, into_iter (sd_buffer d'))"
  using decode_safe_and_exact [of "\<lambda>m. Some (Some m)" stream_decoder_new "[0, 0, 0, 0, 1, 7, 9]"]
  by simp

end
