(* ===== verification/Chat_Decoder.thy ===== *)
theory Chat_Decoder
  imports Grpc_Stream Text_Util
begin

text \<open>
  The decoder of chat responses: \<^verbatim>\<open>src/core/stream/decoder.rs\<close> with its \<^verbatim>\<open>utils\<close>, the tool
  identifiers of \<^verbatim>\<open>src/core/model/tool_id_parser.rs\<close> and the message records of
  \<^verbatim>\<open>src/core/aiserver\<close> it reads.  It cuts gRPC frames off a buffer as \<open>Grpc_Stream\<close> does, turns
  each into at most one message, keeps a cache of the first messages and statistics of the content.

  The Protobuf decoder, the gzip decompressor, the JSON parser of upstream errors and the clock are
  in \<open>dec_env\<close>; \<^term>\<open>None\<close> is undefined behaviour or a panic.  Strings are their UTF-8 bytes.
\<close>

section \<open>Messages\<close>

record web_reference =
  wr_title :: bytes
  wr_url :: bytes
  wr_chunk :: bytes

datatype Thinking = ThinkText bytes | ThinkSignature bytes | RedactedThinking bytes

record tool_call =
  tc_id :: bytes
  tc_name :: bytes
  tc_input :: bytes

datatype StreamMessage =
  WebReference "web_reference list"
  | ThinkingMsg Thinking
  | Content bytes
  | ToolCall tool_call
  | StreamEnd

text \<open>The messages of the Protobuf schema, with the fields the decoder reads.\<close>

record pb_thinking =
  pt_text :: bytes
  pt_signature :: bytes
  pt_redacted_thinking :: bytes

record pb_tool_call =
  ct_tool_call_id :: bytes
  ct_is_streaming :: bool
  ct_is_last_message :: bool
  ct_raw_args :: bytes
  ct_model_call_id :: "bytes option"
  ct_params :: "bytes list option"  \<comment> \<open>the names of the tools of \<^verbatim>\<open>McpParams\<close>\<close>

record pb_chat_response =
  cr_text :: bytes
  cr_web_citation :: "web_reference list option"
  cr_thinking :: "pb_thinking option"

datatype pb_response =
  ClientSideToolV2Call pb_tool_call
  | StreamUnifiedChatResponse pb_chat_response

definition thinking_from :: "pb_thinking \<Rightarrow> Thinking" where
  "thinking_from t =
     (if pt_text t \<noteq> [] then ThinkText (pt_text t)
      else if pt_signature t \<noteq> [] then ThinkSignature (pt_signature t)
      else if pt_redacted_thinking t \<noteq> [] then RedactedThinking (pt_redacted_thinking t)
      else ThinkText (pt_text t))"

datatype 'e StreamError = Upstream 'e | EmptyStream

text \<open>\<^verbatim>\<open>enumerate\<close> from \<open>i\<close> and the eight parts of each reference.\<close>

fun web_ref_parts :: "nat \<Rightarrow> web_reference list \<Rightarrow> bytes" where
  "web_ref_parts i [] = []"
| "web_ref_parts i (r # rs) =
     show_nat (i + 1) @ bytes_of ''. ['' @ wr_title r @ bytes_of '']('' @ wr_url r @ bytes_of '')<'' @ wr_chunk r
     @ bytes_of ''>'' @ [0x0A] @ web_ref_parts (i + 1) rs"

definition convert_web_ref_to_content :: "StreamMessage \<Rightarrow> StreamMessage" where
  "convert_web_ref_to_content m =
     (case m of
        WebReference refs \<Rightarrow>
          if refs = [] then Content []
          else Content (bytes_of ''WebReferences:'' @ [0x0A] @ web_ref_parts 0 refs @ [0x0A])
      | other \<Rightarrow> other)"

section \<open>Tool identifiers\<close>

definition DELIMITER :: bytes where
  "DELIMITER = 0x0A # bytes_of ''mc_''"

record tool_id =
  ti_tool_call_id :: bytes
  ti_model_call_id :: "bytes option"

text \<open>\<^verbatim>\<open>split_once\<close> with a string pattern: at its first occurrence.\<close>

fun split_once_str :: "bytes \<Rightarrow> bytes \<Rightarrow> (bytes \<times> bytes) option" where
  "split_once_str pat [] = (if pat = [] then Some ([], []) else None)"
| "split_once_str pat (b # bs) =
     (case strip_prefix pat (b # bs) of
        Some r \<Rightarrow> Some ([], r)
      | None \<Rightarrow> map_option (\<lambda>(x, y). (b # x, y)) (split_once_str pat bs))"

definition tool_id_parse :: "bytes \<Rightarrow> tool_id" where
  "tool_id_parse s =
     (case split_once_str DELIMITER s of
        Some (t, m) \<Rightarrow> \<lparr>ti_tool_call_id = t, ti_model_call_id = Some m\<rparr>
      | None \<Rightarrow> \<lparr>ti_tool_call_id = s, ti_model_call_id = None\<rparr>)"

definition tool_id_format :: "bytes \<Rightarrow> bytes option \<Rightarrow> bytes" where
  "tool_id_format t m = (case m of Some m \<Rightarrow> t @ DELIMITER @ m | None \<Rightarrow> t)"

definition tool_id_display :: "tool_id \<Rightarrow> bytes" where
  "tool_id_display i =
     ti_tool_call_id i @ (case ti_model_call_id i of Some m \<Rightarrow> DELIMITER @ m | None \<Rightarrow> [])"

section \<open>Arguments of streamed tool calls\<close>

text \<open>\<^verbatim>\<open>has_space_after_separator\<close>: the loop on the bytes from index \<^verbatim>\<open>i\<close>.\<close>

fun space_loop :: "bool \<Rightarrow> bytes \<Rightarrow> bool" where
  "space_loop in_string [] = False"
| "space_loop in_string (b # bs) =
     (if in_string then
        if b = 0x5C then space_loop True (drop 1 bs)
        else space_loop (b \<noteq> 0x22) bs
      else if b = 0x22 then space_loop True bs
      else if b = 0x3A \<or> b = 0x2C then (case bs of [] \<Rightarrow> False | c # _ \<Rightarrow> c = 0x20)
      else space_loop False bs)"

definition has_space_after_separator :: "bytes \<Rightarrow> bool" where
  "has_space_after_separator json = space_loop False json"

definition INCREMENTAL_COPY_THRESHOLD :: nat where
  "INCREMENTAL_COPY_THRESHOLD = 64"

text \<open>\<open>get_unchecked(i..)\<close> on a string is undefined unless \<open>i\<close> is on a character boundary.\<close>

definition is_continuation :: "u8 \<Rightarrow> bool" where
  "is_continuation b \<longleftrightarrow> b AND 0xC0 = 0x80"

definition is_char_boundary :: "bytes \<Rightarrow> nat \<Rightarrow> bool" where
  "is_char_boundary s i \<longleftrightarrow> i = length s \<or> (i < length s \<and> \<not> is_continuation (s ! i))"

definition str_from_unchecked :: "bytes \<Rightarrow> nat \<Rightarrow> bytes ub" where
  "str_from_unchecked s i = (if is_char_boundary s i then Some (drop i s) else None)"

text \<open>\<^verbatim>\<open>ptr::copy(ptr.add(i), ptr, count)\<close> and \<^verbatim>\<open>set_len(count)\<close> on the vector of the string.\<close>

definition copy_down :: "bytes \<Rightarrow> nat \<Rightarrow> nat \<Rightarrow> bytes ub" where
  "copy_down v i count =
     (if i + count \<le> length v
      then let moved = take count (drop i v) @ drop count v in Some (take count moved)
      else None)"

record tool_context =
  raw_args_len :: nat
  processed :: bool

definition chars_count :: "bytes \<Rightarrow> nat" where
  "chars_count s = length (filter (\<lambda>b. \<not> is_continuation b) s)"

section \<open>Handlers\<close>

record ('e, 't, 'f) dec_env =
  gunzip :: "bytes \<Rightarrow> bytes option"
  decode_wrapper :: "bytes \<Rightarrow> pb_response option option"
  cursor_error :: "bytes \<Rightarrow> 'e option"
  now :: "nat \<Rightarrow> 't"  \<comment> \<open>the readings of the clock, in order\<close>
  secs_between :: "'t \<Rightarrow> 't \<Rightarrow> 'f"

text \<open>The part of the tool call handler for \<^verbatim>\<open>Ordering::Greater\<close>: the new arguments.\<close>

definition new_args :: "bytes \<Rightarrow> nat \<Rightarrow> bytes ub" where
  "new_args raw_args len = do {
     args \<leftarrow> str_from_unchecked raw_args len;
     (if length args > INCREMENTAL_COPY_THRESHOLD
      then copy_down raw_args len (length raw_args - len)
      else Some args)
   }"

definition tool_message :: "pb_tool_call \<Rightarrow> bytes option \<Rightarrow> StreamMessage option" where
  "tool_message r result =
     map_option (\<lambda>input. ToolCall
        \<lparr>tc_id = tool_id_format (ct_tool_call_id r) (ct_model_call_id r),
         tc_name = (case Option.bind (ct_params r) (\<lambda>ts. case ts of [] \<Rightarrow> None | n # _ \<Rightarrow> Some n) of
                      Some n \<Rightarrow> n | None \<Rightarrow> []),
         tc_input = input\<rparr>) result"

definition handle_tool_call :: "pb_tool_call \<Rightarrow> tool_context \<Rightarrow> (StreamMessage option \<times> tool_context) ub" where
  "handle_tool_call r ctx =
     (if ct_is_streaming r then
        if \<not> has_space_after_separator (ct_raw_args r) then Some (None, ctx)
        else let n = length (ct_raw_args r);
                 last = (\<lambda>c. if ct_is_last_message r then c\<lparr>processed := True\<rparr> else c)
             in if n > raw_args_len ctx then do {
                  args \<leftarrow> new_args (ct_raw_args r) (raw_args_len ctx);
                  Some (tool_message r (Some args), last (ctx\<lparr>raw_args_len := n\<rparr>))
                }
                else if n = raw_args_len ctx then Some (None, ctx)
                else Some (tool_message r None, last ctx)
      else Some (tool_message r (Some (ct_raw_args r)), ctx\<lparr>processed := True\<rparr>))"

definition handle_chat_response :: "pb_chat_response \<Rightarrow> StreamMessage option" where
  "handle_chat_response r =
     (if cr_text r \<noteq> [] then Some (Content (cr_text r))
      else case cr_thinking r of
             Some t \<Rightarrow> Some (ThinkingMsg (thinking_from t))
           | None \<Rightarrow> map_option WebReference (cr_web_citation r))"

definition handle_text_message ::
  "('e, 't, 'f) dec_env \<Rightarrow> bytes \<Rightarrow> tool_context \<Rightarrow> (StreamMessage option \<times> tool_context) ub" where
  "handle_text_message e msg_data ctx =
     (case decode_wrapper e msg_data of
        Some (Some (ClientSideToolV2Call r)) \<Rightarrow> handle_tool_call r ctx
      | Some (Some (StreamUnifiedChatResponse r)) \<Rightarrow> Some (handle_chat_response r, ctx)
      | Some None \<Rightarrow> Some (None, ctx)
      | None \<Rightarrow> Some (None, ctx))"

definition handle_json_message ::
  "('e, 't, 'f) dec_env \<Rightarrow> bytes \<Rightarrow> 'e StreamError + StreamMessage option" where
  "handle_json_message e msg_data =
     (if length msg_data = 2 then Inr (Some StreamEnd)
      else case cursor_error e msg_data of
             Some err \<Rightarrow> Inl (Upstream err)
           | None \<Rightarrow> Inr None)"

definition process_message ::
  "('e, 't, 'f) dec_env \<Rightarrow> raw_message \<Rightarrow> tool_context
   \<Rightarrow> (('e StreamError + StreamMessage option) \<times> tool_context) ub" where
  "process_message e raw_msg ctx = do {
     msg_data \<leftarrow> (if type_of raw_msg AND 1 \<noteq> 0 then decompress_gzip (gunzip e) (data_of raw_msg)
                 else Some (Some (data_of raw_msg)));
     (case msg_data of
        None \<Rightarrow> Some (Inr None, ctx)
      | Some msg_data \<Rightarrow>
          let t = drop_bit 1 (type_of raw_msg)
          in if t = 0 then do { (r, ctx) \<leftarrow> handle_text_message e msg_data ctx; Some (Inr r, ctx) }
             else if t = 1 then Some (handle_json_message e msg_data, ctx)
             else Some (Inr None, ctx))
   }"

section \<open>The decoder\<close>

record ('t, 'f) chat_decoder =
  cd_buffer :: buffer
  first_result :: "StreamMessage list option"
  content_delays :: "(bytes \<times> (u32 \<times> 'f) list) option"
  thinking_content :: "bytes option"
  ctx_of :: tool_context
  empty_stream_count :: nat
  last_content_time :: 't
  first_result_ready :: bool
  first_result_taken :: bool
  has_seen_content :: bool
  clock_reads :: nat  \<comment> \<open>how often the clock was read\<close>

definition chat_decoder_new :: "('e, 't, 'f) dec_env \<Rightarrow> ('t, 'f) chat_decoder" where
  "chat_decoder_new e =
     \<lparr>cd_buffer = buffer_new, first_result = None, content_delays = None, thinking_content = None,
      ctx_of = \<lparr>raw_args_len = 0, processed = False\<rparr>, empty_stream_count = 0, last_content_time = now e 0,
      first_result_ready = False, first_result_taken = False, has_seen_content = False, clock_reads = 1\<rparr>"

definition no_first_cache :: "('t, 'f) chat_decoder \<Rightarrow> ('t, 'f) chat_decoder" where
  "no_first_cache d = d\<lparr>first_result_ready := True, first_result_taken := True\<rparr>"

definition reset_empty_stream_count :: "('t, 'f) chat_decoder \<Rightarrow> ('t, 'f) chat_decoder" where
  "reset_empty_stream_count d = (if empty_stream_count d > 0 then d\<lparr>empty_stream_count := 0\<rparr> else d)"

definition take_first_result :: "('t, 'f) chat_decoder \<Rightarrow> StreamMessage list option \<times> ('t, 'f) chat_decoder" where
  "take_first_result d =
     (if \<not> buffer_is_empty (cd_buffer d) then (None, d)
      else let d' = (if first_result d \<noteq> None then d\<lparr>first_result_taken := True\<rparr> else d)
           in (first_result d, d'\<lparr>first_result := None\<rparr>))"

definition is_tool_processed :: "('t, 'f) chat_decoder \<Rightarrow> bool" where
  "is_tool_processed d = processed (ctx_of d)"

definition take_content_delays ::
  "('t, 'f) chat_decoder \<Rightarrow> (bytes \<times> (u32 \<times> 'f) list) option \<times> ('t, 'f) chat_decoder" where
  "take_content_delays d = (content_delays d, d\<lparr>content_delays := None\<rparr>)"

definition take_thinking_content :: "('t, 'f) chat_decoder \<Rightarrow> bytes option \<times> ('t, 'f) chat_decoder" where
  "take_thinking_content d = (thinking_content d, d\<lparr>thinking_content := None\<rparr>)"

definition duration_as_secs_f32 :: "('e, 't, 'f) dec_env \<Rightarrow> ('t, 'f) chat_decoder \<Rightarrow> 'f \<times> ('t, 'f) chat_decoder" where
  "duration_as_secs_f32 e d =
     (let t = now e (clock_reads d)
      in (secs_between e (last_content_time d) t, d\<lparr>last_content_time := t, clock_reads := clock_reads d + 1\<rparr>))"

text \<open>The statistics of a message; \<^verbatim>\<open>__unwrap!\<close> of the delays panics when there are none.\<close>

definition record_message ::
  "('e, 't, 'f) dec_env \<Rightarrow> StreamMessage \<Rightarrow> ('t, 'f) chat_decoder \<Rightarrow> ('t, 'f) chat_decoder ub" where
  "record_message e msg d =
     (case msg of
        Content content \<Rightarrow>
          let (delay, d) = duration_as_secs_f32 e (d\<lparr>has_seen_content := True\<rparr>)
          in (case content_delays d of
                None \<Rightarrow> None
              | Some (text, ds) \<Rightarrow>
                  Some (d\<lparr>content_delays := Some (text @ content, ds @ [(of_nat (chars_count content), delay)])\<rparr>))
      | ThinkingMsg (ThinkText text) \<Rightarrow>
          Some (d\<lparr>thinking_content := Some (case thinking_content d of Some t \<Rightarrow> t @ text | None \<Rightarrow> text)\<rparr>)
      | _ \<Rightarrow> Some d)"

text \<open>One round of the loop: \<^verbatim>\<open>messages\<close> is the vector of results.\<close>

definition decode_step ::
  "('e, 't, 'f) dec_env \<Rightarrow> bool \<Rightarrow> raw_message \<Rightarrow> StreamMessage list \<Rightarrow> ('t, 'f) chat_decoder
   \<Rightarrow> (('e StreamError + StreamMessage list) \<times> ('t, 'f) chat_decoder) ub" where
  "decode_step e convert_web_ref raw_msg messages d =
     (if data_of raw_msg = [] then Some (Inr messages, d)
      else if processed (ctx_of d) then Some (Inr messages, d)
      else do {
        (r, ctx) \<leftarrow> process_message e raw_msg (ctx_of d);
        let d = d\<lparr>ctx_of := ctx\<rparr>;
        (case r of
           Inl err \<Rightarrow> Some (Inl err, d)
         | Inr None \<Rightarrow> Some (Inr messages, d)
         | Inr (Some msg) \<Rightarrow> do {
             d \<leftarrow> record_message e msg d;
             let messages = messages @ [if convert_web_ref then convert_web_ref_to_content msg else msg];
             Some (Inr (if processed (ctx_of d) then messages @ [StreamEnd] else messages), d)
           })
      })"

function decode_loop ::
  "('e, 't, 'f) dec_env \<Rightarrow> bool \<Rightarrow> message_iter \<Rightarrow> StreamMessage list \<Rightarrow> ('t, 'f) chat_decoder
   \<Rightarrow> (('e StreamError + StreamMessage list \<times> message_iter) \<times> ('t, 'f) chat_decoder) ub" where
  "decode_loop e convert_web_ref it messages d =
     (case iter_next it of
        None \<Rightarrow> None
      | Some (None, it') \<Rightarrow> Some (Inr (messages, it'), d)
      | Some (Some raw_msg, it') \<Rightarrow>
          (case decode_step e convert_web_ref raw_msg messages d of
             None \<Rightarrow> None
           | Some (Inl err, d') \<Rightarrow> Some (Inl err, d')
           | Some (Inr messages', d') \<Rightarrow> decode_loop e convert_web_ref it' messages' d'))"
  by pat_completeness auto
termination
  by (relation "measure (\<lambda>(e, c, it, ms, d). length (buf it) - off it)") (auto dest!: iter_next_progress)

declare decode_loop.simps [simp del]

text \<open>The cache of the first messages: they are kept back until content was seen.\<close>

definition cache_messages ::
  "StreamMessage list \<Rightarrow> ('t, 'f) chat_decoder \<Rightarrow> StreamMessage list \<times> ('t, 'f) chat_decoder" where
  "cache_messages messages d =
     (let (messages, d) =
        (if \<not> first_result_taken d \<and> messages \<noteq> [] then
           (case first_result d of
              None \<Rightarrow> ([], d\<lparr>first_result := Some messages\<rparr>)
            | Some fr \<Rightarrow> if \<not> first_result_ready d then ([], d\<lparr>first_result := Some (fr @ messages)\<rparr>)
                         else (messages, d))
         else (messages, d))
      in (messages,
          if \<not> first_result_ready d
          then d\<lparr>first_result_ready := first_result d \<noteq> None \<and> \<not> first_result_taken d \<and> has_seen_content d\<rparr>
          else d))"

text \<open>The end of \<^verbatim>\<open>decode\<close>: an error returns at once, with the buffer as it is.\<close>

definition decode_finish ::
  "('e StreamError + StreamMessage list \<times> message_iter) \<times> ('t, 'f) chat_decoder
   \<Rightarrow> (('e StreamError + StreamMessage list) \<times> ('t, 'f) chat_decoder) ub" where
  "decode_finish res =
     (case res of
        (Inl err, d) \<Rightarrow> Some (Inl err, d)
      | (Inr (messages, it), d) \<Rightarrow> do {
          b \<leftarrow> advance (cd_buffer d) (off it);
          let (messages, d) = cache_messages messages (d\<lparr>cd_buffer := b\<rparr>);
          Some (Inr messages, d)
        })"

definition chat_decode ::
  "('e, 't, 'f) dec_env \<Rightarrow> bytes \<Rightarrow> bool \<Rightarrow> ('t, 'f) chat_decoder
   \<Rightarrow> (('e StreamError + StreamMessage list) \<times> ('t, 'f) chat_decoder) ub" where
  "chat_decode e data convert_web_ref d =
     (let d = (if data = [] then d else d\<lparr>cd_buffer := extend_from_slice (cd_buffer d) data\<rparr>)
      in if data = [] \<or> buffer_len (cd_buffer d) < 5
         then Some (Inl EmptyStream, d\<lparr>empty_stream_count := empty_stream_count d + 1\<rparr>)
         else let d = reset_empty_stream_count d; it = into_iter (cd_buffer d)
              in do {
                count \<leftarrow> iter_len it;
                let d = (case content_delays d of Some _ \<Rightarrow> d | None \<Rightarrow> d\<lparr>content_delays := Some ([], [])\<rparr>);
                res \<leftarrow> decode_loop e convert_web_ref it [] d;
                decode_finish res
              })"

section \<open>Reference semantics\<close>

text \<open>The messages of a sequence of frames, independent of how they arrive.\<close>

fun run_frames ::
  "('e, 't, 'f) dec_env \<Rightarrow> raw_message list \<Rightarrow> tool_context
   \<Rightarrow> (('e StreamError + StreamMessage list) \<times> tool_context) ub" where
  "run_frames e [] c = Some (Inr [], c)"
| "run_frames e (m # ms) c =
     (if data_of m = [] \<or> processed c then run_frames e ms c
      else do {
        (r, c) \<leftarrow> process_message e m c;
        (case r of
           Inl err \<Rightarrow> Some (Inl err, c)
         | Inr x \<Rightarrow> do {
             (r', c') \<leftarrow> run_frames e ms c;
             Some (case r' of
                     Inl err \<Rightarrow> Inl err
                   | Inr xs \<Rightarrow> Inr ((case x of None \<Rightarrow> [] | Some y \<Rightarrow> y # (if processed c then [StreamEnd] else [])) @ xs), c')
           })
      })"

abbreviation convert_if :: "bool \<Rightarrow> StreamMessage \<Rightarrow> StreamMessage" where
  "convert_if b m \<equiv> (if b then convert_web_ref_to_content m else m)"

definition contents :: "StreamMessage list \<Rightarrow> bytes list" where
  "contents ms = concat (map (\<lambda>m. case m of Content t \<Rightarrow> [t] | _ \<Rightarrow> []) ms)"

definition thoughts :: "StreamMessage list \<Rightarrow> bytes list" where
  "thoughts ms = concat (map (\<lambda>m. case m of ThinkingMsg (ThinkText t) \<Rightarrow> [t] | _ \<Rightarrow> []) ms)"

definition text_of :: "('t, 'f) chat_decoder \<Rightarrow> bytes" where
  "text_of d = (case content_delays d of None \<Rightarrow> [] | Some (t, _) \<Rightarrow> t)"

definition marks_of :: "('t, 'f) chat_decoder \<Rightarrow> u32 list" where
  "marks_of d = (case content_delays d of None \<Rightarrow> [] | Some (_, ds) \<Rightarrow> map fst ds)"

definition thought_of :: "('t, 'f) chat_decoder \<Rightarrow> bytes" where
  "thought_of d = (case thinking_content d of None \<Rightarrow> [] | Some t \<Rightarrow> t)"

lemma contents_simps [simp]:
  "contents [] = []" "contents (m # ms) = (case m of Content t \<Rightarrow> t # contents ms | _ \<Rightarrow> contents ms)"
  "contents (ms @ ns) = contents ms @ contents ns"
  by (simp_all add: contents_def split: StreamMessage.split)

lemma thoughts_simps [simp]:
  "thoughts [] = []"
  "thoughts (m # ms) = (case m of ThinkingMsg (ThinkText t) \<Rightarrow> t # thoughts ms | _ \<Rightarrow> thoughts ms)"
  "thoughts (ms @ ns) = thoughts ms @ thoughts ns"
  by (simp_all add: thoughts_def split: StreamMessage.split Thinking.split)

lemma run_frames_append:
  "run_frames e (xs @ ys) c = do {
     (r, c1) \<leftarrow> run_frames e xs c;
     (case r of
        Inl err \<Rightarrow> Some (Inl err, c1)
      | Inr a \<Rightarrow> do {
          (r', c2) \<leftarrow> run_frames e ys c1;
          Some (case r' of Inl err \<Rightarrow> Inl err | Inr b \<Rightarrow> Inr (a @ b), c2)
        })
   }"
proof (induction xs arbitrary: c)
  case Nil
  then show ?case by (cases "run_frames e ys c") (auto split: sum.split)
next
  case (Cons m ms)
  show ?case
  proof (cases "data_of m = [] \<or> processed c")
    case True
    then show ?thesis by (simp add: Cons)
  next
    case False
    then show ?thesis
      by (cases "process_message e m c")
         (auto simp: Cons Let_def split: sum.splits option.splits Option.bind_splits prod.splits)
  qed
qed

text \<open>What a message changes besides the statistics: nothing.\<close>

definition same_control :: "('t, 'f) chat_decoder \<Rightarrow> ('t, 'f) chat_decoder \<Rightarrow> bool" where
  "same_control d d' \<longleftrightarrow>
     cd_buffer d' = cd_buffer d \<and> first_result d' = first_result d \<and> ctx_of d' = ctx_of d
     \<and> empty_stream_count d' = empty_stream_count d \<and> first_result_ready d' = first_result_ready d
     \<and> first_result_taken d' = first_result_taken d"

definition stats_added :: "StreamMessage list \<Rightarrow> ('t, 'f) chat_decoder \<Rightarrow> ('t, 'f) chat_decoder \<Rightarrow> bool" where
  "stats_added ms d d' \<longleftrightarrow>
     text_of d' = text_of d @ concat (contents ms)
     \<and> marks_of d' = marks_of d @ map (\<lambda>t. of_nat (chars_count t)) (contents ms)
     \<and> thought_of d' = thought_of d @ concat (thoughts ms)
     \<and> (has_seen_content d' \<longleftrightarrow> has_seen_content d \<or> contents ms \<noteq> [])"

lemma record_message_ok:
  assumes "content_delays d \<noteq> None"
  shows "\<exists>d'. record_message e msg d = Some d' \<and> same_control d d' \<and> stats_added [msg] d d' \<and> content_delays d' \<noteq> None"
  using assms
  by (cases msg rule: StreamMessage.exhaust; cases "thinking_content d")
     (auto simp: record_message_def duration_as_secs_f32_def same_control_def stats_added_def text_of_def
       marks_of_def thought_of_def Let_def split: Thinking.split)

lemma stats_trans:
  "stats_added xs d d1 \<Longrightarrow> stats_added ys d1 d2 \<Longrightarrow> stats_added (xs @ ys) d d2"
  by (auto simp: stats_added_def)

lemma stats_refl [simp]: "stats_added [] d d"
  by (simp add: stats_added_def)

lemma same_control_simps:
  "same_control (d\<lparr>ctx_of := c\<rparr>) d' \<Longrightarrow> ctx_of d' = c" "same_control d d"
  by (simp_all add: same_control_def)

lemma same_control_trans:
  "same_control (d\<lparr>ctx_of := c1\<rparr>) d1 \<Longrightarrow> same_control (d1\<lparr>ctx_of := c2\<rparr>) d2 \<Longrightarrow> same_control (d\<lparr>ctx_of := c2\<rparr>) d2"
  by (auto simp: same_control_def)

lemma stats_ctx [simp]:
  "stats_added ms (d\<lparr>ctx_of := c\<rparr>) d' = stats_added ms d d'" "stats_added ms d (d'\<lparr>ctx_of := c\<rparr>) = stats_added ms d d'"
  by (simp_all add: stats_added_def text_of_def marks_of_def thought_of_def)

text \<open>One round produces what the reference semantics says of one frame.\<close>

lemma decode_step_ok:
  assumes "run_frames e [m] (ctx_of d) = Some (Inr raw, c)" "content_delays d \<noteq> None"
  shows "\<exists>d'. decode_step e b m acc d = Some (Inr (acc @ map (convert_if b) raw), d')
    \<and> same_control (d\<lparr>ctx_of := c\<rparr>) d' \<and> stats_added raw d d' \<and> content_delays d' \<noteq> None"
proof (cases "data_of m = [] \<or> processed (ctx_of d)")
  case True
  then show ?thesis using assms by (auto simp: decode_step_def same_control_def)
next
  case False
  with assms(1) obtain x where x: "process_message e m (ctx_of d) = Some (Inr x, c)"
    "raw = (case x of None \<Rightarrow> [] | Some y \<Rightarrow> y # (if processed c then [StreamEnd] else []))"
    by (auto split: Option.bind_splits sum.splits)
  show ?thesis
  proof (cases x)
    case None
    with False x assms(2) show ?thesis by (simp add: decode_step_def same_control_def)
  next
    case (Some y)
    obtain d' where d': "record_message e y (d\<lparr>ctx_of := c\<rparr>) = Some d'" "same_control (d\<lparr>ctx_of := c\<rparr>) d'"
      "stats_added [y] d d'" "content_delays d' \<noteq> None"
      using record_message_ok [of "d\<lparr>ctx_of := c\<rparr>" e y] assms(2) by auto
    moreover have "stats_added raw d d'"
      using d'(3) x(2) Some by (simp add: stats_added_def split: StreamMessage.splits Thinking.splits)
    moreover have "ctx_of d' = c" using d'(2) by (simp add: same_control_def)
    ultimately show ?thesis
      using False x Some by (auto simp: decode_step_def convert_web_ref_to_content_def)
  qed
qed

lemma decode_step_error:
  assumes "run_frames e [m] (ctx_of d) = Some (Inl err, c)"
  shows "decode_step e b m acc d = Some (Inl err, d\<lparr>ctx_of := c\<rparr>)"
  using assms by (auto simp: decode_step_def split: Option.bind_splits sum.splits if_splits)

lemma run_frames_Cons:
  "run_frames e (m # ms) c = do {
     (r, c1) \<leftarrow> run_frames e [m] c;
     (case r of
        Inl err \<Rightarrow> Some (Inl err, c1)
      | Inr a \<Rightarrow> do {
          (r', c2) \<leftarrow> run_frames e ms c1;
          Some (case r' of Inl err \<Rightarrow> Inl err | Inr b \<Rightarrow> Inr (a @ b), c2)
        })
   }"
  using run_frames_append [of e "[m]" ms c] by simp

lemma parse_frames_ConsD:
  assumes "parse_frames bs = (m # ms, rest)"
  shows "parse1 bs = Some m" "parse_frames (drop (total_size m) bs) = (ms, rest)"
  using assms by (subst (asm) parse_frames.simps, auto split: option.splits prod.splits)+

lemma parse_frames_NilD: "parse_frames bs = ([], rest) \<Longrightarrow> parse1 bs = None \<and> rest = bs"
  by (subst (asm) parse_frames.simps) (auto split: option.splits prod.splits)

lemma decode_loop_Cons:
  assumes "off it \<le> length (buf it)" "parse_frames (drop (off it) (buf it)) = (m # ms, rest)"
  defines "it' \<equiv> it\<lparr>off := off it + total_size m\<rparr>"
  shows "decode_loop e b it acc d =
      (case decode_step e b m acc d of
         None \<Rightarrow> None
       | Some (Inl err, d') \<Rightarrow> Some (Inl err, d')
       | Some (Inr acc', d') \<Rightarrow> decode_loop e b it' acc' d')"
    "off it' \<le> length (buf it')" "parse_frames (drop (off it') (buf it')) = (ms, rest)"
  using parse_frames_ConsD [OF assms(2)] assms(1) parse1_size [of "drop (off it) (buf it)" m]
  by (auto simp: it'_def decode_loop.simps [of e b it] iter_next_eq add.commute split: sum.splits option.splits prod.splits)

lemma decode_loop_ok:
  assumes "off it \<le> length (buf it)" "parse_frames (drop (off it) (buf it)) = (ms, rest)"
    and "run_frames e ms (ctx_of d) = Some (Inr raw, c)" "content_delays d \<noteq> None"
  shows "\<exists>d'. decode_loop e b it acc d
      = Some (Inr (acc @ map (convert_if b) raw, it\<lparr>off := length (buf it) - length rest\<rparr>), d')
    \<and> same_control (d\<lparr>ctx_of := c\<rparr>) d' \<and> stats_added raw d d' \<and> content_delays d' \<noteq> None"
  using assms
proof (induction ms arbitrary: it acc d raw)
  case Nil
  then have "parse1 (drop (off it) (buf it)) = None" "rest = drop (off it) (buf it)"
    by (auto dest: parse_frames_NilD)
  with Nil show ?case
    by (subst decode_loop.simps) (auto simp: iter_next_eq same_control_def)
next
  case (Cons m ms)
  let ?it = "it\<lparr>off := off it + total_size m\<rparr>"
  from Cons.prems(3) obtain r1 c1 r2 where s: "run_frames e [m] (ctx_of d) = Some (Inr r1, c1)"
    "run_frames e ms c1 = Some (Inr r2, c)" "raw = r1 @ r2"
    by (subst (asm) run_frames_Cons) (auto split: Option.bind_splits sum.splits)
  obtain d1 where d1: "decode_step e b m acc d = Some (Inr (acc @ map (convert_if b) r1), d1)"
    "same_control (d\<lparr>ctx_of := c1\<rparr>) d1" "stats_added r1 d d1" "content_delays d1 \<noteq> None"
    using decode_step_ok [OF s(1) Cons.prems(4)] by blast
  have c1: "ctx_of d1 = c1" using d1(2) by (simp add: same_control_def)
  note it = decode_loop_Cons [OF Cons.prems(1,2)]
  from Cons.IH [OF it(2,3), of d1 r2 "acc @ map (convert_if b) r1"] s(2) c1 d1(4) obtain d2 where
    d2: "decode_loop e b ?it (acc @ map (convert_if b) r1) d1
      = Some (Inr ((acc @ map (convert_if b) r1) @ map (convert_if b) r2, ?it\<lparr>off := length (buf ?it) - length rest\<rparr>), d2)"
    "same_control (d1\<lparr>ctx_of := c\<rparr>) d2" "stats_added r2 d1 d2" "content_delays d2 \<noteq> None"
    by blast
  show ?case
    using d1(1) d2(1,4) same_control_trans [OF d1(2) d2(2)] stats_trans [OF d1(3) d2(3)] s(3)
    by (subst it(1)) simp
qed

lemma decode_loop_error:
  assumes "off it \<le> length (buf it)" "parse_frames (drop (off it) (buf it)) = (ms, rest)"
    and "run_frames e ms (ctx_of d) = Some (Inl err, c)" "content_delays d \<noteq> None"
  shows "\<exists>d'. decode_loop e b it acc d = Some (Inl err, d')
    \<and> same_control (d\<lparr>ctx_of := c\<rparr>) d' \<and> content_delays d' \<noteq> None"
  using assms
proof (induction ms arbitrary: it acc d)
  case (Cons m ms)
  let ?it = "it\<lparr>off := off it + total_size m\<rparr>"
  note it = decode_loop_Cons [OF Cons.prems(1,2)]
  from Cons.prems(3) consider "run_frames e [m] (ctx_of d) = Some (Inl err, c)"
    | r1 c1 where "run_frames e [m] (ctx_of d) = Some (Inr r1, c1)" "run_frames e ms c1 = Some (Inl err, c)"
    by (subst (asm) run_frames_Cons) (auto split: Option.bind_splits sum.splits)
  then show ?case
  proof cases
    case 1
    then show ?thesis
      using decode_step_error [OF 1, of b acc] Cons.prems(4) by (subst it(1)) (simp add: same_control_def)
  next
    case (2 r1 c1)
    obtain d1 where d1: "decode_step e b m acc d = Some (Inr (acc @ map (convert_if b) r1), d1)"
      "same_control (d\<lparr>ctx_of := c1\<rparr>) d1" "content_delays d1 \<noteq> None"
      using decode_step_ok [OF 2(1) Cons.prems(4)] by blast
    then have "ctx_of d1 = c1" by (simp add: same_control_def)
    with Cons.IH [OF it(2,3), of d1] 2(2) d1(3) obtain d2 where
      "decode_loop e b ?it (acc @ map (convert_if b) r1) d1 = Some (Inl err, d2)"
      "same_control (d1\<lparr>ctx_of := c\<rparr>) d2" "content_delays d2 \<noteq> None"
      by blast
    with d1(1) same_control_trans [OF d1(2)] show ?thesis by (subst it(1)) auto
  qed
qed simp

section \<open>One call\<close>

lemma chat_decode_short:
  assumes "data = [] \<or> length (inner (cd_buffer d) @ data) < 5"
  shows "chat_decode e data b d
    = Some (Inl EmptyStream, d\<lparr>cd_buffer := \<lparr>inner = inner (cd_buffer d) @ data\<rparr>, empty_stream_count := empty_stream_count d + 1\<rparr>)"
  using assms by (cases "cd_buffer d") (auto simp: chat_decode_def extend_from_slice_def buffer_len_def Let_def)

text \<open>The state before the cache is consulted.\<close>

definition fed ::
  "StreamMessage list \<Rightarrow> tool_context \<Rightarrow> bytes \<Rightarrow> ('t, 'f) chat_decoder \<Rightarrow> ('t, 'f) chat_decoder \<Rightarrow> bool" where
  "fed raw c rest d d1 \<longleftrightarrow>
     inner (cd_buffer d1) = rest \<and> ctx_of d1 = c \<and> stats_added raw d d1 \<and> first_result d1 = first_result d
     \<and> first_result_ready d1 = first_result_ready d \<and> first_result_taken d1 = first_result_taken d"

lemma chat_decode_long:
  assumes "data \<noteq> []" "\<not> length (inner (cd_buffer d) @ data) < 5"
  obtains d0 where
    "chat_decode e data b d = Option.bind (decode_loop e b \<lparr>buf = inner (cd_buffer d) @ data, off = 0\<rparr> [] d0) decode_finish"
    "inner (cd_buffer d0) = inner (cd_buffer d) @ data" "ctx_of d0 = ctx_of d" "content_delays d0 \<noteq> None"
    "stats_added [] d d0" "first_result d0 = first_result d" "first_result_ready d0 = first_result_ready d"
    "first_result_taken d0 = first_result_taken d"
proof -
  let ?b = "extend_from_slice (cd_buffer d) data"
  let ?d = "reset_empty_stream_count (d\<lparr>cd_buffer := ?b\<rparr>)"
  let ?d0 = "case content_delays ?d of Some _ \<Rightarrow> ?d | None \<Rightarrow> ?d\<lparr>content_delays := Some ([], [])\<rparr>"
  have inner: "inner ?b = inner (cd_buffer d) @ data" by (simp add: extend_from_slice_def)
  have "iter_len (into_iter ?b) = Some (length (fst (parse_frames (inner ?b))))"
    by (simp add: iter_len_def size_hint_def into_iter_def size_hint_loop_eq)
  then have "chat_decode e data b d = Option.bind (decode_loop e b \<lparr>buf = inner (cd_buffer d) @ data, off = 0\<rparr> [] ?d0) decode_finish"
    using assms inner
    by (cases "content_delays d")
       (simp_all add: chat_decode_def Let_def buffer_len_def reset_empty_stream_count_def into_iter_def)
  then show thesis
    by (rule that)
       (simp_all add: reset_empty_stream_count_def inner stats_added_def text_of_def marks_of_def thought_of_def
         split: option.split)
qed

lemma chat_decode_ok:
  assumes "parse_frames (inner (cd_buffer d) @ data) = (ms, rest)" "run_frames e ms (ctx_of d) = Some (Inr raw, c)"
    and "data \<noteq> []" "\<not> length (inner (cd_buffer d) @ data) < 5"
  shows "\<exists>d1. fed raw c rest d d1
    \<and> chat_decode e data b d = (let (out, d') = cache_messages (map (convert_if b) raw) d1 in Some (Inr out, d'))"
proof -
  obtain d0 where d0: "chat_decode e data b d = Option.bind (decode_loop e b \<lparr>buf = inner (cd_buffer d) @ data, off = 0\<rparr> [] d0) decode_finish"
    "inner (cd_buffer d0) = inner (cd_buffer d) @ data" "ctx_of d0 = ctx_of d" "content_delays d0 \<noteq> None"
    "stats_added [] d d0" "first_result d0 = first_result d" "first_result_ready d0 = first_result_ready d"
    "first_result_taken d0 = first_result_taken d"
    using chat_decode_long [OF assms(3,4)] by blast
  let ?bs = "inner (cd_buffer d) @ data"
  obtain d1 where d1: "decode_loop e b \<lparr>buf = ?bs, off = 0\<rparr> [] d0
      = Some (Inr (map (convert_if b) raw, \<lparr>buf = ?bs, off = length ?bs - length rest\<rparr>), d1)"
    "same_control (d0\<lparr>ctx_of := c\<rparr>) d1" "stats_added raw d0 d1"
    using decode_loop_ok [of "\<lparr>buf = ?bs, off = 0\<rparr>" ms rest e d0 raw c b "[]"] assms(1,2) d0(3,4) by auto
  obtain used where used: "?bs = used @ rest" using parse_frames_suffix [of ?bs] assms(1) by auto
  then have "length ?bs - length rest = length used"
    by (metis add_diff_cancel_right' length_append)
  with d0(2) d1(2) used have adv: "advance (cd_buffer d1) (length ?bs - length rest) = Some \<lparr>inner = rest\<rparr>"
    by (cases "cd_buffer d0") (simp add: advance_def same_control_def)
  have "fed raw c rest d (d1\<lparr>cd_buffer := \<lparr>inner = rest\<rparr>\<rparr>)"
    using d0(3-) d1(2) stats_trans [OF d0(5) d1(3)]
    by (simp add: fed_def same_control_def stats_added_def text_of_def marks_of_def thought_of_def)
  moreover have "chat_decode e data b d
      = (let (out, d') = cache_messages (map (convert_if b) raw) (d1\<lparr>cd_buffer := \<lparr>inner = rest\<rparr>\<rparr>) in Some (Inr out, d'))"
    using d0(1) d1(1) adv by (simp add: decode_finish_def)
  ultimately show ?thesis by blast
qed

lemma chat_decode_error:
  assumes "parse_frames (inner (cd_buffer d) @ data) = (ms, rest)" "run_frames e ms (ctx_of d) = Some (Inl err, c)"
    and "data \<noteq> []" "\<not> length (inner (cd_buffer d) @ data) < 5"
  shows "\<exists>d'. chat_decode e data b d = Some (Inl err, d')
    \<and> inner (cd_buffer d') = inner (cd_buffer d) @ data \<and> ctx_of d' = c"
proof -
  obtain d0 where d0: "chat_decode e data b d = Option.bind (decode_loop e b \<lparr>buf = inner (cd_buffer d) @ data, off = 0\<rparr> [] d0) decode_finish"
    "inner (cd_buffer d0) = inner (cd_buffer d) @ data" "ctx_of d0 = ctx_of d" "content_delays d0 \<noteq> None"
    using chat_decode_long [OF assms(3,4)] by blast
  obtain d1 where "decode_loop e b \<lparr>buf = inner (cd_buffer d) @ data, off = 0\<rparr> [] d0 = Some (Inl err, d1)"
    "same_control (d0\<lparr>ctx_of := c\<rparr>) d1"
    using decode_loop_error [of "\<lparr>buf = inner (cd_buffer d) @ data, off = 0\<rparr>" ms rest e d0 err c b "[]"] assms(1,2) d0(3,4)
    by auto
  with d0 show ?thesis by (auto simp: same_control_def decode_finish_def)
qed

section \<open>Feeding a response\<close>

text \<open>The loop of a client without the cache: an empty stream is skipped, an upstream error ends it.\<close>

fun collect ::
  "('e, 't, 'f) dec_env \<Rightarrow> bool \<Rightarrow> bytes list \<Rightarrow> ('t, 'f) chat_decoder
   \<Rightarrow> (('e + StreamMessage list) \<times> ('t, 'f) chat_decoder) ub" where
  "collect e b [] d = Some (Inr [], d)"
| "collect e b (data # cs) d = do {
     (r, d) \<leftarrow> chat_decode e data b d;
     (case r of
        Inl EmptyStream \<Rightarrow> collect e b cs d
      | Inl (Upstream err) \<Rightarrow> Some (Inl err, d)
      | Inr ms \<Rightarrow> do { (r', d) \<leftarrow> collect e b cs d; Some (map_sum id ((@) ms) r', d) })
   }"

definition uncached :: "('t, 'f) chat_decoder \<Rightarrow> bool" where
  "uncached d \<longleftrightarrow> first_result_ready d \<and> first_result_taken d"

lemma cache_uncached [simp]: "uncached d \<Longrightarrow> cache_messages ms d = (ms, d)"
  by (simp add: cache_messages_def uncached_def)

lemma parse1_short: "length bs < 5 \<Longrightarrow> parse1 bs = None"
  by (simp add: parse1_def)

lemma chat_decode_uncached:
  assumes "parse1 (inner (cd_buffer d)) = None" "uncached d"
    and "parse_frames (inner (cd_buffer d) @ data) = (ms, rest)" "run_frames e ms (ctx_of d) = Some (Inr raw, c)"
  shows "\<exists>r d'. chat_decode e data b d = Some (r, d') \<and> fed raw c rest d d'
    \<and> r \<in> {Inr (map (convert_if b) raw)} \<union> (if raw = [] then {Inl EmptyStream} else {})"
proof (cases "data = [] \<or> length (inner (cd_buffer d) @ data) < 5")
  case True
  then have "parse1 (inner (cd_buffer d) @ data) = None" using assms(1) by (auto intro: parse1_short)
  then have "ms = []" "rest = inner (cd_buffer d) @ data" using assms(3) by simp_all
  with assms(4) chat_decode_short [OF True, of e b] show ?thesis
    by (auto simp: fed_def stats_added_def text_of_def marks_of_def thought_of_def)
next
  case False
  with chat_decode_ok [OF assms(3,4)] obtain d1 where "fed raw c rest d d1"
    "chat_decode e data b d = (let (out, d') = cache_messages (map (convert_if b) raw) d1 in Some (Inr out, d'))"
    by blast
  with assms(2) show ?thesis by (auto simp: uncached_def fed_def)
qed

lemma fed_trans: "fed r1 c1 rest1 d d1 \<Longrightarrow> fed r2 c2 rest2 d1 d2 \<Longrightarrow> fed (r1 @ r2) c2 rest2 d d2"
  by (auto simp: fed_def dest: stats_trans)

lemma run_frames_upstream: "run_frames e ms c = Some (Inl err, c') \<Longrightarrow> \<exists>x. err = Upstream x"
proof (induction ms arbitrary: c)
  case (Cons m ms)
  then show ?case
    by (auto simp: process_message_def handle_json_message_def Let_def
        split: if_splits Option.bind_splits sum.splits option.splits)
qed simp

lemma collect_ok:
  assumes "parse1 (inner (cd_buffer d)) = None" "uncached d"
    and "parse_frames (inner (cd_buffer d) @ concat chunks) = (ms, rest)" "run_frames e ms (ctx_of d) = Some (Inr raw, c)"
  shows "\<exists>d'. collect e b chunks d = Some (Inr (map (convert_if b) raw), d') \<and> fed raw c rest d d'"
  using assms
proof (induction chunks arbitrary: d ms raw)
  case Nil
  then show ?case by (auto simp: fed_def)
next
  case (Cons data cs)
  obtain m1 r1 where 1: "parse_frames (inner (cd_buffer d) @ data) = (m1, r1)" by fastforce
  obtain m2 r2 where 2: "parse_frames (r1 @ concat cs) = (m2, r2)" by fastforce
  have ms: "ms = m1 @ m2" "rest = r2"
    using parse_frames_append [of "inner (cd_buffer d) @ data" "concat cs"] 1 2 Cons.prems(3) by simp_all
  obtain a c1 a2 where s: "run_frames e m1 (ctx_of d) = Some (Inr a, c1)" "run_frames e m2 c1 = Some (Inr a2, c)" "raw = a @ a2"
    using Cons.prems(4) unfolding ms run_frames_append by (auto split: Option.bind_splits sum.splits)
  obtain r d1 where d1: "chat_decode e data b d = Some (r, d1)" "fed a c1 r1 d d1"
    "r \<in> {Inr (map (convert_if b) a)} \<union> (if a = [] then {Inl EmptyStream} else {})"
    using chat_decode_uncached [OF Cons.prems(1,2) 1 s(1)] by blast
  have "parse1 (inner (cd_buffer d1)) = None" "uncached d1"
    using d1(2) parse_frames_rest [of "inner (cd_buffer d) @ data"] 1 Cons.prems(2) by (auto simp: fed_def uncached_def)
  with Cons.IH [of d1 m2 a2] 2 s(2) d1(2) ms(2) obtain d2 where
    d2: "collect e b cs d1 = Some (Inr (map (convert_if b) a2), d2)" "fed a2 c rest d1 d2"
    by (auto simp: fed_def)
  with d1 fed_trans [OF d1(2) d2(2)] s(3) show ?case by (auto split: if_splits)
qed

lemma collect_error:
  assumes "parse1 (inner (cd_buffer d)) = None" "uncached d"
    and "parse_frames (inner (cd_buffer d) @ concat chunks) = (ms, rest)"
    and "run_frames e ms (ctx_of d) = Some (Inl (Upstream err), c)"
  shows "\<exists>d'. collect e b chunks d = Some (Inl err, d')"
  using assms
proof (induction chunks arbitrary: d ms)
  case Nil
  then show ?case by simp
next
  case (Cons data cs)
  obtain m1 r1 where 1: "parse_frames (inner (cd_buffer d) @ data) = (m1, r1)" by fastforce
  obtain m2 r2 where 2: "parse_frames (r1 @ concat cs) = (m2, r2)" by fastforce
  have ms: "ms = m1 @ m2" using parse_frames_append [of "inner (cd_buffer d) @ data" "concat cs"] 1 2 Cons.prems(3) by simp
  from Cons.prems(4) consider "run_frames e m1 (ctx_of d) = Some (Inl (Upstream err), c)"
    | a c1 where "run_frames e m1 (ctx_of d) = Some (Inr a, c1)" "run_frames e m2 c1 = Some (Inl (Upstream err), c)"
    unfolding ms run_frames_append by (auto split: Option.bind_splits sum.splits)
  then show ?case
  proof cases
    case 1
    have "\<not> (data = [] \<or> length (inner (cd_buffer d) @ data) < 5)"
      using 1 \<open>parse_frames (inner (cd_buffer d) @ data) = (m1, r1)\<close> Cons.prems(1)
      by (auto simp: parse1_short)
    with chat_decode_error [OF \<open>parse_frames (inner (cd_buffer d) @ data) = (m1, r1)\<close> 1, of b] show ?thesis by auto
  next
    case (2 a c1)
    obtain r d1 where d1: "chat_decode e data b d = Some (r, d1)" "fed a c1 r1 d d1"
      "r \<in> {Inr (map (convert_if b) a)} \<union> (if a = [] then {Inl EmptyStream} else {})"
      using chat_decode_uncached [OF Cons.prems(1,2) 1 2(1)] by blast
    have "parse1 (inner (cd_buffer d1)) = None" "uncached d1"
      using d1(2) parse_frames_rest [of "inner (cd_buffer d) @ data"] 1 Cons.prems(2) by (auto simp: fed_def uncached_def)
    with Cons.IH [of d1 m2] \<open>parse_frames (r1 @ concat cs) = (m2, r2)\<close> 2(2) d1(2) Cons.prems(3) ms
      parse_frames_append [of "inner (cd_buffer d) @ data" "concat cs"] 1
    obtain d2 where "collect e b cs d1 = Some (Inl err, d2)" by (auto simp: fed_def)
    with d1 show ?thesis by (auto split: if_splits)
  qed
qed

section \<open>Arguments that grow\<close>

lemma space_loop_append: "space_loop s bs \<Longrightarrow> space_loop s (bs @ cs)"
proof (induction s bs rule: space_loop.induct)
  case (2 s b bs)
  then show ?case by (cases bs) (auto split: if_splits)
qed simp

lemma has_space_append: "has_space_after_separator p \<Longrightarrow> has_space_after_separator (p @ t)"
  by (simp add: has_space_after_separator_def space_loop_append)

definition char_start :: "bytes \<Rightarrow> bool" where
  "char_start t \<longleftrightarrow> t = [] \<or> \<not> is_continuation (hd t)"

lemma char_start_append [simp]: "char_start s \<Longrightarrow> char_start t \<Longrightarrow> char_start (s @ t)"
  by (cases s) (auto simp: char_start_def)

text \<open>Each call repeats the arguments of the one before and adds whole characters.\<close>

fun growing :: "bytes \<Rightarrow> pb_tool_call list \<Rightarrow> bool" where
  "growing p [] \<longleftrightarrow> True"
| "growing p (r # rs) \<longleftrightarrow>
     take (length p) (ct_raw_args r) = p \<and> char_start (drop (length p) (ct_raw_args r)) \<and> growing (ct_raw_args r) rs"

definition tool_frame :: "('e, 't, 'f) dec_env \<Rightarrow> raw_message \<Rightarrow> pb_tool_call \<Rightarrow> bool" where
  "tool_frame e m r \<longleftrightarrow>
     type_of m = 0 \<and> data_of m \<noteq> [] \<and> decode_wrapper e (data_of m) = Some (Some (ClientSideToolV2Call r))"

definition inputs :: "StreamMessage list \<Rightarrow> bytes" where
  "inputs ms = concat (map (\<lambda>m. case m of ToolCall t \<Rightarrow> tc_input t | _ \<Rightarrow> []) ms)"

lemma inputs_simps [simp]:
  "inputs [] = []" "inputs (m # ms) = (case m of ToolCall t \<Rightarrow> tc_input t | _ \<Rightarrow> []) @ inputs ms"
  "inputs (ms @ ns) = inputs ms @ inputs ns"
  by (simp_all add: inputs_def)

lemma new_args_ok: "char_start u \<Longrightarrow> new_args (p @ u) (length p) = Some u"
  by (cases u) (auto simp: new_args_def str_from_unchecked_def is_char_boundary_def char_start_def copy_down_def)

lemma process_tool_frame:
  assumes "tool_frame e m r" "ct_is_streaming r" "ct_raw_args r = p @ u" "char_start u"
    and "raw_args_len c = length p" "\<not> processed c"
  shows "run_frames e [m] c =
    (if has_space_after_separator (p @ u) \<and> u \<noteq> []
     then Some (Inr (the (tool_message r (Some u)) # (if ct_is_last_message r then [StreamEnd] else [])),
                \<lparr>raw_args_len = length (p @ u), processed = ct_is_last_message r\<rparr>)
     else Some (Inr [], c))"
  using assms
  by (cases c)
     (auto simp: tool_frame_def process_message_def handle_text_message_def handle_tool_call_def new_args_ok tool_message_def Let_def)

lemma inputs_tool_message [simp]: "inputs (the (tool_message r (Some u)) # ms) = u @ inputs ms"
  by (simp add: tool_message_def)

lemma tool_args_run:
  assumes "list_all2 (tool_frame e) ms rs" "\<forall>r \<in> set rs. ct_is_streaming r \<and> \<not> ct_is_last_message r" "growing p rs"
    and "p = sent @ u" "char_start u" "c = \<lparr>raw_args_len = length sent, processed = False\<rparr>"
    and "sent \<noteq> [] \<Longrightarrow> has_space_after_separator sent"
  shows "\<exists>raw sent' u'. run_frames e ms c = Some (Inr raw, \<lparr>raw_args_len = length sent', processed = False\<rparr>)
    \<and> sent' = sent @ inputs raw \<and> (if rs = [] then p else ct_raw_args (last rs)) = sent' @ u' \<and> char_start u'
    \<and> (sent' \<noteq> [] \<longrightarrow> has_space_after_separator sent')
    \<and> (rs \<noteq> [] \<longrightarrow> has_space_after_separator (ct_raw_args (last rs)) \<longrightarrow> u' = [])"
  using assms
proof (induction ms rs arbitrary: p sent u c rule: list_all2_induct)
  case Nil
  then show ?case by auto
next
  case (Cons m ms r rs)
  obtain t where t: "ct_raw_args r = p @ t" "char_start t"
    using Cons.prems(2) by (metis append_take_drop_id growing.simps(2))
  have g: "growing (ct_raw_args r) rs" "\<forall>r \<in> set rs. ct_is_streaming r \<and> \<not> ct_is_last_message r"
    using Cons.prems(1,2) by simp_all
  let ?v = "u @ t"
  have v: "ct_raw_args r = sent @ ?v" "char_start ?v" using t Cons.prems(3,4) by simp_all
  have step: "run_frames e [m] c =
    (if has_space_after_separator (sent @ ?v) \<and> ?v \<noteq> []
     then Some (Inr [the (tool_message r (Some ?v))], \<lparr>raw_args_len = length (sent @ ?v), processed = False\<rparr>)
     else Some (Inr [], c))"
    using process_tool_frame [OF Cons.hyps(1) _ v, of c] Cons.prems(1,5) by simp
  show ?case
  proof (cases "has_space_after_separator (sent @ ?v) \<and> ?v \<noteq> []")
    case True
    then have pre: "ct_raw_args r = (sent @ ?v) @ []" "char_start []"
      "sent @ ?v \<noteq> [] \<Longrightarrow> has_space_after_separator (sent @ ?v)" using v(1) by (simp_all add: char_start_def)
    from Cons.IH [OF g(2,1) pre(1,2) refl pre(3)] obtain raw sent' u' where
      IH: "run_frames e ms \<lparr>raw_args_len = length (sent @ ?v), processed = False\<rparr>
         = Some (Inr raw, \<lparr>raw_args_len = length sent', processed = False\<rparr>)"
      "sent' = (sent @ ?v) @ inputs raw" "(if rs = [] then ct_raw_args r else ct_raw_args (last rs)) = sent' @ u'" "char_start u'"
      "sent' \<noteq> [] \<longrightarrow> has_space_after_separator sent'"
      "rs \<noteq> [] \<longrightarrow> has_space_after_separator (ct_raw_args (last rs)) \<longrightarrow> u' = []"
      by blast
    have nil: "u' = []" if "rs = []" using that IH(1,2,3) v(1) Cons.hyps(2) by auto
    have run: "run_frames e (m # ms) c = Some (Inr (the (tool_message r (Some ?v)) # raw), \<lparr>raw_args_len = length sent', processed = False\<rparr>)"
      using step True IH(1) by (subst run_frames_Cons) (simp del: run_frames.simps length_append)
    show ?thesis
      by (rule exI [of _ "the (tool_message r (Some ?v)) # raw"], rule exI [of _ sent'], rule exI [of _ u'])
         (use nil run IH(2-) in \<open>simp del: run_frames.simps inputs_simps(2) split: if_splits\<close>)
  next
    case False
    from Cons.IH [OF g(2,1) v Cons.prems(5,6)] obtain raw sent' u' where
      IH: "run_frames e ms c = Some (Inr raw, \<lparr>raw_args_len = length sent', processed = False\<rparr>)"
      "sent' = sent @ inputs raw" "(if rs = [] then ct_raw_args r else ct_raw_args (last rs)) = sent' @ u'" "char_start u'"
      "sent' \<noteq> [] \<longrightarrow> has_space_after_separator sent'"
      "rs \<noteq> [] \<longrightarrow> has_space_after_separator (ct_raw_args (last rs)) \<longrightarrow> u' = []"
      by blast
    have nil: "u' = []" if "rs = []" "has_space_after_separator (ct_raw_args r)"
      using that False v(1) IH(1,2,3) Cons.hyps(2) by auto
    have run: "run_frames e (m # ms) c = Some (Inr raw, \<lparr>raw_args_len = length sent', processed = False\<rparr>)"
      using False by (subst run_frames_Cons) (auto simp: step IH(1) simp del: run_frames.simps)
    show ?thesis
      by (rule exI [of _ raw], rule exI [of _ sent'], rule exI [of _ u'])
         (use nil run IH(2-) in \<open>simp del: run_frames.simps split: if_splits\<close>)
  qed
qed

lemma collect_frames:
  assumes "\<forall>m \<in> set ms. length (data_of m) < 2 ^ 32"
    and "concat chunks = concat (map frame_bytes ms) @ tail" "parse1 tail = None"
    and run: "run_frames e ms \<lparr>raw_args_len = 0, processed = False\<rparr> = Some (r, c)"
  shows "\<exists>d. collect e b chunks (no_first_cache (chat_decoder_new e))
        = Some (case r of Inr raw \<Rightarrow> Inr (map (convert_if b) raw) | Inl (Upstream err) \<Rightarrow> Inl err, d)
    \<and> (\<forall>raw. r = Inr raw \<longrightarrow> inner (cd_buffer d) = tail \<and> ctx_of d = c
        \<and> text_of d = concat (contents raw) \<and> thought_of d = concat (thoughts raw)
        \<and> marks_of d = map (\<lambda>t. of_nat (chars_count t)) (contents raw))"
proof -
  let ?d = "no_first_cache (chat_decoder_new e)"
  have d: "inner (cd_buffer ?d) = []" "uncached ?d" "ctx_of ?d = \<lparr>raw_args_len = 0, processed = False\<rparr>"
    "text_of ?d = []" "thought_of ?d = []" "marks_of ?d = []"
    by (simp_all add: no_first_cache_def chat_decoder_new_def buffer_new_def uncached_def text_of_def thought_of_def marks_of_def)
  have pf: "parse_frames (inner (cd_buffer ?d) @ concat chunks) = (ms, tail)"
    using parse_frames_frames [OF assms(1), of tail] assms(2,3) d(1) by simp
  have drained: "parse1 (inner (cd_buffer ?d)) = None" using d(1) by simp
  show ?thesis
  proof (cases r)
    case (Inr raw)
    with run have "run_frames e ms (ctx_of ?d) = Some (Inr raw, c)" by (simp add: d(3))
    from collect_ok [OF drained d(2) pf this, of b] show ?thesis using Inr d(4-) by (auto simp: fed_def stats_added_def)
  next
    case (Inl err)
    with run run_frames_upstream obtain x where x: "err = Upstream x" by metis
    with run Inl have "run_frames e ms (ctx_of ?d) = Some (Inl (Upstream x), c)" by (simp add: d(3))
    from collect_error [OF drained d(2) pf this, of b] show ?thesis using Inl x by auto
  qed
qed

section \<open>Properties\<close>


text \<open>An environment for examples: a text frame carries its content, any longer JSON frame is an error.\<close>

definition echo_env :: "(bytes, nat, nat) dec_env" where
  "echo_env =
     \<lparr>gunzip = (\<lambda>_. None),
      decode_wrapper = (\<lambda>bs. Some (Some (StreamUnifiedChatResponse \<lparr>cr_text = bs, cr_web_citation = None, cr_thinking = None\<rparr>))),
      cursor_error = (\<lambda>bs. Some bs), now = (\<lambda>n. n), secs_between = (\<lambda>a b. b - a)\<rparr>"

lemma echo_text: "ds \<noteq> [] \<Longrightarrow> \<not> processed c \<Longrightarrow> process_message echo_env \<lparr>type_of = 0, data_of = ds\<rparr> c = Some (Inr (Some (Content ds)), c)"
  by (simp add: process_message_def handle_text_message_def handle_chat_response_def echo_env_def)

lemma echo_end: "length ds = 2 \<Longrightarrow> process_message echo_env \<lparr>type_of = 2, data_of = ds\<rparr> c = Some (Inr (Some StreamEnd), c)"
  by (simp add: process_message_def handle_json_message_def drop_bit_Suc numeral_2_eq_2)

lemma echo_error:
  "length ds \<noteq> 2 \<Longrightarrow> process_message echo_env \<lparr>type_of = 2, data_of = ds\<rparr> c = Some (Inl (Upstream ds), c)"
  by (simp add: process_message_def handle_json_message_def echo_env_def)



text \<open>A tool call environment: a frame is the text of the arguments, its first byte tells whether it is the last.\<close>

definition tool_env :: "(bytes, nat, nat) dec_env" where
  "tool_env = echo_env\<lparr>decode_wrapper := (\<lambda>bs. Some (Some (ClientSideToolV2Call
     \<lparr>ct_tool_call_id = bytes_of ''t'', ct_is_streaming = True, ct_is_last_message = (hd bs = 1), ct_raw_args = tl bs,
      ct_model_call_id = None, ct_params = None\<rparr>)))\<rparr>"


text \<open>The identifier sent to the client is parsed back into the two identifiers it was made of.\<close>

lemma split_once_str_append:
  "split_once_str DELIMITER t = None \<Longrightarrow> split_once_str DELIMITER (t @ DELIMITER @ m) = Some (t, m)"
proof (induction t)
  case Nil
  then show ?case by (simp add: DELIMITER_def bytes_of_def strip_prefix_def)
next
  case (Cons b t)
  have "strip_prefix DELIMITER (b # t) = None" "split_once_str DELIMITER t = None"
    using Cons.prems by (simp_all split: option.splits)
  moreover from this(1) have "strip_prefix DELIMITER (b # t @ DELIMITER @ m) = None"
    by (cases t rule: list.exhaust; cases "tl t" rule: list.exhaust; cases "tl (tl t)" rule: list.exhaust)
       (auto simp: DELIMITER_def bytes_of_def strip_prefix_def split: if_splits)
  ultimately show ?case using Cons.IH by simp
qed

lemma tool_id_roundtrip:
  "split_once_str DELIMITER t = None \<Longrightarrow>
     tool_id_parse (tool_id_format t m) = \<lparr>ti_tool_call_id = t, ti_model_call_id = m\<rparr>"
  by (cases m) (simp_all add: tool_id_parse_def tool_id_format_def split_once_str_append)

section \<open>What goes wrong\<close>

text \<open>The results of successive calls.\<close>

fun results ::
  "('e, 't, 'f) dec_env \<Rightarrow> bool \<Rightarrow> bytes list \<Rightarrow> ('t, 'f) chat_decoder \<Rightarrow> ('e StreamError + StreamMessage list) list ub" where
  "results e b [] d = Some []"
| "results e b (data # cs) d = do { (r, d) \<leftarrow> chat_decode e data b d; rs \<leftarrow> results e b cs d; Some (r # rs) }"

lemma decode_error_frame:
  assumes "parse1 (inner (cd_buffer d)) = Some m" "data_of m \<noteq> []" "\<not> processed (ctx_of d)"
    and "process_message e m (ctx_of d) = Some (Inl err, ctx_of d)" "data \<noteq> []"
  shows "\<exists>d'. chat_decode e data b d = Some (Inl err, d') \<and> parse1 (inner (cd_buffer d')) = Some m \<and> ctx_of d' = ctx_of d"
proof -
  have m: "parse1 (inner (cd_buffer d) @ data) = Some m" using assms(1) by (rule parse1_append)
  obtain ms rest where pf: "parse_frames (inner (cd_buffer d) @ data) = (m # ms, rest)"
    using m parse_frames.simps [of "inner (cd_buffer d) @ data"] by (simp split: prod.splits)
  have run: "run_frames e (m # ms) (ctx_of d) = Some (Inl err, ctx_of d)" using assms(2-4) by simp
  have "\<not> length (inner (cd_buffer d) @ data) < 5" using m parse1_short [of "inner (cd_buffer d) @ data"] by auto
  from chat_decode_error [OF pf run assms(5) this] m show ?thesis by fastforce
qed

text \<open>An upstream error is never consumed: the error returns before the buffer advances, so every later chunk
  meets the same frame first and fails in the same way, whatever it holds.\<close>

theorem upstream_error_sticks:
  assumes "parse1 (inner (cd_buffer d)) = Some m" "data_of m \<noteq> []" "\<not> processed (ctx_of d)"
    and "process_message e m (ctx_of d) = Some (Inl err, ctx_of d)" "\<forall>data \<in> set chunks. data \<noteq> []"
  shows "results e b chunks d = Some (replicate (length chunks) (Inl err))"
  using assms
proof (induction chunks arbitrary: d)
  case (Cons data cs)
  obtain d' where "chat_decode e data b d = Some (Inl err, d')" "parse1 (inner (cd_buffer d')) = Some m" "ctx_of d' = ctx_of d"
    using decode_error_frame [OF Cons.prems(1-4), of data b] Cons.prems(5) by auto
  with Cons.IH [of d'] Cons.prems show ?case by simp
qed simp

end
