(* ===== verification/Request_Log.thy ===== *)
theory Request_Log
  imports Token_Store
begin

text \<open>
  The request log: \<^verbatim>\<open>src/app/model/log.rs\<close> with its submodules \<^verbatim>\<open>limit\<close>, \<^verbatim>\<open>storage\<close>,
  \<^verbatim>\<open>command\<close> and \<^verbatim>\<open>manager\<close>, and the log records of \<^verbatim>\<open>src/app/model.rs\<close>.  An actor owns the
  log and the tokens its entries refer to, and handles one command at a time.  A command with an
  answer carries \<open>alive\<close>: whether the receiver of the answer still exists.  \<^term>\<open>None\<close> is the end
  of the actor by a panic or by a loop that does not end.

  Floating point numbers are a type \<open>'f\<close>; what the code does with them is in \<open>log_env\<close>, together with
  the membership type of a billing profile.  Points in time are integers.
\<close>

section \<open>Limits\<close>

datatype LogsLimit = Disabled | Limited nat

definition limit_from_usize :: "nat \<Rightarrow> LogsLimit" where
  "limit_from_usize n = (if n = 0 then Disabled else Limited n)"

definition should_log :: "LogsLimit \<Rightarrow> bool" where
  "should_log l = (case l of Disabled \<Rightarrow> False | Limited _ \<Rightarrow> True)"

definition get_limit :: "LogsLimit \<Rightarrow> nat" where
  "get_limit l = (case l of Disabled \<Rightarrow> 0 | Limited n \<Rightarrow> n)"

section \<open>Records\<close>

datatype LogStatus = Pending | LogSuccess | LogFailure

definition as_str_name :: "LogStatus \<Rightarrow> bytes" where
  "as_str_name s = (case s of Pending \<Rightarrow> bytes_of ''pending'' | LogSuccess \<Rightarrow> bytes_of ''success'' | LogFailure \<Rightarrow> bytes_of ''failure'')"

definition from_str_name :: "bytes \<Rightarrow> LogStatus option" where
  "from_str_name s =
     (if s = bytes_of ''pending'' then Some Pending
      else if s = bytes_of ''success'' then Some LogSuccess
      else if s = bytes_of ''failure'' then Some LogFailure
      else None)"

record 'f chain_usage =
  cu_input :: "32 word"
  cu_output :: "32 word"
  cu_cache_write :: "32 word"
  cu_cache_read :: "32 word"
  cu_cents :: 'f

definition usage_total :: "'f chain_usage \<Rightarrow> 32 word" where
  "usage_total u = cu_input u + cu_output u + cu_cache_read u + cu_cache_write u"

record 'f chain =
  delays :: "(bytes \<times> (u32 \<times> 'f) list) option"
  chain_usage :: "'f chain_usage option"
  think :: "bytes option"

definition chain_has_some :: "'f chain \<Rightarrow> bool" where
  "chain_has_some c \<longleftrightarrow> \<not> (delays c = None \<and> chain_usage c = None \<and> think c = None)"

datatype ErrorInfo = NoError | Simple bytes | Detailed bytes bytes

definition error_info_new :: "bytes \<Rightarrow> bytes option \<Rightarrow> ErrorInfo" where
  "error_info_new e d = (case d of Some d \<Rightarrow> Detailed e d | None \<Rightarrow> Simple e)"

fun contains :: "bytes \<Rightarrow> bytes \<Rightarrow> bool" where
  "contains [] pat \<longleftrightarrow> pat = []"
| "contains (b # bs) pat \<longleftrightarrow> starts_with (b # bs) pat \<or> contains bs pat"

definition error_contains :: "ErrorInfo \<Rightarrow> bytes \<Rightarrow> bool" where
  "error_contains e pat =
     (case e of NoError \<Rightarrow> False | Simple x \<Rightarrow> contains x pat | Detailed x d \<Rightarrow> contains x pat \<or> contains d pat)"

definition error_is_some :: "ErrorInfo \<Rightarrow> bool" where
  "error_is_some e \<longleftrightarrow> e \<noteq> NoError"

record 'p log_token_info =
  lt_key :: token_key
  lt_usage :: "'p option"
  lt_user :: "'p user_profile option"
  lt_stripe :: "'p option"

record ('p, 'f) request_log =
  log_id :: u64
  timestamp :: int
  log_model :: bytes
  log_token :: "'p log_token_info"
  log_chain :: "'f chain"
  total_time :: 'f
  log_stream :: bool
  log_status :: LogStatus
  log_error :: ErrorInfo

definition log_key :: "('p, 'f) request_log \<Rightarrow> token_key" where
  "log_key l = lt_key (log_token l)"

record associated_token =
  at_token :: ext_token
  ref_count :: nat

record ('p, 'f) log_manager =
  logs :: "('p, 'f) request_log list"
  log_tokens :: "token_key \<rightharpoonup> associated_token"

definition log_manager_new :: "('p, 'f) log_manager" where
  "log_manager_new = \<lparr>logs = [], log_tokens = Map.empty\<rparr>"

definition error_count :: "('p, 'f) log_manager \<Rightarrow> nat" where
  "error_count m = length (filter (\<lambda>l. log_status l \<noteq> LogSuccess) (logs m))"

definition total_count :: "('p, 'f) log_manager \<Rightarrow> nat" where
  "total_count m = length (logs m)"

section \<open>Commands\<close>

record 'f get_logs_params =
  q_token_key :: "token_key option"
  q_log_status :: "LogStatus option"
  q_membership_type :: "nat option"
  q_user_id :: "UserId option"
  q_from_date :: "int option"
  q_to_date :: "int option"
  q_email :: "bytes option"
  q_model :: "bytes option"
  q_include_models :: "bytes list option"
  q_exclude_models :: "bytes list option"
  q_stream :: "bool option"
  q_has_chain :: "bool option"
  q_has_error :: "bool option"
  q_error :: "bytes option"
  q_min_total_time :: "'f option"
  q_max_total_time :: "'f option"
  q_min_tokens :: "32 word option"
  q_max_tokens :: "32 word option"
  q_reverse :: bool
  q_offset :: nat
  q_limit :: nat

datatype ('p, 'f) log_update =
  TokenProfile "'p user_profile option" "'p option" "'p option"
  | UpdFailure ErrorInfo
  | UpdSuccess
  | Timing 'f
  | Failure2 ErrorInfo 'f
  | Delays "(bytes \<times> (u32 \<times> 'f) list) option" "bytes option"
  | UpdUsage "'f chain_usage"
  | TimingChain 'f "'f chain"

datatype ('p, 'f) log_command =
  GetLogs "'f get_logs_params" bool
  | AddLog "('p, 'f) request_log" ext_token
  | GetNextLogId bool
  | GetToken token_key bool
  | GetTokens "(bytes \<times> token_key) list" bool
  | CloneToSave bool
  | UpdateLog u64 "('p, 'f) log_update"

datatype ('p, 'f) log_reply =
  RLogs nat "('p, 'f) request_log list"
  | RNextId u64
  | RToken "ext_token option"
  | RTokens "bytes \<rightharpoonup> ext_token option"
  | RClone "('p, 'f) log_manager"
  | RNothing

record ('p, 'f) log_env =
  env_limit :: LogsLimit
  f_less :: "'f \<Rightarrow> 'f \<Rightarrow> bool"
  format_time_ms :: "'f \<Rightarrow> 'f"
  membership_of :: "'p \<Rightarrow> nat"

text \<open>\<open>reject o p\<close> is \<^verbatim>\<open>if let Some(x) = o && p(x) { return false; }\<close>.\<close>

definition reject :: "'a option \<Rightarrow> ('a \<Rightarrow> bool) \<Rightarrow> bool" where
  "reject o' p = (case o' of None \<Rightarrow> False | Some x \<Rightarrow> p x)"

text \<open>The test on the user identifier looks the token of the log entry up and panics when it is absent.\<close>

definition user_rejected ::
  "(token_key \<rightharpoonup> associated_token) \<Rightarrow> 'f get_logs_params \<Rightarrow> ('p, 'f) request_log \<Rightarrow> bool ub" where
  "user_rejected toks q l =
     (case q_user_id q of
        None \<Rightarrow> Some False
      | Some u \<Rightarrow> (case toks (log_key l) of
                    None \<Rightarrow> None
                  | Some a \<Rightarrow> Some (sub_id (raw_subject (tok_raw (primary_token (at_token a)))) \<noteq> u)))"

definition before_user_test :: "'f get_logs_params \<Rightarrow> ('p, 'f) request_log \<Rightarrow> bool" where
  "before_user_test q l \<longleftrightarrow>
     \<not> reject (q_token_key q) (\<lambda>k. log_key l \<noteq> k)
     \<and> \<not> reject (q_from_date q) (\<lambda>d. timestamp l < d)
     \<and> \<not> reject (q_to_date q) (\<lambda>d. timestamp l > d)"

definition after_user_test :: "('p, 'f) log_env \<Rightarrow> 'f get_logs_params \<Rightarrow> ('p, 'f) request_log \<Rightarrow> bool" where
  "after_user_test e q l \<longleftrightarrow>
     \<not> reject (q_email q) (\<lambda>m. \<not> (case Option.bind (lt_user (log_token l)) email of
          Some s \<Rightarrow> contains s m | None \<Rightarrow> False))
     \<and> \<not> reject (q_membership_type q) (\<lambda>t. case lt_stripe (log_token l) of
          Some p \<Rightarrow> membership_of e p \<noteq> t | None \<Rightarrow> True)
     \<and> \<not> reject (q_log_status q) (\<lambda>t. log_status l \<noteq> t)
     \<and> \<not> reject (q_model q) (\<lambda>m. \<not> contains (log_model l) m)
     \<and> \<not> reject (q_include_models q) (\<lambda>ms. list_all (\<lambda>m. log_model l \<noteq> m) ms)
     \<and> \<not> reject (q_exclude_models q) (\<lambda>ms. list_ex (\<lambda>m. log_model l = m) ms)
     \<and> \<not> reject (q_stream q) (\<lambda>b. log_stream l \<noteq> b)
     \<and> \<not> reject (q_has_chain q) (\<lambda>b. chain_has_some (log_chain l) \<noteq> b)
     \<and> \<not> reject (q_has_error q) (\<lambda>b. error_is_some (log_error l) \<noteq> b)
     \<and> \<not> reject (q_error q) (\<lambda>s. \<not> error_contains (log_error l) s)
     \<and> \<not> reject (q_min_total_time q) (\<lambda>t. f_less e (total_time l) t)
     \<and> \<not> reject (q_max_total_time q) (\<lambda>t. f_less e t (total_time l))
     \<and> \<not> reject (q_min_tokens q) (\<lambda>n. case chain_usage (log_chain l) of
          Some u \<Rightarrow> sint (usage_total u) < sint n | None \<Rightarrow> True)
     \<and> \<not> reject (q_max_tokens q) (\<lambda>n. case chain_usage (log_chain l) of
          Some u \<Rightarrow> sint (usage_total u) > sint n | None \<Rightarrow> True)"

definition keeps_log ::
  "('p, 'f) log_env \<Rightarrow> (token_key \<rightharpoonup> associated_token) \<Rightarrow> 'f get_logs_params \<Rightarrow> ('p, 'f) request_log \<Rightarrow> bool ub" where
  "keeps_log e toks q l =
     (if \<not> before_user_test q l then Some False
      else do { r \<leftarrow> user_rejected toks q l; Some (\<not> r \<and> after_user_test e q l) })"

fun filter_logs ::
  "('p, 'f) log_env \<Rightarrow> (token_key \<rightharpoonup> associated_token) \<Rightarrow> 'f get_logs_params \<Rightarrow> ('p, 'f) request_log list
   \<Rightarrow> ('p, 'f) request_log list ub" where
  "filter_logs e toks q [] = Some []"
| "filter_logs e toks q (l # ls) = do {
     k \<leftarrow> keeps_log e toks q l;
     ls \<leftarrow> filter_logs e toks q ls;
     Some (if k then l # ls else ls)
   }"

definition get_logs ::
  "('p, 'f) log_env \<Rightarrow> 'f get_logs_params \<Rightarrow> ('p, 'f) log_manager \<Rightarrow> (nat \<times> ('p, 'f) request_log list) ub" where
  "get_logs e q m = do {
     ls \<leftarrow> filter_logs e (log_tokens m) q (logs m);
     Some (length ls, take (q_limit q) (drop (q_offset q) (if q_reverse q then rev ls else ls)))
   }"

section \<open>Adding\<close>

text \<open>\<^verbatim>\<open>ref_count -= 1\<close> wraps as the release profile does, and the entry goes when the count
  is zero; an absent entry is only reported.\<close>

definition release :: "token_key \<Rightarrow> (token_key \<rightharpoonup> associated_token) \<Rightarrow> (token_key \<rightharpoonup> associated_token)" where
  "release k toks =
     (case toks k of
        Some a \<Rightarrow> (let n = (if ref_count a = 0 then USIZE_MAX else ref_count a - 1)
                   in if n = 0 then toks(k := None) else toks(k \<mapsto> a\<lparr>ref_count := n\<rparr>))
      | None \<Rightarrow> toks)"

partial_function (option) evict :: "nat \<Rightarrow> ('p, 'f) log_manager \<Rightarrow> ('p, 'f) log_manager option" where
  "evict limit m =
     (if length (logs m) \<ge> limit
      then (case logs m of
              l # ls \<Rightarrow> evict limit \<lparr>logs = ls, log_tokens = release (log_key l) (log_tokens m)\<rparr>
            | [] \<Rightarrow> evict limit m)
      else Some m)"

definition add_log ::
  "('p, 'f) log_env \<Rightarrow> ('p, 'f) request_log \<Rightarrow> ext_token \<Rightarrow> ('p, 'f) log_manager \<Rightarrow> ('p, 'f) log_manager ub" where
  "add_log e l t m = do {
     m \<leftarrow> evict (get_limit (env_limit e)) m;
     Some \<lparr>logs = logs m @ [l],
           log_tokens = (case log_tokens m (log_key l) of
             Some a \<Rightarrow> (log_tokens m)(log_key l \<mapsto> \<lparr>at_token = t, ref_count = ref_count a + 1\<rparr>)
           | None \<Rightarrow> (log_tokens m)(log_key l \<mapsto> \<lparr>at_token = t, ref_count = 1\<rparr>))\<rparr>
   }"

section \<open>Updating\<close>

definition apply_update ::
  "('p, 'f) log_env \<Rightarrow> ('p, 'f) log_update \<Rightarrow> ('p, 'f) request_log \<Rightarrow> ('p, 'f) request_log" where
  "apply_update e ops l =
     (case ops of
        TokenProfile us ug st \<Rightarrow> l\<lparr>log_token := (log_token l)\<lparr>lt_user := us, lt_usage := ug, lt_stripe := st\<rparr>\<rparr>
      | UpdFailure x \<Rightarrow> l\<lparr>log_status := LogFailure, log_error := x\<rparr>
      | UpdSuccess \<Rightarrow> l\<lparr>log_status := LogSuccess\<rparr>
      | Timing t \<Rightarrow> l\<lparr>total_time := format_time_ms e t\<rparr>
      | Failure2 x t \<Rightarrow> l\<lparr>log_status := LogFailure, log_error := x, total_time := format_time_ms e t\<rparr>
      | Delays d th \<Rightarrow> l\<lparr>log_chain := (log_chain l)\<lparr>delays := d, think := th\<rparr>\<rparr>
      | UpdUsage u \<Rightarrow> l\<lparr>log_chain := (log_chain l)\<lparr>chain_usage := Some u\<rparr>\<rparr>
      | TimingChain t c \<Rightarrow> l\<lparr>total_time := format_time_ms e t, log_chain := c\<rparr>)"

text \<open>\<^verbatim>\<open>iter_mut().rev().find(..)\<close>: the first match of the reversed log.\<close>

fun update_first :: "('a \<Rightarrow> bool) \<Rightarrow> ('a \<Rightarrow> 'a) \<Rightarrow> 'a list \<Rightarrow> 'a list" where
  "update_first p f [] = []"
| "update_first p f (x # xs) = (if p x then f x # xs else x # update_first p f xs)"

definition update_log ::
  "('p, 'f) log_env \<Rightarrow> u64 \<Rightarrow> ('p, 'f) log_update \<Rightarrow> ('p, 'f) log_manager \<Rightarrow> ('p, 'f) log_manager" where
  "update_log e i ops m =
     m\<lparr>logs := rev (update_first (\<lambda>l. log_id l = i) (apply_update e ops) (rev (logs m)))\<rparr>"

definition next_log_id :: "('p, 'f) log_manager \<Rightarrow> u64" where
  "next_log_id m = (if logs m = [] then 1 else log_id (last (logs m)) + 1)"

fun get_tokens_loop :: "(token_key \<rightharpoonup> associated_token) \<Rightarrow> (bytes \<times> token_key) list
    \<Rightarrow> (bytes \<rightharpoonup> ext_token option) \<Rightarrow> (bytes \<rightharpoonup> ext_token option)" where
  "get_tokens_loop toks [] r = r"
| "get_tokens_loop toks ((s, k) # ks) r =
     get_tokens_loop toks ks (r(s \<mapsto> map_option (\<lambda>a. ext_clone (at_token a)) (toks k)))"

text \<open>\<^verbatim>\<open>unwrap!(tx.send(x))\<close> panics when the receiver is gone.  The answer to \<open>CloneToSave\<close> is the
  manager; its conversion to the archive record is \<open>manager_to_helper\<close> below, which also takes the order
  of the hash table.\<close>

definition answer :: "bool \<Rightarrow> ('p, 'f) log_reply \<Rightarrow> ('p, 'f) log_manager
    \<Rightarrow> (('p, 'f) log_reply \<times> ('p, 'f) log_manager) ub" where
  "answer alive r m = (if alive then Some (r, m) else None)"

fun handle_command ::
  "('p, 'f) log_env \<Rightarrow> ('p, 'f) log_command \<Rightarrow> ('p, 'f) log_manager
   \<Rightarrow> (('p, 'f) log_reply \<times> ('p, 'f) log_manager) ub" where
  "handle_command e (GetLogs q alive) m = do { (n, ls) \<leftarrow> get_logs e q m; answer alive (RLogs n ls) m }"
| "handle_command e (AddLog l t) m = do { m \<leftarrow> add_log e l t m; Some (RNothing, m) }"
| "handle_command e (GetNextLogId alive) m = answer alive (RNextId (next_log_id m)) m"
| "handle_command e (GetToken k alive) m =
     answer alive (RToken (map_option (\<lambda>a. ext_clone (at_token a)) (log_tokens m k))) m"
| "handle_command e (GetTokens ks alive) m = answer alive (RTokens (get_tokens_loop (log_tokens m) ks Map.empty)) m"
| "handle_command e (CloneToSave alive) m = answer alive (RClone m) m"
| "handle_command e (UpdateLog i ops) m = Some (RNothing, update_log e i ops m)"

text \<open>The actor: the commands in the order in which the channel delivers them.\<close>

fun actor ::
  "('p, 'f) log_env \<Rightarrow> ('p, 'f) log_command list \<Rightarrow> ('p, 'f) log_manager
   \<Rightarrow> (('p, 'f) log_reply list \<times> ('p, 'f) log_manager) ub" where
  "actor e [] m = Some ([], m)"
| "actor e (c # cs) m = do { (r, m) \<leftarrow> handle_command e c m; (rs, m) \<leftarrow> actor e cs m; Some (r # rs, m) }"


section \<open>Archive\<close>

datatype ErrorInfoHelper = HelperEmpty | HelperSimple bytes | HelperDetailed bytes bytes

definition error_to_helper :: "ErrorInfo \<Rightarrow> ErrorInfoHelper" where
  "error_to_helper e =
     (case e of NoError \<Rightarrow> HelperEmpty | Simple x \<Rightarrow> HelperSimple x | Detailed x d \<Rightarrow> HelperDetailed x d)"

definition error_from_helper :: "ErrorInfoHelper \<Rightarrow> ErrorInfo" where
  "error_from_helper h =
     (case h of HelperEmpty \<Rightarrow> NoError | HelperSimple x \<Rightarrow> error_info_new x None
      | HelperDetailed x d \<Rightarrow> error_info_new x (Some d))"

record ('p, 'f) request_log_helper =
  rh_id :: u64
  rh_timestamp :: int
  rh_model :: bytes
  rh_token_info :: "'p log_token_info"
  rh_chain :: "'f chain"
  rh_timing :: 'f
  rh_stream :: bool
  rh_status :: LogStatus
  rh_error :: ErrorInfoHelper

definition log_to_helper :: "('p, 'f) request_log \<Rightarrow> ('p, 'f) request_log_helper" where
  "log_to_helper l =
     \<lparr>rh_id = log_id l, rh_timestamp = timestamp l, rh_model = log_model l, rh_token_info = log_token l,
      rh_chain = log_chain l, rh_timing = total_time l, rh_stream = log_stream l, rh_status = log_status l,
      rh_error = error_to_helper (log_error l)\<rparr>"

definition log_from_helper :: "('p, 'f) request_log_helper \<Rightarrow> ('p, 'f) request_log" where
  "log_from_helper h =
     \<lparr>log_id = rh_id h, timestamp = rh_timestamp h, log_model = rh_model h, log_token = rh_token_info h,
      log_chain = rh_chain h, total_time = rh_timing h, log_stream = rh_stream h, log_status = rh_status h,
      log_error = error_from_helper (rh_error h)\<rparr>"

record associated_helper =
  ah_token :: ext_token_helper
  ah_ref_count :: nat

record ('p, 'f) log_manager_helper =
  mh_logs :: "('p, 'f) request_log_helper list"
  mh_tokens :: "(token_key \<times> associated_helper) list"

text \<open>\<open>es\<close> lists the entries of the map of tokens in the order in which the hash table yields them.\<close>

definition manager_to_helper ::
  "bool \<Rightarrow> (token_key \<times> associated_token) list \<Rightarrow> ('p, 'f) log_manager \<Rightarrow> ('p, 'f) log_manager_helper" where
  "manager_to_helper big es m =
     \<lparr>mh_logs = map log_to_helper (logs m),
      mh_tokens = map (\<lambda>(k, a). (k, \<lparr>ah_token = ext_helper_new big (at_token a), ah_ref_count = ref_count a\<rparr>)) es\<rparr>"

fun tokens_from_helper ::
  "extract_env \<Rightarrow> (token_key \<times> associated_helper) list \<Rightarrow> (token_key \<rightharpoonup> associated_token) \<Rightarrow> token_view
   \<Rightarrow> ((token_key \<rightharpoonup> associated_token) \<times> token_view) ub" where
  "tokens_from_helper x [] toks c = Some (toks, c)"
| "tokens_from_helper x ((k, h) # hs) toks c = do {
     (t, c) \<leftarrow> ext_helper_extract x (ah_token h) c;
     tokens_from_helper x hs (toks(k \<mapsto> \<lparr>at_token = t, ref_count = ah_ref_count h\<rparr>)) c
   }"

definition manager_from_helper ::
  "extract_env \<Rightarrow> ('p, 'f) log_manager_helper \<Rightarrow> token_view \<Rightarrow> (('p, 'f) log_manager \<times> token_view) ub" where
  "manager_from_helper x h c = do {
     (toks, c) \<leftarrow> tokens_from_helper x (mh_tokens h) Map.empty c;
     Some (\<lparr>logs = map log_from_helper (mh_logs h), log_tokens = toks\<rparr>, c)
   }"

text \<open>\<open>open_file\<close> truncates the file, \<open>write_all\<close> sets its length, maps it and copies the bytes.\<close>

definition log_save ::
  "LogsLimit \<Rightarrow> (('p, 'f) log_manager_helper \<Rightarrow> bytes option) \<Rightarrow> ('w \<Rightarrow> bool \<times> 'w) \<Rightarrow> (bytes \<Rightarrow> 'w \<Rightarrow> bool \<times> 'w)
   \<Rightarrow> ('p, 'f) log_manager_helper \<Rightarrow> 'w \<Rightarrow> (SaveError + unit) \<times> 'w" where
  "log_save limit enc open_file write_all helper w =
     (if \<not> should_log limit then (Inr (), w)
      else (case enc helper of
              None \<Rightarrow> (Inl ArchiveError, w)
            | Some bs \<Rightarrow>
                let (opened, w) = open_file w
                in if \<not> opened then (Inl IoError, w)
                   else if length bs > USIZE_MAX div 2 then (Inl DataTooLarge, w)
                   else let (ok, w) = write_all bs w in (if ok then Inr () else Inl IoError, w)))"

definition log_load ::
  "LogsLimit \<Rightarrow> extract_env \<Rightarrow> (bytes \<Rightarrow> ('p, 'f) log_manager_helper option) \<Rightarrow> file_read \<Rightarrow> token_view
   \<Rightarrow> ((LoadError + ('p, 'f) log_manager) \<times> token_view) ub" where
  "log_load limit x dec file c =
     (if \<not> should_log limit then Some (Inr log_manager_new, c)
      else (case file of
              NotFound \<Rightarrow> Some (Inr log_manager_new, c)
            | ReadFailed \<Rightarrow> Some (Inl LoadIoError, c)
            | Contents bs \<Rightarrow>
                if length bs > USIZE_MAX then Some (Inl FileTooLarge, c)
                else (case dec bs of
                        None \<Rightarrow> Some (Inl LoadArchiveError, c)
                      | Some h \<Rightarrow> do { (m, c) \<leftarrow> manager_from_helper x h c; Some (Inr m, c) })))"

section \<open>Reference counts\<close>

definition refs :: "('p, 'f) request_log list \<Rightarrow> token_key \<Rightarrow> nat" where
  "refs ls k = length (filter (\<lambda>l. log_key l = k) ls)"

text \<open>A token is stored exactly while a log entry refers to it, with the number of those entries.\<close>

definition counts_ok :: "('p, 'f) log_manager \<Rightarrow> bool" where
  "counts_ok m \<longleftrightarrow> (\<forall>k. map_option ref_count (log_tokens m k) = (if refs (logs m) k = 0 then None else Some (refs (logs m) k)))"

lemma refs_simps [simp]:
  "refs [] k = 0" "refs (l # ls) k = (if log_key l = k then 1 else 0) + refs ls k"
  "refs (ls @ ms) k = refs ls k + refs ms k"
  by (simp_all add: refs_def)

lemma counts_ok_new: "counts_ok log_manager_new"
  by (simp add: counts_ok_def log_manager_new_def)

lemma counts_ok_get: "counts_ok m \<Longrightarrow> map_option ref_count (log_tokens m k) = (if refs (logs m) k = 0 then None else Some (refs (logs m) k))"
  by (simp add: counts_ok_def)

lemma counts_ok_release:
  assumes "counts_ok m" "logs m = l # ls"
  shows "counts_ok \<lparr>logs = ls, log_tokens = release (log_key l) (log_tokens m)\<rparr>"
proof -
  obtain a where a: "log_tokens m (log_key l) = Some a" "ref_count a = Suc (refs ls (log_key l))"
    using counts_ok_get [OF assms(1), of "log_key l"] assms(2) by auto
  show ?thesis
    unfolding counts_ok_def
  proof
    fix k
    show "map_option ref_count (log_tokens \<lparr>logs = ls, log_tokens = release (log_key l) (log_tokens m)\<rparr> k)
      = (if refs (logs \<lparr>logs = ls, log_tokens = release (log_key l) (log_tokens m)\<rparr>) k = 0 then None
         else Some (refs (logs \<lparr>logs = ls, log_tokens = release (log_key l) (log_tokens m)\<rparr>) k))"
      using a counts_ok_get [OF assms(1), of k] assms(2) by (cases "k = log_key l") (auto simp: release_def Let_def)
  qed
qed

section \<open>Eviction\<close>

lemma evict_less: "length (logs m) < limit \<Longrightarrow> evict limit m = Some m"
  by (subst evict.simps) simp

lemma evict_full:
  "limit \<le> length (logs m) \<Longrightarrow> logs m = l # ls \<Longrightarrow>
   evict limit m = evict limit \<lparr>logs = ls, log_tokens = release (log_key l) (log_tokens m)\<rparr>"
  by (subst evict.simps) simp

lemma evict_ok:
  assumes "0 < limit"
  shows "\<exists>m'. evict limit m = Some m' \<and> logs m' = drop (Suc (length (logs m)) - limit) (logs m)
    \<and> (counts_ok m \<longrightarrow> counts_ok m')"
proof (induction "logs m" arbitrary: m)
  case Nil
  then show ?case using assms evict_less [of m limit] by simp
next
  case (Cons l ls)
  show ?case
  proof (cases "length (logs m) < limit")
    case True
    then show ?thesis using evict_less by fastforce
  next
    case False
    let ?m = "\<lparr>logs = ls, log_tokens = release (log_key l) (log_tokens m)\<rparr>"
    obtain m' where m': "evict limit ?m = Some m'" "logs m' = drop (Suc (length ls) - limit) ls"
      "counts_ok ?m \<longrightarrow> counts_ok m'"
      using Cons.hyps(1) [of ?m] by auto
    have e: "logs m = l # ls" using Cons.hyps(2) by simp
    have "evict limit m = Some m'" using evict_full [OF _ e, of limit] False m'(1) by (simp add: not_less)
    moreover have "logs m' = drop (Suc (length (logs m)) - limit) (logs m)"
      using False m'(2) unfolding e by (simp add: Suc_diff_le)
    ultimately show ?thesis using counts_ok_release [OF _ e] m'(3) by blast
  qed
qed

text \<open>Without a limit the loop does not end.\<close>

lemma evict_zero: "evict 0 m = None"
proof -
  have "limit \<noteq> 0" if "evict limit m = Some m'" for limit and m m' :: "('a, 'b) log_manager"
  proof (rule evict.raw_induct [where P = "\<lambda>limit m m'. limit \<noteq> 0", OF _ that])
    fix f :: "nat \<Rightarrow> ('a, 'b) log_manager \<Rightarrow> ('a, 'b) log_manager option" and limit m m'
    assume "\<And>limit m m'. f limit m = Some m' \<Longrightarrow> limit \<noteq> 0"
      and "(if limit \<le> length (logs m)
        then case logs m of [] \<Rightarrow> f limit m
             | l # ls \<Rightarrow> f limit \<lparr>logs = ls, log_tokens = release (log_key l) (log_tokens m)\<rparr>
        else Some m) = Some m'"
    then show "limit \<noteq> 0" by (auto split: list.splits if_splits)
  qed
  then show ?thesis by (cases "evict 0 m") auto
qed

lemma add_log_ok:
  assumes "0 < get_limit (env_limit e)"
  shows "\<exists>m'. add_log e l t m = Some m'
    \<and> logs m' = drop (Suc (length (logs m)) - get_limit (env_limit e)) (logs m) @ [l]
    \<and> (counts_ok m \<longrightarrow> counts_ok m')"
proof -
  obtain m1 where m1: "evict (get_limit (env_limit e)) m = Some m1"
    "logs m1 = drop (Suc (length (logs m)) - get_limit (env_limit e)) (logs m)" "counts_ok m \<longrightarrow> counts_ok m1"
    using evict_ok [OF assms] by blast
  let ?m = "\<lparr>logs = logs m1 @ [l],
    log_tokens = (case log_tokens m1 (log_key l) of
      Some a \<Rightarrow> (log_tokens m1)(log_key l \<mapsto> \<lparr>at_token = t, ref_count = ref_count a + 1\<rparr>)
    | None \<Rightarrow> (log_tokens m1)(log_key l \<mapsto> \<lparr>at_token = t, ref_count = 1\<rparr>))\<rparr>"
  have "counts_ok ?m" if "counts_ok m1"
    unfolding counts_ok_def
  proof
    fix k
    show "map_option ref_count (log_tokens ?m k) = (if refs (logs ?m) k = 0 then None else Some (refs (logs ?m) k))"
      using counts_ok_get [OF that, of k] by (auto split: option.splits if_splits)
  qed
  with m1 show ?thesis by (auto simp: add_log_def)
qed


section \<open>The actor keeps its invariant\<close>

definition log_inv :: "nat \<Rightarrow> ('p, 'f) log_manager \<Rightarrow> bool" where
  "log_inv limit m \<longleftrightarrow> counts_ok m \<and> length (logs m) \<le> limit"

lemma log_inv_token:
  assumes "log_inv limit m" "l \<in> set (logs m)"
  shows "\<exists>a. log_tokens m (log_key l) = Some a"
proof -
  have "refs (logs m) (log_key l) \<noteq> 0" using assms(2) by (auto simp: refs_def filter_empty_conv)
  then show ?thesis
    using counts_ok_get [of m "log_key l"] assms(1) by (auto simp: log_inv_def)
qed

lemma filter_logs_total:
  "(\<And>l. l \<in> set ls \<Longrightarrow> \<exists>a. toks (log_key l) = Some a) \<Longrightarrow> \<exists>r. filter_logs e toks q ls = Some r"
proof (induction ls)
  case (Cons l ls)
  then obtain a where "toks (log_key l) = Some a" by auto
  then have "\<exists>b. keeps_log e toks q l = Some b"
    by (auto simp: keeps_log_def user_rejected_def split: option.splits)
  with Cons show ?case by fastforce
qed simp

lemma apply_update_key [simp]: "log_key (apply_update e ops l) = log_key l"
  by (cases ops) (simp_all add: apply_update_def log_key_def)

lemma map_update_first:
  "(\<And>x. g (f x) = g x) \<Longrightarrow> map g (update_first p f xs) = map g xs"
  by (induction xs) auto

lemma refs_map: "refs ls k = length (filter (\<lambda>x. x = k) (map log_key ls))"
  by (simp add: refs_def filter_map comp_def)

lemma update_log_inv:
  assumes "log_inv limit m"
  shows "log_inv limit (update_log e i ops m)"
proof -
  let ?ls = "rev (update_first (\<lambda>l. log_id l = i) (apply_update e ops) (rev (logs m)))"
  have keys: "map log_key ?ls = map log_key (logs m)"
    by (simp add: map_update_first flip: rev_map)
  then have "refs ?ls k = refs (logs m) k" for k by (simp only: refs_map)
  moreover have "length ?ls = length (logs m)" using arg_cong [OF keys, of length] by simp
  ultimately show ?thesis using assms by (simp add: log_inv_def counts_ok_def update_log_def)
qed

text \<open>Nobody who waits for an answer goes away.\<close>

definition awaited :: "('p, 'f) log_command \<Rightarrow> bool" where
  "awaited c = (case c of GetLogs _ alive \<Rightarrow> alive | AddLog _ _ \<Rightarrow> True | GetNextLogId alive \<Rightarrow> alive
     | GetToken _ alive \<Rightarrow> alive | GetTokens _ alive \<Rightarrow> alive | CloneToSave alive \<Rightarrow> alive | UpdateLog _ _ \<Rightarrow> True)"

lemma handle_command_safe:
  assumes inv: "log_inv (get_limit (env_limit e)) m" and "should_log (env_limit e)" "0 < get_limit (env_limit e)"
    and "awaited c"
  shows "\<exists>r m'. handle_command e c m = Some (r, m') \<and> log_inv (get_limit (env_limit e)) m'"
proof (cases c)
  case (GetLogs q alive)
  obtain r where "filter_logs e (log_tokens m) q (logs m) = Some r"
    using filter_logs_total [of "logs m" "log_tokens m" e q] log_inv_token [OF inv] by blast
  with GetLogs assms(4) inv show ?thesis by (auto simp: get_logs_def answer_def awaited_def)
next
  case (AddLog l t)
  obtain m' where "add_log e l t m = Some m'" "counts_ok m'"
    "logs m' = drop (Suc (length (logs m)) - get_limit (env_limit e)) (logs m) @ [l]"
    using add_log_ok [OF assms(3), of l t m] inv by (auto simp: log_inv_def)
  with AddLog assms(3) inv show ?thesis by (auto simp: log_inv_def)
qed (use assms(4) inv update_log_inv [OF inv] in \<open>auto simp: answer_def awaited_def\<close>)

lemma actor_safe:
  assumes "should_log (env_limit e)" "0 < get_limit (env_limit e)"
  shows "log_inv (get_limit (env_limit e)) m \<Longrightarrow> \<forall>c \<in> set cs. awaited c \<Longrightarrow>
    \<exists>rs m'. actor e cs m = Some (rs, m') \<and> length rs = length cs \<and> log_inv (get_limit (env_limit e)) m'"
proof (induction cs arbitrary: m)
  case (Cons c cs)
  then obtain r m1 where "handle_command e c m = Some (r, m1)" "log_inv (get_limit (env_limit e)) m1"
    using handle_command_safe [OF Cons.prems(1) assms, of c] by auto
  with Cons.IH [of m1] Cons.prems show ?case by auto
qed simp

lemma limited_enabled:
  "should_log (limit_from_usize n) \<longleftrightarrow> 0 < get_limit (limit_from_usize n)" "get_limit (limit_from_usize n) = n"
  by (simp_all add: limit_from_usize_def should_log_def get_limit_def)

section \<open>Properties\<close>

text \<open>C27: The log actor survives.  With logging enabled (a limit read from the environment that is not
  zero) and answers that are awaited, every sequence of commands from an empty log is processed to
  the end: no loop hangs, the \<^verbatim>\<open>expect\<close> of the filter never fails, the log never exceeds its limit,
  and a token is kept exactly while log entries refer to it, with their number as its count.\<close>

theorem log_actor_invariant:
  assumes "env_limit e = limit_from_usize n" "0 < n" "\<forall>c \<in> set cs. awaited c"
  shows "\<exists>rs m. actor e cs log_manager_new = Some (rs, m) \<and> length rs = length cs
    \<and> length (logs m) \<le> n
    \<and> (\<forall>k. map_option ref_count (log_tokens m k) = (if refs (logs m) k = 0 then None else Some (refs (logs m) k)))"
proof -
  have "log_inv (get_limit (env_limit e)) log_manager_new"
    by (simp add: log_inv_def counts_ok_new) (simp add: log_manager_new_def)
  then obtain rs m where "actor e cs log_manager_new = Some (rs, m)" "length rs = length cs" "log_inv n m"
    using actor_safe [of e log_manager_new cs] assms by (auto simp: limited_enabled)
  then show ?thesis unfolding log_inv_def counts_ok_def by blast
qed

definition sample_log :: "u64 \<Rightarrow> u64 \<Rightarrow> (unit, nat) request_log" where
  "sample_log i rnd =
     \<lparr>log_id = i, timestamp = 0, log_model = [], log_token = \<lparr>lt_key = \<lparr>user_id = UserId 7 0, randomness = rnd\<rparr>,
        lt_usage = None, lt_user = None, lt_stripe = None\<rparr>,
      log_chain = \<lparr>delays = None, chain_usage = None, think = None\<rparr>, total_time = 0, log_stream = True,
      log_status = Pending, log_error = NoError\<rparr>"

definition sample_log_env :: "(unit, nat) log_env" where
  "sample_log_env = \<lparr>env_limit = limit_from_usize 2, f_less = (<), format_time_ms = (\<lambda>t. t), membership_of = (\<lambda>_. 0)\<rparr>"

theorem log_actor_invariant_witness:
  "\<exists>rs m. actor sample_log_env
      [AddLog (sample_log 1 1) (ext_bundle (sample_info 1 True)), GetNextLogId True,
       AddLog (sample_log 2 1) (ext_bundle (sample_info 1 True)), UpdateLog 2 UpdSuccess] log_manager_new = Some (rs, m)
    \<and> length (logs m) \<le> 2"
proof -
  let ?cs = "[AddLog (sample_log 1 1) (ext_bundle (sample_info 1 True)), GetNextLogId True,
       AddLog (sample_log 2 1) (ext_bundle (sample_info 1 True)), UpdateLog 2 UpdSuccess]"
  have "env_limit sample_log_env = limit_from_usize 2" "\<forall>c \<in> set ?cs. awaited c"
    by (simp_all add: sample_log_env_def awaited_def)
  from log_actor_invariant [OF this(1) _ this(2)] show ?thesis by auto
qed

text \<open>C36: Adding a log entry terminates exactly when logging is enabled.  The eviction loop ends if and only
  if the limit is not zero; then the oldest entries make room, the newest are kept in order and the new
  one is at the end.  With the limit zero the loop would never end: \<^verbatim>\<open>is_enabled\<close> has to guard it.\<close>

theorem add_log_terminates:
  "(add_log e l t m \<noteq> None \<longleftrightarrow> 0 < get_limit (env_limit e))
   \<and> (\<forall>m'. add_log e l t m = Some m' \<longrightarrow>
        logs m' = drop (Suc (length (logs m)) - get_limit (env_limit e)) (logs m) @ [l])"
proof (cases "get_limit (env_limit e) = 0")
  case True
  then show ?thesis by (simp add: add_log_def evict_zero)
next
  case False
  with add_log_ok [of e l t m] show ?thesis by auto
qed

theorem add_log_terminates_witness:
  "\<exists>m'. add_log sample_log_env (sample_log 3 1) (ext_bundle (sample_info 1 True))
      \<lparr>logs = [sample_log 1 1, sample_log 2 1], log_tokens = Map.empty\<rparr> = Some m'
    \<and> map log_id (logs m') = [2, 3]"
proof -
  let ?m = "\<lparr>logs = [sample_log 1 1, sample_log 2 1], log_tokens = Map.empty\<rparr>"
  have l: "get_limit (env_limit sample_log_env) = 2"
    by (simp add: sample_log_env_def limit_from_usize_def get_limit_def)
  obtain m' where m': "add_log sample_log_env (sample_log 3 1) (ext_bundle (sample_info 1 True)) ?m = Some m'"
    using add_log_terminates [of sample_log_env "sample_log 3 1" "ext_bundle (sample_info 1 True)" ?m] by (auto simp: l)
  moreover have "logs m' = [sample_log 2 1, sample_log 3 1]"
    using add_log_terminates [of sample_log_env "sample_log 3 1" "ext_bundle (sample_info 1 True)" ?m] m'
    by (simp add: l)
  ultimately show ?thesis by (simp add: sample_log_def)
qed


lemma actor_additions:
  assumes "0 < get_limit (env_limit e)"
  shows "\<exists>rs m'. actor e (map (\<lambda>(l, t). AddLog l t) xs) m = Some (rs, m')
    \<and> (length (logs m) \<le> get_limit (env_limit e) \<longrightarrow>
       logs m' = drop (length (logs m) + length xs - get_limit (env_limit e)) (logs m @ map fst xs))"
proof (induction xs arbitrary: m)
  case (Cons x xs)
  let ?n = "get_limit (env_limit e)"
  obtain l t where x: "x = (l, t)" by fastforce
  obtain m1 where m1: "add_log e l t m = Some m1" "logs m1 = drop (Suc (length (logs m)) - ?n) (logs m) @ [l]"
    using add_log_ok [OF assms, of l t m] by blast
  obtain rs m' where m': "actor e (map (\<lambda>(l, t). AddLog l t) xs) m1 = Some (rs, m')"
    "length (logs m1) \<le> ?n \<longrightarrow> logs m' = drop (length (logs m1) + length xs - ?n) (logs m1 @ map fst xs)"
    using Cons.IH by blast
  have "logs m' = drop (length (logs m) + length (x # xs) - ?n) (logs m @ map fst (x # xs))"
    if le: "length (logs m) \<le> ?n"
  proof -
    have "length (logs m1) \<le> ?n" using m1(2) le assms by simp
    then have "logs m' = drop (length (logs m1) + length xs - ?n) (logs m1 @ map fst xs)" using m'(2) by blast
    moreover have "logs m1 = drop (Suc (length (logs m)) - ?n) (logs m @ [l])"
      using m1(2) le by (cases "length (logs m) = ?n") (use assms in auto)
    moreover have "Suc (length (logs m) + length xs) - (Suc (length (logs m)) - ?n + ?n) + (Suc (length (logs m)) - ?n)
        = Suc (length (logs m) + length xs) - ?n"
      using le by (cases "length (logs m) = ?n") auto
    ultimately show ?thesis using le assms by (auto simp: x drop_append [symmetric])
  qed
  with m1 m' show ?case by (simp add: x)
qed simp


text \<open>C35: The log is a window on the most recent requests: after any sequence of additions it holds the last
  \<open>n\<close> of them (all of them when there are fewer), in order.\<close>

theorem log_keeps_recent:
  assumes "env_limit e = limit_from_usize n" "0 < n"
  shows "\<exists>rs m. actor e (map (\<lambda>(l, t). AddLog l t) xs) log_manager_new = Some (rs, m)
    \<and> logs m = drop (length xs - n) (map fst xs)"
  using actor_additions [of e xs log_manager_new] assms
  by (auto simp: limited_enabled log_manager_new_def)

theorem log_keeps_recent_witness:
  "\<exists>rs m. actor sample_log_env (map (\<lambda>(l, t). AddLog l t)
        (map (\<lambda>i. (sample_log i i, ext_bundle (sample_info i True))) [1, 2, 3])) log_manager_new = Some (rs, m)
    \<and> map log_id (logs m) = [2, 3]"
proof -
  have "env_limit sample_log_env = limit_from_usize 2" by (simp add: sample_log_env_def)
  from log_keeps_recent [OF this, of "map (\<lambda>i. (sample_log i i, ext_bundle (sample_info i True))) [1, 2, 3]"]
  obtain rs m where "actor sample_log_env (map (\<lambda>(l, t). AddLog l t)
        (map (\<lambda>i. (sample_log i i, ext_bundle (sample_info i True))) [1, 2, 3])) log_manager_new = Some (rs, m)"
    "logs m = [sample_log 2 2, sample_log 3 3]"
    by auto
  then show ?thesis by (intro exI [of _ rs] exI [of _ m]) (simp add: sample_log_def)
qed

lemma error_helper [simp]: "error_from_helper (error_to_helper e) = e"
  by (cases e) (simp_all add: error_to_helper_def error_from_helper_def error_info_new_def)

lemma log_helper [simp]: "log_from_helper (log_to_helper l) = l"
  by (simp add: log_from_helper_def log_to_helper_def)

definition ext_loadable :: "extract_env \<Rightarrow> ext_token \<Rightarrow> bool" where
  "ext_loadable x t \<longleftrightarrow>
     (\<forall>s \<in> insert (primary_token t) (set_option (secondary_token t)).
        provider_name (provider (raw_subject (tok_raw s))) \<in> set (x_providers x))
     \<and> (\<forall>z \<in> set_option (timezone t). x_parse_tz x z = Some z)"

definition associated_equiv :: "associated_token \<Rightarrow> associated_token \<Rightarrow> bool" where
  "associated_equiv a b \<longleftrightarrow> ext_equiv (at_token a) (at_token b) \<and> ref_count a = ref_count b"

lemma tokens_from_helper_ok:
  assumes "\<forall>(k, a) \<in> set es. ext_loadable x (at_token a)" "view_ok c" "distinct (map fst es)"
    and "\<And>k. k \<in> fst ` set es \<Longrightarrow> toks k = None"
  shows "\<exists>toks' c'. tokens_from_helper x
      (map (\<lambda>(k, a). (k, \<lparr>ah_token = ext_helper_new (x_big x) (at_token a), ah_ref_count = ref_count a\<rparr>)) es) toks c
      = Some (toks', c') \<and> view_ok c'
    \<and> (\<forall>k. case map_of es k of None \<Rightarrow> toks' k = toks k | Some a \<Rightarrow> \<exists>b. toks' k = Some b \<and> associated_equiv b a)"
  using assms
proof (induction es arbitrary: toks c)
  case (Cons e es)
  obtain k a where e: "e = (k, a)" by fastforce
  obtain t c1 where t: "ext_helper_extract x (ext_helper_new (x_big x) (at_token a)) c = Some (t, c1)"
    "view_ok c1" "ext_equiv t (at_token a)"
    using ext_helper_extract_ok [of "at_token a" x c UNIV] Cons.prems(1,2) e by (auto simp: ext_loadable_def view_in_def)
  let ?b = "\<lparr>at_token = t, ref_count = ref_count a\<rparr>"
  have fresh: "(toks(k \<mapsto> ?b)) j = None" if "j \<in> fst ` set es" for j
    using that Cons.prems(3,4) e by (auto simp: image_iff)
  have "\<forall>(k, a) \<in> set es. ext_loadable x (at_token a)" "distinct (map fst es)"
    using Cons.prems(1,3) by simp_all
  from Cons.IH [where toks = "toks(k \<mapsto> ?b)", OF this(1) t(2) this(2) fresh] obtain toks' c' where r: "tokens_from_helper x
      (map (\<lambda>(k, a). (k, \<lparr>ah_token = ext_helper_new (x_big x) (at_token a), ah_ref_count = ref_count a\<rparr>)) es)
      (toks(k \<mapsto> ?b)) c1 = Some (toks', c')" "view_ok c'"
    "\<forall>j. case map_of es j of None \<Rightarrow> toks' j = (toks(k \<mapsto> ?b)) j
          | Some a \<Rightarrow> \<exists>b. toks' j = Some b \<and> associated_equiv b a"
    by blast
  have "map_of es k = None" using Cons.prems(3) e by (simp add: map_of_eq_None_iff)
  then have "case map_of (e # es) j of None \<Rightarrow> toks' j = toks j | Some a \<Rightarrow> \<exists>b. toks' j = Some b \<and> associated_equiv b a" for j
    using r(3) [rule_format, of j] t(3) by (auto simp: e associated_equiv_def split: option.splits)
  with r t show ?case by (simp add: e)
qed simp

text \<open>The log survives a restart.  Whatever order the hash table yields its entries in, a log saved
  successfully and read back has the same entries, and for each key an equal token (up to the program's
  equality) with the same count; when logging is disabled nothing is written and an empty log is loaded.\<close>

theorem log_save_load_roundtrip:
  assumes "map_of es = log_tokens m" "distinct (map fst es)" "\<forall>(k, a) \<in> set es. ext_loadable x (at_token a)" "view_ok c"
    and archive: "\<And>h bs. enc h = Some bs \<Longrightarrow> dec bs = Some h"
    and disk: "\<And>bs w w'. write_all bs w = (True, w') \<Longrightarrow> read_file w' = Contents bs"
    and save: "log_save limit enc open_file write_all (manager_to_helper (x_big x) es m) w = (Inr (), w')"
  shows "\<exists>m' c'. log_load limit x dec (read_file w') c = Some (Inr m', c')
    \<and> (if should_log limit
       then logs m' = logs m \<and> (\<forall>k. rel_option associated_equiv (log_tokens m' k) (log_tokens m k))
       else m' = log_manager_new \<and> w' = w)"
proof (cases "should_log limit")
  case False
  then show ?thesis using save by (simp add: log_load_def log_save_def)
next
  case True
  let ?h = "manager_to_helper (x_big x) es m"
  obtain bs w1 where bs: "enc ?h = Some bs" "length bs \<le> USIZE_MAX div 2" "write_all bs w1 = (True, w')"
    using save True by (auto simp: log_save_def Let_def split: option.splits if_splits prod.splits)
  have rd: "read_file w' = Contents bs" "dec bs = Some ?h"
    using disk [OF bs(3)] archive [OF bs(1)] by simp_all
  have fits: "\<not> USIZE_MAX < length bs" using bs(2) div_le_dividend [of USIZE_MAX 2] by linarith
  obtain toks' c' where t: "tokens_from_helper x (mh_tokens ?h) Map.empty c = Some (toks', c')"
    "\<forall>k. case log_tokens m k of None \<Rightarrow> toks' k = None | Some a \<Rightarrow> \<exists>b. toks' k = Some b \<and> associated_equiv b a"
    using tokens_from_helper_ok [OF assms(3,4,2), of Map.empty] by (auto simp: manager_to_helper_def assms(1))
  have "rel_option associated_equiv (toks' k) (log_tokens m k)" for k
    using t(2) [rule_format, of k] by (auto split: option.splits)
  moreover have "map log_from_helper (mh_logs ?h) = logs m" by (simp add: manager_to_helper_def comp_def)
  ultimately show ?thesis
    using True rd fits t(1) by (simp add: log_load_def manager_from_helper_def)
qed

theorem log_save_load_roundtrip_witness:
  "\<exists>(m' :: (unit, nat) log_manager) c' x dec.
     log_load (Limited 2) x dec (Contents [1]) Map.empty = Some (Inr m', c') \<and> map log_id (logs m') = [4]"
proof -
  let ?a = "\<lparr>at_token = ext_bundle (sample_info 1 True), ref_count = 1\<rparr>"
  let ?k = "log_key (sample_log 4 1)"
  let ?m = "\<lparr>logs = [sample_log 4 1], log_tokens = [?k \<mapsto> ?a]\<rparr>"
  let ?x = "\<lparr>x_big = False, x_providers = DEFAULT_PROVIDERS, x_to_string = \<lambda>_. [], x_parse_tz = \<lambda>z. Some z\<rparr>"
  let ?h = "manager_to_helper False [(?k, ?a)] ?m"
  let ?enc = "\<lambda>h. if h = ?h then Some [1::u8] else None"
  let ?dec = "\<lambda>bs. if bs = [1::u8] then Some ?h else None"
  have "ext_loadable ?x (at_token ?a)"
    by (simp add: ext_loadable_def sample_info_def sample_token_def DEFAULT_PROVIDERS_def)
  moreover have "log_save (Limited 2) ?enc (\<lambda>w. (True, w)) (\<lambda>bs w. (True, Contents bs)) (manager_to_helper (x_big ?x) [(?k, ?a)] ?m) NotFound
      = (Inr (), Contents [1])"
    by (simp add: log_save_def should_log_def USIZE_MAX_def)
  ultimately have "\<exists>m' c'. log_load (Limited 2) ?x ?dec (Contents [1]) Map.empty = Some (Inr m', c')
      \<and> (if should_log (Limited 2)
         then logs m' = logs ?m \<and> (\<forall>k. rel_option associated_equiv (log_tokens m' k) (log_tokens ?m k))
         else m' = log_manager_new \<and> Contents [1] = NotFound)"
    by (intro log_save_load_roundtrip [where read_file = "\<lambda>w. w" and es = "[(?k, ?a)]" and x = ?x and enc = ?enc
          and write_all = "\<lambda>bs w. (True, Contents bs)" and open_file = "\<lambda>w. (True, w)" and w = NotFound])
       (auto simp: view_ok_def split: if_splits)
  then obtain m' c' where "log_load (Limited 2) ?x ?dec (Contents [1]) Map.empty = Some (Inr m', c')"
    "logs m' = [sample_log 4 1]"
    by (auto simp: should_log_def)
  then show ?thesis
    by (intro exI [of _ m'] exI [of _ c'] exI [of _ ?x] exI [of _ ?dec]) (simp add: sample_log_def)
qed

section \<open>What goes wrong\<close>

text \<open>\<open>get_next_log_id\<close> does not reserve the identifier.  When two requests ask before either has added its
  entry, both get the same one, and an update meant for the first request changes the second entry.\<close>

theorem log_ids_collide:
  assumes "env_limit e = limit_from_usize n" "2 \<le> n" "logs m = []"
  shows "\<exists>i m'. actor e [GetNextLogId True, GetNextLogId True, AddLog (l\<lparr>log_id := i\<rparr>) t, AddLog (k\<lparr>log_id := i\<rparr>) u,
        UpdateLog i ops] m = Some ([RNextId i, RNextId i, RNothing, RNothing, RNothing], m')
    \<and> logs m' = [l\<lparr>log_id := i\<rparr>, apply_update e ops (k\<lparr>log_id := i\<rparr>)]"
proof -
  have n: "0 < get_limit (env_limit e)" "get_limit (env_limit e) = n" using assms(1,2) by (simp_all add: limited_enabled)
  let ?i = "next_log_id m"
  obtain m1 where m1: "add_log e (l\<lparr>log_id := ?i\<rparr>) t m = Some m1" "logs m1 = [l\<lparr>log_id := ?i\<rparr>]"
    using add_log_ok [OF n(1), of "l\<lparr>log_id := ?i\<rparr>" t m] n assms(3) by auto
  obtain m2 where m2: "add_log e (k\<lparr>log_id := ?i\<rparr>) u m1 = Some m2" "logs m2 = [l\<lparr>log_id := ?i\<rparr>, k\<lparr>log_id := ?i\<rparr>]"
    using add_log_ok [OF n(1), of "k\<lparr>log_id := ?i\<rparr>" u m1] n assms(2) m1(2) by auto
  show ?thesis
    by (intro exI [of _ ?i] exI [of _ "update_log e ?i ops m2"]) (simp add: answer_def m1(1) m2 update_log_def)
qed

text \<open>An answer nobody waits for any more ends the actor.\<close>

theorem dropped_receiver_kills_actor: "actor e (GetNextLogId False # cs) m = None"
  by (simp add: answer_def)

end
