(* ===== verification/Chat_Stream.thy ===== *)
theory Chat_Stream
  imports Chat_Decoder Request_Log
begin

text \<open>
  The streaming half of the chat handlers of \<^verbatim>\<open>src/core/service.rs\<close>.  The OpenAI and the Anthropic
  handler share one shape: read chunks until the decoder holds a first result, answer with an error
  if that fails, and then turn every further chunk into output, delivering the cached first result
  once the buffer is empty.  What they do with a batch of messages is a parameter here, with the laws
  the loop relies on in the locale \<open>message_processor\<close>.  An item of the response body is a chunk or a
  read error; the list ends where the body ends.
\<close>

section \<open>The loop\<close>

datatype item = Chunk bytes | ChunkError

text \<open>What a handler does besides answering: \<^verbatim>\<open>log_manager::update_log\<close> and \<^verbatim>\<open>state.increment_error\<close>.\<close>

datatype ('p, 'f) effect = UpdLog u64 "('p, 'f) log_update" | IncrementError

datatype 'e start_error = UpstreamFailed 'e | ReadError | StreamEnded

text \<open>\<^verbatim>\<open>while !decoder.is_first_result_ready()\<close>\<close>

fun first_phase ::
  "('e, 't, 'f) dec_env \<Rightarrow> bool \<Rightarrow> item list \<Rightarrow> ('t, 'f) chat_decoder
   \<Rightarrow> (('e start_error + item list) \<times> ('t, 'f) chat_decoder) ub" where
  "first_phase e b [] d = (if first_result_ready d then Some (Inr [], d) else Some (Inl StreamEnded, d))"
| "first_phase e b (i # items) d =
     (if first_result_ready d then Some (Inr (i # items), d)
      else case i of
             ChunkError \<Rightarrow> Some (Inl ReadError, d)
           | Chunk data \<Rightarrow> do {
               (r, d) \<leftarrow> chat_decode e data b d;
               (case r of
                  Inl (Upstream err) \<Rightarrow> Some (Inl (UpstreamFailed err), d)
                | Inl EmptyStream \<Rightarrow> first_phase e b items d
                | Inr _ \<Rightarrow> first_phase e b items d)
             })"

text \<open>How the loop goes on after an item: with the next one, with the end because the stream was dropped, or not at
  all, because the task waits for a lock it holds itself.\<close>

datatype flow = Continue | Dropped | Deadlock

text \<open>One item of the rest.  The check that drops the stream is only reached when the chunk was decoded.  In
  \<^verbatim>\<open>match decoder.lock().await.decode(..)\<close> the guard is a temporary of the scrutinee and lives until the end
  of the match: the arm of \<^verbatim>\<open>EmptyStream\<close> locks the same \<^verbatim>\<open>tokio::sync::Mutex\<close>, which is not
  reentrant, for the count it prints, and never returns.\<close>

definition then_item ::
  "('e, 't, 'f) dec_env \<Rightarrow> bool \<Rightarrow> (StreamMessage list \<Rightarrow> 's \<Rightarrow> 'o list \<times> 's) \<Rightarrow> ('e \<Rightarrow> 's \<Rightarrow> 'o list \<times> 's)
   \<Rightarrow> ('s \<Rightarrow> bool) \<Rightarrow> item \<Rightarrow> ('t, 'f) chat_decoder \<Rightarrow> 's \<Rightarrow> ('o list \<times> ('t, 'f) chat_decoder \<times> 's \<times> flow) ub" where
  "then_item e b proc fail finished i d s =
     (case i of
        ChunkError \<Rightarrow> Some ([], d, s, Continue)
      | Chunk data \<Rightarrow> do {
          (r, d) \<leftarrow> chat_decode e data b d;
          (case r of
             Inl EmptyStream \<Rightarrow> Some ([], d, s, Deadlock)
           | Inl (Upstream err) \<Rightarrow> let (out, s) = fail err s in Some (out, d, s, Continue)
           | Inr messages \<Rightarrow>
               let (first, d) = take_first_result d;
                   (first_response, s) = (case first of Some ms \<Rightarrow> proc ms s | None \<Rightarrow> ([], s));
                   (current_response, s) = proc messages s
               in Some (first_response @ current_response, d, s, if finished s then Dropped else Continue))
        })"

text \<open>A dropped stream yields no further item.  The last component tells whether the loop is blocked.\<close>

fun then_loop ::
  "('e, 't, 'f) dec_env \<Rightarrow> bool \<Rightarrow> (StreamMessage list \<Rightarrow> 's \<Rightarrow> 'o list \<times> 's) \<Rightarrow> ('e \<Rightarrow> 's \<Rightarrow> 'o list \<times> 's)
   \<Rightarrow> ('s \<Rightarrow> bool) \<Rightarrow> item list \<Rightarrow> ('t, 'f) chat_decoder \<Rightarrow> 's \<Rightarrow> ('o list \<times> ('t, 'f) chat_decoder \<times> 's \<times> bool) ub" where
  "then_loop e b proc fail finished [] d s = Some ([], d, s, False)"
| "then_loop e b proc fail finished (i # items) d s = do {
     (out, d, s, flow) \<leftarrow> then_item e b proc fail finished i d s;
     (case flow of
        Dropped \<Rightarrow> Some (out, d, s, False)
      | Deadlock \<Rightarrow> Some (out, d, s, True)
      | Continue \<Rightarrow> do {
          (out', d, s, blocked) \<leftarrow> then_loop e b proc fail finished items d s;
          Some (out @ out', d, s, blocked)
        })
   }"

definition stream_body ::
  "('e, 't, 'f) dec_env \<Rightarrow> bool \<Rightarrow> (StreamMessage list \<Rightarrow> 's \<Rightarrow> 'o list \<times> 's) \<Rightarrow> ('e \<Rightarrow> 's \<Rightarrow> 'o list \<times> 's)
   \<Rightarrow> ('s \<Rightarrow> bool) \<Rightarrow> item list \<Rightarrow> 's \<Rightarrow> (('e start_error + 'o list) \<times> ('t, 'f) chat_decoder \<times> 's \<times> bool) ub" where
  "stream_body e b proc fail finished items s = do {
     (r, d) \<leftarrow> first_phase e b items (chat_decoder_new e);
     (case r of
        Inl err \<Rightarrow> Some (Inl err, d, s, False)
      | Inr rest \<Rightarrow> do {
          (out, d, s, blocked) \<leftarrow> then_loop e b proc fail finished rest d s;
          Some (Inr out, d, s, blocked)
        })
   }"

section \<open>Processing batches\<close>

text \<open>What the loop needs of the function that turns messages into output: batches may be cut anywhere
  before the end of the stream, and only that message finishes.\<close>

locale message_processor =
  fixes proc :: "StreamMessage list \<Rightarrow> 's \<Rightarrow> 'o list \<times> 's"
    and finished :: "'s \<Rightarrow> bool"
  assumes proc_nil: "proc [] s = ([], s)"
    and proc_append: "StreamEnd \<notin> set a \<Longrightarrow>
          proc (a @ b) s = (let (o1, s1) = proc a s; (o2, s2) = proc b s1 in (o1 @ o2, s2))"
    and finished_iff: "\<not> finished s \<Longrightarrow> finished (snd (proc a s)) \<longleftrightarrow> StreamEnd \<in> set a"
begin

lemma proc_append2:
  "StreamEnd \<notin> set a \<or> b = [] \<Longrightarrow> proc a s = (o1, s1) \<Longrightarrow> proc b s1 = (o2, s2) \<Longrightarrow> proc (a @ b) s = (o1 @ o2, s2)"
  using proc_append [of a b s] by (auto simp: proc_nil)

end

text \<open>The end of the stream, if any, is the last message.\<close>

definition ends_last :: "StreamMessage list \<Rightarrow> bool" where
  "ends_last ms \<longleftrightarrow> StreamEnd \<notin> set (butlast ms)"

lemma ends_last_append: "ends_last (a @ b) \<Longrightarrow> (StreamEnd \<notin> set a \<or> b = []) \<and> ends_last b \<and> ends_last a"
  by (auto simp: ends_last_def butlast_append dest: in_set_butlastD split: if_splits)

lemma convert_end [simp]:
  "StreamEnd = convert_web_ref_to_content m \<longleftrightarrow> m = StreamEnd" "convert_web_ref_to_content m = StreamEnd \<longleftrightarrow> m = StreamEnd"
  by (auto simp: convert_web_ref_to_content_def split: StreamMessage.splits if_splits)

lemma ends_last_convert [simp]: "ends_last (map (convert_if b) ms) = ends_last ms"
  by (auto simp: ends_last_def map_butlast [symmetric] image_iff)

lemma end_in_convert [simp]: "StreamEnd \<in> set (map (convert_if b) ms) \<longleftrightarrow> StreamEnd \<in> set ms"
  by (auto simp: image_iff)

section \<open>The cache\<close>

text \<open>While it is filled, the cache holds all messages so far.\<close>

definition caching :: "bool \<Rightarrow> StreamMessage list \<Rightarrow> ('t, 'f) chat_decoder \<Rightarrow> bool" where
  "caching b raw d \<longleftrightarrow>
     \<not> first_result_taken d
     \<and> first_result d = (if raw = [] then None else Some (map (convert_if b) raw))
     \<and> (has_seen_content d \<longleftrightarrow> contents raw \<noteq> [])
     \<and> (first_result_ready d \<longleftrightarrow> contents raw \<noteq> [])"

lemma caching_new: "caching b [] (chat_decoder_new e)"
  by (simp add: caching_def chat_decoder_new_def)

lemma cache_filling:
  assumes "caching b raw d" "\<not> first_result_ready d" "fed raw' c rest d d1"
  shows "\<exists>d'. cache_messages (map (convert_if b) raw') d1 = ([], d') \<and> caching b (raw @ raw') d'
    \<and> cd_buffer d' = cd_buffer d1 \<and> ctx_of d' = ctx_of d1"
  using assms by (auto simp: caching_def cache_messages_def fed_def stats_added_def Let_def)

lemma cache_ready:
  assumes "caching b raw d" "first_result_ready d" "fed raw' c rest d d1"
  shows "cache_messages ms d1 = (ms, d1)"
proof -
  have "first_result d1 \<noteq> None" "first_result_ready d1"
    using assms by (auto simp: caching_def fed_def)
  then show ?thesis by (auto simp: cache_messages_def)
qed

text \<open>What is known of a decoder that has still to read \<open>cs\<close>: the frames it will meet and their messages.\<close>

definition pending ::
  "('e, 't, 'f) dec_env \<Rightarrow> bytes list \<Rightarrow> bytes \<Rightarrow> StreamMessage list \<Rightarrow> ('t, 'f) chat_decoder \<Rightarrow> bool" where
  "pending e cs tail raw d \<longleftrightarrow>
     parse1 (inner (cd_buffer d)) = None
     \<and> (\<exists>ms c. parse_frames (inner (cd_buffer d) @ concat cs) = (ms, tail) \<and> run_frames e ms (ctx_of d) = Some (Inr raw, c))"

lemma pending_step:
  assumes "pending e (x # cs) tail raw d"
  obtains ms rest r1 c1 r2 where "parse_frames (inner (cd_buffer d) @ x) = (ms, rest)"
    "run_frames e ms (ctx_of d) = Some (Inr r1, c1)" "raw = r1 @ r2"
    "\<And>d'. inner (cd_buffer d') = rest \<Longrightarrow> ctx_of d' = c1 \<Longrightarrow> pending e cs tail r2 d'"
proof -
  obtain ms c where p: "parse_frames (inner (cd_buffer d) @ x @ concat cs) = (ms, tail)"
    "run_frames e ms (ctx_of d) = Some (Inr raw, c)"
    using assms by (auto simp: pending_def)
  obtain m1 rest where 1: "parse_frames (inner (cd_buffer d) @ x) = (m1, rest)" by fastforce
  obtain m2 r where 2: "parse_frames (rest @ concat cs) = (m2, r)" by fastforce
  have ms: "ms = m1 @ m2" "r = tail"
    using parse_frames_append [of "inner (cd_buffer d) @ x" "concat cs"] 1 2 p(1) by simp_all
  obtain r1 c1 r2 where s: "run_frames e m1 (ctx_of d) = Some (Inr r1, c1)" "run_frames e m2 c1 = Some (Inr r2, c)" "raw = r1 @ r2"
    using p(2) unfolding ms run_frames_append by (auto split: Option.bind_splits sum.splits)
  have "parse1 rest = None" using parse_frames_rest [of "inner (cd_buffer d) @ x"] 1 by simp
  with 1 2 ms s show thesis by (intro that) (auto simp: pending_def)
qed

lemma pending_Nil: "pending e [] tail raw d \<Longrightarrow> raw = [] \<and> inner (cd_buffer d) = tail"
  by (auto simp: pending_def)

lemma pending_frames:
  assumes "\<forall>m \<in> set ms. length (data_of m) < 2 ^ 32" "concat chunks = concat (map frame_bytes ms) @ tail" "parse1 tail = None"
    and "run_frames e ms \<lparr>raw_args_len = 0, processed = False\<rparr> = Some (Inr raw, c)"
  shows "pending e chunks tail raw (chat_decoder_new e)"
  using parse_frames_frames [OF assms(1), of tail] assms(2-)
  by (simp add: pending_def chat_decoder_new_def buffer_new_def)

text \<open>A chunk too short for a header leaves everything pending.\<close>

lemma short_chunk:
  assumes "pending e (x # cs) tail raw d" "x = [] \<or> length (inner (cd_buffer d) @ x) < 5"
  obtains d' where "chat_decode e x b d = Some (Inl EmptyStream, d')" "pending e cs tail raw d'"
    "first_result d' = first_result d" "first_result_ready d' = first_result_ready d"
    "first_result_taken d' = first_result_taken d" "has_seen_content d' = has_seen_content d"
proof -
  have "parse1 (inner (cd_buffer d) @ x) = None"
    using assms by (auto simp: pending_def intro: parse1_short)
  then show thesis
    using that [OF chat_decode_short [OF assms(2)]] assms(1) by (auto simp: pending_def)
qed

lemma long_chunk:
  assumes "pending e (x # cs) tail raw d" "\<not> (x = [] \<or> length (inner (cd_buffer d) @ x) < 5)"
  obtains d1 r1 r2 c rest where "fed r1 c rest d d1" "raw = r1 @ r2" "rest = snd (parse_frames (inner (cd_buffer d) @ x))"
    "chat_decode e x b d = (let (out, d') = cache_messages (map (convert_if b) r1) d1 in Some (Inr out, d'))"
    "\<And>d'. cd_buffer d' = cd_buffer d1 \<Longrightarrow> ctx_of d' = ctx_of d1 \<Longrightarrow> pending e cs tail r2 d'"
proof -
  obtain ms rest r1 c1 r2 where p: "parse_frames (inner (cd_buffer d) @ x) = (ms, rest)"
    "run_frames e ms (ctx_of d) = Some (Inr r1, c1)" "raw = r1 @ r2"
    "\<And>d'. inner (cd_buffer d') = rest \<Longrightarrow> ctx_of d' = c1 \<Longrightarrow> pending e cs tail r2 d'"
    using pending_step [OF assms(1)] by blast
  obtain d1 where d1: "fed r1 c1 rest d d1"
    "chat_decode e x b d = (let (out, d') = cache_messages (map (convert_if b) r1) d1 in Some (Inr out, d'))"
    using chat_decode_ok [OF p(1,2), of b] assms(2) by blast
  show thesis
    by (rule that [OF d1(1) p(3) _ d1(2)]) (use p d1(1) in \<open>auto simp: fed_def\<close>)
qed

section \<open>Delivery\<close>

lemma first_phase_ok:
  assumes "pending e cs tail raw d" "caching b raw0 d"
  shows "\<exists>d'. (contents (raw0 @ raw) = [] \<and> first_phase e b (map Chunk cs) d = Some (Inl StreamEnded, d'))
    \<or> (\<exists>cs2 raw1 raw2. first_phase e b (map Chunk cs) d = Some (Inr (map Chunk cs2), d') \<and> raw = raw1 @ raw2
         \<and> caching b (raw0 @ raw1) d' \<and> first_result_ready d' \<and> pending e cs2 tail raw2 d')"
  using assms
proof (induction cs arbitrary: d raw raw0)
  case Nil
  then have "raw = []" by (simp add: pending_Nil)
  with Nil show ?case by (auto simp: caching_def)
next
  case (Cons x cs)
  show ?case
  proof (cases "first_result_ready d")
    case True
    with Cons.prems show ?thesis
      by (intro exI [of _ d] disjI2 exI [of _ "x # cs"]) (rule exI [of _ "[]"], rule exI [of _ raw], simp)
  next
    case False
    show ?thesis
    proof (cases "x = [] \<or> length (inner (cd_buffer d) @ x) < 5")
      case True
      obtain d' where d': "chat_decode e x b d = Some (Inl EmptyStream, d')" "pending e cs tail raw d'" "caching b raw0 d'"
        by (rule short_chunk [OF Cons.prems(1) True]) (use Cons.prems(2) in \<open>auto simp: caching_def\<close>)
      from Cons.IH [OF d'(2,3)] False d'(1) show ?thesis by simp
    next
      case long: False
      obtain d1 r1 r2 c rest where d1: "fed r1 c rest d d1" "raw = r1 @ r2" "rest = snd (parse_frames (inner (cd_buffer d) @ x))"
        "chat_decode e x b d = (let (out, d') = cache_messages (map (convert_if b) r1) d1 in Some (Inr out, d'))"
        "\<And>d'. cd_buffer d' = cd_buffer d1 \<Longrightarrow> ctx_of d' = ctx_of d1 \<Longrightarrow> pending e cs tail r2 d'"
        by (rule long_chunk [OF Cons.prems(1) long, where b = b]) (rule that; assumption)
      obtain d' where d': "cache_messages (map (convert_if b) r1) d1 = ([], d')" "caching b (raw0 @ r1) d'"
        "cd_buffer d' = cd_buffer d1" "ctx_of d' = ctx_of d1"
        using cache_filling [OF Cons.prems(2) False d1(1)] by blast
      have fp: "first_phase e b (map Chunk (x # cs)) d = first_phase e b (map Chunk cs) d'"
        using False d1(4) d'(1) by simp
      from Cons.IH [OF d1(5) [OF d'(3,4)] d'(2)] show ?thesis
        unfolding fp d1(2) append_assoc by (metis append_assoc)
    qed
  qed
qed

lemma take_first_boundary:
  assumes "inner (cd_buffer d) = []"
  shows "take_first_result d =
    (first_result d, (if first_result d \<noteq> None then d\<lparr>first_result_taken := True\<rparr> else d)\<lparr>first_result := None\<rparr>)"
  using assms by (simp add: take_first_result_def buffer_is_empty_def Let_def)

lemma take_first_none: "first_result d = None \<Longrightarrow> \<exists>d'. take_first_result d = (None, d') \<and> cd_buffer d' = cd_buffer d
    \<and> ctx_of d' = ctx_of d \<and> first_result d' = None \<and> first_result_ready d' = first_result_ready d
    \<and> first_result_taken d' = first_result_taken d"
  by (simp add: take_first_result_def Let_def)

context message_processor
begin

lemma then_loop_uncached:
  assumes "pending e cs tail raw d" "uncached d" "first_result d = None" "ends_last raw" "\<not> finished s"
    and "\<forall>x \<in> set cs. 5 \<le> length x"
  shows "\<exists>d'. then_loop e b proc fail finished (map Chunk cs) d s
    = Some (fst (proc (map (convert_if b) raw) s), d', snd (proc (map (convert_if b) raw) s), False)"
  using assms
proof (induction cs arbitrary: d raw s)
  case Nil
  then show ?case by (auto simp: proc_nil dest: pending_Nil)
next
  case (Cons x cs)
  have long: "\<not> (x = [] \<or> length (inner (cd_buffer d) @ x) < 5)" using Cons.prems(6) by auto
  obtain d1 r1 r2 c rest where d1: "fed r1 c rest d d1" "raw = r1 @ r2" "rest = snd (parse_frames (inner (cd_buffer d) @ x))"
    "chat_decode e x b d = (let (out, d') = cache_messages (map (convert_if b) r1) d1 in Some (Inr out, d'))"
    "\<And>d'. cd_buffer d' = cd_buffer d1 \<Longrightarrow> ctx_of d' = ctx_of d1 \<Longrightarrow> pending e cs tail r2 d'"
    by (rule long_chunk [OF Cons.prems(1) long, where b = b]) (rule that; assumption)
  have u: "uncached d1" "first_result d1 = None" using d1(1) Cons.prems(2,3) by (auto simp: uncached_def fed_def)
  obtain d2 where d2: "take_first_result d1 = (None, d2)" "cd_buffer d2 = cd_buffer d1" "ctx_of d2 = ctx_of d1"
    "first_result d2 = None" "uncached d2"
    using take_first_none [OF u(2)] u(1) by (auto simp: uncached_def)
  have split: "StreamEnd \<notin> set r1 \<or> r2 = []" "ends_last r2"
    using ends_last_append [of r1 r2] Cons.prems(4) d1(2) by simp_all
  obtain o1 s1 where p1: "proc (map (convert_if b) r1) s = (o1, s1)" by fastforce
  obtain o2 s2 where p2: "proc (map (convert_if b) r2) s1 = (o2, s2)" by fastforce
  have p: "proc (map (convert_if b) raw) s = (o1 @ o2, s2)"
    using proc_append2 [OF _ p1 p2] split(1) unfolding d1(2) map_append by (auto simp: image_iff)
  have item: "then_item e b proc fail finished (Chunk x) d s = Some (o1, d2, s1, if finished s1 then Dropped else Continue)"
    using d1(4) u d2(1) p1 by (simp add: then_item_def)
  have fin: "finished s1 \<longleftrightarrow> StreamEnd \<in> set r1"
    using finished_iff [OF Cons.prems(5), of "map (convert_if b) r1", unfolded end_in_convert] p1 by simp
  show ?case
  proof (cases "finished s1")
    case True
    then have "r2 = []" using fin split(1) by blast
    with p2 have "o2 = []" "s2 = s1" by (simp_all add: proc_nil)
    with True item p show ?thesis by simp
  next
    case False
    from Cons.IH [OF d1(5) [OF d2(2,3)] d2(5,4) split(2) False] Cons.prems(6) p2 obtain d3 where
      "then_loop e b proc fail finished (map Chunk cs) d2 s1 = Some (o2, d3, s2, False)" by auto
    with False item p show ?thesis by simp
  qed
qed

text \<open>When the chunk after the first result ends on a frame boundary, nothing is lost and nothing reordered.\<close>

lemma stream_in_order:
  assumes "pending e cs tail raw (chat_decoder_new e)" "ends_last raw" "\<not> finished s"
    and "first_phase e b (map Chunk cs) (chat_decoder_new e) = Some (Inr (map Chunk (x # cs2)), d)"
    and "x \<noteq> []" "snd (parse_frames (inner (cd_buffer d) @ x)) = []" "\<forall>y \<in> set cs2. 5 \<le> length y"
  shows "\<exists>d'. stream_body e b proc fail finished (map Chunk cs) s
    = Some (Inr (fst (proc (map (convert_if b) raw) s)), d', snd (proc (map (convert_if b) raw) s), False)"
proof -
  obtain raw1 raw2 where f: "raw = raw1 @ raw2" "caching b raw1 d" "first_result_ready d" "pending e (x # cs2) tail raw2 d"
  proof -
    have "inj Chunk" by (auto intro: injI)
    then have "map Chunk a = map Chunk b \<longleftrightarrow> a = b" for a b by (simp add: inj_map_eq_map)
    with first_phase_ok [OF assms(1) caching_new, of b] assms(4) that show thesis by (auto simp del: list.map)
  qed
  have long: "\<not> (x = [] \<or> length (inner (cd_buffer d) @ x) < 5)"
    using assms(5,6) parse1_short [of "inner (cd_buffer d) @ x"] by auto
  obtain d1 r1 r2 c rest where d1: "fed r1 c rest d d1" "raw2 = r1 @ r2" "rest = snd (parse_frames (inner (cd_buffer d) @ x))"
    "chat_decode e x b d = (let (out, d') = cache_messages (map (convert_if b) r1) d1 in Some (Inr out, d'))"
    "\<And>d'. cd_buffer d' = cd_buffer d1 \<Longrightarrow> ctx_of d' = ctx_of d1 \<Longrightarrow> pending e cs2 tail r2 d'"
    by (rule long_chunk [OF f(4) long, where b = b]) (rule that; assumption)
  have dec: "chat_decode e x b d = Some (Inr (map (convert_if b) r1), d1)"
    using d1(4) cache_ready [OF f(2,3) d1(1)] by simp
  have first: "first_result d1 = Some (map (convert_if b) raw1)" "first_result_ready d1" "inner (cd_buffer d1) = []"
    using f(2,3) d1(1,3) assms(6) by (auto simp: caching_def fed_def)
  let ?d2 = "d1\<lparr>first_result_taken := True, first_result := None\<rparr>"
  have take: "take_first_result d1 = (Some (map (convert_if b) raw1), ?d2)"
    using take_first_boundary [OF first(3)] first(1) by simp
  have e1: "StreamEnd \<notin> set raw1 \<or> raw2 = []" "ends_last raw2"
    using ends_last_append [of raw1 raw2] assms(2) f(1) by simp_all
  have e2: "StreamEnd \<notin> set r1 \<or> r2 = []" "ends_last r2"
    using ends_last_append [of r1 r2] e1(2) d1(2) by simp_all
  obtain o0 s0 where p0: "proc (map (convert_if b) raw1) s = (o0, s0)" by fastforce
  obtain o1 s1 where p1: "proc (map (convert_if b) r1) s0 = (o1, s1)" by fastforce
  obtain o2 s2 where p2: "proc (map (convert_if b) r2) s1 = (o2, s2)" by fastforce
  have p12: "proc (map (convert_if b) raw2) s0 = (o1 @ o2, s2)"
    using proc_append2 [OF _ p1 p2] e2(1) unfolding d1(2) map_append by (auto simp: image_iff)
  have p: "proc (map (convert_if b) raw) s = (o0 @ o1 @ o2, s2)"
    using proc_append2 [OF _ p0 p12] e1(1) unfolding f(1) map_append by (auto simp: image_iff)
  have item: "then_item e b proc fail finished (Chunk x) d s = Some (o0 @ o1, ?d2, s1, if finished s1 then Dropped else Continue)"
    using dec take p0 p1 by (simp add: then_item_def)
  have fin: "finished s1 \<longleftrightarrow> StreamEnd \<in> set raw1 \<or> StreamEnd \<in> set r1"
  proof (cases "StreamEnd \<in> set raw1")
    case True
    then have "r1 = []" using e1(1) d1(2) by simp
    with p1 have "s1 = s0" by (simp add: proc_nil)
    with True show ?thesis using finished_iff [OF assms(3), of "map (convert_if b) raw1", unfolded end_in_convert] p0 by simp
  next
    case False
    then have "\<not> finished s0" using finished_iff [OF assms(3), of "map (convert_if b) raw1", unfolded end_in_convert] p0 by simp
    from finished_iff [OF this, of "map (convert_if b) r1", unfolded end_in_convert] p1 False show ?thesis by simp
  qed
  have "\<exists>d'. then_loop e b proc fail finished (map Chunk (x # cs2)) d s = Some (o0 @ o1 @ o2, d', s2, False)"
  proof (cases "finished s1")
    case True
    then have "r2 = []" using fin e1(1) e2(1) d1(2) by auto
    with p2 have "o2 = []" "s2 = s1" by (simp_all add: proc_nil)
    with True item show ?thesis by simp
  next
    case False
    have "uncached ?d2" "first_result ?d2 = None" using first(2) by (simp_all add: uncached_def)
    from then_loop_uncached [OF d1(5) this e2(2) False assms(7), of b fail] p2 obtain d3 where
      "then_loop e b proc fail finished (map Chunk cs2) ?d2 s1 = Some (o2, d3, s2, False)" by auto
    with False item show ?thesis by simp
  qed
  then show ?thesis using assms(4) p by (auto simp: stream_body_def simp del: then_loop.simps list.map)
qed

end

text \<open>A response that ends with the chunk that completes the first result is never delivered.\<close>

lemma stream_lost:
  assumes "first_phase e b items (chat_decoder_new e) = Some (Inr [], d)"
  shows "stream_body e b proc fail finished items s = Some (Inr [], d, s, False)"
  using assms by (simp add: stream_body_def)

text \<open>A chunk after the first result that does not complete a frame header blocks the response for good: nothing of
  the items after it is delivered, and the stream does not end.\<close>

lemma short_chunk_blocks:
  assumes "first_phase e b items (chat_decoder_new e) = Some (Inr (Chunk x # rest), d)"
    and "x = [] \<or> length (inner (cd_buffer d) @ x) < 5"
  shows "\<exists>d'. stream_body e b proc fail finished items s = Some (Inr [], d', s, True)"
  using assms(1) chat_decode_short [OF assms(2), of e b] by (simp add: stream_body_def then_item_def)

end
