(* ===== verification/OpenAI_Chat.thy ===== *)
theory OpenAI_Chat
  imports Chat_Stream
begin

text \<open>
  The OpenAI chat handler of \<^verbatim>\<open>src/core/service.rs\<close> after the upstream request was answered: the
  server-sent events of a streaming response and the single answer of a non-streaming one, with the
  response records of \<^verbatim>\<open>src/core/model/openai.rs\<close>.  Serialization to JSON and the usage statistics
  requested from the service are parameters.
\<close>

section \<open>Responses\<close>

definition trim_leading_newlines :: "bytes \<Rightarrow> bytes" where
  "trim_leading_newlines s = (if length s \<ge> 2 \<and> s ! 0 = 0x0A \<and> s ! 1 = 0x0A then drop 2 s else s)"

datatype 'a TriState = TriNull bool | TriValue 'a

record openai_usage =
  prompt_tokens :: "32 word"
  completion_tokens :: "32 word"
  total_tokens :: "32 word"
  cached_tokens :: "32 word"

definition into_openai :: "'f chain_usage \<Rightarrow> openai_usage" where
  "into_openai u =
     \<lparr>prompt_tokens = cu_input u, completion_tokens = cu_output u, total_tokens = cu_input u + cu_output u,
      cached_tokens = cu_cache_read u\<rparr>"

definition usage_default :: openai_usage where
  "usage_default = \<lparr>prompt_tokens = 0, completion_tokens = 0, total_tokens = 0, cached_tokens = 0\<rparr>"

text \<open>\<open>role\<close> tells whether the role of the assistant is present.\<close>

record openai_delta =
  od_role :: bool
  od_content :: "bytes option"

record openai_choice =
  ch_index :: nat
  ch_message :: "bytes option"
  ch_delta :: "openai_delta option"
  ch_finish_reason :: bool

record chat_response =
  co_id :: bytes
  co_object :: bytes
  co_created :: int
  co_model :: "bytes option"
  co_choices :: "openai_choice option"
  co_usage :: "openai_usage TriState"

definition OBJECT_CHAT_COMPLETION_CHUNK :: bytes where
  "OBJECT_CHAT_COMPLETION_CHUNK = bytes_of ''chat.completion.chunk''"

definition OBJECT_CHAT_COMPLETION :: bytes where
  "OBJECT_CHAT_COMPLETION = bytes_of ''chat.completion''"

definition ERR_STREAM_RESPONSE :: bytes where
  "ERR_STREAM_RESPONSE = bytes_of ''Empty stream response''"

definition ERR_RESPONSE_RECEIVED :: bytes where
  "ERR_RESPONSE_RECEIVED = bytes_of ''Empty response received''"

section \<open>Streaming\<close>

record 'f openai_ctx =
  oc_response_id :: bytes
  oc_model :: bytes
  oc_current_id :: u64
  oc_created :: int
  oc_is_need :: bool
  oc_elapsed :: 'f  \<comment> \<open>seconds since the start of the request\<close>
  oc_tag_open :: bytes
  oc_tag_close :: bytes

record ('p, 'f) openai_state =
  is_start :: bool
  meet_thinking :: bool
  is_end :: bool
  effects :: "('p, 'f) effect list"

definition openai_start :: "('p, 'f) openai_state" where
  "openai_start = \<lparr>is_start = True, meet_thinking = False, is_end = False, effects = []\<rparr>"

text \<open>The response records \<^verbatim>\<open>process_messages\<close> builds: only these four fields differ.\<close>

definition delta_response :: "'f openai_ctx \<Rightarrow> bool \<Rightarrow> bool \<Rightarrow> bytes option \<Rightarrow> bool \<Rightarrow> chat_response" where
  "delta_response c with_model with_role content finish =
     \<lparr>co_id = oc_response_id c, co_object = OBJECT_CHAT_COMPLETION_CHUNK, co_created = oc_created c,
      co_model = (if with_model then Some (oc_model c) else None),
      co_choices = Some \<lparr>ch_index = 0, ch_message = None, ch_delta = Some \<lparr>od_role = with_role, od_content = content\<rparr>,
                         ch_finish_reason = finish\<rparr>,
      co_usage = TriNull (oc_is_need c)\<rparr>"

fun openai_process ::
  "'f openai_ctx \<Rightarrow> StreamMessage list \<Rightarrow> ('p, 'f) openai_state \<Rightarrow> chat_response list \<times> ('p, 'f) openai_state" where
  "openai_process c [] s = ([], s)"
| "openai_process c (Content text # ms) s =
     (let is_first = is_start s;
          close = (if meet_thinking s then [delta_response c False False (Some (oc_tag_close c)) False] else []);
          r = delta_response c is_first is_first (Some (if is_first then trim_leading_newlines text else text)) False;
          (out, s) = openai_process c ms (s\<lparr>meet_thinking := False, is_start := False\<rparr>)
      in (close @ r # out, s))"
| "openai_process c (ThinkingMsg (ThinkText text) # ms) s =
     (let is_first = is_start s;
          op = (if \<not> meet_thinking s
                then [delta_response c is_first is_first (Some (oc_tag_open c)) False] else []);
          r = delta_response c False False (Some (if is_first then trim_leading_newlines text else text)) False;
          (out, s) = openai_process c ms (s\<lparr>meet_thinking := True, is_start := False\<rparr>)
      in (op @ r # out, s))"
| "openai_process c (StreamEnd # ms) s =
     ([delta_response c False False None True],
      s\<lparr>effects := effects s @ [UpdLog (oc_current_id c) (Timing (oc_elapsed c))], is_end := True\<rparr>)"
| "openai_process c (ThinkingMsg (ThinkSignature t) # ms) s = openai_process c ms s"
| "openai_process c (ThinkingMsg (RedactedThinking t) # ms) s = openai_process c ms s"
| "openai_process c (WebReference rs # ms) s = openai_process c ms s"
| "openai_process c (ToolCall t # ms) s = openai_process c ms s"

text \<open>An upstream error in the middle of the stream is sent as content.\<close>

definition openai_fail ::
  "'f openai_ctx \<Rightarrow> ('e \<Rightarrow> bytes) \<Rightarrow> 'e \<Rightarrow> ('p, 'f) openai_state \<Rightarrow> chat_response list \<times> ('p, 'f) openai_state" where
  "openai_fail c error_json err s = openai_process c [Content (error_json err), StreamEnd] s"

definition openai_sse :: "(chat_response \<Rightarrow> bytes) \<Rightarrow> chat_response \<Rightarrow> bytes" where
  "openai_sse to_json r = bytes_of ''data: '' @ to_json r @ [0x0A, 0x0A]"

text \<open>The last item of the body: the delays and the usage go to the log, the usage to the client when it
  asked for it.  \<open>got\<close> is what \<^verbatim>\<open>get_token_usage\<close> returned.\<close>

definition openai_last ::
  "'f openai_ctx \<Rightarrow> (chat_response \<Rightarrow> bytes) \<Rightarrow> bool \<Rightarrow> 'f chain_usage option \<Rightarrow> ('t, 'f) chat_decoder
   \<Rightarrow> ('p, 'f) openai_state \<Rightarrow> bytes \<times> ('t, 'f) chat_decoder \<times> ('p, 'f) openai_state" where
  "openai_last c to_json real_usage got d s =
     (let (ds, d) = take_content_delays d;
          (th, d) = take_thinking_content d;
          got = (if real_usage then got else None);
          updates = UpdLog (oc_current_id c) (Delays ds th)
            # (case got of Some u \<Rightarrow> [UpdLog (oc_current_id c) (UpdUsage u)] | None \<Rightarrow> []);
          value = \<lparr>co_id = oc_response_id c, co_object = OBJECT_CHAT_COMPLETION_CHUNK, co_created = oc_created c,
                   co_model = None, co_choices = None,
                   co_usage = TriValue (case got of Some u \<Rightarrow> into_openai u | None \<Rightarrow> usage_default)\<rparr>
      in ((if oc_is_need c then openai_sse to_json value else []) @ bytes_of ''data: [DONE]'' @ [0x0A, 0x0A],
          d, s\<lparr>effects := effects s @ updates\<rparr>))"

text \<open>The errors before the first result, with their log entries; \<open>info\<close> is \<^verbatim>\<open>to_error_info\<close>.\<close>

definition openai_start_failed ::
  "'f openai_ctx \<Rightarrow> ('e \<Rightarrow> ErrorInfo) \<Rightarrow> 'e start_error \<Rightarrow> ('p, 'f) openai_state \<Rightarrow> ('p, 'f) openai_state" where
  "openai_start_failed c info err s =
     (case err of
        UpstreamFailed x \<Rightarrow> s\<lparr>effects := effects s @ [UpdLog (oc_current_id c) (Failure2 (info x) (oc_elapsed c)), IncrementError]\<rparr>
      | ReadError \<Rightarrow> s
      | StreamEnded \<Rightarrow> s\<lparr>effects := effects s @ [UpdLog (oc_current_id c) (UpdFailure (Simple ERR_STREAM_RESPONSE)), IncrementError]\<rparr>)"

definition openai_stream ::
  "('e, 't, 'f) dec_env \<Rightarrow> bool \<Rightarrow> 'f openai_ctx \<Rightarrow> ('e \<Rightarrow> ErrorInfo) \<Rightarrow> ('e \<Rightarrow> bytes) \<Rightarrow> (chat_response \<Rightarrow> bytes)
   \<Rightarrow> bool \<Rightarrow> 'f chain_usage option \<Rightarrow> item list \<Rightarrow> (('e start_error + bytes \<times> bool) \<times> ('p, 'f) openai_state) ub" where
  "openai_stream e b c info error_json to_json real_usage got items = do {
     (r, d, s, blocked) \<leftarrow> stream_body e b (openai_process c) (openai_fail c error_json) is_end items openai_start;
     (case r of
        Inl err \<Rightarrow> Some (Inl err, openai_start_failed c info err s)
      | Inr out \<Rightarrow>
          if blocked then Some (Inr (concat (map (openai_sse to_json) out), False), s)
          else let (done_bytes, d, s) = openai_last c to_json real_usage got d s
               in Some (Inr (concat (map (openai_sse to_json) out) @ done_bytes, True), s))
   }"

section \<open>Without streaming\<close>

datatype 'e answer_error = AnswerUpstream 'e | AnswerRead | AnswerEmpty

fun add_texts :: "StreamMessage list \<Rightarrow> bytes \<Rightarrow> bytes \<Rightarrow> bytes \<times> bytes" where
  "add_texts [] full_text thinking_text = (full_text, thinking_text)"
| "add_texts (m # ms) full_text thinking_text =
     (case m of
        Content text \<Rightarrow> add_texts ms (full_text @ text) thinking_text
      | ThinkingMsg (ThinkText text) \<Rightarrow> add_texts ms full_text (thinking_text @ text)
      | _ \<Rightarrow> add_texts ms full_text thinking_text)"

fun answer_loop ::
  "('e, 't, 'f) dec_env \<Rightarrow> bool \<Rightarrow> item list \<Rightarrow> ('t, 'f) chat_decoder \<Rightarrow> bytes \<Rightarrow> bytes
   \<Rightarrow> (('e answer_error + bytes \<times> bytes) \<times> ('t, 'f) chat_decoder) ub" where
  "answer_loop e b [] d full_text thinking_text = Some (Inr (full_text, thinking_text), d)"
| "answer_loop e b (i # items) d full_text thinking_text =
     (case i of
        ChunkError \<Rightarrow> Some (Inl AnswerRead, d)
      | Chunk data \<Rightarrow> do {
          (r, d) \<leftarrow> chat_decode e data b d;
          (case r of
             Inr messages \<Rightarrow> let (f, t) = add_texts messages full_text thinking_text in answer_loop e b items d f t
           | Inl (Upstream err) \<Rightarrow> Some (Inl (AnswerUpstream err), d)
           | Inl EmptyStream \<Rightarrow> answer_loop e b items d full_text thinking_text)
        })"

definition answer_text :: "bytes \<Rightarrow> bytes \<Rightarrow> bytes \<Rightarrow> bytes \<Rightarrow> bytes" where
  "answer_text tag_open tag_close full_text thinking_text =
     (if thinking_text \<noteq> []
      then tag_open @ trim_leading_newlines thinking_text @ tag_close @ full_text
      else trim_leading_newlines full_text)"

definition openai_answer ::
  "('e, 't, 'f) dec_env \<Rightarrow> bool \<Rightarrow> 'f openai_ctx \<Rightarrow> ('e \<Rightarrow> ErrorInfo) \<Rightarrow> bool \<Rightarrow> 'f chain_usage option \<Rightarrow> item list
   \<Rightarrow> (('e answer_error + chat_response) \<times> ('p, 'f) effect list) ub" where
  "openai_answer e b c info real_usage got items = do {
     (r, d) \<leftarrow> answer_loop e b items (no_first_cache (chat_decoder_new e)) [] [];
     (case r of
        Inl (AnswerUpstream err) \<Rightarrow> Some (Inl (AnswerUpstream err), [UpdLog (oc_current_id c) (UpdFailure (info err)), IncrementError])
      | Inl err \<Rightarrow> Some (Inl err, [])
      | Inr (full_text, thinking_text) \<Rightarrow>
          let text = answer_text (oc_tag_open c) (oc_tag_close c) full_text thinking_text
          in if text = [] then Some (Inl AnswerEmpty, [UpdLog (oc_current_id c) (UpdFailure (Simple ERR_RESPONSE_RECEIVED)), IncrementError])
             else let got = (if real_usage then got else None);
                      (ds, d) = take_content_delays d;
                      (th, d) = take_thinking_content d
                  in Some (Inr \<lparr>co_id = oc_response_id c, co_object = OBJECT_CHAT_COMPLETION, co_created = oc_created c,
                                co_model = Some (oc_model c),
                                co_choices = Some \<lparr>ch_index = 0, ch_message = Some text, ch_delta = None, ch_finish_reason = True\<rparr>,
                                co_usage = TriValue (case got of Some u \<Rightarrow> into_openai u | None \<Rightarrow> usage_default)\<rparr>,
                           [UpdLog (oc_current_id c) (TimingChain (oc_elapsed c) \<lparr>delays = ds, chain_usage = got, think = th\<rparr>)]))
   }"

section \<open>The processor\<close>

lemma openai_append:
  "StreamEnd \<notin> set a \<Longrightarrow>
     openai_process c (a @ b) s = (let (o1, s1) = openai_process c a s; (o2, s2) = openai_process c b s1 in (o1 @ o2, s2))"
  by (induction c a s rule: openai_process.induct) (auto simp: Let_def split: prod.split)

lemma openai_finished: "is_end (snd (openai_process c a s)) \<longleftrightarrow> is_end s \<or> StreamEnd \<in> set a"
  by (induction c a s rule: openai_process.induct) (auto simp: Let_def split: prod.splits)

interpretation openai: message_processor "openai_process c" is_end for c
  by unfold_locales (simp_all add: openai_append openai_finished)

section \<open>Streamed text\<close>

definition streamed_text :: "chat_response list \<Rightarrow> bytes" where
  "streamed_text out = concat (map (\<lambda>r. case Option.bind (Option.bind (co_choices r) ch_delta) od_content of Some t \<Rightarrow> t | None \<Rightarrow> []) out)"

lemma streamed_simps [simp]:
  "streamed_text [] = []"
  "streamed_text (delta_response c a r content f # out) = (case content of Some t \<Rightarrow> t | None \<Rightarrow> []) @ streamed_text out"
  "streamed_text (o1 @ o2) = streamed_text o1 @ streamed_text o2"
  by (simp_all add: streamed_text_def delta_response_def)

lemma model_delta [simp]: "co_model (delta_response c a r content f) = (if a then Some (oc_model c) else None)"
  by (simp add: delta_response_def)

lemma stream_contents:
  "\<not> is_start s \<Longrightarrow> openai_process c (map Content cs @ [StreamEnd]) s = (out, s') \<Longrightarrow>
     streamed_text out = (if cs \<noteq> [] \<and> meet_thinking s then oc_tag_close c else []) @ concat cs
     \<and> is_end s' \<and> (\<forall>r \<in> set out. co_model r = None)"
proof (induction cs arbitrary: s out)
  case Nil
  then show ?case by auto
next
  case (Cons t cs)
  obtain out1 s1 where p: "openai_process c (map Content cs @ [StreamEnd]) (s\<lparr>meet_thinking := False, is_start := False\<rparr>) = (out1, s1)"
    by fastforce
  with Cons.prems have "out = (if meet_thinking s then [delta_response c False False (Some (oc_tag_close c)) False] else [])
      @ delta_response c False False (Some t) False # out1" "s' = s1" by auto
  with Cons.IH [of "s\<lparr>meet_thinking := False, is_start := False\<rparr>" out1] p show ?case by auto
qed

lemma stream_thoughts:
  "\<not> is_start s \<Longrightarrow> meet_thinking s \<Longrightarrow> cs \<noteq> [] \<Longrightarrow>
   openai_process c (map (\<lambda>t. ThinkingMsg (ThinkText t)) ts @ map Content cs @ [StreamEnd]) s = (out, s') \<Longrightarrow>
     streamed_text out = concat ts @ oc_tag_close c @ concat cs \<and> is_end s' \<and> (\<forall>r \<in> set out. co_model r = None)"
proof (induction ts arbitrary: s out)
  case Nil
  then show ?case using stream_contents [of s c cs out s'] by simp
next
  case (Cons t ts)
  obtain out1 s1 where p: "openai_process c (map (\<lambda>t. ThinkingMsg (ThinkText t)) ts @ map Content cs @ [StreamEnd])
      (s\<lparr>meet_thinking := True, is_start := False\<rparr>) = (out1, s1)"
    by fastforce
  with Cons.prems have "out = delta_response c False False (Some t) False # out1" "s' = s1" by auto
  with Cons.IH [of "s\<lparr>meet_thinking := True, is_start := False\<rparr>" out1] p Cons.prems(3) show ?case by simp
qed

lemma trim_append: "2 \<le> length a \<Longrightarrow> trim_leading_newlines (a @ b) = trim_leading_newlines a @ b"
  by (auto simp: trim_leading_newlines_def nth_append)

lemma trim_nonempty: "3 \<le> length a \<Longrightarrow> trim_leading_newlines a \<noteq> []"
  by (auto simp: trim_leading_newlines_def)

lemma stream_text:
  fixes s :: "('p, 'f) openai_state"
  assumes "cs \<noteq> []" "3 \<le> length (hd (ts @ cs))"
    and "openai_process c (map (\<lambda>t. ThinkingMsg (ThinkText t)) ts @ map Content cs @ [StreamEnd]) openai_start = (out, s)"
  shows "streamed_text out = answer_text (oc_tag_open c) (oc_tag_close c) (concat cs) (concat ts)
    \<and> is_end s \<and> co_model (hd out) = Some (oc_model c) \<and> (\<forall>r \<in> set (tl out). co_model r = None)"
proof (cases ts)
  case Nil
  obtain x xs where cs: "cs = x # xs" using assms(1) by (cases cs) auto
  obtain out' s' where p: "openai_process c (map Content xs @ [StreamEnd]) ((openai_start :: ('p, 'f) openai_state)\<lparr>meet_thinking := False, is_start := False\<rparr>) = (out', s')"
    by fastforce
  with stream_contents [OF _ p] assms cs Nil show ?thesis
    by (auto simp: openai_start_def answer_text_def trim_append)
next
  case (Cons x xs)
  obtain out' s' where p: "openai_process c (map (\<lambda>t. ThinkingMsg (ThinkText t)) xs @ map Content cs @ [StreamEnd])
      ((openai_start :: ('p, 'f) openai_state)\<lparr>meet_thinking := True, is_start := False\<rparr>) = (out', s')"
    by fastforce
  with stream_thoughts [OF _ _ assms(1) p] assms Cons show ?thesis
    by (auto simp: openai_start_def answer_text_def trim_append)
qed

lemma texts_simps [simp]:
  "contents (map Content cs) = cs" "contents (map (\<lambda>t. ThinkingMsg (ThinkText t)) ts) = []"
  "thoughts (map Content cs) = []" "thoughts (map (\<lambda>t. ThinkingMsg (ThinkText t)) ts) = ts"
  by (induction cs; induction ts; simp)+

lemma add_texts_eq: "add_texts ms f t = (f @ concat (contents ms), t @ concat (thoughts ms))"
  by (induction ms arbitrary: f t) (auto split: StreamMessage.split Thinking.split)

lemma answer_loop_collect:
  "collect e b cs d = Some (Inr ms, d') \<Longrightarrow>
     answer_loop e b (map Chunk cs) d f t = Some (Inr (f @ concat (contents ms), t @ concat (thoughts ms)), d')"
proof (induction cs arbitrary: d f t ms)
  case (Cons x cs)
  then show ?case
    by (auto simp: add_texts_eq split: Option.bind_splits sum.splits StreamError.splits)
       (auto simp: map_sum_def split: sum.splits)
qed simp

section \<open>Properties\<close>


definition sample_ctx :: "nat openai_ctx" where
  "sample_ctx = \<lparr>oc_response_id = [], oc_model = bytes_of ''m'', oc_current_id = 1, oc_created = 0, oc_is_need = False,
     oc_elapsed = 0, oc_tag_open = bytes_of ''<think>'', oc_tag_close = bytes_of ''</think>''\<rparr>"

definition sample_frame :: "u8 \<Rightarrow> string \<Rightarrow> raw_message" where
  "sample_frame t s = \<lparr>type_of = t, data_of = bytes_of s\<rparr>"

definition after_abc :: "(nat, nat) chat_decoder" where
  "after_abc =
     \<lparr>cd_buffer = \<lparr>inner = []\<rparr>, first_result = Some [Content (bytes_of ''abc'')],
      content_delays = Some (bytes_of ''abc'', [(3, 1)]), thinking_content = None,
      ctx_of = \<lparr>raw_args_len = 0, processed = False\<rparr>, empty_stream_count = 0, last_content_time = 1,
      first_result_ready = True, first_result_taken = False, has_seen_content = True, clock_reads = 2\<rparr>"


section \<open>What goes wrong\<close>

text \<open>The cached first result is only delivered when the buffer is empty.  A chunk that ends within a frame
  delivers its own messages first: the response ``abcdefghi'' is streamed as ``defabcghi''.\<close>

theorem first_result_reordered:
  "\<exists>out d s. stream_body echo_env False (openai_process sample_ctx) (openai_fail sample_ctx id) is_end
       (map Chunk [frame_bytes (sample_frame 0 ''abc''),
                   frame_bytes (sample_frame 0 ''def'') @ take 4 (frame_bytes (sample_frame 0 ''ghi'')),
                   drop 4 (frame_bytes (sample_frame 0 ''ghi''))])
       (openai_start :: (unit, nat) openai_state) = Some (Inr out, d, s, False)
     \<and> streamed_text out = bytes_of ''defabcghi''"
proof -
  let ?r = "stream_body echo_env False (openai_process sample_ctx) (openai_fail sample_ctx id) is_end
       (map Chunk [frame_bytes (sample_frame 0 ''abc''),
                   frame_bytes (sample_frame 0 ''def'') @ take 4 (frame_bytes (sample_frame 0 ''ghi'')),
                   drop 4 (frame_bytes (sample_frame 0 ''ghi''))])
       (openai_start :: (unit, nat) openai_state)"
  have "map_option (\<lambda>(r, d, s, bl). (map_sum id streamed_text r, bl)) ?r = Some (Inr (bytes_of ''defabcghi''), False)" by code_simp
  then obtain r d s where "?r = Some (r, d, s, False)" "map_sum id streamed_text r = Inr (bytes_of ''defabcghi'')" by auto
  moreover from this(2) obtain out where "r = Inr out" "streamed_text out = bytes_of ''defabcghi''" by (cases r) auto
  ultimately show ?thesis by blast
qed

text \<open>A response that arrives in one chunk is not delivered at all, although it is complete.\<close>

theorem single_chunk_response_lost:
  "\<exists>d s. stream_body echo_env False (openai_process sample_ctx) (openai_fail sample_ctx id) is_end
       [Chunk (frame_bytes (sample_frame 0 ''abc'') @ frame_bytes (sample_frame 2 ''{}''))]
       (openai_start :: (unit, nat) openai_state) = Some (Inr [], d, s, False)
     \<and> first_result d = Some [Content (bytes_of ''abc''), StreamEnd]"
proof -
  let ?i = "[Chunk (frame_bytes (sample_frame 0 ''abc'') @ frame_bytes (sample_frame 2 ''{}''))]"
  have "first_phase echo_env False ?i (chat_decoder_new echo_env)
      = Some (Inr [], after_abc\<lparr>first_result := Some [Content (bytes_of ''abc''), StreamEnd]\<rparr>)"
    by code_simp
  from stream_lost [OF this] show ?thesis by fastforce
qed

text \<open>A chunk of fewer than five bytes after the first result blocks the response: the rest of the text, which
  follows it, is not delivered, and the client waits for an end that does not come.\<close>

theorem short_chunk_deadlock:
  "\<exists>d s. stream_body echo_env False (openai_process sample_ctx) (openai_fail sample_ctx id) is_end
       (map Chunk [frame_bytes (sample_frame 0 ''abc''), take 4 (frame_bytes (sample_frame 0 ''def'')),
                   drop 4 (frame_bytes (sample_frame 0 ''def'')), frame_bytes (sample_frame 2 ''{}'')])
       (openai_start :: (unit, nat) openai_state) = Some (Inr [], d, s, True)"
proof -
  have "first_phase echo_env False
       (map Chunk [frame_bytes (sample_frame 0 ''abc''), take 4 (frame_bytes (sample_frame 0 ''def'')),
                   drop 4 (frame_bytes (sample_frame 0 ''def'')), frame_bytes (sample_frame 2 ''{}'')]) (chat_decoder_new echo_env)
      = Some (Inr (Chunk (take 4 (frame_bytes (sample_frame 0 ''def'')))
          # map Chunk [drop 4 (frame_bytes (sample_frame 0 ''def'')), frame_bytes (sample_frame 2 ''{}'')]), after_abc)"
    by code_simp
  from short_chunk_blocks [OF this, of "openai_process sample_ctx" "openai_fail sample_ctx id" is_end] show ?thesis
    by (fastforce simp: after_abc_def)
qed

end
