(* ===== verification/Anthropic_Chat.thy ===== *)
theory Anthropic_Chat
  imports Chat_Stream
begin

text \<open>
  The Anthropic messages handler of \<^verbatim>\<open>src/core/service.rs\<close> after the upstream request was answered:
  the events of a streaming response and the single answer of a non-streaming one, with the records
  of \<^verbatim>\<open>src/core/model/anthropic.rs\<close>.  Serialization to JSON, the parser of tool inputs and the
  usage statistics requested from the service are parameters; a JSON object is the list of its entries.
\<close>

section \<open>Events\<close>

datatype 'j ContentBlock =
  TextBlock bytes
  | ThinkingBlock bytes "bytes option"
  | RedactedBlock bytes
  | ToolUseBlock bytes bytes "(bytes \<times> 'j) list"

datatype RawContentBlockDelta =
  TextDelta bytes
  | InputJsonDelta bytes
  | ThinkingDelta bytes
  | SignatureDelta bytes

datatype StopReason = EndTurn | ToolUse

record anthropic_usage =
  au_input_tokens :: "32 word"
  au_output_tokens :: "32 word"
  au_cache_creation :: "32 word"
  au_cache_read :: "32 word"

record delta_usage =
  du_input_tokens :: "32 word option"
  du_output_tokens :: "32 word"
  du_cache_creation :: "32 word"
  du_cache_read :: "32 word"

definition into_anthropic :: "'f chain_usage \<Rightarrow> anthropic_usage" where
  "into_anthropic u =
     \<lparr>au_input_tokens = cu_input u, au_output_tokens = cu_output u, au_cache_creation = cu_cache_write u,
      au_cache_read = cu_cache_read u\<rparr>"

definition into_anthropic_delta :: "'f chain_usage \<Rightarrow> delta_usage" where
  "into_anthropic_delta u =
     \<lparr>du_input_tokens = (if cu_input u = 0 then None else Some (cu_input u)), du_output_tokens = cu_output u,
      du_cache_creation = cu_cache_write u, du_cache_read = cu_cache_read u\<rparr>"

record 'j anthropic_message =
  am_content :: "'j ContentBlock list"
  am_usage :: anthropic_usage
  am_id :: bytes
  am_model :: bytes
  am_stop_reason :: "StopReason option"

datatype ('j, 'x) RawMessageStreamEvent =
  MessageStart "'j anthropic_message"
  | MessageDelta StopReason delta_usage
  | ContentBlockStart "32 word" "'j ContentBlock"
  | ContentBlockDelta "32 word" RawContentBlockDelta
  | ContentBlockStop "32 word"
  | Ping
  | ErrorEvent 'x

definition type_name :: "('j, 'x) RawMessageStreamEvent \<Rightarrow> bytes" where
  "type_name ev = bytes_of
     (case ev of
        MessageStart _ \<Rightarrow> ''message_start''
      | MessageDelta _ _ \<Rightarrow> ''message_delta''
      | ContentBlockStart _ _ \<Rightarrow> ''content_block_start''
      | ContentBlockDelta _ _ \<Rightarrow> ''content_block_delta''
      | ContentBlockStop _ \<Rightarrow> ''content_block_stop''
      | Ping \<Rightarrow> ''ping''
      | ErrorEvent _ \<Rightarrow> ''error'')"

definition anthropic_sse :: "(('j, 'x) RawMessageStreamEvent \<Rightarrow> bytes) \<Rightarrow> ('j, 'x) RawMessageStreamEvent \<Rightarrow> bytes" where
  "anthropic_sse to_json ev =
     bytes_of ''event: '' @ type_name ev @ [0x0A] @ bytes_of ''data: '' @ to_json ev @ [0x0A, 0x0A]"

section \<open>Streaming\<close>

datatype StreamState = NotStarted | ContentBlockActive | Completed

datatype LastContentType = LastNone | LastThinking | LastText | LastInputJson

record 'f anthropic_ctx =
  ac_msg_id :: bytes
  ac_model :: bytes
  ac_current_id :: u64
  ac_elapsed :: 'f

record ('p, 'f) anthropic_state =
  block_index :: "32 word"
  stream_state :: StreamState
  last_content_type :: LastContentType
  a_effects :: "('p, 'f) effect list"

definition anthropic_start :: "('p, 'f) anthropic_state" where
  "anthropic_start = \<lparr>block_index = 0, stream_state = NotStarted, last_content_type = LastNone, a_effects = []\<rparr>"

definition usage_zero :: anthropic_usage where
  "usage_zero = \<lparr>au_input_tokens = 0, au_output_tokens = 0, au_cache_creation = 0, au_cache_read = 0\<rparr>"

definition message_start :: "'f anthropic_ctx \<Rightarrow> ('j, 'x) RawMessageStreamEvent" where
  "message_start c = MessageStart
     \<lparr>am_content = [], am_usage = usage_zero, am_id = ac_msg_id c, am_model = ac_model c, am_stop_reason = None\<rparr>"

text \<open>The end of the block before, if there is one.\<close>

definition close_block :: "('p, 'f) anthropic_state \<Rightarrow> ('j, 'x) RawMessageStreamEvent list \<times> ('p, 'f) anthropic_state" where
  "close_block s =
     (if last_content_type s \<noteq> LastNone
      then ([ContentBlockStop (block_index s)], s\<lparr>block_index := block_index s + 1\<rparr>)
      else ([], s))"

text \<open>A thought or a text: start the message if needed, switch the block if needed.\<close>

definition begin_block ::
  "'f anthropic_ctx \<Rightarrow> LastContentType \<Rightarrow> 'j ContentBlock \<Rightarrow> ('p, 'f) anthropic_state
   \<Rightarrow> ('j, 'x) RawMessageStreamEvent list \<times> ('p, 'f) anthropic_state" where
  "begin_block c kind block s =
     (let starting = (stream_state s = NotStarted);
          ms = (if starting then [message_start c] else [])
      in if last_content_type s \<noteq> kind
         then let (cl, s) = close_block s
              in (ms @ cl @ ContentBlockStart (block_index s) block # (if starting then [Ping] else []),
                  s\<lparr>last_content_type := kind, stream_state := ContentBlockActive\<rparr>)
         else (ms, s))"

text \<open>A tool call: the content type it stores is \<open>LastText\<close>.\<close>

definition begin_tool ::
  "tool_call \<Rightarrow> ('p, 'f) anthropic_state \<Rightarrow> ('j, 'x) RawMessageStreamEvent list \<times> ('p, 'f) anthropic_state" where
  "begin_tool t s =
     (if last_content_type s \<noteq> LastInputJson
      then let (cl, s) = close_block s
           in (cl @ [ContentBlockStart (block_index s) (ToolUseBlock (tc_id t) (tc_name t) []),
                     ContentBlockDelta (block_index s) (InputJsonDelta [])],
               s\<lparr>last_content_type := LastText, stream_state := ContentBlockActive\<rparr>)
      else ([], s))"

fun anthropic_process ::
  "'f anthropic_ctx \<Rightarrow> StreamMessage list \<Rightarrow> ('p, 'f) anthropic_state
   \<Rightarrow> ('j, 'x) RawMessageStreamEvent list \<times> ('p, 'f) anthropic_state" where
  "anthropic_process c [] s = ([], s)"
| "anthropic_process c (ThinkingMsg thinking # ms) s =
     (let (o1, s) = begin_block c LastThinking (ThinkingBlock [] None) s;
          o2 = (case thinking of
                  ThinkText text \<Rightarrow> [ContentBlockDelta (block_index s) (ThinkingDelta text)]
                | ThinkSignature sig \<Rightarrow> [ContentBlockDelta (block_index s) (SignatureDelta sig)]
                | RedactedThinking _ \<Rightarrow> []);
          (o3, s) = anthropic_process c ms s
      in (o1 @ o2 @ o3, s))"
| "anthropic_process c (Content text # ms) s =
     (let (o1, s) = begin_block c LastText (TextBlock []) s;
          o2 = [ContentBlockDelta (block_index s) (TextDelta text)];
          (o3, s) = anthropic_process c ms s
      in (o1 @ o2 @ o3, s))"
| "anthropic_process c (ToolCall t # ms) s =
     (let (o1, s) = begin_tool t s;
          o2 = [ContentBlockDelta (block_index s) (InputJsonDelta (tc_input t))];
          (o3, s) = anthropic_process c ms s
      in (o1 @ o2 @ o3, s))"
| "anthropic_process c (StreamEnd # ms) s =
     (if last_content_type s \<noteq> LastNone then [ContentBlockStop (block_index s)] else [],
      s\<lparr>a_effects := a_effects s @ [UpdLog (ac_current_id c) (Timing (ac_elapsed c))], stream_state := Completed\<rparr>)"
| "anthropic_process c (WebReference rs # ms) s = anthropic_process c ms s"

definition anthropic_fail ::
  "('e \<Rightarrow> 'x) \<Rightarrow> 'e \<Rightarrow> ('p, 'f) anthropic_state \<Rightarrow> ('j, 'x) RawMessageStreamEvent list \<times> ('p, 'f) anthropic_state" where
  "anthropic_fail error_of err s = ([ErrorEvent (error_of err)], s)"

definition anthropic_finished :: "('p, 'f) anthropic_state \<Rightarrow> bool" where
  "anthropic_finished s \<longleftrightarrow> stream_state s = Completed"

definition delta_usage_default :: delta_usage where
  "delta_usage_default = \<lparr>du_input_tokens = None, du_output_tokens = 0, du_cache_creation = 0, du_cache_read = 0\<rparr>"

definition anthropic_last ::
  "'f anthropic_ctx \<Rightarrow> (('j, 'x) RawMessageStreamEvent \<Rightarrow> bytes) \<Rightarrow> bool \<Rightarrow> 'f chain_usage option \<Rightarrow> ('t, 'f) chat_decoder
   \<Rightarrow> ('p, 'f) anthropic_state \<Rightarrow> bytes \<times> ('t, 'f) chat_decoder \<times> ('p, 'f) anthropic_state" where
  "anthropic_last c to_json real_usage got d s =
     (let (ds, d) = take_content_delays d;
          (th, d) = take_thinking_content d;
          got = (if real_usage then got else None);
          updates = UpdLog (ac_current_id c) (Delays ds th)
            # (case got of Some u \<Rightarrow> [UpdLog (ac_current_id c) (UpdUsage u)] | None \<Rightarrow> []);
          ev = MessageDelta (if is_tool_processed d then ToolUse else EndTurn)
                 (case got of Some u \<Rightarrow> into_anthropic_delta u | None \<Rightarrow> delta_usage_default)
      in (anthropic_sse to_json ev @ bytes_of ''event: message_stop'' @ [0x0A]
            @ bytes_of ''data: {'' @ [0x22] @ bytes_of ''type'' @ [0x22, 0x3A, 0x22] @ bytes_of ''message_stop'' @ [0x22] @ bytes_of ''}''
            @ [0x0A, 0x0A],
          d, s\<lparr>a_effects := a_effects s @ updates\<rparr>))"

definition anthropic_start_failed ::
  "'f anthropic_ctx \<Rightarrow> ('e \<Rightarrow> ErrorInfo) \<Rightarrow> 'e start_error \<Rightarrow> ('p, 'f) anthropic_state \<Rightarrow> ('p, 'f) anthropic_state" where
  "anthropic_start_failed c info err s =
     (case err of
        UpstreamFailed x \<Rightarrow> s\<lparr>a_effects := a_effects s @ [UpdLog (ac_current_id c) (Failure2 (info x) (ac_elapsed c)), IncrementError]\<rparr>
      | ReadError \<Rightarrow> s
      | StreamEnded \<Rightarrow> s\<lparr>a_effects := a_effects s
            @ [UpdLog (ac_current_id c) (UpdFailure (Simple (bytes_of ''Empty stream response''))), IncrementError]\<rparr>)"

definition anthropic_stream ::
  "('e, 't, 'f) dec_env \<Rightarrow> bool \<Rightarrow> 'f anthropic_ctx \<Rightarrow> ('e \<Rightarrow> ErrorInfo) \<Rightarrow> ('e \<Rightarrow> 'x)
   \<Rightarrow> (('j, 'x) RawMessageStreamEvent \<Rightarrow> bytes) \<Rightarrow> bool \<Rightarrow> 'f chain_usage option \<Rightarrow> item list
   \<Rightarrow> (('e start_error + bytes \<times> bool) \<times> ('p, 'f) anthropic_state) ub" where
  "anthropic_stream e b c info error_of to_json real_usage got items = do {
     (r, d, s, blocked) \<leftarrow> stream_body e b (anthropic_process c) (anthropic_fail error_of) anthropic_finished items anthropic_start;
     (case r of
        Inl err \<Rightarrow> Some (Inl err, anthropic_start_failed c info err s)
      | Inr out \<Rightarrow>
          if blocked then Some (Inr (concat (map (anthropic_sse to_json) out), False), s)
          else let (done_bytes, d, s) = anthropic_last c to_json real_usage got d s
               in Some (Inr (concat (map (anthropic_sse to_json) out) @ done_bytes, True), s))
   }"

section \<open>Without streaming\<close>

datatype 'e message_error = MessageUpstream 'e | MessageRead

text \<open>The messages of one chunk; \<open>input_json\<close> is local to it, and \<open>parse\<close> is \<^verbatim>\<open>serde_json::from_str\<close>.\<close>

fun add_blocks ::
  "(bytes \<Rightarrow> (bytes \<times> 'j) list option) \<Rightarrow> bool \<Rightarrow> StreamMessage list \<Rightarrow> bytes \<Rightarrow> 'j ContentBlock list \<Rightarrow> 'j ContentBlock list" where
  "add_blocks parse tool_processed [] input_json content = content"
| "add_blocks parse tool_processed (m # ms) input_json content =
     (case m of
        ThinkingMsg (ThinkText text) \<Rightarrow>
          add_blocks parse tool_processed ms input_json
            (if content \<noteq> [] then
               (case last content of
                  ThinkingBlock th sig \<Rightarrow> butlast content @ [ThinkingBlock (th @ text) sig]
                | _ \<Rightarrow> content @ [ThinkingBlock text None])
             else [ThinkingBlock text None])
      | ThinkingMsg (ThinkSignature s) \<Rightarrow>
          add_blocks parse tool_processed ms input_json
            (if content \<noteq> [] then
               (case last content of
                  ThinkingBlock th sig \<Rightarrow> butlast content @ [ThinkingBlock th (Some s)]
                | _ \<Rightarrow> content @ [ThinkingBlock [] (Some s)])
             else [ThinkingBlock [] (Some s)])
      | ThinkingMsg (RedactedThinking r) \<Rightarrow> add_blocks parse tool_processed ms input_json (content @ [RedactedBlock r])
      | Content atext \<Rightarrow>
          add_blocks parse tool_processed ms input_json
            (if content \<noteq> [] then
               (case last content of
                  TextBlock text \<Rightarrow> butlast content @ [TextBlock (text @ atext)]
                | _ \<Rightarrow> content @ [TextBlock atext])
             else [TextBlock atext])
      | ToolCall t \<Rightarrow>
          (let input_json = input_json @ tc_input t
           in case (if tool_processed then parse input_json else None) of
                Some input \<Rightarrow> add_blocks parse tool_processed ms [] (content @ [ToolUseBlock (tc_id t) (tc_name t) input])
              | None \<Rightarrow> add_blocks parse tool_processed ms input_json content)
      | _ \<Rightarrow> add_blocks parse tool_processed ms input_json content)"

fun message_loop ::
  "('e, 't, 'f) dec_env \<Rightarrow> bool \<Rightarrow> (bytes \<Rightarrow> (bytes \<times> 'j) list option) \<Rightarrow> item list \<Rightarrow> ('t, 'f) chat_decoder \<Rightarrow> 'j ContentBlock list
   \<Rightarrow> (('e message_error + 'j ContentBlock list) \<times> ('t, 'f) chat_decoder) ub" where
  "message_loop e b parse [] d content = Some (Inr content, d)"
| "message_loop e b parse (i # items) d content =
     (case i of
        ChunkError \<Rightarrow> Some (Inl MessageRead, d)
      | Chunk data \<Rightarrow> do {
          (r, d) \<leftarrow> chat_decode e data b d;
          (case r of
             Inr messages \<Rightarrow> message_loop e b parse items d (add_blocks parse (is_tool_processed d) messages [] content)
           | Inl (Upstream err) \<Rightarrow> Some (Inl (MessageUpstream err), d)
           | Inl EmptyStream \<Rightarrow> message_loop e b parse items d content)
        })"

definition anthropic_answer ::
  "('e, 't, 'f) dec_env \<Rightarrow> bool \<Rightarrow> 'f anthropic_ctx \<Rightarrow> ('e \<Rightarrow> ErrorInfo) \<Rightarrow> (bytes \<Rightarrow> (bytes \<times> 'j) list option) \<Rightarrow> bool
   \<Rightarrow> 'f chain_usage option \<Rightarrow> item list \<Rightarrow> (('e message_error + 'j anthropic_message) \<times> ('p, 'f) effect list) ub" where
  "anthropic_answer e b c info parse real_usage got items = do {
     (r, d) \<leftarrow> message_loop e b parse items (no_first_cache (chat_decoder_new e)) [];
     (case r of
        Inl (MessageUpstream err) \<Rightarrow> Some (Inl (MessageUpstream err), [UpdLog (ac_current_id c) (UpdFailure (info err)), IncrementError])
      | Inl MessageRead \<Rightarrow> Some (Inl MessageRead, [])
      | Inr content \<Rightarrow>
          let got = (if real_usage then got else None);
              (ds, d) = take_content_delays d;
              (th, d) = take_thinking_content d
          in Some (Inr \<lparr>am_content = content, am_usage = (case got of Some u \<Rightarrow> into_anthropic u | None \<Rightarrow> usage_zero),
                        am_id = ac_msg_id c, am_model = ac_model c,
                        am_stop_reason = Some (if is_tool_processed d then ToolUse else EndTurn)\<rparr>,
                   [UpdLog (ac_current_id c) (TimingChain (ac_elapsed c) \<lparr>delays = ds, chain_usage = got, think = th\<rparr>)]))
   }"

section \<open>The processor\<close>

lemma anthropic_append:
  "StreamEnd \<notin> set a \<Longrightarrow>
     anthropic_process c (a @ b) s = (let (o1, s1) = anthropic_process c a s; (o2, s2) = anthropic_process c b s1 in (o1 @ o2, s2))"
proof (induction a arbitrary: s)
  case (Cons m a)
  then show ?case by (cases m) (simp_all add: Let_def split: prod.split)
qed (simp split: prod.split)

lemma begin_unfinished:
  "begin_block c k bl s = (o1, s') \<Longrightarrow> \<not> anthropic_finished s \<Longrightarrow> \<not> anthropic_finished s'"
  "begin_tool t s = (o1, s') \<Longrightarrow> \<not> anthropic_finished s \<Longrightarrow> \<not> anthropic_finished s'"
  by (auto simp: begin_block_def begin_tool_def close_block_def anthropic_finished_def Let_def split: if_splits)

lemma anthropic_finished_eq:
  "anthropic_process c a s = (out, s') \<Longrightarrow> \<not> anthropic_finished s \<Longrightarrow> anthropic_finished s' \<longleftrightarrow> StreamEnd \<in> set a"
proof (induction a arbitrary: s out)
  case (Cons m a)
  show ?case
  proof (cases m)
    case StreamEnd
    with Cons.prems show ?thesis by (auto simp: anthropic_finished_def)
  next
    case (WebReference rs)
    with Cons show ?thesis by simp
  qed (use Cons in \<open>auto simp: Let_def split: prod.splits dest: begin_unfinished\<close>)
qed simp

lemma anthropic_finished_iff:
  "\<not> anthropic_finished s \<Longrightarrow> anthropic_finished (snd (anthropic_process c a s)) \<longleftrightarrow> StreamEnd \<in> set a"
  by (rule anthropic_finished_eq [OF prod.collapse [symmetric]])

interpretation anthropic: message_processor "anthropic_process c" anthropic_finished for c
  by unfold_locales (simp_all add: anthropic_append anthropic_finished_iff)

section \<open>The protocol of events\<close>

datatype BlockKind = TextKind | ThinkingKind | RedactedKind | ToolKind

fun kind_of :: "'j ContentBlock \<Rightarrow> BlockKind" where
  "kind_of (TextBlock _) = TextKind"
| "kind_of (ThinkingBlock _ _) = ThinkingKind"
| "kind_of (RedactedBlock _) = RedactedKind"
| "kind_of (ToolUseBlock _ _ _) = ToolKind"

fun fits :: "BlockKind \<Rightarrow> RawContentBlockDelta \<Rightarrow> bool" where
  "fits k (TextDelta _) \<longleftrightarrow> k = TextKind"
| "fits k (InputJsonDelta _) \<longleftrightarrow> k = ToolKind"
| "fits k (ThinkingDelta _) \<longleftrightarrow> k = ThinkingKind"
| "fits k (SignatureDelta _) \<longleftrightarrow> k = ThinkingKind"

text \<open>A client expects the start of the message, then blocks with consecutive indices, each of them
  started, filled with deltas of its kind and stopped.\<close>

datatype phase = Idle | Ready "32 word" | Open "32 word" BlockKind

fun event_step :: "phase \<Rightarrow> ('j, 'x) RawMessageStreamEvent \<Rightarrow> phase option" where
  "event_step Idle (MessageStart m) = Some (Ready 0)"
| "event_step (Ready i) (ContentBlockStart j bl) = (if i = j then Some (Open i (kind_of bl)) else None)"
| "event_step (Open i k) Ping = Some (Open i k)"
| "event_step (Open i k) (ContentBlockDelta j dl) = (if i = j \<and> fits k dl then Some (Open i k) else None)"
| "event_step (Open i k) (ContentBlockStop j) = (if i = j then Some (Ready (i + 1)) else None)"
| "event_step _ _ = None"

fun event_run :: "phase \<Rightarrow> ('j, 'x) RawMessageStreamEvent list \<Rightarrow> phase option" where
  "event_run q [] = Some q"
| "event_run q (ev # evs) = (case event_step q ev of None \<Rightarrow> None | Some q' \<Rightarrow> event_run q' evs)"

lemma event_run_append [simp]: "event_run q (xs @ ys) = Option.bind (event_run q xs) (\<lambda>q'. event_run q' ys)"
  by (induction xs arbitrary: q) (auto split: option.split)

definition phase_of :: "('p, 'f) anthropic_state \<Rightarrow> phase" where
  "phase_of s =
     (case last_content_type s of
        LastNone \<Rightarrow> Idle
      | LastThinking \<Rightarrow> Open (block_index s) ThinkingKind
      | LastText \<Rightarrow> Open (block_index s) TextKind
      | LastInputJson \<Rightarrow> Open (block_index s) ToolKind)"

text \<open>Nothing is sent before the first block, and its index is zero.\<close>

definition consistent :: "('p, 'f) anthropic_state \<Rightarrow> bool" where
  "consistent s \<longleftrightarrow> (stream_state s = NotStarted \<longleftrightarrow> last_content_type s = LastNone)
     \<and> (last_content_type s = LastNone \<longrightarrow> block_index s = 0)"

definition tool_starts :: "('j, 'x) RawMessageStreamEvent list \<Rightarrow> nat" where
  "tool_starts evs = length (filter (\<lambda>ev. case ev of ContentBlockStart _ (ToolUseBlock _ _ _) \<Rightarrow> True | _ \<Rightarrow> False) evs)"

lemma tool_starts_simps [simp]:
  "tool_starts [] = 0" "tool_starts (xs @ ys) = tool_starts xs + tool_starts ys"
  "tool_starts (ev # evs) = (case ev of ContentBlockStart _ (ToolUseBlock _ _ _) \<Rightarrow> 1 | _ \<Rightarrow> 0) + tool_starts evs"
  by (simp_all add: tool_starts_def split: RawMessageStreamEvent.split ContentBlock.split)

lemma begin_block_ok:
  assumes "begin_block c k bl s = (out, s')" "consistent s"
    and "(k = LastThinking \<and> bl = ThinkingBlock [] None) \<or> (k = LastText \<and> bl = TextBlock [])"
  shows "event_run (phase_of s) out = Some (phase_of s') \<and> consistent s' \<and> last_content_type s' = k \<and> tool_starts out = 0"
  using assms
  by (cases "last_content_type s")
     (auto simp: begin_block_def close_block_def consistent_def phase_of_def message_start_def Let_def split: if_splits)

definition plain :: "StreamMessage \<Rightarrow> bool" where
  "plain m \<longleftrightarrow> (case m of ThinkingMsg _ \<Rightarrow> True | Content _ \<Rightarrow> True | _ \<Rightarrow> False)"

lemma plain_run:
  fixes out :: "('j, 'x) RawMessageStreamEvent list"
  shows "anthropic_process c ms s = (out, s') \<Longrightarrow> consistent s \<Longrightarrow> \<forall>m \<in> set ms. plain m \<Longrightarrow>
     event_run (phase_of s) out = Some (phase_of s') \<and> consistent s' \<and> tool_starts out = 0
     \<and> last_content_type s' \<in> (if ms = [] then {last_content_type s} else {LastThinking, LastText})"
proof (induction ms arbitrary: s s' out)
  case (Cons m ms)
  show ?case
  proof (cases m)
    case (ThinkingMsg th)
    obtain o1 :: "('j, 'x) RawMessageStreamEvent list" and s1 where b: "begin_block c LastThinking (ThinkingBlock [] None) s = (o1, s1)" by fastforce
    obtain o3 :: "('j, 'x) RawMessageStreamEvent list" and s3 where r: "anthropic_process c ms s1 = (o3, s3)" by fastforce
    have b': "event_run (phase_of s) o1 = Some (phase_of s1)" "consistent s1" "last_content_type s1 = LastThinking" "tool_starts o1 = 0"
      using begin_block_ok [OF b Cons.prems(2)] by simp_all
    have "s3 = s'" using Cons.prems(1) ThinkingMsg b r by (auto simp: Let_def)
    with Cons.IH [OF r b'(2)] Cons.prems(1,3) ThinkingMsg b r b' show ?thesis
      by (auto simp: Let_def phase_of_def split: Thinking.splits if_splits)
  next
    case (Content t)
    obtain o1 :: "('j, 'x) RawMessageStreamEvent list" and s1 where b: "begin_block c LastText (TextBlock []) s = (o1, s1)" by fastforce
    obtain o3 :: "('j, 'x) RawMessageStreamEvent list" and s3 where r: "anthropic_process c ms s1 = (o3, s3)" by fastforce
    have b': "event_run (phase_of s) o1 = Some (phase_of s1)" "consistent s1" "last_content_type s1 = LastText" "tool_starts o1 = 0"
      using begin_block_ok [OF b Cons.prems(2)] by simp_all
    have "s3 = s'" using Cons.prems(1) Content b r by (auto simp: Let_def)
    with Cons.IH [OF r b'(2)] Cons.prems(1,3) Content b r b' show ?thesis
      by (auto simp: Let_def phase_of_def split: if_splits)
  qed (use Cons.prems(3) in \<open>simp_all add: plain_def\<close>)
qed simp

text \<open>Every tool call closes the block before it and opens one of its own.\<close>

lemma tools_run:
  fixes out :: "('j, 'x) RawMessageStreamEvent list"
  shows "anthropic_process c (map ToolCall ts) s = (out, s') \<Longrightarrow> last_content_type s \<in> {LastThinking, LastText} \<Longrightarrow>
     \<exists>k'. event_run (Open (block_index s) k) out = Some (Open (block_index s') k')
     \<and> last_content_type s' \<in> {LastThinking, LastText} \<and> tool_starts out = length ts"
proof (induction ts arbitrary: s s' out k)
  case (Cons t ts)
  let ?s1 = "s\<lparr>block_index := block_index s + 1, last_content_type := LastText, stream_state := ContentBlockActive\<rparr>"
  obtain o3 :: "('j, 'x) RawMessageStreamEvent list" and s3 where r: "anthropic_process c (map ToolCall ts) ?s1 = (o3, s3)" by fastforce
  with Cons.prems have out: "out = [ContentBlockStop (block_index s),
      ContentBlockStart (block_index s + 1) (ToolUseBlock (tc_id t) (tc_name t) []),
      ContentBlockDelta (block_index s + 1) (InputJsonDelta []),
      ContentBlockDelta (block_index s + 1) (InputJsonDelta (tc_input t))] @ o3" "s' = s3"
    by (auto simp: begin_tool_def close_block_def Let_def)
  with Cons.IH [OF r, of ToolKind] show ?case by auto
qed simp

section \<open>Properties\<close>


text \<open>An environment in which a text frame that starts with a brace is a fragment of a streamed tool call.\<close>

definition mixed_env :: "(bytes, nat, nat) dec_env" where
  "mixed_env = echo_env\<lparr>decode_wrapper := (\<lambda>bs. if hd bs = 0x7B then decode_wrapper tool_env (0 # bs) else decode_wrapper echo_env bs)\<rparr>"

definition sample_anthropic_ctx :: "nat anthropic_ctx" where
  "sample_anthropic_ctx = \<lparr>ac_msg_id = [], ac_model = bytes_of ''m'', ac_current_id = 1, ac_elapsed = 0\<rparr>"

definition text_frame :: "u8 \<Rightarrow> string \<Rightarrow> raw_message" where
  "text_frame t s = \<lparr>type_of = t, data_of = bytes_of s\<rparr>"

definition sample_tool :: "string \<Rightarrow> tool_call" where
  "sample_tool s = \<lparr>tc_id = bytes_of ''t'', tc_name = [], tc_input = bytes_of s\<rparr>"

definition after_hi :: "(nat, nat) chat_decoder" where
  "after_hi =
     \<lparr>cd_buffer = \<lparr>inner = []\<rparr>, first_result = Some [Content (bytes_of ''hi'')],
      content_delays = Some (bytes_of ''hi'', [(2, 1)]), thinking_content = None,
      ctx_of = \<lparr>raw_args_len = 0, processed = False\<rparr>, empty_stream_count = 0, last_content_time = 1,
      first_result_ready = True, first_result_taken = False, has_seen_content = True, clock_reads = 2\<rparr>"


section \<open>What goes wrong\<close>

text \<open>A tool call stores the content type of a text.  The next fragment of the same call therefore opens another
  block with the same identifier, and a text after a tool call is sent as a delta of the tool block.\<close>

theorem text_after_tool_misplaced:
  "event_run Idle (fst (anthropic_process c [Content a, ToolCall t, Content b] (anthropic_start :: ('p, 'f) anthropic_state))
     :: ('j, 'x) RawMessageStreamEvent list) = None"
  by (simp add: anthropic_start_def begin_block_def begin_tool_def close_block_def message_start_def Let_def)

text \<open>An answer that begins with a tool call is sent without the start of the message.\<close>

theorem tool_first_no_message_start:
  "event_run Idle (fst (anthropic_process c [ToolCall t] (anthropic_start :: ('p, 'f) anthropic_state))
     :: ('j, 'x) RawMessageStreamEvent list) = None"
  by (simp add: anthropic_start_def begin_tool_def close_block_def Let_def)

text \<open>Without streaming, the fragments of a tool call are collected per chunk.  When they arrive in two chunks, the
  answer has no tool use, although the whole arguments would be parsed.\<close>

definition parse_whole :: "bytes \<Rightarrow> (bytes \<times> unit) list option" where
  "parse_whole s = (if s = bytes_of ''{a: 1}'' then Some [(bytes_of ''a'', ())] else None)"

theorem tool_input_lost_across_chunks:
  "\<exists>d. message_loop tool_env False parse_whole
       [Chunk (frame_bytes \<lparr>type_of = 0, data_of = 0 # bytes_of ''{a: ''\<rparr>), Chunk (frame_bytes \<lparr>type_of = 0, data_of = 1 # bytes_of ''{a: 1}''\<rparr>)]
       (no_first_cache (chat_decoder_new tool_env)) [] = Some (Inr [], d) \<and> is_tool_processed d"
proof -
  let ?r = "message_loop tool_env False parse_whole
       [Chunk (frame_bytes \<lparr>type_of = 0, data_of = 0 # bytes_of ''{a: ''\<rparr>), Chunk (frame_bytes \<lparr>type_of = 0, data_of = 1 # bytes_of ''{a: 1}''\<rparr>)]
       (no_first_cache (chat_decoder_new tool_env)) []"
  have "map_option (\<lambda>(r, d). (r, is_tool_processed d)) ?r = Some (Inr [], True)" by code_simp
  then show ?thesis by (auto simp: map_option_case split: option.splits)
qed

end
