(* ===== verification/Adapter.thy ===== *)
theory Adapter
  imports Chat_Decoder
begin

text \<open>
  What the adapters of both interfaces share, \<^verbatim>\<open>src/core/adapter.rs\<close>: web references and links in the
  text of a message, tool names, the counter of identifiers and the list of messages with its headers.

  Strings are their UTF-8 bytes; a character is the list of the bytes of its encoding, so that the
  iterators over \<^verbatim>\<open>chars()\<close> are recursions over \<open>chars\<close>.  The parser of \<^verbatim>\<open>url\<close> is a parameter.
\<close>

section \<open>Characters\<close>

lemma length_dropWhile_less [termination_simp]: "length (dropWhile P xs) < Suc (length xs)"
  by (simp add: length_dropWhile_le le_imp_less_Suc)

fun chars :: "bytes \<Rightarrow> bytes list" where
  "chars [] = []"
| "chars (b # bs) = (b # takeWhile is_continuation bs) # chars (dropWhile is_continuation bs)"

text \<open>\<^verbatim>\<open>char::is_whitespace\<close>: the code points with the Unicode property \<^verbatim>\<open>White_Space\<close>.\<close>

definition WHITE_SPACE :: "bytes list" where
  "WHITE_SPACE =
     [[0x09], [0x0A], [0x0B], [0x0C], [0x0D], [0x20], [0xC2, 0x85], [0xC2, 0xA0], [0xE1, 0x9A, 0x80]]
     @ map (\<lambda>b. [0xE2, 0x80, b]) [0x80, 0x81, 0x82, 0x83, 0x84, 0x85, 0x86, 0x87, 0x88, 0x89, 0x8A, 0xA8, 0xA9, 0xAF]
     @ [[0xE2, 0x81, 0x9F], [0xE3, 0x80, 0x80]]"

definition is_whitespace :: "bytes \<Rightarrow> bool" where
  "is_whitespace c = List.member WHITE_SPACE c"

definition trim_start :: "bytes \<Rightarrow> bytes" where
  "trim_start s = concat (dropWhile is_whitespace (chars s))"

definition trim :: "bytes \<Rightarrow> bytes" where
  "trim s = concat (rev (dropWhile is_whitespace (rev (dropWhile is_whitespace (chars s)))))"

text \<open>\<^verbatim>\<open>str::lines\<close>: a carriage return is removed only before the newline.\<close>

definition strip_cr :: "bytes \<Rightarrow> bytes" where
  "strip_cr l = (if l \<noteq> [] \<and> last l = 0x0D then butlast l else l)"

function lines :: "bytes \<Rightarrow> bytes list" where
  "lines s =
     (if s = [] then []
      else case split_once 0x0A s of None \<Rightarrow> [s] | Some (l, rest) \<Rightarrow> strip_cr l # lines rest)"
  by auto
termination by (relation "measure length") (auto simp: split_once_Some)

declare lines.simps [simp del]

text \<open>\<^verbatim>\<open>join\<close> on a slice of strings.\<close>

fun join :: "bytes \<Rightarrow> bytes list \<Rightarrow> bytes" where
  "join sep [] = []"
| "join sep [x] = x"
| "join sep (x # y # ys) = x @ sep @ join sep (y # ys)"

section \<open>Web references\<close>

text \<open>The three states of the scanner, with the field it fills.\<close>

datatype ref_state = InTitle | InUrl | InChunk

fun scan_ref :: "ref_state \<Rightarrow> bytes list \<Rightarrow> web_reference \<Rightarrow> web_reference" where
  "scan_ref state [] r = r"
| "scan_ref InTitle (c # cs) r =
     (if c = [0x5D] then (case cs of d # ds \<Rightarrow> if d = [0x28] then scan_ref InUrl ds r else r | [] \<Rightarrow> r)
      else scan_ref InTitle cs (r\<lparr>wr_title := wr_title r @ c\<rparr>))"
| "scan_ref InUrl (c # cs) r =
     (if c = [0x29] then (case cs of d # ds \<Rightarrow> if d = [0x3C] then scan_ref InChunk ds r else r | [] \<Rightarrow> r)
      else scan_ref InUrl cs (r\<lparr>wr_url := wr_url r @ c\<rparr>))"
| "scan_ref InChunk (c # cs) r =
     (if c = [0x3E] then r else scan_ref InChunk cs (r\<lparr>wr_chunk := wr_chunk r @ c\<rparr>))"

text \<open>The number is skipped up to and with the first dot; a line without a bracket behind it has no reference.\<close>

definition parse_ref_line :: "bytes \<Rightarrow> web_reference option" where
  "parse_ref_line line =
     (let remaining = trim_start (concat (drop 1 (dropWhile (\<lambda>c. c \<noteq> [0x2E]) (chars line))))
      in case chars remaining of
           [] \<Rightarrow> None
         | c # cs \<Rightarrow> if c = [0x5B] then Some (scan_ref InTitle cs \<lparr>wr_title = [], wr_url = [], wr_chunk = []\<rparr>) else None)"

fun parse_ref_lines :: "bytes list \<Rightarrow> web_reference list" where
  "parse_ref_lines [] = []"
| "parse_ref_lines (line # ls) =
     (let line = trim line
      in if line = [] then []
         else case parse_ref_line line of Some r \<Rightarrow> r # parse_ref_lines ls | None \<Rightarrow> parse_ref_lines ls)"

definition parse_web_references :: "bytes \<Rightarrow> web_reference list" where
  "parse_web_references text = parse_ref_lines (drop 1 (lines text))"

definition extract_web_references_info :: "bytes \<Rightarrow> bytes \<times> web_reference list \<times> bool" where
  "extract_web_references_info text =
     (if strip_prefix (bytes_of ''WebReferences:'') text \<noteq> None
      then (case split_once_str [0x0A, 0x0A] text of
              Some (web_refs_text, content_text) \<Rightarrow>
                let web_refs = parse_web_references web_refs_text in (content_text, web_refs, web_refs \<noteq> [])
            | None \<Rightarrow> (text, [], False))
      else (text, [], False))"

section \<open>Links and identifiers\<close>

type_synonym u16 = "16 word"

text \<open>\<^verbatim>\<open>BaseUuid\<close> is its counter; the first value is random.\<close>

definition add_and_to_string :: "u16 \<Rightarrow> bytes \<times> u16" where
  "add_and_to_string i = (show_nat (unat i), i + 1)"

record external_link =
  el_url :: bytes
  el_uuid :: bytes

text \<open>\<open>scheme\<close> is \<^verbatim>\<open>url::Url::parse\<close> with \<^verbatim>\<open>scheme()\<close>.\<close>

fun extract_links ::
  "(bytes \<Rightarrow> bytes option) \<Rightarrow> bytes list \<Rightarrow> u16 \<Rightarrow> external_link list \<times> u16" where
  "extract_links scheme [] u = ([], u)"
| "extract_links scheme (c # cs) u =
     (if c = [0x40] then
        let url = concat (takeWhile (\<lambda>c. \<not> is_whitespace c) cs);
            rest = dropWhile (\<lambda>c. \<not> is_whitespace c) cs
        in if url \<noteq> [] \<and> (scheme url = Some (bytes_of ''http'') \<or> scheme url = Some (bytes_of ''https''))
           then let (uuid, u) = add_and_to_string u; (links, u) = extract_links scheme rest u
                in (\<lparr>el_url = url, el_uuid = uuid\<rparr> # links, u)
           else extract_links scheme rest u
      else extract_links scheme cs u)"

definition extract_external_links :: "(bytes \<Rightarrow> bytes option) \<Rightarrow> bytes \<Rightarrow> u16 \<Rightarrow> external_link list \<times> u16" where
  "extract_external_links scheme text u = extract_links scheme (chars text) u"

text \<open>What the links of a text are: of every word what follows its first \<^verbatim>\<open>@\<close>, when that is a web address.\<close>

fun words_of :: "bytes list \<Rightarrow> bytes list list" where
  "words_of [] = []"
| "words_of (c # cs) =
     (if is_whitespace c then words_of cs
      else (c # takeWhile (\<lambda>c. \<not> is_whitespace c) cs) # words_of (dropWhile (\<lambda>c. \<not> is_whitespace c) cs))"

definition word_link :: "(bytes \<Rightarrow> bytes option) \<Rightarrow> bytes list \<Rightarrow> bytes list" where
  "word_link scheme w =
     (let url = concat (drop 1 (dropWhile (\<lambda>c. c \<noteq> [0x40]) w))
      in if url \<noteq> [] \<and> (scheme url = Some (bytes_of ''http'') \<or> scheme url = Some (bytes_of ''https'')) then [url] else [])"

definition link_urls :: "(bytes \<Rightarrow> bytes option) \<Rightarrow> bytes \<Rightarrow> bytes list" where
  "link_urls scheme text = concat (map (word_link scheme) (words_of (chars text)))"

lemma word_link_simps:
  "word_link scheme [] = []" "c \<noteq> [0x40] \<Longrightarrow> word_link scheme (c # w) = word_link scheme w"
  "word_link scheme ([0x40] # w) =
     (if concat w \<noteq> [] \<and> (scheme (concat w) = Some (bytes_of ''http'') \<or> scheme (concat w) = Some (bytes_of ''https''))
      then [concat w] else [])"
  by (simp_all add: word_link_def)

lemma words_of_split:
  "concat (map (word_link scheme) (words_of cs)) =
     word_link scheme (takeWhile (\<lambda>c. \<not> is_whitespace c) cs)
     @ concat (map (word_link scheme) (words_of (dropWhile (\<lambda>c. \<not> is_whitespace c) cs)))"
  by (cases cs) (simp_all add: word_link_simps)

lemma extract_links_urls: "map el_url (fst (extract_links scheme cs u)) = concat (map (word_link scheme) (words_of cs))"
proof (induction scheme cs u rule: extract_links.induct)
  case (2 scheme c cs u)
  have at: "\<not> is_whitespace [0x40]" by (simp add: is_whitespace_def WHITE_SPACE_def)
  show ?case
  proof (cases "c = [0x40]")
    case True
    with 2(1,2) [OF True refl refl] at show ?thesis
      by (cases "extract_links scheme (dropWhile (\<lambda>c. \<not> is_whitespace c) cs) (u + 1)")
         (simp add: word_link_simps Let_def add_and_to_string_def del: concat_eq_Nil_conv)
  next
    case False
    with 2 show ?thesis
      using words_of_split [of scheme cs] by (cases "is_whitespace c") (simp_all add: word_link_simps)
  qed
qed simp

lemma external_link_urls: "extract_external_links scheme text u = (links, u') \<Longrightarrow> map el_url links = link_urls scheme text"
  using extract_links_urls [of scheme "chars text" u] by (simp add: extract_external_links_def link_urls_def)

definition to_opt :: "bool \<Rightarrow> bool option" where
  "to_opt b = (if b then Some True else None)"

definition is_ascii_alphanumeric :: "bytes \<Rightarrow> bool" where
  "is_ascii_alphanumeric c \<longleftrightarrow>
     (case c of [b] \<Rightarrow> 0x30 \<le> b \<and> b \<le> 0x39 \<or> 0x41 \<le> b \<and> b \<le> 0x5A \<or> 0x61 \<le> b \<and> b \<le> 0x7A | _ \<Rightarrow> False)"

definition sanitize_char :: "bytes \<Rightarrow> bytes" where
  "sanitize_char c =
     (if c = [0x2E] then [0x5F]
      else if is_whitespace c then [0x5F]
      else if is_ascii_alphanumeric c \<or> c = [0x5F] \<or> c = [0x2D] then c
      else [])"

definition sanitize_tool_name :: "bytes \<Rightarrow> bytes" where
  "sanitize_tool_name input = concat (map sanitize_char (chars input))"

section \<open>Facts about characters\<close>

lemma concat_chars [simp]: "concat (chars s) = s"
  by (induction s rule: chars.induct) simp_all

lemma char_start_simps [simp]: "char_start []" "char_start (b # s) \<longleftrightarrow> \<not> is_continuation b"
  by (simp_all add: char_start_def)

lemma takeWhile_start:
  "char_start t \<Longrightarrow> takeWhile is_continuation (s @ t) = takeWhile is_continuation s"
  "char_start t \<Longrightarrow> dropWhile is_continuation (s @ t) = dropWhile is_continuation s @ t"
  by (induction s; cases t; auto)+

lemma chars_append: "char_start t \<Longrightarrow> chars (s @ t) = chars s @ chars t"
  by (induction s rule: chars.induct) (simp_all add: takeWhile_start)

lemma chars_Cons_start: "char_start t \<Longrightarrow> chars (b # t) = [b] # chars t"
  using takeWhile_start [of t "[]"] by simp

lemma singleton_char: "[b] \<in> set (chars s) \<Longrightarrow> b \<in> set s"
  by (metis concat_chars concat_map_singleton in_set_conv_decomp concat_append concat.simps(2) append_Cons append_Nil list.set_intros(1) Un_iff set_append)

section \<open>Printing and parsing references\<close>

text \<open>The lines the decoder prints, and what keeps them apart: valid strings without the delimiter that ends
  their field and without newlines.\<close>

definition ref_line :: "nat \<Rightarrow> web_reference \<Rightarrow> bytes" where
  "ref_line i r =
     show_nat i @ bytes_of ''. ['' @ wr_title r @ bytes_of '']('' @ wr_url r @ bytes_of '')<'' @ wr_chunk r @ bytes_of ''>''"

fun ref_lines :: "nat \<Rightarrow> web_reference list \<Rightarrow> bytes list" where
  "ref_lines i [] = []"
| "ref_lines i (r # rs) = ref_line (i + 1) r # ref_lines (i + 1) rs"

definition clean_text :: "u8 \<Rightarrow> bytes \<Rightarrow> bool" where
  "clean_text stop s \<longleftrightarrow> char_start s \<and> stop \<notin> set s \<and> 0x0A \<notin> set s"

definition clean_ref :: "web_reference \<Rightarrow> bool" where
  "clean_ref r \<longleftrightarrow> clean_text 0x5D (wr_title r) \<and> clean_text 0x29 (wr_url r) \<and> clean_text 0x3E (wr_chunk r)"

lemma ascii_simps [simp]:
  "\<not> is_continuation 0x0A" "\<not> is_continuation 0x20" "\<not> is_continuation 0x28" "\<not> is_continuation 0x29" "\<not> is_continuation 0x2E"
  "\<not> is_continuation 0x3C" "\<not> is_continuation 0x3E" "\<not> is_continuation 0x5B" "\<not> is_continuation 0x5D"
  by (simp_all add: is_continuation_def)

lemma web_ref_parts_lines: "rs \<noteq> [] \<Longrightarrow> web_ref_parts i rs = join [0x0A] (ref_lines i rs) @ [0x0A]"
proof (induction rs arbitrary: i)
  case (Cons r rs)
  then show ?case by (cases rs) (simp_all add: ref_line_def)
qed simp

lemma scan_title:
  "[0x5D] \<notin> set cs \<Longrightarrow> scan_ref InTitle (cs @ [0x5D] # [0x28] # ds) r = scan_ref InUrl ds (r\<lparr>wr_title := wr_title r @ concat cs\<rparr>)"
  by (induction cs arbitrary: r) auto

lemma scan_url:
  "[0x29] \<notin> set cs \<Longrightarrow> scan_ref InUrl (cs @ [0x29] # [0x3C] # ds) r = scan_ref InChunk ds (r\<lparr>wr_url := wr_url r @ concat cs\<rparr>)"
  by (induction cs arbitrary: r) auto

lemma scan_chunk:
  "[0x3E] \<notin> set cs \<Longrightarrow> scan_ref InChunk (cs @ [0x3E] # ds) r = r\<lparr>wr_chunk := wr_chunk r @ concat cs\<rparr>"
  by (induction cs arbitrary: r) auto

lemma chars_field:
  assumes "clean_text stop s" "char_start t"
  shows "chars (s @ t) = chars s @ chars t" "[stop] \<notin> set (chars s)"
  using assms singleton_char by (auto simp: clean_text_def chars_append)

text \<open>The characters of a number are digits.\<close>

lemma continuation_ge: "is_continuation b \<Longrightarrow> 0x80 \<le> b"
  unfolding is_continuation_def by (metis word_and_le1 and.commute)

lemma digit_not_continuation: "is_ascii_digit b \<Longrightarrow> \<not> is_continuation b"
  unfolding is_ascii_digit_def by (auto dest!: continuation_ge dest: order_trans [of "0x80" b "0x39"])

lemma chars_digits: "\<forall>b \<in> set s. is_ascii_digit b \<Longrightarrow> chars s = map (\<lambda>b. [b]) s"
proof (induction s)
  case (Cons b s)
  then have "char_start s" by (cases s) (auto simp: digit_not_continuation)
  with Cons show ?case by (simp add: chars_Cons_start del: chars.simps)
qed simp

lemma ref_line_facts:
  assumes "clean_ref r"
  shows "0x0A \<notin> set (ref_line i r)" "ref_line i r \<noteq> []" "last (ref_line i r) = 0x3E"
  using assms show_nat_digits [of "0x0A" i]
  by (auto simp: ref_line_def bytes_of_def clean_ref_def clean_text_def is_ascii_digit_def)

lemma ref_line_chars:
  assumes "clean_ref r"
  shows "chars (ref_line i r) = map (\<lambda>b. [b]) (show_nat i) @ [0x2E] # [0x20] # [0x5B]
    # chars (wr_title r) @ [0x5D] # [0x28] # chars (wr_url r) @ [0x29] # [0x3C] # chars (wr_chunk r) @ [[0x3E]]"
proof -
  let ?c = "wr_chunk r @ [0x3E]" let ?u = "wr_url r @ 0x29 # 0x3C # ?c" let ?t = "wr_title r @ 0x5D # 0x28 # ?u"
  have 1: "clean_text 0x5D (wr_title r)" "clean_text 0x29 (wr_url r)" "clean_text 0x3E (wr_chunk r)"
    using assms by (simp_all add: clean_ref_def)
  then have s: "char_start ?c" "char_start ?u" "char_start ?t" by (simp_all add: clean_text_def)
  have "chars ?t = chars (wr_title r) @ [0x5D] # [0x28] # chars (wr_url r) @ [0x29] # [0x3C] # chars (wr_chunk r) @ [[0x3E]]"
    using 1 s by (simp add: chars_field chars_Cons_start del: chars.simps(2))
  moreover have "ref_line i r = show_nat i @ 0x2E # 0x20 # 0x5B # ?t"
    by (simp add: ref_line_def bytes_of_def)
  moreover have "chars (show_nat i) = map (\<lambda>b. [b]) (show_nat i)"
    by (rule chars_digits) (simp add: show_nat_digits)
  ultimately show ?thesis using s by (simp add: chars_append chars_Cons_start del: chars.simps(2))
qed

text \<open>Printed lines are not changed by trimming, and give their reference back.\<close>

lemma ascii_not_whitespace: "\<not> is_whitespace [0x3E]" "\<not> is_whitespace [0x5B]" "is_whitespace [0x20]"
  by (simp_all add: is_whitespace_def WHITE_SPACE_def)

lemma digit_not_whitespace: "is_ascii_digit b \<Longrightarrow> \<not> is_whitespace [b]"
  by (auto simp: is_whitespace_def WHITE_SPACE_def is_ascii_digit_def)

lemma trim_ref_line:
  assumes "clean_ref r"
  shows "trim (ref_line i r) = ref_line i r"
proof -
  obtain b bs where b: "show_nat i = b # bs" using show_nat_nonempty [of i] by (cases "show_nat i") auto
  then have 1: "\<not> is_whitespace [b]" using show_nat_digits [of b i] digit_not_whitespace by simp
  have "dropWhile is_whitespace (chars (ref_line i r)) = chars (ref_line i r)"
    unfolding ref_line_chars [OF assms] b using 1 by simp
  moreover have "dropWhile is_whitespace (rev (chars (ref_line i r))) = rev (chars (ref_line i r))"
    unfolding ref_line_chars [OF assms] by (simp add: ascii_not_whitespace)
  ultimately show ?thesis by (simp add: trim_def)
qed

lemma parse_ref_line_ref_line:
  assumes "clean_ref r"
  shows "parse_ref_line (ref_line i r) = Some r"
proof -
  have c: "clean_text 0x5D (wr_title r)" "clean_text 0x29 (wr_url r)" "clean_text 0x3E (wr_chunk r)"
    using assms by (simp_all add: clean_ref_def)
  let ?rest = "wr_title r @ 0x5D # 0x28 # wr_url r @ 0x29 # 0x3C # wr_chunk r @ [0x3E]"
  let ?cs = "chars (wr_title r) @ [0x5D] # [0x28] # chars (wr_url r) @ [0x29] # [0x3C] # chars (wr_chunk r) @ [[0x3E]]"
  have "\<forall>c \<in> set (map (\<lambda>b. [b]) (show_nat i)). c \<noteq> [0x2E]"
    using show_nat_digits [of "0x2E" i] by (auto simp: is_ascii_digit_def)
  then have d: "drop 1 (dropWhile (\<lambda>c. c \<noteq> [0x2E]) (chars (ref_line i r))) = [0x20] # [0x5B] # ?cs"
    unfolding ref_line_chars [OF assms] by (subst dropWhile_append2) auto
  have s: "char_start ?rest" "char_start (wr_url r @ 0x29 # 0x3C # wr_chunk r @ [0x3E])" "char_start (wr_chunk r @ [0x3E])"
    using c by (simp_all add: clean_text_def)
  have t: "trim_start (0x20 # 0x5B # ?rest) = 0x5B # ?rest"
    using s by (simp add: trim_start_def chars_Cons_start ascii_not_whitespace del: chars.simps(2))
  have cs: "chars (0x5B # ?rest) = [0x5B] # ?cs"
    using s c by (simp add: chars_field chars_Cons_start del: chars.simps(2))
  have "scan_ref InTitle ?cs \<lparr>wr_title = [], wr_url = [], wr_chunk = []\<rparr> = r"
    using c by (simp add: scan_title scan_url scan_chunk chars_field(2) [OF _ char_start_simps(1)])
  then show ?thesis
    unfolding parse_ref_line_def d using t cs by (simp del: chars.simps(2))
qed

lemma parse_ref_lines_ref_lines: "\<forall>r \<in> set rs. clean_ref r \<Longrightarrow> parse_ref_lines (ref_lines i rs) = rs"
  by (induction rs arbitrary: i) (simp_all add: trim_ref_line parse_ref_line_ref_line ref_line_facts)

text \<open>Lines joined by newlines are split at them again, and hold no empty line.\<close>

lemma lines_join:
  "\<forall>l \<in> set ls. 0x0A \<notin> set l \<and> l \<noteq> [] \<and> last l \<noteq> 0x0D \<Longrightarrow> lines (join [0x0A] ls) = ls"
proof (induction ls rule: induct_list012)
  case (2 l)
  then have "split_once 0x0A l = None" by (simp add: split_once_None)
  with 2 show ?case by (subst lines.simps) simp
next
  case (3 l m ls)
  then have "lines (join [0x0A] (l # m # ls)) = strip_cr l # lines (join [0x0A] (m # ls))"
    by (subst lines.simps) simp
  with 3 show ?case by (simp add: strip_cr_def)
qed (simp add: lines.simps)

lemma split_blank_prefix:
  "0x0A \<notin> set l \<Longrightarrow> split_once_str [0x0A, 0x0A] (l @ s) = map_option (\<lambda>(x, y). (l @ x, y)) (split_once_str [0x0A, 0x0A] s)"
proof (induction l)
  case Nil
  show ?case by (simp add: option.map_ident case_prod_eta)
next
  case (Cons b l)
  then have "strip_prefix [0x0A, 0x0A] (b # l @ s) = None" by (auto simp: strip_prefix_def)
  with Cons show ?case by (simp add: option.map_comp o_def case_prod_unfold)
qed

lemma split_blank_join:
  "ls \<noteq> [] \<Longrightarrow> \<forall>l \<in> set ls. 0x0A \<notin> set l \<and> l \<noteq> [] \<Longrightarrow>
     split_once_str [0x0A, 0x0A] (join [0x0A] ls @ 0x0A # 0x0A # y) = Some (join [0x0A] ls, y)"
proof (induction ls rule: induct_list012)
  case (2 l)
  then show ?case by (simp add: split_blank_prefix strip_prefix_def)
next
  case (3 l m ls)
  obtain c t where m: "join [0x0A] (m # ls) = c # t" "c \<noteq> 0x0A"
    using 3(4) by (cases m; cases ls) auto
  from 3 have "split_once_str [0x0A, 0x0A] (join [0x0A] (m # ls) @ 0x0A # 0x0A # y) = Some (join [0x0A] (m # ls), y)" by simp
  then have "split_once_str [0x0A, 0x0A] (0x0A # join [0x0A] (m # ls) @ 0x0A # 0x0A # y) = Some (0x0A # join [0x0A] (m # ls), y)"
    using m by (simp add: strip_prefix_def)
  with 3(4) show ?case by (simp add: split_blank_prefix)
qed simp

lemma ref_lines_facts:
  assumes "\<forall>r \<in> set rs. clean_ref r" "l \<in> set (ref_lines i rs)"
  shows "0x0A \<notin> set l \<and> l \<noteq> [] \<and> last l = 0x3E"
  using assms by (induction rs arbitrary: i) (auto simp: ref_line_facts)

section \<open>Identifiers\<close>

text \<open>The identifiers of links are the numbers the counter passes, in order.\<close>

lemma extract_links_uuids:
  "extract_links scheme cs u = (links, u') \<Longrightarrow>
     u' = u + of_nat (length links) \<and> map el_uuid links = map (\<lambda>i. show_nat (unat (u + of_nat i))) [0..<length links]"
proof (induction scheme cs u arbitrary: links u' rule: extract_links.induct)
  case (2 scheme c cs u)
  let ?url = "concat (takeWhile (\<lambda>c. \<not> is_whitespace c) cs)" and ?rest = "dropWhile (\<lambda>c. \<not> is_whitespace c) cs"
  let ?ok = "?url \<noteq> [] \<and> (scheme ?url = Some (bytes_of ''http'') \<or> scheme ?url = Some (bytes_of ''https''))"
  show ?case
  proof (cases "c = [0x40] \<and> ?ok")
    case True
    obtain ls where ls: "extract_links scheme ?rest (u + 1) = (ls, u')" "links = \<lparr>el_url = ?url, el_uuid = show_nat (unat u)\<rparr> # ls"
      using 2(4) True by (auto simp: Let_def add_and_to_string_def split: prod.splits)
    then have "u' = (u + 1) + of_nat (length ls) \<and> map el_uuid ls = map (\<lambda>i. show_nat (unat ((u + 1) + of_nat i))) [0..<length ls]"
      using 2(1) True by (simp add: add_and_to_string_def)
    with ls(2) show ?thesis
      by (simp add: upt_conv_Cons map_Suc_upt [symmetric] add.assoc del: upt_Suc)
  next
    case False
    with 2 show ?thesis by (auto simp: Let_def split: if_splits)
  qed
qed simp

section \<open>Properties\<close>



section \<open>What goes wrong\<close>

text \<open>The chunk of a reference is text of a web page.  An empty line in it ends the references, and the rest of the
  page becomes part of the answer.\<close>

theorem blank_line_in_chunk:
  "\<exists>printed. convert_web_ref_to_content (WebReference
       [\<lparr>wr_title = bytes_of ''A'', wr_url = bytes_of ''http://a.b'', wr_chunk = bytes_of ''p'' @ [0x0A, 0x0A] @ bytes_of ''q''\<rparr>]) = Content printed
     \<and> extract_web_references_info (printed @ bytes_of ''Hello'')
       = (bytes_of ''q>'' @ [0x0A, 0x0A] @ bytes_of ''Hello'',
          [\<lparr>wr_title = bytes_of ''A'', wr_url = bytes_of ''http://a.b'', wr_chunk = bytes_of ''p''\<rparr>], True)"
  by (rule exI [of _ "bytes_of ''WebReferences:'' @ [0x0A] @ bytes_of ''1. [A](http://a.b)<p'' @ [0x0A, 0x0A] @ bytes_of ''q>'' @ [0x0A, 0x0A]"]) code_simp

end
