(* ===== verification/Instructions.thy ===== *)
theory Instructions
  imports Adapter
begin

text \<open>
  The instructions of a conversation: the template of \<^verbatim>\<open>src/app/model/default_instructions.rs\<close> with the
  time of the request, \<^verbatim>\<open>src/app/model/context_fill_mode.rs\<close>, which decides the fields they are sent in,
  and the iterator of \<^verbatim>\<open>crates/rep_move\<close> it uses.

  The template is expanded once at the start, with a time of the right length in every place, and the
  time of each request is copied over these places through raw pointers.  The formatted times are
  parameters.
\<close>

section \<open>The template\<close>

definition DEFAULT :: bytes where
  "DEFAULT =
     bytes_of ''Respond in Chinese by default'' @ [0x0A] @ bytes_of ''<|END_USER|>'' @ [0x0A, 0x0A]
     @ bytes_of ''<|BEGIN_ASSISTANT|>'' @ [0x0A, 0x0A, 0x0A] @ bytes_of ''Your will'' @ [0x0A] @ bytes_of ''<|END_ASSISTANT|>''
     @ [0x0A, 0x0A] @ bytes_of ''<|BEGIN_USER|>'' @ [0x0A, 0x0A, 0x0A] @ bytes_of ''The current date is {{currentDateTime}}''"

definition PLACEHOLDER :: bytes where
  "PLACEHOLDER = take 19 (drop (length DEFAULT - 19) DEFAULT)"

text \<open>\<^verbatim>\<open>match_indices\<close> for a pattern that is not empty: the disjoint occurrences from the left, as offsets
  from the start of the string.\<close>

fun match_indices :: "bytes \<Rightarrow> nat \<Rightarrow> bytes \<Rightarrow> nat list" where
  "match_indices pat i [] = []"
| "match_indices pat i (b # bs) =
     (if pat \<noteq> [] \<and> take (length pat) (b # bs) = pat
      then i # match_indices pat (i + length pat) (drop (length pat) (b # bs))
      else match_indices pat (i + 1) bs)"

text \<open>\<^verbatim>\<open>str::get_unchecked(a..b)\<close>\<close>

definition str_slice_unchecked :: "bytes \<Rightarrow> nat \<Rightarrow> nat \<Rightarrow> bytes ub" where
  "str_slice_unchecked s a b =
     (if a \<le> b \<and> b \<le> length s \<and> is_char_boundary s a \<and> is_char_boundary s b then Some (take (b - a) (drop a s)) else None)"

fun replace_loop :: "bytes \<Rightarrow> bytes \<Rightarrow> bytes \<Rightarrow> nat list \<Rightarrow> bytes \<Rightarrow> nat list \<Rightarrow> nat \<Rightarrow> (bytes \<times> nat list) ub" where
  "replace_loop src from to [] string indexes last_end = do {
     part \<leftarrow> str_slice_unchecked src last_end (length src);
     Some (string @ part, indexes)
   }"
| "replace_loop src from to (start # starts) string indexes last_end = do {
     part \<leftarrow> str_slice_unchecked src last_end start;
     let string = string @ part;
     let indexes = indexes @ [length string];
     replace_loop src from to starts (string @ to) indexes (start + length from)
   }"

definition replace_marked :: "bytes \<Rightarrow> bytes \<Rightarrow> bytes \<Rightarrow> (bytes \<times> nat list) ub" where
  "replace_marked src from to = replace_loop src from to (match_indices from 0 src) [] [] 0"

record default_instructions =
  template_z :: bytes
  indexes_z :: "nat list"
  template :: bytes
  indexes :: "nat list"

text \<open>\<open>z\<close> and \<open>t\<close> are the texts of the start time, with \<^verbatim>\<open>Z\<close> and with an offset.\<close>

definition instructions_init :: "bytes \<Rightarrow> bytes \<Rightarrow> bytes \<Rightarrow> default_instructions ub" where
  "instructions_init s z t =
     (if length z = 24 \<and> length t = 29 then do {
        (tz, iz) \<leftarrow> replace_marked s PLACEHOLDER z;
        (tt, it) \<leftarrow> replace_marked s PLACEHOLDER t;
        Some \<lparr>template_z = tz, indexes_z = iz, template = tt, indexes = it\<rparr>
      } else None)"

text \<open>\<^verbatim>\<open>copy_nonoverlapping\<close> of \<open>n\<close> bytes to offset \<open>i\<close>\<close>

definition copy_into :: "bytes \<Rightarrow> nat \<Rightarrow> nat \<Rightarrow> bytes \<Rightarrow> bytes ub" where
  "copy_into src n i dst =
     (if n \<le> length src \<and> i + n \<le> length dst then Some (take i dst @ take n src @ drop (i + n) dst) else None)"

fun copy_all :: "bytes \<Rightarrow> nat \<Rightarrow> nat list \<Rightarrow> bytes \<Rightarrow> bytes ub" where
  "copy_all src n [] dst = Some dst"
| "copy_all src n (i # is) dst = do { dst \<leftarrow> copy_into src n i dst; copy_all src n is dst }"

definition instructions_get :: "default_instructions \<Rightarrow> bytes \<Rightarrow> bytes ub" where
  "instructions_get d time =
     (if length time = 24 then copy_all time 24 (indexes_z d) (template_z d)
      else if length time = 29 then copy_all time 29 (indexes d) (template d)
      else None)"

section \<open>Repeated moves\<close>

text \<open>\<^verbatim>\<open>RepMove\<close> with \<^verbatim>\<open>Clone::clone\<close>\<close>

datatype 'a rep_move = Active 'a nat | Done

definition rep_new :: "'a \<Rightarrow> nat \<Rightarrow> 'a rep_move" where
  "rep_new source count = (if count = 0 then Done else Active source (count - 1))"

definition rep_next :: "'a rep_move \<Rightarrow> 'a option \<times> 'a rep_move" where
  "rep_next state =
     (case state of
        Active source remaining \<Rightarrow>
          if remaining > 0 then (Some source, Active source (remaining - 1)) else (Some source, Done)
      | Done \<Rightarrow> (None, Done))"

definition rep_len :: "'a rep_move \<Rightarrow> nat" where
  "rep_len state = (case state of Active _ remaining \<Rightarrow> remaining + 1 | Done \<Rightarrow> 0)"

section \<open>The fields\<close>

record context_fill_mode =
  cfm_context :: bool
  cfm_repo_context :: bool
  cfm_mode_specific_context :: bool

definition from_bits :: "u8 \<Rightarrow> context_fill_mode" where
  "from_bits b =
     \<lparr>cfm_context = (b AND 1 \<noteq> 0), cfm_repo_context = (b AND 2 \<noteq> 0), cfm_mode_specific_context = (b AND 4 \<noteq> 0)\<rparr>"

record explicit_context =
  ec_context :: bytes
  ec_repo_context :: "bytes option"
  ec_mode_specific_context :: "bytes option"

text \<open>\<^term>\<open>None\<close> is the panic of \<^verbatim>\<open>iter.next().unwrap()\<close>.\<close>

definition create_explicit_context :: "context_fill_mode \<Rightarrow> bytes \<Rightarrow> explicit_context option ub" where
  "create_explicit_context mode instructions =
     (if trim instructions = [] then Some None
      else let count = of_bool (cfm_context mode) + of_bool (cfm_repo_context mode) + of_bool (cfm_mode_specific_context mode) :: nat;
               ctx = \<lparr>ec_context = [], ec_repo_context = None, ec_mode_specific_context = None\<rparr>
           in if count = 0 then Some None
              else if count = 1 then
                Some (Some (if cfm_context mode then ctx\<lparr>ec_context := instructions\<rparr>
                            else if cfm_repo_context mode then ctx\<lparr>ec_repo_context := Some instructions\<rparr>
                            else ctx\<lparr>ec_mode_specific_context := Some instructions\<rparr>))
              else do {
                let it = rep_new instructions count;
                (c, it) \<leftarrow> (if cfm_context mode
                            then case rep_next it of (Some x, it) \<Rightarrow> Some (x, it) | (None, it) \<Rightarrow> None
                            else Some ([], it));
                let (r, it) = (if cfm_repo_context mode then rep_next it else (None, it));
                let (m, it) = (if cfm_mode_specific_context mode then rep_next it else (None, it));
                Some (Some \<lparr>ec_context = c, ec_repo_context = r, ec_mode_specific_context = m\<rparr>)
              })"

section \<open>Valid strings\<close>

definition valid_char :: "bytes \<Rightarrow> bool" where
  "valid_char c \<longleftrightarrow>
     (case c of
        [a] \<Rightarrow> a < 0x80
      | [a, b] \<Rightarrow> 0xC2 \<le> a \<and> a \<le> 0xDF
      | [a, b, c] \<Rightarrow> 0xE0 \<le> a \<and> a \<le> 0xEF \<and> (a = 0xE0 \<longrightarrow> 0xA0 \<le> b) \<and> (a = 0xED \<longrightarrow> b \<le> 0x9F)
      | [a, b, c, d] \<Rightarrow> 0xF0 \<le> a \<and> a \<le> 0xF4 \<and> (a = 0xF0 \<longrightarrow> 0x90 \<le> b) \<and> (a = 0xF4 \<longrightarrow> b \<le> 0x8F)
      | _ \<Rightarrow> False)"

definition valid_utf8 :: "bytes \<Rightarrow> bool" where
  "valid_utf8 s \<longleftrightarrow> char_start s \<and> list_all valid_char (chars s)"

lemma ascii_start: "a < 0x80 \<Longrightarrow> \<not> is_continuation a"
  using continuation_ge [of a] by auto

lemma valid_after_ascii:
  assumes "valid_utf8 (x @ a # y)" "a < 0x80"
  shows "char_start y"
proof (rule ccontr)
  assume "\<not> char_start y"
  then obtain c z where y: "y = c # z" "is_continuation c" by (cases y) auto
  have "chars (x @ a # y) = chars x @ chars (a # y)"
    using assms(2) by (simp add: chars_append ascii_start del: chars.simps(2))
  moreover have "chars (a # y) = (a # c # takeWhile is_continuation z) # chars (dropWhile is_continuation z)"
    using y by simp
  ultimately have "valid_char (a # c # takeWhile is_continuation z)"
    using assms(1) by (simp add: valid_utf8_def del: chars.simps(2))
  moreover have "\<not> 0xC2 \<le> a" "\<not> 0xE0 \<le> a" "\<not> 0xF0 \<le> a"
    using assms(2) by (auto dest: order.strict_trans1)
  ultimately show False by (auto simp: valid_char_def split: list.splits)
qed

section \<open>Replacing\<close>

text \<open>The plain replacement of all occurrences, and where the replacements start in its result.\<close>

fun replace_all :: "bytes \<Rightarrow> bytes \<Rightarrow> bytes \<Rightarrow> bytes" where
  "replace_all pat to [] = []"
| "replace_all pat to (b # bs) =
     (if pat \<noteq> [] \<and> take (length pat) (b # bs) = pat
      then to @ replace_all pat to (drop (length pat) (b # bs))
      else b # replace_all pat to bs)"

fun out_indices :: "bytes \<Rightarrow> nat \<Rightarrow> nat \<Rightarrow> bytes \<Rightarrow> nat list" where
  "out_indices pat n k [] = []"
| "out_indices pat n k (b # bs) =
     (if pat \<noteq> [] \<and> take (length pat) (b # bs) = pat
      then k # out_indices pat n (k + n) (drop (length pat) (b # bs))
      else out_indices pat n (k + 1) bs)"

lemma at_match:
  assumes "pat \<noteq> []"
  shows "replace_all pat to (pat @ r) = to @ replace_all pat to r"
    "out_indices pat n k (pat @ r) = k # out_indices pat n (k + n) r"
    "match_indices pat i (pat @ r) = i # match_indices pat (i + length pat) r"
  using assms by (cases pat; simp)+

lemma no_match:
  assumes "\<not> (pat \<noteq> [] \<and> take (length pat) (b # bs) = pat)"
  shows "replace_all pat to (b # bs) = b # replace_all pat to bs" "out_indices pat n k (b # bs) = out_indices pat n (k + 1) bs"
  using assms by auto

lemma boundary_append: "char_start t \<Longrightarrow> is_char_boundary (p @ t) (length p)"
  by (cases t) (simp_all add: is_char_boundary_def)

lemma slice_between:
  assumes "char_start (m @ t)" "char_start t"
  shows "str_slice_unchecked (p @ m @ t) (length p) (length p + length m) = Some m"
proof -
  have "is_char_boundary (p @ m @ t) (length p)" "is_char_boundary (p @ m @ t) (length p + length m)"
    using boundary_append [OF assms(1), of p] boundary_append [OF assms(2), of "p @ m"] by simp_all
  then show ?thesis by (simp add: str_slice_unchecked_def)
qed

text \<open>The loop, with the text \<open>p\<close> before the last end and \<open>m\<close> scanned since.\<close>

lemma replace_loop_eq:
  assumes "valid_utf8 (p @ m @ t)" "char_start (m @ t)" "pat \<noteq> []" "hd pat < 0x80" "last pat < 0x80"
  shows "replace_loop (p @ m @ t) pat to (match_indices pat (length p + length m) t) string ixs (length p)
    = Some (string @ m @ replace_all pat to t, ixs @ out_indices pat (length to) (length string + length m) t)"
  using assms
proof (induction "length t" arbitrary: t p m string ixs rule: less_induct)
  case less
  show ?case
  proof (cases t)
    case Nil
    with less.prems slice_between [of m "[]" p] show ?thesis by simp
  next
    case (Cons b bs)
    show ?thesis
    proof (cases "take (length pat) t = pat")
      case True
      then obtain r where t: "t = pat @ r" by (metis append_take_drop_id)
      have start: "char_start t" using less.prems(3,4) t by (cases pat) (auto simp: ascii_start)
      have "p @ m @ t = (p @ m @ butlast pat) @ last pat # r" using t less.prems(3) by simp
      then have r: "char_start r" using valid_after_ascii [of "p @ m @ butlast pat" "last pat" r] less.prems(1,5) by simp
      have "length r < length t" using t less.prems(3) by simp
      from less.hyps [OF this, of "p @ m @ pat" "[]" "string @ m @ to" "ixs @ [length string + length m]"] less.prems r t
      have "replace_loop (p @ m @ t) pat to (match_indices pat (length p + length m + length pat) r) (string @ m @ to)
          (ixs @ [length string + length m]) (length p + length m + length pat)
        = Some ((string @ m @ to) @ replace_all pat to r,
            (ixs @ [length string + length m]) @ out_indices pat (length to) (length (string @ m @ to)) r)"
        by (simp add: add.assoc)
      with slice_between [OF less.prems(2) start, of p] less.prems(3) show ?thesis
        unfolding t at_match [OF less.prems(3)] by (simp add: add.assoc)
    next
      case False
      have "length bs < length t" using Cons by simp
      from less.hyps [OF this, of p "m @ [b]" string ixs] less.prems Cons False show ?thesis by simp
    qed
  qed
qed

lemma replace_marked_eq:
  assumes "valid_utf8 s" "pat \<noteq> []" "hd pat < 0x80" "last pat < 0x80"
  shows "replace_marked s pat to = Some (replace_all pat to s, out_indices pat (length to) 0 s)"
proof -
  have "char_start s" using assms(1) by (simp add: valid_utf8_def)
  with replace_loop_eq [of "[]" "[]" s pat to "[]" "[]"] assms show ?thesis by (simp add: replace_marked_def)
qed

lemma copy_into_middle: "length src = n \<Longrightarrow> length old = n \<Longrightarrow> copy_into src n (length p) (p @ old @ q) = Some (p @ src @ q)"
  by (simp add: copy_into_def)

lemma copy_all_indices:
  assumes "length to = n" "length old = n"
  shows "copy_all to n (out_indices pat n (length p) s) (p @ replace_all pat old s) = Some (p @ replace_all pat to s)"
proof (induction "length s" arbitrary: s p rule: less_induct)
  case less
  show ?case
  proof (cases s)
    case (Cons b bs)
    show ?thesis
    proof (cases "pat \<noteq> [] \<and> take (length pat) s = pat")
      case True
      then obtain r where r: "s = pat @ r" "pat \<noteq> []" by (metis append_take_drop_id)
      then have "length r < length s" by simp
      from less [OF this, of "p @ to"] assms show ?thesis unfolding r(1) at_match [OF r(2)] by (simp add: copy_into_middle)
    next
      case False
      then have "\<not> (pat \<noteq> [] \<and> take (length pat) (b # bs) = pat)" using Cons by simp
      with less [of bs "p @ [b]"] Cons show ?thesis by (simp add: no_match del: replace_all.simps(2) out_indices.simps(2))
    qed
  qed simp
qed

section \<open>Properties\<close>

lemma PLACEHOLDER_eq: "PLACEHOLDER = bytes_of ''{{currentDateTime}}''"
  by code_simp

text \<open>C40: The template with overwritten times is the template with replaced times.  Whatever the configured
  instructions are, initialisation succeeds and the copies for a request stay within the prepared
  text; the result is the instructions with every placeholder replaced by the time of the request.\<close>

theorem instructions_replace:
  assumes "valid_utf8 s" "length z = 24" "length t = 29" "length time = 24 \<or> length time = 29"
  shows "\<exists>d. instructions_init s z t = Some d \<and> instructions_get d time = Some (replace_all (bytes_of ''{{currentDateTime}}'') time s)"
proof -
  have p: "PLACEHOLDER \<noteq> []" "hd PLACEHOLDER < 0x80" "last PLACEHOLDER < 0x80"
    by (simp_all add: PLACEHOLDER_eq bytes_of_def)
  note r = replace_marked_eq [OF assms(1) p]
  have "copy_all time 24 (out_indices PLACEHOLDER 24 0 s) (replace_all PLACEHOLDER z s) = Some (replace_all PLACEHOLDER time s)"
    if "length time = 24" using copy_all_indices [OF that assms(2), of PLACEHOLDER "[]" s] by simp
  moreover have "copy_all time 29 (out_indices PLACEHOLDER 29 0 s) (replace_all PLACEHOLDER t s) = Some (replace_all PLACEHOLDER time s)"
    if "length time = 29" using copy_all_indices [OF that assms(3), of PLACEHOLDER "[]" s] by simp
  ultimately show ?thesis
    using assms r by (auto simp: instructions_init_def instructions_get_def PLACEHOLDER_eq [symmetric])
qed

theorem instructions_replace_witness:
  "\<exists>d. instructions_init (bytes_of ''Now: {{currentDateTime}}, {{currentDateTime}}.'') (bytes_of ''2025-01-01T00:00:00.000Z'') (bytes_of ''2025-01-01T00:00:00.000+00:00'') = Some d
     \<and> instructions_get d (bytes_of ''2026-02-03T04:05:06.789+08:00'')
       = Some (bytes_of ''Now: 2026-02-03T04:05:06.789+08:00, 2026-02-03T04:05:06.789+08:00.'')"
proof -
  have v: "valid_utf8 (bytes_of ''Now: {{currentDateTime}}, {{currentDateTime}}.'')" by code_simp
  have r: "replace_all (bytes_of ''{{currentDateTime}}'') (bytes_of ''2026-02-03T04:05:06.789+08:00'')
      (bytes_of ''Now: {{currentDateTime}}, {{currentDateTime}}.'') = bytes_of ''Now: 2026-02-03T04:05:06.789+08:00, 2026-02-03T04:05:06.789+08:00.''"
    by code_simp
  from instructions_replace [OF v, of "bytes_of ''2025-01-01T00:00:00.000Z''" "bytes_of ''2025-01-01T00:00:00.000+00:00''" "bytes_of ''2026-02-03T04:05:06.789+08:00''"] r
  show ?thesis by simp
qed

text \<open>The instructions are sent in exactly the fields the mode names, and the iterator hands out enough copies.\<close>

lemma explicit_context_fields:
  "create_explicit_context mode ins =
     Some (if trim ins = [] \<or> \<not> (cfm_context mode \<or> cfm_repo_context mode \<or> cfm_mode_specific_context mode) then None
           else Some \<lparr>ec_context = (if cfm_context mode then ins else []),
                      ec_repo_context = (if cfm_repo_context mode then Some ins else None),
                      ec_mode_specific_context = (if cfm_mode_specific_context mode then Some ins else None)\<rparr>)"
  by (cases "cfm_context mode"; cases "cfm_repo_context mode"; cases "cfm_mode_specific_context mode")
     (simp_all add: create_explicit_context_def rep_new_def rep_next_def Let_def)

end
