(* ===== verification/Proto_Encode.thy ===== *)
theory Proto_Encode
  imports Grpc_Stream
begin

text \<open>
  \<^verbatim>\<open>src/common/utils/proto_encode.rs\<close>: serialising a Protobuf message, with optional gzip
  compression, bare (\<open>encode_message\<close>) or as a frame (\<open>encode_message_framed\<close>).  The framed
  variant assembles the frame in an uninitialised buffer through raw pointers; the model keeps
  the buffer and every write.

  \<open>encoded_len\<close> and \<open>encode_raw\<close> stand for the methods of \<^verbatim>\<open>prost::Message\<close>, \<open>gzip\<close>
  for \<^verbatim>\<open>flate2\<close>'s encoder.  What the code relies on is stated by \<open>prost_contract\<close> and
  \<open>gzip_contract\<close>.
\<close>

section \<open>Definitions\<close>

datatype ExceedSizeLimit = ExceedSizeLimit

record generic_error =
  ge_status :: string
  ge_code :: "nat option"
  ge_error :: "string option"
  ge_message :: "string option"

definition SIZE_LIMIT_MSG :: string where
  "SIZE_LIMIT_MSG = ''Message exceeds 4 MiB size limit''"

definition into_generic :: "ExceedSizeLimit \<Rightarrow> generic_error" where
  "into_generic e =
     \<lparr>ge_status = ''error'', ge_code = Some 413, ge_error = Some ''resource_exhausted'',
      ge_message = Some SIZE_LIMIT_MSG\<rparr>"

definition into_response_tuple :: "ExceedSizeLimit \<Rightarrow> nat \<times> generic_error" where
  "into_response_tuple e = (413, into_generic e)"

definition COMPRESSION_THRESHOLD :: nat where
  "COMPRESSION_THRESHOLD = 1024"

definition try_compress_if_beneficial :: "(bytes \<Rightarrow> bytes) \<Rightarrow> bytes \<Rightarrow> bytes option" where
  "try_compress_if_beneficial gzip data =
     (if length data \<le> COMPRESSION_THRESHOLD then None
      else let compressed = gzip data
           in if length compressed < length data then Some compressed else None)"

definition encode_message ::
  "('m \<Rightarrow> nat) \<Rightarrow> ('m \<Rightarrow> bytes) \<Rightarrow> (bytes \<Rightarrow> bytes) \<Rightarrow> 'm \<Rightarrow> ExceedSizeLimit + bytes \<times> bool" where
  "encode_message encoded_len encode_raw gzip message =
     (let estimated_size = encoded_len message
      in if estimated_size > MAX_DECOMPRESSED_SIZE_BYTES then Inl ExceedSizeLimit
         else let encoded = encode_raw message
              in case try_compress_if_beneficial gzip encoded of
                   Some compressed \<Rightarrow> Inr (compressed, True)
                 | None \<Rightarrow> Inr (encoded, False))"

definition mem_read :: "mem \<Rightarrow> nat \<Rightarrow> nat \<Rightarrow> bytes ub" where
  "mem_read m start len = (if start + len \<le> length m then those (take len (drop start m)) else None)"

text \<open>\<^verbatim>\<open>encode_raw\<close> into a slice of \<open>len\<close> bytes at offset \<open>start\<close>: \<^verbatim>\<open>BufMut\<close> panics when the
  message does not fit.\<close>

definition encode_raw_into :: "mem \<Rightarrow> nat \<Rightarrow> nat \<Rightarrow> bytes \<Rightarrow> mem ub" where
  "encode_raw_into m start len raw = (if length raw \<le> len then mem_writes m start raw else None)"

definition to_be_bytes_u32 :: "u32 \<Rightarrow> bytes" where
  "to_be_bytes_u32 w = be_bytes 4 (unat w)"

definition encode_message_framed ::
  "('m \<Rightarrow> nat) \<Rightarrow> ('m \<Rightarrow> bytes) \<Rightarrow> (bytes \<Rightarrow> bytes) \<Rightarrow> 'm \<Rightarrow> (ExceedSizeLimit + bytes) ub" where
  "encode_message_framed encoded_len encode_raw gzip message =
     (let estimated_size = encoded_len message
      in if estimated_size > MAX_DECOMPRESSED_SIZE_BYTES then Some (Inl ExceedSizeLimit)
         else do {
           let buffer = uninit (5 + estimated_size);
           buffer \<leftarrow> encode_raw_into buffer 5 estimated_size (encode_raw message);
           body_slice \<leftarrow> mem_read buffer 5 estimated_size;
           (compression_flag, final_len, buffer) \<leftarrow>
             (case try_compress_if_beneficial gzip body_slice of
                Some compressed \<Rightarrow> do {
                  let compressed_len = length compressed;
                  (if compressed_len < estimated_size then Some () else None);
                  buffer \<leftarrow> mem_writes buffer 5 compressed;
                  Some (0x01, compressed_len, take (5 + compressed_len) buffer)
                }
              | None \<Rightarrow> Some (0x00, estimated_size, buffer));
           buffer \<leftarrow> mem_write buffer 0 compression_flag;
           buffer \<leftarrow> mem_writes buffer 1 (to_be_bytes_u32 (of_nat final_len));
           frame \<leftarrow> mem_init buffer;
           Some (Inr frame)
         })"

section \<open>What the code relies on\<close>

definition prost_contract ::
  "('m \<Rightarrow> nat) \<Rightarrow> ('m \<Rightarrow> bytes) \<Rightarrow> (bytes \<Rightarrow> 'm option) \<Rightarrow> bool" where
  "prost_contract encoded_len encode_raw prost_decode \<longleftrightarrow>
     (\<forall>m. encoded_len m = length (encode_raw m) \<and> prost_decode (encode_raw m) = Some m)"

text \<open>RFC 1952: magic number and method, at least ten bytes of header, two of data and eight of
  footer, and the size of the input in the last four bytes.\<close>

definition gzip_contract :: "(bytes \<Rightarrow> bytes) \<Rightarrow> (bytes \<Rightarrow> bytes option) \<Rightarrow> bool" where
  "gzip_contract gzip gunzip \<longleftrightarrow>
     (\<forall>d. length d \<le> MAX_DECOMPRESSED_SIZE_BYTES \<longrightarrow>
        gunzip (gzip d) = Some d \<and> take 3 (gzip d) = [0x1f, 0x8b, 0x08] \<and> 20 \<le> length (gzip d)
        \<and> le_val (drop (length (gzip d) - 4) (gzip d)) = length d)"

section \<open>The raw-pointer frame assembly\<close>

lemma mem_writes_middle:
  "mem_writes (a @ m @ z) (length a) bs = Some (a @ map Some bs @ drop (length bs) m @ z)"
  if "length bs \<le> length m"
  using that
proof (induction bs arbitrary: a m)
  case Nil
  then show ?case by simp
next
  case (Cons b bs)
  then obtain x m' where m: "m = x # m'" and le: "length bs \<le> length m'"
    by (cases m) auto
  have "mem_writes ((a @ [Some b]) @ m' @ z) (length (a @ [Some b])) bs
      = Some ((a @ [Some b]) @ map Some bs @ drop (length bs) m' @ z)"
    using le by (rule Cons.IH)
  then show ?case
    by (simp add: m mem_write_def list_update_append)
qed

lemma those_map_Some_append: "those (map Some xs @ ys) = map_option (\<lambda>zs. xs @ zs) (those ys)"
  by (induction xs) (simp_all add: option.map_comp comp_def option.map_ident)

lemma write_header:
  "do { b1 \<leftarrow> mem_write (uninit 5 @ map Some body) 0 flag;
        b2 \<leftarrow> mem_writes b1 1 lenb;
        frame \<leftarrow> mem_init b2;
        k frame } = k (flag # lenb @ body)"
  if "length lenb = 4"
proof -
  have u5: "uninit 5 = None # uninit 4" by (simp add: numeral_eq_Suc)
  have "mem_writes ([Some flag] @ uninit 4 @ map Some body) (length [Some flag]) lenb
      = Some ([Some flag] @ map Some lenb @ drop (length lenb) (uninit 4) @ map Some body)"
    by (rule mem_writes_middle) (simp add: that)
  then show ?thesis
    using mem_init_full [of "flag # lenb @ body"] that
    by (simp add: u5 mem_write_def)
qed

lemma unat_of_nat_u32: "n \<le> MAX_DECOMPRESSED_SIZE_BYTES \<Longrightarrow> unat (of_nat n :: u32) = n"
  by (simp add: unat_of_nat MAX_DECOMPRESSED_SIZE_BYTES_def)

definition frame_message :: "(bytes \<Rightarrow> bytes) \<Rightarrow> bytes \<Rightarrow> raw_message" where
  "frame_message gzip raw =
     (case try_compress_if_beneficial gzip raw of
        Some compressed \<Rightarrow> \<lparr>type_of = 1, data_of = compressed\<rparr>
      | None \<Rightarrow> \<lparr>type_of = 0, data_of = raw\<rparr>)"

lemma encode_message_framed_eq:
  assumes len: "encoded_len m = length (encode_raw m)"
  shows "encode_message_framed encoded_len encode_raw gzip m =
    Some (if length (encode_raw m) > MAX_DECOMPRESSED_SIZE_BYTES then Inl ExceedSizeLimit
          else Inr (frame_bytes (frame_message gzip (encode_raw m))))"
proof (cases "length (encode_raw m) > MAX_DECOMPRESSED_SIZE_BYTES")
  case True
  then show ?thesis by (simp add: encode_message_framed_def len)
next
  case False
  let ?raw = "encode_raw m"
  let ?n = "length ?raw"
  have u: "uninit (5 + k) = uninit 5 @ uninit k" for k
    by (rule replicate_add)
  have w: "mem_writes (uninit 5 @ uninit ?n) 5 ?raw = Some (uninit 5 @ map Some ?raw)"
    using mem_writes_middle [of ?raw "uninit ?n" "uninit 5" "[]"] by simp
  have r: "mem_read (uninit 5 @ map Some ?raw) 5 ?n = Some ?raw"
    by (simp add: mem_read_def)
  have hdr: "length (to_be_bytes_u32 w) = 4" for w
    by (simp add: to_be_bytes_u32_def)
  show ?thesis
  proof (cases "try_compress_if_beneficial gzip ?raw")
    case None
    with False show ?thesis
      using write_header [OF hdr, of ?raw 0 "of_nat ?n" "\<lambda>fr. Some (Inr fr)"]
      by (simp add: encode_message_framed_def len encode_raw_into_def u w r frame_message_def
          frame_bytes_def to_be_bytes_u32_def unat_of_nat_u32 del: replicate_Suc)
  next
    case (Some c)
    then have c: "length c < ?n"
      by (auto simp: try_compress_if_beneficial_def Let_def split: if_splits)
    have wc: "mem_writes (uninit 5 @ map Some ?raw) 5 c
        = Some (uninit 5 @ map Some c @ drop (length c) (map Some ?raw))"
      using mem_writes_middle [of c "map Some ?raw" "uninit 5" "[]"] c by simp
    from Some False c show ?thesis
      using write_header [OF hdr, of c 1 "of_nat (length c)" "\<lambda>fr. Some (Inr fr)"]
      by (simp add: encode_message_framed_def len encode_raw_into_def u w r wc frame_message_def
          frame_bytes_def to_be_bytes_u32_def unat_of_nat_u32 del: replicate_Suc)
  qed
qed


section \<open>From the encoder to the decoder\<close>

lemma length_frame_message: "length (data_of (frame_message gzip raw)) \<le> length raw"
  by (auto simp: frame_message_def try_compress_if_beneficial_def Let_def split: option.splits if_splits)

lemma decompress_gzip_eq:
  "decompress_gzip gunzip data =
     Some (if 20 \<le> length data \<and> take 3 data = [0x1f, 0x8b, 0x08]
             \<and> le_val (drop (length data - 4) data) \<le> MAX_DECOMPRESSED_SIZE_BYTES
           then gunzip data else None)"
proof (cases "length data < 20")
  case True
  then show ?thesis by (simp add: decompress_gzip_def)
next
  case False
  then obtain b0 b1 b2 rest where d: "data = b0 # b1 # b2 # rest"
    by (auto simp: not_less numeral_eq_Suc Suc_le_length_iff)
  have l: "length (drop (length data - 4) data) = 4" using False by simp
  have "le_val (drop (length data - 4) data) < 256 ^ 4"
    using le_val_bound [of "drop (length data - 4) data"] by (simp only: l)
  then have u: "unat (from_le_bytes_u32 (drop (length data - 4) data))
      = le_val (drop (length data - 4) data)"
    by (simp add: from_le_bytes_u32_def unat_of_nat)
  have f: "get_offset_len_noubcheck data (length data - 4) 4 = Some (drop (length data - 4) data)"
    using False by (simp add: get_offset_len_noubcheck_def)
  have s: "slice_get data 0 = Some b0" "slice_get data 1 = Some b1" "slice_get data 2 = Some b2"
    "take 3 data = [b0, b1, b2]" "data ! Suc 0 = b1"
    by (simp_all add: d slice_get_def)
  show ?thesis
    using False by (simp add: decompress_gzip_def s f u)
qed

lemma default_processor_frame:
  assumes "prost_contract encoded_len encode_raw prost_decode" "gzip_contract gzip gunzip"
    and "length (encode_raw m) \<le> MAX_DECOMPRESSED_SIZE_BYTES"
  shows "default_processor gunzip prost_decode (frame_message gzip (encode_raw m)) = Some (Some m)"
  using assms
  by (auto simp: default_processor_def frame_message_def try_compress_if_beneficial_def Let_def
      decode_message_def decode_compressed_message_def decompress_gzip_eq prost_contract_def
      gzip_contract_def)

lemma run_default_processor:
  assumes "prost_contract encoded_len encode_raw prost_decode" "gzip_contract gzip gunzip"
    and "\<forall>m \<in> set ms. length (encode_raw m) \<le> MAX_DECOMPRESSED_SIZE_BYTES"
  shows "run_processor (default_processor gunzip prost_decode)
      (map (\<lambda>m. frame_message gzip (encode_raw m)) ms) = Some ms"
  using assms(3) by (induction ms) (simp_all add: default_processor_frame [OF assms(1,2)])

lemma feed_frames_default:
  assumes "\<forall>m \<in> set ms. length (data_of m) < 2 ^ 32" "concat chunks = concat (map frame_bytes ms)"
  shows "feed_chunks (decode_default gunzip prost_decode) stream_decoder_new chunks =
    do { xs \<leftarrow> run_processor (default_processor gunzip prost_decode) ms; Some (xs, stream_decoder_new) }"
proof -
  have "feed_chunks (decode_default gunzip prost_decode) stream_decoder_new chunks
      = decode stream_decoder_new (concat chunks) (default_processor gunzip prost_decode)"
    unfolding decode_default_def [abs_def] by (rule gs.feed_chunks_concat) (rule drained_new)
  then show ?thesis
    using parse_frames_frames [OF assms(1), of "[]"]
    by (simp add: assms(2) decode_eq stream_decoder_new_def buffer_new_def)
qed

section \<open>Properties\<close>

text \<open>C30: the encoder and the decoder agree.  If every message of a list is encoded into a frame,
  and the bytes of the frames arrive cut into any chunks, the default decoder (gzip and
  Protobuf included) returns exactly the list of messages and keeps no byte.\<close>

theorem framed_stream_roundtrip:
  assumes "prost_contract encoded_len encode_raw prost_decode"
    and "gzip_contract gzip gunzip"
    and "map (encode_message_framed encoded_len encode_raw gzip) ms = map (\<lambda>f. Some (Inr f)) frames"
    and "concat chunks = concat frames"
  shows "feed_chunks (decode_default gunzip prost_decode) stream_decoder_new chunks
    = Some (ms, stream_decoder_new)"
proof -
  let ?fm = "\<lambda>m. frame_message gzip (encode_raw m)"
  have len: "encoded_len m = length (encode_raw m)" for m
    using assms(1) by (simp add: prost_contract_def)
  have small: "\<forall>m \<in> set ms. length (encode_raw m) \<le> MAX_DECOMPRESSED_SIZE_BYTES"
    and fr: "frames = map frame_bytes (map ?fm ms)"
    using assms(3)
    by (induction ms arbitrary: frames)
       (auto simp: encode_message_framed_eq len Cons_eq_map_conv map_eq_Cons_conv split: if_splits)
  have "\<forall>r \<in> set (map ?fm ms). length (data_of r) < 2 ^ 32"
  proof
    fix r
    assume "r \<in> set (map ?fm ms)"
    then obtain m where "m \<in> set ms" "r = ?fm m" by auto
    then have "length (data_of r) \<le> MAX_DECOMPRESSED_SIZE_BYTES"
      using small order_trans [OF length_frame_message] by blast
    then show "length (data_of r) < 2 ^ 32" by (simp add: MAX_DECOMPRESSED_SIZE_BYTES_def)
  qed
  then have "feed_chunks (decode_default gunzip prost_decode) stream_decoder_new chunks =
      do { xs \<leftarrow> run_processor (default_processor gunzip prost_decode) (map ?fm ms);
           Some (xs, stream_decoder_new) }"
    by (rule feed_frames_default) (simp add: assms(4) fr)
  then show ?thesis
    by (simp add: run_default_processor [OF assms(1,2) small])
qed

definition toy_gzip :: "bytes \<Rightarrow> bytes" where
  "toy_gzip d = [0x1f, 0x8b, 8] @
     (if d = replicate (length d) 0 then replicate 13 0 else 1 # replicate 12 0 @ d)
     @ le_bytes 4 (length d)"

definition toy_gunzip :: "bytes \<Rightarrow> bytes option" where
  "toy_gunzip x = Some (if x ! 3 = 0 then replicate (le_val (drop (length x - 4) x)) 0
                        else drop 16 (take (length x - 4) x))"

lemma toy_gzip_contract: "gzip_contract toy_gzip toy_gunzip"
  unfolding gzip_contract_def
proof (intro allI impI)
  fix d :: bytes
  assume "length d \<le> MAX_DECOMPRESSED_SIZE_BYTES"
  then have v: "le_val (le_bytes 4 (length d)) = length d"
    by (simp add: le_val_le_bytes MAX_DECOMPRESSED_SIZE_BYTES_def)
  have f: "drop (length (toy_gzip d) - 4) (toy_gzip d) = le_bytes 4 (length d)"
    unfolding toy_gzip_def append_assoc [symmetric] by (simp only: length_append length_le_bytes
        add_diff_cancel_right' append_eq_conv_conj [symmetric] drop_append diff_self_eq_0 drop_0
        drop_all order_refl append_Nil)
  show "toy_gunzip (toy_gzip d) = Some d \<and> take 3 (toy_gzip d) = [0x1f, 0x8b, 0x08]
      \<and> 20 \<le> length (toy_gzip d) \<and> le_val (drop (length (toy_gzip d) - 4) (toy_gzip d)) = length d"
  proof (cases "d = replicate (length d) 0")
    case True
    then show ?thesis
      unfolding f v toy_gunzip_def by (simp add: toy_gzip_def nth_append)
  next
    case False
    then have e: "toy_gzip d = ([0x1f, 0x8b, 8, 1] @ replicate 12 0) @ d @ le_bytes 4 (length d)"
      by (simp add: toy_gzip_def)
    have n: "toy_gzip d ! 3 = 1" "take 3 (toy_gzip d) = [0x1f, 0x8b, 0x08]"
      "length (toy_gzip d) = 16 + length d + 4" by (simp_all add: e)
    have "length ([0x1f, 0x8b, 8, 1] @ replicate 12 (0 :: u8)) = 16" by simp
    then have "drop 16 (take (length (toy_gzip d) - 4) (toy_gzip d)) = d"
      unfolding n(3) e add_diff_cancel_right' take_append drop_append by simp
    with n show ?thesis
      unfolding f v toy_gunzip_def by simp
  qed
qed

theorem framed_stream_roundtrip_witness:
  "feed_chunks (decode_default toy_gunzip Some) stream_decoder_new
     [0 # be_bytes 4 3 @ [7, 8, 9] @ [1], be_bytes 4 20 @ toy_gzip (replicate 1100 0)]
   = Some ([[7, 8, 9], replicate 1100 0], stream_decoder_new)"
proof (rule framed_stream_roundtrip [where encoded_len = length and encode_raw = "\<lambda>m. m"
      and gzip = toy_gzip and frames = "[0 # be_bytes 4 3 @ [7, 8, 9],
        1 # be_bytes 4 20 @ toy_gzip (replicate 1100 0)]"])
  show "prost_contract length (\<lambda>m. m) Some"
    by (simp add: prost_contract_def)
  show "gzip_contract toy_gzip toy_gunzip"
    by (rule toy_gzip_contract)
  have l: "length (toy_gzip (replicate 1100 0)) = 20"
    by (simp add: toy_gzip_def)
  have "try_compress_if_beneficial toy_gzip (replicate 1100 0) = Some (toy_gzip (replicate 1100 0))"
    using l by (simp add: try_compress_if_beneficial_def COMPRESSION_THRESHOLD_def)
  then show "map (encode_message_framed length (\<lambda>m. m) toy_gzip) [[7, 8, 9], replicate 1100 0]
      = map (\<lambda>f. Some (Inr f)) [0 # be_bytes 4 3 @ [7, 8, 9],
          1 # be_bytes 4 20 @ toy_gzip (replicate 1100 0)]"
    using l
    by (simp add: encode_message_framed_eq MAX_DECOMPRESSED_SIZE_BYTES_def frame_message_def
        frame_bytes_def try_compress_if_beneficial_def COMPRESSION_THRESHOLD_def
        numeral_3_eq_3)
qed simp

text \<open>The frame assembled in place through raw pointers is the one the plain encoder
  describes.  \<open>encode_message_framed\<close> is defined for every message (no write outside the
  buffer, no uninitialised byte in the result), rejects the messages \<open>encode_message\<close> rejects,
  and otherwise returns its body behind the compression flag and the big-endian length.\<close>

theorem encode_message_framed_refines:
  assumes "encoded_len m = length (encode_raw m)"
  shows "encode_message_framed encoded_len encode_raw gzip m =
    Some (case encode_message encoded_len encode_raw gzip m of
            Inl e \<Rightarrow> Inl e
          | Inr (body, compressed) \<Rightarrow>
              Inr ((if compressed then 1 else 0) # be_bytes 4 (length body) @ body))"
  by (auto simp: encode_message_framed_eq encode_message_def assms frame_message_def
      frame_bytes_def Let_def split: option.split)

theorem encode_message_framed_refines_witness:
  "encode_message_framed length (\<lambda>m. m) (\<lambda>d. []) [7, 8] =
    Some (case encode_message length (\<lambda>m. m) (\<lambda>d. []) [7, 8] of
            Inl e \<Rightarrow> Inl e
          | Inr (body, compressed) \<Rightarrow>
              Inr ((if compressed then 1 else 0) # be_bytes 4 (length body) @ body))"
  by (rule encode_message_framed_refines [of length "[7, 8]" "\<lambda>m. m"]) simp

text \<open>Decompression is defensive.  For every input \<open>decompress_gzip\<close> is defined, and it calls the
  decompressor only on data of at least 20 bytes with the gzip magic number and a declared size of
  at most 4 MiB; everything else is refused.\<close>

theorem decompress_gzip_guards:
  "decompress_gzip gunzip data =
     Some (if 20 \<le> length data \<and> take 3 data = [0x1f, 0x8b, 0x08]
             \<and> le_val (drop (length data - 4) data) \<le> MAX_DECOMPRESSED_SIZE_BYTES
           then gunzip data else None)"
  by (rule decompress_gzip_eq)

end
