(* ===== verification/Chat_Request.thy ===== *)
theory Chat_Request
  imports Instructions Proto_Encode "HOL-Library.Multiset"
begin

text \<open>
  What the requests of both adapters are made of: the messages of \<^verbatim>\<open>src/core/aiserver/v1\<close>, the list of
  messages with its headers and the images of \<^verbatim>\<open>src/core/adapter.rs\<close>, its errors of
  \<^verbatim>\<open>src/core/adapter/error.rs\<close>, and the last step, which frames a request.

  Base64, the image and GIF decoders, the HTTP client, the URL parser, the random generator of
  \<^verbatim>\<open>uuid\<close> and the configuration are in \<open>adapter_env\<close>.  The \<open>n\<close>-th random UUID is \<open>new_v4 e n\<close>,
  and a request threads the number of those drawn and the counter of \<^verbatim>\<open>BaseUuid\<close>.
\<close>

section \<open>Errors\<close>

datatype AdapterError =
  VisionDisabled
  | Base64Only
  | Base64DecodeFailed
  | RequestFailed
  | ResponseReadFailed
  | UnsupportedImageFormat
  | UnsupportedAnimatedGif
  | AdapterExceedSizeLimit

definition adapter_to_parts :: "AdapterError \<Rightarrow> nat \<times> bytes \<times> bytes" where
  "adapter_to_parts e =
     (case e of
        VisionDisabled \<Rightarrow> (403, bytes_of ''permission_denied'', bytes_of ''Vision feature is disabled'')
      | Base64Only \<Rightarrow> (400, bytes_of ''invalid_argument'', bytes_of ''Only base64 encoded images are supported'')
      | Base64DecodeFailed \<Rightarrow> (400, bytes_of ''invalid_argument'', bytes_of ''Invalid base64 encoded image'')
      | RequestFailed \<Rightarrow> (502, bytes_of ''unavailable'', bytes_of ''Cannot access the image URL'')
      | ResponseReadFailed \<Rightarrow> (502, bytes_of ''unavailable'', bytes_of ''Failed to download image from URL'')
      | UnsupportedImageFormat \<Rightarrow>
          (400, bytes_of ''invalid_argument'',
           bytes_of ''Unsupported image format, only PNG, JPEG, WebP and non-animated GIF are supported'')
      | UnsupportedAnimatedGif \<Rightarrow> (400, bytes_of ''invalid_argument'', bytes_of ''Animated GIF is not supported'')
      | AdapterExceedSizeLimit \<Rightarrow> (413, bytes_of ''resource_exhausted'', bytes_of ''Message exceeds 4 MiB size limit''))"

section \<open>Images\<close>

type_synonym i32 = "32 word"

datatype VisionAbility = VisionNone | VisionBase64 | VisionAll

datatype ImageFormat = Png | Jpeg | Gif | WebP | OtherFormat

record dimension =
  dim_width :: i32
  dim_height :: i32

record image_proto =
  im_data :: bytes
  im_dimension :: "dimension option"
  im_uuid :: bytes

record adapter_env =
  vision_ability :: VisionAbility
  base64_decode :: "bytes \<Rightarrow> bytes option"
  http_get :: "bytes \<Rightarrow> bytes option option"  \<comment> \<open>the outer \<^term>\<open>None\<close> when the request fails, the inner when the body does\<close>
  guess_format :: "bytes \<Rightarrow> ImageFormat option"
  gif_animated :: "bytes \<Rightarrow> bool"  \<comment> \<open>readable, with a second frame\<close>
  image_size :: "ImageFormat \<Rightarrow> bytes \<Rightarrow> (u32 \<times> u32) option"
  url_scheme :: "bytes \<Rightarrow> bytes option"
  new_v4 :: "nat \<Rightarrow> bytes"
  base_uuid_start :: u16
  default_ins :: default_instructions
  time_now :: bytes
  fill_mode :: context_fill_mode
  long_context :: bool

text \<open>\<^verbatim>\<open>try_into\<close> from \<^verbatim>\<open>u32\<close> to \<^verbatim>\<open>i32\<close> fails on the upper half.\<close>

definition dimension_try_from :: "u32 \<times> u32 \<Rightarrow> dimension option" where
  "dimension_try_from s =
     (if fst s < 0x80000000 \<and> snd s < 0x80000000 then Some \<lparr>dim_width = fst s, dim_height = snd s\<rparr> else None)"

definition image_dimension :: "adapter_env \<Rightarrow> ImageFormat \<Rightarrow> bytes \<Rightarrow> dimension option" where
  "image_dimension e f data = Option.bind (image_size e f data) dimension_try_from"

definition process_http_image :: "adapter_env \<Rightarrow> bytes \<Rightarrow> AdapterError + bytes \<times> dimension option" where
  "process_http_image e url =
     (case http_get e url of
        None \<Rightarrow> Inl RequestFailed
      | Some None \<Rightarrow> Inl ResponseReadFailed
      | Some (Some image_data) \<Rightarrow>
          (case guess_format e image_data of
             Some Gif \<Rightarrow>
               if gif_animated e image_data then Inl UnsupportedAnimatedGif
               else Inr (image_data, image_dimension e Gif image_data)
           | Some OtherFormat \<Rightarrow> Inl UnsupportedImageFormat
           | Some f \<Rightarrow> Inr (image_data, image_dimension e f image_data)
           | None \<Rightarrow> Inl UnsupportedImageFormat))"

text \<open>The end both \<^verbatim>\<open>process_base64_image\<close> have in common.\<close>

definition checked_image :: "adapter_env \<Rightarrow> ImageFormat \<Rightarrow> bytes \<Rightarrow> AdapterError + bytes \<times> dimension option" where
  "checked_image e f image_data =
     (if f = Gif \<and> gif_animated e image_data then Inl UnsupportedAnimatedGif
      else Inr (image_data, image_dimension e f image_data))"

section \<open>Messages\<close>

datatype Role = System | User | Assistant

definition MessageType_Human :: i32 where "MessageType_Human = 1"
definition MessageType_Ai :: i32 where "MessageType_Ai = 2"
definition UnifiedMode_Chat :: i32 where "UnifiedMode_Chat = 1"
definition UnifiedMode_Agent :: i32 where "UnifiedMode_Agent = 2"
definition ThinkingLevel_Unspecified :: i32 where "ThinkingLevel_Unspecified = 0"
definition ThinkingLevel_High :: i32 where "ThinkingLevel_High = 2"
definition ClientSideToolV2_Mcp :: i32 where "ClientSideToolV2_Mcp = 19"

record mcp_tool =
  mt_name :: bytes
  mt_description :: bytes
  mt_parameters :: bytes
  mt_server_name :: bytes

record mcp_result =
  mr_selected_tool :: bytes
  mr_result :: bytes

record client_tool_call =
  cc_tool :: i32
  cc_tool_call_id :: bytes
  cc_name :: bytes
  cc_is_streaming :: bool
  cc_is_last_message :: bool
  cc_raw_args :: bytes
  cc_tool_index :: "u32 option"
  cc_model_call_id :: "bytes option"
  cc_params :: "mcp_tool list option"

record client_tool_result =
  cx_tool :: i32
  cx_tool_call_id :: bytes
  cx_error :: "bytes option"  \<comment> \<open>\<^verbatim>\<open>ToolResultError\<close>, whose only field is the message\<close>
  cx_model_call_id :: "bytes option"
  cx_tool_index :: "u32 option"
  cx_result :: "mcp_result option"

record tool_result =
  tr_tool_call_id :: bytes
  tr_tool_name :: bytes
  tr_tool_index :: u32
  tr_model_call_id :: "bytes option"
  tr_raw_args :: bytes
  tr_result :: "client_tool_result option"
  tr_error :: "bytes option"
  tr_images :: "image_proto list"
  tr_tool_call :: "client_tool_call option"

record conversation_message =
  cm_text :: bytes
  cm_type :: i32
  cm_images :: "image_proto list"
  cm_bubble_id :: bytes
  cm_server_bubble_id :: "bytes option"
  cm_tool_results :: "tool_result list"
  cm_is_agentic :: bool
  cm_web_references :: "web_reference list"
  cm_thinking :: "pb_thinking option"
  cm_unified_mode :: "i32 option"
  cm_supported_tools :: "i32 list"
  cm_external_links :: "external_link list"
  cm_use_web :: "bool option"

definition message_default :: conversation_message where
  "message_default =
     \<lparr>cm_text = [], cm_type = 0, cm_images = [], cm_bubble_id = [], cm_server_bubble_id = None, cm_tool_results = [],
      cm_is_agentic = False, cm_web_references = [], cm_thinking = None, cm_unified_mode = None, cm_supported_tools = [],
      cm_external_links = [], cm_use_web = None\<rparr>"

record message_header =
  mh_bubble_id :: bytes
  mh_server_bubble_id :: "bytes option"
  mh_type :: i32

record messages =
  ms_inner :: "conversation_message list"
  ms_headers :: "message_header list"

definition messages_new :: messages where
  "messages_new = \<lparr>ms_inner = [], ms_headers = []\<rparr>"

definition header_of :: "conversation_message \<Rightarrow> message_header" where
  "header_of m = \<lparr>mh_bubble_id = cm_bubble_id m, mh_server_bubble_id = cm_server_bubble_id m, mh_type = cm_type m\<rparr>"

definition messages_push :: "conversation_message \<Rightarrow> messages \<Rightarrow> messages" where
  "messages_push m ms = \<lparr>ms_inner = ms_inner ms @ [m], ms_headers = ms_headers ms @ [header_of m]\<rparr>"

definition messages_from_single :: "conversation_message \<Rightarrow> messages" where
  "messages_from_single m = messages_push m messages_new"

definition messages_last :: "messages \<Rightarrow> conversation_message option" where
  "messages_last ms = (if ms_inner ms = [] then None else Some (last (ms_inner ms)))"

section \<open>Identifiers\<close>

record id_state =
  base_uuid :: u16
  v4_calls :: nat

definition next_v4 :: "adapter_env \<Rightarrow> id_state \<Rightarrow> bytes \<times> id_state" where
  "next_v4 e i = (new_v4 e (v4_calls i), i\<lparr>v4_calls := v4_calls i + 1\<rparr>)"

definition next_base :: "id_state \<Rightarrow> bytes \<times> id_state" where
  "next_base i = (let (s, u) = add_and_to_string (base_uuid i) in (s, i\<lparr>base_uuid := u\<rparr>))"

text \<open>The loops over the parts of a message: texts are kept, images are checked and numbered when the model takes them,
  and other parts are ignored.  The first image that is refused ends the loop.\<close>

datatype 's part = TextPart bytes | ImagePart 's | OtherPart

fun collect_parts ::
  "('s \<Rightarrow> AdapterError + bytes \<times> dimension option) \<Rightarrow> bool \<Rightarrow> 's part list \<Rightarrow> bytes list \<Rightarrow> image_proto list \<Rightarrow> id_state
   \<Rightarrow> AdapterError + bytes list \<times> image_proto list \<times> id_state" where
  "collect_parts check image_support [] text_parts images i = Inr (text_parts, images, i)"
| "collect_parts check image_support (TextPart tx # ps) text_parts images i =
     collect_parts check image_support ps (text_parts @ [tx]) images i"
| "collect_parts check image_support (ImagePart source # ps) text_parts images i =
     (if image_support then
        (case check source of
           Inl err \<Rightarrow> Inl err
         | Inr (image_data, dim) \<Rightarrow>
             let (uuid, i) = next_base i
             in collect_parts check image_support ps text_parts
                  (images @ [\<lparr>im_data = image_data, im_dimension = dim, im_uuid = uuid\<rparr>]) i)
      else collect_parts check image_support ps text_parts images i)"
| "collect_parts check image_support (OtherPart # ps) text_parts images i = collect_parts check image_support ps text_parts images i"

text \<open>The conversation without messages has one empty message of the user.\<close>

definition empty_conversation :: "adapter_env \<Rightarrow> messages" where
  "empty_conversation e =
     messages_from_single (message_default\<lparr>cm_type := MessageType_Human, cm_bubble_id := new_v4 e 0, cm_unified_mode := Some UnifiedMode_Chat\<rparr>)"

section \<open>Requests\<close>

record ext_model =
  em_id :: bytes
  em_is_image :: bool
  em_is_thinking :: bool
  em_web :: bool
  em_max :: bool

definition LONG_CONTEXT_MODELS :: "bytes list" where
  "LONG_CONTEXT_MODELS =
     [bytes_of ''gpt-4o-128k'', bytes_of ''gemini-1.5-flash-500k'', bytes_of ''claude-3-haiku-200k'', bytes_of ''claude-3.5-sonnet-200k'']"

record model_details =
  md_model_name :: "bytes option"
  md_azure_state :: "unit option"
  md_enable_slow_pool :: "bool option"
  md_max_mode :: "bool option"

record cursor_position =
  cp_line :: i32
  cp_column :: i32

text \<open>The fields of \<^verbatim>\<open>CurrentFileInfo\<close> that are not the default.\<close>

record current_file_info =
  cf_contents_start_at_line :: i32
  cf_cursor_position :: "cursor_position option"
  cf_total_number_of_lines :: i32
  cf_selection :: "(cursor_position option \<times> cursor_position option) option"

record 'i chat_request =
  rq_conversation :: "conversation_message list"
  rq_full_conversation_headers_only :: "message_header list"
  rq_explicit_context :: "explicit_context option"
  rq_model_details :: "model_details option"
  rq_use_web :: "bytes option"
  rq_external_links :: "external_link list"
  rq_should_cache :: "bool option"
  rq_current_file :: "current_file_info option"
  rq_use_new_compression_scheme :: "bool option"
  rq_is_chat :: bool
  rq_conversation_id :: bytes
  rq_environment_info :: "'i option"
  rq_is_agentic :: bool
  rq_supported_tools :: "i32 list"
  rq_mcp_tools :: "mcp_tool list"
  rq_use_full_inputs_context :: "bool option"
  rq_allow_model_fallbacks :: "bool option"
  rq_unified_mode :: "i32 option"
  rq_should_disable_tools :: "bool option"
  rq_thinking_level :: "i32 option"
  rq_uses_rules :: "bool option"
  rq_unified_mode_name :: "bytes option"

definition empty_file :: current_file_info where
  "empty_file =
     (let origin = \<lparr>cp_line = 0, cp_column = 0\<rparr>
      in \<lparr>cf_contents_start_at_line = 1, cf_cursor_position = Some origin, cf_total_number_of_lines = 1,
          cf_selection = Some (Some origin, Some origin)\<rparr>)"

text \<open>What a request says of the model, its conversation and its environment.\<close>

definition asks_for :: "ext_model \<Rightarrow> bool \<Rightarrow> bytes \<Rightarrow> 'i \<Rightarrow> 'i chat_request \<Rightarrow> bool" where
  "asks_for model slow msg_id info req \<longleftrightarrow>
     rq_model_details req = Some \<lparr>md_model_name = Some (em_id model), md_azure_state = Some (),
       md_enable_slow_pool = (if slow then Some True else None), md_max_mode = Some (em_max model)\<rparr>
     \<and> rq_use_web req = (if em_web model then Some (bytes_of ''full_search'') else None)
     \<and> rq_thinking_level req = Some (if em_is_thinking model then 2 else 0)
     \<and> rq_conversation_id req = msg_id \<and> rq_environment_info req = Some info"

section \<open>Facts\<close>

text \<open>The headers always match the messages.\<close>

definition headers_match :: "messages \<Rightarrow> bool" where
  "headers_match ms \<longleftrightarrow> ms_headers ms = map header_of (ms_inner ms)"

lemma messages_simps [simp]:
  "headers_match messages_new" "ms_inner messages_new = []"
  "headers_match (messages_push m ms) = headers_match ms" "ms_inner (messages_push m ms) = ms_inner ms @ [m]"
  "ms_inner (messages_from_single m) = [m]" "headers_match (messages_from_single m)"
  by (simp_all add: headers_match_def messages_new_def messages_push_def messages_from_single_def header_of_def)

text \<open>The identifiers a message carries, in the order they are drawn.\<close>

definition message_uuids :: "conversation_message \<Rightarrow> bytes list" where
  "message_uuids m = concat (map (\<lambda>t. map im_uuid (tr_images t)) (cm_tool_results m)) @ map im_uuid (cm_images m)
     @ map el_uuid (cm_external_links m)"

definition counted :: "u16 \<Rightarrow> nat \<Rightarrow> bytes list" where
  "counted u n = map (\<lambda>i. show_nat (unat (u + of_nat i))) [0..<n]"

lemma counted_simps [simp]: "counted u 0 = []" "length (counted u n) = n"
  by (simp_all add: counted_def)

lemma counted_add: "counted u (m + n) = counted u m @ counted (u + of_nat m) n"
proof -
  have "[0..<m + n] = [0..<m] @ map (\<lambda>i. i + m) [0..<n]"
    using upt_add_eq_append [of 0 m n] map_add_upt [of m n] by (simp only: add.commute [of n m] add_0 le0)
  then show ?thesis by (simp add: counted_def o_def ac_simps)
qed

lemma counted_Suc: "counted u (Suc n) = show_nat (unat u) # counted (u + 1) n"
  using counted_add [of u 1 n] by (simp add: counted_def)

lemma counted_distinct: "n \<le> 65536 \<Longrightarrow> distinct (counted u n)"
proof -
  assume n: "n \<le> 65536"
  have "inj_on (\<lambda>i. show_nat (unat (u + of_nat i))) {0..<n}"
  proof (rule inj_onI)
    fix i j assume ij: "i \<in> {0..<n}" "j \<in> {0..<n}" "show_nat (unat (u + of_nat i)) = show_nat (unat (u + of_nat j))"
    have printed: "parse_unsigned 16 (show_nat (unat w)) = Some (unat w)" for w :: u16
    proof (rule parse_unsigned_show)
      have "unat w < 2 ^ LENGTH(16)" by (rule unsigned_less)
      then show "unat w < 2 ^ 16" by simp
    qed
    have "unat (u + of_nat i) = unat (u + of_nat j)"
      by (metis printed ij(3) option.inject)
    then have "u + of_nat i = u + of_nat j" by (rule unsigned_word_eqI)
    then have "(of_nat i :: u16) = of_nat j" by simp
    with ij n show "i = j" by (simp add: word_of_nat_eq_iff take_bit_nat_eq_self)
  qed
  then show ?thesis by (simp add: counted_def distinct_map)
qed

text \<open>The random identifiers of a message.\<close>

definition message_ids :: "conversation_message \<Rightarrow> bytes list" where
  "message_ids m = cm_bubble_id m # (case cm_server_bubble_id m of Some b \<Rightarrow> [b] | None \<Rightarrow> [])"

text \<open>The first error among results.\<close>

fun first_error :: "('e + 'a) list \<Rightarrow> 'e option" where
  "first_error [] = None"
| "first_error (Inl err # rs) = Some err"
| "first_error (Inr _ # rs) = first_error rs"

lemma first_error_append: "first_error (xs @ ys) = (case first_error xs of Some err \<Rightarrow> Some err | None \<Rightarrow> first_error ys)"
  by (induction xs rule: first_error.induct) simp_all

lemma extract_external_links_ids:
  assumes "extract_external_links scheme text u = (links, u')"
  shows "map el_uuid links = counted u (length links)" "u' = u + of_nat (length links)"
  using extract_links_uuids [of scheme "chars text" u links u'] assms by (simp_all add: extract_external_links_def counted_def)

fun part_texts :: "'s part list \<Rightarrow> bytes list" where
  "part_texts [] = []"
| "part_texts (p # ps) = (case p of TextPart t \<Rightarrow> [t] | _ \<Rightarrow> []) @ part_texts ps"

fun part_images :: "'s part list \<Rightarrow> 's list" where
  "part_images [] = []"
| "part_images (p # ps) = (case p of ImagePart s \<Rightarrow> [s] | _ \<Rightarrow> []) @ part_images ps"

text \<open>The error of the first image that is refused.\<close>

definition refused :: "('s \<Rightarrow> 'e + 'a) \<Rightarrow> bool \<Rightarrow> 's list \<Rightarrow> 'e option" where
  "refused check image_support sources = (if image_support then first_error (map check sources) else None)"

lemma refused_Nil [simp]: "refused f b [] = None"
  by (simp add: refused_def)

lemma refused_append:
  "refused f b (xs @ ys) = (case refused f b xs of Some err \<Rightarrow> Some err | None \<Rightarrow> refused f b ys)"
  by (simp add: refused_def first_error_append split: option.split)

lemma refused_Cons: "refused f b (x # xs) = (case refused f b [x] of Some err \<Rightarrow> Some err | None \<Rightarrow> refused f b xs)"
  using refused_append [of f b "[x]" xs] by simp

text \<open>What the images of a message are sent as, without their identifiers.\<close>

definition image_contents :: "image_proto list \<Rightarrow> (bytes \<times> dimension option) list" where
  "image_contents ims = map (\<lambda>m. (im_data m, im_dimension m)) ims"

definition accepted :: "('s \<Rightarrow> 'e + 'a) \<Rightarrow> bool \<Rightarrow> 's list \<Rightarrow> 'a list" where
  "accepted check image_support sources = (if image_support then map (\<lambda>s. projr (check s)) sources else [])"

lemma image_contents_simps [simp]:
  "image_contents [] = []" "image_contents (m # ims) = (im_data m, im_dimension m) # image_contents ims"
  by (simp_all add: image_contents_def)

lemma length_image_contents: "length (image_contents ims) = length ims"
  by (simp add: image_contents_def)

lemma accepted_simps [simp]: "accepted check b [] = []" "accepted check False sources = []"
  by (simp_all add: accepted_def)

text \<open>What a picture becomes, said once for all sources: the sizes that fit 31 bits are kept, animations are refused.\<close>

definition picture_of :: "adapter_env \<Rightarrow> ImageFormat \<Rightarrow> bytes \<Rightarrow> AdapterError + bytes \<times> dimension option" where
  "picture_of e f data =
     (if f = Gif \<and> gif_animated e data then Inl UnsupportedAnimatedGif
      else Inr (data, case image_size e f data of
                        Some (w, h) \<Rightarrow> if uint w < 2 ^ 31 \<and> uint h < 2 ^ 31 then Some \<lparr>dim_width = w, dim_height = h\<rparr> else None
                      | None \<Rightarrow> None))"

definition linked_picture :: "adapter_env \<Rightarrow> bytes \<Rightarrow> AdapterError + bytes \<times> dimension option" where
  "linked_picture e url =
     (case http_get e url of
        None \<Rightarrow> Inl RequestFailed
      | Some None \<Rightarrow> Inl ResponseReadFailed
      | Some (Some data) \<Rightarrow>
          if guess_format e data = None \<or> guess_format e data = Some OtherFormat then Inl UnsupportedImageFormat
          else picture_of e (the (guess_format e data)) data)"

lemma image_dimension_picture:
  "image_dimension e f data = (case image_size e f data of
      Some (w, h) \<Rightarrow> if uint w < 2 ^ 31 \<and> uint h < 2 ^ 31 then Some \<lparr>dim_width = w, dim_height = h\<rparr> else None
    | None \<Rightarrow> None)"
  by (cases "image_size e f data") (auto simp: image_dimension_def dimension_try_from_def word_less_def split: if_splits)

lemma checked_image_picture: "checked_image e f data = picture_of e f data"
  by (simp add: checked_image_def picture_of_def image_dimension_picture)

lemma http_image_picture: "process_http_image e url = linked_picture e url"
  by (auto simp: process_http_image_def linked_picture_def picture_of_def image_dimension_picture
    split: option.splits ImageFormat.splits)

definition parts_result :: "('s \<Rightarrow> AdapterError + bytes \<times> dimension option) \<Rightarrow> bool \<Rightarrow> 's part list \<Rightarrow> bytes list \<Rightarrow> image_proto list \<Rightarrow> id_state
   \<Rightarrow> AdapterError + bytes list \<times> image_proto list \<times> id_state \<Rightarrow> bool" where
  "parts_result f b ps tp ims i r \<longleftrightarrow>
     (case r of
        Inl err \<Rightarrow> refused f b (part_images ps) = Some err
      | Inr (tp', ims', i') \<Rightarrow> refused f b (part_images ps) = None \<and> tp' = tp @ part_texts ps
          \<and> (\<exists>new. ims' = ims @ new \<and> map im_uuid new = counted (base_uuid i) (length new)
               \<and> image_contents new = accepted f b (part_images ps) \<and> i' = i\<lparr>base_uuid := base_uuid i + of_nat (length new)\<rparr>))"

lemma parts_result_image:
  assumes "b" "f s = Inr (data, dim)"
    and "parts_result f b ps tp (ims @ [\<lparr>im_data = data, im_dimension = dim, im_uuid = show_nat (unat (base_uuid i))\<rparr>]) (i\<lparr>base_uuid := base_uuid i + 1\<rparr>) r"
  shows "parts_result f b (ImagePart s # ps) tp ims i r"
proof -
  let ?im = "\<lparr>im_data = data, im_dimension = dim, im_uuid = show_nat (unat (base_uuid i))\<rparr>"
  have ref: "refused f b (part_images (ImagePart s # ps)) = refused f b (part_images ps)"
    using assms(1,2) by (simp add: refused_def)
  show ?thesis
  proof (cases r)
    case (Inl err)
    with assms(3) ref show ?thesis by (simp add: parts_result_def)
  next
    case (Inr x)
    then obtain tp' ims' i' where r: "r = Inr (tp', ims', i')" by (cases x) auto
    with assms(3) obtain new where new: "ims' = ims @ ?im # new" "map im_uuid new = counted (base_uuid i + 1) (length new)"
      "image_contents new = accepted f b (part_images ps)"
      "i' = i\<lparr>base_uuid := base_uuid i + 1 + of_nat (length new)\<rparr>" "refused f b (part_images ps) = None" "tp' = tp @ part_texts ps"
      by (auto simp: parts_result_def)
    then have "\<exists>new. ims' = ims @ new \<and> map im_uuid new = counted (base_uuid i) (length new)
        \<and> image_contents new = accepted f b (part_images (ImagePart s # ps))
        \<and> i' = i\<lparr>base_uuid := base_uuid i + of_nat (length new)\<rparr>"
      using assms(1,2) by (intro exI [of _ "?im # new"]) (simp add: counted_Suc add.assoc accepted_def)
    with new(5,6) ref r show ?thesis by (simp add: parts_result_def)
  qed
qed

lemma collect_parts_result: "parts_result f b ps tp ims i (collect_parts f b ps tp ims i)"
proof (induction f b ps tp ims i rule: collect_parts.induct)
  case (3 f b s ps tp ims i)
  show ?case
  proof (cases b)
    case True
    show ?thesis
    proof (cases "f s")
      case (Inl err)
      with True show ?thesis by (simp add: parts_result_def refused_def)
    next
      case (Inr x)
      obtain data dim where x: "f s = Inr (data, dim)" using Inr by (cases x) auto
      have n: "next_base i = (show_nat (unat (base_uuid i)), i\<lparr>base_uuid := base_uuid i + 1\<rparr>)"
        by (simp add: next_base_def add_and_to_string_def)
      from parts_result_image [OF True x 3(1) [OF True x refl n [symmetric] refl]] True x n show ?thesis by simp
    qed
  next
    case False
    from 3(2) [OF this] False show ?thesis by (auto simp: parts_result_def refused_def split: sum.splits)
  qed
qed (auto simp: parts_result_def split: sum.splits)

lemmas collect_parts_spec = collect_parts_result [unfolded parts_result_def]

text \<open>How a message moves the identifiers.\<close>

definition ids_moved :: "adapter_env \<Rightarrow> conversation_message list \<Rightarrow> id_state \<Rightarrow> id_state \<Rightarrow> bool" where
  "ids_moved e ms i i' \<longleftrightarrow>
     (\<exists>n k. concat (map message_uuids ms) = counted (base_uuid i) n \<and> base_uuid i' = base_uuid i + of_nat n
        \<and> mset (concat (map message_ids ms)) = mset (map (new_v4 e) [v4_calls i..<v4_calls i + k]) \<and> v4_calls i' = v4_calls i + k)"

lemma ids_moved_Nil: "ids_moved e [] i i"
  unfolding ids_moved_def by (rule exI [of _ 0], rule exI [of _ 0]) simp

lemma ids_moved_append:
  assumes "ids_moved e a i i1" "ids_moved e b i1 i2"
  shows "ids_moved e (a @ b) i i2"
proof -
  obtain n1 k1 where 1: "concat (map message_uuids a) = counted (base_uuid i) n1" "base_uuid i1 = base_uuid i + of_nat n1"
    "mset (concat (map message_ids a)) = mset (map (new_v4 e) [v4_calls i..<v4_calls i + k1])" "v4_calls i1 = v4_calls i + k1"
    using assms(1) by (auto simp: ids_moved_def)
  obtain n2 k2 where 2: "concat (map message_uuids b) = counted (base_uuid i1) n2" "base_uuid i2 = base_uuid i1 + of_nat n2"
    "mset (concat (map message_ids b)) = mset (map (new_v4 e) [v4_calls i1..<v4_calls i1 + k2])" "v4_calls i2 = v4_calls i1 + k2"
    using assms(2) by (auto simp: ids_moved_def)
  have "[v4_calls i..<v4_calls i + (k1 + k2)] = [v4_calls i..<v4_calls i + k1] @ [v4_calls i1..<v4_calls i1 + k2]"
    using upt_add_eq_append [of "v4_calls i" "v4_calls i + k1" k2] 1(4) by (simp add: add.assoc)
  with 1 2 show ?thesis
    unfolding ids_moved_def
    by (intro exI [of _ "n1 + n2"] exI [of _ "k1 + k2"]) (simp add: counted_add add.assoc)
qed

lemma ids_moved_Cons: "ids_moved e [m] i i1 \<Longrightarrow> ids_moved e ms i1 i2 \<Longrightarrow> ids_moved e (m # ms) i i2"
  using ids_moved_append [of e "[m]" i i1 ms i2] by simp

lemma ids_moved_user:
  assumes "map im_uuid (cm_images m) = counted (base_uuid i) n" "map el_uuid (cm_external_links m) = counted (base_uuid i + of_nat n) k"
    and "cm_tool_results m = []" "cm_bubble_id m = new_v4 e (v4_calls i)" "cm_server_bubble_id m = None"
    and "base_uuid i' = base_uuid i + of_nat n + of_nat k" "v4_calls i' = v4_calls i + 1"
  shows "ids_moved e [m] i i'"
  unfolding ids_moved_def by (rule exI [of _ "n + k"], rule exI [of _ 1])
    (use assms in \<open>simp add: message_uuids_def message_ids_def counted_add add.assoc\<close>)

lemma ids_moved_assistant:
  assumes "message_uuids m = []" "cm_bubble_id m = new_v4 e (v4_calls i)" "cm_server_bubble_id m = Some (new_v4 e (v4_calls i + 1))"
    and "base_uuid i' = base_uuid i" "v4_calls i' = v4_calls i + 2"
  shows "ids_moved e [m] i i'"
  unfolding ids_moved_def by (rule exI [of _ 0], rule exI [of _ 2])
    (use assms in \<open>simp add: message_ids_def upt_rec\<close>)

end
