(* ===== verification/OpenAI_Adapter.thy ===== *)
theory OpenAI_Adapter
  imports Chat_Request
begin

text \<open>
  The adapter of the OpenAI interface, \<^verbatim>\<open>src/core/adapter/openai.rs\<close>: the messages of a request, with
  their data types of \<^verbatim>\<open>src/core/model/openai.rs\<close>, become a conversation and a framed
  \<^verbatim>\<open>StreamUnifiedChatRequest\<close>.  \<^term>\<open>None\<close> is undefined behaviour, here \<^verbatim>\<open>__unreachable!\<close>.
\<close>

section \<open>Requests of the client\<close>

datatype MessageContentObject = TextObject bytes | ImageUrlObject bytes

fun into_text :: "MessageContentObject \<Rightarrow> bytes option" where
  "into_text (TextObject text) = Some text"
| "into_text (ImageUrlObject url) = None"

datatype openai_content = StringContent bytes | ArrayContent "MessageContentObject list"

record openai_message =
  om_role :: Role
  om_content :: openai_content

section \<open>Images\<close>

definition format_of_name :: "bytes \<Rightarrow> ImageFormat option" where
  "format_of_name f =
     (if f = bytes_of ''png'' then Some Png
      else if f = bytes_of ''jpg'' \<or> f = bytes_of ''jpeg'' then Some Jpeg
      else if f = bytes_of ''gif'' then Some Gif
      else if f = bytes_of ''webp'' then Some WebP
      else None)"

definition openai_base64_image :: "adapter_env \<Rightarrow> bytes \<Rightarrow> AdapterError + bytes \<times> dimension option" where
  "openai_base64_image e url =
     (case split_once_str (bytes_of '';base64,'') url of
        None \<Rightarrow> Inl Base64DecodeFailed
      | Some (format, data) \<Rightarrow>
          (case format_of_name format of
             None \<Rightarrow> Inl UnsupportedImageFormat
           | Some f \<Rightarrow>
               (case base64_decode e data of
                  None \<Rightarrow> Inl Base64DecodeFailed
                | Some image_data \<Rightarrow> checked_image e f image_data)))"

definition openai_image :: "adapter_env \<Rightarrow> bytes \<Rightarrow> AdapterError + bytes \<times> dimension option" where
  "openai_image e url =
     (case vision_ability e of
        VisionNone \<Rightarrow> Inl VisionDisabled
      | VisionBase64 \<Rightarrow>
          (case strip_prefix (bytes_of ''data:image/'') url of
             Some url \<Rightarrow> openai_base64_image e url
           | None \<Rightarrow> Inl Base64Only)
      | VisionAll \<Rightarrow>
          (case strip_prefix (bytes_of ''data:image/'') url of
             Some url \<Rightarrow> openai_base64_image e url
           | None \<Rightarrow> process_http_image e url))"

section \<open>The conversation\<close>

text \<open>The loop over the parts of a message of the user.\<close>

fun part_of :: "MessageContentObject \<Rightarrow> bytes part" where
  "part_of (TextObject text) = TextPart text"
| "part_of (ImageUrlObject url) = ImagePart url"

definition user_parts ::
  "adapter_env \<Rightarrow> bool \<Rightarrow> MessageContentObject list \<Rightarrow> id_state \<Rightarrow> AdapterError + bytes list \<times> image_proto list \<times> id_state" where
  "user_parts e image_support parts i = collect_parts (openai_image e) image_support (map part_of parts) [] [] i"

definition openai_text ::
  "adapter_env \<Rightarrow> bool \<Rightarrow> openai_message \<Rightarrow> id_state \<Rightarrow> AdapterError + bytes \<times> image_proto list \<times> id_state" where
  "openai_text e image_support input i =
     (case om_content input of
        StringContent text \<Rightarrow> Inr (text, [], i)
      | ArrayContent parts \<Rightarrow>
          if om_role input = User then
            (case user_parts e image_support parts i of
               Inl err \<Rightarrow> Inl err
             | Inr (text_parts, images, i) \<Rightarrow> Inr (join [0x0A] text_parts, images, i))
          else Inr (join [0x0A] (List.map_filter into_text parts), [], i))"

text \<open>References are read from messages of the assistant, links from those of the user.\<close>

definition openai_fields ::
  "adapter_env \<Rightarrow> Role \<Rightarrow> bytes \<Rightarrow> id_state
   \<Rightarrow> (bytes \<times> web_reference list \<times> bool option \<times> external_link list \<times> id_state) ub" where
  "openai_fields e role text i =
     (case role of
        Assistant \<Rightarrow>
          let (text, web_refs, has_web) = extract_web_references_info text
          in Some (text, web_refs, to_opt has_web, [], i)
      | User \<Rightarrow>
          let (external_links, u) = extract_external_links (url_scheme e) text (base_uuid i)
          in Some (text, [], None, external_links, i\<lparr>base_uuid := u\<rparr>)
      | System \<Rightarrow> None)"

definition openai_message_of ::
  "adapter_env \<Rightarrow> bool \<Rightarrow> openai_message \<Rightarrow> id_state \<Rightarrow> (AdapterError + conversation_message \<times> id_state) ub" where
  "openai_message_of e image_support input i =
     (case openai_text e image_support input i of
        Inl err \<Rightarrow> Some (Inl err)
      | Inr (text, images, i) \<Rightarrow> do {
          (final_text, web_references, use_web, external_links, i) \<leftarrow> openai_fields e (om_role input) text i;
          let (bubble, i) = next_v4 e i;
          let (server_bubble, i) = (if om_role input = User then (None, i) else let (b, i) = next_v4 e i in (Some b, i));
          Some (Inr
            (\<lparr>cm_text = final_text, cm_type = (if om_role input = User then MessageType_Human else MessageType_Ai),
              cm_images = images, cm_bubble_id = bubble, cm_server_bubble_id = server_bubble, cm_tool_results = [],
              cm_is_agentic = False, cm_web_references = web_references, cm_thinking = None,
              cm_unified_mode = Some UnifiedMode_Chat, cm_supported_tools = [], cm_external_links = external_links,
              cm_use_web = use_web\<rparr>, i))
        })"

fun openai_messages ::
  "adapter_env \<Rightarrow> bool \<Rightarrow> openai_message list \<Rightarrow> messages \<Rightarrow> id_state \<Rightarrow> (AdapterError + messages) ub" where
  "openai_messages e image_support [] ms i = Some (Inr ms)"
| "openai_messages e image_support (input # ins) ms i = do {
     r \<leftarrow> openai_message_of e image_support input i;
     (case r of
        Inl err \<Rightarrow> Some (Inl err)
      | Inr (m, i) \<Rightarrow> openai_messages e image_support ins (messages_push m ms) i)
   }"

definition system_text :: "openai_message \<Rightarrow> bytes" where
  "system_text input =
     (case om_content input of
        StringContent text \<Rightarrow> text
      | ArrayContent parts \<Rightarrow> join [0x0A] (List.map_filter into_text parts))"

definition process_chat_inputs ::
  "adapter_env \<Rightarrow> bool \<Rightarrow> openai_message list \<Rightarrow> (AdapterError + bytes \<times> messages \<times> external_link list) ub" where
  "process_chat_inputs e image_support ins = do {
     let system_messages = filter (\<lambda>m. om_role m = System) ins;
     let chat_messages = filter (\<lambda>m. om_role m \<noteq> System) ins;
     let instructions = join [0x0A, 0x0A] (map system_text system_messages);
     instructions \<leftarrow> (if instructions = [] then instructions_get (default_ins e) (time_now e) else Some instructions);
     (if chat_messages = [] then Some (Inr (instructions, empty_conversation e, []))
      else do {
        let chat_inputs = (if om_role (hd chat_messages) = Assistant
                           then \<lparr>om_role = User, om_content = StringContent []\<rparr> # chat_messages else chat_messages);
        r \<leftarrow> openai_messages e image_support chat_inputs messages_new \<lparr>base_uuid = base_uuid_start e, v4_calls = 0\<rparr>;
        (case r of
           Inl err \<Rightarrow> Some (Inl err)
         | Inr ms \<Rightarrow>
             Some (Inr (instructions, ms, (case messages_last ms of Some m \<Rightarrow> cm_external_links m | None \<Rightarrow> []))))
      })
   }"

section \<open>The request\<close>

definition openai_request ::
  "adapter_env \<Rightarrow> ext_model \<Rightarrow> bytes \<Rightarrow> 'i \<Rightarrow> bool \<Rightarrow> explicit_context option \<Rightarrow> messages \<Rightarrow> external_link list \<Rightarrow> 'i chat_request" where
  "openai_request e model msg_id environment_info enable_slow_pool explicit_context ms external_links =
     (let long = (long_context e \<or> List.member LONG_CONTEXT_MODELS (em_id model))
      in \<lparr>rq_conversation = ms_inner ms, rq_full_conversation_headers_only = ms_headers ms,
          rq_explicit_context = explicit_context,
          rq_model_details = Some \<lparr>md_model_name = Some (em_id model), md_azure_state = Some (),
            md_enable_slow_pool = to_opt enable_slow_pool, md_max_mode = Some (em_max model)\<rparr>,
          rq_use_web = (if em_web model then Some (bytes_of ''full_search'') else None),
          rq_external_links = external_links, rq_should_cache = Some True, rq_current_file = Some empty_file,
          rq_use_new_compression_scheme = Some True, rq_is_chat = False, rq_conversation_id = msg_id,
          rq_environment_info = Some environment_info, rq_is_agentic = False, rq_supported_tools = [], rq_mcp_tools = [],
          rq_use_full_inputs_context = to_opt long, rq_allow_model_fallbacks = Some False,
          rq_unified_mode = Some UnifiedMode_Chat, rq_should_disable_tools = Some True,
          rq_thinking_level = Some (if em_is_thinking model then ThinkingLevel_High else ThinkingLevel_Unspecified),
          rq_uses_rules = Some False, rq_unified_mode_name = Some (bytes_of ''Ask'')\<rparr>)"

definition openai_create_params ::
  "adapter_env \<Rightarrow> ('i chat_request \<Rightarrow> nat) \<Rightarrow> ('i chat_request \<Rightarrow> bytes) \<Rightarrow> (bytes \<Rightarrow> bytes)
   \<Rightarrow> openai_message list \<Rightarrow> ext_model \<Rightarrow> bytes \<Rightarrow> 'i \<Rightarrow> bool \<Rightarrow> bool \<Rightarrow> (AdapterError + bytes) ub" where
  "openai_create_params e encoded_len encode_raw gzip ins model msg_id environment_info disable_vision enable_slow_pool = do {
     r \<leftarrow> process_chat_inputs e (\<not> disable_vision \<and> em_is_image model) ins;
     (case r of
        Inl err \<Rightarrow> Some (Inl err)
      | Inr (instructions, ms, external_links) \<Rightarrow> do {
          explicit_context \<leftarrow> create_explicit_context (fill_mode e) instructions;
          r \<leftarrow> encode_message_framed encoded_len encode_raw gzip
                 (openai_request e model msg_id environment_info enable_slow_pool explicit_context ms external_links);
          Some (case r of Inl _ \<Rightarrow> Inl AdapterExceedSizeLimit | Inr frame \<Rightarrow> Inr frame)
        })
   }"

section \<open>Messages one by one\<close>

definition openai_urls :: "openai_message \<Rightarrow> bytes list" where
  "openai_urls m =
     (case om_content m of
        ArrayContent parts \<Rightarrow> if om_role m = User then part_images (map part_of parts) else []
      | StringContent _ \<Rightarrow> [])"

lemma part_texts_of: "part_texts (map part_of parts) = List.map_filter into_text parts"
proof (induction parts)
  case (Cons x xs)
  then show ?case by (cases x) (simp_all add: List.map_filter_simps)
qed (simp add: List.map_filter_simps)

text \<open>What a picture of the user becomes: inline data of one of the five names, or a file of the web where that is allowed.\<close>

definition picture :: "adapter_env \<Rightarrow> bytes \<Rightarrow> AdapterError + bytes \<times> dimension option" where
  "picture e url =
     (if vision_ability e = VisionNone then Inl VisionDisabled
      else case strip_prefix (bytes_of ''data:image/'') url of
        Some inline \<Rightarrow>
          (case split_once_str (bytes_of '';base64,'') inline of
             None \<Rightarrow> Inl Base64DecodeFailed
           | Some (name, coded) \<Rightarrow>
               (case (map_of [(bytes_of ''png'', Png), (bytes_of ''jpg'', Jpeg), (bytes_of ''jpeg'', Jpeg),
                              (bytes_of ''gif'', Gif), (bytes_of ''webp'', WebP)] name, base64_decode e coded) of
                  (None, _) \<Rightarrow> Inl UnsupportedImageFormat
                | (Some f, None) \<Rightarrow> Inl Base64DecodeFailed
                | (Some f, Some data) \<Rightarrow> picture_of e f data))
      | None \<Rightarrow> if vision_ability e = VisionBase64 then Inl Base64Only else linked_picture e url)"

lemma openai_image_picture: "openai_image e = picture e"
  by (rule ext)
    (auto simp: openai_image_def picture_def openai_base64_image_def format_of_name_def checked_image_picture http_image_picture
      split: VisionAbility.splits option.splits prod.splits)

text \<open>What a message becomes.\<close>

definition message_matches :: "adapter_env \<Rightarrow> bool \<Rightarrow> openai_message \<Rightarrow> conversation_message \<Rightarrow> bool" where
  "message_matches e image_support input m \<longleftrightarrow>
     (case om_role input of
        User \<Rightarrow> cm_type m = MessageType_Human \<and> cm_text m = system_text input \<and> cm_web_references m = [] \<and> cm_use_web m = None
          \<and> cm_server_bubble_id m = None
          \<and> image_contents (cm_images m) = accepted (picture e) image_support (openai_urls input)
          \<and> map el_url (cm_external_links m) = link_urls (url_scheme e) (system_text input)
      | Assistant \<Rightarrow> cm_type m = MessageType_Ai \<and> cm_server_bubble_id m \<noteq> None \<and> cm_external_links m = [] \<and> cm_images m = []
          \<and> (cm_text m, cm_web_references m, cm_use_web m = Some True) = extract_web_references_info (system_text input)
      | System \<Rightarrow> False)
     \<and> cm_unified_mode m = Some UnifiedMode_Chat \<and> \<not> cm_is_agentic m \<and> cm_tool_results m = [] \<and> cm_thinking m = None
     \<and> cm_supported_tools m = []"

text \<open>The random identifiers of a conversation, in the order of its messages.\<close>

definition ids_drawn :: "adapter_env \<Rightarrow> conversation_message list \<Rightarrow> id_state \<Rightarrow> id_state \<Rightarrow> bool" where
  "ids_drawn e ms i i' \<longleftrightarrow>
     concat (map message_ids ms) = map (new_v4 e) [v4_calls i..<v4_calls i'] \<and> v4_calls i \<le> v4_calls i'"

lemma ids_drawn_Nil: "ids_drawn e [] i i"
  by (simp add: ids_drawn_def)

lemma ids_drawn_Cons:
  assumes "ids_drawn e [m] i i1" "ids_drawn e ms i1 i2"
  shows "ids_drawn e (m # ms) i i2"
proof -
  have "[v4_calls i..<v4_calls i2] = [v4_calls i..<v4_calls i1] @ [v4_calls i1..<v4_calls i2]"
    using upt_add_eq_append [of "v4_calls i" "v4_calls i1" "v4_calls i2 - v4_calls i1"] assms by (simp add: ids_drawn_def)
  then show ?thesis using assms by (simp add: ids_drawn_def)
qed

lemma openai_text_spec:
  "case openai_text e b m i of
     Inl err \<Rightarrow> refused (openai_image e) b (openai_urls m) = Some err
   | Inr (text, ims, i') \<Rightarrow> refused (openai_image e) b (openai_urls m) = None \<and> text = system_text m \<and> (om_role m \<noteq> User \<longrightarrow> ims = [])
       \<and> image_contents ims = accepted (openai_image e) b (openai_urls m)
       \<and> map im_uuid ims = counted (base_uuid i) (length ims) \<and> i' = i\<lparr>base_uuid := base_uuid i + of_nat (length ims)\<rparr>"
proof (cases "om_content m")
  case (ArrayContent parts)
  then show ?thesis
    using collect_parts_spec [of "openai_image e" b "map part_of parts" "[]" "[]" i]
    by (auto simp: openai_text_def openai_urls_def system_text_def user_parts_def part_texts_of refused_def split: sum.splits if_splits)
qed (simp add: openai_text_def openai_urls_def system_text_def refused_def)

lemma openai_message_spec:
  assumes "om_role m \<noteq> System"
  shows "\<exists>r. openai_message_of e b m i = Some r \<and>
    (case r of
       Inl err \<Rightarrow> refused (openai_image e) b (openai_urls m) = Some err
     | Inr (cm, i') \<Rightarrow> refused (openai_image e) b (openai_urls m) = None \<and> message_matches e b m cm \<and> ids_moved e [cm] i i'
         \<and> ids_drawn e [cm] i i')"
proof (cases "openai_text e b m i")
  case (Inl err)
  with openai_text_spec [of e b m i] show ?thesis by (simp add: openai_message_of_def)
next
  case (Inr r)
  then obtain tx ims i1 where r: "openai_text e b m i = Inr (tx, ims, i1)" by (cases r) auto
  with openai_text_spec [of e b m i] have t: "refused (openai_image e) b (openai_urls m) = None" "tx = system_text m"
    "om_role m \<noteq> User \<Longrightarrow> ims = []" "image_contents ims = accepted (picture e) b (openai_urls m)" "map im_uuid ims = counted (base_uuid i) (length ims)"
    "i1 = i\<lparr>base_uuid := base_uuid i + of_nat (length ims)\<rparr>"
    by (auto simp: openai_image_picture)
  show ?thesis
  proof (cases "om_role m")
    case User
    obtain links u where l: "extract_external_links (url_scheme e) tx (base_uuid i1) = (links, u)" by fastforce
    note ids = extract_external_links_ids [OF l]
    have "ids_moved e [cm] i (i1\<lparr>base_uuid := u, v4_calls := v4_calls i1 + 1\<rparr>)"
      if "cm_images cm = ims" "cm_external_links cm = links" "cm_tool_results cm = []" "cm_bubble_id cm = new_v4 e (v4_calls i)"
        "cm_server_bubble_id cm = None" for cm
      by (rule ids_moved_user) (use that t ids in simp_all)
    with r t l User show ?thesis
      by (simp add: openai_message_of_def openai_fields_def next_v4_def message_matches_def external_link_urls [OF l]
        ids_drawn_def message_ids_def)
  next
    case Assistant
    obtain a refs has where x: "extract_web_references_info tx = (a, refs, has)" by (cases "extract_web_references_info tx")
    have "ids_moved e [cm] i (i1\<lparr>v4_calls := v4_calls i1 + 2\<rparr>)"
      if "cm_images cm = []" "cm_external_links cm = []" "cm_tool_results cm = []" "cm_bubble_id cm = new_v4 e (v4_calls i)"
        "cm_server_bubble_id cm = Some (new_v4 e (v4_calls i + 1))" for cm
      by (rule ids_moved_assistant) (use that t Assistant in \<open>simp_all add: message_uuids_def\<close>)
    with r t x Assistant show ?thesis
      by (simp add: openai_message_of_def openai_fields_def next_v4_def message_matches_def to_opt_def
        ids_drawn_def message_ids_def upt_rec)
  qed (use assms in simp)
qed

lemma openai_messages_spec:
  assumes "\<forall>m \<in> set ins. om_role m \<noteq> System"
  shows "\<exists>r. openai_messages e b ins ms i = Some r \<and>
    (case r of
       Inl err \<Rightarrow> refused (openai_image e) b (concat (map openai_urls ins)) = Some err
     | Inr ms' \<Rightarrow> refused (openai_image e) b (concat (map openai_urls ins)) = None \<and> (headers_match ms \<longrightarrow> headers_match ms')
         \<and> (\<exists>new i'. ms_inner ms' = ms_inner ms @ new \<and> list_all2 (message_matches e b) ins new \<and> ids_moved e new i i' \<and> ids_drawn e new i i'))"
  using assms
proof (induction ins arbitrary: ms i)
  case Nil
  then show ?case using ids_moved_Nil [of e i] ids_drawn_Nil [of e i] by (auto simp: refused_def)
next
  case (Cons m ins)
  from openai_message_spec [of m e b i] Cons.prems obtain r where r: "openai_message_of e b m i = Some r"
    "case r of Inl err \<Rightarrow> refused (openai_image e) b (openai_urls m) = Some err
     | Inr (cm, i') \<Rightarrow> refused (openai_image e) b (openai_urls m) = None \<and> message_matches e b m cm \<and> ids_moved e [cm] i i' \<and> ids_drawn e [cm] i i'" by auto
  show ?case
  proof (cases r)
    case (Inl err)
    with r show ?thesis by (simp add: refused_append)
  next
    case (Inr x)
    then obtain cm i1 where x: "r = Inr (cm, i1)" by (cases x) auto
    with r have m: "refused (openai_image e) b (openai_urls m) = None" "message_matches e b m cm" "ids_moved e [cm] i i1"
      "ids_drawn e [cm] i i1" by auto
    have "\<forall>m \<in> set ins. om_role m \<noteq> System" using Cons.prems by simp
    from Cons.IH [OF this, of "messages_push cm ms" i1, unfolded messages_simps] obtain r' where
      r': "openai_messages e b ins (messages_push cm ms) i1 = Some r'"
      "case r' of
         Inl err \<Rightarrow> refused (openai_image e) b (concat (map openai_urls ins)) = Some err
       | Inr ms' \<Rightarrow> refused (openai_image e) b (concat (map openai_urls ins)) = None \<and> (headers_match ms \<longrightarrow> headers_match ms')
           \<and> (\<exists>new i'. ms_inner ms' = (ms_inner ms @ [cm]) @ new \<and> list_all2 (message_matches e b) ins new \<and> ids_moved e new i1 i'
             \<and> ids_drawn e new i1 i')"
      by blast
    show ?thesis
    proof (cases r')
      case (Inl err)
      with r(1) x r' m show ?thesis by (simp add: refused_append)
    next
      case (Inr ms')
      with r'(2) obtain new i2 where n: "refused (openai_image e) b (concat (map openai_urls ins)) = None" "headers_match ms \<longrightarrow> headers_match ms'"
        "ms_inner ms' = ms_inner ms @ cm # new" "list_all2 (message_matches e b) (m # ins) (cm # new)" "ids_moved e (cm # new) i i2"
        "ids_drawn e (cm # new) i i2"
        using m ids_moved_Cons ids_drawn_Cons by fastforce
      then show ?thesis using r(1) x r'(1) m(1) Inr by (auto simp: refused_append)
    qed
  qed
qed

section \<open>Properties\<close>

text \<open>The messages of the conversation: those that are not instructions, after an empty one when the assistant
  speaks first or nobody does.\<close>

definition conversation_inputs :: "openai_message list \<Rightarrow> openai_message list" where
  "conversation_inputs ins =
     (let chat = filter (\<lambda>m. om_role m \<noteq> System) ins; nothing = \<lparr>om_role = User, om_content = StringContent []\<rparr>
      in if chat = [] then [nothing] else if om_role (hd chat) = Assistant then nothing # chat else chat)"

definition instructions_of :: "openai_message list \<Rightarrow> bytes" where
  "instructions_of ins = join [0x0A, 0x0A] (map system_text (filter (\<lambda>m. om_role m = System) ins))"

lemma empty_conversation_facts:
  "headers_match (empty_conversation e)" "ms_inner (empty_conversation e) \<noteq> []"
  "list_all2 (message_matches e b) [\<lparr>om_role = User, om_content = StringContent []\<rparr>] (ms_inner (empty_conversation e))"
  "cm_external_links (last (ms_inner (empty_conversation e))) = []"
  "\<exists>i'. ids_moved e (ms_inner (empty_conversation e)) \<lparr>base_uuid = u, v4_calls = 0\<rparr> i'
     \<and> ids_drawn e (ms_inner (empty_conversation e)) \<lparr>base_uuid = u, v4_calls = 0\<rparr> i'"
proof -
  let ?i = "\<lparr>base_uuid = u, v4_calls = 0\<rparr>" and ?i' = "\<lparr>base_uuid = u, v4_calls = 1\<rparr>"
  have "ids_moved e (ms_inner (empty_conversation e)) ?i ?i'"
    unfolding ids_moved_def
    by (rule exI [of _ 0], rule exI [of _ 1])
       (simp add: empty_conversation_def message_default_def message_uuids_def message_ids_def)
  moreover have "ids_drawn e (ms_inner (empty_conversation e)) ?i ?i'"
    by (simp add: ids_drawn_def empty_conversation_def message_default_def message_ids_def)
  ultimately show "\<exists>i'. ids_moved e (ms_inner (empty_conversation e)) ?i i' \<and> ids_drawn e (ms_inner (empty_conversation e)) ?i i'" by blast
qed (simp_all add: empty_conversation_def message_default_def message_matches_def system_text_def openai_urls_def link_urls_def)

lemma process_chat_inputs_spec:
  assumes "instructions_get (default_ins e) (time_now e) = Some d"
  shows "\<exists>r. process_chat_inputs e b ins = Some r \<and>
    (case r of
       Inl err \<Rightarrow> refused (openai_image e) b (concat (map openai_urls (conversation_inputs ins))) = Some err
     | Inr (instructions, ms, links) \<Rightarrow>
         refused (openai_image e) b (concat (map openai_urls (conversation_inputs ins))) = None
         \<and> instructions = (if instructions_of ins = [] then d else instructions_of ins) \<and> headers_match ms
         \<and> list_all2 (message_matches e b) (conversation_inputs ins) (ms_inner ms) \<and> links = cm_external_links (last (ms_inner ms))
         \<and> (\<exists>i'. ids_moved e (ms_inner ms) \<lparr>base_uuid = base_uuid_start e, v4_calls = 0\<rparr> i'
              \<and> ids_drawn e (ms_inner ms) \<lparr>base_uuid = base_uuid_start e, v4_calls = 0\<rparr> i'))"
proof (cases "filter (\<lambda>m. om_role m \<noteq> System) ins = []")
  case True
  then show ?thesis
    using assms empty_conversation_facts [of e]
    by (simp add: process_chat_inputs_def conversation_inputs_def instructions_of_def openai_urls_def refused_def)
next
  case False
  let ?chat = "filter (\<lambda>m. om_role m \<noteq> System) ins"
  let ?i = "\<lparr>base_uuid = base_uuid_start e, v4_calls = 0\<rparr>"
  have ci: "conversation_inputs ins = (if om_role (hd ?chat) = Assistant then \<lparr>om_role = User, om_content = StringContent []\<rparr> # ?chat else ?chat)"
    using False by (simp add: conversation_inputs_def Let_def)
  have "\<forall>m \<in> set (conversation_inputs ins). om_role m \<noteq> System" unfolding ci by auto
  from openai_messages_spec [OF this, of e b messages_new ?i, unfolded messages_simps(2) append_Nil] messages_simps(1) obtain r where
    r: "openai_messages e b (conversation_inputs ins) messages_new ?i = Some r"
    "case r of
       Inl err \<Rightarrow> refused (openai_image e) b (concat (map openai_urls (conversation_inputs ins))) = Some err
     | Inr ms' \<Rightarrow> refused (openai_image e) b (concat (map openai_urls (conversation_inputs ins))) = None \<and> (headers_match messages_new \<longrightarrow> headers_match ms')
         \<and> (\<exists>new i'. ms_inner ms' = new \<and> list_all2 (message_matches e b) (conversation_inputs ins) new \<and> ids_moved e new ?i i'
             \<and> ids_drawn e new ?i i')"
    by blast
  have run: "process_chat_inputs e b ins = Some (case r of Inl err \<Rightarrow> Inl err
      | Inr ms \<Rightarrow> Inr (if instructions_of ins = [] then d else instructions_of ins, ms,
                        case messages_last ms of Some m \<Rightarrow> cm_external_links m | None \<Rightarrow> []))"
    using assms r(1) False unfolding ci
    by (simp add: process_chat_inputs_def instructions_of_def Let_def split: sum.splits)
  have "conversation_inputs ins \<noteq> []" using False by (simp add: ci)
  then have "messages_last ms = Some (last (ms_inner ms))" if "list_all2 (message_matches e b) (conversation_inputs ins) (ms_inner ms)" for ms
    using that by (auto simp: messages_last_def)
  with run r(2) show ?thesis by (auto split: sum.splits)
qed

text \<open>C5: A request of an OpenAI client is sent on faithfully.  On every list of messages the adapter is
  defined.  If an image is refused, its error, the first one, is the answer.  Otherwise the request holds
  one message per message of user and assistant, in order and behind an empty one when the
  assistant came first: those of the user with their text, the data and the size of every picture (none when the model takes
  none) and the links in the text, those of the assistant with the references cut from their text.  The
  headers agree with the messages; the texts of the system, or the default, are its instructions; the model, the
  conversation and the environment are those of the call.  It is sent in one frame, unless it is too large.\<close>

theorem openai_request_faithful:
  fixes model :: ext_model and disable_vision :: bool
  assumes "instructions_get (default_ins e) (time_now e) = Some d"
    and "\<forall>m :: 'i chat_request. encoded_len m = length (encode_raw m)"
  defines "vision \<equiv> \<not> disable_vision \<and> em_is_image model"
  shows "\<exists>r. openai_create_params e encoded_len encode_raw gzip ins model msg_id info disable_vision slow = Some r \<and>
    (case refused (picture e) vision (concat (map openai_urls (conversation_inputs ins))) of
       Some err \<Rightarrow> r = Inl err
     | None \<Rightarrow> \<exists>req :: 'i chat_request.
         r = (if length (encode_raw req) > MAX_DECOMPRESSED_SIZE_BYTES then Inl AdapterExceedSizeLimit
              else Inr (frame_bytes (frame_message gzip (encode_raw req))))
         \<and> list_all2 (message_matches e vision) (conversation_inputs ins) (rq_conversation req)
         \<and> rq_full_conversation_headers_only req = map header_of (rq_conversation req)
         \<and> rq_external_links req = cm_external_links (last (rq_conversation req))
         \<and> create_explicit_context (fill_mode e) (if instructions_of ins = [] then d else instructions_of ins)
             = Some (rq_explicit_context req)
         \<and> asks_for model slow msg_id info req \<and> rq_mcp_tools req = [] \<and> \<not> rq_is_agentic req)"
proof -
  let ?urls = "concat (map openai_urls (conversation_inputs ins))"
  from process_chat_inputs_spec [OF assms(1), of vision ins, unfolded openai_image_picture] obtain r where r: "process_chat_inputs e vision ins = Some r"
    "case r of
       Inl err \<Rightarrow> refused (picture e) vision ?urls = Some err
     | Inr (instructions, ms, links) \<Rightarrow> refused (picture e) vision ?urls = None
         \<and> instructions = (if instructions_of ins = [] then d else instructions_of ins) \<and> headers_match ms
         \<and> list_all2 (message_matches e vision) (conversation_inputs ins) (ms_inner ms)
         \<and> links = cm_external_links (last (ms_inner ms))
         \<and> (\<exists>i'. ids_moved e (ms_inner ms) \<lparr>base_uuid = base_uuid_start e, v4_calls = 0\<rparr> i'
              \<and> ids_drawn e (ms_inner ms) \<lparr>base_uuid = base_uuid_start e, v4_calls = 0\<rparr> i')" by blast
  show ?thesis
  proof (cases r)
    case (Inl err)
    with r show ?thesis by (simp add: openai_create_params_def vision_def)
  next
    case (Inr x)
    then obtain instr ms links where x: "r = Inr (instr, ms, links)" by (cases x) auto
    with r(2) have f: "refused (picture e) vision ?urls = None" "instr = (if instructions_of ins = [] then d else instructions_of ins)"
      "headers_match ms" "list_all2 (message_matches e vision) (conversation_inputs ins) (ms_inner ms)"
      "links = cm_external_links (last (ms_inner ms))" by auto
    obtain ctx where ctx: "create_explicit_context (fill_mode e) instr = Some ctx" by (simp only: explicit_context_fields)
    let ?req = "openai_request e model msg_id info slow ctx ms links"
    have "openai_create_params e encoded_len encode_raw gzip ins model msg_id info disable_vision slow
        = Some (if length (encode_raw ?req) > MAX_DECOMPRESSED_SIZE_BYTES then Inl AdapterExceedSizeLimit
                else Inr (frame_bytes (frame_message gzip (encode_raw ?req))))"
      using r(1) x ctx encode_message_framed_eq [of encoded_len ?req encode_raw gzip] assms(2)
      by (simp add: openai_create_params_def vision_def)
    moreover have "list_all2 (message_matches e vision) (conversation_inputs ins) (rq_conversation ?req)"
      "rq_full_conversation_headers_only ?req = map header_of (rq_conversation ?req)"
      "rq_external_links ?req = cm_external_links (last (rq_conversation ?req))"
      "create_explicit_context (fill_mode e) (if instructions_of ins = [] then d else instructions_of ins) = Some (rq_explicit_context ?req)"
      "asks_for model slow msg_id info ?req" "rq_mcp_tools ?req = []" "\<not> rq_is_agentic ?req"
      using f ctx
      by (simp_all add: openai_request_def headers_match_def Let_def asks_for_def to_opt_def ThinkingLevel_High_def ThinkingLevel_Unspecified_def)
    ultimately show ?thesis unfolding f(1) option.case by - (rule exI, rule conjI, assumption, rule exI [of _ ?req], intro conjI; (rule refl | assumption))
  qed
qed

text \<open>How many numbers and random identifiers a message of the client uses up.\<close>

definition numbers_of :: "adapter_env \<Rightarrow> bool \<Rightarrow> openai_message \<Rightarrow> nat" where
  "numbers_of e image_support m =
     (if om_role m = User
      then (if image_support then length (openai_urls m) else 0) + length (link_urls (url_scheme e) (system_text m)) else 0)"

definition draws_of :: "openai_message \<Rightarrow> nat" where
  "draws_of m = (if om_role m = User then 1 else 2)"

lemma message_matches_counts:
  assumes "message_matches e b m cm"
  shows "length (message_uuids cm) = numbers_of e b m" "length (message_ids cm) = draws_of m"
proof -
  have "length (cm_images cm) = length (accepted (picture e) b (openai_urls m))"
    "length (cm_external_links cm) = length (link_urls (url_scheme e) (system_text m))" if "om_role m = User"
    using assms that by (simp_all add: message_matches_def flip: length_image_contents length_map [of el_url])
  then show "length (message_uuids cm) = numbers_of e b m" "length (message_ids cm) = draws_of m"
    using assms
    by (auto simp: message_matches_def message_uuids_def message_ids_def numbers_of_def draws_of_def accepted_def split: Role.splits)
qed

lemma conversation_counts:
  "list_all2 (message_matches e b) ins ms \<Longrightarrow>
    length (concat (map message_uuids ms)) = sum_list (map (numbers_of e b) ins)
    \<and> length (concat (map message_ids ms)) = sum_list (map draws_of ins)"
  by (induction rule: list_all2_induct) (simp_all add: message_matches_counts)

text \<open>C7: The identifiers of a request.  The pictures and links of the whole conversation are numbered consecutively from the
  start of the counter, one number each, so they differ as long as there are at most 65536 of them, which is where the 16-bit
  counter wraps.  The messages get the values of the random generator in the order they are drawn, one for a message of the
  user and two for one of the assistant; when those values differ, so do the identifiers.\<close>

theorem openai_identifiers_distinct:
  assumes "process_chat_inputs e b ins = Some (Inr (instructions, ms, links))"
    and "instructions_get (default_ins e) (time_now e) = Some d"
  defines "n \<equiv> sum_list (map (numbers_of e b) (conversation_inputs ins))" and "k \<equiv> sum_list (map draws_of (conversation_inputs ins))"
  shows "concat (map message_uuids (ms_inner ms)) = map (\<lambda>i. show_nat (unat (base_uuid_start e + of_nat i))) [0..<n]
    \<and> (n \<le> 65536 \<longrightarrow> distinct (concat (map message_uuids (ms_inner ms))))
    \<and> concat (map message_ids (ms_inner ms)) = map (new_v4 e) [0..<k]
    \<and> (inj_on (new_v4 e) {0..<k} \<longrightarrow> distinct (concat (map message_ids (ms_inner ms))))"
proof -
  let ?i = "\<lparr>base_uuid = base_uuid_start e, v4_calls = 0\<rparr>"
  from process_chat_inputs_spec [OF assms(2), of b ins] assms(1)
  obtain i' where m: "ids_moved e (ms_inner ms) ?i i'" "ids_drawn e (ms_inner ms) ?i i'"
    "list_all2 (message_matches e b) (conversation_inputs ins) (ms_inner ms)" by auto
  from m(1) obtain n' where "concat (map message_uuids (ms_inner ms)) = counted (base_uuid_start e) n'" by (auto simp: ids_moved_def)
  moreover have "concat (map message_ids (ms_inner ms)) = map (new_v4 e) [0..<v4_calls i']" using m(2) by (simp add: ids_drawn_def)
  ultimately have ids: "concat (map message_uuids (ms_inner ms)) = counted (base_uuid_start e) n"
    "concat (map message_ids (ms_inner ms)) = map (new_v4 e) [0..<k]"
    using conversation_counts [OF m(3)] by (simp_all add: n_def k_def)
  then show ?thesis using counted_distinct [of n "base_uuid_start e"] by (simp add: counted_def distinct_map)
qed

text \<open>A configuration and a conversation for examples: the assistant speaks first, the user sends a picture and a
  link.\<close>

definition sample_adapter_env :: adapter_env where
  "sample_adapter_env =
     \<lparr>vision_ability = VisionBase64, base64_decode = Some, http_get = (\<lambda>_. None), guess_format = (\<lambda>_. None),
      gif_animated = (\<lambda>_. False), image_size = (\<lambda>_ _. Some (1, 1)), url_scheme = (\<lambda>u. if take 4 u = bytes_of ''http'' then Some (bytes_of ''http'') else None),
      new_v4 = show_nat, base_uuid_start = 300,
      default_ins = \<lparr>template_z = bytes_of ''Be kind.'', indexes_z = [], template = bytes_of ''Be kind.'', indexes = []\<rparr>,
      time_now = bytes_of ''2025-01-01T00:00:00.000Z'', fill_mode = from_bits 1, long_context = False\<rparr>"

definition sample_chat :: "openai_message list" where
  "sample_chat =
     [\<lparr>om_role = Assistant, om_content = StringContent (bytes_of ''Hello'')\<rparr>,
      \<lparr>om_role = User, om_content = ArrayContent [TextObject (bytes_of ''see @http://a.b''), ImageUrlObject (bytes_of ''data:image/png;base64,AA'')]\<rparr>]"

definition sample_model :: ext_model where
  "sample_model = \<lparr>em_id = bytes_of ''m'', em_is_image = True, em_is_thinking = False, em_web = False, em_max = False\<rparr>"

lemma sample_instructions: "instructions_get (default_ins sample_adapter_env) (time_now sample_adapter_env) = Some (bytes_of ''Be kind.'')"
  by (simp add: sample_adapter_env_def instructions_get_def bytes_of_def)

theorem openai_request_faithful_witness:
  "\<exists>req :: unit chat_request.
     openai_create_params sample_adapter_env (\<lambda>m. 2 * length (rq_conversation m)) (\<lambda>m. concat (map (\<lambda>_. [0, 1]) (rq_conversation m))) id
       sample_chat sample_model [] () False False = Some (Inr (frame_bytes (frame_message id (concat (map (\<lambda>_. [0, 1]) (rq_conversation req))))))
     \<and> list_all2 (message_matches sample_adapter_env True) (conversation_inputs sample_chat) (rq_conversation req)
     \<and> concat (map (\<lambda>m. image_contents (cm_images m)) (rq_conversation req)) = [(bytes_of ''AA'', Some \<lparr>dim_width = 1, dim_height = 1\<rparr>)]
     \<and> rq_full_conversation_headers_only req = map header_of (rq_conversation req)"
proof -
  let ?len = "\<lambda>m :: unit chat_request. 2 * length (rq_conversation m)"
  let ?raw = "\<lambda>m :: unit chat_request. concat (map (\<lambda>_. [0, 1]) (rq_conversation m)) :: bytes"
  have len: "\<forall>m. ?len m = length (?raw m)" by (simp add: length_concat o_def sum_list_triv)
  have none: "refused (picture sample_adapter_env) (\<not> False \<and> em_is_image sample_model) (concat (map openai_urls (conversation_inputs sample_chat))) = None"
    by code_simp
  have n: "length (conversation_inputs sample_chat) = 3" by code_simp
  from openai_request_faithful [OF sample_instructions len, of id sample_chat sample_model "[]" "()" False False]
  obtain r and req :: "unit chat_request" where r:
    "openai_create_params sample_adapter_env ?len ?raw id sample_chat sample_model [] () False False = Some r"
    "r = (if length (?raw req) > MAX_DECOMPRESSED_SIZE_BYTES then Inl AdapterExceedSizeLimit else Inr (frame_bytes (frame_message id (?raw req))))"
    "list_all2 (message_matches sample_adapter_env (\<not> False \<and> em_is_image sample_model)) (conversation_inputs sample_chat) (rq_conversation req)"
    "rq_full_conversation_headers_only req = map header_of (rq_conversation req)"
    unfolding none option.case by (elim exE conjE) (rule that; assumption)
  have "length (rq_conversation req) = 3" using list_all2_lengthD [OF r(3)] n by simp
  then have small: "\<not> length (?raw req) > MAX_DECOMPRESSED_SIZE_BYTES"
    by (simp add: length_concat o_def sum_list_triv MAX_DECOMPRESSED_SIZE_BYTES_def)
  have "em_is_image sample_model" by (simp add: sample_model_def)
  then have mm: "list_all2 (message_matches sample_adapter_env True) (conversation_inputs sample_chat) (rq_conversation req)"
    using r(3) by simp
  have ims: "image_contents (cm_images cm) = (if om_role m = User then accepted (picture sample_adapter_env) True (openai_urls m) else [])"
    if "message_matches sample_adapter_env True m cm" for m cm
    using that by (auto simp: message_matches_def split: Role.splits)
  have "map (\<lambda>m. image_contents (cm_images m)) (rq_conversation req)
    = map (\<lambda>m. if om_role m = User then accepted (picture sample_adapter_env) True (openai_urls m) else []) (conversation_inputs sample_chat)"
    using mm by (induction rule: list_all2_induct) (auto simp: ims)
  moreover have "concat (map (\<lambda>m. if om_role m = User then accepted (picture sample_adapter_env) True (openai_urls m) else []) (conversation_inputs sample_chat))
    = [(bytes_of ''AA'', Some \<lparr>dim_width = 1, dim_height = 1\<rparr>)]" by code_simp
  ultimately show ?thesis using r small mm by auto
qed

theorem openai_identifiers_distinct_witness:
  "\<exists>ms links. process_chat_inputs sample_adapter_env True sample_chat = Some (Inr (bytes_of ''Be kind.'', ms, links))
     \<and> concat (map message_uuids (ms_inner ms)) = [bytes_of ''300'', bytes_of ''301''] \<and> distinct (concat (map message_uuids (ms_inner ms)))"
proof -
  let ?r = "process_chat_inputs sample_adapter_env True sample_chat"
  have "map_option (map_sum id (\<lambda>(t, ms, links). (t, concat (map message_uuids (ms_inner ms))))) ?r
      = Some (Inr (bytes_of ''Be kind.'', [bytes_of ''300'', bytes_of ''301'']))" by code_simp
  then obtain r where r: "?r = Some r" "map_sum id (\<lambda>(t, ms, links). (t, concat (map message_uuids (ms_inner ms)))) r
      = Inr (bytes_of ''Be kind.'', [bytes_of ''300'', bytes_of ''301''])" by auto
  from r(2) obtain ms links where x: "r = Inr (bytes_of ''Be kind.'', ms, links)"
    "concat (map message_uuids (ms_inner ms)) = [bytes_of ''300'', bytes_of ''301'']" by (cases r) auto
  have "?r = Some (Inr (bytes_of ''Be kind.'', ms, links))" using r(1) x(1) by simp
  note run = this
  have "sum_list (map (numbers_of sample_adapter_env True) (conversation_inputs sample_chat)) = 2" by code_simp
  then have "sum_list (map (numbers_of sample_adapter_env True) (conversation_inputs sample_chat)) \<le> 65536" by simp
  with openai_identifiers_distinct [OF run sample_instructions] have "distinct (concat (map message_uuids (ms_inner ms)))" by blast
  with run x(2) show ?thesis by blast
qed

end
