(* ===== verification/Anthropic_Adapter.thy ===== *)
theory Anthropic_Adapter
  imports Chat_Request
begin

text \<open>
  The adapter of the Anthropic interface, \<^verbatim>\<open>src/core/adapter/anthropic.rs\<close>, with the data types of
  requests of \<^verbatim>\<open>src/core/model/anthropic.rs\<close>.  A message of the assistant that ends with the use of a
  tool and the message of the user with its result become one exchange of the conversation.

  A JSON value is a parameter type, its printer an argument.  \<^term>\<open>None\<close> is undefined behaviour,
  here \<^verbatim>\<open>__unreachable!\<close>.
\<close>

section \<open>Requests of the client\<close>

datatype MediaType = ImagePng | ImageJpeg | ImageGif | ImageWebp

definition from_mime :: "bytes \<Rightarrow> MediaType option" where
  "from_mime mime =
     (if mime = bytes_of ''image/jpeg'' then Some ImageJpeg
      else if mime = bytes_of ''image/png'' then Some ImagePng
      else if mime = bytes_of ''image/gif'' then Some ImageGif
      else if mime = bytes_of ''image/webp'' then Some ImageWebp
      else None)"

datatype ImageSource = Base64Source MediaType bytes | UrlSource bytes

datatype ToolResultContentBlock = ToolText bytes | ToolImage ImageSource

datatype ToolResultContent = ToolString bytes | ToolArray "ToolResultContentBlock list"

datatype 'v ContentBlockParam =
  TextParam bytes
  | ImageParam ImageSource
  | ThinkingParam bytes bytes
  | RedactedParam bytes
  | ToolUseParam bytes bytes 'v
  | ToolResultParam bytes "ToolResultContent option" bool

datatype 'v param_content = StringParam bytes | ArrayParam "'v ContentBlockParam list"

record 'v message_param =
  mp_role :: Role
  mp_content :: "'v param_content"

datatype SystemContent = SystemString bytes | SystemArray "bytes list"

record 'v tool_param =
  tl_input_schema :: 'v
  tl_name :: bytes
  tl_description :: "bytes option"

text \<open>Roles other than those of user and assistant are refused when the request is read.\<close>

definition deserialize_anthropic_role :: "bytes \<Rightarrow> Role option" where
  "deserialize_anthropic_role s =
     (if s = bytes_of ''user'' then Some User else if s = bytes_of ''assistant'' then Some Assistant else None)"

section \<open>Images\<close>

definition anthropic_base64_image :: "adapter_env \<Rightarrow> MediaType \<Rightarrow> bytes \<Rightarrow> AdapterError + bytes \<times> dimension option" where
  "anthropic_base64_image e media_type data =
     (case base64_decode e data of
        None \<Rightarrow> Inl Base64DecodeFailed
      | Some image_data \<Rightarrow>
          checked_image e (case media_type of ImagePng \<Rightarrow> Png | ImageJpeg \<Rightarrow> Jpeg | ImageGif \<Rightarrow> Gif | ImageWebp \<Rightarrow> WebP) image_data)"

definition anthropic_image :: "adapter_env \<Rightarrow> ImageSource \<Rightarrow> AdapterError + bytes \<times> dimension option" where
  "anthropic_image e source =
     (case vision_ability e of
        VisionNone \<Rightarrow> Inl VisionDisabled
      | VisionBase64 \<Rightarrow>
          (case source of
             Base64Source media_type data \<Rightarrow> anthropic_base64_image e media_type data
           | UrlSource url \<Rightarrow> Inl Base64Only)
      | VisionAll \<Rightarrow>
          (case source of
             Base64Source media_type data \<Rightarrow> anthropic_base64_image e media_type data
           | UrlSource url \<Rightarrow> process_http_image e url))"

section \<open>Tool results\<close>

definition tool_part :: "ToolResultContentBlock \<Rightarrow> ImageSource part" where
  "tool_part c = (case c of ToolText t \<Rightarrow> TextPart t | ToolImage s \<Rightarrow> ImagePart s)"

definition tool_text ::
  "adapter_env \<Rightarrow> bool \<Rightarrow> ToolResultContent option \<Rightarrow> id_state \<Rightarrow> AdapterError + bytes \<times> image_proto list \<times> id_state" where
  "tool_text e image_support content i =
     (case content of
        None \<Rightarrow> Inr ([], [], i)
      | Some (ToolString t) \<Rightarrow> Inr (t, [], i)
      | Some (ToolArray blocks) \<Rightarrow>
          (case collect_parts (anthropic_image e) image_support (map tool_part blocks) [] [] i of
             Inl err \<Rightarrow> Inl err
           | Inr (text_parts, images, i) \<Rightarrow> Inr (join [0x0A] text_parts, images, i)))"

text \<open>The use of a tool at the end of a message, and the message that is only its result.\<close>

definition tool_use_last :: "'v ContentBlockParam list \<Rightarrow> (bytes \<times> bytes \<times> 'v) option" where
  "tool_use_last blocks =
     (if blocks = [] then None
      else case last blocks of ToolUseParam tid name input \<Rightarrow> Some (tid, name, input) | _ \<Rightarrow> None)"

definition single_tool_result :: "'v message_param list \<Rightarrow> (bytes \<times> ToolResultContent option \<times> bool) option" where
  "single_tool_result rest =
     (case rest of
        [] \<Rightarrow> None
      | m # _ \<Rightarrow>
          if mp_role m = User then
            (case mp_content m of
               ArrayParam [ToolResultParam tool_use_id content is_error] \<Rightarrow> Some (tool_use_id, content, is_error)
             | _ \<Rightarrow> None)
          else None)"

definition tool_name :: "bytes \<Rightarrow> bytes" where
  "tool_name name = bytes_of ''mcp_'' @ sanitize_tool_name name @ bytes_of ''_'' @ name"

definition make_tool_result ::
  "('v \<Rightarrow> bytes) \<Rightarrow> bytes \<Rightarrow> bytes \<Rightarrow> 'v \<Rightarrow> bytes \<Rightarrow> bool \<Rightarrow> bytes \<Rightarrow> image_proto list \<Rightarrow> tool_result" where
  "make_tool_result to_json tid name input tool_use_id is_error tx images =
     (let tool_id = tool_id_parse tool_use_id;
          error = (if is_error then Some tx else None);
          raw_args = to_json input
      in \<lparr>tr_tool_call_id = ti_tool_call_id tool_id, tr_tool_name = tool_name name, tr_tool_index = 1,
          tr_model_call_id = ti_model_call_id tool_id, tr_raw_args = raw_args,
          tr_result = Some \<lparr>cx_tool = ClientSideToolV2_Mcp, cx_tool_call_id = ti_tool_call_id tool_id, cx_error = error,
            cx_model_call_id = ti_model_call_id tool_id, cx_tool_index = Some 1,
            cx_result = Some \<lparr>mr_selected_tool = name, mr_result = tx\<rparr>\<rparr>,
          tr_error = error, tr_images = images,
          tr_tool_call = Some \<lparr>cc_tool = ClientSideToolV2_Mcp, cc_tool_call_id = tid, cc_name = tool_name name,
            cc_is_streaming = False, cc_is_last_message = False, cc_raw_args = [], cc_tool_index = Some 1,
            cc_model_call_id = None,
            cc_params = Some [\<lparr>mt_name = name, mt_description = [], mt_parameters = raw_args, mt_server_name = []\<rparr>]\<rparr>\<rparr>)"

definition unified_mode :: "bool \<Rightarrow> i32" where
  "unified_mode is_agentic = (if is_agentic then UnifiedMode_Agent else UnifiedMode_Chat)"

text \<open>The result of a tool as a message of its own; \<open>next_input\<close> tells whether the next message is used up.\<close>

definition tool_exchange_message ::
  "adapter_env \<Rightarrow> ('v \<Rightarrow> bytes) \<Rightarrow> bool \<Rightarrow> bool \<Rightarrow> 'v ContentBlockParam list \<Rightarrow> 'v message_param list \<Rightarrow> id_state
   \<Rightarrow> AdapterError + conversation_message option \<times> id_state" where
  "tool_exchange_message e to_json image_support is_agentic blocks rest i =
     (case (tool_use_last blocks, single_tool_result rest) of
        (Some (tid, name, input), Some (tool_use_id, content, is_error)) \<Rightarrow>
          (case tool_text e image_support content i of
             Inl err \<Rightarrow> Inl err
           | Inr (tx, images, i) \<Rightarrow>
               let (bubble, i) = next_v4 e i; (server_bubble, i) = next_v4 e i
               in Inr (Some (message_default
                    \<lparr>cm_type := MessageType_Ai, cm_bubble_id := bubble, cm_server_bubble_id := Some server_bubble,
                     cm_tool_results := [make_tool_result to_json tid name input tool_use_id is_error tx images],
                     cm_unified_mode := Some (unified_mode is_agentic)\<rparr>), i))
      | _ \<Rightarrow> Inr (None, i))"

section \<open>The conversation\<close>

definition user_part :: "'v ContentBlockParam \<Rightarrow> ImageSource part" where
  "user_part c = (case c of TextParam t \<Rightarrow> TextPart t | ImageParam s \<Rightarrow> ImagePart s | _ \<Rightarrow> OtherPart)"

fun thinking_block :: "'v ContentBlockParam \<Rightarrow> pb_thinking option" where
  "thinking_block (ThinkingParam t s) = Some \<lparr>pt_text = t, pt_signature = s, pt_redacted_thinking = []\<rparr>"
| "thinking_block (RedactedParam d) = Some \<lparr>pt_text = [], pt_signature = [], pt_redacted_thinking = d\<rparr>"
| "thinking_block _ = None"

fun text_block :: "'v ContentBlockParam \<Rightarrow> bytes option" where
  "text_block (TextParam t) = Some t"
| "text_block _ = None"

definition merge_thinking :: "pb_thinking list \<Rightarrow> pb_thinking option" where
  "merge_thinking ts =
     (case ts of
        [] \<Rightarrow> None
      | [t] \<Rightarrow> Some t
      | _ \<Rightarrow> Some \<lparr>pt_text = join [] (filter (\<lambda>s. s \<noteq> []) (map pt_text ts)), pt_signature = [], pt_redacted_thinking = []\<rparr>)"

text \<open>The contents of a message: its text, images, thoughts and the message with the result of the tool it used.\<close>

definition message_content ::
  "adapter_env \<Rightarrow> ('v \<Rightarrow> bytes) \<Rightarrow> bool \<Rightarrow> bool \<Rightarrow> 'v message_param \<Rightarrow> 'v message_param list \<Rightarrow> id_state
   \<Rightarrow> (AdapterError + bytes \<times> image_proto list \<times> pb_thinking list \<times> conversation_message option \<times> id_state) ub" where
  "message_content e to_json image_support is_agentic input rest i =
     (case mp_content input of
        StringParam t \<Rightarrow> Some (Inr (t, [], [], None, i))
      | ArrayParam blocks \<Rightarrow>
          (case mp_role input of
             User \<Rightarrow>
               (case collect_parts (anthropic_image e) image_support (map user_part blocks) [] [] i of
                  Inl err \<Rightarrow> Some (Inl err)
                | Inr (text_parts, images, i) \<Rightarrow> Some (Inr (join [0x0A] text_parts, images, [], None, i)))
           | Assistant \<Rightarrow>
               (case tool_exchange_message e to_json image_support is_agentic blocks rest i of
                  Inl err \<Rightarrow> Some (Inl err)
                | Inr (next, i) \<Rightarrow>
                    let blocks = (if tool_use_last blocks \<noteq> None then butlast blocks else blocks)
                    in Some (Inr (join [0x0A] (List.map_filter text_block blocks), [], List.map_filter thinking_block blocks, next, i)))
           | System \<Rightarrow> None))"

definition anthropic_fields ::
  "adapter_env \<Rightarrow> Role \<Rightarrow> bytes \<Rightarrow> id_state
   \<Rightarrow> (bytes \<times> web_reference list \<times> bool option \<times> external_link list \<times> id_state) ub" where
  "anthropic_fields e role tx i =
     (case role of
        Assistant \<Rightarrow>
          let (tx, web_refs, has_web) = extract_web_references_info tx
          in Some (tx, web_refs, to_opt has_web, [], i)
      | User \<Rightarrow>
          let (external_links, u) = extract_external_links (url_scheme e) tx (base_uuid i)
          in Some (tx, [], None, external_links, i\<lparr>base_uuid := u\<rparr>)
      | System \<Rightarrow> None)"

text \<open>One round of the loop: the message, and the one after it when there is a tool result.\<close>

definition anthropic_message_of ::
  "adapter_env \<Rightarrow> ('v \<Rightarrow> bytes) \<Rightarrow> bool \<Rightarrow> bool \<Rightarrow> 'v message_param \<Rightarrow> 'v message_param list \<Rightarrow> id_state
   \<Rightarrow> (AdapterError + conversation_message \<times> conversation_message option \<times> id_state) ub" where
  "anthropic_message_of e to_json image_support is_agentic input rest i = do {
     r \<leftarrow> message_content e to_json image_support is_agentic input rest i;
     (case r of
        Inl err \<Rightarrow> Some (Inl err)
      | Inr (tx, images, thinking, next, i) \<Rightarrow> do {
          (final_text, web_references, use_web, external_links, i) \<leftarrow> anthropic_fields e (mp_role input) tx i;
          let is_user = (mp_role input = User);
          let (bubble, i) = next_v4 e i;
          let (server_bubble, i) = (if is_user then (None, i) else let (b, i) = next_v4 e i in (Some b, i));
          Some (Inr
            (\<lparr>cm_text = final_text, cm_type = (if is_user then MessageType_Human else MessageType_Ai), cm_images = images,
              cm_bubble_id = bubble, cm_server_bubble_id = server_bubble, cm_tool_results = [],
              cm_is_agentic = (is_agentic \<and> is_user), cm_web_references = web_references,
              cm_thinking = merge_thinking thinking, cm_unified_mode = Some (unified_mode is_agentic), cm_supported_tools = [],
              cm_external_links = external_links, cm_use_web = use_web\<rparr>, next, i))
        })
   }"

function anthropic_messages ::
  "adapter_env \<Rightarrow> ('v \<Rightarrow> bytes) \<Rightarrow> bool \<Rightarrow> bool \<Rightarrow> 'v message_param list \<Rightarrow> messages \<Rightarrow> id_state \<Rightarrow> (AdapterError + messages) ub" where
  "anthropic_messages e to_json image_support is_agentic [] ms i = Some (Inr ms)"
| "anthropic_messages e to_json image_support is_agentic (input # rest) ms i = do {
     r \<leftarrow> anthropic_message_of e to_json image_support is_agentic input rest i;
     (case r of
        Inl err \<Rightarrow> Some (Inl err)
      | Inr (m, next, i) \<Rightarrow>
          (case next of
             None \<Rightarrow> anthropic_messages e to_json image_support is_agentic rest (messages_push m ms) i
           | Some n \<Rightarrow> anthropic_messages e to_json image_support is_agentic (drop 1 rest) (messages_push n (messages_push m ms)) i))
   }"
  by pat_completeness auto
termination by (relation "measure (\<lambda>(_, _, _, _, inputs, _). length inputs)") auto

definition set_supported_tools :: "i32 list \<Rightarrow> messages \<Rightarrow> messages" where
  "set_supported_tools tools ms =
     (if ms_inner ms = [] then ms
      else ms\<lparr>ms_inner := butlast (ms_inner ms) @ [(last (ms_inner ms))\<lparr>cm_supported_tools := tools\<rparr>]\<rparr>)"

definition process_message_params ::
  "adapter_env \<Rightarrow> ('v \<Rightarrow> bytes) \<Rightarrow> bool \<Rightarrow> bool \<Rightarrow> i32 list \<Rightarrow> SystemContent option \<Rightarrow> 'v message_param list
   \<Rightarrow> (AdapterError + bytes \<times> messages \<times> external_link list) ub" where
  "process_message_params e to_json image_support is_agentic supported_tools system params = do {
     instructions \<leftarrow> (case system of
        Some (SystemString t) \<Rightarrow> Some t
      | Some (SystemArray ts) \<Rightarrow> Some (join [0x0A] ts)
      | None \<Rightarrow> instructions_get (default_ins e) (time_now e));
     (if params = [] then Some (Inr (instructions, empty_conversation e, []))
      else do {
        let params = (if mp_role (hd params) = Assistant then \<lparr>mp_role = User, mp_content = StringParam []\<rparr> # params else params);
        r \<leftarrow> anthropic_messages e to_json image_support is_agentic params messages_new \<lparr>base_uuid = base_uuid_start e, v4_calls = 0\<rparr>;
        (case r of
           Inl err \<Rightarrow> Some (Inl err)
         | Inr ms \<Rightarrow>
             let links = (case messages_last ms of Some m \<Rightarrow> cm_external_links m | None \<Rightarrow> [])
             in Some (Inr (instructions, set_supported_tools supported_tools ms, links)))
      })
   }"

section \<open>The request\<close>

definition mcp_tool_of :: "('v \<Rightarrow> bytes) \<Rightarrow> 'v tool_param \<Rightarrow> mcp_tool" where
  "mcp_tool_of to_json t =
     \<lparr>mt_name = tl_name t, mt_description = (case tl_description t of Some d \<Rightarrow> d | None \<Rightarrow> []),
      mt_parameters = to_json (tl_input_schema t), mt_server_name = sanitize_tool_name (tl_name t)\<rparr>"

definition anthropic_request ::
  "adapter_env \<Rightarrow> ('v \<Rightarrow> bytes) \<Rightarrow> 'v tool_param list \<Rightarrow> ext_model \<Rightarrow> bytes \<Rightarrow> 'i \<Rightarrow> bool \<Rightarrow> explicit_context option \<Rightarrow> messages
   \<Rightarrow> external_link list \<Rightarrow> 'i chat_request" where
  "anthropic_request e to_json tools model msg_id environment_info enable_slow_pool explicit_context ms external_links =
     (let is_chat = (tools = []); is_agentic = (\<not> is_chat);
          supported_tools = (if is_agentic then [ClientSideToolV2_Mcp] else []);
          long = (long_context e \<or> List.member LONG_CONTEXT_MODELS (em_id model))
      in \<lparr>rq_conversation = ms_inner ms, rq_full_conversation_headers_only = ms_headers ms,
          rq_explicit_context = explicit_context,
          rq_model_details = Some \<lparr>md_model_name = Some (em_id model), md_azure_state = Some (),
            md_enable_slow_pool = to_opt enable_slow_pool, md_max_mode = Some (em_max model)\<rparr>,
          rq_use_web = (if em_web model then Some (bytes_of ''full_search'') else None),
          rq_external_links = external_links, rq_should_cache = Some True, rq_current_file = Some empty_file,
          rq_use_new_compression_scheme = Some True, rq_is_chat = is_chat, rq_conversation_id = msg_id,
          rq_environment_info = Some environment_info, rq_is_agentic = is_agentic, rq_supported_tools = supported_tools,
          rq_mcp_tools = map (mcp_tool_of to_json) tools,
          rq_use_full_inputs_context = to_opt long, rq_allow_model_fallbacks = Some False,
          rq_unified_mode = Some (unified_mode is_agentic), rq_should_disable_tools = Some is_chat,
          rq_thinking_level = Some (if em_is_thinking model then ThinkingLevel_High else ThinkingLevel_Unspecified),
          rq_uses_rules = Some False,
          rq_unified_mode_name = Some (if is_chat then bytes_of ''Ask'' else bytes_of ''Agent'')\<rparr>)"

definition anthropic_create_params ::
  "adapter_env \<Rightarrow> ('v \<Rightarrow> bytes) \<Rightarrow> ('i chat_request \<Rightarrow> nat) \<Rightarrow> ('i chat_request \<Rightarrow> bytes) \<Rightarrow> (bytes \<Rightarrow> bytes)
   \<Rightarrow> 'v message_param list \<Rightarrow> SystemContent option \<Rightarrow> 'v tool_param list \<Rightarrow> ext_model \<Rightarrow> bytes \<Rightarrow> 'i \<Rightarrow> bool \<Rightarrow> bool
   \<Rightarrow> (AdapterError + bytes) ub" where
  "anthropic_create_params e to_json encoded_len encode_raw gzip params system tools model msg_id environment_info disable_vision enable_slow_pool = do {
     let is_agentic = (tools \<noteq> []);
     r \<leftarrow> process_message_params e to_json (\<not> disable_vision \<and> em_is_image model) is_agentic
            (if is_agentic then [ClientSideToolV2_Mcp] else []) system params;
     (case r of
        Inl err \<Rightarrow> Some (Inl err)
      | Inr (instructions, ms, external_links) \<Rightarrow> do {
          explicit_context \<leftarrow> create_explicit_context (fill_mode e) instructions;
          r \<leftarrow> encode_message_framed encoded_len encode_raw gzip
                 (anthropic_request e to_json tools model msg_id environment_info enable_slow_pool explicit_context ms external_links);
          Some (case r of Inl _ \<Rightarrow> Inl AdapterExceedSizeLimit | Inr frame \<Rightarrow> Inr frame)
        })
   }"

section \<open>Turns\<close>

text \<open>A turn is a message, together with the result of the tool it used when that is the whole next message.\<close>

definition exchange :: "'v message_param \<Rightarrow> 'v message_param list
   \<Rightarrow> ((bytes \<times> bytes \<times> 'v) \<times> (bytes \<times> ToolResultContent option \<times> bool)) option" where
  "exchange m rest =
     (case mp_content m of
        ArrayParam blocks \<Rightarrow>
          if mp_role m = Assistant
          then (case (tool_use_last blocks, single_tool_result rest) of (Some u, Some r) \<Rightarrow> Some (u, r) | _ \<Rightarrow> None)
          else None
      | StringParam _ \<Rightarrow> None)"

function turns :: "'v message_param list
   \<Rightarrow> ('v message_param \<times> ((bytes \<times> bytes \<times> 'v) \<times> (bytes \<times> ToolResultContent option \<times> bool)) option) list" where
  "turns [] = []"
| "turns (m # rest) = (m, exchange m rest) # turns (if exchange m rest = None then rest else drop 1 rest)"
  by pat_completeness auto
termination by (relation "measure length") auto

definition content_text :: "ToolResultContent option \<Rightarrow> bytes" where
  "content_text content =
     (case content of
        None \<Rightarrow> []
      | Some (ToolString t) \<Rightarrow> t
      | Some (ToolArray blocks) \<Rightarrow> join [0x0A] (part_texts (map tool_part blocks)))"

definition content_images :: "ToolResultContent option \<Rightarrow> ImageSource list" where
  "content_images content = (case content of Some (ToolArray blocks) \<Rightarrow> part_images (map tool_part blocks) | _ \<Rightarrow> [])"

definition turn_images ::
  "'v message_param \<times> ((bytes \<times> bytes \<times> 'v) \<times> (bytes \<times> ToolResultContent option \<times> bool)) option \<Rightarrow> ImageSource list" where
  "turn_images t =
     (case snd t of
        Some (_, (_, content, _)) \<Rightarrow> content_images content
      | None \<Rightarrow>
          (case mp_content (fst t) of
             ArrayParam blocks \<Rightarrow> if mp_role (fst t) = User then part_images (map user_part blocks) else []
           | StringParam _ \<Rightarrow> []))"

definition param_text :: "'v message_param \<Rightarrow> bytes" where
  "param_text m =
     (case mp_content m of StringParam t \<Rightarrow> t | ArrayParam blocks \<Rightarrow> join [0x0A] (List.map_filter text_block blocks))"

definition param_thinking :: "'v message_param \<Rightarrow> pb_thinking list" where
  "param_thinking m =
     (case mp_content m of
        StringParam _ \<Rightarrow> []
      | ArrayParam blocks \<Rightarrow> if mp_role m = Assistant then List.map_filter thinking_block blocks else [])"

definition param_images :: "'v message_param \<Rightarrow> ImageSource list" where
  "param_images m =
     (case mp_content m of
        ArrayParam blocks \<Rightarrow> if mp_role m = User then part_images (map user_part blocks) else []
      | StringParam _ \<Rightarrow> [])"

text \<open>What an image of the client becomes.\<close>

definition source_picture :: "adapter_env \<Rightarrow> ImageSource \<Rightarrow> AdapterError + bytes \<times> dimension option" where
  "source_picture e source =
     (if vision_ability e = VisionNone then Inl VisionDisabled
      else case source of
        Base64Source t coded \<Rightarrow>
          (case base64_decode e coded of
             None \<Rightarrow> Inl Base64DecodeFailed
           | Some data \<Rightarrow>
               picture_of e (if t = ImageGif then Gif else if t = ImageJpeg then Jpeg else if t = ImagePng then Png else WebP) data)
      | UrlSource url \<Rightarrow> if vision_ability e = VisionBase64 then Inl Base64Only else linked_picture e url)"

lemma anthropic_image_picture: "anthropic_image e = source_picture e"
  by (rule ext)
    (auto simp: anthropic_image_def source_picture_def anthropic_base64_image_def checked_image_picture http_image_picture
      split: VisionAbility.splits option.splits ImageSource.splits MediaType.splits)

text \<open>What the result of a tool becomes: the call with its arguments, and the result, the error and the pictures for it.\<close>

definition result_matches ::
  "adapter_env \<Rightarrow> bool \<Rightarrow> ('v \<Rightarrow> bytes) \<Rightarrow> bytes \<Rightarrow> bytes \<Rightarrow> 'v \<Rightarrow> bytes \<Rightarrow> ToolResultContent option \<Rightarrow> bool \<Rightarrow> tool_result \<Rightarrow> bool" where
  "result_matches e image_support to_json tid name input tool_use_id content is_error x \<longleftrightarrow>
     (let full_name = bytes_of ''mcp_'' @ sanitize_tool_name name @ bytes_of ''_'' @ name;
          call = ti_tool_call_id (tool_id_parse tool_use_id); model_call = ti_model_call_id (tool_id_parse tool_use_id);
          error = (if is_error then Some (content_text content) else None)
      in tr_tool_call_id x = call \<and> tr_model_call_id x = model_call \<and> tr_tool_name x = full_name \<and> tr_tool_index x = 1
         \<and> tr_raw_args x = to_json input \<and> tr_error x = error
         \<and> tr_result x = Some \<lparr>cx_tool = 19, cx_tool_call_id = call, cx_error = error, cx_model_call_id = model_call,
              cx_tool_index = Some 1, cx_result = Some \<lparr>mr_selected_tool = name, mr_result = content_text content\<rparr>\<rparr>
         \<and> tr_tool_call x = Some \<lparr>cc_tool = 19, cc_tool_call_id = tid, cc_name = full_name, cc_is_streaming = False,
              cc_is_last_message = False, cc_raw_args = [], cc_tool_index = Some 1, cc_model_call_id = None,
              cc_params = Some [\<lparr>mt_name = name, mt_description = [], mt_parameters = to_json input, mt_server_name = []\<rparr>]\<rparr>
         \<and> image_contents (tr_images x) = accepted (source_picture e) image_support (content_images content))"

lemma make_tool_result_matches:
  "image_contents images = accepted (source_picture e) b (content_images content) \<Longrightarrow>
    result_matches e b to_json tid name input tool_use_id content is_error
      (make_tool_result to_json tid name input tool_use_id is_error (content_text content) images)"
  by (simp add: result_matches_def make_tool_result_def tool_name_def ClientSideToolV2_Mcp_def Let_def)

definition param_matches :: "adapter_env \<Rightarrow> bool \<Rightarrow> bool \<Rightarrow> 'v message_param \<Rightarrow> conversation_message \<Rightarrow> bool" where
  "param_matches e image_support is_agentic input m \<longleftrightarrow>
     (case mp_role input of
        User \<Rightarrow> cm_type m = MessageType_Human \<and> cm_text m = param_text input \<and> cm_web_references m = [] \<and> cm_use_web m = None
          \<and> cm_server_bubble_id m = None \<and> cm_is_agentic m = is_agentic
          \<and> image_contents (cm_images m) = accepted (source_picture e) image_support (param_images input)
          \<and> map el_url (cm_external_links m) = link_urls (url_scheme e) (param_text input)
      | Assistant \<Rightarrow> cm_type m = MessageType_Ai \<and> cm_server_bubble_id m \<noteq> None \<and> cm_external_links m = [] \<and> cm_images m = []
          \<and> (cm_text m, cm_web_references m, cm_use_web m = Some True) = extract_web_references_info (param_text input)
          \<and> \<not> cm_is_agentic m
      | System \<Rightarrow> False)
     \<and> cm_thinking m = merge_thinking (param_thinking input) \<and> cm_unified_mode m = Some (unified_mode is_agentic)
     \<and> cm_tool_results m = [] \<and> cm_supported_tools m = []"

definition turn_matches ::
  "adapter_env \<Rightarrow> bool \<Rightarrow> ('v \<Rightarrow> bytes) \<Rightarrow> bool \<Rightarrow> 'v message_param \<times> ((bytes \<times> bytes \<times> 'v) \<times> (bytes \<times> ToolResultContent option \<times> bool)) option
   \<Rightarrow> conversation_message list \<Rightarrow> bool" where
  "turn_matches e image_support to_json is_agentic t ms \<longleftrightarrow>
     (case snd t of
        None \<Rightarrow> \<exists>m. ms = [m] \<and> param_matches e image_support is_agentic (fst t) m
      | Some ((tid, name, input), (tool_use_id, content, is_error)) \<Rightarrow>
          \<exists>m r x. ms = [m, r] \<and> param_matches e image_support is_agentic (fst t) m \<and> cm_type r = MessageType_Ai \<and> cm_text r = []
            \<and> cm_images r = [] \<and> cm_external_links r = [] \<and> cm_web_references r = [] \<and> cm_thinking r = None
            \<and> cm_supported_tools r = [] \<and> cm_unified_mode r = Some (unified_mode is_agentic)
            \<and> cm_tool_results r = [x] \<and> result_matches e image_support to_json tid name input tool_use_id content is_error x)"

lemma map_filter_butlast:
  "bs \<noteq> [] \<Longrightarrow> f (last bs) = None \<Longrightarrow> List.map_filter f (butlast bs) = List.map_filter f bs"
  by (induction bs) (auto simp: List.map_filter_simps split: option.splits)

lemma without_tool_use:
  assumes "tool_use_last bs \<noteq> None"
  shows "List.map_filter text_block (butlast bs) = List.map_filter text_block bs"
    "List.map_filter thinking_block (butlast bs) = List.map_filter thinking_block bs"
proof -
  from assms have "bs \<noteq> []" "text_block (last bs) = None" "thinking_block (last bs) = None"
    by (auto simp: tool_use_last_def split: if_splits ContentBlockParam.splits)
  then show "List.map_filter text_block (butlast bs) = List.map_filter text_block bs"
    "List.map_filter thinking_block (butlast bs) = List.map_filter thinking_block bs" by (simp_all add: map_filter_butlast)
qed

lemma part_texts_user: "part_texts (map user_part bs) = List.map_filter text_block bs"
proof (induction bs)
  case (Cons x xs)
  then show ?case by (cases x) (simp_all add: List.map_filter_simps user_part_def)
qed (simp add: List.map_filter_simps)

lemma tool_text_spec:
  "case tool_text e b content i of
     Inl err \<Rightarrow> refused (anthropic_image e) b (content_images content) = Some err
   | Inr (tx, ims, i') \<Rightarrow> refused (anthropic_image e) b (content_images content) = None \<and> tx = content_text content
       \<and> image_contents ims = accepted (anthropic_image e) b (content_images content)
       \<and> map im_uuid ims = counted (base_uuid i) (length ims) \<and> i' = i\<lparr>base_uuid := base_uuid i + of_nat (length ims)\<rparr>"
proof (cases content)
  case (Some c)
  then show ?thesis
  proof (cases c)
    case (ToolArray blocks)
    with Some show ?thesis
      using collect_parts_spec [of "anthropic_image e" b "map tool_part blocks" "[]" "[]" i]
      by (auto simp: tool_text_def content_text_def content_images_def split: sum.splits)
  qed (simp add: tool_text_def content_text_def content_images_def)
qed (simp add: tool_text_def content_text_def content_images_def)

text \<open>The message of a tool result.\<close>

definition result_message :: "bool \<Rightarrow> bytes \<Rightarrow> bytes \<Rightarrow> tool_result \<Rightarrow> conversation_message" where
  "result_message is_agentic bubble server_bubble r =
     message_default\<lparr>cm_type := MessageType_Ai, cm_bubble_id := bubble, cm_server_bubble_id := Some server_bubble,
       cm_tool_results := [r], cm_unified_mode := Some (unified_mode is_agentic)\<rparr>"

text \<open>Messages without a tool exchange.\<close>

lemma message_content_plain:
  assumes "mp_role m \<noteq> System" "exchange m rest = None"
  shows "\<exists>r. message_content e to_json b is_agentic m rest i = Some r \<and>
    (case r of
       Inl err \<Rightarrow> refused (anthropic_image e) b (turn_images (m, None)) = Some err
     | Inr (tx, ims, thinking, next, i') \<Rightarrow> refused (anthropic_image e) b (turn_images (m, None)) = None
         \<and> tx = param_text m \<and> thinking = param_thinking m \<and> next = None \<and> (mp_role m = Assistant \<longrightarrow> ims = [])
         \<and> image_contents ims = accepted (anthropic_image e) b (param_images m)
         \<and> map im_uuid ims = counted (base_uuid i) (length ims) \<and> i' = i\<lparr>base_uuid := base_uuid i + of_nat (length ims)\<rparr>)"
proof (cases "mp_content m")
  case (StringParam t)
  then show ?thesis by (simp add: message_content_def turn_images_def param_text_def param_thinking_def param_images_def)
next
  case (ArrayParam bs)
  show ?thesis
  proof (cases "mp_role m")
    case User
    with ArrayParam show ?thesis
      using collect_parts_spec [of "anthropic_image e" b "map user_part bs" "[]" "[]" i]
      by (auto simp: message_content_def turn_images_def param_images_def param_text_def param_thinking_def part_texts_user split: sum.splits)
  next
    case Assistant
    then have "tool_exchange_message e to_json b is_agentic bs rest i = Inr (None, i)"
      using assms(2) ArrayParam by (auto simp: exchange_def tool_exchange_message_def split: option.splits)
    with Assistant ArrayParam show ?thesis
      by (simp add: message_content_def turn_images_def param_images_def param_text_def param_thinking_def without_tool_use)
  qed (use assms in simp)
qed

text \<open>The use of a tool, with its result.\<close>

lemma message_content_exchange:
  assumes "exchange m rest = Some ((tid, name, input), (tool_use_id, content, is_error))"
  shows "\<exists>r. message_content e to_json b is_agentic m rest i = Some r \<and>
    (case r of
       Inl err \<Rightarrow> refused (anthropic_image e) b (content_images content) = Some err
     | Inr (tx, ims, thinking, next, i') \<Rightarrow> refused (anthropic_image e) b (content_images content) = None
         \<and> tx = param_text m \<and> thinking = param_thinking m \<and> ims = [] \<and> (\<exists>images.
             next = Some (result_message is_agentic (new_v4 e (v4_calls i)) (new_v4 e (v4_calls i + 1))
               (make_tool_result to_json tid name input tool_use_id is_error (content_text content) images))
             \<and> image_contents images = accepted (anthropic_image e) b (content_images content)
             \<and> map im_uuid images = counted (base_uuid i) (length images)
             \<and> i' = \<lparr>base_uuid = base_uuid i + of_nat (length images), v4_calls = v4_calls i + 2\<rparr>))"
proof -
  obtain bs where m: "mp_role m = Assistant" "mp_content m = ArrayParam bs" "tool_use_last bs = Some (tid, name, input)"
    "single_tool_result rest = Some (tool_use_id, content, is_error)"
    using assms by (auto simp: exchange_def split: param_content.splits option.splits if_splits)
  note spec = tool_text_spec [of e b content i]
  show ?thesis
  proof (cases "tool_text e b content i")
    case (Inl err)
    with spec m show ?thesis by (simp add: message_content_def tool_exchange_message_def)
  next
    case (Inr x)
    then obtain tx images i1 where x: "tool_text e b content i = Inr (tx, images, i1)" by (cases x) auto
    with spec have t: "refused (anthropic_image e) b (content_images content) = None" "tx = content_text content"
      "image_contents images = accepted (anthropic_image e) b (content_images content)"
      "map im_uuid images = counted (base_uuid i) (length images)" "i1 = i\<lparr>base_uuid := base_uuid i + of_nat (length images)\<rparr>" by auto
    have "tool_exchange_message e to_json b is_agentic bs rest i
        = Inr (Some (result_message is_agentic (new_v4 e (v4_calls i)) (new_v4 e (v4_calls i + 1))
            (make_tool_result to_json tid name input tool_use_id is_error (content_text content) images)),
            \<lparr>base_uuid = base_uuid i + of_nat (length images), v4_calls = v4_calls i + 2\<rparr>)"
      using m x t by (simp add: tool_exchange_message_def next_v4_def result_message_def)
    with m t(1,3,4) show ?thesis
      by (simp add: message_content_def param_text_def param_thinking_def without_tool_use) (rule exI [of _ images], simp)
  qed
qed

text \<open>The rest of a round.\<close>

lemma finish_user:
  assumes "message_content e to_json b is_agentic m rest i = Some (Inr (param_text m, ims, param_thinking m, None, i1))"
    and "mp_role m = User" "image_contents ims = accepted (source_picture e) b (param_images m)" "map im_uuid ims = counted (base_uuid i) (length ims)" "i1 = i\<lparr>base_uuid := base_uuid i + of_nat (length ims)\<rparr>"
  shows "\<exists>cm i'. anthropic_message_of e to_json b is_agentic m rest i = Some (Inr (cm, None, i'))
    \<and> param_matches e b is_agentic m cm \<and> ids_moved e [cm] i i'"
proof -
  obtain links u where l: "extract_external_links (url_scheme e) (param_text m) (base_uuid i1) = (links, u)" by fastforce
  note ids = extract_external_links_ids [OF l]
  have "ids_moved e [cm] i (i1\<lparr>base_uuid := u, v4_calls := v4_calls i1 + 1\<rparr>)"
    if "cm_images cm = ims" "cm_external_links cm = links" "cm_tool_results cm = []" "cm_bubble_id cm = new_v4 e (v4_calls i)"
      "cm_server_bubble_id cm = None" for cm
    by (rule ids_moved_user) (use that assms(4,5) ids in simp_all)
  with assms l show ?thesis
    by (simp add: anthropic_message_of_def anthropic_fields_def next_v4_def param_matches_def external_link_urls [OF l])
qed

lemma finish_assistant:
  assumes "message_content e to_json b is_agentic m rest i = Some (Inr (param_text m, [], param_thinking m, next, i1))"
    and "mp_role m = Assistant"
  shows "\<exists>cm i'. anthropic_message_of e to_json b is_agentic m rest i = Some (Inr (cm, next, i'))
    \<and> param_matches e b is_agentic m cm \<and> ids_moved e [cm] i1 i'"
proof -
  obtain a refs has where x: "extract_web_references_info (param_text m) = (a, refs, has)"
    by (cases "extract_web_references_info (param_text m)")
  have "ids_moved e [cm] i1 (i1\<lparr>v4_calls := v4_calls i1 + 2\<rparr>)"
    if "cm_images cm = []" "cm_external_links cm = []" "cm_tool_results cm = []" "cm_bubble_id cm = new_v4 e (v4_calls i1)"
      "cm_server_bubble_id cm = Some (new_v4 e (v4_calls i1 + 1))" for cm
    by (rule ids_moved_assistant) (use that in \<open>simp_all add: message_uuids_def\<close>)
  with assms x show ?thesis
    by (simp add: anthropic_message_of_def anthropic_fields_def next_v4_def param_matches_def to_opt_def)
qed

lemma anthropic_message_spec:
  assumes "mp_role m \<noteq> System"
  shows "\<exists>r. anthropic_message_of e to_json b is_agentic m rest i = Some r \<and>
    (case r of
       Inl err \<Rightarrow> refused (anthropic_image e) b (turn_images (m, exchange m rest)) = Some err
     | Inr (cm, next, i') \<Rightarrow> refused (anthropic_image e) b (turn_images (m, exchange m rest)) = None
         \<and> turn_matches e b to_json is_agentic (m, exchange m rest) (cm # (case next of Some n \<Rightarrow> [n] | None \<Rightarrow> []))
         \<and> (next = None \<longleftrightarrow> exchange m rest = None) \<and> ids_moved e (cm # (case next of Some n \<Rightarrow> [n] | None \<Rightarrow> [])) i i')"
proof (cases "exchange m rest")
  case None
  from message_content_plain [OF assms None, of e to_json b is_agentic i] obtain r where
    r: "message_content e to_json b is_agentic m rest i = Some r"
    "case r of
       Inl err \<Rightarrow> refused (anthropic_image e) b (turn_images (m, None)) = Some err
     | Inr (tx, ims, thinking, next, i') \<Rightarrow> refused (anthropic_image e) b (turn_images (m, None)) = None
         \<and> tx = param_text m \<and> thinking = param_thinking m \<and> next = None \<and> (mp_role m = Assistant \<longrightarrow> ims = [])
         \<and> image_contents ims = accepted (anthropic_image e) b (param_images m)
         \<and> map im_uuid ims = counted (base_uuid i) (length ims) \<and> i' = i\<lparr>base_uuid := base_uuid i + of_nat (length ims)\<rparr>" by blast
  show ?thesis
  proof (cases r)
    case (Inl err)
    with r None show ?thesis by (simp add: anthropic_message_of_def)
  next
    case (Inr x)
    then obtain ims i1 where x: "r = Inr (param_text m, ims, param_thinking m, None, i1)" "mp_role m = Assistant \<Longrightarrow> ims = []"
      "refused (anthropic_image e) b (turn_images (m, None)) = None"
      "image_contents ims = accepted (source_picture e) b (param_images m)" "map im_uuid ims = counted (base_uuid i) (length ims)"
      "i1 = i\<lparr>base_uuid := base_uuid i + of_nat (length ims)\<rparr>" using r(2) by (cases x) (auto simp: anthropic_image_picture)
    have "\<exists>cm i'. anthropic_message_of e to_json b is_agentic m rest i = Some (Inr (cm, None, i')) \<and> param_matches e b is_agentic m cm \<and> ids_moved e [cm] i i'"
    proof (cases "mp_role m")
      case User
      from finish_user [OF r(1) [unfolded x(1)] User x(4,5,6)] show ?thesis .
    next
      case Assistant
      then have "ims = []" "i1 = i" using x(2,6) by simp_all
      from finish_assistant [OF r(1) [unfolded x(1) this(1)] Assistant] this(2) show ?thesis by simp
    qed (use assms in simp)
    with None x(3) show ?thesis by (auto simp: turn_matches_def)
  qed
next
  case (Some p)
  then obtain tid name input tool_use_id content is_error where p: "exchange m rest = Some ((tid, name, input), (tool_use_id, content, is_error))"
    by (metis prod.collapse)
  then have role: "mp_role m = Assistant" by (auto simp: exchange_def split: param_content.splits if_splits)
  have ti: "turn_images (m, exchange m rest) = content_images content" by (simp add: turn_images_def p)
  from message_content_exchange [OF p, of e to_json b is_agentic i] obtain r where r: "message_content e to_json b is_agentic m rest i = Some r"
    "case r of
       Inl err \<Rightarrow> refused (anthropic_image e) b (content_images content) = Some err
     | Inr (tx, ims, thinking, next, i') \<Rightarrow> refused (anthropic_image e) b (content_images content) = None
         \<and> tx = param_text m \<and> thinking = param_thinking m \<and> ims = [] \<and> (\<exists>images.
             next = Some (result_message is_agentic (new_v4 e (v4_calls i)) (new_v4 e (v4_calls i + 1))
               (make_tool_result to_json tid name input tool_use_id is_error (content_text content) images))
             \<and> image_contents images = accepted (anthropic_image e) b (content_images content)
             \<and> map im_uuid images = counted (base_uuid i) (length images)
             \<and> i' = \<lparr>base_uuid = base_uuid i + of_nat (length images), v4_calls = v4_calls i + 2\<rparr>)" by blast
  show ?thesis
  proof (cases r)
    case (Inl err)
    with r ti show ?thesis by (simp add: anthropic_message_of_def)
  next
    case (Inr x)
    then obtain images n i1 where x: "r = Inr (param_text m, [], param_thinking m, Some n, i1)"
      "refused (anthropic_image e) b (content_images content) = None"
      "n = result_message is_agentic (new_v4 e (v4_calls i)) (new_v4 e (v4_calls i + 1))
        (make_tool_result to_json tid name input tool_use_id is_error (content_text content) images)"
      "map im_uuid images = counted (base_uuid i) (length images)"
      "i1 = \<lparr>base_uuid = base_uuid i + of_nat (length images), v4_calls = v4_calls i + 2\<rparr>"
      "image_contents images = accepted (source_picture e) b (content_images content)"
      using r(2) by (cases x) (auto simp: anthropic_image_picture)
    from finish_assistant [OF r(1) [unfolded x(1)] role] obtain cm i2 where
      cm: "anthropic_message_of e to_json b is_agentic m rest i = Some (Inr (cm, Some n, i2))" "param_matches e b is_agentic m cm" "ids_moved e [cm] i1 i2"
      by blast
    have "ids_moved e [n] i i1"
      unfolding ids_moved_def by (rule exI [of _ "length images"], rule exI [of _ 2])
        (use x in \<open>simp add: message_uuids_def message_ids_def result_message_def message_default_def make_tool_result_def Let_def upt_rec\<close>)
    moreover have "message_uuids cm = []" using cm(2) role by (simp add: param_matches_def message_uuids_def)
    ultimately have "ids_moved e [cm, n] i i2" using ids_moved_Cons [OF _ cm(3), of n i] by (simp add: ids_moved_def ac_simps)
    moreover have "turn_matches e b to_json is_agentic (m, exchange m rest) [cm, n]"
      using p cm(2) x(3) make_tool_result_matches [OF x(6)] by (auto simp: turn_matches_def result_message_def message_default_def)
    ultimately show ?thesis using cm(1) x(2) ti p by simp
  qed
qed

lemma anthropic_messages_spec:
  assumes "\<forall>m \<in> set params. mp_role m \<noteq> System"
  shows "\<exists>r. anthropic_messages e to_json b is_agentic params ms i = Some r \<and>
    (case r of
       Inl err \<Rightarrow> refused (anthropic_image e) b (concat (map turn_images (turns params))) = Some err
     | Inr ms' \<Rightarrow> refused (anthropic_image e) b (concat (map turn_images (turns params))) = None
         \<and> (headers_match ms \<longrightarrow> headers_match ms')
         \<and> (\<exists>groups i'. ms_inner ms' = ms_inner ms @ concat groups
              \<and> list_all2 (turn_matches e b to_json is_agentic) (turns params) groups \<and> ids_moved e (concat groups) i i'))"
  using assms
proof (induction params arbitrary: ms i rule: turns.induct)
  case 1
  have "ids_moved e (concat []) i i" by (simp add: ids_moved_Nil)
  then have "\<exists>groups i'. ms_inner ms = ms_inner ms @ concat groups
      \<and> list_all2 (turn_matches e b to_json is_agentic) (turns []) groups \<and> ids_moved e (concat groups) i i'"
    by (intro exI [of _ "[]"] exI [of _ i]) simp
  then show ?case by simp
next
  case (2 m rest)
  let ?ref = "refused (anthropic_image e) b"
  let ?rest = "if exchange m rest = None then rest else drop 1 rest"
  have roles: "mp_role m \<noteq> System" "\<forall>m \<in> set ?rest. mp_role m \<noteq> System"
    using 2(2) by (auto dest: in_set_dropD)
  from anthropic_message_spec [OF roles(1), of e to_json b is_agentic rest i] obtain r where
    r: "anthropic_message_of e to_json b is_agentic m rest i = Some r"
    "case r of
       Inl err \<Rightarrow> ?ref (turn_images (m, exchange m rest)) = Some err
     | Inr (cm, next, i') \<Rightarrow> ?ref (turn_images (m, exchange m rest)) = None
         \<and> turn_matches e b to_json is_agentic (m, exchange m rest) (cm # (case next of Some n \<Rightarrow> [n] | None \<Rightarrow> []))
         \<and> (next = None \<longleftrightarrow> exchange m rest = None) \<and> ids_moved e (cm # (case next of Some n \<Rightarrow> [n] | None \<Rightarrow> [])) i i'" by blast
  show ?case
  proof (cases r)
    case (Inl err)
    with r show ?thesis by (simp add: refused_append)
  next
    case (Inr x)
    then obtain cm nx i1 where x: "r = Inr (cm, nx, i1)" by (cases x) auto
    define g where "g = cm # (case nx of Some n \<Rightarrow> [n] | None \<Rightarrow> [])"
    define ms1 where "ms1 = (case nx of Some n \<Rightarrow> messages_push n (messages_push cm ms) | None \<Rightarrow> messages_push cm ms)"
    have g: "?ref (turn_images (m, exchange m rest)) = None" "turn_matches e b to_json is_agentic (m, exchange m rest) g"
      "nx = None \<longleftrightarrow> exchange m rest = None" "ids_moved e g i i1" using r(2) x by (auto simp: g_def)
    have ms1: "ms_inner ms1 = ms_inner ms @ g" "headers_match ms1 = headers_match ms" by (simp_all add: ms1_def g_def split: option.splits)
    have run: "anthropic_messages e to_json b is_agentic (m # rest) ms i = anthropic_messages e to_json b is_agentic ?rest ms1 i1"
      using r(1) x g(3) by (cases nx) (auto simp: ms1_def)
    from 2(1) [OF roles(2), of ms1 i1] obtain r' where r': "anthropic_messages e to_json b is_agentic ?rest ms1 i1 = Some r'"
      "case r' of
         Inl err \<Rightarrow> ?ref (concat (map turn_images (turns ?rest))) = Some err
       | Inr ms' \<Rightarrow> ?ref (concat (map turn_images (turns ?rest))) = None \<and> (headers_match ms1 \<longrightarrow> headers_match ms')
           \<and> (\<exists>groups i'. ms_inner ms' = ms_inner ms1 @ concat groups
                \<and> list_all2 (turn_matches e b to_json is_agentic) (turns ?rest) groups \<and> ids_moved e (concat groups) i1 i')" by blast
    have tu: "turns (m # rest) = (m, exchange m rest) # turns ?rest" by (rule turns.simps)
    show ?thesis
    proof (cases r')
      case (Inl err)
      with r' g(1) show ?thesis unfolding run tu by (simp add: refused_append del: turns.simps)
    next
      case (Inr ms')
      with r'(2) obtain gs i2 where gs: "?ref (concat (map turn_images (turns ?rest))) = None" "headers_match ms \<longrightarrow> headers_match ms'"
        "ms_inner ms' = ms_inner ms @ concat (g # gs)" "list_all2 (turn_matches e b to_json is_agentic) (turns ?rest) gs"
        "ids_moved e (concat (g # gs)) i i2"
        using ms1 ids_moved_append [OF g(4)] by fastforce
      have "list_all2 (turn_matches e b to_json is_agentic) ((m, exchange m rest) # turns ?rest) (g # gs)" using g(2) gs(4) by simp
      with gs(3,5) have "\<exists>groups i'. ms_inner ms' = ms_inner ms @ concat groups
          \<and> list_all2 (turn_matches e b to_json is_agentic) ((m, exchange m rest) # turns ?rest) groups \<and> ids_moved e (concat groups) i i'" by blast
      with r'(1) Inr g(1) gs(1,2) show ?thesis unfolding run tu by (simp add: refused_append del: turns.simps)
    qed
  qed
qed

section \<open>Properties\<close>

definition padded :: "'v message_param list \<Rightarrow> 'v message_param list" where
  "padded params =
     (if mp_role (hd params) = Assistant then \<lparr>mp_role = User, mp_content = StringParam []\<rparr> # params else params)"

definition system_instructions :: "SystemContent option \<Rightarrow> bytes \<Rightarrow> bytes" where
  "system_instructions system d = (case system of Some (SystemString t) \<Rightarrow> t | Some (SystemArray ts) \<Rightarrow> join [0x0A] ts | None \<Rightarrow> d)"

lemma supported_tools_set:
  assumes "\<forall>m \<in> set (ms_inner ms). cm_supported_tools m = []"
  shows "map (cm_supported_tools_update (\<lambda>_. [])) (ms_inner (set_supported_tools tools ms)) = ms_inner ms"
    "headers_match (set_supported_tools tools ms) = headers_match ms"
    "ms_inner ms \<noteq> [] \<Longrightarrow> cm_external_links (last (ms_inner (set_supported_tools tools ms))) = cm_external_links (last (ms_inner ms))"
    "ms_inner ms \<noteq> [] \<Longrightarrow> map cm_supported_tools (ms_inner (set_supported_tools tools ms)) = replicate (length (ms_inner ms) - 1) [] @ [tools]"
proof -
  have id: "cm_supported_tools m = [] \<Longrightarrow> m\<lparr>cm_supported_tools := []\<rparr> = m" for m by (cases m) simp
  show "map (cm_supported_tools_update (\<lambda>_. [])) (ms_inner (set_supported_tools tools ms)) = ms_inner ms"
    using assms by (cases "ms_inner ms" rule: rev_cases) (simp_all add: set_supported_tools_def id map_idI)
  show "headers_match (set_supported_tools tools ms) = headers_match ms"
    by (cases "ms_inner ms" rule: rev_cases) (simp_all add: set_supported_tools_def headers_match_def header_of_def)
  show "ms_inner ms \<noteq> [] \<Longrightarrow> cm_external_links (last (ms_inner (set_supported_tools tools ms))) = cm_external_links (last (ms_inner ms))"
    by (simp add: set_supported_tools_def)
  show "ms_inner ms \<noteq> [] \<Longrightarrow> map cm_supported_tools (ms_inner (set_supported_tools tools ms)) = replicate (length (ms_inner ms) - 1) [] @ [tools]"
    using assms by (cases "ms_inner ms" rule: rev_cases) (auto simp: set_supported_tools_def map_replicate_const [symmetric] intro!: map_cong)
qed

lemma turn_matches_facts: "turn_matches e b to_json is_agentic t g \<Longrightarrow> g \<noteq> [] \<and> (\<forall>m \<in> set g. cm_supported_tools m = [])"
  by (auto simp: turn_matches_def param_matches_def split: option.splits prod.splits)

lemma groups_facts:
  "list_all2 (turn_matches e b to_json is_agentic) ts gs \<Longrightarrow> ts \<noteq> [] \<Longrightarrow> concat gs \<noteq> [] \<and> (\<forall>m \<in> set (concat gs). cm_supported_tools m = [])"
proof (induction rule: list_all2_induct)
  case (Cons t ts g gs)
  then show ?case using turn_matches_facts [OF Cons(1)] by (cases ts) auto
qed simp

lemma process_message_params_spec:
  assumes "instructions_get (default_ins e) (time_now e) = Some d" "\<forall>m \<in> set params. mp_role m \<noteq> System" "params \<noteq> []"
  shows "\<exists>r. process_message_params e to_json b is_agentic tools system params = Some r \<and>
    (case r of
       Inl err \<Rightarrow> refused (anthropic_image e) b (concat (map turn_images (turns (padded params)))) = Some err
     | Inr (instructions, ms, links) \<Rightarrow>
         refused (anthropic_image e) b (concat (map turn_images (turns (padded params)))) = None
         \<and> instructions = system_instructions system d \<and> headers_match ms \<and> links = cm_external_links (last (ms_inner ms))
         \<and> map cm_supported_tools (ms_inner ms) = replicate (length (ms_inner ms) - 1) [] @ [tools]
         \<and> (\<exists>groups i'. map (cm_supported_tools_update (\<lambda>_. [])) (ms_inner ms) = concat groups
              \<and> list_all2 (turn_matches e b to_json is_agentic) (turns (padded params)) groups
              \<and> ids_moved e (concat groups) \<lparr>base_uuid = base_uuid_start e, v4_calls = 0\<rparr> i'))"
proof -
  let ?i = "\<lparr>base_uuid = base_uuid_start e, v4_calls = 0\<rparr>"
  let ?ref = "refused (anthropic_image e) b (concat (map turn_images (turns (padded params))))"
  have "\<forall>m \<in> set (padded params). mp_role m \<noteq> System" using assms(2) by (auto simp: padded_def)
  from anthropic_messages_spec [OF this, of e to_json b is_agentic messages_new ?i, unfolded messages_simps(2) append_Nil] obtain r where
    r: "anthropic_messages e to_json b is_agentic (padded params) messages_new ?i = Some r"
    "case r of
       Inl err \<Rightarrow> ?ref = Some err
     | Inr ms' \<Rightarrow> ?ref = None \<and> (headers_match messages_new \<longrightarrow> headers_match ms')
         \<and> (\<exists>groups i'. ms_inner ms' = concat groups
              \<and> list_all2 (turn_matches e b to_json is_agentic) (turns (padded params)) groups \<and> ids_moved e (concat groups) ?i i')" by blast
  have run: "process_message_params e to_json b is_agentic tools system params = Some (case r of Inl err \<Rightarrow> Inl err
      | Inr ms \<Rightarrow> Inr (system_instructions system d, set_supported_tools tools ms,
                        case messages_last ms of Some m \<Rightarrow> cm_external_links m | None \<Rightarrow> []))"
    using assms(1,3) r(1) by (auto simp: process_message_params_def padded_def system_instructions_def split: option.splits SystemContent.splits sum.splits)
  show ?thesis
  proof (cases r)
    case (Inl err)
    with run r(2) show ?thesis by simp
  next
    case (Inr ms)
    with r(2) obtain gs i' where g: "?ref = None" "headers_match ms" "ms_inner ms = concat gs"
      "list_all2 (turn_matches e b to_json is_agentic) (turns (padded params)) gs" "ids_moved e (concat gs) ?i i'" by auto
    have "turns (padded params) \<noteq> []" using assms(3) by (cases "padded params") (auto simp: padded_def split: if_splits)
    from groups_facts [OF g(4) this] have f: "ms_inner ms \<noteq> []" "\<forall>m \<in> set (ms_inner ms). cm_supported_tools m = []" using g(3) by auto
    have "length (ms_inner (set_supported_tools tools ms)) = length (ms_inner ms)" by (simp add: set_supported_tools_def)
    with supported_tools_set [OF f(2), of tools] f(1) run Inr g show ?thesis
      by (auto simp: messages_last_def)
  qed
qed


text \<open>A tool is used and answered.\<close>

definition sample_env :: adapter_env where
  "sample_env =
     \<lparr>vision_ability = VisionNone, base64_decode = Some, http_get = (\<lambda>_. None), guess_format = (\<lambda>_. None),
      gif_animated = (\<lambda>_. False), image_size = (\<lambda>_ _. None), url_scheme = (\<lambda>_. None), new_v4 = show_nat, base_uuid_start = 300,
      default_ins = \<lparr>template_z = bytes_of ''Be kind.'', indexes_z = [], template = bytes_of ''Be kind.'', indexes = []\<rparr>,
      time_now = bytes_of ''2025-01-01T00:00:00.000Z'', fill_mode = from_bits 1, long_context = False\<rparr>"

definition sample_dialogue :: "bytes message_param list" where
  "sample_dialogue =
     [\<lparr>mp_role = User, mp_content = StringParam (bytes_of ''weather?'')\<rparr>,
      \<lparr>mp_role = Assistant, mp_content = ArrayParam [TextParam (bytes_of ''I look.''), ToolUseParam (bytes_of ''t1'') (bytes_of ''get.weather'') (bytes_of ''{}'')]\<rparr>,
      \<lparr>mp_role = User, mp_content = ArrayParam [ToolResultParam (bytes_of ''t1'') (Some (ToolString (bytes_of ''sunny''))) False]\<rparr>]"


text \<open>Identifiers of tools: the result carries the two parts of the identifier the decoder had joined, the call in
  it the joined one.\<close>

lemma tool_result_ids:
  assumes "split_once_str DELIMITER call = None"
  shows "tr_tool_call_id (make_tool_result to_json tid name input (tool_id_format call model) is_error tx ims) = call"
    "tr_model_call_id (make_tool_result to_json tid name input (tool_id_format call model) is_error tx ims) = model"
    "map_option cc_tool_call_id (tr_tool_call (make_tool_result to_json tid name input (tool_id_format call model) is_error tx ims)) = Some tid"
  using tool_id_roundtrip [OF assms, of model] by (simp_all add: make_tool_result_def Let_def)

section \<open>What goes wrong\<close>

text \<open>Parallel uses of tools: when the user answers two uses in one message, both uses and both results disappear from
  the conversation.\<close>

theorem parallel_tool_results_lost:
  "\<exists>ms links. process_message_params sample_env id False True [] None
      [\<lparr>mp_role = User, mp_content = StringParam (bytes_of ''hi'')\<rparr>,
       \<lparr>mp_role = Assistant, mp_content = ArrayParam [ToolUseParam (bytes_of ''a'') (bytes_of ''f'') (bytes_of ''{}''), ToolUseParam (bytes_of ''b'') (bytes_of ''g'') (bytes_of ''{}'')]\<rparr>,
       \<lparr>mp_role = User, mp_content = ArrayParam [ToolResultParam (bytes_of ''a'') (Some (ToolString (bytes_of ''1''))) False, ToolResultParam (bytes_of ''b'') (Some (ToolString (bytes_of ''2''))) False]\<rparr>]
     = Some (Inr (bytes_of ''Be kind.'', ms, links))
     \<and> map (\<lambda>m. (cm_text m, cm_tool_results m)) (ms_inner ms) = [(bytes_of ''hi'', []), ([], []), ([], [])]"
proof -
  let ?r = "process_message_params sample_env id False True [] None
      [\<lparr>mp_role = User, mp_content = StringParam (bytes_of ''hi'')\<rparr>,
       \<lparr>mp_role = Assistant, mp_content = ArrayParam [ToolUseParam (bytes_of ''a'') (bytes_of ''f'') (bytes_of ''{}''), ToolUseParam (bytes_of ''b'') (bytes_of ''g'') (bytes_of ''{}'')]\<rparr>,
       \<lparr>mp_role = User, mp_content = ArrayParam [ToolResultParam (bytes_of ''a'') (Some (ToolString (bytes_of ''1''))) False, ToolResultParam (bytes_of ''b'') (Some (ToolString (bytes_of ''2''))) False]\<rparr>]"
  have "map_option (map_sum id (\<lambda>(t, ms, links). (t, map (\<lambda>m. (cm_text m, cm_tool_results m)) (ms_inner ms)))) ?r
      = Some (Inr (bytes_of ''Be kind.'', [(bytes_of ''hi'', []), ([], []), ([], [])]))" by code_simp
  then obtain r where r: "?r = Some r" "map_sum id (\<lambda>(t, ms, links). (t, map (\<lambda>m. (cm_text m, cm_tool_results m)) (ms_inner ms))) r
      = Inr (bytes_of ''Be kind.'', [(bytes_of ''hi'', []), ([], []), ([], [])])" by auto
  from r(2) obtain ms links where x: "r = Inr (bytes_of ''Be kind.'', ms, links)"
    "map (\<lambda>m. (cm_text m, cm_tool_results m)) (ms_inner ms) = [(bytes_of ''hi'', []), ([], []), ([], [])]" by (cases r) auto
  from r(1) have "?r = Some (Inr (bytes_of ''Be kind.'', ms, links))" unfolding x(1) .
  with x(2) show ?thesis by (intro exI conjI) assumption+
qed

end
