(* ===== verification/Upstream_Error.thy ===== *)
theory Upstream_Error
  imports Request_Log "HOL-Library.AList"
begin

text \<open>
  Errors of the upstream service: the error details of \<^verbatim>\<open>src/core/aiserver/v1\<close> with their status codes and
  names, \<^verbatim>\<open>CursorError\<close> and \<^verbatim>\<open>CanonicalError\<close> of \<^verbatim>\<open>src/core/error\<close>, and what clients and the log
  are told.  JSON printing is a parameter.
\<close>

section \<open>Error details\<close>

type_synonym u16 = "16 word"
type_synonym i32 = "32 word"

datatype UpstreamError =
  ErrUnspecified | ErrBadApiKey | ErrBadUserApiKey | ErrNotLoggedIn | ErrInvalidAuthId | ErrNotHighEnoughPermissions |
  ErrAgentRequiresLogin | ErrBadModelName | ErrNotFound | ErrDeprecated | ErrUserNotFound |
  ErrFreeUserRateLimitExceeded | ErrProUserRateLimitExceeded | ErrFreeUserUsageLimit | ErrProUserUsageLimit |
  ErrResourceExhausted | ErrAuthTokenNotFound | ErrAuthTokenExpired | ErrOpenai | ErrOpenaiRateLimitExceeded |
  ErrOpenaiAccountLimitExceeded | ErrTaskUuidNotFound | ErrTaskNoPermissions | ErrAgentEngineNotFound | ErrMaxTokens |
  ErrProUserOnly | ErrApiKeyNotSupported | ErrUserAbortedRequest | ErrTimeout | ErrGenericRateLimitExceeded |
  ErrSlashEditFileTooLong | ErrFileUnsupported | ErrGpt4VisionPreviewRateLimit | ErrCustomMessage | ErrOutdatedClient |
  ErrClaudeImageTooLarge | ErrGitgraphNotFound | ErrFileNotFound | ErrApiKeyRateLimit | ErrDebounced | ErrBadRequest |
  ErrRepositoryServiceRepositoryIsNotInitialized | ErrUnauthorized | ErrConversationTooLong | ErrUsagePricingRequired |
  ErrUsagePricingRequiredChangeable | ErrGithubNoUserCredentials | ErrGithubUserNoAccess | ErrGithubAppNoAccess |
  ErrGithubMultipleOwners | ErrRateLimited | ErrRateLimitedChangeable | ErrCustom | ErrHooksBlocked

definition UPSTREAM_ERRORS :: "(i32 \<times> UpstreamError) list" where
  "UPSTREAM_ERRORS =
     [(0, ErrUnspecified), (1, ErrBadApiKey), (42, ErrBadUserApiKey), (2, ErrNotLoggedIn), (3, ErrInvalidAuthId),
      (4, ErrNotHighEnoughPermissions), (18, ErrAgentRequiresLogin), (5, ErrBadModelName), (39, ErrNotFound),
      (40, ErrDeprecated), (6, ErrUserNotFound), (7, ErrFreeUserRateLimitExceeded), (8, ErrProUserRateLimitExceeded),
      (9, ErrFreeUserUsageLimit), (10, ErrProUserUsageLimit), (41, ErrResourceExhausted), (11, ErrAuthTokenNotFound),
      (12, ErrAuthTokenExpired), (13, ErrOpenai), (14, ErrOpenaiRateLimitExceeded), (15, ErrOpenaiAccountLimitExceeded),
      (16, ErrTaskUuidNotFound), (17, ErrTaskNoPermissions), (19, ErrAgentEngineNotFound), (20, ErrMaxTokens),
      (23, ErrProUserOnly), (24, ErrApiKeyNotSupported), (21, ErrUserAbortedRequest), (25, ErrTimeout),
      (22, ErrGenericRateLimitExceeded), (26, ErrSlashEditFileTooLong), (27, ErrFileUnsupported),
      (28, ErrGpt4VisionPreviewRateLimit), (29, ErrCustomMessage), (30, ErrOutdatedClient), (31, ErrClaudeImageTooLarge),
      (32, ErrGitgraphNotFound), (33, ErrFileNotFound), (34, ErrApiKeyRateLimit), (35, ErrDebounced), (36, ErrBadRequest),
      (37, ErrRepositoryServiceRepositoryIsNotInitialized), (38, ErrUnauthorized), (43, ErrConversationTooLong),
      (44, ErrUsagePricingRequired), (45, ErrUsagePricingRequiredChangeable), (46, ErrGithubNoUserCredentials),
      (47, ErrGithubUserNoAccess), (48, ErrGithubAppNoAccess), (49, ErrGithubMultipleOwners), (50, ErrRateLimited),
      (51, ErrRateLimitedChangeable), (52, ErrCustom), (53, ErrHooksBlocked)]"

definition error_try_from :: "i32 \<Rightarrow> UpstreamError option" where
  "error_try_from error = map_of UPSTREAM_ERRORS error"

text \<open>The arms of the match, in order; the last one has the errors the others do not name.\<close>

definition status_of :: "UpstreamError \<Rightarrow> u16" where
  "status_of e =
     (if List.member [ErrBadRequest, ErrBadModelName, ErrSlashEditFileTooLong, ErrFileUnsupported, ErrClaudeImageTooLarge,
          ErrConversationTooLong] e then 400
      else if List.member [ErrBadApiKey, ErrBadUserApiKey, ErrInvalidAuthId, ErrAuthTokenNotFound, ErrAuthTokenExpired, ErrUnauthorized,
          ErrGithubNoUserCredentials] e then 401
      else if List.member [ErrUsagePricingRequired, ErrUsagePricingRequiredChangeable] e then 402
      else if List.member [ErrNotLoggedIn, ErrNotHighEnoughPermissions, ErrAgentRequiresLogin, ErrProUserOnly, ErrTaskNoPermissions,
          ErrGithubUserNoAccess, ErrGithubAppNoAccess, ErrHooksBlocked] e then 403
      else if List.member [ErrNotFound, ErrUserNotFound, ErrTaskUuidNotFound, ErrAgentEngineNotFound, ErrGitgraphNotFound, ErrFileNotFound] e then 404
      else if List.member [ErrGithubMultipleOwners] e then 409
      else if List.member [ErrDeprecated, ErrOutdatedClient] e then 410
      else if List.member [ErrApiKeyNotSupported] e then 422
      else if List.member [ErrFreeUserRateLimitExceeded, ErrProUserRateLimitExceeded, ErrOpenaiRateLimitExceeded, ErrOpenaiAccountLimitExceeded,
          ErrGenericRateLimitExceeded, ErrGpt4VisionPreviewRateLimit, ErrApiKeyRateLimit, ErrRateLimited, ErrRateLimitedChangeable] e then 429
      else if List.member [ErrUserAbortedRequest] e then 499
      else if List.member [ErrFreeUserUsageLimit, ErrProUserUsageLimit, ErrResourceExhausted, ErrMaxTokens] e then 503
      else if List.member [ErrTimeout] e then 504
      else 533)"

definition status_code :: "i32 \<Rightarrow> u16" where
  "status_code error = (case error_try_from error of Some e \<Rightarrow> status_of e | None \<Rightarrow> 500)"

definition type_of_error :: "UpstreamError \<Rightarrow> string" where
  "type_of_error e =
     (case e of
        ErrUnspecified \<Rightarrow> ''unspecified''
      | ErrBadApiKey \<Rightarrow> ''bad_api_key''
      | ErrBadUserApiKey \<Rightarrow> ''bad_user_api_key''
      | ErrNotLoggedIn \<Rightarrow> ''not_logged_in''
      | ErrInvalidAuthId \<Rightarrow> ''invalid_auth_id''
      | ErrNotHighEnoughPermissions \<Rightarrow> ''not_high_enough_permissions''
      | ErrAgentRequiresLogin \<Rightarrow> ''agent_requires_login''
      | ErrBadModelName \<Rightarrow> ''bad_model_name''
      | ErrNotFound \<Rightarrow> ''not_found''
      | ErrDeprecated \<Rightarrow> ''deprecated''
      | ErrUserNotFound \<Rightarrow> ''user_not_found''
      | ErrFreeUserRateLimitExceeded \<Rightarrow> ''free_user_rate_limit_exceeded''
      | ErrProUserRateLimitExceeded \<Rightarrow> ''pro_user_rate_limit_exceeded''
      | ErrFreeUserUsageLimit \<Rightarrow> ''free_user_usage_limit''
      | ErrProUserUsageLimit \<Rightarrow> ''pro_user_usage_limit''
      | ErrResourceExhausted \<Rightarrow> ''resource_exhausted''
      | ErrAuthTokenNotFound \<Rightarrow> ''auth_token_not_found''
      | ErrAuthTokenExpired \<Rightarrow> ''auth_token_expired''
      | ErrOpenai \<Rightarrow> ''openai''
      | ErrOpenaiRateLimitExceeded \<Rightarrow> ''openai_rate_limit_exceeded''
      | ErrOpenaiAccountLimitExceeded \<Rightarrow> ''openai_account_limit_exceeded''
      | ErrTaskUuidNotFound \<Rightarrow> ''task_uuid_not_found''
      | ErrTaskNoPermissions \<Rightarrow> ''task_no_permissions''
      | ErrAgentEngineNotFound \<Rightarrow> ''agent_engine_not_found''
      | ErrMaxTokens \<Rightarrow> ''max_tokens''
      | ErrProUserOnly \<Rightarrow> ''pro_user_only''
      | ErrApiKeyNotSupported \<Rightarrow> ''api_key_not_supported''
      | ErrUserAbortedRequest \<Rightarrow> ''user_aborted_request''
      | ErrTimeout \<Rightarrow> ''timeout''
      | ErrGenericRateLimitExceeded \<Rightarrow> ''generic_rate_limit_exceeded''
      | ErrSlashEditFileTooLong \<Rightarrow> ''slash_edit_file_too_long''
      | ErrFileUnsupported \<Rightarrow> ''file_unsupported''
      | ErrGpt4VisionPreviewRateLimit \<Rightarrow> ''gpt4_vision_preview_rate_limit''
      | ErrCustomMessage \<Rightarrow> ''custom_message''
      | ErrOutdatedClient \<Rightarrow> ''outdated_client''
      | ErrClaudeImageTooLarge \<Rightarrow> ''claude_image_too_large''
      | ErrGitgraphNotFound \<Rightarrow> ''gitgraph_not_found''
      | ErrFileNotFound \<Rightarrow> ''file_not_found''
      | ErrApiKeyRateLimit \<Rightarrow> ''api_key_rate_limit''
      | ErrDebounced \<Rightarrow> ''debounced''
      | ErrBadRequest \<Rightarrow> ''bad_request''
      | ErrRepositoryServiceRepositoryIsNotInitialized \<Rightarrow> ''repository_service_repository_is_not_initialized''
      | ErrUnauthorized \<Rightarrow> ''unauthorized''
      | ErrConversationTooLong \<Rightarrow> ''conversation_too_long''
      | ErrUsagePricingRequired \<Rightarrow> ''usage_pricing_required''
      | ErrUsagePricingRequiredChangeable \<Rightarrow> ''usage_pricing_required_changeable''
      | ErrGithubNoUserCredentials \<Rightarrow> ''github_no_user_credentials''
      | ErrGithubUserNoAccess \<Rightarrow> ''github_user_no_access''
      | ErrGithubAppNoAccess \<Rightarrow> ''github_app_no_access''
      | ErrGithubMultipleOwners \<Rightarrow> ''github_multiple_owners''
      | ErrRateLimited \<Rightarrow> ''rate_limited''
      | ErrRateLimitedChangeable \<Rightarrow> ''rate_limited_changeable''
      | ErrCustom \<Rightarrow> ''custom''
      | ErrHooksBlocked \<Rightarrow> ''hooks_blocked'')"

definition UNKNOWN :: bytes where
  "UNKNOWN = bytes_of ''unknown''"

definition error_type :: "i32 \<Rightarrow> bytes" where
  "error_type error = (case error_try_from error of Some e \<Rightarrow> bytes_of (type_of_error e) | None \<Rightarrow> UNKNOWN)"

record custom_details =
  cd_title :: bytes
  cd_detail :: bytes
  cd_additional_info :: "(bytes \<times> bytes) list"

definition add_string :: "bytes \<Rightarrow> bytes \<Rightarrow> bytes" where
  "add_string a b = a @ 0x26 # b"

text \<open>\<^verbatim>\<open>IndexMap::extend\<close> replaces the value of a key it has and appends the others.\<close>

definition details_add :: "custom_details \<Rightarrow> custom_details \<Rightarrow> custom_details" where
  "details_add d rhs =
     \<lparr>cd_title = add_string (cd_title d) (cd_title rhs), cd_detail = add_string (cd_detail d) (cd_detail rhs),
      cd_additional_info = fold (\<lambda>(k, v). AList.update k v) (cd_additional_info rhs) (cd_additional_info d)\<rparr>"

record error_details =
  ed_error :: i32
  ed_details :: "custom_details option"
  ed_is_expected :: "bool option"

section \<open>Canonical errors\<close>

record canonical_error =
  ce_code :: "bytes option"
  ce_details :: "custom_details option"
  ce_status_code :: u16
  ce_type :: bytes

definition canonical_from :: "error_details \<Rightarrow> canonical_error" where
  "canonical_from e =
     \<lparr>ce_code = None, ce_details = ed_details e, ce_status_code = status_code (ed_error e), ce_type = error_type (ed_error e)\<rparr>"

definition canonical_unknown :: canonical_error where
  "canonical_unknown = \<lparr>ce_code = None, ce_details = None, ce_status_code = 500, ce_type = UNKNOWN\<rparr>"

definition with_code :: "bytes \<Rightarrow> canonical_error \<Rightarrow> canonical_error" where
  "with_code code e = e\<lparr>ce_code := Some code\<rparr>"

definition sum_step :: "canonical_error \<Rightarrow> canonical_error \<Rightarrow> canonical_error" where
  "sum_step acc e =
     (let acc = (case ce_code e of
                   Some c \<Rightarrow> acc\<lparr>ce_code := Some (case ce_code acc of Some code \<Rightarrow> code @ c | None \<Rightarrow> c)\<rparr>
                 | None \<Rightarrow> acc);
          acc = (case ce_details e of
                   Some d \<Rightarrow> acc\<lparr>ce_details := Some (case ce_details acc of Some details \<Rightarrow> details_add details d | None \<Rightarrow> d)\<rparr>
                 | None \<Rightarrow> acc)
      in if ce_status_code acc < ce_status_code e
         then acc\<lparr>ce_status_code := ce_status_code e, ce_type := ce_type e\<rparr> else acc)"

definition canonical_sum :: "canonical_error list \<Rightarrow> canonical_error" where
  "canonical_sum es =
     foldl sum_step \<lparr>ce_code = None, ce_details = None, ce_status_code = 100, ce_type = UNKNOWN\<rparr> es"

record cursor_error =
  cu_code :: bytes
  cu_details :: "error_details list"

definition canonical :: "cursor_error \<Rightarrow> canonical_error" where
  "canonical e =
     with_code (cu_code e)
       (case cu_details e of
          [d] \<Rightarrow> canonical_from d
        | [] \<Rightarrow> canonical_unknown
        | ds \<Rightarrow> canonical_sum (map canonical_from ds))"

section \<open>What others are told\<close>

definition replace_underscores :: "bytes \<Rightarrow> bytes" where
  "replace_underscores s = map (\<lambda>b. if b = 0x5F then 0x20 else b) s"

definition error_title :: "canonical_error \<Rightarrow> bytes option" where
  "error_title e =
     (case ce_details e of Some d \<Rightarrow> Some (cd_title d) | None \<Rightarrow> map_option replace_underscores (ce_code e))"

definition error_detail :: "canonical_error \<Rightarrow> bytes option" where
  "error_detail e = map_option cd_detail (ce_details e)"

text \<open>\<^verbatim>\<open>transmute\<close> to \<^verbatim>\<open>http::StatusCode\<close>, whose values are the numbers from 100 to 999.\<close>

definition http_status :: "canonical_error \<Rightarrow> nat ub" where
  "http_status e = (let n = unat (ce_status_code e) in if 100 \<le> n \<and> n \<le> 999 then Some n else None)"

record openai_error =
  oe_code :: "bytes option"
  oe_message :: bytes

definition error_into_openai :: "(custom_details \<Rightarrow> bytes) \<Rightarrow> canonical_error \<Rightarrow> openai_error" where
  "error_into_openai to_json e =
     \<lparr>oe_code = ce_code e, oe_message = (case ce_details e of Some d \<Rightarrow> to_json d | None \<Rightarrow> UNKNOWN)\<rparr>"

record anthropic_error =
  ae_type :: bytes
  ae_message :: bytes

definition error_into_anthropic :: "(bytes \<times> custom_details \<Rightarrow> bytes) \<Rightarrow> canonical_error \<Rightarrow> anthropic_error" where
  "error_into_anthropic to_json e =
     (let code = (case ce_code e of Some c \<Rightarrow> c | None \<Rightarrow> UNKNOWN)
      in \<lparr>ae_type = ce_type e, ae_message = (case ce_details e of Some d \<Rightarrow> to_json (code, d) | None \<Rightarrow> code)\<rparr>)"

definition to_error_info :: "canonical_error \<Rightarrow> ErrorInfo" where
  "to_error_info e = error_info_new (case error_title e of Some t \<Rightarrow> t | None \<Rightarrow> UNKNOWN) (error_detail e)"

record cpp_error =
  pe_code :: u16
  pe_type :: bytes
  pe_details :: "custom_details option"

definition cpp_error_from :: "canonical_error \<Rightarrow> cpp_error" where
  "cpp_error_from e = \<lparr>pe_code = ce_status_code e, pe_type = ce_type e, pe_details = ce_details e\<rparr>"

section \<open>Lemmas\<close>

lemma status_of_range: "400 \<le> status_of e \<and> status_of e \<le> 533"
  by (simp add: status_of_def)

lemma status_code_range: "400 \<le> status_code i \<and> status_code i \<le> 533"
  using status_of_range by (simp add: status_code_def split: option.split)

lemma sum_step_simps [simp]:
  "ce_status_code (sum_step acc e) = max (ce_status_code acc) (ce_status_code e)"
  "ce_type (sum_step acc e) = (if ce_status_code acc < ce_status_code e then ce_type e else ce_type acc)"
  "ce_details (sum_step acc e) =
     (case ce_details e of None \<Rightarrow> ce_details acc
      | Some d \<Rightarrow> Some (case ce_details acc of None \<Rightarrow> d | Some a \<Rightarrow> details_add a d))"
  by (auto simp: sum_step_def Let_def max_def split: option.split)

lemma sum_status:
  "ce_status_code (foldl sum_step acc es) = Max (insert (ce_status_code acc) (ce_status_code ` set es))"
proof (induction es arbitrary: acc)
  case (Cons e es)
  then show ?case by (cases "es = []") (simp_all add: max.assoc max.commute max.left_commute)
qed simp

text \<open>The type is the one of the first error with the highest status.\<close>

lemma sum_type:
  "ce_type (foldl sum_step acc es) =
     (let m = ce_status_code (foldl sum_step acc es)
      in if ce_status_code acc = m then ce_type acc
         else case find (\<lambda>e. ce_status_code e = m) es of Some e \<Rightarrow> ce_type e | None \<Rightarrow> ce_type acc)"
proof (induction es arbitrary: acc)
  case (Cons e es)
  define m where "m = ce_status_code (foldl sum_step acc (e # es))"
  have le: "ce_status_code acc \<le> m" "ce_status_code e \<le> m"
    unfolding m_def sum_status by (rule Max_ge; simp)+
  have m: "ce_status_code (foldl sum_step (sum_step acc e) es) = m"
    by (simp add: m_def)
  have type: "ce_type (foldl sum_step (sum_step acc e) es) =
      (if max (ce_status_code acc) (ce_status_code e) = m then ce_type (sum_step acc e)
       else case find (\<lambda>e. ce_status_code e = m) es of Some e \<Rightarrow> ce_type e | None \<Rightarrow> ce_type (sum_step acc e))"
    using Cons [of "sum_step acc e"] by (simp add: Let_def m)
  have found: "find (\<lambda>e. ce_status_code e = m) es \<noteq> None" if "max (ce_status_code acc) (ce_status_code e) \<noteq> m"
    using that Max_in [of "insert (max (ce_status_code acc) (ce_status_code e)) (ce_status_code ` set es)"] m
    by (auto simp: sum_status find_None_iff)
  show ?case
  proof (cases "ce_status_code acc = m")
    case True
    then show ?thesis using le by (auto simp: Let_def m type max_absorb1 dest: leD)
  next
    case False
    then show ?thesis using le found
      by (cases "ce_status_code e = m") (auto simp: Let_def m type max_def)
  qed
qed simp

text \<open>Details are joined in order.\<close>

fun join_details :: "custom_details list \<Rightarrow> custom_details option" where
  "join_details [] = None"
| "join_details (d # ds) = Some (foldl details_add d ds)"

lemma sum_details:
  "ce_details (foldl sum_step acc es) =
     join_details (List.map_filter id (ce_details acc # map ce_details es))"
  by (induction es arbitrary: acc) (auto simp: map_filter_simps split: option.splits)

lemma find_map: "find P (map f xs) = map_option f (find (\<lambda>x. P (f x)) xs)"
  by (induction xs) auto

lemma canonical_sum_from:
  assumes "ds \<noteq> []"
  defines "c \<equiv> canonical_sum (map canonical_from ds)"
  shows "ce_status_code c = Max (set (map (\<lambda>d. status_code (ed_error d)) ds))"
    and "ce_type c = (case find (\<lambda>d. status_code (ed_error d) = ce_status_code c) ds of
                        Some d \<Rightarrow> error_type (ed_error d) | None \<Rightarrow> UNKNOWN)"
    and "ce_details c = join_details (List.map_filter ed_details ds)"
proof -
  let ?s = "\<lambda>d. status_code (ed_error d)"
  have "\<forall>d \<in> set ds. 100 < ?s d"
    using less_le_trans [of "100 :: u16" 400] status_code_range by simp
  then have gt: "100 < Max (?s ` set ds)"
    using assms(1) by (simp add: Max_gr_iff) (metis list.set_intros(1) neq_Nil_conv)
  show status: "ce_status_code c = Max (set (map ?s ds))"
    using gt [THEN less_imp_le] assms(1) by (simp add: c_def canonical_sum_def sum_status image_image canonical_from_def max_def)
  show "ce_type c = (case find (\<lambda>d. ?s d = ce_status_code c) ds of Some d \<Rightarrow> error_type (ed_error d) | None \<Rightarrow> UNKNOWN)"
    using sum_type [of _ "map canonical_from ds"] gt [THEN less_imp_neq] status unfolding c_def canonical_sum_def
    by (simp add: Let_def find_map canonical_from_def split: option.split)
  show "ce_details c = join_details (List.map_filter ed_details ds)"
    by (simp add: c_def canonical_sum_def sum_details map_filter_simps comp_def canonical_from_def map_filter_def filter_map)
qed


fun amp_join :: "bytes list \<Rightarrow> bytes" where
  "amp_join [] = []"
| "amp_join (x # xs) = x @ concat (map ((#) 0x26) xs)"

lemma join_details_fields:
  "map_option cd_title (join_details ds) = (if ds = [] then None else Some (amp_join (map cd_title ds)))"
  "map_option cd_detail (join_details ds) = (if ds = [] then None else Some (amp_join (map cd_detail ds)))"
proof -
  have "cd_title (foldl details_add d es) = amp_join (map cd_title (d # es))"
       "cd_detail (foldl details_add d es) = amp_join (map cd_detail (d # es))" for d es
    by (induction es arbitrary: d) (simp_all add: details_add_def add_string_def)
  then show "map_option cd_title (join_details ds) = (if ds = [] then None else Some (amp_join (map cd_title ds)))"
    "map_option cd_detail (join_details ds) = (if ds = [] then None else Some (amp_join (map cd_detail ds)))"
    by (cases ds; simp)+
qed

text \<open>The summary of the details of an error, whatever their number.\<close>

lemma canonical_simps:
  "ce_code (canonical e) = Some (cu_code e)"
  "ce_status_code (canonical e) =
     (if cu_details e = [] then 500 else Max (set (map (\<lambda>d. status_code (ed_error d)) (cu_details e))))"
  "ce_type (canonical e) =
     (case find (\<lambda>d. status_code (ed_error d) = ce_status_code (canonical e)) (cu_details e) of
        Some d \<Rightarrow> error_type (ed_error d) | None \<Rightarrow> UNKNOWN)"
  "ce_details (canonical e) = join_details (List.map_filter ed_details (cu_details e))"
  using canonical_sum_from [of "cu_details e"]
  by (auto simp: canonical_def with_code_def canonical_unknown_def canonical_from_def map_filter_def split: list.split)

section \<open>Property\<close>

text \<open>C8: Whatever details the upstream service sends, the error given to the client is well formed: its status is a
  valid HTTP status (the unchecked conversion of the code is defined) and one of an error, the highest of the
  statuses of the details (500 without details), its type is the type of the first detail with that status, it has the
  code of the upstream error, the error of the code completion route has the same status and type, and the log shows
  the titles and texts of all details joined by \<^verbatim>\<open>&\<close>, or the code when there are none.\<close>

theorem canonical_error_valid:
  "let c = canonical e; ds = cu_details e; status = (\<lambda>d. status_code (ed_error d)) in
   (\<exists>n. http_status c = Some n \<and> 400 \<le> n \<and> n \<le> 533 \<and>
        n = (if ds = [] then 500 else Max (set (map (\<lambda>d. unat (status d)) ds))) \<and> unat (pe_code (cpp_error_from c)) = n) \<and>
   ce_type c = (case find (\<lambda>d. status d = ce_status_code c) ds of Some d \<Rightarrow> error_type (ed_error d) | None \<Rightarrow> UNKNOWN) \<and>
   ae_type (error_into_anthropic to_json c) = ce_type c \<and> pe_type (cpp_error_from c) = ce_type c \<and>
   oe_code (error_into_openai to_json' c) = Some (cu_code e) \<and>
   to_error_info c =
     (let xs = List.map_filter ed_details ds
      in if xs = [] then Simple (replace_underscores (cu_code e))
         else Detailed (amp_join (map cd_title xs)) (amp_join (map cd_detail xs)))"
proof -
  let ?c = "canonical e" and ?ds = "cu_details e" and ?status = "\<lambda>d :: error_details. status_code (ed_error d)"
  have range: "400 \<le> ce_status_code ?c \<and> ce_status_code ?c \<le> 533"
  proof (cases "?ds = []")
    case False
    then have "Max (set (map ?status ?ds)) \<in> ?status ` set ?ds"
      unfolding set_map by (intro Max_in) simp_all
    then obtain d where "Max (set (map ?status ?ds)) = ?status d" by blast
    then show ?thesis using False status_code_range by (simp add: canonical_simps(2))
  qed (simp add: canonical_simps(2))
  have max: "unat (Max (set (map ?status ?ds))) = Max (set (map (\<lambda>d. unat (?status d)) ?ds))" if "?ds \<noteq> []"
    using that mono_Max_commute [of unat "set (map ?status ?ds)"]
    by (simp add: image_image mono_def word_le_nat_alt)
  have "\<exists>n. http_status ?c = Some n \<and> 400 \<le> n \<and> n \<le> 533 \<and>
        n = (if ?ds = [] then 500 else Max (set (map (\<lambda>d. unat (?status d)) ?ds))) \<and> unat (pe_code (cpp_error_from ?c)) = n"
    using range max
    by (intro exI [of _ "unat (ce_status_code ?c)"])
       (auto simp: http_status_def Let_def word_le_nat_alt cpp_error_from_def canonical_simps(2))
  moreover have "to_error_info ?c =
     (let xs = List.map_filter ed_details ?ds
      in if xs = [] then Simple (replace_underscores (cu_code e))
         else Detailed (amp_join (map cd_title xs)) (amp_join (map cd_detail xs)))"
    using join_details_fields [of "List.map_filter ed_details ?ds"]
    by (auto simp: to_error_info_def error_info_new_def error_title_def error_detail_def canonical_simps(1,4) Let_def
        split: option.splits if_splits)
  moreover note canonical_simps(3) [of e]
  ultimately show ?thesis
    by (simp add: Let_def error_into_anthropic_def error_into_openai_def cpp_error_from_def canonical_simps(1))
qed

end
