(* ===== verification/Cpp_Stream.thy ===== *)
theory Cpp_Stream
  imports Upstream_Error Proto_Encode
begin

text \<open>
  Code completion: the decoder of \<^verbatim>\<open>src/core/stream/decoder/cpp.rs\<close>, which turns the frames of a
  \<^verbatim>\<open>StreamCpp\<close> answer into events, and the body of the answer of \<^verbatim>\<open>handle_stream_cpp\<close> in
  \<^verbatim>\<open>src/core/service/cpp.rs\<close>, which prints the events as server-sent events.  The Protobuf decoder, the
  gzip decompressor, the parser of the upstream error and the JSON printer are parameters.
\<close>

section \<open>Messages\<close>

record line_range =
  lr_start_line_number :: i32
  lr_end_line_number_inclusive :: i32

record cursor_prediction_target =
  cpt_relative_path :: bytes
  cpt_line_number_one_indexed :: i32
  cpt_expected_content :: bytes
  cpt_should_retrigger_cpp :: bool

record model_info =
  mi_is_fused_cursor_prediction_model :: bool
  mi_is_multidiff_model :: bool

record cpp_response =
  sr_text :: bytes
  sr_suggestion_start_line :: "i32 option"
  sr_suggestion_confidence :: "i32 option"
  sr_done_stream :: "bool option"
  sr_debug_model_output :: "bytes option"
  sr_debug_model_input :: "bytes option"
  sr_debug_stream_time :: "bytes option"
  sr_debug_total_time :: "bytes option"
  sr_debug_ttft_time :: "bytes option"
  sr_debug_server_timing :: "bytes option"
  sr_range_to_replace :: "line_range option"
  sr_cursor_prediction_target :: "cursor_prediction_target option"
  sr_done_edit :: "bool option"
  sr_model_info :: "model_info option"
  sr_begin_edit :: "bool option"
  sr_should_remove_leading_eol :: "bool option"
  sr_binding_id :: "bytes option"

datatype CppMessage =
  ModelInfo bool bool
| BeginEdit
| RangeReplace i32 i32 "bytes option" "bool option"
| CppText bytes
| CursorPrediction bytes i32 bytes bool "bytes option"
| DoneEdit
| DoneStream
| Debug "bytes option" "bytes option" "bytes option" "bytes option" "bytes option" "bytes option"
| CppErrorMsg cpp_error
| CppStreamEnd

definition cpp_type_name :: "CppMessage \<Rightarrow> bytes" where
  "cpp_type_name m =
     bytes_of (case m of
        ModelInfo _ _ \<Rightarrow> ''model_info''
      | BeginEdit \<Rightarrow> ''begin_edit''
      | RangeReplace _ _ _ _ \<Rightarrow> ''range_replace''
      | CppText _ \<Rightarrow> ''text''
      | CursorPrediction _ _ _ _ _ \<Rightarrow> ''cursor_prediction''
      | DoneEdit \<Rightarrow> ''done_edit''
      | DoneStream \<Rightarrow> ''done_stream''
      | Debug _ _ _ _ _ _ \<Rightarrow> ''debug''
      | CppErrorMsg _ \<Rightarrow> ''error''
      | CppStreamEnd \<Rightarrow> ''stream_end'')"

definition process_protobuf_message :: "CppMessage list \<Rightarrow> cpp_response \<Rightarrow> CppMessage list" where
  "process_protobuf_message events r =
     (let (events, is_plain_text) =
            (case sr_model_info r of
               Some i \<Rightarrow> (events @ [ModelInfo (mi_is_fused_cursor_prediction_model i) (mi_is_multidiff_model i)], False)
             | None \<Rightarrow> (events, True));
          (events, is_plain_text) =
            (case sr_range_to_replace r of
               Some g \<Rightarrow> (events @ [RangeReplace (lr_start_line_number g) (lr_end_line_number_inclusive g)
                                      (sr_binding_id r) (sr_should_remove_leading_eol r)], False)
             | None \<Rightarrow> (events, is_plain_text));
          events = (if is_plain_text \<and> sr_text r \<noteq> [] then events @ [CppText (sr_text r)] else events);
          events = (case sr_cursor_prediction_target r of
                      Some c \<Rightarrow> events @ [CursorPrediction (cpt_relative_path c) (cpt_line_number_one_indexed c)
                                          (cpt_expected_content c) (cpt_should_retrigger_cpp c) (sr_binding_id r)]
                    | None \<Rightarrow> events);
          events = (if sr_done_edit r = Some True then events @ [DoneEdit] else events);
          events = (if sr_begin_edit r = Some True then events @ [BeginEdit] else events);
          events = (if sr_done_stream r = Some True then events @ [DoneStream] else events)
      in if sr_debug_model_input r \<noteq> None \<or> sr_debug_model_output r \<noteq> None \<or> sr_debug_stream_time r \<noteq> None
            \<or> sr_debug_total_time r \<noteq> None \<or> sr_debug_ttft_time r \<noteq> None \<or> sr_debug_server_timing r \<noteq> None
         then events @ [Debug (sr_debug_model_input r) (sr_debug_model_output r) (sr_debug_stream_time r)
                          (sr_debug_total_time r) (sr_debug_ttft_time r) (sr_debug_server_timing r)]
         else events)"

section \<open>The decoder\<close>

record cpp_env =
  ce_gunzip :: "bytes \<Rightarrow> bytes option"
  ce_decode :: "bytes \<Rightarrow> cpp_response option"
  ce_from_slice :: "bytes \<Rightarrow> cursor_error option"

record cpp_decoder =
  cp_buffer :: buffer
  cp_empty_stream_count :: nat

definition cpp_decoder_new :: cpp_decoder where
  "cpp_decoder_new = \<lparr>cp_buffer = buffer_new, cp_empty_stream_count = 0\<rparr>"

definition cpp_reset_empty_stream_count :: "cpp_decoder \<Rightarrow> cpp_decoder" where
  "cpp_reset_empty_stream_count d =
     (if cp_empty_stream_count d > 0 then d\<lparr>cp_empty_stream_count := 0\<rparr> else d)"

text \<open>The body of the loop: the events one frame adds.\<close>

definition cpp_frame :: "cpp_env \<Rightarrow> raw_message \<Rightarrow> CppMessage list option ub" where
  "cpp_frame e raw_msg =
     (if data_of raw_msg = [] then Some None
      else do {
        data \<leftarrow> (if type_of raw_msg AND 1 \<noteq> 0 then decompress_gzip (ce_gunzip e) (data_of raw_msg)
                else Some (Some (data_of raw_msg)));
        Some (case data of
                None \<Rightarrow> None
              | Some data \<Rightarrow>
                  let msg_type = drop_bit 1 (type_of raw_msg)
                  in if msg_type = 0 then map_option (process_protobuf_message []) (ce_decode e data)
                     else if msg_type = 1 then
                       if length data = 2 then Some [CppStreamEnd]
                       else map_option (\<lambda>er. [CppErrorMsg (cpp_error_from (canonical er))]) (ce_from_slice e data)
                     else None)
      })"

definition cpp_decode ::
  "cpp_env \<Rightarrow> bytes \<Rightarrow> cpp_decoder \<Rightarrow> ((unit + CppMessage list) \<times> cpp_decoder) ub" where
  "cpp_decode e data d =
     (let d' = (if data = [] then d else d\<lparr>cp_buffer := extend_from_slice (cp_buffer d) data\<rparr>)
      in if data = [] \<or> buffer_len (cp_buffer d') < 5
         then Some (Inl (), d'\<lparr>cp_empty_stream_count := cp_empty_stream_count d' + 1\<rparr>)
         else let d = cpp_reset_empty_stream_count d'
              in do {
                (events, it) \<leftarrow> iter_for (cpp_frame e) (into_iter (cp_buffer d));
                b \<leftarrow> advance (cp_buffer d) (off it);
                Some (Inr (concat events), d\<lparr>cp_buffer := b\<rparr>)
              })"

section \<open>The body of the answer\<close>

definition format_sse_event :: "(CppMessage \<Rightarrow> bytes) \<Rightarrow> bytes \<Rightarrow> CppMessage \<Rightarrow> bytes" where
  "format_sse_event to_json v m =
     v @ bytes_of ''event: '' @ cpp_type_name m @ [0x0A] @ bytes_of ''data: '' @ to_json m @ [0x0A, 0x0A]"

definition cpp_process_messages :: "(CppMessage \<Rightarrow> bytes) \<Rightarrow> CppMessage list \<Rightarrow> bytes" where
  "cpp_process_messages to_json ms = foldl (format_sse_event to_json) [] ms"

definition EMPTY_STREAM_EVENT :: bytes where
  "EMPTY_STREAM_EVENT =
     bytes_of ''event: error'' @ [0x0A] @
     bytes_of ''data: {\"type\":\"error\",\"error\":{\"code\":533,\"type\":\"unknown\",'' @
     bytes_of ''\"details\":{\"title\":\"Empty\",\"detail\":\"Empty stream\"}}}'' @ [0x0A, 0x0A]"

text \<open>An item of the upstream body is a chunk, or \<^term>\<open>None\<close> for a read error.\<close>

definition cpp_item ::
  "cpp_env \<Rightarrow> (CppMessage \<Rightarrow> bytes) \<Rightarrow> bytes option \<Rightarrow> cpp_decoder \<Rightarrow> (bytes \<times> cpp_decoder) ub" where
  "cpp_item e to_json chunk d =
     (case chunk of
        None \<Rightarrow> Some ([], d)
      | Some c \<Rightarrow> do {
          (r, d) \<leftarrow> cpp_decode e c d;
          Some (case r of
                  Inr messages \<Rightarrow> if messages = [] then [] else cpp_process_messages to_json messages
                | Inl _ \<Rightarrow> if cp_empty_stream_count d > 1 then EMPTY_STREAM_EVENT else [], d)
        })"

primrec cpp_body ::
  "cpp_env \<Rightarrow> (CppMessage \<Rightarrow> bytes) \<Rightarrow> bytes option list \<Rightarrow> cpp_decoder \<Rightarrow> (bytes list \<times> cpp_decoder) ub" where
  "cpp_body e to_json [] d = Some ([], d)"
| "cpp_body e to_json (i # items) d = do {
     (out, d) \<leftarrow> cpp_item e to_json i d;
     (outs, d) \<leftarrow> cpp_body e to_json items d;
     Some (out # outs, d)
   }"

section \<open>Lemmas\<close>

lemma snoc_if:
  "(if c then xs @ ys else xs) = xs @ (if c then ys else [])"
  "(case v of Some x \<Rightarrow> xs @ f x | None \<Rightarrow> xs) = xs @ (case v of Some x \<Rightarrow> f x | None \<Rightarrow> [])"
  by (simp_all split: option.split)

lemma process_protobuf_events:
  "process_protobuf_message events r = events @
     (case sr_model_info r of
        Some i \<Rightarrow> [ModelInfo (mi_is_fused_cursor_prediction_model i) (mi_is_multidiff_model i)] | None \<Rightarrow> []) @
     (case sr_range_to_replace r of
        Some g \<Rightarrow> [RangeReplace (lr_start_line_number g) (lr_end_line_number_inclusive g)
                    (sr_binding_id r) (sr_should_remove_leading_eol r)] | None \<Rightarrow> []) @
     (if sr_model_info r = None \<and> sr_range_to_replace r = None \<and> sr_text r \<noteq> [] then [CppText (sr_text r)] else []) @
     process_protobuf_message [] (r\<lparr>sr_model_info := None, sr_range_to_replace := None, sr_text := []\<rparr>)"
  by (cases "sr_model_info r"; cases "sr_range_to_replace r"; cases "sr_cursor_prediction_target r")
     (simp_all add: process_protobuf_message_def Let_def snoc_if)

text \<open>Model information and a replaced range exclude text.\<close>

lemma text_exclusive:
  "CppText t \<in> set (process_protobuf_message [] r) \<longleftrightarrow>
     sr_model_info r = None \<and> sr_range_to_replace r = None \<and> t = sr_text r \<and> t \<noteq> []"
proof -
  have "CppText t \<notin> set (process_protobuf_message [] (r\<lparr>sr_model_info := None, sr_range_to_replace := None, sr_text := []\<rparr>))"
    by (cases "sr_cursor_prediction_target r") (simp_all add: process_protobuf_message_def Let_def snoc_if)
  then show ?thesis
    by (subst process_protobuf_events) (auto split: option.split)
qed

text \<open>The events of a frame, without the error values.\<close>

definition cpp_events :: "cpp_env \<Rightarrow> raw_message \<Rightarrow> CppMessage list" where
  "cpp_events e m = (case cpp_frame e m of Some (Some es) \<Rightarrow> es | _ \<Rightarrow> [])"

lemma cpp_frame_total: "cpp_frame e m \<noteq> None"
  by (simp add: cpp_frame_def decompress_gzip_eq)

lemma run_cpp_frame: "\<exists>xs. run_processor (cpp_frame e) ms = Some xs \<and> concat xs = concat (map (cpp_events e) ms)"
proof (induction ms)
  case (Cons m ms)
  then obtain xs where "run_processor (cpp_frame e) ms = Some xs" "concat xs = concat (map (cpp_events e) ms)" by blast
  moreover obtain r where "cpp_frame e m = Some r" using cpp_frame_total by blast
  ultimately show ?case by (cases r) (simp_all add: cpp_events_def [of e m])
qed simp

lemma cpp_decode_short:
  "data = [] \<or> length (inner (cp_buffer d) @ data) < 5 \<Longrightarrow>
   cpp_decode e data d =
     Some (Inl (), \<lparr>cp_buffer = \<lparr>inner = inner (cp_buffer d) @ data\<rparr>, cp_empty_stream_count = cp_empty_stream_count d + 1\<rparr>)"
  by (cases d; cases "cp_buffer d") (auto simp: cpp_decode_def Let_def buffer_len_def extend_from_slice_def)

lemma cpp_decode_long:
  assumes "data \<noteq> []" "5 \<le> length (inner (cp_buffer d) @ data)"
    and pf: "parse_frames (inner (cp_buffer d) @ data) = (ms, rest)"
  shows "cpp_decode e data d =
     Some (Inr (concat (map (cpp_events e) ms)), \<lparr>cp_buffer = \<lparr>inner = rest\<rparr>, cp_empty_stream_count = 0\<rparr>)"
proof -
  let ?bs = "inner (cp_buffer d) @ data"
  obtain used where used: "?bs = used @ rest"
    using parse_frames_suffix [of ?bs] by (auto simp: pf)
  obtain xs where "run_processor (cpp_frame e) ms = Some xs" and xs: "concat xs = concat (map (cpp_events e) ms)"
    using run_cpp_frame by blast
  then have fo: "iter_for (cpp_frame e) \<lparr>buf = ?bs, off = 0\<rparr> = Some (xs, \<lparr>buf = ?bs, off = length ?bs - length rest\<rparr>)"
    by (simp add: iter_for_eq pf)
  have ad: "advance \<lparr>inner = ?bs\<rparr> (length ?bs - length rest) = Some \<lparr>inner = rest\<rparr>"
    unfolding used by (simp add: advance_def)
  show ?thesis
    using assms(1,2)
    by (cases d; cases "cp_buffer d")
       (use fo ad xs in \<open>simp add: cpp_decode_def Let_def buffer_len_def extend_from_slice_def into_iter_def
          cpp_reset_empty_stream_count_def del: length_append\<close>)
qed

fun chunks_of :: "bytes option list \<Rightarrow> bytes list" where
  "chunks_of [] = []"
| "chunks_of (None # items) = chunks_of items"
| "chunks_of (Some c # items) = c # chunks_of items"

text \<open>What became of the items: a read error, the number of empty chunks in a row, or events.\<close>

datatype cpp_result = ReadFailed | EmptyStream nat | Events "CppMessage list"

definition sse :: "(CppMessage \<Rightarrow> bytes) \<Rightarrow> CppMessage \<Rightarrow> bytes" where
  "sse to_json m = format_sse_event to_json [] m"

fun respond :: "(CppMessage \<Rightarrow> bytes) \<Rightarrow> cpp_result \<Rightarrow> bytes" where
  "respond to_json ReadFailed = []"
| "respond to_json (EmptyStream n) = (if n > 1 then EMPTY_STREAM_EVENT else [])"
| "respond to_json (Events ms) = concat (map (sse to_json) ms)"

fun events_of :: "cpp_result \<Rightarrow> CppMessage list" where
  "events_of (Events ms) = ms"
| "events_of _ = []"

fun empty_counts :: "nat \<Rightarrow> cpp_result list \<Rightarrow> bool" where
  "empty_counts n [] \<longleftrightarrow> True"
| "empty_counts n (ReadFailed # rs) \<longleftrightarrow> empty_counts n rs"
| "empty_counts n (EmptyStream k # rs) \<longleftrightarrow> k = n + 1 \<and> empty_counts k rs"
| "empty_counts n (Events ms # rs) \<longleftrightarrow> empty_counts 0 rs"

lemma process_messages_sse: "cpp_process_messages to_json ms = concat (map (sse to_json) ms)"
proof -
  have "foldl (format_sse_event to_json) v ms = v @ concat (map (sse to_json) ms)" for v
    by (induction ms arbitrary: v) (simp_all add: format_sse_event_def sse_def)
  then show ?thesis by (simp add: cpp_process_messages_def)
qed

lemma cpp_body_results:
  assumes "parse1 (inner (cp_buffer d)) = None"
    and "parse_frames (inner (cp_buffer d) @ concat (chunks_of items)) = (ms, rest)"
  shows "\<exists>rs d'. cpp_body e to_json items d = Some (map (respond to_json) rs, d') \<and> inner (cp_buffer d') = rest
     \<and> length rs = length items \<and> empty_counts (cp_empty_stream_count d) rs
     \<and> concat (map events_of rs) = concat (map (cpp_events e) ms)
     \<and> ((\<forall>c \<in> set (chunks_of items). 5 \<le> length c) \<longrightarrow> (\<forall>n. EmptyStream n \<notin> set rs))"
  using assms
proof (induction items arbitrary: d ms)
  case Nil
  then show ?case by (intro exI [of _ "[]"]) simp
next
  case (Cons i items)
  let ?bs = "inner (cp_buffer d)" and ?chunks = "chunks_of items"
  have step: ?case
    if item: "cpp_item e to_json i d = Some (respond to_json r, d1)"
      and drained: "parse1 (inner (cp_buffer d1)) = None"
      and pf1: "parse_frames (inner (cp_buffer d1) @ concat ?chunks) = (ms1, rest)"
      and counts: "\<And>rs. empty_counts (cp_empty_stream_count d) (r # rs) \<longleftrightarrow> empty_counts (cp_empty_stream_count d1) rs"
      and events: "concat (map (cpp_events e) ms) = events_of r @ concat (map (cpp_events e) ms1)"
      and long: "\<And>n. r = EmptyStream n \<Longrightarrow> \<exists>c. i = Some c \<and> length c < 5" for r d1 ms1
  proof -
    from Cons.IH [OF drained pf1] obtain rs d' where
      "cpp_body e to_json items d1 = Some (map (respond to_json) rs, d')" "inner (cp_buffer d') = rest"
      "length rs = length items" "empty_counts (cp_empty_stream_count d1) rs"
      "concat (map events_of rs) = concat (map (cpp_events e) ms1)"
      "(\<forall>c \<in> set ?chunks. 5 \<le> length c) \<longrightarrow> (\<forall>n. EmptyStream n \<notin> set rs)" by blast
    then show ?thesis
      using item counts events long
      by (intro exI [of _ "r # rs"] exI [of _ d']) (cases i; fastforce)
  qed
  show ?case
  proof (cases i)
    case None
    then show ?thesis
      using Cons.prems by (intro step [of ReadFailed d ms]) (auto simp: cpp_item_def)
  next
    case i: (Some c)
    have all: "parse_frames (?bs @ c @ concat ?chunks) = (ms, rest)"
      using Cons.prems(2) by (simp add: i)
    show ?thesis
    proof (cases "c = [] \<or> length (?bs @ c) < 5")
      case True
      then have "parse1 (?bs @ c) = None"
        using Cons.prems(1) by (elim disjE) (simp, simp add: parse1_def)
      with True show ?thesis
        using all
        by (intro step [of "EmptyStream (cp_empty_stream_count d + 1)"
              "\<lparr>cp_buffer = \<lparr>inner = ?bs @ c\<rparr>, cp_empty_stream_count = cp_empty_stream_count d + 1\<rparr>" ms])
           (auto simp: cpp_item_def i cpp_decode_short)
    next
      case False
      obtain m1 r1 where 1: "parse_frames (?bs @ c) = (m1, r1)" by fastforce
      obtain m2 where 2: "parse_frames (r1 @ concat ?chunks) = (m2, rest)" "ms = m1 @ m2"
        using parse_frames_append [of "?bs @ c" "concat ?chunks"] all by (auto simp: 1 split: prod.splits)
      show ?thesis
        using 2 False parse_frames_rest [of "?bs @ c"] cpp_decode_long [OF _ _ 1, of e]
        by (intro step [of "Events (concat (map (cpp_events e) m1))"
              "\<lparr>cp_buffer = \<lparr>inner = r1\<rparr>, cp_empty_stream_count = 0\<rparr>" m2])
           (auto simp: cpp_item_def i 1 process_messages_sse)
    qed
  qed
qed

section \<open>Properties\<close>


definition echo_cpp :: cpp_env where
  "echo_cpp =
     \<lparr>ce_gunzip = (\<lambda>_. None),
      ce_decode = (\<lambda>b. Some \<lparr>sr_text = b, sr_suggestion_start_line = None, sr_suggestion_confidence = None,
         sr_done_stream = Some True, sr_debug_model_output = None, sr_debug_model_input = None,
         sr_debug_stream_time = None, sr_debug_total_time = None, sr_debug_ttft_time = None,
         sr_debug_server_timing = None, sr_range_to_replace = None, sr_cursor_prediction_target = None,
         sr_done_edit = None, sr_model_info = None, sr_begin_edit = None, sr_should_remove_leading_eol = None,
         sr_binding_id = None\<rparr>),
      ce_from_slice = (\<lambda>_. None)\<rparr>"


end
