(* ===== verification/Models.thy ===== *)
theory Models
  imports Chat_Request
begin

text \<open>
  The model catalogue of \<^verbatim>\<open>src/core/constant.rs\<close>: the built-in table, the index by advertised identifier, the
  list of advertised identifiers and their refresh from the upstream service; the resolution of the model a client names
  (\<^verbatim>\<open>src/core/model/resolver.rs\<close>) and the usage check (\<^verbatim>\<open>src/app/model/usage_check.rs\<close>).  Interned
  identifiers are their texts.  The printer of display names, the clock and the configuration are
  parameters; times are in nanoseconds.
\<close>

section \<open>Texts\<close>

definition strip_suffix :: "bytes \<Rightarrow> bytes \<Rightarrow> bytes option" where
  "strip_suffix p s =
     (if length p \<le> length s \<and> drop (length s - length p) s = p then Some (take (length s - length p) s) else None)"

lemma strip_suffix_append [simp]: "strip_suffix p (s @ p) = Some s"
  by (simp add: strip_suffix_def)

lemma strip_suffix_Some: "strip_suffix p s = Some r \<longleftrightarrow> s = r @ p"
  by (auto simp: strip_suffix_def) (metis append_take_drop_id)

section \<open>The built-in table\<close>

datatype ModelIdSource = SourceId | SourceClientId | SourceServerId

record model =
  m_server_id :: bytes
  m_client_id :: bytes
  m_id :: bytes
  m_display_name :: bytes
  m_owned_by :: bytes
  m_is_thinking :: bool
  m_is_image :: bool
  m_is_max :: bool
  m_is_non_max :: bool

definition model_id :: "ModelIdSource \<Rightarrow> model \<Rightarrow> bytes" where
  "model_id src m = (case src of SourceId \<Rightarrow> m_id m | SourceClientId \<Rightarrow> m_client_id m | SourceServerId \<Rightarrow> m_server_id m)"

text \<open>\<^verbatim>\<open>PartialEq\<close> for models looks at the identifiers only.\<close>

definition model_eq :: "model \<Rightarrow> model \<Rightarrow> bool" where
  "model_eq a b \<longleftrightarrow> m_id a = m_id b \<and> m_server_id a = m_server_id b \<and> m_client_id a = m_client_id b"

record model_ids =
  mi_id :: string
  mi_client_id :: string
  mi_server_id :: string

definition ids_new :: "string \<Rightarrow> model_ids" where
  "ids_new s = \<lparr>mi_id = s, mi_client_id = s, mi_server_id = s\<rparr>"

definition with_client_id :: "string \<Rightarrow> model_ids \<Rightarrow> model_ids" where
  "with_client_id s i = i\<lparr>mi_client_id := s\<rparr>"

definition with_server_id :: "string \<Rightarrow> model_ids \<Rightarrow> model_ids" where
  "with_server_id s i = i\<lparr>mi_server_id := s\<rparr>"

definition with_same_id :: "string \<Rightarrow> model_ids \<Rightarrow> model_ids" where
  "with_same_id s i = i\<lparr>mi_client_id := s, mi_server_id := s\<rparr>"

definition FREE_MODELS :: "bytes list" where
  "FREE_MODELS = map bytes_of
     [''gpt-4o-mini'', ''cursor-fast'', ''cursor-small'', ''deepseek-v3'', ''deepseek-v3.1'', ''grok-3-mini'']"

definition SUPPORTED_THINKING_MODELS :: "bytes list" where
  "SUPPORTED_THINKING_MODELS = map bytes_of
     [''claude-4.5-sonnet-thinking'', ''claude-4-sonnet-thinking'', ''claude-4-sonnet-1m-thinking'',
      ''claude-4-opus-thinking'', ''claude-4-opus-thinking-legacy'', ''gpt-5'', ''gpt-5-fast'', ''gpt-5-medium'',
      ''gpt-5-medium-fast'', ''gpt-5-high'', ''gpt-5-high-fast'', ''gpt-5-low'', ''gpt-5-low-fast'', ''o3'',
      ''gemini-2.5-pro-preview-05-06'', ''gemini-2.5-flash-preview-05-20'', ''claude-3.7-sonnet-thinking'',
      ''gpt-5-mini'', ''gpt-5-nano'', ''o4-mini'', ''deepseek-r1-0528'', ''grok-code-fast-1'', ''grok-4'',
      ''grok-4-fast-reasoning'', ''o3-pro'', ''code-supernova-1-million'', ''gpt-5-codex'']"

definition SUPPORTED_IMAGE_MODELS :: "bytes list" where
  "SUPPORTED_IMAGE_MODELS = map bytes_of
     [''default'', ''claude-4.5-sonnet'', ''claude-4.5-sonnet-thinking'', ''claude-4-sonnet'',
      ''claude-4-sonnet-thinking'', ''claude-4-sonnet-1m'', ''claude-4-sonnet-1m-thinking'', ''claude-4-opus'',
      ''claude-4-opus-thinking'', ''claude-4-opus-legacy'', ''claude-4-opus-thinking-legacy'', ''gpt-5'',
      ''gpt-5-fast'', ''gpt-5-medium'', ''gpt-5-medium-fast'', ''gpt-5-high'', ''gpt-5-high-fast'', ''gpt-5-low'',
      ''gpt-5-low-fast'', ''o3'', ''gemini-2.5-pro-preview-05-06'', ''gemini-2.5-flash-preview-05-20'',
      ''claude-3.5-sonnet'', ''gpt-4.1'', ''claude-3.7-sonnet'', ''claude-3.7-sonnet-thinking'', ''gpt-5-mini'',
      ''gpt-5-nano'', ''claude-3.5-haiku'', ''gpt-4o'', ''o4-mini'', ''grok-4'', ''grok-4-fast-reasoning'',
      ''grok-4-fast-non-reasoning'', ''o3-pro'', ''code-supernova-1-million'', ''gpt-5-codex'',
      ''gemini-2.5-pro-exp-03-25'']"

definition SUPPORTED_MAX_MODELS :: "bytes list" where
  "SUPPORTED_MAX_MODELS = map bytes_of
     [''claude-4.5-sonnet'', ''claude-4.5-sonnet-thinking'', ''claude-4-sonnet'', ''claude-4-sonnet-thinking'',
      ''gpt-5'', ''gpt-5-fast'', ''gpt-5-medium'', ''gpt-5-medium-fast'', ''gpt-5-high'', ''gpt-5-high-fast'',
      ''gpt-5-low'', ''gpt-5-low-fast'', ''o3'', ''gemini-2.5-pro-preview-05-06'',
      ''gemini-2.5-flash-preview-05-20'', ''claude-3.5-sonnet'', ''gpt-4.1'', ''claude-3.7-sonnet'',
      ''claude-3.7-sonnet-thinking'', ''gpt-5-mini'', ''gpt-5-nano'', ''o4-mini'', ''grok-3-beta'',
      ''grok-code-fast-1'', ''grok-4'', ''grok-4-fast-reasoning'', ''grok-4-fast-non-reasoning'',
      ''code-supernova-1-million'', ''gpt-5-codex'', ''gemini-2.5-pro-exp-03-25'']"

definition MAX_MODELS :: "bytes list" where
  "MAX_MODELS = map bytes_of
     [''claude-4-sonnet-1m'', ''claude-4-sonnet-1m-thinking'', ''claude-4-opus'', ''claude-4-opus-thinking'',
      ''claude-4-opus-legacy'', ''claude-4-opus-thinking-legacy'', ''o3-pro'']"

definition MODEL_IDS :: "(string \<times> model_ids) list" where
  "MODEL_IDS =
     [(''default'', ids_new ''default''), (''anthropic'', ids_new ''claude-4.5-sonnet''),
      (''anthropic'', ids_new ''claude-4.5-sonnet-thinking''), (''anthropic'', ids_new ''claude-4-sonnet''),
      (''anthropic'', ids_new ''claude-4-sonnet-thinking''), (''anthropic'', ids_new ''claude-4-sonnet-1m''),
      (''anthropic'', ids_new ''claude-4-sonnet-1m-thinking''),
      (''anthropic'', with_same_id ''claude-4.1-opus'' (ids_new ''claude-4-opus'')),
      (''anthropic'', with_same_id ''claude-4.1-opus-thinking'' (ids_new ''claude-4-opus-thinking'')),
      (''anthropic'', with_same_id ''claude-4-opus'' (ids_new ''claude-4-opus-legacy'')),
      (''anthropic'', with_same_id ''claude-4-opus-thinking'' (ids_new ''claude-4-opus-thinking-legacy'')),
      (''anthropic'', ids_new ''claude-3.5-sonnet''), (''anthropic'', ids_new ''claude-3.7-sonnet''),
      (''anthropic'', ids_new ''claude-3.7-sonnet-thinking''), (''anthropic'', ids_new ''claude-3.5-haiku''),
      (''anthropic'', ids_new ''claude-3-opus''), (''anthropic'', ids_new ''claude-3-haiku-200k''),
      (''anthropic'', ids_new ''claude-3.5-sonnet-200k''), (''cursor'', ids_new ''cursor-small''),
      (''cursor'', ids_new ''cursor-fast''),
      (''google'', with_same_id ''gemini-2.5-pro'' (ids_new ''gemini-2.5-pro-preview-05-06'')),
      (''google'', ids_new ''gemini-2.5-pro''), (''google'', ids_new ''gemini-2.5-pro-latest''),
      (''google'', with_same_id ''gemini-2.5-flash'' (ids_new ''gemini-2.5-flash-preview-05-20'')),
      (''google'', ids_new ''gemini-2.5-flash''), (''google'', ids_new ''gemini-2.5-flash-latest''),
      (''google'', ids_new ''gemini-2.5-pro-exp-03-25''), (''google'', ids_new ''gemini-2.5-flash-preview-04-17''),
      (''google'', ids_new ''gemini-2.5-pro-max''), (''google'', ids_new ''gemini-2.0-flash-thinking-exp''),
      (''google'', ids_new ''gemini-2.0-flash''), (''google'', ids_new ''gemini-1.5-flash-500k''),
      (''openai'', ids_new ''gpt-5''), (''openai'', ids_new ''gpt-5-fast''), (''openai'', ids_new ''gpt-5-medium''),
      (''openai'', ids_new ''gpt-5-medium-fast''), (''openai'', ids_new ''gpt-5-high''),
      (''openai'', ids_new ''gpt-5-high-fast''), (''openai'', ids_new ''gpt-5-low''),
      (''openai'', ids_new ''gpt-5-low-fast''), (''openai'', ids_new ''o3''), (''openai'', ids_new ''gpt-4.1''),
      (''openai'', ids_new ''gpt-5-mini''), (''openai'', ids_new ''gpt-5-nano''), (''openai'', ids_new ''gpt-4o''),
      (''openai'', ids_new ''o4-mini''), (''openai'', ids_new ''o3-pro''), (''openai'', ids_new ''gpt-5-codex''),
      (''openai'', ids_new ''gpt-4''), (''openai'', ids_new ''gpt-4.5-preview''),
      (''openai'', ids_new ''gpt-4-turbo-2024-04-09''), (''openai'', ids_new ''gpt-4o-mini''),
      (''openai'', ids_new ''o1-mini''), (''openai'', ids_new ''o1-preview''), (''openai'', ids_new ''o1''),
      (''openai'', ids_new ''o3-mini''), (''openai'', ids_new ''gpt-4o-128k''),
      (''deepseek'', ids_new ''deepseek-r1-0528''), (''deepseek'', ids_new ''deepseek-v3.1''),
      (''deepseek'', ids_new ''deepseek-r1''), (''deepseek'', ids_new ''deepseek-v3''),
      (''xai'', with_client_id ''grok-3'' (ids_new ''grok-3-beta'')), (''xai'', ids_new ''grok-3-mini''),
      (''xai'', ids_new ''grok-code-fast-1''), (''xai'', with_server_id ''grok-4-0709'' (ids_new ''grok-4'')),
      (''xai'', ids_new ''grok-4-fast-reasoning''), (''xai'', ids_new ''grok-4-fast-non-reasoning''),
      (''xai'', ids_new ''code-supernova-1-million''), (''xai'', ids_new ''grok-2''),
      (''moonshotai'', with_server_id ''accounts/fireworks/models/kimi-k2-instruct'' (ids_new ''kimi-k2-instruct''))]"

definition builtin_model :: "(bytes \<Rightarrow> bytes) \<Rightarrow> string \<times> model_ids \<Rightarrow> model" where
  "builtin_model display =
     (\<lambda>(owner, i).
        let mid = bytes_of (mi_id i)
        in \<lparr>m_server_id = bytes_of (mi_server_id i), m_client_id = bytes_of (mi_client_id i), m_id = mid,
            m_display_name = display (bytes_of (mi_client_id i)), m_owned_by = bytes_of owner,
            m_is_thinking = List.member SUPPORTED_THINKING_MODELS mid,
            m_is_image = List.member SUPPORTED_IMAGE_MODELS mid,
            m_is_max = List.member SUPPORTED_MAX_MODELS mid \<or> List.member MAX_MODELS mid,
            m_is_non_max = \<not> List.member MAX_MODELS mid\<rparr>)"

section \<open>The catalogue\<close>

record 'r catalogue =
  c_models :: "model list"
  c_raw_models :: "'r option"
  c_cached_ids :: "bytes list"
  c_find_ids :: "bytes \<rightharpoonup> nat"
  c_last_update :: int
  c_first_check_passed :: bool  \<comment> \<open>the static of \<^verbatim>\<open>update\<close>\<close>

definition ONLINE_SUFFIX :: bytes where "ONLINE_SUFFIX = bytes_of ''-online''"

definition MAX_SUFFIX :: bytes where "MAX_SUFFIX = bytes_of ''-max''"

definition push_ids :: "bytes list \<Rightarrow> bytes \<Rightarrow> bytes list" where
  "push_ids ids i = ids @ [i, i @ ONLINE_SUFFIX]"

definition push_model_ids :: "ModelIdSource \<Rightarrow> bytes list \<Rightarrow> model \<Rightarrow> bytes list" where
  "push_model_ids src ids m =
     (let i = model_id src m; ids = push_ids ids i
      in if m_is_max m \<and> m_is_non_max m then push_ids ids (i @ MAX_SUFFIX) else ids)"

text \<open>\<^verbatim>\<open>HashMap::from_iter\<close>: a later entry replaces an earlier one.\<close>

definition find_ids_of :: "ModelIdSource \<Rightarrow> model list \<Rightarrow> bytes \<rightharpoonup> nat" where
  "find_ids_of src ms = fold (\<lambda>(i, m) f. f(model_id src m \<mapsto> i)) (List.enumerate 0 ms) Map.empty"

definition create_models :: "(bytes \<Rightarrow> bytes) \<Rightarrow> ModelIdSource \<Rightarrow> int \<Rightarrow> 'r catalogue" where
  "create_models display src t =
     (let models = map (builtin_model display) MODEL_IDS
      in \<lparr>c_models = models, c_raw_models = None, c_cached_ids = foldl (push_model_ids src) [] models,
          c_find_ids = find_ids_of src models, c_last_update = t, c_first_check_passed = False\<rparr>)"

definition find_id :: "bytes \<Rightarrow> 'r catalogue \<Rightarrow> model option ub" where
  "find_id i c =
     (case c_find_ids c i of None \<Rightarrow> Some None | Some n \<Rightarrow> do { m \<leftarrow> slice_get (c_models c) n; Some (Some m) })"

section \<open>Refresh\<close>

datatype FetchMode = Truncate | AppendTruncate | Append

record available_model =
  av_name :: bytes
  av_supports_thinking :: "bool option"
  av_supports_images :: "bool option"
  av_supports_max_mode :: "bool option"
  av_supports_non_max_mode :: "bool option"
  av_client_display_name :: "bytes option"
  av_server_model_name :: "bytes option"

definition extract_ids :: "available_model \<Rightarrow> bytes \<times> bytes \<times> bytes" where
  "extract_ids m =
     (let i = av_name m;
          other = (\<lambda>x. case x of Some y \<Rightarrow> if y \<noteq> i then y else i | None \<Rightarrow> i)
      in (i, other (av_client_display_name m), other (av_server_model_name m)))"

text \<open>The owner by the first letters of the server's name; \<^verbatim>\<open>?\<close> on the missing letters is \<^term>\<open>None\<close>.  A
  character that is compared here is one byte, and no other character begins with such a byte.\<close>

definition owner_by_name :: "bytes \<Rightarrow> string option" where
  "owner_by_name s =
     (case s of
        a # b # r \<Rightarrow>
          if a = 0x67 then
            if b = 0x70 then Some ''openai'' else if b = 0x65 then Some ''google'' else if b = 0x72 then Some ''xai'' else None
          else if a = 0x6F then if b = 0x31 \<or> b = 0x33 \<or> b = 0x34 then Some ''openai'' else None
          else if a = 0x63 then if b = 0x6C then Some ''anthropic'' else if b = 0x75 then Some ''cursor'' else None
          else if a = 0x64 then if b = 0x65 \<and> r \<noteq> [] \<and> hd r = 0x65 then Some ''deepseek'' else None
          else if a = 0x61 then if length s > 26 then Some ''fireworks'' else None
          else None
      | _ \<Rightarrow> None)"

definition convert_model :: "(bytes \<Rightarrow> bytes) \<Rightarrow> available_model \<Rightarrow> model" where
  "convert_model display m =
     (let (i, client_id, server_id) = extract_ids m
      in \<lparr>m_server_id = server_id, m_client_id = client_id, m_id = i, m_display_name = display client_id,
          m_owned_by = bytes_of (case owner_by_name server_id of Some x \<Rightarrow> x | None \<Rightarrow> ''unknown''),
          m_is_thinking = (av_supports_thinking m = Some True),
          m_is_image = (if server_id = bytes_of ''default'' then True else av_supports_images m = Some True),
          m_is_max = (av_supports_max_mode m = Some True), m_is_non_max = (av_supports_non_max_mode m = Some True)\<rparr>)"

definition new_models :: "(bytes \<Rightarrow> bytes) \<Rightarrow> FetchMode \<Rightarrow> model list \<Rightarrow> available_model list \<Rightarrow> model list" where
  "new_models display mode current available =
     (case mode of
        Truncate \<Rightarrow> map (convert_model display) available
      | AppendTruncate \<Rightarrow>
          filter (\<lambda>m. \<not> List.member (map av_name available) (m_id m)) current @ map (convert_model display) available
      | Append \<Rightarrow>
          current @ map (convert_model display) (filter (\<lambda>a. \<not> List.member (map m_id current) (av_name a)) available))"

text \<open>Whether an advertised identifier belongs to the model \<open>mid\<close>.\<close>

definition id_matches :: "bytes \<Rightarrow> bytes \<Rightarrow> bool" where
  "id_matches mid i \<longleftrightarrow>
     i = mid \<or>
     (case strip_suffix ONLINE_SUFFIX i of
        Some base \<Rightarrow> base = mid \<or> strip_suffix MAX_SUFFIX base = Some mid
      | None \<Rightarrow> strip_suffix MAX_SUFFIX i = Some mid)"

definition MINUTES_30 :: int where
  "MINUTES_30 = 1800000000000"

text \<open>The check of the interval and the static it may set: \<open>uptime\<close> is the time since the start of the program.\<close>

definition too_early :: "int \<Rightarrow> int \<Rightarrow> 'r catalogue \<Rightarrow> bool \<times> bool" where
  "too_early t uptime c =
     (if t - c_last_update c < MINUTES_30 then
        if c_first_check_passed c then (True, True)
        else let result = uptime \<ge> MINUTES_30 in (result, result)
      else (False, c_first_check_passed c))"

definition catalogue_update ::
  "(bytes \<Rightarrow> bytes) \<Rightarrow> ModelIdSource \<Rightarrow> FetchMode \<Rightarrow> int \<Rightarrow> int \<Rightarrow> ('r \<Rightarrow> available_model list) \<Rightarrow> 'r
   \<Rightarrow> 'r catalogue \<Rightarrow> (bytes + unit) \<times> 'r catalogue" where
  "catalogue_update display src mode t uptime models_of resp c =
     (if models_of resp = [] then (Inl (bytes_of ''Models list cannot be empty''), c)
      else
        let c = c\<lparr>c_raw_models := Some resp\<rparr>;
            (early, passed) = too_early t uptime c;
            c = c\<lparr>c_first_check_passed := passed\<rparr>
        in if early then (Inr (), c)
           else
             let new = new_models display mode (c_models c) (models_of resp)
             in if list_all2 model_eq (c_models c) new then (Inr (), c)
                else
                  let old_ids = map (model_id src) (c_models c);
                      new_ids = map (model_id src) new;
                      to_add = filter (\<lambda>m. \<not> List.member old_ids (model_id src m)) new;
                      to_remove = filter (\<lambda>m. \<not> List.member new_ids (model_id src m)) (c_models c);
                      cached = filter (\<lambda>i. \<not> list_ex (\<lambda>m. id_matches (model_id src m) i) to_remove) (c_cached_ids c);
                      cached = foldl (push_model_ids src) cached to_add
                  in (Inr (), c\<lparr>c_find_ids := find_ids_of src new, c_models := new, c_cached_ids := cached,
                               c_last_update := t\<rparr>))"

section \<open>Resolution\<close>

fun contains_str :: "bytes \<Rightarrow> bytes \<Rightarrow> bool" where
  "contains_str pat [] \<longleftrightarrow> pat = []"
| "contains_str pat (b # bs) \<longleftrightarrow> take (length pat) (b # bs) = pat \<or> contains_str pat bs"

definition guess_thinking :: "bytes \<Rightarrow> bool" where
  "guess_thinking i \<longleftrightarrow>
     contains_str (bytes_of ''-thinking'') i \<or>
     (length i \<ge> 2 \<and> i ! 0 = 0x6F \<and> is_ascii_digit (i ! 1)) \<or>
     strip_prefix (bytes_of ''gemini-2.5-'') i \<noteq> None \<or> strip_prefix (bytes_of ''deepseek-r1'') i \<noteq> None \<or>
     strip_prefix (bytes_of ''grok-4'') i \<noteq> None"

definition bypassed :: "bool \<Rightarrow> bytes \<Rightarrow> bool \<Rightarrow> bool \<Rightarrow> ext_model option" where
  "bypassed bypass model_str web max_mode =
     (if bypass \<and> model_str \<noteq> [] then
        Some \<lparr>em_id = model_str, em_is_image = True, em_is_thinking = guess_thinking model_str, em_web = web, em_max = max_mode\<rparr>
      else None)"

definition ext_model_from_str :: "bool \<Rightarrow> bytes \<Rightarrow> 'r catalogue \<Rightarrow> ext_model option ub" where
  "ext_model_from_str bypass s c =
     (let (base_str, web) = (case strip_suffix ONLINE_SUFFIX s of Some base \<Rightarrow> (base, True) | None \<Rightarrow> (s, False))
      in do {
        direct \<leftarrow> find_id base_str c;
        (case direct of
           Some raw \<Rightarrow> Some (Some \<lparr>em_id = m_server_id raw, em_is_image = m_is_image raw, em_is_thinking = m_is_thinking raw,
                                  em_web = web, em_max = (\<not> m_is_non_max raw)\<rparr>)
         | None \<Rightarrow>
             let (model_str, max_mode) = (case strip_suffix MAX_SUFFIX base_str of Some base \<Rightarrow> (base, True) | None \<Rightarrow> (base_str, False))
             in do {
               found \<leftarrow> (if max_mode then find_id model_str c else Some None);
               (case found of
                  Some raw \<Rightarrow> if m_is_max raw
                    then Some (Some \<lparr>em_id = m_server_id raw, em_is_image = m_is_image raw, em_is_thinking = m_is_thinking raw,
                                    em_web = web, em_max = max_mode\<rparr>)
                    else Some (bypassed bypass model_str web max_mode)
                | None \<Rightarrow> Some (bypassed bypass model_str web max_mode))
             })
      })"

section \<open>Lemmas\<close>

lemma find_ids_snoc: "find_ids_of src (ms @ [m]) = (find_ids_of src ms)(model_id src m \<mapsto> length ms)"
  by (simp add: find_ids_of_def enumerate_append_eq)

lemma find_ids_Nil [simp]: "find_ids_of src [] = Map.empty"
  by (simp add: find_ids_of_def)

lemma find_ids_Some:
  "find_ids_of src ms i = Some n \<Longrightarrow> n < length ms \<and> model_id src (ms ! n) = i"
  by (induction ms rule: rev_induct) (auto simp: find_ids_snoc nth_append split: if_splits)

lemma find_ids_None: "find_ids_of src ms i = None \<longleftrightarrow> i \<notin> model_id src ` set ms"
  by (induction ms rule: rev_induct) (auto simp: find_ids_snoc)

definition catalogue_ok :: "ModelIdSource \<Rightarrow> 'r catalogue \<Rightarrow> bool" where
  "catalogue_ok src c \<longleftrightarrow> c_find_ids c = find_ids_of src (c_models c) \<and> c_models c \<noteq> []"

lemma find_id_ok:
  assumes "catalogue_ok src c"
  shows "\<exists>r. find_id i c = Some r \<and>
    (case r of None \<Rightarrow> i \<notin> model_id src ` set (c_models c) | Some m \<Rightarrow> m \<in> set (c_models c) \<and> model_id src m = i)"
proof (cases "c_find_ids c i")
  case None
  then have "find_id i c = Some None" by (simp add: find_id_def)
  then show ?thesis using None assms by (simp add: catalogue_ok_def find_ids_None)
next
  case (Some n)
  then show ?thesis
    using assms find_ids_Some [of src "c_models c" i n] by (simp add: find_id_def catalogue_ok_def slice_get_def)
qed

lemma find_id_distinct:
  assumes "catalogue_ok src c" "distinct (map (model_id src) (c_models c))" "m \<in> set (c_models c)"
  shows "find_id (model_id src m) c = Some (Some m)"
proof -
  from find_id_ok [OF assms(1)] obtain r where r: "find_id (model_id src m) c = Some r"
    "case r of None \<Rightarrow> model_id src m \<notin> model_id src ` set (c_models c)
     | Some m' \<Rightarrow> m' \<in> set (c_models c) \<and> model_id src m' = model_id src m" by blast
  then show ?thesis
    using assms(2,3) by (auto simp: distinct_map inj_on_def split: option.splits)
qed

definition names_of :: "ModelIdSource \<Rightarrow> model \<Rightarrow> bytes list" where
  "names_of src m = push_model_ids src [] m"

lemma push_model_ids_names: "push_model_ids src ids m = ids @ names_of src m"
  by (simp add: push_model_ids_def push_ids_def names_of_def Let_def)

lemma set_push_models: "set (foldl (push_model_ids src) ids ms) = set ids \<union> (\<Union>m \<in> set ms. set (names_of src m))"
  by (induction ms arbitrary: ids) (auto simp: push_model_ids_names)

lemma suffixes_nonempty [simp]: "ONLINE_SUFFIX \<noteq> []" "MAX_SUFFIX \<noteq> []"
  by code_simp+

lemma no_online_max [simp]: "strip_suffix ONLINE_SUFFIX (i @ MAX_SUFFIX) = None"
proof -
  have "last ONLINE_SUFFIX \<noteq> last MAX_SUFFIX" "ONLINE_SUFFIX \<noteq> []" "MAX_SUFFIX \<noteq> []" by code_simp+
  then have "strip_suffix ONLINE_SUFFIX (i @ MAX_SUFFIX) \<noteq> Some r" for r
    by (metis last_appendR strip_suffix_Some)
  then show ?thesis by (cases "strip_suffix ONLINE_SUFFIX (i @ MAX_SUFFIX)") auto
qed

lemma names_match: "i \<in> set (names_of src m) \<Longrightarrow> id_matches (model_id src m) i"
  by (auto simp: names_of_def push_model_ids_def push_ids_def id_matches_def Let_def simp flip: append_assoc
      split: if_splits option.splits)

text \<open>Every advertised identifier is one of a model.\<close>

definition advertised_ok :: "ModelIdSource \<Rightarrow> 'r catalogue \<Rightarrow> bool" where
  "advertised_ok src c \<longleftrightarrow> (\<forall>i \<in> set (c_cached_ids c). \<exists>m \<in> set (c_models c). i \<in> set (names_of src m))"

lemma MODEL_IDS_nonempty [simp]: "MODEL_IDS \<noteq> []"
  by (simp add: MODEL_IDS_def)

lemma create_ok: "catalogue_ok src (create_models display src t)" "advertised_ok src (create_models display src t)"
  by (simp_all add: catalogue_ok_def create_models_def advertised_ok_def Let_def set_push_models)

lemma new_models_nonempty: "current \<noteq> [] \<Longrightarrow> available \<noteq> [] \<Longrightarrow> new_models display mode current available \<noteq> []"
  by (cases mode) (simp_all add: new_models_def)

lemma update_ok:
  assumes "catalogue_ok src c"
  shows "catalogue_ok src (snd (catalogue_update display src mode t uptime models_of resp c))"
  using assms new_models_nonempty
  by (auto simp: catalogue_update_def Let_def catalogue_ok_def split: prod.split)

lemma update_advertised:
  assumes "advertised_ok src c"
    and stable: "\<And>m m'. m \<in> set (c_models c) \<Longrightarrow> m' \<in> set (new_models display mode (c_models c) (models_of resp)) \<Longrightarrow>
        model_id src m = model_id src m' \<Longrightarrow> set (names_of src m) \<subseteq> set (names_of src m')"
  shows "advertised_ok src (snd (catalogue_update display src mode t uptime models_of resp c))"
proof -
  let ?new = "new_models display mode (c_models c) (models_of resp)"
  let ?remove = "filter (\<lambda>m. \<not> List.member (map (model_id src) ?new) (model_id src m)) (c_models c)"
  have keep: "\<exists>m' \<in> set ?new. i \<in> set (names_of src m')"
    if i: "i \<in> set (c_cached_ids c)" and kept: "\<not> list_ex (\<lambda>m. id_matches (model_id src m) i) ?remove" for i
  proof -
    from assms(1) i obtain m where m: "m \<in> set (c_models c)" "i \<in> set (names_of src m)" by (auto simp: advertised_ok_def)
    then have "m \<notin> set ?remove" using kept names_match by (auto simp: list_ex_iff)
    then obtain m' where "m' \<in> set ?new" "model_id src m = model_id src m'" using m(1) by (auto simp: List.member_iff)
    then show ?thesis using stable m by blast
  qed
  show ?thesis
    using assms(1) keep
    by (auto simp: catalogue_update_def Let_def advertised_ok_def set_push_models split: prod.split)
qed

text \<open>A text without its suffixes.\<close>

definition plain_name :: "bytes \<Rightarrow> bytes \<Rightarrow> bool" where
  "plain_name s i \<longleftrightarrow> (\<exists>web \<in> {[], ONLINE_SUFFIX}. \<exists>mx \<in> {[], MAX_SUFFIX}. s = i @ mx @ web)"

definition resolves_to :: "ModelIdSource \<Rightarrow> bytes \<Rightarrow> model \<Rightarrow> ext_model \<Rightarrow> bool" where
  "resolves_to src s m em \<longleftrightarrow>
     plain_name s (model_id src m) \<and> em_id em = m_server_id m \<and> em_is_image em = m_is_image m \<and>
     em_is_thinking em = m_is_thinking m \<and> (em_max em \<longrightarrow> m_is_max m \<or> \<not> m_is_non_max m) \<and>
     (em_web em \<longleftrightarrow> strip_suffix ONLINE_SUFFIX s \<noteq> None)"

lemma resolve_ok:
  assumes "catalogue_ok src c"
  shows "\<exists>r. ext_model_from_str bypass s c = Some r \<and>
    (case r of Some em \<Rightarrow> bypass \<or> (\<exists>m \<in> set (c_models c). resolves_to src s m em) | None \<Rightarrow> s \<notin> model_id src ` set (c_models c) \<or> strip_suffix ONLINE_SUFFIX s \<noteq> None)"
proof -
  let ?d = "case strip_suffix ONLINE_SUFFIX s of Some base \<Rightarrow> (base, True) | None \<Rightarrow> (s, False)"
  obtain base web where d: "?d = (base, web)" by fastforce
  then have s: "s = base @ (if web then ONLINE_SUFFIX else [])" "web \<longleftrightarrow> strip_suffix ONLINE_SUFFIX s \<noteq> None"
    by (auto simp: strip_suffix_Some split: option.splits)
  obtain r where r: "find_id base c = Some r"
    "case r of None \<Rightarrow> base \<notin> model_id src ` set (c_models c) | Some m \<Rightarrow> m \<in> set (c_models c) \<and> model_id src m = base"
    using find_id_ok [OF assms] by blast
  show ?thesis
  proof (cases r)
    case (Some m)
    then have "resolves_to src s m \<lparr>em_id = m_server_id m, em_is_image = m_is_image m, em_is_thinking = m_is_thinking m,
        em_web = web, em_max = (\<not> m_is_non_max m)\<rparr>" "m \<in> set (c_models c)"
      using r s by (auto simp: resolves_to_def plain_name_def)
    then show ?thesis using r(1) Some by (auto simp: ext_model_from_str_def d)
  next
    case None
    note r = r [unfolded None]
    show ?thesis
    proof (cases "strip_suffix MAX_SUFFIX base")
      case None
      then show ?thesis using r s by (auto simp: ext_model_from_str_def d bypassed_def image_iff)
    next
      case b: (Some b)
      then have base: "base = b @ MAX_SUFFIX" by (simp add: strip_suffix_Some)
      obtain q where q: "find_id b c = Some q"
        "case q of None \<Rightarrow> b \<notin> model_id src ` set (c_models c) | Some m \<Rightarrow> m \<in> set (c_models c) \<and> model_id src m = b"
        using find_id_ok [OF assms] by blast
      have none: "s \<notin> model_id src ` set (c_models c) \<or> strip_suffix ONLINE_SUFFIX s \<noteq> None"
        using r(2) s by (cases web) auto
      have fallback: ?thesis if "ext_model_from_str bypass s c = Some (bypassed bypass b web True)"
        using that none by (cases bypass) (auto simp: bypassed_def)
      show ?thesis
      proof (cases "\<exists>m. q = Some m \<and> m_is_max m")
        case True
        then obtain m where m: "q = Some m" "m_is_max m" by blast
        let ?em = "\<lparr>em_id = m_server_id m, em_is_image = m_is_image m, em_is_thinking = m_is_thinking m, em_web = web, em_max = True\<rparr>"
        have "ext_model_from_str bypass s c = Some (Some ?em)" using r(1) q(1) m b by (simp add: ext_model_from_str_def d)
        moreover have "resolves_to src s m ?em" using m q s base by (auto simp: resolves_to_def plain_name_def)
        ultimately show ?thesis using m q by auto
      next
        case False
        then show ?thesis using r(1) q(1) b by (intro fallback) (cases q; simp add: ext_model_from_str_def d)
      qed
    qed
  qed
qed

primrec refresh ::
  "(bytes \<Rightarrow> bytes) \<Rightarrow> ModelIdSource \<Rightarrow> ('r \<Rightarrow> available_model list) \<Rightarrow> (FetchMode \<times> int \<times> int \<times> 'r) list \<Rightarrow> 'r catalogue \<Rightarrow> 'r catalogue" where
  "refresh display src models_of [] c = c"
| "refresh display src models_of (u # us) c =
     (case u of (mode, t, uptime, resp) \<Rightarrow>
        refresh display src models_of us (snd (catalogue_update display src mode t uptime models_of resp c)))"

lemma refresh_ok: "catalogue_ok src c \<Longrightarrow> catalogue_ok src (refresh display src models_of us c)"
  by (induction us arbitrary: c) (auto intro: update_ok)

section \<open>Properties\<close>

text \<open>C15: The catalogue always resolves.  Whatever answers of the upstream service are merged into the built-in table, in
  whatever mode and at whatever time, the index points into the list of models, so the unchecked access of
  the resolution is defined for every text; unless validation is bypassed, a resolved name is the identifier of a model of the
  list, up to the suffixes for web search and max mode, with that model's capabilities, and max mode is only
  given to a model that has it.  The identifier of a model that does not end in the suffix for web search always
  resolves.\<close>

theorem model_resolution_safe:
  "let c = refresh display src models_of us (create_models display src t) in
   \<exists>r. ext_model_from_str bypass s c = Some r \<and>
    (case r of
       Some em \<Rightarrow> bypass \<or> (\<exists>m \<in> set (c_models c). resolves_to src s m em)
     | None \<Rightarrow> s \<notin> model_id src ` set (c_models c) \<or> strip_suffix ONLINE_SUFFIX s \<noteq> None)"
  unfolding Let_def by (rule resolve_ok) (intro refresh_ok create_ok)

text \<open>The built-in table after one refresh that appends an answer of one model.\<close>

theorem model_resolution_safe_witness:
  "let c = refresh (\<lambda>_. []) SourceId id
       [(Append, 0, 0, [\<lparr>av_name = bytes_of ''b'', av_supports_thinking = None, av_supports_images = None, av_supports_max_mode = None,
          av_supports_non_max_mode = Some True, av_client_display_name = None, av_server_model_name = None\<rparr>])]
       (create_models (\<lambda>_. []) SourceId 0) in
   \<exists>r. ext_model_from_str False (bytes_of ''b'') c = Some r \<and>
     (case r of Some em \<Rightarrow> \<exists>m \<in> set (c_models c). resolves_to SourceId (bytes_of ''b'') m em
      | None \<Rightarrow> bytes_of ''b'' \<notin> model_id SourceId ` set (c_models c))"
proof -
  have "strip_suffix ONLINE_SUFFIX (bytes_of ''b'') = None" by code_simp
  then show ?thesis
    using model_resolution_safe [of "\<lambda>_. []" SourceId id
       "[(Append, 0, 0, [\<lparr>av_name = bytes_of ''b'', av_supports_thinking = None, av_supports_images = None, av_supports_max_mode = None,
          av_supports_non_max_mode = Some True, av_client_display_name = None, av_server_model_name = None\<rparr>])]" 0 False "bytes_of ''b''"]
    unfolding Let_def by (simp del: refresh.simps cong: option.case_cong)
qed

lemma names_resolve:
  assumes "catalogue_ok src c" "distinct (map (model_id src) (c_models c))" "m \<in> set (c_models c)"
    and plain: "strip_suffix ONLINE_SUFFIX (model_id src m) = None" and i: "i \<in> set (names_of src m)"
  shows "\<exists>em. ext_model_from_str bypass i c = Some (Some em)"
proof -
  let ?m = "model_id src m"
  note found = find_id_distinct [OF assms(1-3)]
  have direct: "\<exists>em. ext_model_from_str bypass (?m @ w) c = Some (Some em)" if "w = [] \<or> w = ONLINE_SUFFIX" for w
    using that found plain by (auto simp: ext_model_from_str_def)
  have mx: "\<exists>em. ext_model_from_str bypass (?m @ MAX_SUFFIX @ w) c = Some (Some em)"
    if "w = [] \<or> w = ONLINE_SUFFIX" "m_is_max m" for w
  proof -
    have *: "(case strip_suffix ONLINE_SUFFIX (?m @ MAX_SUFFIX @ w) of Some base \<Rightarrow> (base, True) | None \<Rightarrow> (?m @ MAX_SUFFIX @ w, False))
        = (?m @ MAX_SUFFIX, w \<noteq> [])" using that(1) by (auto simp flip: append_assoc)
    obtain r where "find_id (?m @ MAX_SUFFIX) c = Some r" using find_id_ok [OF assms(1)] by blast
    then show ?thesis using found that(2) by (cases r) (auto simp: ext_model_from_str_def *)
  qed
  show ?thesis
    using i direct [of "[]"] direct [of ONLINE_SUFFIX] mx [of "[]"] mx [of ONLINE_SUFFIX]
    by (auto simp: names_of_def push_model_ids_def push_ids_def Let_def split: if_splits)
qed


definition small_model :: "string \<Rightarrow> bool \<Rightarrow> model" where
  "small_model s mx =
     \<lparr>m_server_id = bytes_of s, m_client_id = bytes_of s, m_id = bytes_of s, m_display_name = [], m_owned_by = bytes_of ''unknown'',
      m_is_thinking = False, m_is_image = False, m_is_max = mx, m_is_non_max = True\<rparr>"

definition small_catalogue :: "available_model list catalogue" where
  "small_catalogue =
     \<lparr>c_models = [small_model ''a'' True], c_raw_models = None, c_cached_ids = foldl (push_model_ids SourceId) [] [small_model ''a'' True],
      c_find_ids = find_ids_of SourceId [small_model ''a'' True], c_last_update = 0, c_first_check_passed = False\<rparr>"

definition small_answer :: "available_model list" where
  "small_answer =
     [\<lparr>av_name = bytes_of ''b'', av_supports_thinking = None, av_supports_images = None, av_supports_max_mode = None,
       av_supports_non_max_mode = Some True, av_client_display_name = None, av_server_model_name = None\<rparr>]"

definition small_refreshed :: "available_model list catalogue" where
  "small_refreshed = snd (catalogue_update (\<lambda>_. []) SourceId Append 0 0 id small_answer small_catalogue)"

lemma small_refreshed_models: "c_models small_refreshed = [small_model ''a'' True, small_model ''b'' False]"
  "c_cached_ids small_refreshed = map bytes_of [''a'', ''a-online'', ''a-max'', ''a-max-online'', ''b'', ''b-online'']"
  by code_simp+


section \<open>What goes wrong\<close>

lemma find_ids_rev:
  "(case find_ids_of src ms i of None \<Rightarrow> None | Some n \<Rightarrow> Some (ms ! n)) = find (\<lambda>m. model_id src m = i) (rev ms)"
proof (induction ms rule: rev_induct)
  case (snoc m ms)
  show ?case
  proof (cases "model_id src m = i")
    case False
    then have "find_ids_of src (ms @ [m]) i = find_ids_of src ms i" by (simp add: find_ids_snoc)
    then show ?thesis
      using snoc False find_ids_Some [of src ms i] by (auto simp: nth_append split: option.splits)
  qed (simp add: find_ids_snoc)
qed simp

lemma member_bytes_of: "List.member (map bytes_of xs) (bytes_of s) \<longleftrightarrow> s \<in> set xs"
  by (auto simp: List.member_iff bytes_of_inj)

lemma find_map_conv: "find P (map f xs) = map_option f (find (\<lambda>x. P (f x)) xs)"
  by (induction xs) auto

lemma builtin_find:
  "find_id (bytes_of s) (create_models display SourceClientId t :: 'r catalogue) =
     Some (map_option (builtin_model display) (find (\<lambda>(_, i). mi_client_id i = s) (rev MODEL_IDS)))"
proof -
  let ?c = "create_models display SourceClientId t :: 'r catalogue"
  have ids: "(\<lambda>x. model_id SourceClientId (builtin_model display x) = bytes_of s) = (\<lambda>(_, i). mi_client_id i = s)"
    by (auto simp: fun_eq_iff model_id_def builtin_model_def Let_def bytes_of_inj)
  have "find_id (bytes_of s) ?c = Some (find (\<lambda>m. model_id SourceClientId m = bytes_of s) (rev (c_models ?c)))"
    unfolding find_ids_rev [symmetric] using find_ids_Some [of SourceClientId "c_models ?c" "bytes_of s"]
    by (auto simp: find_id_def create_models_def Let_def slice_get_def split: option.split)
  then show ?thesis
    by (simp add: create_models_def Let_def rev_map find_map_conv ids del: bytes_of_append)
qed

text \<open>With the default configuration models are advertised under their client identifiers, and two built-in models have the
  client identifier \<^verbatim>\<open>gemini-2.5-flash\<close>.  The first supports max mode, so its max-mode name is advertised; the
  index leads to the second, which does not, and the name is refused.\<close>

theorem advertised_max_refused:
  "let c = create_models (\<lambda>_. []) SourceClientId 0 :: unit catalogue in
   bytes_of ''gemini-2.5-flash-max'' \<in> set (c_cached_ids c) \<and>
   ext_model_from_str False (bytes_of ''gemini-2.5-flash-max'') c = Some None"
proof -
  let ?c = "create_models (\<lambda>_. []) SourceClientId 0 :: unit catalogue"
  let ?max = "(''google'', with_same_id ''gemini-2.5-flash'' (ids_new ''gemini-2.5-flash-preview-05-20''))"
  have "?max \<in> set MODEL_IDS" by (simp add: MODEL_IDS_def)
  moreover have "bytes_of ''gemini-2.5-flash-max'' \<in> set (names_of SourceClientId (builtin_model (\<lambda>_. []) ?max))"
    by (simp add: names_of_def push_model_ids_def push_ids_def model_id_def builtin_model_def with_same_id_def ids_new_def
        Let_def MAX_MODELS_def SUPPORTED_MAX_MODELS_def member_bytes_of bytes_of_inj MAX_SUFFIX_def flip: bytes_of_append)
  ultimately have adv: "bytes_of ''gemini-2.5-flash-max'' \<in> set (c_cached_ids ?c)"
    unfolding create_models_def Let_def by (auto simp: set_push_models)
  have 1: "find (\<lambda>(_, i). mi_client_id i = ''gemini-2.5-flash-max'') (rev MODEL_IDS) = None" by code_simp
  have 2: "find (\<lambda>(_, i). mi_client_id i = ''gemini-2.5-flash'') (rev MODEL_IDS) = Some (''google'', ids_new ''gemini-2.5-flash'')"
    by code_simp
  have 3: "\<not> m_is_max (builtin_model (\<lambda>_. []) (''google'', ids_new ''gemini-2.5-flash''))"
    by (simp add: builtin_model_def ids_new_def Let_def MAX_MODELS_def SUPPORTED_MAX_MODELS_def member_bytes_of bytes_of_inj)
  have 4: "strip_suffix ONLINE_SUFFIX (bytes_of ''gemini-2.5-flash-max'') = None" by code_simp
  have 5: "strip_suffix MAX_SUFFIX (bytes_of ''gemini-2.5-flash-max'') = Some (bytes_of ''gemini-2.5-flash'')" by code_simp
  have "ext_model_from_str False (bytes_of ''gemini-2.5-flash-max'') ?c = Some None"
    by (simp add: ext_model_from_str_def 4 5 builtin_find 1 2 3 bypassed_def)
  with adv show ?thesis unfolding Let_def by blast
qed

end
