(* ===== verification/App_Config.thy ===== *)
theory App_Config
  imports Models Hex_Hash
begin

text \<open>
  The configuration that can be changed while the program runs: \<^verbatim>\<open>src/app/model/config.rs\<close>, its request handler
  \<^verbatim>\<open>src/app/config.rs\<close> and the values it holds (\<^verbatim>\<open>vision_ability.rs\<close>, \<^verbatim>\<open>fetch_model.rs\<close>,
  \<^verbatim>\<open>usage_check.rs\<close>).  The configuration starts from environment variables, which are parameters.
\<close>

section \<open>Values\<close>

definition lowercase :: "bytes \<Rightarrow> bytes" where
  "lowercase s = map to_ascii_lowercase s"

definition vision_from_str :: "bytes \<Rightarrow> VisionAbility" where
  "vision_from_str s =
     (let l = lowercase s
      in if l = bytes_of ''none'' \<or> l = bytes_of ''disabled'' then VisionNone
         else if l = bytes_of ''base64'' \<or> l = bytes_of ''base64-only'' then VisionBase64
         else if l = bytes_of ''all'' \<or> l = bytes_of ''base64-http'' then VisionAll
         else VisionBase64)"

definition vision_as_str :: "VisionAbility \<Rightarrow> bytes" where
  "vision_as_str v = bytes_of (case v of VisionNone \<Rightarrow> ''none'' | VisionBase64 \<Rightarrow> ''base64'' | VisionAll \<Rightarrow> ''all'')"

definition fetch_from_str :: "bytes \<Rightarrow> FetchMode" where
  "fetch_from_str s =
     (let l = lowercase s
      in if l = bytes_of ''truncate'' then Truncate else if l = bytes_of ''append:truncate'' then AppendTruncate
         else if l = bytes_of ''append'' then Append else Truncate)"

definition fetch_as_str :: "FetchMode \<Rightarrow> bytes" where
  "fetch_as_str m =
     bytes_of (case m of Truncate \<Rightarrow> ''truncate'' | AppendTruncate \<Rightarrow> ''append:truncate'' | Append \<Rightarrow> ''append'')"

datatype UsageCheck = UsageNone | UsageDefault | UsageAll | UsageCustom "bytes list"

text \<open>\<^verbatim>\<open>str::split\<close> on a comma.\<close>

fun split_comma :: "bytes \<Rightarrow> bytes list" where
  "split_comma [] = [[]]"
| "split_comma (b # bs) =
     (if b = 0x2C then [] # split_comma bs
      else case split_comma bs of [] \<Rightarrow> [[b]] | x # xs \<Rightarrow> (b # x) # xs)"

text \<open>\<^verbatim>\<open>filter_map(Models::find_id)\<close>, and the built-in identifiers of what it finds.\<close>

fun find_models :: "'r catalogue \<Rightarrow> bytes list \<Rightarrow> bytes list ub" where
  "find_models c [] = Some []"
| "find_models c (x # xs) = do {
     m \<leftarrow> find_id x c;
     ms \<leftarrow> find_models c xs;
     Some (case m of Some m \<Rightarrow> m_id m # ms | None \<Rightarrow> ms)
   }"

definition parse_custom_models :: "'r catalogue \<Rightarrow> bytes \<Rightarrow> UsageCheck ub" where
  "parse_custom_models c s = do {
     models \<leftarrow> find_models c (map trim (split_comma s));
     Some (if models = [] then UsageDefault else UsageCustom models)
   }"

definition usage_from_str :: "'r catalogue \<Rightarrow> bytes \<Rightarrow> UsageCheck ub" where
  "usage_from_str c s =
     (let l = lowercase s
      in if l = bytes_of ''none'' \<or> l = bytes_of ''disabled'' then Some UsageNone
         else if l = bytes_of ''default'' then Some UsageDefault
         else if l = bytes_of ''all'' \<or> l = bytes_of ''everything'' then Some UsageAll
         else parse_custom_models c s)"

datatype UsageCheckModelType = TypeDefault | TypeDisabled | TypeAll | TypeCustom

record usage_check_model =
  uc_type :: UsageCheckModelType
  uc_model_ids :: "bytes list"

definition usage_from_proto :: "'r catalogue \<Rightarrow> usage_check_model \<Rightarrow> UsageCheck ub" where
  "usage_from_proto c u =
     (case uc_type u of
        TypeDefault \<Rightarrow> Some UsageNone
      | TypeDisabled \<Rightarrow> Some UsageNone
      | TypeAll \<Rightarrow> Some UsageAll
      | TypeCustom \<Rightarrow> do {
          models \<leftarrow> find_models c (uc_model_ids u);
          Some (if models = [] then UsageNone else UsageCustom models)
        })"

text \<open>The fields \<^verbatim>\<open>type\<close> and \<^verbatim>\<open>content\<close> of the JSON form.\<close>

definition usage_serialize :: "UsageCheck \<Rightarrow> bytes \<times> bytes option" where
  "usage_serialize u =
     (case u of
        UsageCustom models \<Rightarrow> (bytes_of ''list'', Some (join [0x2C] models))
      | UsageNone \<Rightarrow> (bytes_of ''none'', None)
      | UsageDefault \<Rightarrow> (bytes_of ''default'', None)
      | UsageAll \<Rightarrow> (bytes_of ''all'', None))"

datatype usage_error = MissingType | MissingContent | UnknownVariant bytes

definition usage_deserialize :: "'r catalogue \<Rightarrow> bytes option \<Rightarrow> bytes option \<Rightarrow> (usage_error + UsageCheck) ub" where
  "usage_deserialize c type_value content_value =
     (case type_value of
        None \<Rightarrow> Some (Inl MissingType)
      | Some t \<Rightarrow>
          if t = bytes_of ''none'' then Some (Inr UsageNone)
          else if t = bytes_of ''default'' then Some (Inr UsageDefault)
          else if t = bytes_of ''all'' then Some (Inr UsageAll)
          else if t = bytes_of ''list'' then
            (case content_value of
               None \<Rightarrow> Some (Inl MissingContent)
             | Some s \<Rightarrow> if s = [] then Some (Inr UsageNone) else map_option Inr (parse_custom_models c s))
          else Some (Inl (UnknownVariant t)))"

section \<open>The configuration\<close>

record app_config =
  ac_vision_ability :: VisionAbility
  ac_slow_pool :: bool
  ac_long_context :: bool
  ac_usage_check :: UsageCheck
  ac_dynamic_key :: bool
  ac_share_token :: bytes
  ac_web_refs :: bool
  ac_fetch_models :: FetchMode
  ac_is_share :: bool  \<comment> \<open>the static \<^verbatim>\<open>IS_SHARE\<close>\<close>

record environment =
  ev_vision_ability :: bytes
  ev_slow_pool :: bool
  ev_long_context :: bool
  ev_usage_check :: bytes
  ev_dynamic_key :: bool
  ev_share_token :: bytes
  ev_web_refs :: bool
  ev_fetch_models :: bytes

definition app_config_init :: "'r catalogue \<Rightarrow> environment \<Rightarrow> app_config ub" where
  "app_config_init c e = do {
     u \<leftarrow> usage_from_str c (ev_usage_check e);
     Some \<lparr>ac_vision_ability = vision_from_str (ev_vision_ability e), ac_slow_pool = ev_slow_pool e,
           ac_long_context = ev_long_context e, ac_usage_check = u, ac_dynamic_key = ev_dynamic_key e,
           ac_share_token = ev_share_token e, ac_web_refs = ev_web_refs e, ac_fetch_models = fetch_from_str (ev_fetch_models e),
           ac_is_share = (ev_share_token e \<noteq> [])\<rparr>
   }"

text \<open>The methods the macros define for a field, given by its selector and its update.\<close>

definition update_field :: "(app_config \<Rightarrow> 'v) \<Rightarrow> (('v \<Rightarrow> 'v) \<Rightarrow> app_config \<Rightarrow> app_config) \<Rightarrow> 'v \<Rightarrow> app_config \<Rightarrow> app_config" where
  "update_field get_f upd_f v c = (if get_f c \<noteq> v then upd_f (\<lambda>_. v) c else c)"

definition reset_field :: "(app_config \<Rightarrow> 'v) \<Rightarrow> (('v \<Rightarrow> 'v) \<Rightarrow> app_config \<Rightarrow> app_config) \<Rightarrow> 'v \<Rightarrow> app_config \<Rightarrow> app_config" where
  "reset_field get_f upd_f dflt c = (if get_f c \<noteq> dflt then upd_f (\<lambda>_. dflt) c else c)"

definition share_token_eq :: "bytes \<Rightarrow> app_config \<Rightarrow> bool" where
  "share_token_eq s c \<longleftrightarrow> ac_share_token c = s"

definition update_share_token :: "bytes \<Rightarrow> app_config \<Rightarrow> app_config" where
  "update_share_token v c =
     (if share_token_eq v c then c\<lparr>ac_is_share := (v \<noteq> []), ac_share_token := v\<rparr> else c)"

definition reset_share_token :: "app_config \<Rightarrow> app_config" where
  "reset_share_token c = (if ac_is_share c then c\<lparr>ac_is_share := False, ac_share_token := []\<rparr> else c)"

section \<open>The handler\<close>

record config_update_request =
  cq_action :: bytes
  cq_vision_ability :: "VisionAbility option"
  cq_enable_slow_pool :: "bool option"
  cq_enable_long_context :: "bool option"
  cq_usage_check_models :: "UsageCheck option"
  cq_enable_dynamic_key :: "bool option"
  cq_share_token :: "bytes option"
  cq_include_web_references :: "bool option"
  cq_fetch_raw_models :: "FetchMode option"

datatype config_error = NoAuthToken | InvalidAuthToken | InvalidAction

datatype config_response = ConfigIs app_config | ConfigUpdated | ConfigReset

definition BEARER :: bytes where "BEARER = bytes_of ''Bearer ''"

definition if_given :: "'v option \<Rightarrow> ('v \<Rightarrow> app_config \<Rightarrow> app_config) \<Rightarrow> app_config \<Rightarrow> app_config" where
  "if_given v f c = (case v of Some v \<Rightarrow> f v c | None \<Rightarrow> c)"

definition handle_updates :: "config_update_request \<Rightarrow> app_config \<Rightarrow> app_config" where
  "handle_updates q c =
     (let c = if_given (cq_vision_ability q) (update_field ac_vision_ability ac_vision_ability_update) c;
          c = if_given (cq_enable_slow_pool q) (update_field ac_slow_pool ac_slow_pool_update) c;
          c = if_given (cq_enable_long_context q) (update_field ac_long_context ac_long_context_update) c;
          c = if_given (cq_usage_check_models q) (update_field ac_usage_check ac_usage_check_update) c;
          c = if_given (cq_enable_dynamic_key q) (update_field ac_dynamic_key ac_dynamic_key_update) c;
          c = if_given (cq_share_token q) update_share_token c;
          c = if_given (cq_include_web_references q) (update_field ac_web_refs ac_web_refs_update) c
      in if_given (cq_fetch_raw_models q) (update_field ac_fetch_models ac_fetch_models_update) c)"

definition handle_resets :: "config_update_request \<Rightarrow> app_config \<Rightarrow> app_config" where
  "handle_resets q c =
     (let c = if_given (cq_vision_ability q) (\<lambda>_. reset_field ac_vision_ability ac_vision_ability_update VisionBase64) c;
          c = if_given (cq_enable_slow_pool q) (\<lambda>_. reset_field ac_slow_pool ac_slow_pool_update False) c;
          c = if_given (cq_enable_long_context q) (\<lambda>_. reset_field ac_long_context ac_long_context_update False) c;
          c = if_given (cq_usage_check_models q) (\<lambda>_. reset_field ac_usage_check ac_usage_check_update UsageDefault) c;
          c = if_given (cq_enable_dynamic_key q) (\<lambda>_. reset_field ac_dynamic_key ac_dynamic_key_update False) c;
          c = if_given (cq_share_token q) (\<lambda>_. reset_share_token) c;
          c = if_given (cq_include_web_references q) (\<lambda>_. reset_field ac_web_refs ac_web_refs_update False) c
      in if_given (cq_fetch_raw_models q) (\<lambda>_. reset_field ac_fetch_models ac_fetch_models_update Truncate) c)"

text \<open>\<open>header\<close> is the value of the header \<^verbatim>\<open>Authorization\<close> when it is text.\<close>

definition handle_config_update ::
  "bytes \<Rightarrow> bytes option \<Rightarrow> config_update_request \<Rightarrow> app_config \<Rightarrow> (config_error + config_response) \<times> app_config" where
  "handle_config_update auth_token header q c =
     (case Option.bind header (strip_prefix BEARER) of
        None \<Rightarrow> (Inl NoAuthToken, c)
      | Some h \<Rightarrow>
          if h \<noteq> auth_token then (Inl InvalidAuthToken, c)
          else if cq_action q = bytes_of ''get'' then (Inr (ConfigIs c), c)
          else if cq_action q = bytes_of ''update'' then (Inr ConfigUpdated, handle_updates q c)
          else if cq_action q = bytes_of ''reset'' then (Inr ConfigReset, handle_resets q c)
          else (Inl InvalidAction, c))"

section \<open>Lemmas\<close>

definition given :: "'v option \<Rightarrow> 'v \<Rightarrow> 'v" where
  "given v d = (case v of Some x \<Rightarrow> x | None \<Rightarrow> d)"

lemma given_field:
  "if_given v0 (update_field ac_vision_ability ac_vision_ability_update) c = c\<lparr>ac_vision_ability := given v0 (ac_vision_ability c)\<rparr>"
  "if_given v1 (update_field ac_slow_pool ac_slow_pool_update) c = c\<lparr>ac_slow_pool := given v1 (ac_slow_pool c)\<rparr>"
  "if_given v2 (update_field ac_long_context ac_long_context_update) c = c\<lparr>ac_long_context := given v2 (ac_long_context c)\<rparr>"
  "if_given v3 (update_field ac_usage_check ac_usage_check_update) c = c\<lparr>ac_usage_check := given v3 (ac_usage_check c)\<rparr>"
  "if_given v4 (update_field ac_dynamic_key ac_dynamic_key_update) c = c\<lparr>ac_dynamic_key := given v4 (ac_dynamic_key c)\<rparr>"
  "if_given v5 (update_field ac_web_refs ac_web_refs_update) c = c\<lparr>ac_web_refs := given v5 (ac_web_refs c)\<rparr>"
  "if_given v6 (update_field ac_fetch_models ac_fetch_models_update) c = c\<lparr>ac_fetch_models := given v6 (ac_fetch_models c)\<rparr>"
  by (cases c; auto simp: update_field_def if_given_def given_def split: option.split)+

lemma reset_is_update: "reset_field get_f upd_f v = update_field get_f upd_f v"
  by (simp add: reset_field_def update_field_def fun_eq_iff)

text \<open>The flag agrees with the token it is about.\<close>

definition share_ok :: "app_config \<Rightarrow> bool" where
  "share_ok c \<longleftrightarrow> (ac_is_share c \<longleftrightarrow> ac_share_token c \<noteq> [])"

lemma init_share_ok: "app_config_init cat e = Some c \<Longrightarrow> share_ok c"
  by (auto simp: app_config_init_def share_ok_def split: Option.bind_splits)

lemma update_share_token_idle: "share_ok c \<Longrightarrow> update_share_token v c = c"
  by (cases c) (auto simp: update_share_token_def share_token_eq_def share_ok_def)

lemma reset_share_token_eq: "share_ok c \<Longrightarrow> reset_share_token c = c\<lparr>ac_is_share := False, ac_share_token := []\<rparr>"
  by (cases c) (auto simp: reset_share_token_def share_ok_def)

definition updated :: "config_update_request \<Rightarrow> app_config \<Rightarrow> app_config" where
  "updated q c =
     c\<lparr>ac_vision_ability := given (cq_vision_ability q) (ac_vision_ability c),
       ac_slow_pool := given (cq_enable_slow_pool q) (ac_slow_pool c),
       ac_long_context := given (cq_enable_long_context q) (ac_long_context c),
       ac_usage_check := given (cq_usage_check_models q) (ac_usage_check c),
       ac_dynamic_key := given (cq_enable_dynamic_key q) (ac_dynamic_key c),
       ac_web_refs := given (cq_include_web_references q) (ac_web_refs c),
       ac_fetch_models := given (cq_fetch_raw_models q) (ac_fetch_models c)\<rparr>"

definition defaults_of :: "config_update_request \<Rightarrow> config_update_request" where
  "defaults_of q =
     \<lparr>cq_action = cq_action q, cq_vision_ability = map_option (\<lambda>_. VisionBase64) (cq_vision_ability q),
      cq_enable_slow_pool = map_option (\<lambda>_. False) (cq_enable_slow_pool q),
      cq_enable_long_context = map_option (\<lambda>_. False) (cq_enable_long_context q),
      cq_usage_check_models = map_option (\<lambda>_. UsageDefault) (cq_usage_check_models q),
      cq_enable_dynamic_key = map_option (\<lambda>_. False) (cq_enable_dynamic_key q), cq_share_token = cq_share_token q,
      cq_include_web_references = map_option (\<lambda>_. False) (cq_include_web_references q),
      cq_fetch_raw_models = map_option (\<lambda>_. Truncate) (cq_fetch_raw_models q)\<rparr>"

lemma given_resets:
  "if_given v (\<lambda>_. reset_field get_f upd_f d) = if_given (map_option (\<lambda>_. d) v) (update_field get_f upd_f)"
  by (cases v) (simp_all add: if_given_def reset_is_update fun_eq_iff)

lemma handle_updates_eq:
  assumes "share_ok c"
  shows "handle_updates q c = updated q c"
proof -
  have share: "if_given v update_share_token c' = c'" if "ac_is_share c' = ac_is_share c" "ac_share_token c' = ac_share_token c" for v c'
    using that assms by (simp add: if_given_def update_share_token_idle share_ok_def split: option.split)
  show ?thesis by (simp add: handle_updates_def Let_def updated_def given_field share)
qed

lemma handle_resets_eq:
  assumes "share_ok c"
  shows "handle_resets q c =
    (updated (defaults_of q) c)\<lparr>ac_share_token := (if cq_share_token q = None then ac_share_token c else []),
       ac_is_share := (cq_share_token q = None \<and> ac_is_share c)\<rparr>"
proof -
  have share: "if_given v (\<lambda>_. reset_share_token) c' =
      c'\<lparr>ac_share_token := (if v = None then ac_share_token c else []), ac_is_share := (v = None \<and> ac_is_share c)\<rparr>"
    if "ac_is_share c' = ac_is_share c" "ac_share_token c' = ac_share_token c" for v c'
    using that assms by (cases c') (auto simp: if_given_def reset_share_token_eq share_ok_def split: option.split)
  show ?thesis by (simp add: handle_resets_def Let_def updated_def defaults_of_def given_resets given_field share)
qed

section \<open>Property\<close>


definition sample_config :: app_config where
  "sample_config =
     \<lparr>ac_vision_ability = VisionBase64, ac_slow_pool = False, ac_long_context = False, ac_usage_check = UsageDefault,
      ac_dynamic_key = True, ac_share_token = bytes_of ''s'', ac_web_refs = False, ac_fetch_models = Truncate, ac_is_share = True\<rparr>"

definition sample_update :: config_update_request where
  "sample_update =
     \<lparr>cq_action = bytes_of ''update'', cq_vision_ability = Some VisionNone, cq_enable_slow_pool = None,
      cq_enable_long_context = None, cq_usage_check_models = None, cq_enable_dynamic_key = None,
      cq_share_token = Some (bytes_of ''t''), cq_include_web_references = None, cq_fetch_raw_models = None\<rparr>"


end
