(* ===== verification/Auth.thy ===== *)
theory Auth
  imports App_Config Request_Log "HOL-Library.Sublist"
begin

text \<open>
  Authentication: dynamic keys and their configuration (\<^verbatim>\<open>src/core/config.rs\<close>, \<^verbatim>\<open>src/core/config/key.rs\<close>), the
  handler that builds them (\<^verbatim>\<open>src/core/route/token.rs\<close>), and the choice of a token for the credential of a
  request with the middlewares around it (\<^verbatim>\<open>src/core/auth\<close>).  The CBOR codec, SHA-256, the UUID and time zone
  libraries and the decimal printer are parameters; the value of a header is what \<^verbatim>\<open>to_str\<close> gives for it.
\<close>

section \<open>Dynamic keys\<close>

record key_token =
  kt_provider :: bytes
  kt_sub_id :: bytes
  kt_randomness :: bytes
  kt_start :: int
  kt_end :: int
  kt_signature :: bytes
  kt_is_session :: bool

record key_token_info =
  ki_token :: key_token
  ki_checksum :: bytes
  ki_client_key :: bytes
  ki_config_version :: "bytes option"
  ki_session_id :: bytes
  ki_proxy_name :: "bytes option"
  ki_timezone :: "bytes option"
  ki_gcpp_host :: "u8 option"

record configured_key =
  ck_token_info :: "key_token_info option"
  ck_secret :: "bytes option"
  ck_disable_vision :: "bool option"
  ck_enable_slow_pool :: "bool option"
  ck_include_web_references :: "bool option"
  ck_usage_check_models :: "usage_check_model option"

record key_config =
  kc_usage_check_models :: "usage_check_model option"
  kc_disable_vision :: "bool option"
  kc_enable_slow_pool :: "bool option"
  kc_include_web_references :: "bool option"

record auth_env =
  au_big :: bool
  au_providers :: "bytes list"
  au_to_string :: "raw_token \<Rightarrow> bytes"
  au_parse_tz :: "bytes \<Rightarrow> tz option"
  au_uuid_into_bytes :: "uuid \<Rightarrow> bytes"
  au_uuid_from_slice :: "bytes \<Rightarrow> uuid option"
  au_cbor_encode :: "configured_key \<Rightarrow> bytes"
  au_cbor_decode :: "bytes \<Rightarrow> configured_key option"
  au_sha256 :: "bytes \<Rightarrow> bytes"
  au_itoa :: "nat \<Rightarrow> bytes"
  au_AUTH_TOKEN :: bytes
  au_KEY_PREFIX :: bytes

text \<open>\<^verbatim>\<open>take\<close> leaves \<^verbatim>\<open>None\<close> behind in the key.\<close>

definition move_without_auth_token :: "configured_key \<Rightarrow> key_config \<Rightarrow> configured_key \<times> key_config" where
  "move_without_auth_token k c =
     (let (k, c) = (if ck_usage_check_models k \<noteq> None
                    then (k\<lparr>ck_usage_check_models := None\<rparr>, c\<lparr>kc_usage_check_models := ck_usage_check_models k\<rparr>) else (k, c));
          (k, c) = (if ck_disable_vision k \<noteq> None
                    then (k\<lparr>ck_disable_vision := None\<rparr>, c\<lparr>kc_disable_vision := ck_disable_vision k\<rparr>) else (k, c));
          (k, c) = (if ck_enable_slow_pool k \<noteq> None
                    then (k\<lparr>ck_enable_slow_pool := None\<rparr>, c\<lparr>kc_enable_slow_pool := ck_enable_slow_pool k\<rparr>) else (k, c))
      in if ck_include_web_references k \<noteq> None
         then (k\<lparr>ck_include_web_references := None\<rparr>, c\<lparr>kc_include_web_references := ck_include_web_references k\<rparr>)
         else (k, c))"

definition key_token_from_raw :: "bool \<Rightarrow> raw_token \<Rightarrow> key_token" where
  "key_token_from_raw big r =
     \<lparr>kt_provider = provider_name (provider (raw_subject r)), kt_sub_id = user_id_to_bytes big (sub_id (raw_subject r)),
      kt_randomness = to_ne_bytes_u64 big (raw_randomness r), kt_start = dur_start (raw_duration r),
      kt_end = dur_end (raw_duration r), kt_signature = raw_signature r, kt_is_session = raw_is_session r\<rparr>"

definition key_token_into_raw :: "bool \<Rightarrow> bytes list \<Rightarrow> key_token \<Rightarrow> raw_token option" where
  "key_token_into_raw big PROVIDERS t =
     (case provider_from_str PROVIDERS (kt_provider t) of
        Inl _ \<Rightarrow> None
      | Inr p \<Rightarrow> Some \<lparr>raw_subject = \<lparr>provider = p, sub_id = user_id_from_bytes big (kt_sub_id t)\<rparr>,
                       raw_signature = kt_signature t, raw_duration = \<lparr>dur_start = kt_start t, dur_end = kt_end t\<rparr>,
                       raw_randomness = from_ne_bytes_u64 big (kt_randomness t), raw_is_session = kt_is_session t\<rparr>)"

definition parse_dynamic_token :: "auth_env \<Rightarrow> bytes \<Rightarrow> configured_key option ub" where
  "parse_dynamic_token e auth_token =
     (case strip_prefix (au_KEY_PREFIX e) auth_token of
        None \<Rightarrow> Some None
      | Some s \<Rightarrow> do { decoded \<leftarrow> from_base64 s; Some (Option.bind decoded (au_cbor_decode e)) })"

definition key_config_new :: key_config where
  "key_config_new =
     \<lparr>kc_usage_check_models = None, kc_disable_vision = None, kc_enable_slow_pool = None, kc_include_web_references = None\<rparr>"

definition with_global :: "app_config \<Rightarrow> key_config \<Rightarrow> key_config" where
  "with_global a c =
     (let c = (if kc_disable_vision c \<noteq> None then c\<lparr>kc_disable_vision := Some (ac_vision_ability a = VisionNone)\<rparr> else c);
          c = (if kc_enable_slow_pool c \<noteq> None then c\<lparr>kc_enable_slow_pool := Some (ac_slow_pool a)\<rparr> else c)
      in if kc_include_web_references c \<noteq> None then c\<lparr>kc_include_web_references := Some (ac_web_refs a)\<rparr> else c)"

definition checksum_into_bytes :: "checksum \<Rightarrow> bytes" where
  "checksum_into_bytes c = hash_bytes (first c) @ hash_bytes (second c)"

definition checksum_from_bytes :: "bytes \<Rightarrow> checksum" where
  "checksum_from_bytes bs = \<lparr>first = Hash (take 32 bs), second = Hash (drop 32 bs)\<rparr>"

definition gcpp_as_u8 :: "GcppHost \<Rightarrow> u8" where
  "gcpp_as_u8 g = (case g of Asia \<Rightarrow> 0 | EU \<Rightarrow> 1 | US \<Rightarrow> 2)"

definition gcpp_from_u8 :: "u8 \<Rightarrow> GcppHost option" where
  "gcpp_from_u8 v = (if v = 0 then Some Asia else if v = 1 then Some EU else if v = 2 then Some US else None)"

record build_key_request =
  bk_token :: raw_token
  bk_checksum :: checksum
  bk_client_key :: Hash
  bk_config_version :: "uuid option"
  bk_session_id :: uuid
  bk_secret :: "bytes option"
  bk_proxy_name :: "bytes option"
  bk_timezone :: "tz option"
  bk_gcpp_host :: "GcppHost option"
  bk_disable_vision :: "bool option"
  bk_enable_slow_pool :: "bool option"
  bk_include_web_references :: "bool option"
  bk_usage_check_models :: "usage_check_model option"

definition token_to_tokeninfo :: "auth_env \<Rightarrow> build_key_request \<Rightarrow> key_token_info" where
  "token_to_tokeninfo e q =
     \<lparr>ki_token = key_token_from_raw (au_big e) (bk_token q), ki_checksum = checksum_into_bytes (bk_checksum q),
      ki_client_key = hash_bytes (bk_client_key q), ki_config_version = map_option (au_uuid_into_bytes e) (bk_config_version q),
      ki_session_id = au_uuid_into_bytes e (bk_session_id q), ki_proxy_name = bk_proxy_name q,
      ki_timezone = bk_timezone q, ki_gcpp_host = map_option gcpp_as_u8 (bk_gcpp_host q)\<rparr>"

definition tokeninfo_to_token :: "auth_env \<Rightarrow> key_token_info \<Rightarrow> token_view \<Rightarrow> ext_token option \<times> token_view" where
  "tokeninfo_to_token e i v =
     (case au_uuid_from_slice e (ki_session_id i) of
        None \<Rightarrow> (None, v)
      | Some sid \<Rightarrow>
          case key_token_into_raw (au_big e) (au_providers e) (ki_token i) of
            None \<Rightarrow> (None, v)
          | Some raw \<Rightarrow>
              let (t, v) = token_intern (au_to_string e) raw None v
              in (Some \<lparr>primary_token = t, secondary_token = None, ext_checksum = checksum_from_bytes (ki_checksum i),
                        client_key = Hash (ki_client_key i),
                        config_version = Option.bind (ki_config_version i) (au_uuid_from_slice e), session_id = sid,
                        proxy = ki_proxy_name i, timezone = Option.bind (ki_timezone i) (au_parse_tz e),
                        gcpp_host = Option.bind (ki_gcpp_host i) gcpp_from_u8\<rparr>, v))"

text \<open>Who may build keys when the server is shared: \<open>header\<close> is the header \<^verbatim>\<open>Authorization\<close>.\<close>

definition share_guard :: "auth_env \<Rightarrow> app_config \<Rightarrow> bytes option \<Rightarrow> bool" where
  "share_guard e a header \<longleftrightarrow>
     \<not> ac_is_share a \<or>
     (case Option.bind header (strip_prefix BEARER) of
        None \<Rightarrow> False
      | Some h \<Rightarrow> share_token_eq h a \<or> h = au_AUTH_TOKEN e)"

definition built_key :: "auth_env \<Rightarrow> build_key_request \<Rightarrow> configured_key" where
  "built_key e q =
     \<lparr>ck_token_info = Some (token_to_tokeninfo e q), ck_secret = map_option (au_sha256 e) (bk_secret q),
      ck_disable_vision = bk_disable_vision q, ck_enable_slow_pool = bk_enable_slow_pool q,
      ck_include_web_references = bk_include_web_references q,
      ck_usage_check_models =
        map_option (\<lambda>u. u\<lparr>uc_model_ids := if uc_type u = TypeCustom then uc_model_ids u else []\<rparr>)
          (bk_usage_check_models q)\<rparr>"

definition handle_build_key ::
  "auth_env \<Rightarrow> app_config \<Rightarrow> bytes option \<Rightarrow> build_key_request \<Rightarrow> (bytes \<times> bytes \<times> bytes) option ub" where
  "handle_build_key e a header q =
     (if \<not> share_guard e a header then Some None
      else do {
        let token_key = raw_key (bk_token q);
        body \<leftarrow> to_base64 (au_cbor_encode e (built_key e q));
        s \<leftarrow> token_key_to_string (au_big e) token_key;
        Some (Some (au_KEY_PREFIX e @ body, s, token_key_to_string2 (au_itoa e) (au_big e) token_key))
      })"

section \<open>Credentials\<close>

datatype AuthError = Unauthorized | NoAvailableTokens | AliasNotFound

definition auth_status_code :: "AuthError \<Rightarrow> nat" where
  "auth_status_code x = (case x of Unauthorized \<Rightarrow> 401 | NoAvailableTokens \<Rightarrow> 503 | AliasNotFound \<Rightarrow> 404)"

definition auth_error_type :: "AuthError \<Rightarrow> bytes" where
  "auth_error_type x =
     bytes_of (case x of Unauthorized \<Rightarrow> ''unauthorized'' | NoAvailableTokens \<Rightarrow> ''no_available_tokens''
               | AliasNotFound \<Rightarrow> ''alias_not_found'')"

definition auth_message :: "AuthError \<Rightarrow> bytes" where
  "auth_message x =
     bytes_of (case x of Unauthorized \<Rightarrow> ''Invalid authorization token'' | NoAvailableTokens \<Rightarrow> ''No available tokens in queue''
               | AliasNotFound \<Rightarrow> ''Token alias not found'')"

definition auth :: "bytes option \<Rightarrow> bytes option \<Rightarrow> bytes option" where
  "auth api_key authorization =
     (case api_key of Some s \<Rightarrow> Some s | None \<Rightarrow> Option.bind authorization (strip_prefix BEARER))"

type_synonym token_bundle = "ext_token \<times> bool"

record auth_state =
  as_heads :: "nat list"
  as_view :: token_view

definition from_queue ::
  "u64 \<Rightarrow> QueueType \<Rightarrow> 'p token_manager \<Rightarrow> auth_state \<Rightarrow> ((AuthError + token_bundle) \<times> auth_state) ub" where
  "from_queue t qt m s = do {
     (r, heads) \<leftarrow> manager_select t qt (as_heads s) m;
     Some (case r of None \<Rightarrow> Inl NoAvailableTokens | Some b \<Rightarrow> Inr (b, True), s\<lparr>as_heads := heads\<rparr>)
   }"

definition by_alias :: "bytes \<Rightarrow> 'p token_manager \<Rightarrow> (AuthError + token_bundle) ub" where
  "by_alias alias m =
     (if alias_map m alias = None then Some (Inl AliasNotFound)
      else do {
        i \<leftarrow> get_by_alias alias m;
        Some (case i of Some info \<Rightarrow> Inr (ext_clone (ext_bundle info), True) | None \<Rightarrow> Inl Unauthorized)
      })"

definition by_dynamic_key ::
  "auth_env \<Rightarrow> app_config \<Rightarrow> bytes \<Rightarrow> key_config option \<Rightarrow> auth_state
   \<Rightarrow> ((AuthError + token_bundle) \<times> key_config option \<times> auth_state) ub" where
  "by_dynamic_key e a auth_token kc s = do {
     parsed \<leftarrow> parse_dynamic_token e auth_token;
     Some (case parsed of
             None \<Rightarrow> (Inl Unauthorized, kc, s)
           | Some k \<Rightarrow>
               let (k, kc) = (case kc of
                                None \<Rightarrow> (k, None)
                              | Some c \<Rightarrow> let (k, c) = move_without_auth_token k c in (k, Some (with_global a c)))
               in case ck_token_info k of
                    None \<Rightarrow> (Inl Unauthorized, kc, s)
                  | Some i \<Rightarrow>
                      let (t, v) = tokeninfo_to_token e i (as_view s); s = s\<lparr>as_view := v\<rparr>
                      in case t of
                           None \<Rightarrow> (Inl Unauthorized, kc, s)
                         | Some b \<Rightarrow> (Inr (b, False), kc, s))
   }"

definition get_token_bundle ::
  "auth_env \<Rightarrow> app_config \<Rightarrow> u64 \<Rightarrow> ('p, 'f) log_env \<Rightarrow> ('p, 'f) log_manager \<Rightarrow> 'p token_manager \<Rightarrow> bytes
   \<Rightarrow> QueueType \<Rightarrow> QueueType \<Rightarrow> key_config option \<Rightarrow> auth_state
   \<Rightarrow> ((AuthError + token_bundle) \<times> key_config option \<times> auth_state) ub" where
  "get_token_bundle e a t le lm m auth_token privileged_queue normal_queue kc s =
     (case strip_prefix (au_AUTH_TOKEN e) auth_token of
        Some part \<Rightarrow>
          if part = [] then do { (r, s) \<leftarrow> from_queue t privileged_queue m s; Some (r, kc, s) }
          else (case strip_prefix [0x2D] part of
                  Some alias \<Rightarrow> do { r \<leftarrow> by_alias alias m; Some (r, kc, s) }
                | None \<Rightarrow> Some (Inl Unauthorized, kc, s))
      | None \<Rightarrow>
          if ac_is_share a \<and> share_token_eq auth_token a
          then do { (r, s) \<leftarrow> from_queue t normal_queue m s; Some (r, kc, s) }
          else do {
            k \<leftarrow> token_key_from_string (au_big e) auth_token;
            (case k of
               Some key \<Rightarrow> do {
                 (reply, _) \<leftarrow> handle_command le (GetToken key True) lm;
                 Some (case reply of RToken (Some b) \<Rightarrow> (Inr (b, False), kc, s) | _ \<Rightarrow> (Inl Unauthorized, kc, s))
               }
             | None \<Rightarrow>
                 if ac_dynamic_key a then by_dynamic_key e a auth_token kc s
                 else Some (Inl Unauthorized, kc, s))
          })"

section \<open>Middlewares\<close>

definition admin_auth :: "auth_env \<Rightarrow> bytes option \<Rightarrow> bool" where
  "admin_auth e authorization \<longleftrightarrow> Option.bind authorization (strip_prefix BEARER) = Some (au_AUTH_TOKEN e)"

record env_headers =
  eh_os :: "bytes option"  \<comment> \<open>the raw values\<close>
  eh_arch :: "bytes option"

record environment_info =
  ei_exthost_platform :: "bytes option"
  ei_exthost_arch :: "bytes option"
  ei_local_timestamp :: bytes
  ei_cursor_version :: bytes

definition header_ascii :: "bytes option \<Rightarrow> bytes option" where
  "header_ascii v =
     (case v of
        None \<Rightarrow> None
      | Some bs \<Rightarrow> if list_all (\<lambda>b. (32 \<le> b \<and> b < 127) \<or> b = 9) bs then Some bs else None)"

definition get_environment_info :: "('d \<Rightarrow> bytes) \<Rightarrow> bytes \<Rightarrow> env_headers \<Rightarrow> 'd \<Rightarrow> environment_info" where
  "get_environment_info rfc3339 cursor_version h t =
     \<lparr>ei_exthost_platform = map_option (\<lambda>b.
          if b = bytes_of ''MacOS'' then bytes_of ''darwin''
          else if b = bytes_of ''Windows'' then bytes_of ''win32''
          else if b = bytes_of ''Linux'' then bytes_of ''linux'' else b) (header_ascii (eh_os h)),
      ei_exthost_arch = header_ascii (eh_arch h), ei_local_timestamp = rfc3339 t, ei_cursor_version = cursor_version\<rparr>"

text \<open>What a middleware leaves in the request for the handler.\<close>

record 'd extensions =
  ex_bundle :: "(AuthError + token_bundle) option"
  ex_key_config :: "key_config option"
  ex_request_time :: "'d option"
  ex_environment_info :: "environment_info option"

definition v1_auth ::
  "auth_env \<Rightarrow> app_config \<Rightarrow> u64 \<Rightarrow> ('p, 'f) log_env \<Rightarrow> ('p, 'f) log_manager \<Rightarrow> 'p token_manager
   \<Rightarrow> ('d \<Rightarrow> bytes) \<Rightarrow> bytes \<Rightarrow> bytes option \<Rightarrow> bytes option \<Rightarrow> env_headers \<Rightarrow> 'd \<Rightarrow> auth_state
   \<Rightarrow> ((AuthError + 'd extensions) \<times> auth_state) ub" where
  "v1_auth e a t le lm m rfc3339 version api_key authorization h time s =
     (case auth api_key authorization of
        None \<Rightarrow> Some (Inl Unauthorized, s)
      | Some auth_token \<Rightarrow> do {
          (v, kc, s) \<leftarrow> get_token_bundle e a t le lm m auth_token PrivilegedPaid NormalPaid (Some key_config_new) s;
          Some (Inr (case v of
                  Inr _ \<Rightarrow> \<lparr>ex_bundle = Some v, ex_key_config = kc, ex_request_time = Some time,
                           ex_environment_info = Some (get_environment_info rfc3339 version h time)\<rparr>
                | Inl _ \<Rightarrow> \<lparr>ex_bundle = Some v, ex_key_config = None, ex_request_time = None, ex_environment_info = None\<rparr>), s)
        })"

definition v1_auth2 ::
  "auth_env \<Rightarrow> app_config \<Rightarrow> u64 \<Rightarrow> ('p, 'f) log_env \<Rightarrow> ('p, 'f) log_manager \<Rightarrow> 'p token_manager
   \<Rightarrow> ('d \<Rightarrow> bytes) \<Rightarrow> bytes \<Rightarrow> bytes option \<Rightarrow> bytes option \<Rightarrow> env_headers \<Rightarrow> 'd \<Rightarrow> auth_state
   \<Rightarrow> ((AuthError + 'd extensions) \<times> auth_state) ub" where
  "v1_auth2 e a t le lm m rfc3339 version api_key authorization h time s =
     (case auth api_key authorization of
        None \<Rightarrow> Some (Inl Unauthorized, s)
      | Some auth_token \<Rightarrow> do {
          (v, kc, s) \<leftarrow> get_token_bundle e a t le lm m auth_token PrivilegedFree NormalFree (Some key_config_new) s;
          Some (Inr (case v of
                  Inr _ \<Rightarrow> \<lparr>ex_bundle = Some v, ex_key_config = kc, ex_request_time = None,
                           ex_environment_info = Some (get_environment_info rfc3339 version h time)\<rparr>
                | Inl _ \<Rightarrow> \<lparr>ex_bundle = Some v, ex_key_config = None, ex_request_time = None, ex_environment_info = None\<rparr>), s)
        })"

definition cpp_auth ::
  "auth_env \<Rightarrow> app_config \<Rightarrow> u64 \<Rightarrow> ('p, 'f) log_env \<Rightarrow> ('p, 'f) log_manager \<Rightarrow> 'p token_manager
   \<Rightarrow> bytes option \<Rightarrow> bytes option \<Rightarrow> auth_state \<Rightarrow> ((AuthError + token_bundle) \<times> auth_state) ub" where
  "cpp_auth e a t le lm m api_key authorization s =
     (case auth api_key authorization of
        None \<Rightarrow> Some (Inl Unauthorized, s)
      | Some auth_token \<Rightarrow> do {
          (v, _, s) \<leftarrow> get_token_bundle e a t le lm m auth_token PrivilegedFree NormalFree None s;
          Some (v, s)
        })"

section \<open>Who gets which token\<close>

lemma from_queue_ok:
  assumes "manager_inv m" "length (as_heads s) = 4"
  shows "\<exists>r s'. from_queue t qt m s = Some (r, s') \<and> length (as_heads s') = 4 \<and> as_view s' = as_view s \<and>
    (case r of
       Inl x \<Rightarrow> x = NoAvailableTokens \<and> (\<forall>i. \<not> avail t (tokens m) i)
     | Inr (b, u) \<Rightarrow> u \<and> (\<exists>i info. avail t (tokens m) i \<and> slot (tokens m) i = Some info \<and> b = ext_clone (ext_bundle info)))"
proof -
  note q = manager_inv_queue [OF assms(1)]
  have ready: "set (ready t (tokens m) (q_vec (queue m)) (as_heads s ! as_index qt)) = {i. avail t (tokens m) i}"
    by (rule ready_set [OF q])
  show ?thesis
  proof (cases "ready t (tokens m) (q_vec (queue m)) (as_heads s ! as_index qt)")
    case Nil
    with queue_select_ready [OF q assms(2), of t qt] ready assms(2) show ?thesis
      by (auto simp: from_queue_def manager_select_def)
  next
    case (Cons i js)
    then have i: "avail t (tokens m) i" using ready by auto
    then obtain info where "slot (tokens m) i = Some info" by (auto simp: avail_def split: option.splits)
    with i Cons queue_select_ready [OF q assms(2), of t qt] assms(2) show ?thesis
      by (fastforce simp: from_queue_def manager_select_def)
  qed
qed

lemma by_alias_ok:
  assumes "manager_inv m"
  shows "by_alias al m =
    Some (case alias_table m al of Some info \<Rightarrow> Inr (ext_clone (ext_bundle info), True) | None \<Rightarrow> Inl AliasNotFound)"
  using alias_table_None [OF assms, of al] get_by_alias_table [OF assms, of al]
  by (auto simp: by_alias_def split: option.splits)

lemma parse_dynamic_token_defined:
  "\<exists>r. parse_dynamic_token e auth_token = Some r \<and> (\<not> prefix (au_KEY_PREFIX e) auth_token \<longrightarrow> r = None)"
  by (cases "strip_prefix (au_KEY_PREFIX e) auth_token")
    (auto simp: parse_dynamic_token_def from_base64_eq strip_prefix_Some)

lemma by_dynamic_key_ok:
  "\<exists>r kc' s'. by_dynamic_key e a auth_token kc s = Some (r, kc', s') \<and> as_heads s' = as_heads s \<and>
    (case r of Inl x \<Rightarrow> x = Unauthorized | Inr (b, u) \<Rightarrow> \<not> u \<and> prefix (au_KEY_PREFIX e) auth_token)"
proof -
  obtain p where p: "parse_dynamic_token e auth_token = Some p" "\<not> prefix (au_KEY_PREFIX e) auth_token \<longrightarrow> p = None"
    using parse_dynamic_token_defined by blast
  then show ?thesis
    by (cases p) (auto simp: by_dynamic_key_def Let_def split: option.splits prod.splits)
qed

text \<open>Whom a credential names: the administrator, one token by its alias, or the guests of a shared server.\<close>

definition names_alias :: "auth_env \<Rightarrow> bytes \<Rightarrow> bytes \<Rightarrow> bool" where
  "names_alias e auth_token al \<longleftrightarrow> auth_token = au_AUTH_TOKEN e @ 0x2D # al"

definition names_queue :: "auth_env \<Rightarrow> app_config \<Rightarrow> bytes \<Rightarrow> bool" where
  "names_queue e a auth_token \<longleftrightarrow>
     auth_token = au_AUTH_TOKEN e \<or>
     (\<not> prefix (au_AUTH_TOKEN e) auth_token \<and> ac_is_share a \<and> auth_token = ac_share_token a)"

definition grant_ok ::
  "auth_env \<Rightarrow> app_config \<Rightarrow> u64 \<Rightarrow> ('p, 'f) log_manager \<Rightarrow> 'p token_manager \<Rightarrow> bytes \<Rightarrow> AuthError + token_bundle \<Rightarrow> bool" where
  "grant_ok e a t lm m auth_token r \<longleftrightarrow>
     (case r of
        Inr (b, True) \<Rightarrow>
          \<exists>i info. slot (tokens m) i = Some info \<and> b = ext_clone (ext_bundle info) \<and>
            (names_queue e a auth_token \<and> is_enabled info \<and> is_available t (health (status info)) \<or>
             (\<exists>al. names_alias e auth_token al \<and> alias_table m al = Some info))
      | Inr (b, False) \<Rightarrow>
          \<not> prefix (au_AUTH_TOKEN e) auth_token \<and> \<not> names_queue e a auth_token \<and>
          (case token_key_from_string (au_big e) auth_token of
             Some (Some k) \<Rightarrow> \<exists>at. log_tokens lm k = Some at \<and> b = ext_clone (at_token at)
           | _ \<Rightarrow> ac_dynamic_key a \<and> prefix (au_KEY_PREFIX e) auth_token)
      | Inl NoAvailableTokens \<Rightarrow> names_queue e a auth_token \<and> (\<forall>i. \<not> avail t (tokens m) i)
      | Inl AliasNotFound \<Rightarrow> \<exists>al. names_alias e auth_token al \<and> alias_table m al = None
      | Inl Unauthorized \<Rightarrow> \<not> names_queue e a auth_token \<and> (\<forall>al. \<not> names_alias e auth_token al))"

lemma queue_grant:
  assumes "manager_inv m" "length (as_heads s) = 4" "names_queue e a auth_token"
  shows "\<exists>r s'. from_queue t qt m s = Some (r, s') \<and> length (as_heads s') = 4 \<and> grant_ok e a t lm m auth_token r"
proof -
  obtain r s' where r: "from_queue t qt m s = Some (r, s')" "length (as_heads s') = 4"
    "case r of
       Inl x \<Rightarrow> x = NoAvailableTokens \<and> (\<forall>i. \<not> avail t (tokens m) i)
     | Inr (b, u) \<Rightarrow> u \<and> (\<exists>i info. avail t (tokens m) i \<and> slot (tokens m) i = Some info \<and> b = ext_clone (ext_bundle info))"
    using from_queue_ok [OF assms(1,2), of t qt] by blast
  have "grant_ok e a t lm m auth_token r"
  proof (cases r)
    case (Inr p)
    then obtain b i info where "r = Inr (b, True)" "avail t (tokens m) i" "slot (tokens m) i = Some info" "b = ext_clone (ext_bundle info)"
      using r(3) by (cases p) auto
    then show ?thesis using assms(3) by (auto simp: grant_ok_def avail_def)
  qed (use r(3) assms(3) in \<open>auto simp: grant_ok_def\<close>)
  with r show ?thesis by blast
qed

lemma alias_grant:
  assumes "manager_inv m" "names_alias e auth_token al"
  shows "\<exists>r. by_alias al m = Some r \<and> grant_ok e a t lm m auth_token r"
proof (cases "alias_table m al")
  case (Some info)
  then obtain i where "slot (tokens m) i = Some info" by (auto simp: alias_table_def split: option.splits)
  with Some assms show ?thesis by (auto simp: by_alias_ok grant_ok_def)
qed (use assms in \<open>auto simp: by_alias_ok grant_ok_def\<close>)

lemma no_queue_grant:
  assumes "\<not> prefix (au_AUTH_TOKEN e) auth_token" "\<not> (ac_is_share a \<and> auth_token = ac_share_token a)"
  shows "\<not> names_queue e a auth_token" "\<not> names_alias e auth_token al"
  using assms by (auto simp: names_queue_def names_alias_def)

lemma key_grant:
  assumes "\<not> prefix (au_AUTH_TOKEN e) auth_token" "\<not> (ac_is_share a \<and> auth_token = ac_share_token a)"
    and "token_key_from_string (au_big e) auth_token = Some (Some k)"
  shows "grant_ok e a t lm m auth_token
    (case log_tokens lm k of None \<Rightarrow> Inl Unauthorized | Some at \<Rightarrow> Inr (ext_clone (at_token at), False))"
  using no_queue_grant [OF assms(1,2)] assms by (auto simp: grant_ok_def split: option.splits)

lemma dynamic_grant:
  assumes "\<not> prefix (au_AUTH_TOKEN e) auth_token" "\<not> (ac_is_share a \<and> auth_token = ac_share_token a)"
    and "token_key_from_string (au_big e) auth_token = Some None"
    and "case r of Inl x \<Rightarrow> x = Unauthorized | Inr (b, u) \<Rightarrow> \<not> u \<and> ac_dynamic_key a \<and> prefix (au_KEY_PREFIX e) auth_token"
  shows "grant_ok e a t lm m auth_token r"
  using no_queue_grant [OF assms(1,2)] assms by (auto simp: grant_ok_def split: sum.splits bool.splits)

text \<open>C12: Credentials get what they are for.  For every credential the choice of a token is defined and leaves a full array
  of queue heads.  Tokens of the manager are only given to the administrator's token, to it followed by a dash and the alias of
  that token, or to the shared token while the server is shared, and a token that a queue gives is enabled and available
  at that time; any other accepted credential is the key of a token seen before, with that token, or a
  dynamic key while those are on.  The administrator and the guests are only turned away when no token is available,
  and an alias only when no token has it.\<close>

theorem token_bundle_decision:
  assumes "manager_inv m" "length (as_heads s) = 4"
  shows "\<exists>r kc' s'. get_token_bundle e a t le lm m auth_token pq nq kc s = Some (r, kc', s') \<and>
    length (as_heads s') = 4 \<and> grant_ok e a t lm m auth_token r"
proof (cases "strip_prefix (au_AUTH_TOKEN e) auth_token")
  case (Some part)
  then have token: "auth_token = au_AUTH_TOKEN e @ part" by (simp add: strip_prefix_Some)
  show ?thesis
  proof (cases "part = []")
    case True
    then have "names_queue e a auth_token" using token by (simp add: names_queue_def)
    from queue_grant [OF assms this, of t pq lm] show ?thesis
      using Some True by (auto simp: get_token_bundle_def)
  next
    case False
    show ?thesis
    proof (cases "strip_prefix [0x2D] part")
      case None
      then have "\<not> names_queue e a auth_token" "\<And>al. \<not> names_alias e auth_token al"
        using False token by (auto simp: names_queue_def names_alias_def strip_prefix_def)
      then show ?thesis using Some False None assms by (auto simp: get_token_bundle_def grant_ok_def)
    next
      case al: (Some al)
      then have "names_alias e auth_token al" using token by (simp add: names_alias_def strip_prefix_Some)
      from alias_grant [OF assms(1) this, of a t lm] show ?thesis
        using Some False al assms by (auto simp: get_token_bundle_def)
    qed
  qed
next
  case None
  then have admin: "\<not> prefix (au_AUTH_TOKEN e) auth_token"
    by (metis option.distinct(1) prefixE strip_prefix_Some)
  show ?thesis
  proof (cases "ac_is_share a \<and> auth_token = ac_share_token a")
    case True
    then have "names_queue e a auth_token" using admin by (simp add: names_queue_def)
    from queue_grant [OF assms this, of t nq lm] show ?thesis
      using None True by (auto simp: get_token_bundle_def share_token_eq_def)
  next
    case guest: False
    obtain k where k: "token_key_from_string (au_big e) auth_token = Some k"
      using token_key_from_string_safe by blast
    have share: "\<not> (ac_is_share a \<and> share_token_eq auth_token a)" using guest by (auto simp: share_token_eq_def)
    show ?thesis
    proof (cases k)
      case (Some key)
      with key_grant [OF admin guest, of key t lm m] None share k assms show ?thesis
        by (auto simp: get_token_bundle_def answer_def split: option.splits)
    next
      case none: None
      obtain r kc' s' where "by_dynamic_key e a auth_token kc s = Some (r, kc', s')" "as_heads s' = as_heads s"
        "case r of Inl x \<Rightarrow> x = Unauthorized | Inr (b, u) \<Rightarrow> \<not> u \<and> prefix (au_KEY_PREFIX e) auth_token"
        using by_dynamic_key_ok [of e a auth_token kc s] by blast
      with none None share k assms dynamic_grant [OF admin guest, of r t lm m]
        dynamic_grant [OF admin guest, of "Inl Unauthorized" t lm m]
      show ?thesis by (cases "ac_dynamic_key a") (auto simp: get_token_bundle_def split: sum.splits)
    qed
  qed
qed

definition sample_env :: auth_env where
  "sample_env =
     \<lparr>au_big = False, au_providers = [AUTH0], au_to_string = (\<lambda>_. []), au_parse_tz = Some, au_uuid_into_bytes = (\<lambda>_. replicate 16 0),
      au_uuid_from_slice = (\<lambda>_. Some 0), au_cbor_encode = (\<lambda>_. []), au_cbor_decode = (\<lambda>_. None), au_sha256 = id,
      au_itoa = show_nat, au_AUTH_TOKEN = bytes_of ''secret'', au_KEY_PREFIX = bytes_of ''sk-''\<rparr>"

theorem token_bundle_decision_witness:
  "\<exists>b kc' s'. get_token_bundle sample_env sample_config 0 sample_log_env log_manager_new sample_manager (bytes_of ''secret-a'')
      PrivilegedPaid NormalPaid None \<lparr>as_heads = QUEUE_HEADS_init, as_view = Map.empty\<rparr> = Some (Inr (b, True), kc', s') \<and>
    length (as_heads s') = 4 \<and> (\<exists>info. alias_table sample_manager (bytes_of ''a'') = Some info \<and> b = ext_clone (ext_bundle info))"
proof -
  let ?s = "\<lparr>as_heads = QUEUE_HEADS_init, as_view = Map.empty\<rparr>"
  have "length (as_heads ?s) = 4" by (simp add: QUEUE_HEADS_init_def)
  from token_bundle_decision [OF sample_manager_inv this, of sample_env sample_config 0 sample_log_env log_manager_new
      "bytes_of ''secret-a''" PrivilegedPaid NormalPaid None]
  obtain r kc' s' where g: "get_token_bundle sample_env sample_config 0 sample_log_env log_manager_new sample_manager
      (bytes_of ''secret-a'') PrivilegedPaid NormalPaid None ?s = Some (r, kc', s')" "length (as_heads s') = 4"
    "grant_ok sample_env sample_config 0 (log_manager_new :: (unit, nat) log_manager) sample_manager (bytes_of ''secret-a'') r"
    by blast
  have al: "names_alias sample_env (bytes_of ''secret-a'') al \<longleftrightarrow> al = bytes_of ''a''" for al
    by (auto simp: names_alias_def sample_env_def bytes_of_def)
  have q: "\<not> names_queue sample_env sample_config (bytes_of ''secret-a'')" "prefix (au_AUTH_TOKEN sample_env) (bytes_of ''secret-a'')"
    by (simp_all add: names_queue_def sample_env_def bytes_of_def)
  have "alias_table sample_manager (bytes_of ''a'') \<noteq> None"
    by (simp add: alias_table_None [OF sample_manager_inv]) (simp add: sample_manager_eq)
  with g al q show ?thesis
    by (auto simp: grant_ok_def split: sum.splits AuthError.splits bool.splits)
qed

section \<open>Dynamic keys come back\<close>

text \<open>Whether an accepted token agrees with the request: it is the token of the request itself, with its subject, signature,
  duration, randomness and kind, unless the cache has one with the same key and signature, and all else is as requested.\<close>

definition same_request :: "auth_env \<Rightarrow> token_view \<Rightarrow> build_key_request \<Rightarrow> ext_token \<Rightarrow> bool" where
  "same_request e v q b \<longleftrightarrow>
     key_of_token (primary_token b) = raw_key (bk_token q) \<and> raw_signature (tok_raw (primary_token b)) = raw_signature (bk_token q) \<and>
     (primary_token b = \<lparr>tok_raw = bk_token q, tok_str = au_to_string e (bk_token q)\<rparr> \<or>
      v (raw_key (bk_token q)) = Some (primary_token b)) \<and>
     secondary_token b = None \<and> ext_checksum b = bk_checksum q \<and> client_key b = bk_client_key q \<and>
     config_version b = bk_config_version q \<and> session_id b = bk_session_id q \<and> proxy b = bk_proxy_name q \<and>
     timezone b = bk_timezone q \<and> gcpp_host b = bk_gcpp_host q"

lemma checksum_bytes:
  "hash_wf (first c) \<Longrightarrow> hash_wf (second c) \<Longrightarrow> checksum_from_bytes (checksum_into_bytes c) = c"
  by (simp add: checksum_from_bytes_def checksum_into_bytes_def hash_wf_def)

lemma gcpp_u8: "gcpp_from_u8 (gcpp_as_u8 g) = Some g"
  by (cases g) (simp_all add: gcpp_from_u8_def gcpp_as_u8_def)

lemma key_token_raw:
  assumes "provider_name (provider (raw_subject r)) \<in> set PROVIDERS"
  shows "key_token_into_raw big PROVIDERS (key_token_from_raw big r) = Some r"
  using provider_from_str_in [OF assms]
  by (simp add: key_token_into_raw_def key_token_from_raw_def user_id_bytes from_to_ne_bytes_u64)

text \<open>The libraries behind a key: UUIDs come back from their bytes, time zones from their names, and a key from its CBOR
  encoding.\<close>

definition libraries_ok :: "auth_env \<Rightarrow> build_key_request \<Rightarrow> bool" where
  "libraries_ok e q \<longleftrightarrow>
     (\<forall>u \<in> insert (bk_session_id q) (set_option (bk_config_version q)). au_uuid_from_slice e (au_uuid_into_bytes e u) = Some u) \<and>
     (\<forall>z \<in> set_option (bk_timezone q). au_parse_tz e z = Some z) \<and>
     au_cbor_decode e (au_cbor_encode e (built_key e q)) = Some (built_key e q)"

lemma tokeninfo_back:
  assumes lib: "libraries_ok e q" and wf: "hash_wf (first (bk_checksum q))" "hash_wf (second (bk_checksum q))"
    and prov: "provider_name (provider (raw_subject (bk_token q))) \<in> set (au_providers e)" and v: "view_ok v"
  shows "\<exists>b v'. tokeninfo_to_token e (token_to_tokeninfo e q) v = (Some b, v') \<and> same_request e v q b \<and> view_ok v'"
proof -
  obtain t v' where i: "token_intern (au_to_string e) (bk_token q) None v = (t, v')" by fastforce
  have inv: "Option.bind (map_option (au_uuid_into_bytes e) (bk_config_version q)) (au_uuid_from_slice e) = bk_config_version q"
    "Option.bind (bk_timezone q) (au_parse_tz e) = bk_timezone q"
    "Option.bind (map_option gcpp_as_u8 (bk_gcpp_host q)) gcpp_from_u8 = bk_gcpp_host q"
    "au_uuid_from_slice e (au_uuid_into_bytes e (bk_session_id q)) = Some (bk_session_id q)"
    using lib by (cases "bk_config_version q"; cases "bk_timezone q"; cases "bk_gcpp_host q"; simp add: libraries_ok_def gcpp_u8)+
  have "t = \<lparr>tok_raw = bk_token q, tok_str = au_to_string e (bk_token q)\<rparr> \<or> v (raw_key (bk_token q)) = Some t"
    using i by (auto simp: token_intern_def Let_def split: option.splits if_splits)
  then show ?thesis
    using token_intern_ok [OF v i, unfolded raw_token_eq_def]
    by (simp add: tokeninfo_to_token_def token_to_tokeninfo_def inv key_token_raw [OF prov] i checksum_bytes wf same_request_def)
qed

lemma length_encoded: "length (map b64_char (sextets bs)) = encoded_len (length bs)"
  by (simp only: length_map length_sextets)

lemma encoded_long: "46 \<le> n \<Longrightarrow> 60 < encoded_len n"
  by (simp add: encoded_len_def Let_def) presburger

text \<open>C14: A built key is accepted.  If the handler builds a key and dynamic keys are on, then sending the key back, under
  whatever configuration then holds, is accepted with the token of the request, or the one of the cache with the same key and
  signature, and the checksum, the client key, the versions, the proxy, the time zone and the host of the request, provided that the libraries' encodings can be read back, the
  provider is configured, and the key is neither the administrator's nor the shared token and is longer than a token key.  The
  key carries the models to check, but of its other settings only that they are set: their values are the global ones.
  The token key that the handler prints beside it is the token's.\<close>

theorem build_key_roundtrip:
  assumes built: "handle_build_key e a0 header q = Some (Some (key, printed, printed2))"
    and lib: "libraries_ok e q" and wf: "hash_wf (first (bk_checksum q))" "hash_wf (second (bk_checksum q))"
    and prov: "provider_name (provider (raw_subject (bk_token q))) \<in> set (au_providers e)" and v: "view_ok (as_view s)"
    and long: "46 \<le> length (au_cbor_encode e (built_key e q))" and dyn: "ac_dynamic_key a"
    and admin: "\<not> prefix (au_AUTH_TOKEN e) key" and guest: "\<not> (ac_is_share a \<and> key = ac_share_token a)"
  shows "(\<exists>b c s'. get_token_bundle e a t le lm m key pq nq (Some key_config_new) s = Some (Inr (b, False), Some c, s') \<and>
      same_request e (as_view s) q b \<and> view_ok (as_view s') \<and>
      kc_usage_check_models c = ck_usage_check_models (built_key e q) \<and>
      kc_disable_vision c = map_option (\<lambda>_. ac_vision_ability a = VisionNone) (bk_disable_vision q) \<and>
      kc_enable_slow_pool c = map_option (\<lambda>_. ac_slow_pool a) (bk_enable_slow_pool q) \<and>
      kc_include_web_references c = map_option (\<lambda>_. ac_web_refs a) (bk_include_web_references q)) \<and>
    token_key_from_string (au_big e) printed = Some (Some (raw_key (bk_token q)))"
proof -
  let ?body = "map b64_char (sextets (au_cbor_encode e (built_key e q)))"
  obtain b v' where b: "tokeninfo_to_token e (token_to_tokeninfo e q) (as_view s) = (Some b, v')" "same_request e (as_view s) q b" "view_ok v'"
    using tokeninfo_back [OF lib wf prov v] by blast
  from built have key: "key = au_KEY_PREFIX e @ ?body" and tx: "token_key_to_string (au_big e) (raw_key (bk_token q)) = Some printed"
    by (auto simp: handle_build_key_def to_base64_eq Let_def split: if_splits bind_splits)
  have "length key > 60" using encoded_long [OF long] by (simp add: key length_encoded del: length_map)
  then have k: "token_key_from_string (au_big e) key = Some None" by (simp add: token_key_from_string_def)
  have none: "strip_prefix (au_AUTH_TOKEN e) key = None" using admin by (auto simp: strip_prefix_def) (metis append_take_drop_id prefixI)
  have p: "parse_dynamic_token e key = Some (Some (built_key e q))"
    using lib by (simp add: parse_dynamic_token_def key from_base64_encoded libraries_ok_def)
  have "get_token_bundle e a t le lm m key pq nq (Some key_config_new) s = by_dynamic_key e a key (Some key_config_new) s"
    using none guest k dyn by (auto simp: get_token_bundle_def share_token_eq_def)
  then show ?thesis
    using b tx token_key_roundtrip [of "au_big e" "raw_key (bk_token q)"]
    by (auto simp: by_dynamic_key_def p move_without_auth_token_def built_key_def key_config_new_def with_global_def)
qed

definition sample_request :: build_key_request where
  "sample_request =
     \<lparr>bk_token = tok_raw (sample_token 1), bk_checksum = \<lparr>first = Hash (replicate 32 0), second = Hash (replicate 32 1)\<rparr>,
      bk_client_key = Hash (replicate 32 2), bk_config_version = Some 0, bk_session_id = 0, bk_secret = None,
      bk_proxy_name = Some (bytes_of ''p''), bk_timezone = Some (bytes_of ''UTC''), bk_gcpp_host = Some EU, bk_disable_vision = Some True,
      bk_enable_slow_pool = None, bk_include_web_references = Some True, bk_usage_check_models = None\<rparr>"

definition sample_key_env :: auth_env where
  "sample_key_env = sample_env\<lparr>au_cbor_encode := (\<lambda>_. replicate 46 0), au_cbor_decode := (\<lambda>_. Some (built_key sample_env sample_request))\<rparr>"

lemma sample_key_env_simps:
  "au_AUTH_TOKEN sample_key_env = bytes_of ''secret''" "au_KEY_PREFIX sample_key_env = bytes_of ''sk-''"
  "au_cbor_encode sample_key_env k = replicate 46 0" "built_key sample_key_env sample_request = built_key sample_env sample_request"
  by (simp_all add: sample_key_env_def sample_env_def built_key_def token_to_tokeninfo_def sample_request_def)

theorem build_key_roundtrip_witness:
  "\<exists>key printed printed2 b c s'.
     handle_build_key sample_key_env sample_config (Some (BEARER @ bytes_of ''s'')) sample_request = Some (Some (key, printed, printed2)) \<and>
     get_token_bundle sample_key_env sample_config 0 sample_log_env log_manager_new sample_manager key PrivilegedPaid NormalPaid
       (Some key_config_new) \<lparr>as_heads = QUEUE_HEADS_init, as_view = Map.empty\<rparr> = Some (Inr (b, False), Some c, s') \<and>
     same_request sample_key_env Map.empty sample_request b \<and> tok_raw (primary_token b) = tok_raw (sample_token 1) \<and>
     kc_disable_vision c = Some False"
proof -
  let ?s = "\<lparr>as_heads = QUEUE_HEADS_init, as_view = Map.empty\<rparr>"
  have g: "share_guard sample_key_env sample_config (Some (BEARER @ bytes_of ''s''))"
    by (simp add: share_guard_def sample_config_def share_token_eq_def)
  obtain printed where "token_key_to_string (au_big sample_key_env) (raw_key (bk_token sample_request)) = Some printed"
    using token_key_roundtrip by blast
  with g obtain key printed2 where h: "handle_build_key sample_key_env sample_config (Some (BEARER @ bytes_of ''s'')) sample_request =
      Some (Some (key, printed, printed2))" and key: "key = bytes_of ''sk-'' @ map b64_char (sextets (replicate 46 0))"
    by (auto simp: handle_build_key_def to_base64_eq sample_key_env_simps Let_def)
  have lib: "libraries_ok sample_key_env sample_request"
    by (simp add: libraries_ok_def sample_key_env_simps) (simp add: sample_key_env_def sample_env_def sample_request_def)
  have wf: "hash_wf (first (bk_checksum sample_request))" "hash_wf (second (bk_checksum sample_request))"
    by (simp_all add: sample_request_def hash_wf_def)
  have prov: "provider_name (provider (raw_subject (bk_token sample_request))) \<in> set (au_providers sample_key_env)"
    by (simp add: sample_request_def sample_token_def sample_key_env_def sample_env_def)
  have admin: "\<not> prefix (au_AUTH_TOKEN sample_key_env) key" by (simp add: sample_key_env_simps key bytes_of_def)
  have guest: "\<not> (ac_is_share sample_config \<and> key = ac_share_token sample_config)" by (simp add: key sample_config_def bytes_of_def)
  have v: "view_ok (as_view ?s)" and long: "46 \<le> length (au_cbor_encode sample_key_env (built_key sample_key_env sample_request))"
    and dyn: "ac_dynamic_key sample_config"
    by (simp_all add: view_ok_def sample_key_env_simps sample_config_def)
  show ?thesis
    using build_key_roundtrip [OF h lib wf prov v long dyn admin guest, of 0 sample_log_env log_manager_new sample_manager
        PrivilegedPaid NormalPaid] h
    by (auto simp: sample_config_def sample_request_def same_request_def)
qed

section \<open>Settings of a request\<close>

text \<open>Only a dynamic key sets anything: for every other accepted credential the settings stay empty.\<close>

lemma key_config_untouched:
  assumes "get_token_bundle e a t le lm m auth_token pq nq kc s = Some (Inr (b, u), kc', s')"
    and "u \<or> token_key_from_string (au_big e) auth_token \<noteq> Some None"
  shows "kc' = kc"
  using assms
  by (auto simp: get_token_bundle_def by_dynamic_key_def Let_def split: bind_splits option.splits if_splits prod.splits log_reply.splits)

theorem manager_token_settings_empty:
  assumes "v1_auth e a t le lm m rfc3339 version api_key authorization h time s = Some (Inr x, s')"
    and "ex_bundle x = Some (Inr (b, True))"
  shows "ex_key_config x = Some key_config_new"
  using assms
  by (auto simp: v1_auth_def split: option.splits sum.splits bind_splits dest!: key_config_untouched)

end
