(* ===== verification/Chat_Handler.thy ===== *)
theory Chat_Handler
  imports OpenAI_Chat Anthropic_Chat OpenAI_Adapter Anthropic_Adapter Upstream_Error Token_Routes Auth Base62
begin

text \<open>
  The request handlers of \<^verbatim>\<open>src/core/service.rs\<close> as a whole: what the middleware left in the request, the model, the
  counters of \<^verbatim>\<open>src/app/model/state.rs\<close>, the entry of the request log, the adapter, the upstream answer and the task
  that refreshes the profile of the token.  The response half is that of \<^theory_text>\<open>OpenAI_Chat\<close> and \<^theory_text>\<open>Anthropic_Chat\<close>.  Building
  and sending the upstream request is the parameter \<open>send\<close>; the clock and the random identifier are parameters, too.
\<close>

section \<open>Errors\<close>

datatype ChatError =
  ModelNotSupported bytes
  | EmptyMessages
  | ChatRequestFailed bytes
  | ProcessingFailed bytes

definition chat_error_type :: "ChatError \<Rightarrow> bytes" where
  "chat_error_type x =
     bytes_of (case x of ModelNotSupported _ \<Rightarrow> ''model_not_supported'' | EmptyMessages \<Rightarrow> ''empty_messages''
               | ChatRequestFailed _ \<Rightarrow> ''request_failed'' | ProcessingFailed _ \<Rightarrow> ''processing_failed'')"

definition chat_error_text :: "ChatError \<Rightarrow> bytes" where
  "chat_error_text x =
     (case x of
        ModelNotSupported m \<Rightarrow> bytes_of ''Model '' @ [0x27] @ m @ [0x27] @ bytes_of '' is not supported''
      | EmptyMessages \<Rightarrow> bytes_of ''Message array cannot be empty''
      | ChatRequestFailed t \<Rightarrow> bytes_of ''Request failed: '' @ t
      | ProcessingFailed t \<Rightarrow> bytes_of ''Processing failed: '' @ t)"

text \<open>A refusal: the status code, the type and the message, which both error formats carry.\<close>

type_synonym refusal = "nat \<times> bytes \<times> bytes"

definition chat_reply :: "nat \<Rightarrow> ChatError \<Rightarrow> refusal" where
  "chat_reply n x = (n, chat_error_type x, chat_error_text x)"

definition auth_reply :: "AuthError \<Rightarrow> refusal" where
  "auth_reply x = (auth_status_code x, auth_error_type x, auth_message x)"

definition to_openai :: "refusal \<Rightarrow> nat \<times> openai_error" where
  "to_openai r = (case r of (n, t, msg) \<Rightarrow> (n, \<lparr>oe_code = Some t, oe_message = msg\<rparr>))"

definition to_anthropic :: "refusal \<Rightarrow> nat \<times> anthropic_error" where
  "to_anthropic r = (case r of (n, t, msg) \<Rightarrow> (n, \<lparr>ae_type = t, ae_message = msg\<rparr>))"

definition adapter_log_error :: "AdapterError \<Rightarrow> ErrorInfo" where
  "adapter_log_error x = (case adapter_to_parts x of (_, t, msg) \<Rightarrow> Detailed t msg)"

section \<open>The state of the program\<close>

record ('p, 'f) server =
  sv_manager :: "'p token_manager"
  sv_total :: u64
  sv_active :: u64
  sv_error :: u64
  sv_log :: "('p, 'f) log_manager"

definition increment_total :: "('p, 'f) server \<Rightarrow> ('p, 'f) server" where
  "increment_total s = s\<lparr>sv_total := sv_total s + 1\<rparr>"

definition increment_active :: "('p, 'f) server \<Rightarrow> ('p, 'f) server" where
  "increment_active s = s\<lparr>sv_active := sv_active s + 1\<rparr>"

definition decrement_active :: "('p, 'f) server \<Rightarrow> ('p, 'f) server" where
  "decrement_active s = s\<lparr>sv_active := sv_active s - 1\<rparr>"

definition increment_error :: "('p, 'f) server \<Rightarrow> ('p, 'f) server" where
  "increment_error s = s\<lparr>sv_error := sv_error s + 1\<rparr>"

text \<open>\<^verbatim>\<open>AppState::load\<close>, after the managers were read.\<close>

definition server_load :: "('p, 'f) log_manager \<Rightarrow> 'p token_manager \<Rightarrow> ('p, 'f) server" where
  "server_load lm m =
     \<lparr>sv_manager = m, sv_total = of_nat (total_count lm), sv_active = 0, sv_error = of_nat (error_count lm), sv_log = lm\<rparr>"

text \<open>A command to the log actor whose answer, if any, is waited for.\<close>

definition tell :: "('p, 'f) log_env \<Rightarrow> ('p, 'f) log_command \<Rightarrow> ('p, 'f) server \<Rightarrow> ('p, 'f) server ub" where
  "tell e c s = do { (_, lm) \<leftarrow> handle_command e c (sv_log s); Some (s\<lparr>sv_log := lm\<rparr>) }"

fun run_effects :: "('p, 'f) log_env \<Rightarrow> ('p, 'f) effect list \<Rightarrow> ('p, 'f) server \<Rightarrow> ('p, 'f) server ub" where
  "run_effects e [] s = Some s"
| "run_effects e (UpdLog i u # fx) s = do { s \<leftarrow> tell e (UpdateLog i u) s; run_effects e fx s }"
| "run_effects e (IncrementError # fx) s = run_effects e fx (increment_error s)"

section \<open>Before the upstream request\<close>

text \<open>What the handlers take out of the request: \<^verbatim>\<open>__unwrap!\<close> is undefined on \<^verbatim>\<open>None\<close>.\<close>

definition admit ::
  "bool \<Rightarrow> 'r catalogue \<Rightarrow> bytes \<Rightarrow> bool \<Rightarrow> 'd extensions
   \<Rightarrow> (refusal + ext_token \<times> bool \<times> ext_model \<times> key_config \<times> environment_info) ub" where
  "admit bypass cat model_name no_messages x = do {
     b \<leftarrow> ex_bundle x;
     (case b of
        Inl err \<Rightarrow> Some (Inl (auth_reply err))
      | Inr (tok, use_pri) \<Rightarrow> do {
          m \<leftarrow> ext_model_from_str bypass model_name cat;
          (case m of
             None \<Rightarrow> Some (Inl (chat_reply 400 (ModelNotSupported model_name)))
           | Some model \<Rightarrow>
               if no_messages then Some (Inl (chat_reply 400 EmptyMessages))
               else do {
                 current_config \<leftarrow> ex_key_config x;
                 environment_info \<leftarrow> ex_environment_info x;
                 Some (Inr (tok, use_pri, model, current_config, environment_info))
               })
        })
   }"

definition is_usage_check :: "app_config \<Rightarrow> ext_model \<Rightarrow> UsageCheck option \<Rightarrow> bool" where
  "is_usage_check a model u =
     (case (case u of Some x \<Rightarrow> x | None \<Rightarrow> ac_usage_check a) of
        UsageNone \<Rightarrow> False
      | UsageDefault \<Rightarrow> \<not> List.member FREE_MODELS (em_id model)
      | UsageAll \<Rightarrow> True
      | UsageCustom models \<Rightarrow> List.member models (em_id model))"

definition pending_log :: "'f \<Rightarrow> u64 \<Rightarrow> int \<Rightarrow> ext_model \<Rightarrow> bool \<Rightarrow> ext_token \<Rightarrow> ('p, 'f) request_log" where
  "pending_log zero new_id time model stream tok =
     \<lparr>log_id = new_id, timestamp = time, log_model = em_id model,
      log_token = \<lparr>lt_key = key_of_token (primary_token tok), lt_usage = None, lt_user = None, lt_stripe = None\<rparr>,
      log_chain = \<lparr>delays = None, chain_usage = None, think = None\<rparr>, total_time = zero, log_stream = stream,
      log_status = Pending, log_error = NoError\<rparr>"

text \<open>The entry of the log, and whether the profile is to be refreshed afterwards.\<close>

definition begin_log ::
  "('p, 'f) log_env \<Rightarrow> 'f \<Rightarrow> app_config \<Rightarrow> 'r catalogue \<Rightarrow> int \<Rightarrow> ext_model \<Rightarrow> bool \<Rightarrow> ext_token \<Rightarrow> key_config \<Rightarrow> ('p, 'f) server
   \<Rightarrow> (u64 \<times> bool \<times> ('p, 'f) server) ub" where
  "begin_log e zero a cat time model stream tok current_config s =
     (if should_log (env_limit e) then do {
        (r, lm) \<leftarrow> handle_command e (GetNextLogId True) (sv_log s);
        new_id \<leftarrow> (case r of RNextId i \<Rightarrow> Some i | _ \<Rightarrow> None);
        s \<leftarrow> tell e (AddLog (pending_log zero new_id time model stream tok) (ext_clone tok)) (s\<lparr>sv_log := lm\<rparr>);
        u \<leftarrow> (case kc_usage_check_models current_config of
                None \<Rightarrow> Some None
              | Some x \<Rightarrow> map_option Some (usage_from_proto cat x));
        Some (new_id, is_usage_check a model u, s)
      }
      else Some (0, False, s))"

section \<open>The upstream request\<close>

record send_error =
  se_is_timeout :: bool
  se_text :: bytes

definition forward ::
  "('p, 'f) log_env \<Rightarrow> (bytes \<Rightarrow> send_error + item list) \<Rightarrow> AdapterError + bytes \<Rightarrow> u64 \<Rightarrow> ('p, 'f) server
   \<Rightarrow> ((refusal + item list) \<times> ('p, 'f) server) ub" where
  "forward e send hex_data current_id s =
     (case hex_data of
        Inl err \<Rightarrow> do {
          s \<leftarrow> tell e (UpdateLog current_id (UpdFailure (adapter_log_error err))) s;
          Some (Inl (adapter_to_parts err), increment_error (decrement_active s))
        }
      | Inr data \<Rightarrow>
          (case send data of
             Inl err \<Rightarrow> do {
               s \<leftarrow> tell e (UpdateLog current_id (UpdFailure (Simple (se_text err)))) s;
               Some (Inl (chat_reply (if se_is_timeout err then 504 else 500) (ChatRequestFailed (se_text err))),
                     increment_error (decrement_active s))
             }
           | Inr response \<Rightarrow> do {
               s \<leftarrow> tell e (UpdateLog current_id UpdSuccess) s;
               Some (Inr response, decrement_active s)
             }))"

text \<open>The part the two chat handlers share.  \<open>create\<close> is the adapter; \<open>send\<close> gets the token and whether the
  administrator's privileges hold.\<close>

definition open_request ::
  "('p, 'f) log_env \<Rightarrow> 'f \<Rightarrow> app_config \<Rightarrow> bool \<Rightarrow> 'r catalogue
   \<Rightarrow> (ext_model \<Rightarrow> environment_info \<Rightarrow> bool \<Rightarrow> bool \<Rightarrow> (AdapterError + bytes) ub)
   \<Rightarrow> (ext_token \<Rightarrow> bool \<Rightarrow> bytes \<Rightarrow> send_error + item list)
   \<Rightarrow> bytes \<Rightarrow> bool \<Rightarrow> bool \<Rightarrow> int extensions \<Rightarrow> ('p, 'f) server
   \<Rightarrow> ((refusal + item list \<times> u64 \<times> ext_model \<times> bool \<times> (u64 \<times> token_key) option) \<times> ('p, 'f) server) ub" where
  "open_request e zero a bypass cat create send model_name no_messages stream x s = do {
     r \<leftarrow> admit bypass cat model_name no_messages x;
     (case r of
        Inl err \<Rightarrow> Some (Inl err, s)
      | Inr (tok, use_pri, model, current_config, environment_info) \<Rightarrow> do {
          request_time \<leftarrow> ex_request_time x;
          let s = increment_active (increment_total s);
          (current_id, check, s) \<leftarrow> begin_log e zero a cat request_time model stream tok current_config s;
          disable_vision \<leftarrow> kc_disable_vision current_config;
          enable_slow_pool \<leftarrow> kc_enable_slow_pool current_config;
          hex_data \<leftarrow> create model environment_info disable_vision enable_slow_pool;
          (r, s) \<leftarrow> forward e (send tok use_pri) hex_data current_id s;
          (case r of
             Inl err \<Rightarrow> Some (Inl err, s)
           | Inr items \<Rightarrow> do {
               convert_web_ref \<leftarrow> kc_include_web_references current_config;
               Some (Inr (items, current_id, model, convert_web_ref,
                          if check then Some (current_id, key_of_token (primary_token tok)) else None), s)
             })
        })
   }"

section \<open>The chat handlers\<close>

definition MSG01_PREFIX :: bytes where "MSG01_PREFIX = bytes_of ''msg_01''"

definition CHATCMPL_PREFIX :: bytes where "CHATCMPL_PREFIX = bytes_of ''chatcmpl-''"

definition message_id_to_str :: "u128 \<Rightarrow> bytes ub" where
  "message_id_to_str v = encode_fixed v (replicate 22 0)"

text \<open>The surroundings of a request: the decoder's libraries, the clock, \<^verbatim>\<open>get_token_usage\<close> and the JSON printers.\<close>

record ('t, 'f) reply_env =
  re_dec :: "(cursor_error, 't, 'f) dec_env"
  re_created :: int
  re_elapsed :: 'f
  re_real_usage :: bool
  re_usage :: "'f chain_usage option"
  re_chunk_error :: bytes  \<comment> \<open>what a failed read prints\<close>
  re_details_json :: "custom_details \<Rightarrow> bytes"
  re_coded_json :: "bytes \<times> custom_details \<Rightarrow> bytes"
  re_tag_open :: bytes
  re_tag_close :: bytes

definition read_failed :: "('t, 'f) reply_env \<Rightarrow> refusal" where
  "read_failed v = chat_reply 500 (ChatRequestFailed (bytes_of ''Failed to read response chunk: '' @ re_chunk_error v))"

definition openai_upstream :: "('t, 'f) reply_env \<Rightarrow> cursor_error \<Rightarrow> (nat \<times> openai_error) ub" where
  "openai_upstream v err = do { n \<leftarrow> http_status (canonical err); Some (n, error_into_openai (re_details_json v) (canonical err)) }"

definition anthropic_upstream :: "('t, 'f) reply_env \<Rightarrow> cursor_error \<Rightarrow> (nat \<times> anthropic_error) ub" where
  "anthropic_upstream v err = do { n \<leftarrow> http_status (canonical err); Some (n, error_into_anthropic (re_coded_json v) (canonical err)) }"

datatype 'a reply = Streamed bytes bool | Answered 'a  \<comment> \<open>the flag of a stream tells whether its body ends\<close>

record chat_completions_request =
  cq_model :: bytes
  cq_messages :: "openai_message list"
  cq_stream :: bool
  cq_include_usage :: bool

definition openai_stream_reply ::
  "('t, 'f) reply_env \<Rightarrow> cursor_error start_error + bytes \<times> bool \<Rightarrow> (nat \<times> openai_error + chat_response reply) ub" where
  "openai_stream_reply v r =
     (case r of
        Inl (UpstreamFailed x) \<Rightarrow> map_option Inl (openai_upstream v x)
      | Inl ReadError \<Rightarrow> Some (Inl (to_openai (read_failed v)))
      | Inl StreamEnded \<Rightarrow> Some (Inl (to_openai (chat_reply 500 (ChatRequestFailed ERR_STREAM_RESPONSE))))
      | Inr (body, ends) \<Rightarrow> Some (Inr (Streamed body ends)))"

definition openai_answer_reply ::
  "('t, 'f) reply_env \<Rightarrow> cursor_error answer_error + chat_response \<Rightarrow> (nat \<times> openai_error + chat_response reply) ub" where
  "openai_answer_reply v r =
     (case r of
        Inl (AnswerUpstream x) \<Rightarrow> map_option Inl (openai_upstream v x)
      | Inl AnswerRead \<Rightarrow> Some (Inl (to_openai (read_failed v)))
      | Inl AnswerEmpty \<Rightarrow> Some (Inl (to_openai (chat_reply 500 (ChatRequestFailed ERR_RESPONSE_RECEIVED))))
      | Inr resp \<Rightarrow> Some (Inr (Answered resp)))"

definition openai_respond ::
  "('t, 'f) reply_env \<Rightarrow> (openai_error \<Rightarrow> bytes) \<Rightarrow> (chat_response \<Rightarrow> bytes) \<Rightarrow> u128 \<Rightarrow> bool \<Rightarrow> bool \<Rightarrow> u64 \<Rightarrow> ext_model \<Rightarrow> bool \<Rightarrow> item list
   \<Rightarrow> ((nat \<times> openai_error + chat_response reply) \<times> ('p, 'f) effect list) ub" where
  "openai_respond v error_json to_json msg_id stream include_usage current_id model convert_web_ref items = do {
     i \<leftarrow> message_id_to_str msg_id;
     let c = \<lparr>oc_response_id = CHATCMPL_PREFIX @ i, oc_model = em_id model, oc_current_id = current_id, oc_created = re_created v,
              oc_is_need = include_usage, oc_elapsed = re_elapsed v, oc_tag_open = re_tag_open v, oc_tag_close = re_tag_close v\<rparr>;
     (if stream then do {
        (r, s) \<leftarrow> openai_stream (re_dec v) convert_web_ref c (\<lambda>x. to_error_info (canonical x))
                   (\<lambda>x. error_json (error_into_openai (re_details_json v) (canonical x))) to_json (re_real_usage v) (re_usage v) items;
        q \<leftarrow> openai_stream_reply v r;
        Some (q, effects s)
      }
      else do {
        (r, fx) \<leftarrow> openai_answer (re_dec v) convert_web_ref c (\<lambda>x. to_error_info (canonical x)) (re_real_usage v) (re_usage v) items;
        q \<leftarrow> openai_answer_reply v r;
        Some (q, fx)
      })
   }"

text \<open>The end of a handler: the effects of the response, and the task that is started when the body ends.\<close>

definition finish ::
  "('p, 'f) log_env \<Rightarrow> (nat \<times> 'x + 'a reply) \<times> ('p, 'f) effect list \<Rightarrow> (u64 \<times> token_key) option \<Rightarrow> ('p, 'f) server
   \<Rightarrow> ((nat \<times> 'x + 'a reply) \<times> (u64 \<times> token_key) option \<times> ('p, 'f) server) ub" where
  "finish e res task s = do {
     s \<leftarrow> run_effects e (snd res) s;
     Some (fst res, case fst res of Inl _ \<Rightarrow> None | Inr (Streamed _ ended) \<Rightarrow> (if ended then task else None) | Inr (Answered _) \<Rightarrow> task, s)
   }"

text \<open>What both handlers are made of: the shared part, then their own response.\<close>

definition chat_handler ::
  "('p, 'f) log_env \<Rightarrow> 'f \<Rightarrow> app_config \<Rightarrow> bool \<Rightarrow> 'r catalogue
   \<Rightarrow> (ext_model \<Rightarrow> environment_info \<Rightarrow> bool \<Rightarrow> bool \<Rightarrow> (AdapterError + bytes) ub)
   \<Rightarrow> (ext_token \<Rightarrow> bool \<Rightarrow> bytes \<Rightarrow> send_error + item list) \<Rightarrow> (refusal \<Rightarrow> nat \<times> 'x)
   \<Rightarrow> (u64 \<Rightarrow> ext_model \<Rightarrow> bool \<Rightarrow> item list \<Rightarrow> ((nat \<times> 'x + 'a reply) \<times> ('p, 'f) effect list) ub)
   \<Rightarrow> bytes \<Rightarrow> bool \<Rightarrow> bool \<Rightarrow> int extensions \<Rightarrow> ('p, 'f) server
   \<Rightarrow> ((nat \<times> 'x + 'a reply) \<times> (u64 \<times> token_key) option \<times> ('p, 'f) server) ub" where
  "chat_handler e zero a bypass cat create send refuse respond model_name no_messages stream x s = do {
     (r, s) \<leftarrow> open_request e zero a bypass cat create send model_name no_messages stream x s;
     (case r of
        Inl err \<Rightarrow> Some (Inl (refuse err), None, s)
      | Inr (items, current_id, model, convert_web_ref, task) \<Rightarrow> do {
          res \<leftarrow> respond current_id model convert_web_ref items;
          finish e res task s
        })
   }"

definition handle_chat_completions ::
  "('p, 'f) log_env \<Rightarrow> 'f \<Rightarrow> app_config \<Rightarrow> bool \<Rightarrow> 'r catalogue \<Rightarrow> adapter_env
   \<Rightarrow> (environment_info chat_request \<Rightarrow> nat) \<Rightarrow> (environment_info chat_request \<Rightarrow> bytes) \<Rightarrow> (bytes \<Rightarrow> bytes)
   \<Rightarrow> (ext_token \<Rightarrow> bool \<Rightarrow> bytes \<Rightarrow> send_error + item list) \<Rightarrow> ('t, 'f) reply_env \<Rightarrow> (openai_error \<Rightarrow> bytes) \<Rightarrow> (chat_response \<Rightarrow> bytes)
   \<Rightarrow> u128 \<Rightarrow> bytes \<Rightarrow> int extensions \<Rightarrow> chat_completions_request \<Rightarrow> ('p, 'f) server
   \<Rightarrow> ((nat \<times> openai_error + chat_response reply) \<times> (u64 \<times> token_key) option \<times> ('p, 'f) server) ub" where
  "handle_chat_completions e zero a bypass cat ae enc_len encode_raw gzip send v error_json to_json msg_id msg_id_text x q s =
     chat_handler e zero a bypass cat
       (\<lambda>model info dv sp. openai_create_params ae enc_len encode_raw gzip (cq_messages q) model msg_id_text info dv sp)
       send to_openai (openai_respond v error_json to_json msg_id (cq_stream q) (cq_include_usage q))
       (cq_model q) (cq_messages q = []) (cq_stream q) x s"

record 'v message_create_params =
  mc_model :: bytes
  mc_messages :: "'v message_param list"
  mc_system :: "SystemContent option"
  mc_tools :: "'v tool_param list"
  mc_thinking_enabled :: bool
  mc_stream :: bool

definition trim_suffix :: "bytes \<Rightarrow> bytes \<Rightarrow> bytes" where
  "trim_suffix p s = (case strip_suffix p s of Some t \<Rightarrow> t | None \<Rightarrow> s)"

definition with_thinking :: "bytes \<Rightarrow> bytes" where
  "with_thinking model =
     (let pre = trim_suffix (bytes_of ''-max'') (trim_suffix (bytes_of ''-online'') model)
      in if strip_suffix (bytes_of ''-thinking'') pre \<noteq> None then model
         else take (length pre) model @ bytes_of ''-thinking'' @ drop (length pre) model)"

definition requested_model :: "'v message_create_params \<Rightarrow> bytes" where
  "requested_model q = (if mc_thinking_enabled q then with_thinking (mc_model q) else mc_model q)"

definition anthropic_stream_reply ::
  "('t, 'f) reply_env \<Rightarrow> cursor_error start_error + bytes \<times> bool \<Rightarrow> (nat \<times> anthropic_error + 'j anthropic_message reply) ub" where
  "anthropic_stream_reply v r =
     (case r of
        Inl (UpstreamFailed x) \<Rightarrow> map_option Inl (anthropic_upstream v x)
      | Inl ReadError \<Rightarrow> Some (Inl (to_anthropic (read_failed v)))
      | Inl StreamEnded \<Rightarrow> Some (Inl (to_anthropic (chat_reply 500 (ChatRequestFailed ERR_STREAM_RESPONSE))))
      | Inr (body, ends) \<Rightarrow> Some (Inr (Streamed body ends)))"

definition anthropic_answer_reply ::
  "('t, 'f) reply_env \<Rightarrow> cursor_error message_error + 'j anthropic_message \<Rightarrow> (nat \<times> anthropic_error + 'j anthropic_message reply) ub" where
  "anthropic_answer_reply v r =
     (case r of
        Inl (MessageUpstream x) \<Rightarrow> map_option Inl (anthropic_upstream v x)
      | Inl MessageRead \<Rightarrow> Some (Inl (to_anthropic (read_failed v)))
      | Inr msg \<Rightarrow> Some (Inr (Answered msg)))"

definition anthropic_respond ::
  "('t, 'f) reply_env \<Rightarrow> (('j, anthropic_error) RawMessageStreamEvent \<Rightarrow> bytes) \<Rightarrow> (bytes \<Rightarrow> (bytes \<times> 'j) list option) \<Rightarrow> u128 \<Rightarrow> bool
   \<Rightarrow> u64 \<Rightarrow> ext_model \<Rightarrow> bool \<Rightarrow> item list
   \<Rightarrow> ((nat \<times> anthropic_error + 'j anthropic_message reply) \<times> ('p, 'f) effect list) ub" where
  "anthropic_respond v to_json parse msg_id stream current_id model convert_web_ref items = do {
     i \<leftarrow> message_id_to_str msg_id;
     let c = \<lparr>ac_msg_id = MSG01_PREFIX @ i, ac_model = em_id model, ac_current_id = current_id, ac_elapsed = re_elapsed v\<rparr>;
     (if stream then do {
        (r, s) \<leftarrow> anthropic_stream (re_dec v) convert_web_ref c (\<lambda>x. to_error_info (canonical x))
                   (\<lambda>x. error_into_anthropic (re_coded_json v) (canonical x)) to_json (re_real_usage v) (re_usage v) items;
        q \<leftarrow> anthropic_stream_reply v r;
        Some (q, a_effects s)
      }
      else do {
        (r, fx) \<leftarrow> anthropic_answer (re_dec v) convert_web_ref c (\<lambda>x. to_error_info (canonical x)) parse (re_real_usage v) (re_usage v) items;
        q \<leftarrow> anthropic_answer_reply v r;
        Some (q, fx)
      })
   }"

definition handle_messages ::
  "('p, 'f) log_env \<Rightarrow> 'f \<Rightarrow> app_config \<Rightarrow> bool \<Rightarrow> 'r catalogue \<Rightarrow> adapter_env \<Rightarrow> ('v \<Rightarrow> bytes)
   \<Rightarrow> (environment_info chat_request \<Rightarrow> nat) \<Rightarrow> (environment_info chat_request \<Rightarrow> bytes) \<Rightarrow> (bytes \<Rightarrow> bytes)
   \<Rightarrow> (ext_token \<Rightarrow> bool \<Rightarrow> bytes \<Rightarrow> send_error + item list) \<Rightarrow> ('t, 'f) reply_env
   \<Rightarrow> (('j, anthropic_error) RawMessageStreamEvent \<Rightarrow> bytes) \<Rightarrow> (bytes \<Rightarrow> (bytes \<times> 'j) list option)
   \<Rightarrow> u128 \<Rightarrow> bytes \<Rightarrow> int extensions \<Rightarrow> 'v message_create_params \<Rightarrow> ('p, 'f) server
   \<Rightarrow> ((nat \<times> anthropic_error + 'j anthropic_message reply) \<times> (u64 \<times> token_key) option \<times> ('p, 'f) server) ub" where
  "handle_messages e zero a bypass cat ae schema_json enc_len encode_raw gzip send v to_json parse msg_id msg_id_text x q s =
     chat_handler e zero a bypass cat
       (\<lambda>model info dv sp. anthropic_create_params ae schema_json enc_len encode_raw gzip (mc_messages q) (mc_system q) (mc_tools q)
          model msg_id_text info dv sp)
       send to_anthropic (anthropic_respond v to_json parse msg_id (mc_stream q))
       (requested_model q) (mc_messages q = []) (mc_stream q) x s"

section \<open>Counting tokens\<close>

record dry_run_response =
  dr_full_conversation :: "i32 option option"
  dr_user_message :: "i32 option option"

text \<open>\<open>collect_body\<close> sends the request and reads the whole body; \<open>decode_dry_run\<close> and \<open>parse_error\<close> are \<^verbatim>\<open>prost\<close> and the
  JSON parser, which is only asked when the body is UTF-8.\<close>

definition UPSTREAM_FAILURE :: nat where "UPSTREAM_FAILURE = 533"

definition input_tokens :: "dry_run_response \<Rightarrow> i32" where
  "input_tokens r =
     (case dr_full_conversation r of
        Some (Some t) \<Rightarrow> t
      | _ \<Rightarrow> (case dr_user_message r of Some (Some t) \<Rightarrow> t | _ \<Rightarrow> 0))"

definition handle_messages_count_tokens ::
  "bool \<Rightarrow> 'r catalogue \<Rightarrow> adapter_env \<Rightarrow> ('v \<Rightarrow> bytes)
   \<Rightarrow> (environment_info chat_request \<Rightarrow> nat) \<Rightarrow> (environment_info chat_request \<Rightarrow> bytes) \<Rightarrow> (bytes \<Rightarrow> bytes)
   \<Rightarrow> (ext_token \<Rightarrow> bool \<Rightarrow> bytes \<Rightarrow> send_error + bytes) \<Rightarrow> (bytes \<Rightarrow> dry_run_response option) \<Rightarrow> (bytes \<Rightarrow> bool)
   \<Rightarrow> (bytes \<Rightarrow> cursor_error option) \<Rightarrow> ('t, 'f) reply_env \<Rightarrow> bytes \<Rightarrow> 'd extensions \<Rightarrow> 'v message_create_params
   \<Rightarrow> (nat \<times> anthropic_error + i32) ub" where
  "handle_messages_count_tokens bypass cat ae schema_json enc_len encode_raw gzip collect_body decode_dry_run utf8_ok parse_error v
     msg_id_text x q = do {
     r \<leftarrow> admit bypass cat (requested_model q) (mc_messages q = []) x;
     (case r of
        Inl err \<Rightarrow> Some (Inl (to_anthropic err))
      | Inr (tok, use_pri, model, current_config, environment_info) \<Rightarrow> do {
          disable_vision \<leftarrow> kc_disable_vision current_config;
          enable_slow_pool \<leftarrow> kc_enable_slow_pool current_config;
          hex_data \<leftarrow> anthropic_create_params ae schema_json enc_len encode_raw gzip (mc_messages q) (mc_system q) (mc_tools q)
             model msg_id_text environment_info disable_vision enable_slow_pool;
          (case hex_data of
             Inl err \<Rightarrow> Some (Inl (to_anthropic (adapter_to_parts err)))
           | Inr data \<Rightarrow>
               (case collect_body tok use_pri data of
                  Inl err \<Rightarrow> Some (Inl (to_anthropic
                    (chat_reply (if se_is_timeout err then 504 else 500) (ChatRequestFailed (se_text err)))))
                | Inr body \<Rightarrow>
                    (case decode_dry_run body of
                       Some resp \<Rightarrow> Some (Inr (input_tokens resp))
                     | None \<Rightarrow>
                         (case (if utf8_ok body then parse_error body else None) of
                            Some x \<Rightarrow> do { err \<leftarrow> anthropic_upstream v x; Some (Inl err) }
                          | None \<Rightarrow> Some (Inl (to_anthropic (chat_reply UPSTREAM_FAILURE EmptyMessages)))))))
        })
   }"

section \<open>The list of models\<close>

datatype models_error = ModelsAuth AuthError | FetchFailed | UpdateFailed bytes

text \<open>\<open>fetch\<close> is \<^verbatim>\<open>get_available_models\<close>; the choice of the token is written out again in the handler.\<close>

definition handle_models ::
  "auth_env \<Rightarrow> app_config \<Rightarrow> u64 \<Rightarrow> ('p, 'f) log_env \<Rightarrow> (ext_token \<Rightarrow> bool \<Rightarrow> 'r option) \<Rightarrow> (bytes \<Rightarrow> bytes) \<Rightarrow> ModelIdSource
   \<Rightarrow> int \<Rightarrow> int \<Rightarrow> ('r \<Rightarrow> available_model list) \<Rightarrow> bytes option \<Rightarrow> bytes option \<Rightarrow> ('p, 'f) server \<Rightarrow> auth_state \<Rightarrow> 'r catalogue
   \<Rightarrow> ((models_error + unit) \<times> auth_state \<times> 'r catalogue) ub" where
  "handle_models ue a t e fetch display src time uptime models_of api_key authorization s st cat =
     (case auth api_key authorization of
        None \<Rightarrow> Some (Inr (), st, cat)
      | Some auth_token \<Rightarrow> do {
          (r, _, st) \<leftarrow> get_token_bundle ue a t e (sv_log s) (sv_manager s) auth_token PrivilegedFree NormalFree None st;
          (case r of
             Inl err \<Rightarrow> Some (Inl (ModelsAuth err), st, cat)
           | Inr (tok, use_pri) \<Rightarrow>
               (case fetch tok use_pri of
                  None \<Rightarrow> Some (Inl FetchFailed, st, cat)
                | Some models \<Rightarrow>
                    (case catalogue_update display src (ac_fetch_models a) time uptime models_of models cat of
                       (Inl err, cat) \<Rightarrow> Some (Inl (UpdateFailed err), st, cat)
                     | (Inr _, cat) \<Rightarrow> Some (Inr (), st, cat))))
        })"

definition handle_raw_models :: "'r catalogue \<Rightarrow> 'r option" where
  "handle_raw_models cat = c_raw_models cat"

section \<open>Refreshing the profile\<close>

text \<open>The task a handler leaves behind takes the lock of the token manager up to four times; what other requests do in
  between is anything.  The steps are separate definitions; \<open>usage_check\<close> runs them in a row.\<close>

type_synonym 'p profile = "'p option \<times> 'p option \<times> 'p user_profile option"  \<comment> \<open>usage, subscription, user\<close>

definition check_find :: "token_key \<Rightarrow> 'p token_manager \<Rightarrow> nat option" where
  "check_find k m = id_map m k"

definition check_alias :: "nat \<Rightarrow> 'p token_manager \<Rightarrow> bool ub" where
  "check_alias i m = do { al \<leftarrow> slice_get (id_to_alias m) i; al \<leftarrow> al; Some (is_unnamed al) }"

definition check_store :: "nat \<Rightarrow> bool \<Rightarrow> 'p profile \<Rightarrow> 'p token_manager \<Rightarrow> (bytes option \<times> 'p token_manager) ub" where
  "check_store i unnamed p m =
     (case p of (us, st, u) \<Rightarrow> do {
        m \<leftarrow> info_update i (\<lambda>t. t\<lparr>user := u, usage := us, stripe := st\<rparr>) m;
        Some (if unnamed then Option.bind u user_alias else None, m)
      })"

definition check_rename :: "nat \<Rightarrow> bytes option \<Rightarrow> 'p token_manager \<Rightarrow> 'p token_manager ub" where
  "check_rename i al m =
     (case al of None \<Rightarrow> Some m | Some n \<Rightarrow> do { (_, m) \<leftarrow> manager_set_alias i n m; Some m })"

definition usage_check ::
  "('p, 'f) log_env \<Rightarrow> u64 \<times> token_key \<Rightarrow> 'p profile \<Rightarrow> ('p, 'f) server \<Rightarrow> ('p, 'f) server ub" where
  "usage_check e task p s =
     (case (task, p) of ((i, k), (us, st, u)) \<Rightarrow> do {
        s \<leftarrow> tell e (UpdateLog i (TokenProfile u us st)) s;
        (case check_find k (sv_manager s) of
           None \<Rightarrow> Some s
         | Some n \<Rightarrow> do {
             unnamed \<leftarrow> check_alias n (sv_manager s);
             (al, m) \<leftarrow> check_store n unnamed p (sv_manager s);
             m \<leftarrow> check_rename n al m;
             Some (s\<lparr>sv_manager := m\<rparr>)
           })
      })"

section \<open>What a response reports\<close>

definition is_failure :: "('p, 'f) log_update \<Rightarrow> bool" where
  "is_failure u = (case u of UpdFailure _ \<Rightarrow> True | Failure2 _ _ \<Rightarrow> True | _ \<Rightarrow> False)"

definition quiet :: "u64 \<Rightarrow> ('p, 'f) effect list \<Rightarrow> bool" where
  "quiet i fx \<longleftrightarrow> (\<exists>ups. fx = map (UpdLog i) ups \<and> list_all (\<lambda>u. \<not> is_failure u \<and> u \<noteq> UpdSuccess) ups)"

text \<open>The error counter goes with a failure in the log; neither comes with an answer, and every error comes with both but those
  of a body that cannot be read.\<close>

definition reports :: "('x \<Rightarrow> bool) \<Rightarrow> u64 \<Rightarrow> 'x + 'a \<Rightarrow> ('p, 'f) effect list \<Rightarrow> bool" where
  "reports unread i r fx \<longleftrightarrow>
     quiet i fx \<and> (\<forall>x. r = Inl x \<longrightarrow> unread x) \<or> (isl r \<and> (\<exists>u. is_failure u \<and> fx = [UpdLog i u, IncrementError]))"

lemma quiet_simps [simp]:
  "quiet i []"
  "quiet i (UpdLog j u # fx) \<longleftrightarrow> j = i \<and> \<not> is_failure u \<and> u \<noteq> UpdSuccess \<and> quiet i fx"
  "\<not> quiet i (IncrementError # fx)"
  by (auto simp: quiet_def Cons_eq_map_conv)

lemma quiet_append [simp]: "quiet i (a @ b) \<longleftrightarrow> quiet i a \<and> quiet i b"
  by (fastforce simp: quiet_def append_eq_map_conv)

lemma is_failure_simps [simp]:
  "is_failure (UpdFailure x)" "is_failure (Failure2 x t)" "\<not> is_failure (Timing t)" "\<not> is_failure (Delays d th)"
  "\<not> is_failure (UpdUsage u)" "\<not> is_failure (TimingChain t c)" "\<not> is_failure UpdSuccess" "\<not> is_failure (TokenProfile a b c')"
  by (simp_all add: is_failure_def)

lemma then_loop_keeps:
  assumes "then_loop e b proc fail finished items d s = Some (out, d', s', blocked)" "P s"
    and "\<And>ms s. P s \<Longrightarrow> P (snd (proc ms s))" "\<And>x s. P s \<Longrightarrow> P (snd (fail x s))"
  shows "P s'"
  using assms(1,2)
proof (induction items arbitrary: d s out)
  case (Cons i items)
  have item: "P s1" if it: "then_item e b proc fail finished i d s = Some (o1, d1, s1, f)" for o1 d1 s1 f
  proof -
    have first: "P (snd (proc ms (snd (case first of None \<Rightarrow> ([], s) | Some ms \<Rightarrow> proc ms s))))" for ms first
      using assms(3) Cons.prems(2) by (cases first) simp_all
    show ?thesis
    proof (cases i)
      case (Chunk data)
      then obtain r d2 where r: "chat_decode e data b d = Some (r, d2)"
        using it by (auto simp: then_item_def bind_eq_Some_conv)
      show ?thesis
      proof (cases r)
        case (Inl x)
        then show ?thesis
          using it Chunk r Cons.prems(2) assms(4) [OF Cons.prems(2)]
          by (cases x) (auto simp: then_item_def Let_def split: prod.splits, metis snd_conv)
      next
        case (Inr ms)
        then show ?thesis
          using it Chunk r first [of ms "fst (take_first_result d2)"]
          by (auto simp: then_item_def Let_def split: prod.splits)
      qed
    qed (use it Cons.prems(2) in \<open>simp add: then_item_def\<close>)
  qed
  obtain o1 d1 s1 f where it: "then_item e b proc fail finished i d s = Some (o1, d1, s1, f)"
    using Cons.prems(1) by (auto simp: bind_eq_Some_conv)
  with Cons.prems(1) item [OF it] show ?case
    by (cases f) (auto simp: bind_eq_Some_conv intro: Cons.IH)
qed simp

lemma stream_body_keeps:
  assumes "stream_body e b proc fail finished items s = Some (r, d, s', blocked)" "P s"
    and "\<And>ms s. P s \<Longrightarrow> P (snd (proc ms s))" "\<And>x s. P s \<Longrightarrow> P (snd (fail x s))"
  shows "P s' \<and> (isl r \<longrightarrow> s' = s)"
proof -
  obtain q d1 where q: "first_phase e b items (chat_decoder_new e) = Some (q, d1)"
    using assms(1) by (auto simp: stream_body_def bind_eq_Some_conv)
  with assms(1,2) show ?thesis
    by (cases q) (auto simp: stream_body_def bind_eq_Some_conv intro: then_loop_keeps [OF _ _ assms(3,4)])
qed

lemma openai_quiet: "quiet (oc_current_id c) (effects s) \<Longrightarrow> quiet (oc_current_id c) (effects (snd (openai_process c ms s)))"
  by (induction c ms s rule: openai_process.induct) (auto simp: Let_def split: prod.splits)

lemma begin_effects [simp]:
  "a_effects (snd (begin_block c k bl s)) = a_effects s" "a_effects (snd (begin_tool t s)) = a_effects s"
  by (auto simp: begin_block_def begin_tool_def close_block_def Let_def split: prod.splits)

lemma anthropic_quiet:
  "quiet (ac_current_id c) (a_effects s) \<Longrightarrow> quiet (ac_current_id c) (a_effects (snd (anthropic_process c ms s)))"
proof (induction ms arbitrary: s)
  case (Cons m ms)
  then show ?case by (cases m) (simp_all add: Let_def split_def)
qed simp

lemma openai_stream_reports:
  fixes s :: "('p, 'f) openai_state"
  assumes "openai_stream e b c info error_json to_json real got items = Some (r, s)"
  shows "reports (\<lambda>x. x = ReadError) (oc_current_id c) r (effects s)"
proof -
  obtain q d s1 blocked where q: "stream_body e b (openai_process c) (openai_fail c error_json) is_end items openai_start =
      Some (q, d, s1 :: ('p, 'f) openai_state, blocked)"
    using assms by (auto simp: openai_stream_def bind_eq_Some_conv)
  have "quiet (oc_current_id c) (effects s1) \<and> (isl q \<longrightarrow> s1 = openai_start)"
    by (rule stream_body_keeps [OF q, where P = "\<lambda>s. quiet (oc_current_id c) (effects s)"])
      (simp_all add: openai_start_def openai_fail_def openai_quiet del: openai_process.simps)
  then show ?thesis
    using assms q
    by (cases q)
      (auto simp: openai_stream_def openai_start_failed_def openai_last_def openai_start_def reports_def Let_def
        split: start_error.splits if_splits prod.splits option.splits)
qed

lemma anthropic_stream_reports:
  fixes s :: "('p, 'f) anthropic_state" and to_json :: "('j, 'x) RawMessageStreamEvent \<Rightarrow> bytes"
  assumes "anthropic_stream e b c info error_of to_json real got items = Some (r, s)"
  shows "reports (\<lambda>x. x = ReadError) (ac_current_id c) r (a_effects s)"
proof -
  obtain q d s1 blocked where q: "stream_body e b (anthropic_process c) (anthropic_fail error_of) anthropic_finished items anthropic_start =
      Some (q :: _ + ('j, 'x) RawMessageStreamEvent list, d, s1 :: ('p, 'f) anthropic_state, blocked)"
    using assms by (auto simp: anthropic_stream_def bind_eq_Some_conv)
  have "quiet (ac_current_id c) (a_effects s1) \<and> (isl q \<longrightarrow> s1 = anthropic_start)"
    by (rule stream_body_keeps [OF q, where P = "\<lambda>s. quiet (ac_current_id c) (a_effects s)"])
      (simp_all add: anthropic_start_def anthropic_fail_def anthropic_quiet del: anthropic_process.simps)
  then show ?thesis
    using assms q
    by (cases q)
      (auto simp: anthropic_stream_def anthropic_start_failed_def anthropic_last_def anthropic_start_def reports_def Let_def
        split: start_error.splits if_splits prod.splits option.splits)
qed

lemma answer_loop_error: "answer_loop e b items d f t = Some (Inl x, d') \<Longrightarrow> x \<noteq> AnswerEmpty"
proof (induction items arbitrary: d f t)
  case (Cons i items)
  show ?case
  proof (cases i)
    case (Chunk data)
    then obtain r d2 where r: "chat_decode e data b d = Some (r, d2)"
      using Cons.prems by (auto simp: bind_eq_Some_conv)
    show ?thesis
    proof (cases r)
      case (Inl y)
      then show ?thesis using Cons.prems Cons.IH [of d2 f t] Chunk r by (cases y) auto
    next
      case (Inr ms)
      then show ?thesis using Cons.prems Cons.IH [of d2] Chunk r by (auto split: prod.splits)
    qed
  qed (use Cons.prems in simp)
qed simp

lemma openai_answer_reports:
  assumes "openai_answer e b c info real got items = Some (r, fx)"
  shows "reports (\<lambda>x. x = AnswerRead) (oc_current_id c) r fx"
proof -
  obtain q d where "answer_loop e b items (no_first_cache (chat_decoder_new e)) [] [] = Some (q, d)"
    using assms by (auto simp: openai_answer_def bind_eq_Some_conv)
  with assms show ?thesis
    by (cases q) (auto simp: openai_answer_def reports_def Let_def dest: answer_loop_error split: answer_error.splits if_splits prod.splits)
qed

lemma anthropic_answer_reports:
  fixes parse :: "bytes \<Rightarrow> (bytes \<times> 'j) list option"
  assumes "anthropic_answer e b c info parse real got items = Some (r, fx)"
  shows "reports (\<lambda>x. x = MessageRead) (ac_current_id c) r fx"
proof -
  obtain q :: "_ + 'j ContentBlock list" and d where "message_loop e b parse items (no_first_cache (chat_decoder_new e)) [] = Some (q, d)"
    using assms by (auto simp: anthropic_answer_def bind_eq_Some_conv)
  with assms show ?thesis
    by (cases q) (auto simp: anthropic_answer_def reports_def Let_def split: message_error.splits prod.splits)
qed

section \<open>The entry of the log\<close>

lemma apply_update_keeps [simp]:
  "log_id (apply_update e u l) = log_id l" "log_model (apply_update e u l) = log_model l"
  "log_stream (apply_update e u l) = log_stream l" "timestamp (apply_update e u l) = timestamp l"
  by (cases u; simp add: apply_update_def)+

lemma apply_update_status:
  "log_status (apply_update e u l) = (if is_failure u then LogFailure else if u = UpdSuccess then LogSuccess else log_status l)"
  by (cases u) (simp_all add: apply_update_def)

text \<open>A request has its entry in the log, as the last one; nothing else of the state has changed but the counters.\<close>

definition opened ::
  "nat \<Rightarrow> ext_token \<Rightarrow> ext_model \<Rightarrow> bool \<Rightarrow> int \<Rightarrow> ('p, 'f) server \<Rightarrow> ('p, 'f) server \<Rightarrow> ('p, 'f) request_log \<Rightarrow> bool" where
  "opened lim tok model stream time s0 s l \<longleftrightarrow>
     sv_total s = sv_total s0 + 1 \<and> sv_manager s = sv_manager s0 \<and> log_inv lim (sv_log s) \<and>
     logs (sv_log s) = drop (Suc (length (logs (sv_log s0))) - lim) (logs (sv_log s0)) @ [l] \<and>
     log_id l = next_log_id (sv_log s0) \<and> log_key l = key_of_token (primary_token tok) \<and> log_model l = em_id model \<and>
     log_stream l = stream \<and> timestamp l = time"

text \<open>It ends as a success or a failure; the counter of errors counts the failures, an answer is a success, and an error is a failure
  unless it is excused.\<close>

definition settled ::
  "nat \<Rightarrow> ext_token \<Rightarrow> ext_model \<Rightarrow> bool \<Rightarrow> int \<Rightarrow> ('p, 'f) server \<Rightarrow> bool \<Rightarrow> bool \<Rightarrow> ('p, 'f) server \<Rightarrow> bool" where
  "settled lim tok model stream time s0 answered excused s \<longleftrightarrow>
     (\<exists>l. opened lim tok model stream time s0 s l \<and> sv_active s = sv_active s0 \<and> log_status l \<in> {LogSuccess, LogFailure} \<and>
       sv_error s = sv_error s0 + (if log_status l = LogFailure then 1 else 0) \<and> (answered \<longrightarrow> log_status l = LogSuccess) \<and>
       (\<not> answered \<and> \<not> excused \<longrightarrow> log_status l = LogFailure))"

lemma tell_update: "tell e (UpdateLog i u) s = Some (s\<lparr>sv_log := update_log e i u (sv_log s)\<rparr>)"
  by (simp add: tell_def)

lemma update_opened:
  assumes "opened lim tok model stream time s0 s l" "i = next_log_id (sv_log s0)"
  shows "opened lim tok model stream time s0 (s\<lparr>sv_log := update_log e i u (sv_log s)\<rparr>) (apply_update e u l)"
  using assms update_log_inv [of lim "sv_log s" e i u]
  by (auto simp: opened_def update_log_def)

lemma opened_counters [simp]:
  "opened lim tok model stream time s0 (increment_error s) l \<longleftrightarrow> opened lim tok model stream time s0 s l"
  "opened lim tok model stream time s0 (decrement_active s) l \<longleftrightarrow> opened lim tok model stream time s0 s l"
  by (simp_all add: opened_def increment_error_def decrement_active_def)

lemma begin_log_opened:
  assumes inv: "log_inv lim (sv_log s0)" and lim: "lim = get_limit (env_limit e)" "should_log (env_limit e)" "0 < lim"
    and s: "sv_log s = sv_log s0" "sv_total s = sv_total s0 + 1" "sv_manager s = sv_manager s0"
    and u: "\<And>x. kc_usage_check_models kc = Some x \<Longrightarrow> \<exists>y. usage_from_proto cat x = Some y"
  shows "\<exists>check s'. begin_log e zero a cat time model stream tok kc s = Some (next_log_id (sv_log s0), check, s') \<and>
    opened lim tok model stream time s0 s' (pending_log zero (next_log_id (sv_log s0)) time model stream tok) \<and>
    sv_active s' = sv_active s \<and> sv_error s' = sv_error s"
proof -
  let ?l = "pending_log zero (next_log_id (sv_log s0)) time model stream tok"
  obtain m where m: "add_log e ?l (ext_clone tok) (sv_log s0) = Some m"
    "logs m = drop (Suc (length (logs (sv_log s0))) - lim) (logs (sv_log s0)) @ [?l]" "counts_ok m"
    using add_log_ok [of e ?l "ext_clone tok" "sv_log s0"] lim inv by (auto simp: log_inv_def)
  have "log_inv lim m" using m lim inv by (auto simp: log_inv_def)
  then have "opened lim tok model stream time s0 (s\<lparr>sv_log := m\<rparr>) ?l"
    using m(2) s by (simp add: opened_def pending_log_def log_key_def)
  moreover obtain y where "(case kc_usage_check_models kc of None \<Rightarrow> Some None | Some x \<Rightarrow> map_option Some (usage_from_proto cat x)) = Some y"
    using u by (cases "kc_usage_check_models kc") auto
  ultimately show ?thesis using m(1) lim(2) s(1) by (simp add: begin_log_def tell_def answer_def)
qed

lemma forward_settled:
  assumes o: "opened lim tok model stream time s0 s l" and c: "sv_active s = sv_active s0 + 1" "sv_error s = sv_error s0"
    and i: "i = next_log_id (sv_log s0)"
  shows "\<exists>r s'. forward e send hex_data i s = Some (r, s') \<and> settled lim tok model stream time s0 (\<not> isl r) False s'"
proof -
  note up = update_opened [OF o i, of e]
  have fail: "settled lim tok model stream time s0 False False (increment_error (decrement_active (s\<lparr>sv_log := update_log e i u (sv_log s)\<rparr>)))"
    if "is_failure u" for u
    using up [of u] c that
    by (auto simp: settled_def increment_error_def [abs_def] decrement_active_def [abs_def] apply_update_status opened_def
        intro!: exI [of _ "apply_update e u l"])
  have ok: "settled lim tok model stream time s0 True False (decrement_active (s\<lparr>sv_log := update_log e i UpdSuccess (sv_log s)\<rparr>))"
    using up [of UpdSuccess] c
    by (auto simp: settled_def decrement_active_def [abs_def] apply_update_status opened_def intro!: exI [of _ "apply_update e UpdSuccess l"])
  show ?thesis
    by (auto simp: forward_def tell_update fail ok split: sum.split)
qed

lemma run_quiet:
  assumes "quiet i fx" "opened lim tok model stream time s0 s l" "i = next_log_id (sv_log s0)"
  shows "\<exists>s' l'. run_effects e fx s = Some s' \<and> opened lim tok model stream time s0 s' l' \<and> log_status l' = log_status l \<and>
    sv_active s' = sv_active s \<and> sv_error s' = sv_error s"
  using assms
proof (induction e fx s arbitrary: l rule: run_effects.induct)
  case (2 e j u fx s)
  from 2(1) [OF tell_update, of "apply_update e u l"] update_opened [OF 2(3) 2(4), of e u] 2(2,4) show ?case
    by (auto simp: tell_update apply_update_status)
qed auto

lemma run_settled:
  assumes r: "reports (\<lambda>x. x = unread) i r fx" and st: "settled lim tok model stream time s0 True False s" and i: "i = next_log_id (sv_log s0)"
  shows "\<exists>s'. run_effects e fx s = Some s' \<and> settled lim tok model stream time s0 (\<not> isl r) (r = Inl unread) s'"
proof -
  obtain l where l: "opened lim tok model stream time s0 s l" "sv_active s = sv_active s0" "log_status l = LogSuccess" "sv_error s = sv_error s0"
    using st by (auto simp: settled_def)
  from r consider "quiet i fx" "\<forall>x. r = Inl x \<longrightarrow> x = unread" | u where "isl r" "is_failure u" "fx = [UpdLog i u, IncrementError]" by (auto simp: reports_def)
  then show ?thesis
  proof cases
    case 1
    from run_quiet [OF 1(1) l(1) i, of e] obtain s' l' where "run_effects e fx s = Some s'" "opened lim tok model stream time s0 s' l'"
      "log_status l' = LogSuccess" "sv_active s' = sv_active s0" "sv_error s' = sv_error s0"
      using l by metis
    then show ?thesis using 1(2) by (cases r) (auto simp: settled_def intro!: exI [of _ l'])
  next
    case 2
    then show ?thesis
      using update_opened [OF l(1) i, of e u] l
      by (auto simp: tell_update settled_def increment_error_def [abs_def] apply_update_status opened_def
          intro!: exI [of _ "apply_update e u l"])
  qed
qed

section \<open>Handlers and their responses\<close>

text \<open>What the shared part needs of a response: it tells the log and the counters what it tells the client, except that the
  body could not be read.\<close>

locale responder =
  fixes respond :: "u64 \<Rightarrow> ext_model \<Rightarrow> bool \<Rightarrow> item list \<Rightarrow> ((nat \<times> 'x + 'a reply) \<times> ('p, 'f) effect list) ub"
    and unread :: "nat \<times> 'x"
  assumes respond_reports: "respond i model web items = Some (r, fx) \<Longrightarrow> reports (\<lambda>x. x = unread) i r fx"
begin

lemma handler_settled:
  assumes x: "admit bypass cat model_name no_messages x = Some (Inr (tok, use_pri, model, kc, info))" "ex_request_time x = Some time"
    and kc: "kc_disable_vision kc = Some dv" "kc_enable_slow_pool kc = Some sp" "kc_include_web_references kc = Some web"
    and inv: "log_inv lim (sv_log s)" and lim: "lim = get_limit (env_limit e)" "should_log (env_limit e)" "0 < lim"
    and u: "\<And>x. kc_usage_check_models kc = Some x \<Longrightarrow> \<exists>y. usage_from_proto cat x = Some y"
    and c: "\<exists>r. create model info dv sp = Some r"
    and d: "\<And>data items. send tok use_pri data = Inr items \<Longrightarrow> respond (next_log_id (sv_log s)) model web items \<noteq> None"
  shows "\<exists>r task s'. chat_handler e zero a bypass cat create send refuse respond model_name no_messages stream x s = Some (r, task, s') \<and>
    settled lim tok model stream time s (\<not> isl r) (r = Inl unread) s'"
proof -
  let ?i = "next_log_id (sv_log s)" and ?s = "increment_active (increment_total s)"
  have s: "sv_log ?s = sv_log s" "sv_total ?s = sv_total s + 1" "sv_manager ?s = sv_manager s" "sv_active ?s = sv_active s + 1" "sv_error ?s = sv_error s"
    by (simp_all add: increment_active_def increment_total_def)
  obtain check s1 where b: "begin_log e zero a cat time model stream tok kc ?s = Some (?i, check, s1)"
    "opened lim tok model stream time s s1 (pending_log zero ?i time model stream tok)" "sv_active s1 = sv_active s + 1" "sv_error s1 = sv_error s"
    using begin_log_opened [OF inv lim s(1-3) u, where zero = zero and a = a and time = time and model = model and stream = stream and tok = tok]
    unfolding s(4,5) by blast
  obtain hex where hex: "create model info dv sp = Some hex" using c by blast
  obtain r s2 where f: "forward e (send tok use_pri) hex ?i s1 = Some (r, s2)" "settled lim tok model stream time s (\<not> isl r) False s2"
    using forward_settled [OF b(2-4) refl] by blast
  show ?thesis
  proof (cases r)
    case (Inl err)
    then have "settled lim tok model stream time s False (Inl (refuse err) = (Inl unread :: _ + 'a reply)) s2"
      using f(2) by (auto simp: settled_def)
    then show ?thesis using Inl x kc b(1) hex f by (simp add: chat_handler_def open_request_def)
  next
    case (Inr items)
    then have "\<exists>data. send tok use_pri data = Inr items" using f(1) by (auto simp: forward_def tell_update split: sum.splits)
    then obtain q fx where q: "respond ?i model web items = Some (q, fx)" using d by fastforce
    obtain s3 where "run_effects e fx s2 = Some s3" "settled lim tok model stream time s (\<not> isl q) (q = Inl unread) s3"
      using run_settled [OF respond_reports [OF q] _ refl] f(2) Inr by (metis sum.disc(2))
    then show ?thesis using x kc b(1) hex f(1) q Inr by (simp add: chat_handler_def open_request_def finish_def)
  qed
qed

end

lemma replies_agree:
  "openai_stream_reply v r1 = Some q1 \<Longrightarrow> isl q1 = isl r1 \<and> (r1 = Inl ReadError \<longrightarrow> q1 = Inl (to_openai (read_failed v)))"
  "openai_answer_reply v r2 = Some q2 \<Longrightarrow> isl q2 = isl r2 \<and> (r2 = Inl AnswerRead \<longrightarrow> q2 = Inl (to_openai (read_failed v)))"
  "anthropic_stream_reply v r3 = Some q3 \<Longrightarrow> isl q3 = isl r3 \<and> (r3 = Inl ReadError \<longrightarrow> q3 = Inl (to_anthropic (read_failed v)))"
  "anthropic_answer_reply v r4 = Some q4 \<Longrightarrow> isl q4 = isl r4 \<and> (r4 = Inl MessageRead \<longrightarrow> q4 = Inl (to_anthropic (read_failed v)))"
  by (auto simp: openai_stream_reply_def openai_answer_reply_def anthropic_stream_reply_def anthropic_answer_reply_def
      split: sum.splits start_error.splits answer_error.splits message_error.splits)

lemma reports_cong:
  "reports (\<lambda>x. x = a) i r fx \<Longrightarrow> isl q = isl r \<and> (r = Inl a \<longrightarrow> q = Inl b) \<Longrightarrow> reports (\<lambda>x. x = b) i q fx"
  by (cases r; cases q) (auto simp: reports_def)

interpretation openai_reply: responder "openai_respond v error_json to_json msg_id stream include_usage" "to_openai (read_failed v)"
  by unfold_locales
    (auto simp: openai_respond_def bind_eq_Some_conv Let_def split: if_splits
      dest!: openai_stream_reports openai_answer_reports replies_agree elim!: reports_cong)

interpretation anthropic_reply: responder "anthropic_respond v to_json parse msg_id stream" "to_anthropic (read_failed v)"
  by unfold_locales
    (auto simp: anthropic_respond_def bind_eq_Some_conv Let_def split: if_splits
      dest!: anthropic_stream_reports anthropic_answer_reports replies_agree elim!: reports_cong)

section \<open>When the handlers are defined\<close>

lemma find_models_defined:
  assumes "catalogue_ok src cat"
  shows "\<exists>ms. find_models cat xs = Some ms"
proof (induction xs)
  case (Cons x xs)
  then show ?case using find_id_ok [OF assms, of x] by auto
qed simp

lemma usage_from_proto_defined: "catalogue_ok src cat \<Longrightarrow> \<exists>y. usage_from_proto cat x = Some y"
  using find_models_defined [of src cat "uc_model_ids x"] by (auto simp: usage_from_proto_def split: UsageCheckModelType.splits)

lemma openai_create_defined:
  assumes "instructions_get (default_ins e) (time_now e) = Some d" and "\<forall>m. enc_len m = length (encode_raw m)"
  shows "\<exists>r. openai_create_params e enc_len encode_raw gzip ins model msg_id info dv sp = Some r"
proof -
  obtain r where "process_chat_inputs e (\<not> dv \<and> em_is_image model) ins = Some r"
    using process_chat_inputs_spec [OF assms(1)] by blast
  then show ?thesis
    using encode_message_framed_eq [of enc_len _ encode_raw gzip] assms(2)
    by (cases r) (auto simp: openai_create_params_def explicit_context_fields)
qed

lemma anthropic_create_defined:
  assumes "instructions_get (default_ins e) (time_now e) = Some d" "\<forall>m \<in> set params. mp_role m \<noteq> System" "params \<noteq> []"
    and "\<forall>m. enc_len m = length (encode_raw m)"
  shows "\<exists>r. anthropic_create_params e to_json enc_len encode_raw gzip params system tools model msg_id info dv sp = Some r"
proof -
  obtain r where "process_message_params e to_json (\<not> dv \<and> em_is_image model) (tools \<noteq> [])
      (if tools \<noteq> [] then [ClientSideToolV2_Mcp] else []) system params = Some r"
    using process_message_params_spec [OF assms(1-3)] by blast
  then show ?thesis
    using encode_message_framed_eq [of enc_len _ encode_raw gzip] assms(4)
    by (cases r) (auto simp: anthropic_create_params_def explicit_context_fields Let_def)
qed

text \<open>What the middleware leaves in an accepted request, and settings a dynamic key can give it.\<close>

definition accepted :: "'d extensions \<Rightarrow> ext_token \<Rightarrow> bool \<Rightarrow> key_config \<Rightarrow> environment_info \<Rightarrow> 'd \<Rightarrow> bool" where
  "accepted x tok use_pri kc info time \<longleftrightarrow>
     ex_bundle x = Some (Inr (tok, use_pri)) \<and> ex_key_config x = Some kc \<and> ex_environment_info x = Some info \<and>
     ex_request_time x = Some time"

definition settings_complete :: "key_config \<Rightarrow> bool" where
  "settings_complete kc \<longleftrightarrow>
     kc_disable_vision kc \<noteq> None \<and> kc_enable_slow_pool kc \<noteq> None \<and> kc_include_web_references kc \<noteq> None"

definition logging :: "('p, 'f) log_env \<Rightarrow> nat \<Rightarrow> ('p, 'f) server \<Rightarrow> bool" where
  "logging e lim s \<longleftrightarrow> lim = get_limit (env_limit e) \<and> should_log (env_limit e) \<and> 0 < lim \<and> log_inv lim (sv_log s)"

text \<open>How a request ends: refused before it counts, or counted, logged and settled.\<close>

definition ends_well ::
  "bool \<Rightarrow> 'r catalogue \<Rightarrow> nat \<Rightarrow> (refusal \<Rightarrow> nat \<times> 'x) \<Rightarrow> nat \<times> 'x \<Rightarrow> bytes \<Rightarrow> bool \<Rightarrow> bool \<Rightarrow> ext_token \<Rightarrow> int
   \<Rightarrow> ('p, 'f) server \<Rightarrow> nat \<times> 'x + 'a reply \<Rightarrow> ('p, 'f) server \<Rightarrow> bool" where
  "ends_well bypass cat lim refuse unread model_name no_messages stream tok time s r s' \<longleftrightarrow>
     (case ext_model_from_str bypass model_name cat of
        Some (Some model) \<Rightarrow>
          if no_messages then r = Inl (refuse (chat_reply 400 EmptyMessages)) \<and> s' = s
          else settled lim tok model stream time s (\<not> isl r) (r = Inl unread) s'
      | _ \<Rightarrow> r = Inl (refuse (chat_reply 400 (ModelNotSupported model_name))) \<and> s' = s)"

context responder
begin

lemma handler_ends_well:
  assumes x: "accepted x tok use_pri kc info time" and kc: "settings_complete kc" and cat: "catalogue_ok src cat" and e: "logging e lim s"
    and c: "\<And>model dv sp. \<not> no_messages \<Longrightarrow> \<exists>r. create model info dv sp = Some r"
    and d: "\<And>data items model. send tok use_pri data = Inr items \<Longrightarrow>
      respond (next_log_id (sv_log s)) model (the (kc_include_web_references kc)) items \<noteq> None"
  shows "\<exists>r task s'. chat_handler e zero a bypass cat create send refuse respond model_name no_messages stream x s = Some (r, task, s') \<and>
    ends_well bypass cat lim refuse unread model_name no_messages stream tok time s r s'"
proof -
  obtain m where m: "ext_model_from_str bypass model_name cat = Some m" using resolve_ok [OF cat] by blast
  obtain dv sp web where kc': "kc_disable_vision kc = Some dv" "kc_enable_slow_pool kc = Some sp" "kc_include_web_references kc = Some web"
    using kc by (auto simp: settings_complete_def)
  show ?thesis
  proof (cases "no_messages \<or> m = None")
    case True
    with x m show ?thesis
      by (cases m) (auto simp: accepted_def ends_well_def chat_handler_def open_request_def admit_def)
  next
    case False
    then obtain model where model: "m = Some model" "\<not> no_messages" by auto
    have "admit bypass cat model_name no_messages x = Some (Inr (tok, use_pri, model, kc, info))" "ex_request_time x = Some time"
      using x m model by (auto simp: accepted_def admit_def)
    from handler_settled [OF this kc', where lim = lim and e = e and s = s and create = create and send = send and zero = zero
        and a = a and refuse = refuse and stream = stream]
    show ?thesis
      using e c [OF model(2)] d kc'(3) usage_from_proto_defined [OF cat] m model
      by (simp add: logging_def ends_well_def) blast
  qed
qed

end

section \<open>Properties\<close>



definition sample_server :: "(unit, nat) server" where
  "sample_server = \<lparr>sv_manager = sample_manager, sv_total = 0, sv_active = 0, sv_error = 0, sv_log = log_manager_new\<rparr>"

definition sample_settings :: key_config where
  "sample_settings = \<lparr>kc_usage_check_models = None, kc_disable_vision = Some True, kc_enable_slow_pool = Some False,
     kc_include_web_references = Some False\<rparr>"

definition sample_extensions :: "int extensions" where
  "sample_extensions =
     \<lparr>ex_bundle = Some (Inr (ext_bundle (sample_info 1 True), True)), ex_key_config = Some sample_settings, ex_request_time = Some 5,
      ex_environment_info = Some \<lparr>ei_exthost_platform = None, ei_exthost_arch = None, ei_local_timestamp = [], ei_cursor_version = []\<rparr>\<rparr>"

definition sample_reply_env :: "(nat, nat) reply_env" where
  "sample_reply_env =
     \<lparr>re_dec = \<lparr>gunzip = (\<lambda>_. None), decode_wrapper = (\<lambda>_. None), cursor_error = (\<lambda>_. None), now = id, secs_between = (-)\<rparr>,
      re_created = 0, re_elapsed = 1, re_real_usage = False, re_usage = None, re_chunk_error = [], re_details_json = (\<lambda>_. []),
      re_coded_json = (\<lambda>_. []), re_tag_open = [], re_tag_close = []\<rparr>"

lemma message_id_defined: "\<exists>t. message_id_to_str v = Some t"
  by (simp add: message_id_to_str_def encode_fixed_eq BASE62_LEN_def)

lemma small_model_a: "ext_model_from_str False (bytes_of ''a'') small_catalogue =
    Some (Some \<lparr>em_id = bytes_of ''a'', em_is_image = False, em_is_thinking = False, em_web = False, em_max = False\<rparr>)"
  by code_simp

lemma sample_accepted:
  "accepted sample_extensions (ext_bundle (sample_info 1 True)) True sample_settings
     \<lparr>ei_exthost_platform = None, ei_exthost_arch = None, ei_local_timestamp = [], ei_cursor_version = []\<rparr> 5"
  "settings_complete sample_settings" "logging sample_log_env 2 sample_server" "catalogue_ok SourceId small_catalogue"
proof -
  have "log_inv 2 (log_manager_new :: (unit, nat) log_manager)" by (simp add: log_inv_def counts_ok_new) (simp add: log_manager_new_def)
  then show "logging sample_log_env 2 sample_server"
    by (simp add: logging_def sample_log_env_def sample_server_def limit_from_usize_def get_limit_def should_log_def)
qed (simp_all add: accepted_def sample_extensions_def settings_complete_def sample_settings_def catalogue_ok_def small_catalogue_def)



text \<open>The alias a slot has after its profile was refreshed: a slot without a name of its own takes the one in the profile (the address,
  else the first, else the last name), when no slot has it yet.\<close>

definition profile_name :: "'p user_profile option \<Rightarrow> bytes option" where
  "profile_name u = Option.bind u (\<lambda>u. case email u of Some a \<Rightarrow> Some a | None \<Rightarrow> (case first_name u of Some a \<Rightarrow> Some a | None \<Rightarrow> last_name u))"

definition alias_after :: "'p token_manager \<Rightarrow> nat \<Rightarrow> 'p user_profile option \<Rightarrow> bytes \<Rightarrow> bytes" where
  "alias_after m n u b =
     (case profile_name u of
        None \<Rightarrow> b
      | Some a \<Rightarrow>
          if take 8 b = bytes_of ''unnamed-'' \<and> (\<forall>j. slot (id_to_alias m) j \<noteq> Some (normalize_alias a n)) then normalize_alias a n else b)"

lemma profile_name_user_alias: "profile_name u = Option.bind u user_alias"
  by (cases u) (simp_all add: profile_name_def user_alias_def)

lemma is_unnamed_text: "is_unnamed b \<longleftrightarrow> take 8 b = bytes_of ''unnamed-''"
proof -
  have eight: "length (bytes_of ''unnamed-'') = 8" by simp
  show ?thesis unfolding is_unnamed_def starts_with_def UNNAMED_PATTERN_def eight ..
qed

lemma check_rename_ok:
  assumes inv: "manager_inv m" and t: "slot (tokens m) n \<noteq> None" and b: "slot (id_to_alias m) n = Some b"
  shows "\<exists>m'. check_rename n (if is_unnamed b then Option.bind u user_alias else None) m = Some m' \<and> manager_inv m' \<and> tokens m' = tokens m \<and>
    slot (id_to_alias m') = (slot (id_to_alias m))(n \<mapsto> alias_after m n u b)"
proof (cases "is_unnamed b \<and> profile_name u \<noteq> None")
  case False
  then have "alias_after m n u b = b"
    by (auto simp: alias_after_def is_unnamed_text split: option.split)
  moreover have "(slot (id_to_alias m))(n \<mapsto> b) = slot (id_to_alias m)" using b by auto
  ultimately show ?thesis using False inv by (auto simp: check_rename_def profile_name_user_alias)
next
  case True
  then obtain a where a: "profile_name u = Some a" "take 8 b = bytes_of ''unnamed-''"
    by (auto simp: is_unnamed_text)
  have free: "alias_map m x = None \<longleftrightarrow> (\<forall>j. slot (id_to_alias m) j \<noteq> Some x)" for x
    using manager_inv_lookup(1) [OF inv, of x] by (cases "alias_map m x") auto
  show ?thesis
  proof (cases "alias_map m (normalize_alias a n)")
    case None
    then show ?thesis
      using manager_set_alias_ok [OF inv t None] True a free [of "normalize_alias a n"]
      by (auto simp: check_rename_def alias_after_def profile_name_user_alias)
  next
    case (Some j)
    have "(slot (id_to_alias m))(n \<mapsto> b) = slot (id_to_alias m)" using b by auto
    then show ?thesis
      using manager_set_alias_taken [OF t, of a] Some True a free [of "normalize_alias a n"] inv
      by (auto simp: check_rename_def alias_after_def profile_name_user_alias)
  qed
qed

text \<open>C23: Refreshing the profile of a token is safe as long as nobody else works on the manager.  On a manager with its
  invariant the task is defined and keeps the invariants of the manager and the log; it puts the profile into the entry of the
  log and into the slot of the token, if the manager still has it, and changes no other slot.  The aliases of all other slots stay,
  and that of the token changes only when it has no name of its own, the profile gives one, and no slot has that name yet.\<close>

theorem usage_check_safe:
  assumes "manager_inv (sv_manager s)" "log_inv lim (sv_log s)"
  shows "\<exists>s'. usage_check e (i, k) (us, st, u) s = Some s' \<and> manager_inv (sv_manager s') \<and> log_inv lim (sv_log s') \<and>
    sv_total s' = sv_total s \<and> sv_active s' = sv_active s \<and> sv_error s' = sv_error s \<and>
    sv_log s' = update_log e i (TokenProfile u us st) (sv_log s) \<and>
    slot (tokens (sv_manager s')) =
      (case id_map (sv_manager s) k of
         None \<Rightarrow> slot (tokens (sv_manager s))
       | Some n \<Rightarrow> (slot (tokens (sv_manager s)))
           (n := map_option (\<lambda>t. t\<lparr>user := u, usage := us, stripe := st\<rparr>) (slot (tokens (sv_manager s)) n))) \<and>
    slot (id_to_alias (sv_manager s')) =
      (case id_map (sv_manager s) k of
         None \<Rightarrow> slot (id_to_alias (sv_manager s))
       | Some n \<Rightarrow> (slot (id_to_alias (sv_manager s)))
           (n := map_option (alias_after (sv_manager s) n u) (slot (id_to_alias (sv_manager s)) n)))"
proof (cases "id_map (sv_manager s) k")
  case None
  then show ?thesis using assms update_log_inv [OF assms(2)] by (simp add: usage_check_def tell_update check_find_def)
next
  case (Some n)
  let ?m = "sv_manager s" and ?f = "\<lambda>t. t\<lparr>user := u, usage := us, stripe := st\<rparr>"
  note look = manager_inv_lookup [OF assms(1)]
  obtain info where info: "slot (tokens ?m) n = Some info" using Some look(2) by (auto simp: key_at_def)
  then obtain al where al: "slot (id_to_alias ?m) n = Some al" using look(3) by (metis not_Some_eq)
  have "check_alias n ?m = Some (is_unnamed al)"
    using al by (auto simp: check_alias_def slice_get_def slot_def split: if_splits)
  moreover obtain m1 where m1: "info_update n ?f ?m = Some m1" "manager_inv m1" "slot (tokens m1) = (slot (tokens ?m))(n \<mapsto> ?f info)"
    "id_to_alias m1 = id_to_alias ?m"
    using info_update_ok [OF assms(1) info, of ?f] by (auto simp: info_key_def)
  moreover obtain m2 where "check_rename n (if is_unnamed al then Option.bind u user_alias else None) m1 = Some m2" "manager_inv m2" "tokens m2 = tokens m1"
    "slot (id_to_alias m2) = (slot (id_to_alias m1))(n \<mapsto> alias_after m1 n u al)"
    using check_rename_ok [OF m1(2), of n al u] m1(3,4) al by auto
  moreover have "alias_after m1 n u al = alias_after ?m n u al" unfolding alias_after_def m1(4) ..
  ultimately show ?thesis
    using Some info al update_log_inv [OF assms(2)] by (simp add: usage_check_def tell_update check_find_def check_store_def)
qed

text \<open>The second token has no name of its own: it takes the address of its profile, unless that is the name of the first.\<close>

theorem usage_check_safe_witness:
  "\<exists>s'. usage_check sample_log_env (1, \<lparr>user_id = UserId 7 0, randomness = 2\<rparr>)
       (Some (), None, Some \<lparr>email = Some (bytes_of ''z''), first_name = None, last_name = None, user_rest = ()\<rparr>) sample_server = Some s' \<and>
     manager_inv (sv_manager s') \<and> slot (id_to_alias (sv_manager s')) = (slot (id_to_alias sample_manager))(1 \<mapsto> bytes_of ''z'') \<and>
     (\<exists>s'. usage_check sample_log_env (1, \<lparr>user_id = UserId 7 0, randomness = 2\<rparr>)
       (Some (), None, Some \<lparr>email = Some (bytes_of ''a''), first_name = None, last_name = None, user_rest = ()\<rparr>) sample_server = Some s' \<and>
       slot (id_to_alias (sv_manager s')) = slot (id_to_alias sample_manager))"
proof -
  let ?u = "\<lambda>n. \<lparr>email = Some (bytes_of n), first_name = None, last_name = None, user_rest = ()\<rparr>"
  have m: "manager_inv (sv_manager sample_server)" "log_inv 2 (sv_log sample_server)" "sv_manager sample_server = sample_manager"
    using sample_accepted(3) by (simp_all add: logging_def sample_server_def sample_manager_inv)
  have k: "id_map sample_manager \<lparr>user_id = UserId 7 0, randomness = 2\<rparr> = Some 1"
    and b: "slot (id_to_alias sample_manager) 1 = Some (generate_unnamed_alias 1)" "slot (id_to_alias sample_manager) 0 = Some (bytes_of ''a'')"
    by (simp_all add: sample_manager_eq slot_def)
  have n: "normalize_alias (bytes_of ''z'') 1 = bytes_of ''z''" "normalize_alias (bytes_of ''a'') 1 = bytes_of ''a''"
    by (simp_all add: normalize_alias_text) (simp_all add: bytes_of_def)
  have "bytes_of ''z'' \<noteq> generate_unnamed_alias 1" "bytes_of ''z'' \<noteq> bytes_of ''a''" "bytes_of ''z'' \<noteq> bytes_of ''c''"
    by (simp_all add: generate_unnamed_alias_text) (simp_all add: bytes_of_def)
  then have free: "slot (id_to_alias sample_manager) j \<noteq> Some (bytes_of ''z'')" for j
    by (auto simp: sample_manager_eq slot_def nth_Cons split: nat.splits)
  have "take 8 (generate_unnamed_alias 1) = bytes_of ''unnamed-''"
    by (simp add: generate_unnamed_alias_text)
  then have "alias_after sample_manager 1 (Some (?u ''z'')) (generate_unnamed_alias 1) = bytes_of ''z''"
    "alias_after sample_manager 1 (Some (?u ''a'')) (generate_unnamed_alias 1) = generate_unnamed_alias 1"
    using n b(2) free by (auto simp: alias_after_def profile_name_def)
  moreover have "(slot (id_to_alias sample_manager))(1 \<mapsto> generate_unnamed_alias 1) = slot (id_to_alias sample_manager)" using b(1) by auto
  ultimately show ?thesis
    using usage_check_safe [OF m(1,2), of sample_log_env 1 "\<lparr>user_id = UserId 7 0, randomness = 2\<rparr>" "Some ()" None "Some (?u ''z'')"]
      usage_check_safe [OF m(1,2), of sample_log_env 1 "\<lparr>user_id = UserId 7 0, randomness = 2\<rparr>" "Some ()" None "Some (?u ''a'')"]
    unfolding m(3) k option.case b(1) option.map by metis
qed

section \<open>What goes wrong\<close>

text \<open>Between the steps of the task a request may remove the token; the next step then reads the slot unchecked.\<close>

theorem usage_check_race:
  assumes "manager_inv m" "check_find k m = Some n" "manager_remove n heads m = Some (removed, heads', m')"
  shows "check_alias n m' = None" "check_store n unnamed p m' = None"
proof -
  obtain info where info: "slot (tokens m) n = Some info"
    using assms(2) manager_inv_lookup(2) [OF assms(1)] by (auto simp: check_find_def key_at_def)
  have m': "slot (tokens m') n = None" "slot (id_to_alias m') n = None"
    using manager_remove_ok [OF assms(1) info, of heads] assms(3) manager_inv_lookup(3) [of m' n] by auto
  then show "check_alias n m' = None" "check_store n unnamed p m' = None"
    by (auto simp: check_alias_def check_store_def info_update_def slice_get_def slot_def split: if_splits prod.splits)
qed

text \<open>The settings of a request with a token of the manager are empty, so the handlers unwrap nothing: for every known model
  and every list of messages the chat handlers are undefined.\<close>

theorem manager_token_chat_undefined:
  assumes "v1_auth ue a t e lm m rfc3339 version api_key authorization h time st = Some (Inr x, st')"
    and "ex_bundle x = Some (Inr (tok, True))" "ext_model_from_str bypass name cat = Some (Some model)"
  shows "chat_handler e zero a bypass cat create send refuse respond name False stream x s = None"
proof -
  have "ex_key_config x = Some key_config_new" by (rule manager_token_settings_empty [OF assms(1,2)])
  then show ?thesis
    using assms(2,3)
    by (auto simp: chat_handler_def open_request_def admit_def key_config_new_def Let_def
        split: Option.bind_splits prod.splits)
qed

text \<open>A body that cannot be read: the client gets an error, the log keeps its success and the counter of errors does not move.\<close>

theorem unread_body_counts_as_success:
  "openai_respond v error_json to_json msg_id stream include_usage i model web [ChunkError] = Some (Inl (to_openai (read_failed v)), [])"
proof -
  obtain t where "message_id_to_str msg_id = Some t" using message_id_defined by blast
  then show ?thesis
    by (cases stream)
      (simp_all add: openai_respond_def openai_stream_def stream_body_def chat_decoder_new_def openai_start_failed_def openai_start_def
        openai_stream_reply_def openai_answer_def openai_answer_reply_def Let_def)
qed

end
