(* ===== verification/Proxy_Pool.thy ===== *)
theory Proxy_Pool
  imports Text_Util "HOL-Library.AList"
begin

text \<open>
  Named proxies and the HTTP clients behind them: \<^verbatim>\<open>src/app/model/proxy_pool.rs\<close> with its URLs, and the routes
  \<^verbatim>\<open>src/core/route/proxies.rs\<close>.  A hash table is an association list with distinct keys; which key its iteration yields first is
  a parameter.  Clients are values of a type \<open>'c\<close>; the client library is a parameter, and so is the archive file.
  \<open>None\<close> is an unchecked unwrap of nothing, or the panic of a client that cannot be built.
\<close>

section \<open>Proxies\<close>

datatype SingleProxy = NonProxy | SysProxy | UrlProxy bytes

definition NON_PROXY :: bytes where "NON_PROXY = bytes_of ''non''"

definition SYS_PROXY :: bytes where "SYS_PROXY = bytes_of ''sys''"

type_synonym proxy_map = "(bytes \<times> SingleProxy) list"

definition default_proxies :: proxy_map where
  "default_proxies = [(SYS_PROXY, SysProxy)]"

text \<open>\<^verbatim>\<open>reqwest\<close>: which URLs are proxies, and the clients it builds; \<open>pe_first\<close> is the first key of a table.\<close>

record ('x, 'c) client_env =
  pe_all :: "bytes \<Rightarrow> 'x option"
  pe_non :: "'c option"
  pe_sys :: "'c option"
  pe_url :: "'x \<Rightarrow> 'c option"
  pe_first :: "proxy_map \<Rightarrow> bytes"

definition proxy_url_from_str :: "('x, 'c) client_env \<Rightarrow> bytes \<Rightarrow> bytes option" where
  "proxy_url_from_str e s = (case pe_all e s of Some _ \<Rightarrow> Some s | None \<Rightarrow> None)"

text \<open>\<^verbatim>\<open>to_proxy\<close> unwraps unchecked.\<close>

definition to_proxy :: "('x, 'c) client_env \<Rightarrow> bytes \<Rightarrow> 'x ub" where
  "to_proxy e u = pe_all e u"

definition single_proxy_from_str :: "('x, 'c) client_env \<Rightarrow> bytes \<Rightarrow> SingleProxy option" where
  "single_proxy_from_str e s =
     (if s = NON_PROXY then Some NonProxy else if s = SYS_PROXY then Some SysProxy
      else map_option UrlProxy (proxy_url_from_str e s))"

definition single_proxy_display :: "SingleProxy \<Rightarrow> bytes" where
  "single_proxy_display p = (case p of NonProxy \<Rightarrow> NON_PROXY | SysProxy \<Rightarrow> SYS_PROXY | UrlProxy u \<Rightarrow> u)"

definition build_client :: "('x, 'c) client_env \<Rightarrow> SingleProxy \<Rightarrow> 'c ub" where
  "build_client e p =
     (case p of
        NonProxy \<Rightarrow> pe_non e
      | SysProxy \<Rightarrow> pe_sys e
      | UrlProxy u \<Rightarrow> do { x \<leftarrow> to_proxy e u; pe_url e x })"

definition insert_to :: "('x, 'c) client_env \<Rightarrow> SingleProxy \<Rightarrow> (SingleProxy \<times> 'c) list \<Rightarrow> (SingleProxy \<times> 'c) list ub" where
  "insert_to e p clients = do { c \<leftarrow> build_client e p; Some (AList.update p c clients) }"

section \<open>The pool\<close>

record 'c pool =
  px_proxies :: proxy_map
  px_general_name :: bytes
  px_clients :: "(SingleProxy \<times> 'c) list"
  px_general_client :: 'c

text \<open>The loops over the set of proxies that are in use: at the start, and for those that have no client.\<close>

fun insert_clients :: "('x, 'c) client_env \<Rightarrow> SingleProxy list \<Rightarrow> (SingleProxy \<times> 'c) list \<Rightarrow> (SingleProxy \<times> 'c) list ub" where
  "insert_clients e [] clients = Some clients"
| "insert_clients e (p # ps) clients = do { clients \<leftarrow> insert_to e p clients; insert_clients e ps clients }"

fun add_clients :: "('x, 'c) client_env \<Rightarrow> SingleProxy list \<Rightarrow> (SingleProxy \<times> 'c) list \<Rightarrow> (SingleProxy \<times> 'c) list ub" where
  "add_clients e [] clients = Some clients"
| "add_clients e (p # ps) clients =
     (if map_of clients p = None then do { clients \<leftarrow> insert_to e p clients; add_clients e ps clients }
      else add_clients e ps clients)"

definition proxies_init :: "('x, 'c) client_env \<Rightarrow> proxy_map \<Rightarrow> bytes \<Rightarrow> 'c pool ub" where
  "proxies_init e proxies general = do {
     let (proxies, general) =
       (if proxies = [] then (default_proxies, SYS_PROXY)
        else if map_of proxies general = None then (proxies, pe_first e proxies)
        else (proxies, general));
     clients \<leftarrow> insert_clients e (remdups (map snd proxies)) [];
     p \<leftarrow> map_of proxies general;
     c \<leftarrow> map_of clients p;
     Some \<lparr>px_proxies = proxies, px_general_name = general, px_clients = clients, px_general_client = c\<rparr>
   }"

definition update_global :: "proxy_map \<Rightarrow> bytes \<Rightarrow> 'c pool \<Rightarrow> 'c pool" where
  "update_global proxies general s = s\<lparr>px_proxies := proxies, px_general_name := general\<rparr>"

definition set_general :: "'c pool \<Rightarrow> 'c pool ub" where
  "set_general s = do {
     p \<leftarrow> map_of (px_proxies s) (px_general_name s);
     c \<leftarrow> map_of (px_clients s) p;
     Some (s\<lparr>px_general_client := c\<rparr>)
   }"

text \<open>\<open>proxies\<close> is the table that was loaded at the start: storing the default table does not change it.\<close>

definition update_global_pool :: "('x, 'c) client_env \<Rightarrow> 'c pool \<Rightarrow> 'c pool ub" where
  "update_global_pool e s = do {
     let proxies = px_proxies s;
     let (s, general_name) =
       (if proxies = [] then (s\<lparr>px_proxies := default_proxies\<rparr>, SYS_PROXY)
        else if map_of proxies (px_general_name s) = None then (s, pe_first e proxies)
        else (s, px_general_name s));
     let current_proxies = remdups (map snd proxies);
     let clients = filter (\<lambda>(p, _). List.member current_proxies p) (px_clients s);
     clients \<leftarrow> add_clients e current_proxies clients;
     set_general (s\<lparr>px_clients := clients, px_general_name := general_name\<rparr>)
   }"

definition get_general_client :: "'c pool \<Rightarrow> 'c" where
  "get_general_client s = px_general_client s"

definition get_client :: "bytes \<Rightarrow> 'c pool \<Rightarrow> 'c" where
  "get_client name s =
     (case Option.bind (map_of (px_proxies s) name) (map_of (px_clients s)) of
        Some c \<Rightarrow> c
      | None \<Rightarrow> get_general_client s)"

definition get_client_or_general :: "bytes option \<Rightarrow> 'c pool \<Rightarrow> 'c" where
  "get_client_or_general name s = (case name of Some n \<Rightarrow> get_client n s | None \<Rightarrow> get_general_client s)"

text \<open>\<open>store\<close> writes the archive of the table and the general name; it may fail.\<close>

definition update_and_save ::
  "('x, 'c) client_env \<Rightarrow> (proxy_map \<Rightarrow> bytes \<Rightarrow> 'w \<Rightarrow> bytes option \<times> 'w) \<Rightarrow> 'c pool \<Rightarrow> 'w \<Rightarrow> (bytes option \<times> 'c pool \<times> 'w) ub" where
  "update_and_save e store s w = do {
     s \<leftarrow> update_global_pool e s;
     let (r, w) = store (px_proxies s) (px_general_name s) w;
     Some (r, s, w)
   }"

section \<open>Routes\<close>

datatype DeleteResponseExpectation = ExpectSimple | ExpectUpdated | ExpectFailed | ExpectDetailed

definition needs_updated_tokens :: "DeleteResponseExpectation \<Rightarrow> bool" where
  "needs_updated_tokens x \<longleftrightarrow> x = ExpectUpdated \<or> x = ExpectDetailed"

definition needs_failed_tokens :: "DeleteResponseExpectation \<Rightarrow> bool" where
  "needs_failed_tokens x \<longleftrightarrow> x = ExpectFailed \<or> x = ExpectDetailed"

datatype proxy_request =
  GetProxies
  | SetProxies proxy_map bytes
  | AddProxies proxy_map
  | DeleteProxies "bytes list" DeleteResponseExpectation
  | SetGeneralProxy bytes

datatype proxy_reply =
  ProxyInfo "proxy_map option" nat "bytes option"
  | ProxiesAdded nat nat
  | ProxiesDeleted "proxy_map option" "bytes list option"
  | GeneralProxySet
  | SaveProxyFailed bytes
  | ProxyNameNotFound

definition saved :: "(bytes option \<times> 'c pool \<times> 'w) \<Rightarrow> ('c pool \<Rightarrow> proxy_reply) \<Rightarrow> proxy_reply \<times> 'c pool \<times> 'w" where
  "saved r reply = (case r of (err, s, w) \<Rightarrow> (case err of Some t \<Rightarrow> SaveProxyFailed t | None \<Rightarrow> reply s, s, w))"

definition handle_get_proxies :: "'c pool \<Rightarrow> proxy_reply" where
  "handle_get_proxies s = ProxyInfo (Some (px_proxies s)) (length (px_proxies s)) (Some (px_general_name s))"

definition handle_set_proxies ::
  "('x, 'c) client_env \<Rightarrow> (proxy_map \<Rightarrow> bytes \<Rightarrow> 'w \<Rightarrow> bytes option \<times> 'w) \<Rightarrow> proxy_map \<Rightarrow> bytes \<Rightarrow> 'c pool \<Rightarrow> 'w
   \<Rightarrow> (proxy_reply \<times> 'c pool \<times> 'w) ub" where
  "handle_set_proxies e store proxies general s w = do {
     r \<leftarrow> update_and_save e store (update_global proxies general s) w;
     Some (saved r (\<lambda>s. ProxyInfo None (length (px_proxies s)) None))
   }"

definition handle_add_proxy ::
  "('x, 'c) client_env \<Rightarrow> (proxy_map \<Rightarrow> bytes \<Rightarrow> 'w \<Rightarrow> bytes option \<times> 'w) \<Rightarrow> proxy_map \<Rightarrow> 'c pool \<Rightarrow> 'w
   \<Rightarrow> (proxy_reply \<times> 'c pool \<times> 'w) ub" where
  "handle_add_proxy e store request s w =
     (let current = px_proxies s;
          proxies = filter (\<lambda>(name, _). map_of current name = None) request
      in if proxies = [] then Some (ProxyInfo (Some current) (length current) None, s, w)
         else do {
           let current = fold (\<lambda>(name, p) m. AList.update name p m) proxies current;
           r \<leftarrow> update_and_save e store (s\<lparr>px_proxies := current\<rparr>) w;
           Some (saved r (\<lambda>s. ProxiesAdded (length proxies) (length (px_proxies s))))
         })"

definition handle_delete_proxies ::
  "('x, 'c) client_env \<Rightarrow> (proxy_map \<Rightarrow> bytes \<Rightarrow> 'w \<Rightarrow> bytes option \<times> 'w) \<Rightarrow> bytes list \<Rightarrow> DeleteResponseExpectation \<Rightarrow> 'c pool \<Rightarrow> 'w
   \<Rightarrow> (proxy_reply \<times> 'c pool \<times> 'w) ub" where
  "handle_delete_proxies e store names expectation s w =
     (let current = px_proxies s;
          processing_names = filter (\<lambda>n. map_of current n \<noteq> None) names;
          failed_names = filter (\<lambda>n. map_of current n = None) names;
          s = (if processing_names = [] then s
               else let m = filter (\<lambda>(n, _). \<not> List.member processing_names n) current
                    in s\<lparr>px_proxies := if m = [] then default_proxies else m\<rparr>)
      in do {
        r \<leftarrow> update_and_save e store s w;
        Some (saved r (\<lambda>s. ProxiesDeleted (if needs_updated_tokens expectation then Some (px_proxies s) else None)
               (if needs_failed_tokens expectation \<and> failed_names \<noteq> [] then Some failed_names else None)))
      })"

definition handle_set_general_proxy ::
  "('x, 'c) client_env \<Rightarrow> (proxy_map \<Rightarrow> bytes \<Rightarrow> 'w \<Rightarrow> bytes option \<times> 'w) \<Rightarrow> bytes \<Rightarrow> 'c pool \<Rightarrow> 'w
   \<Rightarrow> (proxy_reply \<times> 'c pool \<times> 'w) ub" where
  "handle_set_general_proxy e store name s w =
     (if map_of (px_proxies s) name = None then Some (ProxyNameNotFound, s, w)
      else do {
        r \<leftarrow> update_and_save e store (s\<lparr>px_general_name := name\<rparr>) w;
        Some (saved r (\<lambda>_. GeneralProxySet))
      })"

definition serve_proxy ::
  "('x, 'c) client_env \<Rightarrow> (proxy_map \<Rightarrow> bytes \<Rightarrow> 'w \<Rightarrow> bytes option \<times> 'w) \<Rightarrow> proxy_request \<Rightarrow> 'c pool \<Rightarrow> 'w
   \<Rightarrow> (proxy_reply \<times> 'c pool \<times> 'w) ub" where
  "serve_proxy e store q s w =
     (case q of
        GetProxies \<Rightarrow> Some (handle_get_proxies s, s, w)
      | SetProxies proxies general \<Rightarrow> handle_set_proxies e store proxies general s w
      | AddProxies proxies \<Rightarrow> handle_add_proxy e store proxies s w
      | DeleteProxies names expectation \<Rightarrow> handle_delete_proxies e store names expectation s w
      | SetGeneralProxy name \<Rightarrow> handle_set_general_proxy e store name s w)"

section \<open>Invariant\<close>

text \<open>The clients the library can build.\<close>

definition usable :: "('x, 'c) client_env \<Rightarrow> SingleProxy \<Rightarrow> bool" where
  "usable e p \<longleftrightarrow> build_client e p \<noteq> None"

definition table_ok :: "('x, 'c) client_env \<Rightarrow> proxy_map \<Rightarrow> bool" where
  "table_ok e m \<longleftrightarrow> distinct (map fst m) \<and> (\<forall>p \<in> snd ` set m. usable e p)"

definition env_ok :: "('x, 'c) client_env \<Rightarrow> bool" where
  "env_ok e \<longleftrightarrow> usable e SysProxy \<and> (\<forall>m. m \<noteq> [] \<longrightarrow> pe_first e m \<in> fst ` set m)"

text \<open>The client a proxy is to have: one that uses no proxy, the one of the system, or the one of its URL.\<close>

definition right_client :: "('x, 'c) client_env \<Rightarrow> SingleProxy \<Rightarrow> 'c \<Rightarrow> bool" where
  "right_client e p c \<longleftrightarrow>
     (p = NonProxy \<longrightarrow> pe_non e = Some c) \<and> (p = SysProxy \<longrightarrow> pe_sys e = Some c) \<and>
     (\<forall>u. p = UrlProxy u \<longrightarrow> (\<exists>x. pe_all e u = Some x \<and> pe_url e x = Some c))"

lemma build_client_right: "build_client e p = Some c \<Longrightarrow> right_client e p c"
  by (cases p) (auto simp: build_client_def right_client_def to_proxy_def bind_eq_Some_conv)

definition built :: "('x, 'c) client_env \<Rightarrow> (SingleProxy \<times> 'c) list \<Rightarrow> bool" where
  "built e cs \<longleftrightarrow> (\<forall>p c. map_of cs p = Some c \<longrightarrow> right_client e p c)"

lemma add_clients_built: "add_clients e ps cs = Some cs' \<Longrightarrow> built e cs \<Longrightarrow> built e cs'"
proof (induction e ps cs rule: add_clients.induct)
  case (2 e p ps cs)
  have "built e (AList.update p c cs)" if "build_client e p = Some c" for c
    using 2(4) that build_client_right [OF that] by (auto simp: built_def update_conv')
  then show ?case using 2 by (auto simp: insert_to_def bind_eq_Some_conv split: if_splits)
qed simp

lemma built_filter: "built e cs \<Longrightarrow> distinct (map fst cs) \<Longrightarrow> built e (filter P cs)"
  unfolding built_def using map_of_SomeD [of "filter P cs"] by fastforce

text \<open>The general name is in the table, exactly the proxies of the table have clients, one each and the right one, and
  the general client is that of the general name.\<close>

definition pool_inv :: "('x, 'c) client_env \<Rightarrow> 'c pool \<Rightarrow> bool" where
  "pool_inv e s \<longleftrightarrow>
     table_ok e (px_proxies s) \<and> distinct (map fst (px_clients s)) \<and>
     fst ` set (px_clients s) = snd ` set (px_proxies s) \<and> built e (px_clients s) \<and>
     Option.bind (map_of (px_proxies s) (px_general_name s)) (map_of (px_clients s)) = Some (px_general_client s)"

lemma add_clients_ok:
  assumes "\<forall>p \<in> set ps. usable e p" "distinct (map fst cs)"
  shows "\<exists>cs'. add_clients e ps cs = Some cs' \<and> distinct (map fst cs') \<and> fst ` set cs' = fst ` set cs \<union> set ps \<and>
    (\<forall>p c. map_of cs p = Some c \<longrightarrow> map_of cs' p = Some c)"
  using assms
proof (induction e ps cs rule: add_clients.induct)
  case (2 e p ps cs)
  show ?case
  proof (cases "map_of cs p")
    case None
    obtain c where c: "build_client e p = Some c" using 2(3) by (auto simp: usable_def)
    have d: "distinct (map fst (AList.update p c cs))" using 2(4) by (rule distinct_update)
    have p: "p \<notin> fst ` set cs" using None by (simp add: map_of_eq_None_iff)
    obtain cs' where cs': "add_clients e ps (AList.update p c cs) = Some cs'" "distinct (map fst cs')"
      "fst ` set cs' = fst ` set (AList.update p c cs) \<union> set ps"
      "\<forall>q d. map_of (AList.update p c cs) q = Some d \<longrightarrow> map_of cs' q = Some d"
      using 2(1) [OF None, of "AList.update p c cs"] 2(3) c d by (auto simp: insert_to_def)
    have "fst ` set (AList.update p c cs) = insert p (fst ` set cs)"
      using dom_update [of p c cs] by (simp add: dom_map_of_conv_image_fst)
    moreover have "map_of (AList.update p c cs) q = Some d" if "map_of cs q = Some d" for q d
      using that None by (cases "q = p") (simp_all add: update_conv')
    ultimately show ?thesis using None c cs' by (simp add: insert_to_def)
  next
    case (Some c)
    then have "p \<in> fst ` set cs" by (metis domI dom_map_of_conv_image_fst)
    with Some 2(2) 2(3,4) show ?thesis by (auto simp: insert_absorb)
  qed
qed simp

lemma insert_clients_eq: "distinct ps \<Longrightarrow> set ps \<inter> fst ` set cs = {} \<Longrightarrow> insert_clients e ps cs = add_clients e ps cs"
proof (induction e ps cs rule: insert_clients.induct)
  case (2 e p ps cs)
  then have p: "map_of cs p = None" by (simp add: map_of_eq_None_iff)
  have "insert_clients e ps cs' = add_clients e ps cs'" if "insert_to e p cs = Some cs'" for cs'
  proof -
    have "fst ` set cs' = insert p (fst ` set cs)"
      using that dom_update [of p _ cs] by (auto simp: insert_to_def bind_eq_Some_conv dom_map_of_conv_image_fst)
    then show ?thesis using 2 that by auto
  qed
  then show ?case using p by (cases "insert_to e p cs") simp_all
qed simp

lemma map_of_clients: "fst ` set cs = snd ` set ps \<Longrightarrow> map_of ps n = Some p \<Longrightarrow> \<exists>c. map_of cs p = Some c"
  by (metis domD dom_map_of_conv_image_fst image_eqI map_of_SomeD snd_conv)

lemma update_global_pool_ok:
  assumes "table_ok e (px_proxies s)" "px_proxies s \<noteq> []" "distinct (map fst (px_clients s))" "env_ok e" "built e (px_clients s)"
  shows "\<exists>s'. update_global_pool e s = Some s' \<and> pool_inv e s' \<and> px_proxies s' = px_proxies s \<and>
    px_general_name s' = (if map_of (px_proxies s) (px_general_name s) = None then pe_first e (px_proxies s) else px_general_name s) \<and>
    (\<forall>p c. p \<in> snd ` set (px_proxies s) \<longrightarrow> map_of (px_clients s) p = Some c \<longrightarrow> map_of (px_clients s') p = Some c)"
proof -
  let ?m = "px_proxies s" and ?ps = "remdups (map snd (px_proxies s))"
  let ?g = "if map_of ?m (px_general_name s) = None then pe_first e ?m else px_general_name s"
  let ?keep = "filter (\<lambda>(p, _). List.member ?ps p) (px_clients s)"
  have keep: "distinct (map fst ?keep)" using assms(3) by (rule distinct_map_filter)
  obtain cs where cs: "add_clients e ?ps ?keep = Some cs" "distinct (map fst cs)" "fst ` set cs = fst ` set ?keep \<union> set ?ps"
    "\<forall>p c. map_of ?keep p = Some c \<longrightarrow> map_of cs p = Some c"
    using add_clients_ok [OF _ keep, of ?ps e] assms(1) by (auto simp: table_ok_def)
  have dom: "fst ` set cs = snd ` set ?m" using cs(3) by force
  have built: "built e cs" using add_clients_built [OF cs(1) built_filter [OF assms(5,3)]] .
  have "\<exists>p. map_of ?m ?g = Some p"
  proof (cases "map_of ?m (px_general_name s)")
    case None
    then show ?thesis using assms(2,4) by (simp add: env_ok_def map_of_eq_None_iff) (metis domD dom_map_of_conv_image_fst)
  qed auto
  then obtain p where p: "map_of ?m ?g = Some p" by blast
  then obtain c where c: "map_of cs p = Some c" using map_of_clients [OF dom] by blast
  let ?s = "s\<lparr>px_clients := cs, px_general_name := ?g, px_general_client := c\<rparr>"
  have "update_global_pool e s = Some ?s"
    using assms(2) cs(1) p c by (simp add: update_global_pool_def set_general_def Let_def split: if_splits)
  moreover have "pool_inv e ?s" using assms(1) cs(2) dom p c built by (simp add: pool_inv_def)
  moreover have "map_of cs q = Some d" if "q \<in> snd ` set ?m" "map_of (px_clients s) q = Some d" for q d
  proof -
    have "map_of ?keep q = Some d"
      using that map_of_filter_in [of "px_clients s" q d "\<lambda>p _. List.member ?ps p"] by (auto simp: image_iff)
    then show ?thesis using cs(4) by blast
  qed
  ultimately show ?thesis by (intro exI [of _ ?s]) simp
qed

lemma update_and_save_ok:
  assumes "table_ok e (px_proxies s)" "px_proxies s \<noteq> []" "distinct (map fst (px_clients s))" "env_ok e" "built e (px_clients s)"
  shows "\<exists>r s' w'. update_and_save e store s w = Some (r, s', w') \<and> pool_inv e s' \<and> px_proxies s' = px_proxies s \<and>
    px_general_name s' = (if map_of (px_proxies s) (px_general_name s) = None then pe_first e (px_proxies s) else px_general_name s)"
  using update_global_pool_ok [OF assms] by (auto simp: update_and_save_def split: prod.split)

lemma saved_pool [simp]: "fst (snd (saved (r, s, w) f)) = s"
  by (simp add: saved_def)

lemma pool_inv_table: "pool_inv e s \<Longrightarrow> table_ok e (px_proxies s) \<and> px_proxies s \<noteq> [] \<and> distinct (map fst (px_clients s)) \<and> built e (px_clients s) \<and>
    map_of (px_proxies s) (px_general_name s) \<noteq> None"
  by (auto simp: pool_inv_def bind_eq_Some_conv)

lemma table_ok_default: "usable e SysProxy \<Longrightarrow> table_ok e default_proxies"
  by (simp add: table_ok_def default_proxies_def)

lemma table_ok_filter: "table_ok e m \<Longrightarrow> table_ok e (filter P m)"
  by (auto simp: table_ok_def distinct_map_filter)

lemma fold_update_table:
  assumes "table_ok e m" "\<forall>x \<in> set new. usable e (snd x)"
  shows "table_ok e (fold (\<lambda>(n, p) m. AList.update n p m) new m) \<and> (m \<noteq> [] \<longrightarrow> fold (\<lambda>(n, p) m. AList.update n p m) new m \<noteq> [])"
  using assms
proof (induction new arbitrary: m)
  case (Cons x new)
  obtain n p where x: "x = (n, p)" by (cases x)
  have "snd ` set (AList.update n p m) \<subseteq> insert p (snd ` set m)"
    by (induction m) (auto split: if_splits)
  moreover have "\<forall>q \<in> insert p (snd ` set m). usable e q" using Cons.prems x by (simp add: table_ok_def)
  moreover have "distinct (map fst (AList.update n p m))" using Cons.prems by (simp add: table_ok_def distinct_update)
  ultimately have "table_ok e (AList.update n p m)" unfolding table_ok_def by blast
  moreover have "AList.update n p m \<noteq> []" by (cases m) auto
  ultimately show ?case using Cons.IH [of "AList.update n p m"] Cons.prems x by auto
qed simp

text \<open>Requests whose URLs are proxies; a table that replaces all is not empty.\<close>

definition request_ok :: "('x, 'c) client_env \<Rightarrow> proxy_request \<Rightarrow> bool" where
  "request_ok e q \<longleftrightarrow>
     (case q of
        SetProxies m _ \<Rightarrow> m \<noteq> [] \<and> table_ok e m
      | AddProxies m \<Rightarrow> table_ok e m
      | _ \<Rightarrow> True)"

text \<open>What a request makes of the table, as a map, and the general name it asks for.\<close>

definition table_after :: "proxy_request \<Rightarrow> (bytes \<rightharpoonup> SingleProxy) \<Rightarrow> bytes \<rightharpoonup> SingleProxy" where
  "table_after q m =
     (case q of
        SetProxies ps _ \<Rightarrow> map_of ps
      | AddProxies ps \<Rightarrow> map_of ps ++ m
      | DeleteProxies ns _ \<Rightarrow> (let r = m |` (- set ns) in if r = Map.empty then [SYS_PROXY \<mapsto> SysProxy] else r)
      | _ \<Rightarrow> m)"

definition general_after :: "proxy_request \<Rightarrow> (bytes \<rightharpoonup> SingleProxy) \<Rightarrow> bytes \<Rightarrow> bytes" where
  "general_after q m g =
     (case q of
        SetProxies _ g' \<Rightarrow> g'
      | SetGeneralProxy n \<Rightarrow> if m n = None then g else n
      | _ \<Rightarrow> g)"

text \<open>The general name is the one asked for when it is in the table, and some name of the table otherwise.\<close>

definition takes_general :: "(bytes \<rightharpoonup> SingleProxy) \<Rightarrow> bytes \<Rightarrow> bytes \<Rightarrow> bool" where
  "takes_general m wanted g \<longleftrightarrow> m g \<noteq> None \<and> (m wanted \<noteq> None \<longrightarrow> g = wanted)"

lemma takes_general_first:
  assumes "env_ok e" "ps \<noteq> []"
  shows "takes_general (map_of ps) g (if map_of ps g = None then pe_first e ps else g)"
  using assms by (auto simp: takes_general_def env_ok_def map_of_eq_None_iff)

lemma map_of_fold_update: "map_of (fold (\<lambda>(n, p) m. AList.update n p m) new m) = foldl (\<lambda>m (n, p). m(n \<mapsto> p)) (map_of m) new"
  by (induction new arbitrary: m) (auto simp: update_conv' split: prod.split)

lemma foldl_upd_distinct: "distinct (map fst new) \<Longrightarrow> foldl (\<lambda>m (n, p). m(n \<mapsto> p)) m new = m ++ map_of new"
proof (induction new arbitrary: m)
  case (Cons x new)
  obtain n p where x: "x = (n, p)" by (cases x)
  have "m(n \<mapsto> p) ++ map_of new = m ++ (map_of new)(n \<mapsto> p)"
  proof -
    have "map_of new n = None" using Cons.prems x by (simp add: map_of_eq_None_iff)
    then show ?thesis by (auto simp: map_add_def intro!: ext split: option.split)
  qed
  then show ?case using Cons by (simp only: x foldl_Cons prod.case map_of.simps fst_conv snd_conv list.map distinct.simps)
qed simp

lemma added_table:
  assumes "distinct (map fst ps)"
  shows "map_of (fold (\<lambda>(n, p) m. AList.update n p m) (filter (\<lambda>(n, _). map_of m n = None) ps) m) = map_of ps ++ map_of m"
proof -
  have "map_of (filter (\<lambda>(n, _). map_of m n = None) ps) n = (if map_of m n = None then map_of ps n else None)" for n
    by (induction ps) auto
  then have "map_of m ++ map_of (filter (\<lambda>(n, _). map_of m n = None) ps) = map_of ps ++ map_of m"
    by (auto simp: map_add_def intro!: ext split: option.split)
  then show ?thesis
    using assms by (simp add: map_of_fold_update foldl_upd_distinct distinct_map_filter)
qed

lemma deleted_table:
  fixes m :: proxy_map
  shows "map_of (filter (\<lambda>(n, _). \<not> List.member (filter (\<lambda>n. map_of m n \<noteq> None) ns) n) m) = map_of m |` (- set ns)"
proof -
  have "map_of (filter (\<lambda>(n, _). P n) l) n = (if P n then map_of l n else None)" for P n and l :: "(bytes \<times> SingleProxy) list"
    by (induction l) auto
  note eq = this [of "\<lambda>n. \<not> List.member (filter (\<lambda>n. map_of m n \<noteq> None) ns) n" m]
  show ?thesis unfolding fun_eq_iff eq by (auto simp: restrict_map_def)
qed

lemma map_of_empty_iff: "map_of m = Map.empty \<longleftrightarrow> m = []"
  by (cases m) auto

lemma serve_proxy_ok:
  assumes inv: "pool_inv e s" and q: "request_ok e q" and env: "env_ok e"
  shows "\<exists>r s' w'. serve_proxy e store q s w = Some (r, s', w') \<and> pool_inv e s' \<and>
    map_of (px_proxies s') = table_after q (map_of (px_proxies s)) \<and>
    takes_general (map_of (px_proxies s')) (general_after q (map_of (px_proxies s)) (px_general_name s)) (px_general_name s')"
proof -
  note t = pool_inv_table [OF inv]
  have upd: "\<exists>r s' w'. Option.bind (update_and_save e store s1 w) (\<lambda>r. Some (saved r f)) = Some (r, s', w') \<and> pool_inv e s' \<and>
      map_of (px_proxies s') = map_of (px_proxies s1) \<and> takes_general (map_of (px_proxies s')) (px_general_name s1) (px_general_name s')"
    if "table_ok e (px_proxies s1)" "px_proxies s1 \<noteq> []" "px_clients s1 = px_clients s" for s1 f
    using update_and_save_ok [of e s1 store w] takes_general_first [OF env that(2), of "px_general_name s1"] that t env
    by (force simp: saved_def)
  show ?thesis
  proof (cases q)
    case (SetProxies m g)
    then show ?thesis
      using upd [of "update_global m g s" "\<lambda>s. ProxyInfo None (length (px_proxies s)) None"] q
      by (simp add: serve_proxy_def handle_set_proxies_def request_ok_def update_global_def table_after_def general_after_def)
  next
    case (AddProxies m)
    let ?new = "filter (\<lambda>(n, _). map_of (px_proxies s) n = None) m"
    let ?m = "fold (\<lambda>(n, p) m. AList.update n p m) ?new (px_proxies s)"
    have "\<forall>x \<in> set ?new. usable e (snd x)" using q AddProxies by (simp add: request_ok_def table_ok_def)
    with t have m: "table_ok e ?m" "?m \<noteq> []" using fold_update_table [of e "px_proxies s" ?new] by blast+
    have eq: "map_of ?m = map_of m ++ map_of (px_proxies s)"
      using q AddProxies by (intro added_table) (simp add: request_ok_def table_ok_def)
    show ?thesis
    proof (cases "?new = []")
      case True
      then show ?thesis
        using inv AddProxies eq t by (simp add: serve_proxy_def handle_add_proxy_def Let_def table_after_def general_after_def takes_general_def)
    next
      case False
      then show ?thesis
        using upd [of "s\<lparr>px_proxies := ?m\<rparr>" "\<lambda>s. ProxiesAdded (length ?new) (length (px_proxies s))"] AddProxies m eq
        by (simp add: serve_proxy_def handle_add_proxy_def Let_def table_after_def general_after_def)
    qed
  next
    case (DeleteProxies names x)
    let ?ok = "filter (\<lambda>n. map_of (px_proxies s) n \<noteq> None) names"
    let ?m = "filter (\<lambda>(n, _). \<not> List.member ?ok n) (px_proxies s)"
    let ?s = "if ?ok = [] then s else s\<lparr>px_proxies := if ?m = [] then default_proxies else ?m\<rparr>"
    have "table_ok e (px_proxies ?s)" "px_proxies ?s \<noteq> []" "px_clients ?s = px_clients s"
      using t table_ok_default [of e] env table_ok_filter [of e "px_proxies s"] by (auto simp: default_proxies_def env_ok_def)
    note ok = upd [OF this]
    have none: "?m = px_proxies s" if "?ok = []" unfolding that by simp
    have "map_of (px_proxies ?s) = table_after q (map_of (px_proxies s))"
    proof -
      have upd_table: "px_proxies (t\<lparr>px_proxies := x\<rparr>) = x" for t :: "'b pool" and x by simp
      have "px_proxies ?s = (if ?m = [] then default_proxies else ?m)"
      proof (cases "?ok = []")
        case True
        then show ?thesis unfolding none [OF True] using t by simp
      qed (simp only: if_False upd_table)
      then have "map_of (px_proxies ?s) = (if map_of ?m = Map.empty then map_of default_proxies else map_of ?m)"
        unfolding map_of_empty_iff by (simp only: if_distrib [of map_of])
      then show ?thesis
        unfolding deleted_table by (simp only: DeleteProxies table_after_def Let_def default_proxies_def proxy_request.case map_of.simps fst_conv snd_conv)
    qed
    moreover have "px_general_name ?s = general_after q (map_of (px_proxies s)) (px_general_name s)"
      by (simp add: DeleteProxies general_after_def)
    ultimately show ?thesis
      using ok unfolding DeleteProxies serve_proxy_def handle_delete_proxies_def Let_def proxy_request.case by metis
  next
    case (SetGeneralProxy n)
    then show ?thesis
      using upd [of "s\<lparr>px_general_name := n\<rparr>" "\<lambda>_. GeneralProxySet"] t inv
      by (cases "map_of (px_proxies s) n")
         (auto simp: serve_proxy_def handle_set_general_proxy_def table_after_def general_after_def takes_general_def)
  qed (use inv t in \<open>simp add: serve_proxy_def table_after_def general_after_def takes_general_def\<close>)
qed

section \<open>The routes from the start\<close>

text \<open>A run of requests, with the replies.\<close>

fun serve_proxies ::
  "('x, 'c) client_env \<Rightarrow> (proxy_map \<Rightarrow> bytes \<Rightarrow> 'w \<Rightarrow> bytes option \<times> 'w) \<Rightarrow> proxy_request list \<Rightarrow> 'c pool \<Rightarrow> 'w
   \<Rightarrow> (proxy_reply list \<times> 'c pool \<times> 'w) ub" where
  "serve_proxies e store [] s w = Some ([], s, w)"
| "serve_proxies e store (q # qs) s w = do {
     (r, s, w) \<leftarrow> serve_proxy e store q s w;
     (rs, s, w) \<leftarrow> serve_proxies e store qs s w;
     Some (r # rs, s, w)
   }"

text \<open>The states of table and general name a run of requests can lead through.\<close>

fun leads_to :: "proxy_request list \<Rightarrow> (bytes \<rightharpoonup> SingleProxy) \<Rightarrow> bytes \<Rightarrow> (bytes \<rightharpoonup> SingleProxy) \<Rightarrow> bytes \<Rightarrow> bool" where
  "leads_to [] m g m' g' \<longleftrightarrow> m' = m \<and> g' = g"
| "leads_to (q # qs) m g m' g' \<longleftrightarrow>
     (\<exists>g1. takes_general (table_after q m) (general_after q m g) g1 \<and> leads_to qs (table_after q m) g1 m' g')"

lemma serve_proxies_ok:
  assumes "env_ok e" "pool_inv e s" "\<forall>q \<in> set qs. request_ok e q"
  shows "\<exists>rs s' w'. serve_proxies e store qs s w = Some (rs, s', w') \<and> length rs = length qs \<and> pool_inv e s' \<and>
    leads_to qs (map_of (px_proxies s)) (px_general_name s) (map_of (px_proxies s')) (px_general_name s')"
  using assms(2,3)
proof (induction qs arbitrary: s w)
  case (Cons q qs)
  obtain r s1 w1 where 1: "serve_proxy e store q s w = Some (r, s1, w1)" "pool_inv e s1"
    "map_of (px_proxies s1) = table_after q (map_of (px_proxies s))"
    "takes_general (map_of (px_proxies s1)) (general_after q (map_of (px_proxies s)) (px_general_name s)) (px_general_name s1)"
    using serve_proxy_ok [OF Cons.prems(1) _ assms(1)] Cons.prems(2) by fastforce
  obtain rs s2 w2 where "serve_proxies e store qs s1 w1 = Some (rs, s2, w2)" "length rs = length qs" "pool_inv e s2"
    "leads_to qs (map_of (px_proxies s1)) (px_general_name s1) (map_of (px_proxies s2)) (px_general_name s2)"
    using Cons.IH [OF 1(2)] Cons.prems(2) by fastforce
  with 1 show ?case by auto
qed simp

lemma proxies_init_ok:
  assumes "env_ok e" "table_ok e m"
  shows "\<exists>s. proxies_init e m general = Some s \<and> pool_inv e s \<and> px_proxies s = (if m = [] then default_proxies else m) \<and>
    takes_general (map_of (px_proxies s)) general (px_general_name s)"
proof -
  define ms where "ms = (if m = [] then default_proxies else m)"
  define g where "g = (if m = [] then SYS_PROXY else if map_of m general = None then pe_first e m else general)"
  have ms: "table_ok e ms" using assms table_ok_default [of e] by (simp add: ms_def env_ok_def)
  have g: "takes_general (map_of ms) general g"
    using takes_general_first [OF assms(1), of m general] by (auto simp: ms_def g_def default_proxies_def takes_general_def)
  let ?ps = "remdups (map snd ms)"
  obtain cs where cs: "insert_clients e ?ps [] = Some cs" "distinct (map fst cs)" "fst ` set cs = snd ` set ms"
    using add_clients_ok [of ?ps e "[]"] ms by (auto simp: insert_clients_eq table_ok_def)
  have built: "built e cs"
    using add_clients_built [of e ?ps "[]" cs] cs(1) by (simp add: insert_clients_eq) (simp add: built_def)
  obtain p where p: "map_of ms g = Some p" using g by (auto simp: takes_general_def)
  then obtain c where c: "map_of cs p = Some c" using map_of_clients [OF cs(3)] by blast
  have "proxies_init e m general = Some \<lparr>px_proxies = ms, px_general_name = g, px_clients = cs, px_general_client = c\<rparr>"
    using cs(1) p c by (simp add: proxies_init_def ms_def g_def Let_def split: if_splits)
  then show ?thesis using ms cs p c built g by (simp add: pool_inv_def ms_def)
qed

lemma get_client_pool_inv:
  assumes "pool_inv e s"
  shows "\<exists>p. map_of (px_proxies s) (if map_of (px_proxies s) n = None then px_general_name s else n) = Some p \<and>
    map_of (px_clients s) p = Some (get_client n s)"
proof (cases "map_of (px_proxies s) n")
  case None
  then show ?thesis using assms by (auto simp: pool_inv_def get_client_def get_general_client_def bind_eq_Some_conv)
next
  case (Some p)
  then obtain c where "map_of (px_clients s) p = Some c"
    using assms map_of_clients [of "px_clients s" "px_proxies s" n p] by (auto simp: pool_inv_def)
  with Some show ?thesis by (simp add: get_client_def)
qed


definition demo_env :: "(bytes, bytes) client_env" where
  "demo_env = \<lparr>pe_all = (\<lambda>u. if take 4 u = bytes_of ''http'' then Some u else None), pe_non = Some [], pe_sys = Some [0],
     pe_url = Some, pe_first = (\<lambda>m. fst (hd m))\<rparr>"


text \<open>A request that replaces the table by the empty one: the default table is stored, but the clients are still
  chosen for the empty one, so the general client is looked up in vain and unwrapped unchecked.\<close>

theorem empty_table_undefined:
  "serve_proxy e store (SetProxies [] general) s w = None"
  by (simp add: serve_proxy_def handle_set_proxies_def update_and_save_def update_global_def update_global_pool_def
      default_proxies_def set_general_def)

text \<open>A text that parses as a proxy is printed back, and the proxies of the table are usable when their clients build.\<close>

lemma single_proxy_roundtrip: "single_proxy_from_str e t = Some p \<Longrightarrow> single_proxy_display p = t"
  by (auto simp: single_proxy_from_str_def single_proxy_display_def proxy_url_from_str_def split: if_splits option.splits)

end
