(* ===== verification/Interned.thy ===== *)
theory Interned
  imports Token_Cache
begin

text \<open>
  Interned strings: \<^verbatim>\<open>crates/interned/src/arc_str.rs\<close> and \<^verbatim>\<open>str.rs\<close>.  An \<^verbatim>\<open>ArcStr\<close> is a pointer to a heap block with a
  reference count; the global pool holds the pointer of every text.  Reading or freeing a block that is not allocated is
  undefined behaviour.  Threads interleave at the points where the code holds no lock: in \<^verbatim>\<open>new\<close> between the read lock and
  the write lock, in \<^verbatim>\<open>drop\<close> between the decrement and the write lock.  Atomic operations are sequentially consistent.
\<close>

section \<open>Blocks\<close>

record arc_inner =
  arc_hash :: u64
  arc_count :: nat
  arc_string :: bytes

record str_pool =
  arc_heap :: "nat \<rightharpoonup> arc_inner"
  ARC_STR_POOL :: "nat list"

definition arc_pool_init :: str_pool where
  "arc_pool_init = \<lparr>arc_heap = Map.empty, ARC_STR_POOL = []\<rparr>"

text \<open>The header of a block has 24 bytes on 64-bit targets.\<close>

definition ARC_MAX_LEN :: nat where "ARC_MAX_LEN = ISIZE_MAX - 24"

definition arc_layout :: "nat \<Rightarrow> unit ub" where
  "arc_layout string_len = (if string_len > ARC_MAX_LEN then None else Some ())"

definition inc_strong :: "nat \<Rightarrow> str_pool \<Rightarrow> str_pool ub" where
  "inc_strong p P = do {
     i \<leftarrow> arc_heap P p;
     (if arc_count i > ISIZE_MAX then None
      else Some (P\<lparr>arc_heap := (arc_heap P)(p \<mapsto> i\<lparr>arc_count := arc_count i + 1\<rparr>)\<rparr>))
   }"

text \<open>\<^verbatim>\<open>fetch_sub\<close> wraps at zero.\<close>

definition dec_strong :: "nat \<Rightarrow> str_pool \<Rightarrow> (bool \<times> str_pool) ub" where
  "dec_strong p P = do {
     i \<leftarrow> arc_heap P p;
     let n = (if arc_count i = 0 then 2 ^ 64 - 1 else arc_count i - 1);
     Some (arc_count i = 1, P\<lparr>arc_heap := (arc_heap P)(p \<mapsto> i\<lparr>arc_count := n\<rparr>)\<rparr>)
   }"

definition strong_count :: "nat \<Rightarrow> str_pool \<Rightarrow> nat ub" where
  "strong_count p P = map_option arc_count (arc_heap P p)"

definition str_equivalent :: "bytes \<Rightarrow> arc_inner \<Rightarrow> bool" where
  "str_equivalent s i \<longleftrightarrow> length (arc_string i) = length s \<and> arc_string i = s"

text \<open>A lookup in the hash table reads the entries of its bucket; here it may read any.\<close>

fun pool_find :: "(nat \<rightharpoonup> arc_inner) \<Rightarrow> u64 \<Rightarrow> bytes \<Rightarrow> nat list \<Rightarrow> nat option ub" where
  "pool_find m hash s [] = Some None"
| "pool_find m hash s (p # ps) = do {
     i \<leftarrow> m p;
     (if arc_hash i = hash \<and> str_equivalent s i then Some (Some p) else pool_find m hash s ps)
   }"

definition try_find_existing :: "u64 \<Rightarrow> bytes \<Rightarrow> str_pool \<Rightarrow> (nat \<times> str_pool) option ub" where
  "try_find_existing hash s P = do {
     hit \<leftarrow> pool_find (arc_heap P) hash s (ARC_STR_POOL P);
     (case hit of
        None \<Rightarrow> Some None
      | Some p \<Rightarrow> do { P \<leftarrow> inc_strong p P; Some (Some (p, P)) })
   }"

definition write_with_string :: "nat \<Rightarrow> bytes \<Rightarrow> u64 \<Rightarrow> str_pool \<Rightarrow> str_pool" where
  "write_with_string p s hash P =
     P\<lparr>arc_heap := (arc_heap P)(p \<mapsto> \<lparr>arc_hash = hash, arc_count = 1, arc_string = s\<rparr>)\<rparr>"

text \<open>The second half of \<^verbatim>\<open>new\<close>, under the write lock; the allocator gives \<open>p\<close>.\<close>

definition arc_new_write :: "(bytes \<Rightarrow> u64) \<Rightarrow> bytes \<Rightarrow> nat \<Rightarrow> str_pool \<Rightarrow> (nat \<times> str_pool) ub" where
  "arc_new_write hasher s p P = do {
     hit \<leftarrow> try_find_existing (hasher s) s P;
     (case hit of
        Some r \<Rightarrow> Some r
      | None \<Rightarrow> do {
          arc_layout (length s);
          let P = write_with_string p s (hasher s) P;
          Some (p, P\<lparr>ARC_STR_POOL := p # ARC_STR_POOL P\<rparr>)
        })
   }"

definition arc_new :: "(bytes \<Rightarrow> u64) \<Rightarrow> bytes \<Rightarrow> nat \<Rightarrow> str_pool \<Rightarrow> (nat \<times> str_pool) ub" where
  "arc_new hasher s p P = do {
     hit \<leftarrow> try_find_existing (hasher s) s P;
     (case hit of Some r \<Rightarrow> Some r | None \<Rightarrow> arc_new_write hasher s p P)
   }"

definition arc_clone :: "nat \<Rightarrow> str_pool \<Rightarrow> (nat \<times> str_pool) ub" where
  "arc_clone p P = do { P \<leftarrow> inc_strong p P; Some (p, P) }"

text \<open>The second half of \<^verbatim>\<open>drop\<close>, under the write lock.\<close>

definition arc_cleanup :: "nat \<Rightarrow> str_pool \<Rightarrow> str_pool ub" where
  "arc_cleanup p P = do {
     n \<leftarrow> strong_count p P;
     (if n \<noteq> 0 then Some P
      else do {
        i \<leftarrow> arc_heap P p;
        let P = P\<lparr>ARC_STR_POOL := removeAll p (ARC_STR_POOL P)\<rparr>;
        arc_layout (length (arc_string i));
        Some (P\<lparr>arc_heap := (arc_heap P)(p := None)\<rparr>)
      })
   }"

definition arc_drop :: "nat \<Rightarrow> str_pool \<Rightarrow> str_pool ub" where
  "arc_drop p P = do {
     (last, P) \<leftarrow> dec_strong p P;
     (if \<not> last then Some P else arc_cleanup p P)
   }"

definition arc_as_str :: "nat \<Rightarrow> str_pool \<Rightarrow> bytes ub" where
  "arc_as_str p P = map_option arc_string (arc_heap P p)"

definition arc_len :: "nat \<Rightarrow> str_pool \<Rightarrow> nat ub" where
  "arc_len p P = map_option (\<lambda>i. length (arc_string i)) (arc_heap P p)"

definition arc_is_empty :: "nat \<Rightarrow> str_pool \<Rightarrow> bool ub" where
  "arc_is_empty p P = map_option (\<lambda>n. n = 0) (arc_len p P)"

definition arc_ref_count :: "nat \<Rightarrow> str_pool \<Rightarrow> nat ub" where
  "arc_ref_count p P = strong_count p P"

definition arc_eq :: "nat \<Rightarrow> nat \<Rightarrow> bool" where
  "arc_eq p q \<longleftrightarrow> p = q"

section \<open>Static or counted strings\<close>

datatype Str = Static bytes | Counted nat

definition str_from_static :: "bytes \<Rightarrow> Str" where "str_from_static s = Static s"

definition str_new :: "(bytes \<Rightarrow> u64) \<Rightarrow> bytes \<Rightarrow> nat \<Rightarrow> str_pool \<Rightarrow> (Str \<times> str_pool) ub" where
  "str_new hasher s p P = do { (p, P) \<leftarrow> arc_new hasher s p P; Some (Counted p, P) }"

definition str_clone :: "Str \<Rightarrow> str_pool \<Rightarrow> (Str \<times> str_pool) ub" where
  "str_clone x P =
     (case x of
        Static s \<Rightarrow> Some (Static s, P)
      | Counted p \<Rightarrow> do { (p, P) \<leftarrow> arc_clone p P; Some (Counted p, P) })"

definition str_drop :: "Str \<Rightarrow> str_pool \<Rightarrow> str_pool ub" where
  "str_drop x P = (case x of Static s \<Rightarrow> Some P | Counted p \<Rightarrow> arc_drop p P)"

definition str_is_static :: "Str \<Rightarrow> bool" where
  "str_is_static x = (case x of Static _ \<Rightarrow> True | Counted _ \<Rightarrow> False)"

definition str_ref_count :: "Str \<Rightarrow> str_pool \<Rightarrow> nat option ub" where
  "str_ref_count x P = (case x of Static _ \<Rightarrow> Some None | Counted p \<Rightarrow> map_option Some (arc_ref_count p P))"

definition str_as_static :: "Str \<Rightarrow> bytes option" where
  "str_as_static x = (case x of Static s \<Rightarrow> Some s | Counted _ \<Rightarrow> None)"

definition into_arc_str :: "Str \<Rightarrow> nat option" where
  "into_arc_str x = (case x of Static _ \<Rightarrow> None | Counted p \<Rightarrow> Some p)"

definition str_as_str :: "Str \<Rightarrow> str_pool \<Rightarrow> bytes ub" where
  "str_as_str x P = (case x of Static s \<Rightarrow> Some s | Counted p \<Rightarrow> arc_as_str p P)"

definition str_len :: "Str \<Rightarrow> str_pool \<Rightarrow> nat ub" where
  "str_len x P = (case x of Static s \<Rightarrow> Some (length s) | Counted p \<Rightarrow> arc_len p P)"

definition str_is_empty :: "Str \<Rightarrow> str_pool \<Rightarrow> bool ub" where
  "str_is_empty x P = (case x of Static s \<Rightarrow> Some (s = []) | Counted p \<Rightarrow> arc_is_empty p P)"

definition str_eq :: "Str \<Rightarrow> Str \<Rightarrow> str_pool \<Rightarrow> bool ub" where
  "str_eq x y P =
     (case (x, y) of
        (Counted a, Counted b) \<Rightarrow> Some (arc_eq a b)
      | _ \<Rightarrow> do { s \<leftarrow> str_as_str x P; t \<leftarrow> str_as_str y P; Some (s = t) })"

definition str_eq_arc :: "Str \<Rightarrow> nat \<Rightarrow> str_pool \<Rightarrow> bool ub" where
  "str_eq_arc x q P =
     (case x of
        Counted p \<Rightarrow> Some (arc_eq p q)
      | Static s \<Rightarrow> do { t \<leftarrow> arc_as_str q P; Some (s = t) })"

definition str_default :: Str where "str_default = Static []"

section \<open>Threads\<close>

text \<open>The live handles, each with the text it was made of; the calls of \<^verbatim>\<open>new\<close> that wait for the write lock, and the calls
  of \<^verbatim>\<open>drop\<close> that do.\<close>

record strs =
  st_pool :: str_pool
  st_live :: "(nat \<times> bytes) multiset"
  st_creating :: "bytes multiset"
  st_cleaning :: "nat multiset"

definition strs_init :: strs where
  "strs_init = \<lparr>st_pool = arc_pool_init, st_live = {#}, st_creating = {#}, st_cleaning = {#}\<rparr>"

datatype action = NewRead bytes | NewWrite bytes nat | CloneOf nat bytes | Release nat bytes | Cleanup nat

fun enabled :: "action \<Rightarrow> strs \<Rightarrow> bool" where
  "enabled (NewRead t) s \<longleftrightarrow> True"
| "enabled (NewWrite t a) s \<longleftrightarrow> t \<in># st_creating s \<and> arc_heap (st_pool s) a = None"
| "enabled (CloneOf p t) s \<longleftrightarrow> (p, t) \<in># st_live s"
| "enabled (Release p t) s \<longleftrightarrow> (p, t) \<in># st_live s"
| "enabled (Cleanup p) s \<longleftrightarrow> p \<in># st_cleaning s"

fun run_action :: "(bytes \<Rightarrow> u64) \<Rightarrow> action \<Rightarrow> strs \<Rightarrow> strs ub" where
  "run_action h (NewRead t) s = do {
     hit \<leftarrow> try_find_existing (h t) t (st_pool s);
     Some (case hit of
         Some (p, P) \<Rightarrow> s\<lparr>st_pool := P, st_live := add_mset (p, t) (st_live s)\<rparr>
       | None \<Rightarrow> s\<lparr>st_creating := add_mset t (st_creating s)\<rparr>)
   }"
| "run_action h (NewWrite t a) s = do {
     (p, P) \<leftarrow> arc_new_write h t a (st_pool s);
     Some (s\<lparr>st_pool := P, st_live := add_mset (p, t) (st_live s), st_creating := st_creating s - {#t#}\<rparr>)
   }"
| "run_action h (CloneOf p t) s = do {
     (q, P) \<leftarrow> arc_clone p (st_pool s);
     Some (s\<lparr>st_pool := P, st_live := add_mset (q, t) (st_live s)\<rparr>)
   }"
| "run_action h (Release p t) s = do {
     (last, P) \<leftarrow> dec_strong p (st_pool s);
     Some (s\<lparr>st_pool := P, st_live := st_live s - {#(p, t)#},
             st_cleaning := (if last then add_mset p (st_cleaning s) else st_cleaning s)\<rparr>)
   }"
| "run_action h (Cleanup p) s = do {
     P \<leftarrow> arc_cleanup p (st_pool s);
     Some (s\<lparr>st_pool := P, st_cleaning := st_cleaning s - {#p#}\<rparr>)
   }"

text \<open>The states threads can reach when every action satisfies \<open>ok\<close>.\<close>

inductive arc_reach :: "(bytes \<Rightarrow> u64) \<Rightarrow> (action \<Rightarrow> strs \<Rightarrow> bool) \<Rightarrow> strs \<Rightarrow> bool" for h ok where
  start: "arc_reach h ok strs_init"
| act: "arc_reach h ok s \<Longrightarrow> enabled a s \<Longrightarrow> ok a s \<Longrightarrow> run_action h a s = Some s' \<Longrightarrow> arc_reach h ok s'"

text \<open>The handles to a block, whatever their texts.\<close>

definition held :: "(nat \<times> bytes) multiset \<Rightarrow> nat \<Rightarrow> nat" where
  "held L p = count (image_mset fst L) p"

text \<open>Nobody drops the last handle of a text while an earlier \<^verbatim>\<open>drop\<close> of its last handle still waits for the lock; texts
  and counts stay in the limits of the address space.\<close>

fun orderly :: "action \<Rightarrow> strs \<Rightarrow> bool" where
  "orderly (NewRead t) s \<longleftrightarrow> length t \<le> ARC_MAX_LEN \<and> size (st_live s) \<le> ISIZE_MAX"
| "orderly (NewWrite t a) s \<longleftrightarrow> size (st_live s) \<le> ISIZE_MAX"
| "orderly (CloneOf p t) s \<longleftrightarrow> size (st_live s) \<le> ISIZE_MAX"
| "orderly (Release p t) s \<longleftrightarrow> \<not> (held (st_live s) p = 1 \<and> p \<in># st_cleaning s)"
| "orderly (Cleanup p) s \<longleftrightarrow> True"

section \<open>Invariant\<close>

definition block_ok :: "(bytes \<Rightarrow> u64) \<Rightarrow> nat \<Rightarrow> nat \<Rightarrow> arc_inner option \<Rightarrow> bool" where
  "block_ok h n c b =
     (case b of
        None \<Rightarrow> n = 0 \<and> c = 0
      | Some i \<Rightarrow> arc_count i = n \<and> arc_hash i = h (arc_string i) \<and> length (arc_string i) \<le> ARC_MAX_LEN \<and>
          c \<le> 1 \<and> (n = 0 \<longrightarrow> c = 1))"

definition arc_inv :: "(bytes \<Rightarrow> u64) \<Rightarrow> (nat \<times> bytes) multiset \<Rightarrow> nat multiset \<Rightarrow> str_pool \<Rightarrow> bool" where
  "arc_inv h L C P \<longleftrightarrow>
     (\<forall>p. block_ok h (held L p) (count C p) (arc_heap P p)) \<and>
     (\<forall>p t. (p, t) \<in># L \<longrightarrow> arc_as_str p P = Some t) \<and>
     distinct (ARC_STR_POOL P) \<and> set (ARC_STR_POOL P) = dom (arc_heap P) \<and>
     inj_on (\<lambda>p. arc_as_str p P) (dom (arc_heap P))"

lemma block_ok_simps [simp]:
  "block_ok h n c None \<longleftrightarrow> n = 0 \<and> c = 0"
  "block_ok h n c (Some i) \<longleftrightarrow> arc_count i = n \<and> arc_hash i = h (arc_string i) \<and> length (arc_string i) \<le> ARC_MAX_LEN \<and>
     c \<le> 1 \<and> (n = 0 \<longrightarrow> c = 1)"
  by (simp_all add: block_ok_def)

lemma held_simps [simp]: "held {#} p = 0" "held (add_mset (q, t) L) p = (if p = q then Suc (held L p) else held L p)"
  by (simp_all add: held_def)

lemma held_remove: "(q, t) \<in># L \<Longrightarrow> held (L - {#(q, t)#}) p = (if p = q then held L p - 1 else held L p)"
  by (simp add: held_def image_mset_Diff)

lemma held_pos: "(p, t) \<in># L \<Longrightarrow> 0 < held L p"
  by (metis add_mset_remove_trivial_If held_simps(2) insert_DiffM zero_less_Suc)

lemma held_le_size: "held L p \<le> size L"
  by (metis count_le_size held_def size_image_mset)

lemma arc_invD:
  assumes "arc_inv h L C P"
  shows "block_ok h (held L p) (count C p) (arc_heap P p)" "(p, t) \<in># L \<Longrightarrow> arc_as_str p P = Some t"
    "distinct (ARC_STR_POOL P)" "set (ARC_STR_POOL P) = dom (arc_heap P)"
    "arc_heap P p = Some i \<Longrightarrow> arc_heap P q = Some j \<Longrightarrow> arc_string i = arc_string j \<Longrightarrow> p = q"
  using assms by (auto simp: arc_inv_def arc_as_str_def inj_on_def dom_def)

lemma live_block: "arc_inv h L C P \<Longrightarrow> (p, t) \<in># L \<Longrightarrow> \<exists>i. arc_heap P p = Some i \<and> arc_string i = t"
  using arc_invD(2) [of h L C P p t] by (simp add: arc_as_str_def)

lemma arc_inv_init: "arc_inv h {#} {#} arc_pool_init"
  by (simp add: arc_inv_def arc_pool_init_def)

text \<open>A change of one count leaves the texts alone.\<close>

lemma arc_inv_count:
  assumes inv: "arc_inv h L C P" and i: "arc_heap P p = Some i"
    and b: "block_ok h (held L' p) (count C' p) (Some (i\<lparr>arc_count := n\<rparr>))"
    and same: "\<And>q. q \<noteq> p \<Longrightarrow> held L' q = held L q \<and> count C' q = count C q"
    and live: "\<And>q t. (q, t) \<in># L' \<Longrightarrow> (q, t) \<in># L \<or> (q, t) = (p, arc_string i)"
  shows "arc_inv h L' C' (P\<lparr>arc_heap := (arc_heap P)(p \<mapsto> i\<lparr>arc_count := n\<rparr>)\<rparr>)" (is "arc_inv h L' C' ?P")
proof -
  have str: "arc_as_str q ?P = arc_as_str q P" for q using i by (simp add: arc_as_str_def)
  have "block_ok h (held L' q) (count C' q) (arc_heap ?P q)" for q
    using b same [of q] arc_invD(1) [OF inv, of q] by (cases "q = p") simp_all
  moreover have "arc_as_str q ?P = Some t" if "(q, t) \<in># L'" for q t
    using live [OF that] arc_invD(2) [OF inv, of q t] i unfolding str by (auto simp: arc_as_str_def)
  moreover have "inj_on (\<lambda>q. arc_as_str q ?P) (dom (arc_heap ?P))"
    using inv i unfolding str arc_inv_def by (simp add: insert_absorb domI)
  ultimately show ?thesis using arc_invD(3,4) [OF inv] i by (auto simp: arc_inv_def insert_absorb)
qed

lemma inc_strong_inv:
  assumes inv: "arc_inv h L C P" and i: "arc_heap P p = Some i" and n: "size L \<le> ISIZE_MAX"
  shows "\<exists>P'. inc_strong p P = Some P' \<and> arc_inv h (add_mset (p, arc_string i) L) C P'"
proof -
  have b: "block_ok h (held L p) (count C p) (Some i)" using arc_invD(1) [OF inv, of p] i by simp
  have "arc_count i \<le> ISIZE_MAX" using b held_le_size [of L p] n by simp
  then show ?thesis
    using arc_inv_count [OF inv i, of "add_mset (p, arc_string i) L" C "arc_count i + 1"] b i by (auto simp: inc_strong_def)
qed

lemma pool_find_spec:
  assumes "set ps \<subseteq> dom m" "\<And>p i. m p = Some i \<Longrightarrow> arc_hash i = h (arc_string i)"
  shows "pool_find m (h t) t ps = Some None \<and> (\<forall>p \<in> set ps. map_option arc_string (m p) \<noteq> Some t) \<or>
    (\<exists>p i. pool_find m (h t) t ps = Some (Some p) \<and> p \<in> set ps \<and> m p = Some i \<and> arc_string i = t)"
  using assms(1)
proof (induction ps)
  case (Cons p ps)
  then obtain i where i: "m p = Some i" by auto
  show ?case
  proof (cases "arc_string i = t")
    case True
    then show ?thesis using i assms(2) [OF i] by (simp add: str_equivalent_def)
  next
    case False
    then show ?thesis using Cons i by (auto simp: str_equivalent_def)
  qed
qed simp

lemma try_find_existing_inv:
  assumes inv: "arc_inv h L C P" and n: "size L \<le> ISIZE_MAX"
  shows "try_find_existing (h t) t P = Some None \<and> (\<forall>p. arc_as_str p P \<noteq> Some t) \<or>
    (\<exists>p P'. try_find_existing (h t) t P = Some (Some (p, P')) \<and> arc_inv h (add_mset (p, t) L) C P')"
proof -
  have hash: "arc_hash i = h (arc_string i)" if "arc_heap P p = Some i" for p i
    using arc_invD(1) [OF inv, of p] that by simp
  from pool_find_spec [of "ARC_STR_POOL P" "arc_heap P" h t, OF _ hash] show ?thesis
    using arc_invD(4) [OF inv] inc_strong_inv [OF inv _ n]
    by (fastforce simp: try_find_existing_def arc_as_str_def)
qed

lemma arc_new_write_inv:
  assumes inv: "arc_inv h L C P" and n: "size L \<le> ISIZE_MAX" and t: "length t \<le> ARC_MAX_LEN" and a: "arc_heap P a = None"
  shows "\<exists>p P'. arc_new_write h t a P = Some (p, P') \<and> arc_inv h (add_mset (p, t) L) C P'"
  using try_find_existing_inv [OF inv n, of t]
proof (elim disjE conjE exE)
  assume miss: "try_find_existing (h t) t P = Some None" and new: "\<forall>p. arc_as_str p P \<noteq> Some t"
  let ?i = "\<lparr>arc_hash = h t, arc_count = 1, arc_string = t\<rparr>"
  let ?P = "P\<lparr>arc_heap := (arc_heap P)(a \<mapsto> ?i), ARC_STR_POOL := a # ARC_STR_POOL P\<rparr>"
  have z: "held L a = 0" "count C a = 0" using arc_invD(1) [OF inv, of a] a by simp_all
  then have live: "(a, u) \<notin># L" for u using held_pos [of a u L] by auto
  have str: "arc_as_str q ?P = (if q = a then Some t else arc_as_str q P)" for q by (simp add: arc_as_str_def)
  have "block_ok h (held (add_mset (a, t) L) q) (count C q) (arc_heap ?P q)" for q
    using arc_invD(1) [OF inv, of q] z t by (cases "q = a") simp_all
  moreover have "arc_as_str q ?P = Some u" if "(q, u) \<in># add_mset (a, t) L" for q u
    using that arc_invD(2) [OF inv, of q u] live [of u] unfolding str by (auto split: if_splits)
  moreover have "inj_on (\<lambda>q. arc_as_str q ?P) (dom (arc_heap ?P))"
    using inv new a unfolding str arc_inv_def inj_on_def by auto
  ultimately have "arc_inv h (add_mset (a, t) L) C ?P" using arc_invD(3,4) [OF inv] a by (auto simp: arc_inv_def)
  then show ?thesis using t by (simp add: arc_new_write_def miss arc_layout_def write_with_string_def)
qed (auto simp: arc_new_write_def)

lemma dec_strong_inv:
  assumes inv: "arc_inv h L C P" and p: "(p, t) \<in># L" and o: "\<not> (held L p = 1 \<and> p \<in># C)"
  shows "\<exists>last P'. dec_strong p P = Some (last, P') \<and>
    arc_inv h (L - {#(p, t)#}) (if last then add_mset p C else C) P'"
proof -
  obtain i where i: "arc_heap P p = Some i" using live_block [OF inv p] by blast
  have b: "block_ok h (held L p) (count C p) (Some i)" using arc_invD(1) [OF inv, of p] i by simp
  have pos: "0 < held L p" by (rule held_pos [OF p])
  let ?C = "if arc_count i = 1 then add_mset p C else C"
  have "arc_inv h (L - {#(p, t)#}) ?C (P\<lparr>arc_heap := (arc_heap P)(p \<mapsto> i\<lparr>arc_count := arc_count i - 1\<rparr>)\<rparr>)"
  proof (rule arc_inv_count [OF inv i])
    show "block_ok h (held (L - {#(p, t)#}) p) (count ?C p) (Some (i\<lparr>arc_count := arc_count i - 1\<rparr>))"
      using b o pos by (auto simp: held_remove [OF p] not_in_iff)
  qed (auto simp: held_remove [OF p] dest: in_diffD)
  then show ?thesis using i pos b by (auto simp: dec_strong_def Let_def)
qed

lemma arc_cleanup_inv:
  assumes inv: "arc_inv h L C P" and p: "p \<in># C"
  shows "\<exists>P'. arc_cleanup p P = Some P' \<and> arc_inv h L (C - {#p#}) P'"
proof -
  obtain i where i: "arc_heap P p = Some i" using arc_invD(1) [OF inv, of p] p by (cases "arc_heap P p") (auto simp: not_in_iff [symmetric])
  have b: "block_ok h (held L p) (count C p) (Some i)" using arc_invD(1) [OF inv, of p] i by simp
  show ?thesis
  proof (cases "arc_count i = 0")
    case False
    then have "arc_inv h L (C - {#p#}) P"
      using arc_inv_count [OF inv i, of L "C - {#p#}" "arc_count i"] b i by (simp add: fun_upd_idem)
    then show ?thesis using False i by (simp add: arc_cleanup_def strong_count_def)
  next
    case True
    let ?P = "P\<lparr>ARC_STR_POOL := removeAll p (ARC_STR_POOL P), arc_heap := (arc_heap P)(p := None)\<rparr>"
    have z: "held L p = 0" "count C p = 1" using b True by simp_all
    then have live: "(p, u) \<notin># L" for u using held_pos [of p u L] by auto
    have str: "arc_as_str q ?P = (if q = p then None else arc_as_str q P)" for q by (simp add: arc_as_str_def)
    have "block_ok h (held L q) (count (C - {#p#}) q) (arc_heap ?P q)" for q
      using arc_invD(1) [OF inv, of q] z by (cases "q = p") simp_all
    moreover have "arc_as_str q ?P = Some u" if "(q, u) \<in># L" for q u
      using that arc_invD(2) [OF inv, of q u] live unfolding str by (auto split: if_splits)
    moreover have "inj_on (\<lambda>q. arc_as_str q ?P) (dom (arc_heap ?P))"
      using inv unfolding str arc_inv_def inj_on_def by auto
    ultimately have "arc_inv h L (C - {#p#}) ?P" using arc_invD(3,4) [OF inv] by (auto simp: arc_inv_def distinct_removeAll)
    then show ?thesis using True i b by (simp add: arc_cleanup_def strong_count_def arc_layout_def)
  qed
qed

section \<open>All interleavings\<close>

definition strs_inv :: "(bytes \<Rightarrow> u64) \<Rightarrow> strs \<Rightarrow> bool" where
  "strs_inv h s \<longleftrightarrow> arc_inv h (st_live s) (st_cleaning s) (st_pool s) \<and> (\<forall>t \<in># st_creating s. length t \<le> ARC_MAX_LEN)"

lemma run_action_inv:
  assumes "strs_inv h s" "enabled a s" "orderly a s"
  shows "\<exists>s'. run_action h a s = Some s' \<and> strs_inv h s'"
proof (cases a)
  case (NewRead t)
  then show ?thesis
    using try_find_existing_inv [of h "st_live s" "st_cleaning s" "st_pool s" t] assms by (auto simp: strs_inv_def)
next
  case (NewWrite t b)
  then show ?thesis
    using arc_new_write_inv [of h "st_live s" "st_cleaning s" "st_pool s" t b] assms
    by (auto simp: strs_inv_def dest!: in_diffD)
next
  case (CloneOf p t)
  then obtain i where "arc_heap (st_pool s) p = Some i" "arc_string i = t"
    using live_block [of h "st_live s" "st_cleaning s" "st_pool s" p t] assms by (auto simp: strs_inv_def)
  then show ?thesis
    using inc_strong_inv [of h "st_live s" "st_cleaning s" "st_pool s" p i] assms CloneOf
    by (auto simp: strs_inv_def arc_clone_def)
next
  case (Release p t)
  then show ?thesis
    using dec_strong_inv [of h "st_live s" "st_cleaning s" "st_pool s" p t] assms by (auto simp: strs_inv_def)
next
  case (Cleanup p)
  then show ?thesis
    using arc_cleanup_inv [of h "st_live s" "st_cleaning s" "st_pool s" p] assms by (auto simp: strs_inv_def)
qed

lemma arc_reach_inv: "arc_reach h orderly s \<Longrightarrow> strs_inv h s"
proof (induction rule: arc_reach.induct)
  case start
  show ?case using arc_inv_init by (simp add: strs_inv_def strs_init_def)
next
  case (act s a s')
  then show ?case using run_action_inv [of h s a] by auto
qed

lemma live_ref_count: "arc_inv h L C P \<Longrightarrow> (p, t) \<in># L \<Longrightarrow> arc_ref_count p P = Some (size (filter_mset (\<lambda>x. snd x = t) L))"
proof -
  assume inv: "arc_inv h L C P" and p: "(p, t) \<in># L"
  obtain i where i: "arc_heap P p = Some i" "arc_string i = t" using live_block [OF inv p] by blast
  have eq: "fst x = p \<longleftrightarrow> snd x = t" if x: "x \<in># L" for x
  proof -
    obtain j where "arc_heap P (fst x) = Some j" "arc_string j = snd x"
      using live_block [OF inv, of "fst x" "snd x"] x by auto
    then show ?thesis using i arc_invD(5) [OF inv] by fastforce
  qed
  have "held L p = size (filter_mset (\<lambda>x. fst x = p) L)"
    by (simp add: held_def count_image_mset' size_multiset_overloaded_eq eq_commute)
  also have "\<dots> = size (filter_mset (\<lambda>x. snd x = t) L)" by (intro arg_cong [of _ _ size] filter_mset_cong refl) (simp add: eq)
  finally show ?thesis using arc_invD(1) [OF inv, of p] i by (simp add: arc_ref_count_def strong_count_def)
qed

text \<open>C26: The calls \<^verbatim>\<open>new\<close>, \<^verbatim>\<open>clone\<close> and \<^verbatim>\<open>drop\<close> of any number of threads may interleave at the points without a lock, as long as no
  last handle of a text is dropped while an earlier drop of a last handle of it is still under way.  Then no step reads
  or frees memory that is not allocated; every live string reads the text it was made of, its count is the number of
  live strings with that text, two strings are at the same address exactly when their texts are equal, and once all
  strings are dropped the pool is empty and all memory is free.\<close>

theorem interned_strings_safe:
  assumes "arc_reach h orderly s"
  shows "(\<forall>a. enabled a s \<longrightarrow> orderly a s \<longrightarrow> run_action h a s \<noteq> None) \<and>
    (\<forall>p t. (p, t) \<in># st_live s \<longrightarrow> arc_as_str p (st_pool s) = Some t \<and>
       arc_ref_count p (st_pool s) = Some (size (filter_mset (\<lambda>x. snd x = t) (st_live s)))) \<and>
    (\<forall>p t q u. (p, t) \<in># st_live s \<longrightarrow> (q, u) \<in># st_live s \<longrightarrow> (arc_eq p q \<longleftrightarrow> t = u)) \<and>
    (st_live s = {#} \<longrightarrow> st_cleaning s = {#} \<longrightarrow> st_pool s = arc_pool_init)"
proof -
  have s: "strs_inv h s" by (rule arc_reach_inv [OF assms])
  then have inv: "arc_inv h (st_live s) (st_cleaning s) (st_pool s)" by (simp add: strs_inv_def)
  have "run_action h a s \<noteq> None" if "enabled a s" "orderly a s" for a using run_action_inv [OF s that] by auto
  moreover have "arc_eq p q \<longleftrightarrow> t = u" if "(p, t) \<in># st_live s" "(q, u) \<in># st_live s" for p q t u
    using live_block [OF inv that(1)] live_block [OF inv that(2)] arc_invD(5) [OF inv, of p _ q] by (auto simp: arc_eq_def)
  moreover have "st_pool s = arc_pool_init" if "st_live s = {#}" "st_cleaning s = {#}"
  proof -
    have "arc_heap (st_pool s) p = None" for p
      using arc_invD(1) [OF inv, of p] that by (cases "arc_heap (st_pool s) p") simp_all
    then have "arc_heap (st_pool s) = Map.empty" by blast
    moreover from this have "ARC_STR_POOL (st_pool s) = []" using arc_invD(4) [OF inv] by simp
    ultimately show ?thesis by (simp add: arc_pool_init_def)
  qed
  ultimately show ?thesis using arc_invD(2) [OF inv] live_ref_count [OF inv] by blast
qed

text \<open>Two strings of one text, made one after the other.\<close>

definition demo_strs :: strs where
  "demo_strs = \<lparr>st_pool = \<lparr>arc_heap = [0 \<mapsto> \<lparr>arc_hash = 0, arc_count = Suc 1, arc_string = []\<rparr>], ARC_STR_POOL = [0]\<rparr>,
     st_live = {#(0, []), (0, [])#}, st_creating = {#}, st_cleaning = {#}\<rparr>"

lemma demo_strs_reach: "arc_reach (\<lambda>_. 0) orderly demo_strs"
proof -
  let ?h = "\<lambda>_ :: bytes. 0 :: u64"
  have 1: "arc_reach ?h orderly (strs_init\<lparr>st_creating := {#[]#}\<rparr>)"
    by (rule arc_reach.act [OF arc_reach.start, of "NewRead []"])
      (simp_all add: strs_init_def arc_pool_init_def try_find_existing_def)
  have 2: "arc_reach ?h orderly (demo_strs\<lparr>st_live := {#(0, [])#},
      st_pool := \<lparr>arc_heap = [0 \<mapsto> \<lparr>arc_hash = 0, arc_count = 1, arc_string = []\<rparr>], ARC_STR_POOL = [0]\<rparr>\<rparr>)"
    by (rule arc_reach.act [OF 1, of "NewWrite [] 0"])
      (simp_all add: strs_init_def arc_pool_init_def try_find_existing_def demo_strs_def arc_new_write_def arc_layout_def
        write_with_string_def)
  show ?thesis
    by (rule arc_reach.act [OF 2, of "NewRead []"])
      (simp_all add: try_find_existing_def demo_strs_def str_equivalent_def inc_strong_def ISIZE_MAX_def)
qed

theorem interned_strings_safe_witness:
  "run_action (\<lambda>_. 0) (Release 0 []) demo_strs \<noteq> None \<and>
    arc_ref_count 0 (st_pool demo_strs) = Some (size (filter_mset (\<lambda>x. snd x = []) (st_live demo_strs)))"
proof -
  have e: "enabled (Release 0 []) demo_strs" "orderly (Release 0 []) demo_strs" "(0, []) \<in># st_live demo_strs"
    by (simp_all add: demo_strs_def)
  show ?thesis using interned_strings_safe [OF demo_strs_reach] e by blast
qed

text \<open>Without the condition the code is unsafe: a second thread finds the text whose last handle was just dropped,
  drops it again before the first thread has the lock, and both clean it up.\<close>

theorem arc_str_race: "\<exists>s. arc_reach h (\<lambda>_ _. True) s \<and> enabled (Cleanup 0) s \<and> run_action h (Cleanup 0) s = None"
proof -
  let ?ok = "\<lambda>_ _. True"
  let ?s = "\<lambda>m L c C. \<lparr>st_pool = \<lparr>arc_heap = m, ARC_STR_POOL = if m 0 = None then [] else [0]\<rparr>, st_live = L, st_creating = c, st_cleaning = C\<rparr>"
  let ?m = "\<lambda>n. [0 \<mapsto> \<lparr>arc_hash = h [], arc_count = n, arc_string = []\<rparr>]"
  let ?L = "{#(0, [])#} :: (nat \<times> bytes) multiset"
  have 1: "arc_reach h ?ok (?s Map.empty {#} {#[]#} {#})"
    by (rule arc_reach.act [OF arc_reach.start, of "NewRead []"])
      (simp_all add: strs_init_def arc_pool_init_def try_find_existing_def)
  have 2: "arc_reach h ?ok (?s (?m 1) ?L {#} {#})"
    by (rule arc_reach.act [OF 1, of "NewWrite [] 0"])
      (simp_all add: try_find_existing_def arc_new_write_def arc_layout_def write_with_string_def)
  have 3: "arc_reach h ?ok (?s (?m 0) {#} {#} {#0#})"
    by (rule arc_reach.act [OF 2, of "Release 0 []"]) (simp_all add: dec_strong_def)
  have 4: "arc_reach h ?ok (?s (?m 1) ?L {#} {#0#})"
    by (rule arc_reach.act [OF 3, of "NewRead []"])
      (simp_all add: try_find_existing_def str_equivalent_def inc_strong_def)
  have 5: "arc_reach h ?ok (?s (?m 0) {#} {#} {#0, 0#})"
    by (rule arc_reach.act [OF 4, of "Release 0 []"]) (simp_all add: dec_strong_def)
  have 6: "arc_reach h ?ok (?s Map.empty {#} {#} {#0#})"
    by (rule arc_reach.act [OF 5, of "Cleanup 0"])
      (simp_all add: arc_cleanup_def strong_count_def arc_layout_def)
  then show ?thesis by (intro exI conjI) (assumption, simp_all add: arc_cleanup_def strong_count_def)
qed

text \<open>Comparison of static and counted strings is comparison of texts.\<close>

definition str_live :: "Str \<Rightarrow> strs \<Rightarrow> bool" where
  "str_live x s \<longleftrightarrow> (case x of Static _ \<Rightarrow> True | Counted p \<Rightarrow> p \<in> fst ` set_mset (st_live s))"

lemma str_eq_spec:
  assumes "arc_reach h orderly s" "str_live x s" "str_live y s"
  shows "\<exists>t u. str_as_str x (st_pool s) = Some t \<and> str_as_str y (st_pool s) = Some u \<and> str_eq x y (st_pool s) = Some (t = u)"
proof -
  have inv: "arc_inv h (st_live s) (st_cleaning s) (st_pool s)" using arc_reach_inv [OF assms(1)] by (simp add: strs_inv_def)
  have ex: "\<exists>t. str_as_str z (st_pool s) = Some t" if "str_live z s" for z
    using that arc_invD(2) [OF inv] by (cases z) (auto simp: str_live_def str_as_str_def)
  obtain t u where tu: "str_as_str x (st_pool s) = Some t" "str_as_str y (st_pool s) = Some u"
    using ex assms(2,3) by blast
  moreover have "str_eq x y (st_pool s) = Some (t = u)"
  proof (cases "\<exists>p q. x = Counted p \<and> y = Counted q")
    case True
    then obtain p q where pq: "x = Counted p" "y = Counted q" by blast
    then obtain i j where "arc_heap (st_pool s) p = Some i" "arc_heap (st_pool s) q = Some j" "arc_string i = t" "arc_string j = u"
      using tu by (auto simp: str_as_str_def arc_as_str_def)
    then show ?thesis using pq arc_invD(5) [OF inv, of p i q j] by (auto simp: str_eq_def arc_eq_def)
  next
    case False
    then show ?thesis using tu by (cases x; cases y) (simp_all add: str_eq_def)
  qed
  ultimately show ?thesis by blast
qed

end
