(* ===== verification/Log_Routes.thy ===== *)
theory Log_Routes
  imports Auth
begin

text \<open>
  The routes that show the log: \<^verbatim>\<open>src/core/route/logs.rs\<close>, with the membership types of
  \<^verbatim>\<open>src/common/model/userinfo/membership_type.rs\<close>.  The handlers ask the log actor and wait for its answer.  A header is
  what \<^verbatim>\<open>to_str\<close> gives for it; the time stamp of an answer is left out.
\<close>

section \<open>Membership types\<close>

datatype MembershipType = Free | FreeTrial | Pro | ProPlus | Ultra | Enterprise

definition membership_as_str :: "MembershipType \<Rightarrow> bytes" where
  "membership_as_str m =
     (case m of
        Free \<Rightarrow> bytes_of ''free''
      | FreeTrial \<Rightarrow> bytes_of ''free_trial''
      | Pro \<Rightarrow> bytes_of ''pro''
      | ProPlus \<Rightarrow> bytes_of ''pro_plus''
      | Ultra \<Rightarrow> bytes_of ''ultra''
      | Enterprise \<Rightarrow> bytes_of ''enterprise'')"

definition membership_from_str :: "bytes \<Rightarrow> MembershipType option" where
  "membership_from_str s =
     (if s = bytes_of ''free'' then Some Free
      else if s = bytes_of ''free_trial'' then Some FreeTrial
      else if s = bytes_of ''pro'' then Some Pro
      else if s = bytes_of ''pro_plus'' then Some ProPlus
      else if s = bytes_of ''ultra'' then Some Ultra
      else if s = bytes_of ''enterprise'' then Some Enterprise
      else None)"

text \<open>The discriminant, by which the log compares membership types.\<close>

definition membership_code :: "MembershipType \<Rightarrow> nat" where
  "membership_code m = (case m of Free \<Rightarrow> 0 | FreeTrial \<Rightarrow> 1 | Pro \<Rightarrow> 2 | ProPlus \<Rightarrow> 3 | Ultra \<Rightarrow> 4 | Enterprise \<Rightarrow> 5)"

lemma membership_roundtrip: "membership_from_str (membership_as_str m) = Some m"
  by (cases m) (simp_all add: membership_from_str_def membership_as_str_def bytes_of_def)

section \<open>Handlers\<close>

record 'f logs_query =
  lq_limit :: "nat option"
  lq_offset :: "nat option"
  lq_reverse :: "bool option"
  lq_from_date :: "int option"
  lq_to_date :: "int option"
  lq_user_id :: "bytes option"
  lq_email :: "bytes option"
  lq_membership_type :: "bytes option"
  lq_status :: "bytes option"
  lq_model :: "bytes option"
  lq_include_models :: "bytes list option"
  lq_exclude_models :: "bytes list option"
  lq_stream :: "bool option"
  lq_has_chain :: "bool option"
  lq_has_error :: "bool option"
  lq_error :: "bytes option"
  lq_min_total_time :: "'f option"
  lq_max_total_time :: "'f option"
  lq_min_tokens :: "32 word option"
  lq_max_tokens :: "32 word option"

datatype logs_error = LogsUnauthorized | LogsBadRequest

record ('p, 'f) logs_response =
  lr_total :: nat
  lr_active :: "u64 option"
  lr_error :: "u64 option"
  lr_logs :: "('p, 'f) request_log list"

definition no_logs :: "('p, 'f) logs_response" where
  "no_logs = \<lparr>lr_total = 0, lr_active = None, lr_error = None, lr_logs = []\<rparr>"

text \<open>The key a credential other than the administrator's stands for.\<close>

definition user_key :: "auth_env \<Rightarrow> bytes \<Rightarrow> token_key option ub" where
  "user_key e auth_token = do {
     k \<leftarrow> token_key_from_string (au_big e) auth_token;
     (case k of
        Some k \<Rightarrow> Some (Some k)
      | None \<Rightarrow> do {
          parsed \<leftarrow> parse_dynamic_token e auth_token;
          Some (do {
            key \<leftarrow> parsed;
            i \<leftarrow> ck_token_info key;
            raw \<leftarrow> key_token_into_raw (au_big e) (au_providers e) (ki_token i);
            Some (raw_key raw)
          })
        })
   }"

definition logs_params ::
  "token_key option \<Rightarrow> LogStatus option \<Rightarrow> MembershipType option \<Rightarrow> UserId option \<Rightarrow> 'f logs_query \<Rightarrow> 'f get_logs_params" where
  "logs_params user_token status_enum membership_enum parsed_user_id q =
     \<lparr>q_token_key = user_token, q_log_status = status_enum, q_membership_type = map_option membership_code membership_enum,
      q_user_id = parsed_user_id, q_from_date = lq_from_date q, q_to_date = lq_to_date q, q_email = lq_email q,
      q_model = lq_model q, q_include_models = lq_include_models q, q_exclude_models = lq_exclude_models q,
      q_stream = lq_stream q, q_has_chain = lq_has_chain q, q_has_error = lq_has_error q, q_error = lq_error q,
      q_min_total_time = lq_min_total_time q, q_max_total_time = lq_max_total_time q,
      q_min_tokens = lq_min_tokens q, q_max_tokens = lq_max_tokens q,
      q_reverse = (case lq_reverse q of Some b \<Rightarrow> b | None \<Rightarrow> False),
      q_offset = (case lq_offset q of Some n \<Rightarrow> n | None \<Rightarrow> 0),
      q_limit = (case lq_limit q of Some n \<Rightarrow> n | None \<Rightarrow> USIZE_MAX)\<rparr>"

definition ask_logs :: "('p, 'f) log_env \<Rightarrow> 'f get_logs_params \<Rightarrow> ('p, 'f) log_manager
    \<Rightarrow> ((nat \<times> ('p, 'f) request_log list) \<times> ('p, 'f) log_manager) ub" where
  "ask_logs le q m = do {
     (r, m) \<leftarrow> handle_command le (GetLogs q True) m;
     (case r of RLogs n ls \<Rightarrow> Some ((n, ls), m) | _ \<Rightarrow> None)
   }"

definition ask_token :: "('p, 'f) log_env \<Rightarrow> token_key \<Rightarrow> ('p, 'f) log_manager
    \<Rightarrow> (ext_token option \<times> ('p, 'f) log_manager) ub" where
  "ask_token le k m = do {
     (r, m) \<leftarrow> handle_command le (GetToken k True) m;
     (case r of RToken t \<Rightarrow> Some (t, m) | _ \<Rightarrow> None)
   }"

definition ask_tokens :: "('p, 'f) log_env \<Rightarrow> (bytes \<times> token_key) list \<Rightarrow> ('p, 'f) log_manager
    \<Rightarrow> ((bytes \<rightharpoonup> ext_token option) \<times> ('p, 'f) log_manager) ub" where
  "ask_tokens le ks m = do {
     (r, m) \<leftarrow> handle_command le (GetTokens ks True) m;
     (case r of RTokens t \<Rightarrow> Some (t, m) | _ \<Rightarrow> None)
   }"

text \<open>\<open>active\<close> and \<open>errors\<close> are the counters of the application state.\<close>

definition logs_answer ::
  "auth_env \<Rightarrow> ('p, 'f) log_env \<Rightarrow> u64 \<Rightarrow> u64 \<Rightarrow> token_key option \<Rightarrow> 'f logs_query \<Rightarrow> ('p, 'f) log_manager
   \<Rightarrow> ((logs_error + ('p, 'f) logs_response) \<times> ('p, 'f) log_manager) ub" where
  "logs_answer e le active errors user_token q m =
     (let status_enum = map_option from_str_name (lq_status q);
          membership_enum = map_option membership_from_str (lq_membership_type q);
          parsed_user_id = map_option (user_id_from_str (au_big e)) (lq_user_id q)
      in if status_enum = Some None \<or> membership_enum = Some None then Some (Inr no_logs, m)
         else case parsed_user_id of
           Some (Inl _) \<Rightarrow> Some (Inl LogsBadRequest, m)
         | _ \<Rightarrow> do {
             let uid = (case parsed_user_id of Some (Inr u) \<Rightarrow> Some u | _ \<Rightarrow> None);
             ((total, ls), m) \<leftarrow> ask_logs le
               (logs_params user_token (Option.bind status_enum id) (Option.bind membership_enum id) uid q) m;
             Some (Inr \<lparr>lr_total = total,
                lr_active = (if user_token \<noteq> None then None else Some active),
                lr_error = (if user_token \<noteq> None then None else Some errors), lr_logs = ls\<rparr>, m)
           })"

definition handle_get_logs ::
  "auth_env \<Rightarrow> ('p, 'f) log_env \<Rightarrow> u64 \<Rightarrow> u64 \<Rightarrow> bytes option \<Rightarrow> 'f logs_query \<Rightarrow> ('p, 'f) log_manager
   \<Rightarrow> ((logs_error + ('p, 'f) logs_response) \<times> ('p, 'f) log_manager) ub" where
  "handle_get_logs e le active errors authorization q m =
     (case Option.bind authorization (strip_prefix BEARER) of
        None \<Rightarrow> Some (Inl LogsUnauthorized, m)
      | Some auth_token \<Rightarrow>
          if auth_token \<noteq> au_AUTH_TOKEN e then do {
            k \<leftarrow> user_key e auth_token;
            (case k of
               None \<Rightarrow> Some (Inl LogsUnauthorized, m)
             | Some k \<Rightarrow> logs_answer e le active errors (Some k) q m)
          }
          else logs_answer e le active errors None q m)"

record logs_tokens_response =
  ltr_tokens :: "bytes \<rightharpoonup> ext_token option"
  ltr_total :: nat

fun parse_keys :: "bool \<Rightarrow> bytes list \<Rightarrow> (bytes \<times> token_key) list ub" where
  "parse_keys big [] = Some []"
| "parse_keys big (s # ss) = do {
     k \<leftarrow> token_key_from_string big s;
     ks \<leftarrow> parse_keys big ss;
     Some (case k of Some k \<Rightarrow> (s, k) # ks | None \<Rightarrow> ks)
   }"

text \<open>\<open>keys\<close> is the set of the request in the order of its iteration.\<close>

definition handle_get_logs_tokens ::
  "auth_env \<Rightarrow> ('p, 'f) log_env \<Rightarrow> bytes option \<Rightarrow> bytes list \<Rightarrow> ('p, 'f) log_manager
   \<Rightarrow> ((logs_error + logs_tokens_response) \<times> ('p, 'f) log_manager) ub" where
  "handle_get_logs_tokens e le authorization keys m =
     (case Option.bind authorization (strip_prefix BEARER) of
        None \<Rightarrow> Some (Inl LogsUnauthorized, m)
      | Some auth_token \<Rightarrow>
          if auth_token = au_AUTH_TOKEN e then do {
            ks \<leftarrow> parse_keys (au_big e) keys;
            (t, m) \<leftarrow> ask_tokens le ks m;
            Some (Inr \<lparr>ltr_tokens = t, ltr_total = length ks\<rparr>, m)
          }
          else do {
            k \<leftarrow> user_key e auth_token;
            (case k of
               None \<Rightarrow> Some (Inl LogsUnauthorized, m)
             | Some token_key \<Rightarrow>
                 (case keys of
                    [key_str] \<Rightarrow> do {
                      key \<leftarrow> token_key_from_string (au_big e) key_str;
                      (case key of
                         Some key \<Rightarrow>
                           if key = token_key then do {
                             (t, m) \<leftarrow> ask_token le token_key m;
                             Some (Inr \<lparr>ltr_tokens = [key_str \<mapsto> t], ltr_total = 1\<rparr>, m)
                           }
                           else Some (Inl LogsUnauthorized, m)
                       | None \<Rightarrow> Some (Inl LogsBadRequest, m))
                    }
                  | _ \<Rightarrow> Some (Inl LogsUnauthorized, m)))
          })"

section \<open>Who sees what\<close>

lemma user_key_defined: "\<exists>k. user_key e t = Some k"
proof -
  obtain k where "token_key_from_string (au_big e) t = Some k" using token_key_from_string_safe by blast
  moreover obtain p where "parse_dynamic_token e t = Some p" using parse_dynamic_token_defined by blast
  ultimately show ?thesis by (simp add: user_key_def split: option.split)
qed

lemma parse_keys_defined: "\<exists>ks. parse_keys big ss = Some ks"
proof (induction ss)
  case (Cons s ss)
  then show ?case using token_key_from_string_safe [of big s] by auto
qed simp

text \<open>The entries a query asks for, said of each entry by itself: every part of the query that is present holds of it.\<close>

definition wanted ::
  "bool \<Rightarrow> ('p, 'f) log_env \<Rightarrow> (token_key \<rightharpoonup> associated_token) \<Rightarrow> token_key option \<Rightarrow> 'f logs_query \<Rightarrow> ('p, 'f) request_log \<Rightarrow> bool" where
  "wanted big le toks key q l \<longleftrightarrow>
     (\<forall>k. key = Some k \<longrightarrow> log_key l = k)
     \<and> (\<forall>s. lq_status q = Some s \<longrightarrow> from_str_name s = Some (log_status l))
     \<and> (\<forall>s. lq_membership_type q = Some s \<longrightarrow>
          (\<exists>t p. membership_from_str s = Some t \<and> lt_stripe (log_token l) = Some p \<and> membership_of le p = membership_code t))
     \<and> (\<forall>s. lq_user_id q = Some s \<longrightarrow>
          (\<exists>a. toks (log_key l) = Some a \<and> user_id_from_str big s = Inr (sub_id (raw_subject (tok_raw (primary_token (at_token a)))))))
     \<and> (\<forall>d. lq_from_date q = Some d \<longrightarrow> d \<le> timestamp l) \<and> (\<forall>d. lq_to_date q = Some d \<longrightarrow> timestamp l \<le> d)
     \<and> (\<forall>s. lq_email q = Some s \<longrightarrow> (\<exists>a. Option.bind (lt_user (log_token l)) email = Some a \<and> contains a s))
     \<and> (\<forall>s. lq_model q = Some s \<longrightarrow> contains (log_model l) s)
     \<and> (\<forall>ms. lq_include_models q = Some ms \<longrightarrow> log_model l \<in> set ms) \<and> (\<forall>ms. lq_exclude_models q = Some ms \<longrightarrow> log_model l \<notin> set ms)
     \<and> (\<forall>b. lq_stream q = Some b \<longrightarrow> log_stream l = b) \<and> (\<forall>b. lq_has_chain q = Some b \<longrightarrow> chain_has_some (log_chain l) = b)
     \<and> (\<forall>b. lq_has_error q = Some b \<longrightarrow> (log_error l \<noteq> NoError) = b)
     \<and> (\<forall>s. lq_error q = Some s \<longrightarrow> error_contains (log_error l) s)
     \<and> (\<forall>t. lq_min_total_time q = Some t \<longrightarrow> \<not> f_less le (total_time l) t) \<and> (\<forall>t. lq_max_total_time q = Some t \<longrightarrow> \<not> f_less le t (total_time l))
     \<and> (\<forall>n. lq_min_tokens q = Some n \<longrightarrow> (\<exists>u. chain_usage (log_chain l) = Some u \<and> sint n \<le> sint (usage_total u)))
     \<and> (\<forall>n. lq_max_tokens q = Some n \<longrightarrow> (\<exists>u. chain_usage (log_chain l) = Some u \<and> sint (usage_total u) \<le> sint n))"

text \<open>What a query is answered with: nothing when it names no status or membership there is, an error when its user is
  malformed, and otherwise a window on the wanted entries with their number, and the counters for the administrator.\<close>

definition answer_to ::
  "bool \<Rightarrow> ('p, 'f) log_env \<Rightarrow> u64 \<Rightarrow> u64 \<Rightarrow> token_key option \<Rightarrow> 'f logs_query \<Rightarrow> ('p, 'f) log_manager \<Rightarrow> logs_error + ('p, 'f) logs_response" where
  "answer_to big le active errors key q m =
     (let found = filter (wanted big le (log_tokens m) key q) (logs m)
      in if map_option from_str_name (lq_status q) = Some None \<or> map_option membership_from_str (lq_membership_type q) = Some None
         then Inr \<lparr>lr_total = 0, lr_active = None, lr_error = None, lr_logs = []\<rparr>
         else if \<exists>s x. lq_user_id q = Some s \<and> user_id_from_str big s = Inl x then Inl LogsBadRequest
         else Inr \<lparr>lr_total = length found, lr_active = (if key = None then Some active else None),
                   lr_error = (if key = None then Some errors else None),
                   lr_logs = take (case lq_limit q of Some n \<Rightarrow> n | None \<Rightarrow> USIZE_MAX)
                     (drop (case lq_offset q of Some n \<Rightarrow> n | None \<Rightarrow> 0) (if lq_reverse q = Some True then rev found else found))\<rparr>)"

lemma filter_logs_filter: "filter_logs le toks q ls = Some r \<Longrightarrow> r = filter (\<lambda>l. keeps_log le toks q l = Some True) ls"
  by (induction ls arbitrary: r) (auto simp: bind_eq_Some_conv)

lemma not_reject: "\<not> reject z P \<longleftrightarrow> (\<forall>x. z = Some x \<longrightarrow> \<not> P x)"
  by (cases z) (simp_all add: reject_def)

lemma not_case_or_none: "\<not> (case z of Some p \<Rightarrow> P p | None \<Rightarrow> True) \<longleftrightarrow> (\<exists>p. z = Some p \<and> \<not> P p)"
  by (cases z) simp_all

lemma case_or_false: "(case z of Some p \<Rightarrow> P p | None \<Rightarrow> False) \<longleftrightarrow> (\<exists>p. z = Some p \<and> P p)"
  by (cases z) simp_all

lemmas rejection = not_reject not_case_or_none case_or_false not_not not_less

lemma tests_wanted:
  assumes "map_option from_str_name (lq_status q) = map_option Some st" "map_option membership_from_str (lq_membership_type q) = map_option Some mt"
  shows "before_user_test (logs_params key st mt uid q) l \<and> after_user_test le (logs_params key st mt uid q) l \<and>
      (\<forall>s. lq_user_id q = Some s \<longrightarrow>
          (\<exists>a. toks (log_key l) = Some a \<and> user_id_from_str big s = Inr (sub_id (raw_subject (tok_raw (primary_token (at_token a)))))))
    \<longleftrightarrow> wanted big le toks key q l"
proof -
  have st: "(\<forall>t. st = Some t \<longrightarrow> log_status l = t) \<longleftrightarrow> (\<forall>s. lq_status q = Some s \<longrightarrow> from_str_name s = Some (log_status l))"
    using assms(1) by (cases "lq_status q"; cases st) auto
  have mt: "(\<forall>t. map_option membership_code mt = Some t \<longrightarrow> (\<exists>p. lt_stripe (log_token l) = Some p \<and> membership_of le p = t)) \<longleftrightarrow>
      (\<forall>s. lq_membership_type q = Some s \<longrightarrow>
        (\<exists>t p. membership_from_str s = Some t \<and> lt_stripe (log_token l) = Some p \<and> membership_of le p = membership_code t))"
    using assms(2) by (cases "lq_membership_type q"; cases mt) auto
  have ms: "(\<not> list_all (\<lambda>m. log_model l \<noteq> m) x) = (log_model l \<in> set x)" "(\<not> list_ex (\<lambda>m. log_model l = m) x) = (log_model l \<notin> set x)" for x
    by (auto simp: list_all_iff list_ex_iff)
  show ?thesis
    unfolding wanted_def before_user_test_def after_user_test_def logs_params_def get_logs_params.select_convs rejection
      ms st mt error_is_some_def
    by (simp only: conj_ac)
qed

lemma keeps_wanted:
  assumes "keeps_log le toks (logs_params key st mt uid q) l = Some b"
    and "map_option from_str_name (lq_status q) = map_option Some st" "map_option membership_from_str (lq_membership_type q) = map_option Some mt"
    and "map_option (user_id_from_str big) (lq_user_id q) = map_option Inr uid"
  shows "b \<longleftrightarrow> wanted big le toks key q l"
proof -
  have "b \<longleftrightarrow> before_user_test (logs_params key st mt uid q) l \<and> after_user_test le (logs_params key st mt uid q) l
      \<and> (\<forall>s. lq_user_id q = Some s \<longrightarrow>
          (\<exists>a. toks (log_key l) = Some a \<and> user_id_from_str big s = Inr (sub_id (raw_subject (tok_raw (primary_token (at_token a)))))))"
    using assms(1,4)
    by (cases "lq_user_id q"; cases uid) (auto simp: keeps_log_def user_rejected_def logs_params_def split: if_splits option.splits)
  then show ?thesis using tests_wanted [OF assms(2,3)] by simp
qed

lemma logs_answer_eq:
  assumes "log_inv limit m"
  shows "logs_answer e le active errors key q m = Some (answer_to (au_big e) le active errors key q m, m)"
proof -
  let ?st = "map_option from_str_name (lq_status q)" and ?mt = "map_option membership_from_str (lq_membership_type q)"
    and ?uid = "map_option (user_id_from_str (au_big e)) (lq_user_id q)"
  have some: "\<exists>y. z = map_option Some y" if "z \<noteq> Some None" for z :: "'z option option"
    using that by (intro exI [of _ "Option.bind z id"], cases z; cases "the z") auto
  have inr: "\<exists>y. z = map_option Inr y" if "\<nexists>x. z = Some (Inl x)" for z :: "('y + 'z) option"
    using that by (intro exI [of _ "Option.bind z (\<lambda>r. case r of Inr y \<Rightarrow> Some y | Inl _ \<Rightarrow> None)"], cases z; cases "the z") auto
  consider (no) "?st = Some None \<or> ?mt = Some None" | (bad) "?st \<noteq> Some None" "?mt \<noteq> Some None" "\<exists>x. ?uid = Some (Inl x)"
    | (3) st mt uid where "?st = map_option Some st" "?mt = map_option Some mt" "?uid = map_option Inr uid"
    using some [of ?st] some [of ?mt] inr [of ?uid] by metis
  then show ?thesis
  proof cases
    case 3
    let ?p = "logs_params key st mt uid q"
    obtain r where r: "filter_logs le (log_tokens m) ?p (logs m) = Some r"
      using filter_logs_total [of "logs m" "log_tokens m" le ?p] log_inv_token [OF assms] by blast
    have "keeps_log le (log_tokens m) ?p l = Some True \<longleftrightarrow> wanted (au_big e) le (log_tokens m) key q l" if "l \<in> set (logs m)" for l
    proof -
      have "\<exists>b. keeps_log le (log_tokens m) ?p l = Some b"
        using log_inv_token [OF assms that] by (auto simp: keeps_log_def user_rejected_def split: option.splits)
      then show ?thesis using keeps_wanted [OF _ 3, of le "log_tokens m" key l] by auto
    qed
    then have found: "r = filter (wanted (au_big e) le (log_tokens m) key q) (logs m)"
      using filter_logs_filter [OF r] by (simp cong: filter_cong)
    have ask: "ask_logs le ?p m = Some ((length r, take (q_limit ?p) (drop (q_offset ?p) (if q_reverse ?p then rev r else r))), m)"
      by (simp add: ask_logs_def get_logs_def answer_def r)
    have no: "\<not> (\<exists>s x. lq_user_id q = Some s \<and> user_id_from_str (au_big e) s = Inl x)" "\<not> (?st = Some None \<or> ?mt = Some None)"
      using 3 by (cases uid; cases st; cases mt; auto)+
    have "logs_answer e le active errors key q m = do { ((total, ls), m) \<leftarrow> ask_logs le ?p m;
        Some (Inr \<lparr>lr_total = total, lr_active = (if key \<noteq> None then None else Some active),
          lr_error = (if key \<noteq> None then None else Some errors), lr_logs = ls\<rparr>, m) }"
      unfolding logs_answer_def 3 by (cases uid; cases st; cases mt; cases key) (simp_all add: Let_def)
    then show ?thesis
      unfolding ask found answer_to_def Let_def if_not_P [OF no(2)] if_not_P [OF no(1)]
      by (cases key; cases "lq_reverse q") (simp_all add: logs_params_def)
  qed (auto simp: logs_answer_def answer_to_def no_logs_def Let_def split: sum.splits option.splits)
qed

text \<open>The key a credential stands for: it is the printed key itself, or a dynamic key with the token in it.\<close>

definition credential_key :: "auth_env \<Rightarrow> bytes \<Rightarrow> token_key option" where
  "credential_key e t =
     (case token_key_from_string (au_big e) t of
        Some (Some k) \<Rightarrow> Some k
      | _ \<Rightarrow> (case parse_dynamic_token e t of
               Some (Some c) \<Rightarrow>
                 map_option raw_key (Option.bind (ck_token_info c) (\<lambda>i. key_token_into_raw (au_big e) (au_providers e) (ki_token i)))
             | _ \<Rightarrow> None))"

lemma user_key_credential: "user_key e t = Some (credential_key e t)"
proof -
  obtain k where "token_key_from_string (au_big e) t = Some k" using token_key_from_string_safe by blast
  moreover obtain p where "parse_dynamic_token e t = Some p" using parse_dynamic_token_defined by blast
  ultimately show ?thesis
    by (cases k; cases p; cases "ck_token_info (the p)") (simp_all add: user_key_def credential_key_def map_option_case bind_eq_Some_conv split: option.split)
qed

definition token_seen :: "('p, 'f) log_manager \<Rightarrow> token_key \<Rightarrow> ext_token option" where
  "token_seen m k = map_option (\<lambda>a. ext_clone (at_token a)) (log_tokens m k)"

definition seen_tokens :: "bool \<Rightarrow> bytes list \<Rightarrow> ('p, 'f) log_manager \<Rightarrow> bytes \<rightharpoonup> ext_token option" where
  "seen_tokens big keys m s =
     (if s \<in> set keys then (case token_key_from_string big s of Some (Some k) \<Rightarrow> Some (token_seen m k) | _ \<Rightarrow> None) else None)"

lemma get_tokens_loop_map:
  assumes "parse_keys big keys = Some ks"
  shows "get_tokens_loop toks ks r = (\<lambda>s. if s \<in> set keys then
      (case token_key_from_string big s of Some (Some k) \<Rightarrow> Some (map_option (\<lambda>a. ext_clone (at_token a)) (toks k)) | _ \<Rightarrow> r s) else r s)
    \<and> length ks = length (filter (\<lambda>s. token_key_from_string big s \<noteq> Some None) keys)"
  using assms
proof (induction keys arbitrary: ks r)
  case (Cons s ss)
  then obtain k ks' where k: "token_key_from_string big s = Some k" "parse_keys big ss = Some ks'"
    "ks = (case k of Some k \<Rightarrow> (s, k) # ks' | None \<Rightarrow> ks')" by (auto simp: bind_eq_Some_conv)
  with Cons.IH [OF k(2)] show ?case by (cases k) (auto intro!: ext split: option.splits)
qed simp

definition own_logs :: "token_key \<Rightarrow> ('p, 'f) log_manager \<Rightarrow> ('p, 'f) logs_response \<Rightarrow> bool" where
  "own_logs k m a \<longleftrightarrow> lr_active a = None \<and> lr_error a = None \<and> lr_total a \<le> refs (logs m) k \<and>
     (\<forall>l \<in> set (lr_logs a). l \<in> set (logs m) \<and> log_key l = k)"

lemma answer_to_own:
  assumes "answer_to big le active errors (Some k) q m = Inr a"
  shows "own_logs k m a"
proof -
  let ?f = "filter (wanted big le (log_tokens m) (Some k) q) (logs m)"
    and ?no = "map_option from_str_name (lq_status q) = Some None \<or> map_option membership_from_str (lq_membership_type q) = Some None"
    and ?bad = "\<exists>s x. lq_user_id q = Some s \<and> user_id_from_str big s = Inl x"
  have own: "log_key l = k" if "wanted big le (log_tokens m) (Some k) q l" for l
    using that by (simp add: wanted_def)
  have count: "length (filter (wanted big le (log_tokens m) (Some k) q) ls) \<le> refs ls k" for ls
    using own by (induction ls) (auto simp: refs_def)
  have shown: "l \<in> set (logs m) \<and> log_key l = k" if "l \<in> set (take n (drop j (if b then rev ?f else ?f)))" for n j b l
    using own in_set_dropD [OF in_set_takeD [OF that]] by (cases b) auto
  show ?thesis
  proof (cases ?no)
    case True
    then have "a = \<lparr>lr_total = 0, lr_active = None, lr_error = None, lr_logs = []\<rparr>"
      using assms by (simp only: answer_to_def Let_def if_True sum.inject)
    then show ?thesis by (simp add: own_logs_def)
  next
    case no: False
    have bad: "\<not> ?bad" using assms no by (cases ?bad) (simp_all only: answer_to_def Let_def if_True if_False sum.simps not_False_eq_True)
    note eq = assms [unfolded answer_to_def Let_def if_not_P [OF no] if_not_P [OF bad] sum.inject, symmetric]
    have "lr_total a \<le> refs (logs m) k" "lr_active a = None" "lr_error a = None"
      unfolding eq logs_response.select_convs using count [of "logs m"] by simp_all
    moreover have "l \<in> set (logs m) \<and> log_key l = k" if "l \<in> set (lr_logs a)" for l
      by (rule shown) (rule that [unfolded eq logs_response.select_convs])
    ultimately show ?thesis by (simp add: own_logs_def)
  qed
qed

text \<open>C13: The log routes answer every request without changing the log, and whom they show what.  Without a credential, or with
  one that stands for nothing, the request is refused.  The administrator gets every entry his query asks for, their number and the
  counters, and the tokens seen for all keys he names.  Anybody else gets the entries his query asks for among those of
  the key his credential stands for, without the counters and without the number of entries of others, and the token of that
  key alone, when he names just this key.\<close>

theorem logs_private:
  fixes m :: "('p, 'f) log_manager"
  assumes "log_inv limit m"
  shows "\<exists>r rt. handle_get_logs e le active errors authorization q m = Some (r, m) \<and>
    handle_get_logs_tokens e le authorization keys m = Some (rt, m) \<and>
    (case Option.bind authorization (strip_prefix BEARER) of
       None \<Rightarrow> r = Inl LogsUnauthorized \<and> rt = Inl LogsUnauthorized
     | Some t \<Rightarrow>
         if t = au_AUTH_TOKEN e then
           r = answer_to (au_big e) le active errors None q m \<and>
           rt = Inr \<lparr>ltr_tokens = seen_tokens (au_big e) keys m,
                     ltr_total = length (filter (\<lambda>s. token_key_from_string (au_big e) s \<noteq> Some None) keys)\<rparr>
         else case credential_key e t of
           Some k \<Rightarrow>
             r = answer_to (au_big e) le active errors (Some k) q m \<and> (\<forall>a. r = Inr a \<longrightarrow> own_logs k m a) \<and>
             rt = (case keys of
                     [s] \<Rightarrow> if token_key_from_string (au_big e) s = Some None then Inl LogsBadRequest
                            else if token_key_from_string (au_big e) s = Some (Some k)
                            then Inr \<lparr>ltr_tokens = [s \<mapsto> token_seen m k], ltr_total = 1\<rparr>
                            else Inl LogsUnauthorized
                   | _ \<Rightarrow> Inl LogsUnauthorized)
         | None \<Rightarrow> r = Inl LogsUnauthorized \<and> rt = Inl LogsUnauthorized)"
proof (cases "Option.bind authorization (strip_prefix BEARER)")
  case None
  then show ?thesis by (simp add: handle_get_logs_def handle_get_logs_tokens_def)
next
  case (Some t)
  note eq = logs_answer_eq [OF assms, of e le active errors]
  show ?thesis
  proof (cases "t = au_AUTH_TOKEN e")
    case True
    obtain ks where ks: "parse_keys (au_big e) keys = Some ks" using parse_keys_defined by blast
    have "get_tokens_loop (log_tokens m) ks Map.empty = seen_tokens (au_big e) keys m"
      using get_tokens_loop_map [OF ks, of "log_tokens m" Map.empty] by (auto simp: seen_tokens_def token_seen_def intro!: ext split: option.splits)
    then show ?thesis
      using Some True get_tokens_loop_map [OF ks]
      by (simp add: handle_get_logs_def handle_get_logs_tokens_def ask_tokens_def answer_def eq ks)
  next
    case False
    show ?thesis
    proof (cases "credential_key e t")
      case None
      then show ?thesis using Some False by (simp add: handle_get_logs_def handle_get_logs_tokens_def user_key_credential)
    next
      case k: (Some k)
      have logs: "handle_get_logs e le active errors authorization q m = Some (answer_to (au_big e) le active errors (Some k) q m, m)"
        using Some False k by (simp add: handle_get_logs_def user_key_credential eq)
      have "handle_get_logs_tokens e le authorization keys m = Some
          (case keys of
             [s] \<Rightarrow> if token_key_from_string (au_big e) s = Some None then Inl LogsBadRequest
                    else if token_key_from_string (au_big e) s = Some (Some k)
                    then Inr \<lparr>ltr_tokens = [s \<mapsto> token_seen m k], ltr_total = 1\<rparr>
                    else Inl LogsUnauthorized
           | _ \<Rightarrow> Inl LogsUnauthorized, m)"
      proof (cases "\<exists>s. keys = [s]")
        case True
        then obtain s where s: "keys = [s]" by blast
        obtain key where "token_key_from_string (au_big e) s = Some key" using token_key_from_string_safe by blast
        then show ?thesis
          using Some False k s
          by (cases key) (simp_all add: handle_get_logs_tokens_def ask_token_def answer_def user_key_credential token_seen_def)
      next
        case nonsingle: False
        then show ?thesis
          using Some False k by (cases keys) (auto simp: handle_get_logs_tokens_def user_key_credential split: list.split)
      qed
      then show ?thesis using Some False k logs answer_to_own by (auto intro: answer_to_own)
    qed
  qed
qed

definition sample_logs :: "(unit, nat) log_manager" where
  "sample_logs = \<lparr>logs = [sample_log 1 1, sample_log 2 2],
     log_tokens =
       [\<lparr>user_id = UserId 7 0, randomness = 1\<rparr> \<mapsto> \<lparr>at_token = ext_bundle (sample_info 1 True), ref_count = 1\<rparr>,
        \<lparr>user_id = UserId 7 0, randomness = 2\<rparr> \<mapsto> \<lparr>at_token = ext_bundle (sample_info 2 True), ref_count = 1\<rparr>]\<rparr>"

definition sample_query :: "nat logs_query" where
  "sample_query = \<lparr>lq_limit = None, lq_offset = None, lq_reverse = None, lq_from_date = None, lq_to_date = None, lq_user_id = None,
     lq_email = None, lq_membership_type = None, lq_status = None, lq_model = None, lq_include_models = None,
     lq_exclude_models = None, lq_stream = None, lq_has_chain = None, lq_has_error = None, lq_error = None,
     lq_min_total_time = None, lq_max_total_time = None, lq_min_tokens = None, lq_max_tokens = None\<rparr>"

lemma sample_logs_inv: "log_inv 2 sample_logs"
  by (auto simp: log_inv_def counts_ok_def sample_logs_def refs_def sample_log_def log_key_def)

text \<open>Two entries of two keys: the administrator sees both, the owner of the first key the first one only, nobody else anything.\<close>

theorem logs_private_witness:
  "\<exists>s1 s2. token_key_from_string False s1 = Some (Some \<lparr>user_id = UserId 7 0, randomness = 1\<rparr>) \<and>
     token_key_from_string False s2 = Some (Some \<lparr>user_id = UserId 7 0, randomness = 2\<rparr>) \<and>
     handle_get_logs sample_env sample_log_env 5 3 (Some (BEARER @ bytes_of ''secret'')) sample_query sample_logs
       = Some (Inr \<lparr>lr_total = 2, lr_active = Some 5, lr_error = Some 3, lr_logs = [sample_log 1 1, sample_log 2 2]\<rparr>, sample_logs) \<and>
     handle_get_logs_tokens sample_env sample_log_env (Some (BEARER @ bytes_of ''secret'')) [s1, s2] sample_logs
       = Some (Inr \<lparr>ltr_tokens = [s1 \<mapsto> Some (ext_clone (ext_bundle (sample_info 1 True))), s2 \<mapsto> Some (ext_clone (ext_bundle (sample_info 2 True)))],
                    ltr_total = 2\<rparr>, sample_logs) \<and>
     handle_get_logs sample_env sample_log_env 5 3 (Some (BEARER @ s1)) sample_query sample_logs
       = Some (Inr \<lparr>lr_total = 1, lr_active = None, lr_error = None, lr_logs = [sample_log 1 1]\<rparr>, sample_logs) \<and>
     handle_get_logs_tokens sample_env sample_log_env (Some (BEARER @ s1)) [s2] sample_logs = Some (Inl LogsUnauthorized, sample_logs) \<and>
     handle_get_logs sample_env sample_log_env 5 3 (Some (BEARER @ bytes_of ''nobody'')) sample_query sample_logs
       = Some (Inl LogsUnauthorized, sample_logs)"
proof -
  let ?k1 = "\<lparr>user_id = UserId 7 0, randomness = 1\<rparr>" and ?k2 = "\<lparr>user_id = UserId 7 0, randomness = 2\<rparr>"
  obtain s1 s2 where s: "token_key_from_string False s1 = Some (Some ?k1)" "token_key_from_string False s2 = Some (Some ?k2)" "length s1 = 32"
    using token_key_roundtrip [of False ?k1] token_key_roundtrip [of False ?k2] by blast
  note shown = logs_private [OF sample_logs_inv, of sample_env sample_log_env 5 3 _ sample_query]
  have bearer: "Option.bind (Some (BEARER @ t)) (strip_prefix BEARER) = Some t" for t by (simp add: strip_prefix_def)
  have env: "au_big sample_env = False" "au_AUTH_TOKEN sample_env = bytes_of ''secret''" by (simp_all add: sample_env_def)
  have other: "s1 \<noteq> bytes_of ''secret''" "bytes_of ''nobody'' \<noteq> bytes_of ''secret''" "s1 \<noteq> s2"
    using s by (auto simp: bytes_of_def)
  have key: "credential_key sample_env s1 = Some ?k1" by (simp add: credential_key_def env s)
  have none: "credential_key sample_env (bytes_of ''nobody'') = None"
    by (simp add: credential_key_def token_key_from_string_def parse_dynamic_token_def sample_env_def bytes_of_def strip_prefix_def is_ascii_digit_def)
  have all: "wanted False sample_log_env toks None sample_query l" for toks l
    by (simp add: wanted_def sample_query_def)
  have own: "wanted False sample_log_env toks (Some k) sample_query l \<longleftrightarrow> log_key l = k" for toks k l
    by (auto simp: wanted_def sample_query_def)
  have answers: "answer_to False sample_log_env 5 3 None sample_query sample_logs
      = Inr \<lparr>lr_total = 2, lr_active = Some 5, lr_error = Some 3, lr_logs = [sample_log 1 1, sample_log 2 2]\<rparr>"
    "answer_to False sample_log_env 5 3 (Some ?k1) sample_query sample_logs
      = Inr \<lparr>lr_total = 1, lr_active = None, lr_error = None, lr_logs = [sample_log 1 1]\<rparr>"
    by (simp_all add: answer_to_def all own sample_logs_def)
       (simp_all add: sample_query_def sample_log_def log_key_def USIZE_MAX_def)
  have seen: "seen_tokens False [s1, s2] sample_logs =
      [s1 \<mapsto> Some (ext_clone (ext_bundle (sample_info 1 True))), s2 \<mapsto> Some (ext_clone (ext_bundle (sample_info 2 True)))]"
    using other(3) s by (auto simp: seen_tokens_def token_seen_def sample_logs_def)
  show ?thesis
    using shown [of "Some (BEARER @ bytes_of ''secret'')" "[s1, s2]"] shown [of "Some (BEARER @ s1)" "[s2]"]
      shown [of "Some (BEARER @ bytes_of ''nobody'')" "[]"] s(1,2)
    unfolding bearer
    by (intro exI [of _ s1] exI [of _ s2]) (simp add: env other key none answers seen s)
qed

end
