(* ===== verification/Natural_Args.thy ===== *)
theory Natural_Args
  imports Adapter
begin

text \<open>
  Command lines in natural language: \<^verbatim>\<open>src/natural_args.rs\<close>.  The words of the arguments become tokens, the tokens actions,
  and the actions change the environment of the process before the server starts.  The loader of environment files is a
  parameter; arguments are valid UTF-8.
\<close>

section \<open>Tokens\<close>

datatype cli_token =
  TImport | TEnv | TFrom | TListen | TOn | TPort | THelp | TQuestion | TOverride | TOverriding | TAnd | TExisting
  | TString bytes | TNumber bytes

datatype cli_action = ImportEnv "bytes option" bool | Listen "bytes option" "bytes option" | Help

definition TOKEN_WORDS :: "(bytes \<times> cli_token) list" where
  "TOKEN_WORDS =
     [(bytes_of ''import'', TImport), (bytes_of ''env'', TEnv), (bytes_of ''from'', TFrom), (bytes_of ''listen'', TListen),
      (bytes_of ''on'', TOn), (bytes_of ''port'', TPort), (bytes_of ''help'', THelp), (bytes_of ''?'', TQuestion),
      (bytes_of ''override'', TOverride), (bytes_of ''overriding'', TOverriding), (bytes_of ''and'', TAnd),
      (bytes_of ''existing'', TExisting)]"

definition classify :: "bytes \<Rightarrow> cli_token" where
  "classify word =
     (case map_of TOKEN_WORDS word of
        Some t \<Rightarrow> t
      | None \<Rightarrow> if parse_unsigned 16 word \<noteq> None then TNumber word else TString word)"

text \<open>\<^verbatim>\<open>split_whitespace\<close> on the characters of a text.\<close>

function split_chars :: "bytes list \<Rightarrow> bytes list" where
  "split_chars cs =
     (let cs = dropWhile is_whitespace cs
      in if cs = [] then []
         else concat (takeWhile (\<lambda>c. \<not> is_whitespace c) cs) # split_chars (dropWhile (\<lambda>c. \<not> is_whitespace c) cs))"
  by auto
termination
proof (relation "measure length", goal_cases)
  case (2 cs ds)
  obtain d ds' where ds: "ds = d # ds'" using 2(2) by (cases ds) auto
  then have "\<not> is_whitespace d" using 2(1) by (metis hd_dropWhile list.distinct(1) list.sel(1))
  moreover have "length ds \<le> length cs" using 2(1) by (metis length_dropWhile_le)
  ultimately show ?case using ds length_dropWhile_le [of "\<lambda>c. \<not> is_whitespace c" ds'] by simp
qed simp

declare split_chars.simps [simp del]

lemma split_chars_simps:
  "split_chars [] = []"
  "is_whitespace c \<Longrightarrow> split_chars (c # cs) = split_chars cs"
  "\<not> is_whitespace c \<Longrightarrow> split_chars (c # cs) =
     concat (c # takeWhile (\<lambda>c. \<not> is_whitespace c) cs) # split_chars (dropWhile (\<lambda>c. \<not> is_whitespace c) cs)"
  by (simp add: split_chars.simps, subst (1 2) split_chars.simps, simp, subst split_chars.simps, simp)

definition split_whitespace :: "bytes \<Rightarrow> bytes list" where
  "split_whitespace s = split_chars (chars s)"

definition from_args :: "bytes list \<Rightarrow> cli_token list" where
  "from_args args = concat (map (\<lambda>arg. map classify (split_whitespace arg)) args)"

section \<open>Parser\<close>

text \<open>A slice pattern: tokens that have to be there, and texts or numbers that are bound.\<close>

datatype cli_pat = Tok cli_token | AnyString | AnyNumber

fun match_pats :: "cli_pat list \<Rightarrow> cli_token list \<Rightarrow> bytes list option" where
  "match_pats [] ts = Some []"
| "match_pats (p # ps) [] = None"
| "match_pats (p # ps) (t # ts) =
     (case p of
        Tok k \<Rightarrow> if t = k then match_pats ps ts else None
      | AnyString \<Rightarrow> (case t of TString s \<Rightarrow> map_option ((#) s) (match_pats ps ts) | _ \<Rightarrow> None)
      | AnyNumber \<Rightarrow> (case t of TNumber s \<Rightarrow> map_option ((#) s) (match_pats ps ts) | _ \<Rightarrow> None))"

definition listen_addr :: "bool \<Rightarrow> bytes \<Rightarrow> cli_action" where
  "listen_addr number addr =
     (case split_once 0x3A addr of
        Some (host, port) \<Rightarrow> Listen (Some host) (Some port)
      | None \<Rightarrow> if number then Listen None (Some addr) else Listen (Some addr) None)"

text \<open>The arms of the match in their order; each consumes as many tokens as its pattern has.\<close>

definition ARMS :: "(cli_pat list \<times> (bytes list \<Rightarrow> cli_action)) list" where
  "ARMS =
     [([Tok TImport, Tok TEnv, Tok TFrom, AnyString, Tok TAnd, Tok TOverride, Tok TExisting],
        \<lambda>b. ImportEnv (Some (b ! 0)) True),
      ([Tok TImport, Tok TEnv, Tok TAnd, Tok TOverride, Tok TExisting], \<lambda>b. ImportEnv None True),
      ([Tok TImport, Tok TEnv, Tok TOverriding, Tok TExisting], \<lambda>b. ImportEnv None True),
      ([Tok TImport, Tok TEnv, Tok TFrom, AnyString, Tok TOverriding, Tok TExisting],
        \<lambda>b. ImportEnv (Some (b ! 0)) True),
      ([Tok TImport, Tok TEnv, Tok TFrom, AnyString], \<lambda>b. ImportEnv (Some (b ! 0)) False),
      ([Tok TImport, Tok TEnv], \<lambda>b. ImportEnv None False),
      ([Tok TListen, Tok TOn, AnyString, Tok TPort, AnyNumber], \<lambda>b. Listen (Some (b ! 0)) (Some (b ! 1))),
      ([Tok TListen, Tok TOn, Tok TPort, AnyNumber], \<lambda>b. Listen None (Some (b ! 0))),
      ([Tok TListen, Tok TOn, AnyString], \<lambda>b. listen_addr False (b ! 0)),
      ([Tok TListen, Tok TOn, AnyNumber], \<lambda>b. listen_addr True (b ! 0)),
      ([Tok THelp, Tok (TString (bytes_of ''me''))], \<lambda>b. Help),
      ([Tok THelp], \<lambda>b. Help),
      ([Tok TQuestion], \<lambda>b. Help),
      ([Tok (TString (bytes_of ''what'')), Tok (TString (bytes_of ''can'')), Tok (TString (bytes_of ''you'')),
        Tok (TString (bytes_of ''do''))], \<lambda>b. Help)]"

fun first_match :: "(cli_pat list \<times> (bytes list \<Rightarrow> cli_action)) list \<Rightarrow> cli_token list \<Rightarrow> (nat \<times> cli_action) option" where
  "first_match [] ts = None"
| "first_match ((ps, f) # arms) ts =
     (case match_pats ps ts of Some b \<Rightarrow> Some (length ps, f b) | None \<Rightarrow> first_match arms ts)"

text \<open>The loop from the token at \<open>i\<close> on; without a match one token is skipped.\<close>

function parse_tokens :: "cli_token list \<Rightarrow> cli_action list" where
  "parse_tokens ts =
     (if ts = [] then []
      else case first_match ARMS ts of
        Some (n, a) \<Rightarrow> a # parse_tokens (drop (max 1 n) ts)
      | None \<Rightarrow> parse_tokens (drop 1 ts))"
  by auto
termination by (relation "measure length") auto

declare parse_tokens.simps [simp del]

section \<open>Actions\<close>

text \<open>The environment of the process, the texts that were printed, and whether it has exited.\<close>

record cli =
  cl_env :: "bytes \<rightharpoonup> bytes"
  cl_out :: "bytes list"
  cl_exited :: bool

text \<open>What \<^verbatim>\<open>dotenvy\<close> does with a file: an error, or the numbers of variables loaded and skipped or overridden.\<close>

type_synonym dotenv = "bool \<Rightarrow> bytes \<Rightarrow> (bytes \<rightharpoonup> bytes) \<Rightarrow> (bytes + nat \<times> nat) \<times> (bytes \<rightharpoonup> bytes)"

definition load_env_file :: "dotenv \<Rightarrow> bytes \<Rightarrow> bool \<Rightarrow> cli \<Rightarrow> cli" where
  "load_env_file dotenv filename override_existing c =
     (case dotenv override_existing filename (cl_env c) of
        (Inr (loaded, n), env) \<Rightarrow>
          let msg = bytes_of ''Importing environment from '' @ filename @ bytes_of '' (loaded: '' @
            (if n > 0 then show_nat loaded @ (if override_existing then bytes_of '', overridden: '' else bytes_of '', skipped: '') @ show_nat n
             else show_nat loaded) @ bytes_of '')'' @ [0x0A]
          in c\<lparr>cl_env := env, cl_out := cl_out c @ [msg]\<rparr>
      | (Inl e, env) \<Rightarrow>
          c\<lparr>cl_env := env, cl_out := cl_out c @ [bytes_of ''Failed to load '' @ filename @ bytes_of '': '' @ e @ [0x0A]]\<rparr>)"

text \<open>\<open>help\<close> is the help text for the name of the program.\<close>

definition run_cli_action :: "dotenv \<Rightarrow> bytes \<Rightarrow> cli_action \<Rightarrow> cli \<Rightarrow> cli" where
  "run_cli_action dotenv help a c =
     (case a of
        ImportEnv f override_existing \<Rightarrow>
          load_env_file dotenv (case f of Some f \<Rightarrow> f | None \<Rightarrow> bytes_of ''.env'') override_existing c
      | Listen host port \<Rightarrow>
          let h = (case host of Some h \<Rightarrow> h | None \<Rightarrow> bytes_of ''0.0.0.0'');
              p = (case port of Some p \<Rightarrow> p | None \<Rightarrow> bytes_of ''3000'')
          in c\<lparr>cl_out := cl_out c @ [bytes_of ''Starting server on '' @ h @ bytes_of '':'' @ p @ [0x0A]],
               cl_env := (cl_env c)(bytes_of ''HOST'' \<mapsto> h, bytes_of ''PORT'' \<mapsto> p)\<rparr>
      | Help \<Rightarrow> c\<lparr>cl_out := cl_out c @ [help], cl_exited := True\<rparr>)"

fun run_cli_actions :: "dotenv \<Rightarrow> bytes \<Rightarrow> cli_action list \<Rightarrow> cli \<Rightarrow> cli" where
  "run_cli_actions dotenv help [] c = c"
| "run_cli_actions dotenv help (a # as) c =
     (let c = run_cli_action dotenv help a c in if cl_exited c then c else run_cli_actions dotenv help as c)"

definition process_args :: "dotenv \<Rightarrow> bytes \<Rightarrow> bytes \<Rightarrow> bytes list \<Rightarrow> cli \<Rightarrow> cli" where
  "process_args dotenv program_name help args c =
     (if args = [] then load_env_file dotenv (bytes_of ''.env'') False c
      else
        let actions = parse_tokens (from_args args)
        in if actions = [] then
             c\<lparr>cl_out := cl_out c @ [bytes_of ''I don'' @ [0x27] @ bytes_of ''t understand '' @ [0x27] @ join [0x20] args @ [0x27, 0x0A] @
               bytes_of ''Try '' @ [0x27] @ program_name @ bytes_of '' help'' @ [0x27] @ bytes_of '' to see what I can do'' @ [0x0A, 0x0A]]\<rparr>
           else run_cli_actions dotenv help actions c)"

section \<open>What is understood\<close>

text \<open>The phrases of the help text.\<close>

datatype override_style = Keep | AndOverride | Overriding

datatype phrase =
  PImport "bytes option" override_style
  | PListenHostPort bytes bytes
  | PListenPort bytes
  | PListenAddr bytes bytes
  | PListenNumber bytes
  | PListenHost bytes
  | PHelp | PHelpMe | PQuestion | PWhat

fun phrase_words :: "phrase \<Rightarrow> bytes list" where
  "phrase_words (PImport f o') =
     [bytes_of ''import'', bytes_of ''env''] @ (case f of Some f \<Rightarrow> [bytes_of ''from'', f] | None \<Rightarrow> []) @
     (case o' of Keep \<Rightarrow> [] | AndOverride \<Rightarrow> [bytes_of ''and'', bytes_of ''override'', bytes_of ''existing'']
      | Overriding \<Rightarrow> [bytes_of ''overriding'', bytes_of ''existing''])"
| "phrase_words (PListenHostPort h n) = [bytes_of ''listen'', bytes_of ''on'', h, bytes_of ''port'', n]"
| "phrase_words (PListenPort n) = [bytes_of ''listen'', bytes_of ''on'', bytes_of ''port'', n]"
| "phrase_words (PListenAddr h p) = [bytes_of ''listen'', bytes_of ''on'', h @ 0x3A # p]"
| "phrase_words (PListenNumber n) = [bytes_of ''listen'', bytes_of ''on'', n]"
| "phrase_words (PListenHost h) = [bytes_of ''listen'', bytes_of ''on'', h]"
| "phrase_words PHelp = [bytes_of ''help'']"
| "phrase_words PHelpMe = [bytes_of ''help'', bytes_of ''me'']"
| "phrase_words PQuestion = [bytes_of ''?'']"
| "phrase_words PWhat = [bytes_of ''what'', bytes_of ''can'', bytes_of ''you'', bytes_of ''do'']"

fun phrase_action :: "phrase \<Rightarrow> cli_action" where
  "phrase_action (PImport f o') = ImportEnv f (o' \<noteq> Keep)"
| "phrase_action (PListenHostPort h n) = Listen (Some h) (Some n)"
| "phrase_action (PListenPort n) = Listen None (Some n)"
| "phrase_action (PListenAddr h p) = Listen (Some h) (Some p)"
| "phrase_action (PListenNumber n) = Listen None (Some n)"
| "phrase_action (PListenHost h) = Listen (Some h) None"
| "phrase_action _ = Help"

text \<open>Names are words that are no keyword and no number, ports are numbers below 65536.\<close>

fun phrase_ok :: "phrase \<Rightarrow> bool" where
  "phrase_ok (PImport f o') \<longleftrightarrow> (case f of Some f \<Rightarrow> classify f = TString f | None \<Rightarrow> True)"
| "phrase_ok (PListenHostPort h n) \<longleftrightarrow> classify h = TString h \<and> classify n = TNumber n"
| "phrase_ok (PListenPort n) \<longleftrightarrow> classify n = TNumber n"
| "phrase_ok (PListenAddr h p) \<longleftrightarrow> 0x3A \<notin> set h \<and> classify (h @ 0x3A # p) = TString (h @ 0x3A # p)"
| "phrase_ok (PListenNumber n) \<longleftrightarrow> classify n = TNumber n"
| "phrase_ok (PListenHost h) \<longleftrightarrow> classify h = TString h \<and> 0x3A \<notin> set h"
| "phrase_ok _ \<longleftrightarrow> True"

lemma classify_words [simp]:
  "classify (bytes_of ''import'') = TImport" "classify (bytes_of ''env'') = TEnv" "classify (bytes_of ''from'') = TFrom"
  "classify (bytes_of ''listen'') = TListen" "classify (bytes_of ''on'') = TOn" "classify (bytes_of ''port'') = TPort"
  "classify (bytes_of ''help'') = THelp" "classify (bytes_of ''?'') = TQuestion" "classify (bytes_of ''override'') = TOverride"
  "classify (bytes_of ''overriding'') = TOverriding" "classify (bytes_of ''and'') = TAnd" "classify (bytes_of ''existing'') = TExisting"
  "classify (bytes_of ''me'') = TString (bytes_of ''me'')" "classify (bytes_of ''what'') = TString (bytes_of ''what'')"
  "classify (bytes_of ''can'') = TString (bytes_of ''can'')" "classify (bytes_of ''you'') = TString (bytes_of ''you'')"
  "classify (bytes_of ''do'') = TString (bytes_of ''do'')"
  by (simp_all add: classify_def TOKEN_WORDS_def bytes_of_def parse_unsigned_def is_ascii_digit_def)

lemma parse_digits_digits: "parse_digits w n ds = Some m \<Longrightarrow> \<forall>d \<in> set ds. is_ascii_digit d"
  by (induction w n ds rule: parse_digits.induct) (auto simp: Let_def split: if_splits)

lemma number_no_colon: "classify n = TNumber n \<Longrightarrow> 0x3A \<notin> set n"
proof -
  assume "classify n = TNumber n"
  then obtain m where "parse_unsigned 16 n = Some m"
    by (auto simp: classify_def TOKEN_WORDS_def split: option.splits if_splits)
  then show ?thesis
    by (cases n) (auto simp: parse_unsigned_def is_ascii_digit_def Let_def split: if_splits dest!: parse_digits_digits)
qed

text \<open>A token no phrase continues with.\<close>

definition starts_phrase :: "cli_token \<Rightarrow> bool" where
  "starts_phrase t \<longleftrightarrow> t \<in> {TImport, TListen, THelp, TQuestion, TString (bytes_of ''what'')}"

lemma phrase_starts: "\<exists>w ws. phrase_words p = w # ws \<and> starts_phrase (classify w)"
  by (cases p) (auto simp: starts_phrase_def)

lemma match_phrase:
  assumes "phrase_ok p" "rest = [] \<or> (\<exists>t ts. rest = t # ts \<and> starts_phrase t)"
  shows "first_match ARMS (map classify (phrase_words p) @ rest) = Some (length (phrase_words p), phrase_action p)"
proof -
  have me: "bytes_of ''what'' \<noteq> bytes_of ''me''" by (simp add: bytes_of_def)
  show ?thesis
  proof (cases p)
    case (PImport f o')
    then show ?thesis using assms by (cases f; cases o') (auto simp: ARMS_def starts_phrase_def)
  next
    case (PListenNumber n)
    then show ?thesis using assms number_no_colon [of n]
      by (auto simp: ARMS_def starts_phrase_def listen_addr_def split_once_None [THEN iffD2])
  next
    case (PListenHost h)
    then show ?thesis using assms
      by (auto simp: ARMS_def starts_phrase_def listen_addr_def split_once_None [THEN iffD2])
  qed (use assms me in \<open>auto simp: ARMS_def starts_phrase_def listen_addr_def\<close>)
qed

lemma parse_phrases: "\<forall>p \<in> set ps. phrase_ok p \<Longrightarrow> parse_tokens (map classify (concat (map phrase_words ps))) = map phrase_action ps"
proof (induction ps)
  case Nil
  then show ?case by (simp add: parse_tokens.simps)
next
  case (Cons p ps)
  let ?rest = "map classify (concat (map phrase_words ps))"
  have "?rest = [] \<or> (\<exists>t ts. ?rest = t # ts \<and> starts_phrase t)"
  proof (cases ps)
    case ps: (Cons q qs)
    obtain w ws where "phrase_words q = w # ws" "starts_phrase (classify w)" using phrase_starts by blast
    then show ?thesis using ps by simp
  qed simp
  then have m: "first_match ARMS (map classify (phrase_words p) @ ?rest) = Some (length (phrase_words p), phrase_action p)"
    using match_phrase Cons.prems by simp
  obtain w ws where w: "phrase_words p = w # ws" using phrase_starts by blast
  have "parse_tokens (map classify (phrase_words p) @ ?rest) = phrase_action p # parse_tokens ?rest"
    by (subst parse_tokens.simps) (use m w in \<open>simp add: max_def\<close>)
  then show ?case using Cons by simp
qed

lemma from_args_words: "from_args args = map classify (concat (map split_whitespace args))"
  by (simp add: from_args_def map_concat comp_def)

text \<open>C37: Every phrase of the help text is understood: arguments whose words, however they are divided into arguments, are a
  sequence of such phrases give exactly the actions of the phrases, in their order.\<close>

theorem args_understood:
  assumes "\<forall>p \<in> set ps. phrase_ok p" "concat (map split_whitespace args) = concat (map phrase_words ps)"
  shows "parse_tokens (from_args args) = map phrase_action ps"
  using parse_phrases [OF assms(1)] by (simp add: from_args_words assms(2))

theorem args_understood_witness:
  "parse_tokens (from_args [bytes_of ''import env'', bytes_of ''from p.env overriding'', bytes_of ''existing listen on h:80'']) =
     [ImportEnv (Some (bytes_of ''p.env'')) True, Listen (Some (bytes_of ''h'')) (Some (bytes_of ''80''))]"
proof -
  let ?ps = "[PImport (Some (bytes_of ''p.env'')) Overriding, PListenAddr (bytes_of ''h'') (bytes_of ''80'')]"
  have "\<forall>p \<in> set ?ps. phrase_ok p"
    by (simp add: classify_def TOKEN_WORDS_def bytes_of_def parse_unsigned_def is_ascii_digit_def)
  moreover have "concat (map split_whitespace [bytes_of ''import env'', bytes_of ''from p.env overriding'', bytes_of ''existing listen on h:80'']) =
    concat (map phrase_words ?ps)"
    by (simp add: split_whitespace_def split_chars_simps is_whitespace_def WHITE_SPACE_def bytes_of_def is_continuation_def)
  ultimately show ?thesis using args_understood [of ?ps] by simp
qed

text \<open>A number that is no port is a text, so the host is taken and the port is silently the default one.\<close>

theorem port_out_of_range_ignored:
  "parse_tokens (map classify [bytes_of ''listen'', bytes_of ''on'', bytes_of ''localhost'', bytes_of ''port'', bytes_of ''80800'']) =
     [Listen (Some (bytes_of ''localhost'')) None]"
  by (simp add: parse_tokens.simps ARMS_def listen_addr_def classify_def TOKEN_WORDS_def bytes_of_def parse_unsigned_def
      is_ascii_digit_def Let_def)

end
