(* ===== verification/String_Builder.thy ===== *)
theory String_Builder
  imports Adapter
begin

text \<open>
  Assembly of texts from parts: \<^verbatim>\<open>src/common/utils/string_builder.rs\<close>.  A builder keeps only borrowed parts as long as it can;
  the first owned part converts the list.
\<close>

section \<open>Builder\<close>

datatype part = Borrowed bytes | Owned bytes

definition part_str :: "part \<Rightarrow> bytes" where
  "part_str p = (case p of Borrowed s \<Rightarrow> s | Owned s \<Rightarrow> s)"

datatype storage = BorrowedParts "bytes list" | MixedParts "part list"

record string_builder =
  sb_storage :: storage
  sb_total_len :: nat

definition builder_new :: string_builder where
  "builder_new = \<lparr>sb_storage = BorrowedParts [], sb_total_len = 0\<rparr>"

definition push_part :: "part \<Rightarrow> string_builder \<Rightarrow> string_builder" where
  "push_part part b =
     (let b = b\<lparr>sb_total_len := sb_total_len b + length (part_str part)\<rparr>
      in case sb_storage b of
           MixedParts ps \<Rightarrow> b\<lparr>sb_storage := MixedParts (ps @ [part])\<rparr>
         | BorrowedParts ss \<Rightarrow>
             (case part of
                Borrowed s \<Rightarrow> b\<lparr>sb_storage := BorrowedParts (ss @ [s])\<rparr>
              | Owned s \<Rightarrow> b\<lparr>sb_storage := MixedParts (map Borrowed ss @ [Owned s])\<rparr>))"

definition append_part :: "string_builder \<Rightarrow> part \<Rightarrow> string_builder" where
  "append_part b s = push_part s b"

definition builder_build :: "string_builder \<Rightarrow> bytes ub" where
  "builder_build b =
     (if sb_total_len b = 0 then Some []
      else case sb_storage b of
             BorrowedParts parts \<Rightarrow>
               if length parts = 1 then Some (parts ! 0)
               else Some (fold (\<lambda>p result. result @ p) parts [])
           | MixedParts parts \<Rightarrow>
               if length parts = 1 then map_option part_str (if parts = [] then None else Some (last parts))
               else Some (fold (\<lambda>p result. result @ part_str p) parts []))"

definition builder_len :: "string_builder \<Rightarrow> nat" where
  "builder_len b = sb_total_len b"

definition builder_is_empty :: "string_builder \<Rightarrow> bool" where
  "builder_is_empty b \<longleftrightarrow> sb_total_len b = 0"

definition builder_clear :: "string_builder \<Rightarrow> string_builder" where
  "builder_clear b = b\<lparr>sb_storage := BorrowedParts [], sb_total_len := 0\<rparr>"

definition parts_len :: "string_builder \<Rightarrow> nat" where
  "parts_len b = (case sb_storage b of BorrowedParts ss \<Rightarrow> length ss | MixedParts ps \<Rightarrow> length ps)"

section \<open>Joining\<close>

record join_builder =
  jb_builder :: string_builder
  jb_separator :: part
  jb_separator_total_len :: nat

definition USIZE_LIMIT :: nat where "USIZE_LIMIT = 2 ^ 64 - 1"

definition builder_join :: "part \<Rightarrow> string_builder \<Rightarrow> join_builder" where
  "builder_join separator b =
     (let parts_count = parts_len b;
          total = (if parts_count > 0 then min USIZE_LIMIT (length (part_str separator) * (parts_count - 1)) else 0)
      in \<lparr>jb_builder = b, jb_separator = separator, jb_separator_total_len = total\<rparr>)"

fun push_joined :: "bytes \<Rightarrow> bytes list \<Rightarrow> bytes \<Rightarrow> bytes" where
  "push_joined sep [] result = result"
| "push_joined sep (p # ps) result = push_joined sep ps (result @ sep @ p)"

definition join_build :: "join_builder \<Rightarrow> bytes ub" where
  "join_build j =
     (if builder_is_empty (jb_builder j) then Some []
      else if parts_len (jb_builder j) = 1 then builder_build (jb_builder j)
      else
        let parts = (case sb_storage (jb_builder j) of BorrowedParts ss \<Rightarrow> ss | MixedParts ps \<Rightarrow> map part_str ps)
        in Some (case parts of [] \<Rightarrow> [] | first # rest \<Rightarrow> push_joined (part_str (jb_separator j)) rest first))"

definition sb_join :: "part \<Rightarrow> part list \<Rightarrow> bytes ub" where
  "sb_join separator items = join_build (builder_join separator (foldl append_part builder_new items))"

definition sb_concat :: "part list \<Rightarrow> bytes ub" where
  "sb_concat items = builder_build (foldl append_part builder_new items)"

section \<open>Correctness\<close>

definition builder_parts :: "string_builder \<Rightarrow> bytes list" where
  "builder_parts b = (case sb_storage b of BorrowedParts ss \<Rightarrow> ss | MixedParts ps \<Rightarrow> map part_str ps)"

text \<open>The length is that of the parts.\<close>

definition builder_ok :: "string_builder \<Rightarrow> bool" where
  "builder_ok b \<longleftrightarrow> sb_total_len b = length (concat (builder_parts b))"

lemma part_str_Borrowed [simp]: "part_str (Borrowed s) = s" "part_str (Owned s) = s" "part_str \<circ> Borrowed = id"
  by (simp_all add: part_str_def fun_eq_iff)

lemma push_part_parts [simp]: "builder_parts (push_part p b) = builder_parts b @ [part_str p]"
  by (cases p; cases "sb_storage b") (simp_all add: push_part_def builder_parts_def Let_def)

lemma push_part_ok: "builder_ok b \<Longrightarrow> builder_ok (push_part p b)"
proof -
  have "sb_total_len (push_part p b) = sb_total_len b + length (part_str p)"
    by (simp add: push_part_def Let_def split: storage.split part.split)
  then show "builder_ok b \<Longrightarrow> builder_ok (push_part p b)" by (simp add: builder_ok_def)
qed

lemma append_all: "builder_ok b \<Longrightarrow>
  builder_ok (foldl append_part b items) \<and> builder_parts (foldl append_part b items) = builder_parts b @ map part_str items"
  by (induction items arbitrary: b) (simp_all add: append_part_def push_part_ok)

lemma builder_new_ok [simp]: "builder_ok builder_new" "builder_parts builder_new = []"
  by (simp_all add: builder_ok_def builder_parts_def builder_new_def)

lemma fold_append: "fold (\<lambda>p r. r @ f p) ps r = r @ concat (map f ps)"
  by (induction ps arbitrary: r) simp_all

lemma builder_build_concat:
  assumes "builder_ok b"
  shows "builder_build b = Some (concat (builder_parts b))"
proof (cases "sb_total_len b = 0")
  case True
  then show ?thesis using assms by (simp add: builder_build_def builder_ok_def)
next
  case False
  show ?thesis
  proof (cases "sb_storage b")
    case (BorrowedParts parts)
    then show ?thesis using False fold_append [of id parts]
      by (auto simp: builder_build_def builder_parts_def length_Suc_conv)
  next
    case (MixedParts parts)
    then show ?thesis using False
      by (auto simp: builder_build_def builder_parts_def fold_append length_Suc_conv)
  qed
qed

lemma push_joined_join: "push_joined sep ps r = join sep (r # ps)"
proof (induction ps arbitrary: r)
  case (Cons p ps)
  have "join sep ((r @ sep @ p) # ps) = r @ sep @ join sep (p # ps)" by (cases ps) simp_all
  then show ?case using Cons.IH [of "r @ sep @ p"] by simp
qed simp

text \<open>Concatenation gives the parts in their order, whatever mixture of borrowed and owned parts they are, and the length
  that was counted is that of the text.\<close>

theorem sb_concat_spec: "sb_concat items = Some (concat (map part_str items)) \<and>
  builder_len (foldl append_part builder_new items) = length (concat (map part_str items))"
  using append_all [OF builder_new_ok(1), of items]
  by (simp add: sb_concat_def builder_build_concat builder_len_def builder_ok_def)

lemma builder_join_simps [simp]: "jb_builder (builder_join sep b) = b" "jb_separator (builder_join sep b) = sep"
  by (simp_all add: builder_join_def Let_def)

lemma parts_len_parts: "parts_len b = length (builder_parts b)"
  by (simp add: parts_len_def builder_parts_def split: storage.split)

text \<open>Joining separates the parts, except that parts that are all empty give the empty text.\<close>

theorem sb_join_spec: "sb_join sep items =
  Some (if concat (map part_str items) = [] then [] else join (part_str sep) (map part_str items))"
proof -
  let ?b = "foldl append_part builder_new items"
  have b: "builder_ok ?b" "builder_parts ?b = map part_str items" using append_all [OF builder_new_ok(1)] by simp_all
  have l: "sb_total_len ?b = length (concat (map part_str items))" using b by (simp add: builder_ok_def)
  consider "concat (map part_str items) = []" | x where "concat (map part_str items) \<noteq> []" "items = [x]"
    | x y zs where "concat (map part_str items) \<noteq> []" "items = x # y # zs" by (metis list.exhaust concat.simps(1) list.simps(8))
  then show ?thesis
  proof cases
    case 1
    then show ?thesis using l by (simp add: sb_join_def join_build_def builder_is_empty_def)
  next
    case 2
    have "parts_len ?b = 1" using b(2) 2 by (simp add: parts_len_parts)
    then show ?thesis using 2 l builder_build_concat [OF b(1)] b(2)
      by (simp add: sb_join_def join_build_def builder_is_empty_def)
  next
    case 3
    have "parts_len ?b \<noteq> 1" using b(2) 3 by (simp add: parts_len_parts)
    moreover have "(case sb_storage ?b of BorrowedParts ss \<Rightarrow> ss | MixedParts ps \<Rightarrow> map part_str ps) = map part_str items"
      using b(2) by (simp add: builder_parts_def)
    ultimately show ?thesis using 3 l
      by (auto simp: sb_join_def join_build_def builder_is_empty_def push_joined_join)
  qed
qed

theorem join_of_empty_parts: "sb_join (Borrowed [0x2C]) [Borrowed [], Borrowed []] = Some [] \<and> join [0x2C] [[], []] = [0x2C]"
  by (simp add: sb_join_spec)

end
