(* ===== verification/App_Version.thy ===== *)
theory App_Version
  imports Text_Util "HOL-Library.Option_ord"
begin

text \<open>
  Version numbers of the program: \<^verbatim>\<open>src/app/model/version.rs\<close>, with their order, text and binary form.
  \<open>big\<close> says whether the target is big-endian.
\<close>

section \<open>Versions and their order\<close>

type_synonym u16 = "16 word"

datatype ordering = Less | Equal | Greater

definition cmp :: "'a :: linorder \<Rightarrow> 'a \<Rightarrow> ordering" where
  "cmp x y = (if x < y then Less else if x = y then Equal else Greater)"

definition then_with :: "ordering \<Rightarrow> ordering \<Rightarrow> ordering" where
  "then_with a b = (if a = Equal then b else a)"

datatype ReleaseStage = Release | Preview u16 "u16 option"

fun stage_cmp :: "ReleaseStage \<Rightarrow> ReleaseStage \<Rightarrow> ordering" where
  "stage_cmp (Preview _ _) Release = Less"
| "stage_cmp Release (Preview _ _) = Greater"
| "stage_cmp Release Release = Equal"
| "stage_cmp (Preview v1 b1) (Preview v2 b2) = then_with (cmp v1 v2) (cmp b1 b2)"

datatype Version = Version (major: u16) (minor: u16) (patch: u16) (stage: ReleaseStage)

definition version_cmp :: "Version \<Rightarrow> Version \<Rightarrow> ordering" where
  "version_cmp x y =
     then_with (then_with (then_with (cmp (major x) (major y)) (cmp (minor x) (minor y))) (cmp (patch x) (patch y)))
       (stage_cmp (stage x) (stage y))"

definition stage_display :: "ReleaseStage \<Rightarrow> bytes" where
  "stage_display s =
     (case s of
        Release \<Rightarrow> []
      | Preview v None \<Rightarrow> bytes_of ''-pre.'' @ show_nat (unat v)
      | Preview v (Some b) \<Rightarrow> bytes_of ''-pre.'' @ show_nat (unat v) @ bytes_of ''+build.'' @ show_nat (unat b))"

definition version_display :: "Version \<Rightarrow> bytes" where
  "version_display v = show_nat (unat (major v)) @ bytes_of ''.'' @ show_nat (unat (minor v)) @ bytes_of ''.'' @
     show_nat (unat (patch v)) @ stage_display (stage v)"

section \<open>Binary form\<close>

definition u16_to_ne :: "bool \<Rightarrow> u16 \<Rightarrow> bytes" where
  "u16_to_ne big w = (if big then be_bytes 2 (unat w) else rev (be_bytes 2 (unat w)))"

definition u16_from_ne :: "bool \<Rightarrow> bytes \<Rightarrow> u16" where
  "u16_from_ne big bs = of_nat (be_val (if big then bs else rev bs))"

datatype io_error = UnexpectedEof | InvalidData

definition read_u16 :: "bool \<Rightarrow> bytes \<Rightarrow> io_error + u16 \<times> bytes" where
  "read_u16 big r = (if length r < 2 then Inl UnexpectedEof else Inr (u16_from_ne big (take 2 r), drop 2 r))"

text \<open>\<^verbatim>\<open>?\<close> on a read.\<close>

definition and_read :: "bool \<Rightarrow> bytes \<Rightarrow> (u16 \<Rightarrow> bytes \<Rightarrow> io_error + 'a) \<Rightarrow> io_error + 'a" where
  "and_read big r f = (case read_u16 big r of Inl e \<Rightarrow> Inl e | Inr (x, r) \<Rightarrow> f x r)"

definition write_to :: "bool \<Rightarrow> Version \<Rightarrow> bytes" where
  "write_to big v =
     u16_to_ne big (major v) @ u16_to_ne big (minor v) @ u16_to_ne big (patch v) @
     (case stage v of
        Release \<Rightarrow> u16_to_ne big 0
      | Preview x None \<Rightarrow> u16_to_ne big 1 @ u16_to_ne big x
      | Preview x (Some b) \<Rightarrow> u16_to_ne big 2 @ u16_to_ne big x @ u16_to_ne big b)"

definition read_from :: "bool \<Rightarrow> bytes \<Rightarrow> io_error + Version \<times> bytes" where
  "read_from big r =
     and_read big r (\<lambda>major r. and_read big r (\<lambda>minor r. and_read big r (\<lambda>patch r. and_read big r (\<lambda>len r.
       if len = 0 then Inr (Version major minor patch Release, r)
       else if len = 1 then and_read big r (\<lambda>v r. Inr (Version major minor patch (Preview v None), r))
       else if len = 2 then and_read big r (\<lambda>v r. and_read big r (\<lambda>b r. Inr (Version major minor patch (Preview v (Some b)), r)))
       else Inl InvalidData))))"

section \<open>Correctness\<close>

lemma cmp_simps [simp]:
  "cmp x y = Equal \<longleftrightarrow> x = y" "cmp x y = Less \<longleftrightarrow> x < y" "cmp x y = Greater \<longleftrightarrow> y < x"
  by (auto simp: cmp_def)

lemma then_with_simps [simp]:
  "then_with a b = Equal \<longleftrightarrow> a = Equal \<and> b = Equal"
  "then_with a b = Less \<longleftrightarrow> a = Less \<or> a = Equal \<and> b = Less"
  "then_with a b = Greater \<longleftrightarrow> a = Greater \<or> a = Equal \<and> b = Greater"
  by (auto simp: then_with_def)

lemma stage_cmp_Equal [simp]: "stage_cmp x y = Equal \<longleftrightarrow> x = y"
  by (cases x; cases y) auto

lemma stage_cmp_flip: "stage_cmp x y = Greater \<longleftrightarrow> stage_cmp y x = Less"
  by (cases x; cases y) auto

lemma stage_cmp_trans: "stage_cmp x y = Less \<Longrightarrow> stage_cmp y z = Less \<Longrightarrow> stage_cmp x z = Less"
  by (cases x; cases y; cases z) auto

text \<open>The comparison is a linear order that agrees with equality, so versions are an instance of the library's class.\<close>

instantiation Version :: linorder
begin

definition less_eq_Version :: "Version \<Rightarrow> Version \<Rightarrow> bool" where
  "less_eq_Version x y \<longleftrightarrow> version_cmp x y \<noteq> Greater"

definition less_Version :: "Version \<Rightarrow> Version \<Rightarrow> bool" where
  "less_Version x y \<longleftrightarrow> version_cmp x y = Less"

instance
proof
  have eq: "version_cmp x y = Equal \<longleftrightarrow> x = y" for x y
    by (cases x; cases y) (auto simp: version_cmp_def)
  have flip: "version_cmp x y = Greater \<longleftrightarrow> version_cmp y x = Less" for x y
    by (cases x; cases y) (auto simp: version_cmp_def stage_cmp_flip)
  have trans: "version_cmp x z = Less" if "version_cmp x y = Less" "version_cmp y z = Less" for x y z
    using that stage_cmp_trans [of "stage x" "stage y" "stage z"] by (auto simp: version_cmp_def)
  fix x y z :: Version
  show "x < y \<longleftrightarrow> x \<le> y \<and> \<not> y \<le> x"
    using flip [of y x] by (auto simp: less_eq_Version_def less_Version_def)
  show "x \<le> x" using eq [of x x] by (simp add: less_eq_Version_def)
  show "x \<le> z" if "x \<le> y" "y \<le> z"
    proof -
    have "version_cmp x y = Less \<or> x = y" "version_cmp y z = Less \<or> y = z"
      using that eq by (metis less_eq_Version_def ordering.exhaust)+
    then show ?thesis using trans [of x y z] eq [of x z] by (auto simp: less_eq_Version_def)
  qed
  show "x = y" if "x \<le> y" "y \<le> x"
    using that flip [of y x] eq [of x y] by (cases "version_cmp x y") (auto simp: less_eq_Version_def)
  show "x \<le> y \<or> y \<le> x" using flip [of x y] by (auto simp: less_eq_Version_def)
qed

end

lemma u16_roundtrip [simp]: "u16_from_ne big (u16_to_ne big w) = w" "length (u16_to_ne big w) = 2"
  using unsigned_less [of w, where ?'a = nat] by (simp_all add: u16_from_ne_def u16_to_ne_def be_val_be_bytes)

lemma and_read_write [simp]: "and_read big (u16_to_ne big w @ r) f = f w r"
  by (simp add: and_read_def read_u16_def)

text \<open>A version that was written is read back, and what follows it is left.\<close>

theorem version_roundtrip: "read_from big (write_to big v @ r) = Inr (v, r)"
  by (cases v) (simp add: write_to_def read_from_def split: ReleaseStage.split option.split)

text \<open>A preview comes before the release of its number.\<close>

lemma preview_before_release: "Version a b c (Preview v d) < Version a b c Release"
  by (simp add: less_Version_def version_cmp_def)

end
