(* ===== verification/Display_Name.thy ===== *)
theory Display_Name
  imports Models
begin

text \<open>
  Display names of models: \<^verbatim>\<open>src/core/constant/display_name.rs\<close> with its tokenizer, parser and formatter, and the cache in front
  of them.  Indexing and slicing out of range is \<^term>\<open>None\<close>.  Case conversion of characters outside ASCII is a parameter.
\<close>

section \<open>Tokens\<close>

record token_meta =
  tm_is_digit_only :: bool
  tm_digit_count :: u8
  tm_has_dot :: bool
  tm_first_char :: u8
  tm_len :: u8

record name_token =
  nt_content :: bytes
  nt_meta :: token_meta

fun split_on :: "u8 \<Rightarrow> bytes \<Rightarrow> bytes \<Rightarrow> bytes list" where
  "split_on c acc [] = [acc]"
| "split_on c acc (b # bs) = (if b = c then acc # split_on c [] bs else split_on c (acc @ [b]) bs)"

text \<open>The loop over the bytes; the counter has eight bits.\<close>

fun analyze_loop :: "bytes \<Rightarrow> bool \<Rightarrow> u8 \<Rightarrow> bool \<Rightarrow> bool \<times> u8 \<times> bool" where
  "analyze_loop [] digits n dot = (digits, n, dot)"
| "analyze_loop (b # bs) digits n dot =
     (if is_ascii_digit b then analyze_loop bs digits (n + 1) dot
      else if b = 0x2E then analyze_loop bs digits n True
      else analyze_loop bs False n dot)"

definition analyze_segment :: "bytes \<Rightarrow> token_meta" where
  "analyze_segment bs =
     (let len = of_nat (length bs) :: u8
      in if len = 0 then \<lparr>tm_is_digit_only = False, tm_digit_count = 0, tm_has_dot = False, tm_first_char = 0, tm_len = 0\<rparr>
         else let (digits, n, dot) = analyze_loop bs True 0 False
           in \<lparr>tm_is_digit_only = digits \<and> \<not> dot, tm_digit_count = n, tm_has_dot = dot, tm_first_char = hd bs, tm_len = len\<rparr>)"

definition tokenize :: "bytes \<Rightarrow> name_token list" where
  "tokenize identifier = map (\<lambda>s. \<lparr>nt_content = s, nt_meta = analyze_segment s\<rparr>) (split_on 0x2D [] identifier)"

section \<open>Patterns\<close>

datatype name_pattern = PGPT | PO u8 | PVersion bytes | PDate bytes | PDateMarker bytes | PWord bytes

definition is_ascii_lowercase :: "u8 \<Rightarrow> bool" where "is_ascii_lowercase b \<longleftrightarrow> 0x61 \<le> b \<and> b \<le> 0x7A"

definition is_ascii_uppercase :: "u8 \<Rightarrow> bool" where "is_ascii_uppercase b \<longleftrightarrow> 0x41 \<le> b \<and> b \<le> 0x5A"

definition is_version_pattern :: "bytes \<Rightarrow> bool" where
  "is_version_pattern bs \<longleftrightarrow>
     length bs \<ge> 2 \<and> (hd bs = 0x76 \<or> hd bs = 0x72 \<or> hd bs = 0x6B) \<and> list_all (\<lambda>b. is_ascii_digit b \<or> b = 0x2E) (tl bs)"

definition capitalize_first :: "bytes \<Rightarrow> bytes" where
  "capitalize_first s =
     (if s = [] then s
      else if is_ascii_uppercase (hd s) then s
      else if is_ascii_lowercase (hd s) then (hd s - 0x61 + 0x41) # tl s
      else s)"

definition two_digits :: "name_token \<Rightarrow> bool" where
  "two_digits t \<longleftrightarrow> tm_is_digit_only (nt_meta t) \<and> tm_digit_count (nt_meta t) = 2"

text \<open>\<open>tokens\<close> are those from the current one on.\<close>

definition full_date :: "name_token \<Rightarrow> name_token list \<Rightarrow> bool" where
  "full_date t rest \<longleftrightarrow> tm_digit_count (nt_meta t) = 4 \<and> length rest \<ge> 2 \<and> two_digits (rest ! 0) \<and> two_digits (rest ! 1)"

definition month_day :: "name_token \<Rightarrow> name_token list \<Rightarrow> bool" where
  "month_day t rest \<longleftrightarrow> tm_digit_count (nt_meta t) = 2 \<and> rest \<noteq> [] \<and> two_digits (hd rest)"

definition try_parse_date :: "name_token \<Rightarrow> name_token list \<Rightarrow> bytes option ub" where
  "try_parse_date t rest =
     (if full_date t rest then Some (Some (nt_content t @ [0x2D] @ nt_content (rest ! 0) @ [0x2D] @ nt_content (rest ! 1)))
      else do {
        mmdd \<leftarrow>
          (if tm_digit_count (nt_meta t) = 4 then
             (if length (nt_content t) < 4 then None
              else
                let c = nt_content t;
                    month = (c ! 0 - 0x30) * 10 + (c ! 1 - 0x30)
                in if 1 \<le> month \<and> month \<le> 12 then Some (Some (take 2 c @ [0x2D] @ take 2 (drop 2 c))) else Some None)
           else Some None);
        (case mmdd of
           Some d \<Rightarrow> Some (Some d)
         | None \<Rightarrow>
             if month_day t rest then Some (Some (nt_content t @ [0x2D] @ nt_content (hd rest))) else Some None)
      })"

definition update_index_for_date :: "name_token \<Rightarrow> name_token list \<Rightarrow> nat" where
  "update_index_for_date t rest =
     (if tm_digit_count (nt_meta t) = 4 \<or> tm_digit_count (nt_meta t) = 2
      then if full_date t rest then 3 else if month_day t rest then 2 else 1
      else 1)"

text \<open>The first decision, on the first byte.\<close>

definition quick_pattern :: "name_token \<Rightarrow> (name_pattern + name_pattern) option" where
  "quick_pattern t =
     (let m = nt_meta t; c = nt_content t; f = tm_first_char m
      in if f = 0x67 \<and> tm_len m = 3 then (if c = bytes_of ''gpt'' then Some (Inl PGPT) else None)
         else if f = 0x6F \<and> tm_len m = 2 then
           (if length c > 1 \<and> (c ! 1 = 0x31 \<or> c ! 1 = 0x33 \<or> c ! 1 = 0x34) then Some (Inl (PO (c ! 1 - 0x30))) else None)
         else if (f = 0x76 \<or> f = 0x72 \<or> f = 0x6B) \<and> tm_len m \<ge> 2 then
           (if is_version_pattern c then Some (Inl (PVersion (capitalize_first c))) else None)
         else if f = 0x6C \<and> tm_len m = 6 then
           (if c = bytes_of ''latest'' \<or> c = bytes_of ''legacy'' then Some (Inr (PDateMarker c)) else None)
         else None)"

text \<open>One round of the loop: a part of the name (\<open>Inl\<close>) or of the date (\<open>Inr\<close>), and the tokens it takes.\<close>

definition parse_step :: "name_token \<Rightarrow> name_token list \<Rightarrow> ((name_pattern + name_pattern) \<times> nat) ub" where
  "parse_step t rest =
     (let m = nt_meta t; c = nt_content t
      in case quick_pattern t of
        Some p \<Rightarrow> Some (p, 1)
      | None \<Rightarrow>
          if tm_is_digit_only m then
            if tm_digit_count m = 1 \<and> rest \<noteq> [] \<and> tm_is_digit_only (nt_meta (hd rest)) \<and> tm_digit_count (nt_meta (hd rest)) = 1
            then Some (Inl (PVersion (c @ [0x2E] @ nt_content (hd rest))), 2)
            else do {
              date \<leftarrow> (if tm_digit_count m = 4 \<or> tm_digit_count m = 2 then try_parse_date t rest else Some None);
              (case date of
                 Some d \<Rightarrow> Some (Inr (PDate d), update_index_for_date t rest)
               | None \<Rightarrow> Some (Inl (PWord c), 1))
            }
          else if tm_has_dot m then Some (Inl (PVersion c), 1)
          else Some (Inl (PWord c), 1))"

function parse_patterns :: "name_token list \<Rightarrow> (name_pattern list \<times> name_pattern list) ub" where
  "parse_patterns [] = Some ([], [])"
| "parse_patterns (t # rest) = do {
     (p, n) \<leftarrow> parse_step t rest;
     (main, date) \<leftarrow> parse_patterns (drop (n - 1) rest);
     Some (case p of Inl x \<Rightarrow> (x # main, date) | Inr x \<Rightarrow> (main, x # date))
   }"
  by pat_completeness auto
termination by (relation "measure length") (auto simp: less_Suc_eq_le)

section \<open>Output\<close>

text \<open>\<open>up\<close> is \<^verbatim>\<open>to_uppercase\<close> of a character and \<open>is_up\<close> says whether it is uppercase, both for characters outside ASCII.\<close>

record case_env =
  ce_up :: "bytes \<Rightarrow> bytes"
  ce_is_up :: "bytes \<Rightarrow> bool"

definition capitalize_word :: "case_env \<Rightarrow> bytes \<Rightarrow> bytes" where
  "capitalize_word e word =
     (if word = bytes_of ''default'' then bytes_of ''Default''
      else if word = [] then word
      else if hd word < 0x80 then
        (if is_ascii_uppercase (hd word) then word
         else if is_ascii_lowercase (hd word) then (hd word - 0x61 + 0x41) # tl word
         else word)
      else case chars word of
        [] \<Rightarrow> word
      | c # cs \<Rightarrow> if ce_is_up e c then word else ce_up e c @ concat cs)"

definition main_text :: "case_env \<Rightarrow> name_pattern \<Rightarrow> bytes" where
  "main_text e p =
     (case p of
        PGPT \<Rightarrow> bytes_of ''GPT''
      | PO n \<Rightarrow> [0x4F, 0x30 + n]
      | PVersion v \<Rightarrow> v
      | PWord w \<Rightarrow> capitalize_word e w
      | _ \<Rightarrow> [])"

fun format_main :: "case_env \<Rightarrow> nat \<Rightarrow> name_pattern list \<Rightarrow> bytes" where
  "format_main e i [] = []"
| "format_main e i (p # ps) = (if i > 0 then [0x20] else []) @ main_text e p @ format_main e (i + 1) ps"

fun format_dates :: "name_pattern list \<Rightarrow> bytes ub" where
  "format_dates [] = Some []"
| "format_dates (p # ps) = do {
     d \<leftarrow> (case p of PDate d \<Rightarrow> Some d | PDateMarker m \<Rightarrow> Some m | _ \<Rightarrow> None);
     rest \<leftarrow> format_dates ps;
     Some (bytes_of '' ('' @ d @ bytes_of '')'' @ rest)
   }"

definition format_output :: "case_env \<Rightarrow> name_pattern list \<times> name_pattern list \<Rightarrow> bytes ub" where
  "format_output e r = do { d \<leftarrow> format_dates (snd r); Some (format_main e 0 (fst r) @ d) }"

definition display_name_internal :: "case_env \<Rightarrow> bytes \<Rightarrow> bytes ub" where
  "display_name_internal e identifier = do {
     patterns \<leftarrow> parse_patterns (tokenize identifier);
     format_output e patterns
   }"

text \<open>The cache is read under one lock and written under another.\<close>

definition calculate_display_name :: "case_env \<Rightarrow> bytes \<Rightarrow> (bytes \<rightharpoonup> bytes) \<Rightarrow> (bytes \<times> (bytes \<rightharpoonup> bytes)) ub" where
  "calculate_display_name e identifier cache =
     (case cache identifier of
        Some cached \<Rightarrow> Some (cached, cache)
      | None \<Rightarrow> do {
          result \<leftarrow> (if identifier = [] then Some [] else display_name_internal e identifier);
          Some (result, cache(identifier \<mapsto> result))
        })"

section \<open>Correctness\<close>

text \<open>Indexing is in range: a segment of digits only is as long as its counter says, up to multiples of 256.\<close>

lemma analyze_loop_dot: "snd (snd (analyze_loop bs d n True))"
  by (induction bs arbitrary: d n) auto

lemma analyze_loop_other: "\<not> fst (analyze_loop bs False n dot)"
  by (induction bs arbitrary: n dot) auto

lemma analyze_loop_count: "analyze_loop bs d n dot = (True, k, False) \<Longrightarrow> k = n + of_nat (length bs)"
proof (induction bs d n dot rule: analyze_loop.induct)
  case (2 b bs d n dot)
  then show ?case
    using analyze_loop_dot [of bs d n] analyze_loop_other [of bs n dot] by (auto split: if_splits)
qed simp

lemma four_digits:
  assumes "tm_is_digit_only (analyze_segment c)" "tm_digit_count (analyze_segment c) = 4"
  shows "4 \<le> length c"
proof -
  obtain d n dot where a: "analyze_loop c True 0 False = (d, n, dot)" by (cases "analyze_loop c True 0 False") auto
  have d: "d" "\<not> dot" "n = 4" using assms a by (auto simp: analyze_segment_def Let_def split: if_splits)
  then have "(4 :: u8) = of_nat (length c)" using analyze_loop_count [of c True 0 False n] a by simp
  then have "unat (of_nat (length c) :: u8) = unat (4 :: u8)" by simp
  then have "length c mod 256 = 4" by (simp add: unat_of_nat)
  then show ?thesis by (metis mod_less_eq_dividend)
qed

definition date_pattern :: "name_pattern \<Rightarrow> bool" where
  "date_pattern p = (case p of PDate _ \<Rightarrow> True | PDateMarker _ \<Rightarrow> True | _ \<Rightarrow> False)"

lemma try_parse_date_defined:
  assumes "nt_meta t = analyze_segment (nt_content t)" "tm_is_digit_only (nt_meta t)"
  shows "\<exists>d. try_parse_date t rest = Some d"
  using four_digits [of "nt_content t"] assms by (auto simp: try_parse_date_def Let_def)

lemma parse_step_defined:
  assumes "nt_meta t = analyze_segment (nt_content t)"
  shows "\<exists>p n. parse_step t rest = Some (p, n) \<and> (\<forall>x. p = Inr x \<longrightarrow> date_pattern x)"
proof (cases "quick_pattern t")
  case None
  have "\<exists>d. (if tm_digit_count (nt_meta t) = 4 \<or> tm_digit_count (nt_meta t) = 2 then try_parse_date t rest else Some None) = Some d"
    if "tm_is_digit_only (nt_meta t)" using try_parse_date_defined [OF assms that, of rest] by auto
  then show ?thesis using None by (auto simp: parse_step_def Let_def date_pattern_def split: option.split)
next
  case (Some p)
  then have "date_pattern x" if "p = Inr x" for x
    using that by (auto simp: quick_pattern_def Let_def date_pattern_def split: if_splits)
  with Some show ?thesis by (simp add: parse_step_def)
qed

lemma parse_patterns_defined:
  "\<forall>t \<in> set ts. nt_meta t = analyze_segment (nt_content t) \<Longrightarrow>
   \<exists>m d. parse_patterns ts = Some (m, d) \<and> list_all date_pattern d"
proof (induction ts rule: parse_patterns.induct)
  case (2 t rest)
  obtain p n where p: "parse_step t rest = Some (p, n)" "\<forall>x. p = Inr x \<longrightarrow> date_pattern x"
    using parse_step_defined [of t rest] 2(2) by auto
  have "\<forall>t \<in> set (drop (n - 1) rest). nt_meta t = analyze_segment (nt_content t)"
    using 2(2) by (meson in_set_dropD list.set_intros(2))
  then obtain m d where "parse_patterns (drop (n - 1) rest) = Some (m, d)" "list_all date_pattern d"
    using 2(1) [OF p(1) refl] by blast
  with p show ?case by (auto split: sum.split)
qed simp

lemma format_dates_defined: "list_all date_pattern d \<Longrightarrow> \<exists>t. format_dates d = Some t"
  by (induction d) (auto simp: date_pattern_def split: name_pattern.splits)

lemma display_name_defined: "\<exists>t. display_name_internal e identifier = Some t"
proof -
  obtain m d where "parse_patterns (tokenize identifier) = Some (m, d)" "list_all date_pattern d"
    using parse_patterns_defined [of "tokenize identifier"] by (auto simp: tokenize_def)
  then show ?thesis using format_dates_defined [of d] by (auto simp: display_name_internal_def format_output_def)
qed

definition display_name :: "case_env \<Rightarrow> bytes \<Rightarrow> bytes" where
  "display_name e identifier = (if identifier = [] then [] else the (display_name_internal e identifier))"

fun display_names :: "case_env \<Rightarrow> bytes list \<Rightarrow> (bytes \<rightharpoonup> bytes) \<Rightarrow> (bytes list \<times> (bytes \<rightharpoonup> bytes)) ub" where
  "display_names e [] cache = Some ([], cache)"
| "display_names e (i # is) cache = do {
     (r, cache) \<leftarrow> calculate_display_name e i cache;
     (rs, cache) \<leftarrow> display_names e is cache;
     Some (r # rs, cache)
   }"

text \<open>For every identifier a name is computed without a panic, and in any sequence of calls the cache gives the name that
  would be computed.\<close>

theorem display_names_cached:
  assumes "\<forall>i t. cache i = Some t \<longrightarrow> t = display_name e i"
  shows "\<exists>cache'. display_names e ids cache = Some (map (display_name e) ids, cache')"
  using assms
proof (induction ids arbitrary: cache)
  case (Cons i ids)
  obtain t where "display_name_internal e i = Some t" using display_name_defined by blast
  then have n: "(if i = [] then Some [] else display_name_internal e i) = Some (display_name e i)" by (simp add: display_name_def)
  obtain c where c: "calculate_display_name e i cache = Some (display_name e i, c)" "\<forall>j t. c j = Some t \<longrightarrow> t = display_name e j"
  proof (cases "cache i")
    case None
    show ?thesis
      by (rule that [of "cache(i \<mapsto> display_name e i)"]) (use None n Cons.prems in \<open>simp_all add: calculate_display_name_def\<close>)
  next
    case (Some t)
    show ?thesis by (rule that [of cache]) (use Some Cons.prems in \<open>simp_all add: calculate_display_name_def\<close>)
  qed
  then show ?case using Cons.IH [OF c(2)] by auto
qed simp

text \<open>The examples of the documentation.\<close>

lemma display_name_examples:
  "display_name_internal e (bytes_of ''claude-3-5-sonnet'') = Some (bytes_of ''Claude 3.5 Sonnet'')"
  "display_name_internal e (bytes_of ''deepseek-v3'') = Some (bytes_of ''Deepseek V3'')"
  "display_name_internal e (bytes_of ''gpt-3.5-turbo'') = Some (bytes_of ''GPT 3.5 Turbo'')"
  "display_name_internal e (bytes_of ''gpt-4-turbo-2024-04-09'') = Some (bytes_of ''GPT 4 Turbo (2024-04-09)'')"
  "display_name_internal e (bytes_of ''gemini-2.5-pro-exp-03-25'') = Some (bytes_of ''Gemini 2.5 Pro Exp (03-25)'')"
  "display_name_internal e (bytes_of ''deepseek-r1-0528'') = Some (bytes_of ''Deepseek R1 (05-28)'')"
  "display_name_internal e (bytes_of ''gemini-2.5-pro-latest'') = Some (bytes_of ''Gemini 2.5 Pro (latest)'')"
  "display_name_internal e (bytes_of ''o3-mini'') = Some (bytes_of ''O3 Mini'')"
  "display_name_internal e (bytes_of ''version-10-beta'') = Some (bytes_of ''Version 10 Beta'')"
  "display_name_internal e (bytes_of ''model-1-test-9-case'') = Some (bytes_of ''Model 1 Test 9 Case'')"
  by (simp_all add: display_name_internal_def tokenize_def analyze_segment_def bytes_of_def is_ascii_digit_def parse_step_def
      quick_pattern_def is_version_pattern_def capitalize_first_def is_ascii_uppercase_def is_ascii_lowercase_def
      try_parse_date_def full_date_def month_day_def two_digits_def update_index_for_date_def format_output_def
      main_text_def capitalize_word_def Let_def)

end
