(* ===== verification/Ntp.thy ===== *)
theory Ntp
  imports Text_Util Complex_Main
begin

unbundle bit_operations_syntax

text \<open>
  Network time: \<^verbatim>\<open>src/common/model/ntp.rs\<close>, with the durations of the patched \<^verbatim>\<open>chrono\<close> it computes with, and the clock that uses the
  result (\<^verbatim>\<open>now_with_epoch\<close> in \<^verbatim>\<open>src/common/utils.rs\<close>).  Sockets and the system clock are parameters, and so is floating point
  arithmetic.
\<close>

section \<open>Durations\<close>

abbreviation NANOS_PER_SEC :: int where "NANOS_PER_SEC \<equiv> 1000000000"

text \<open>Seconds and nanoseconds, the latter at least zero and less than a second; a point in time is the duration since 1970.\<close>

record time_delta =
  td_secs :: int
  td_nanos :: int

text \<open>The range of \<^verbatim>\<open>TimeDelta::new\<close>.\<close>

definition td_new :: "int \<Rightarrow> int \<Rightarrow> time_delta option" where
  "td_new secs nanos =
     (if \<bar>secs * 1000000000 + nanos\<bar> > (2 ^ 63 - 1) * 1000000 \<or> nanos < 0 \<or> nanos \<ge> NANOS_PER_SEC then None
      else Some \<lparr>td_secs = secs, td_nanos = nanos\<rparr>)"

definition checked_add :: "time_delta \<Rightarrow> time_delta \<Rightarrow> time_delta option" where
  "checked_add x y =
     (let secs = td_secs x + td_secs y; nanos = td_nanos x + td_nanos y
      in if nanos \<ge> NANOS_PER_SEC then td_new (secs + 1) (nanos - NANOS_PER_SEC) else td_new secs nanos)"

definition checked_sub :: "time_delta \<Rightarrow> time_delta \<Rightarrow> time_delta option" where
  "checked_sub x y =
     (let secs = td_secs x - td_secs y; nanos = td_nanos x - td_nanos y
      in if nanos < 0 then td_new (secs - 1) (nanos + NANOS_PER_SEC) else td_new secs nanos)"

text \<open>Division of the language rounds towards zero.\<close>

definition quot :: "int \<Rightarrow> int \<Rightarrow> int" where
  "quot x y = sgn x * sgn y * (\<bar>x\<bar> div \<bar>y\<bar>)"

definition rem :: "int \<Rightarrow> int \<Rightarrow> int" where
  "rem x y = x - quot x y * y"

definition checked_div :: "time_delta \<Rightarrow> int \<Rightarrow> time_delta option" where
  "checked_div x rhs =
     (if rhs = 0 then None
      else
        let secs = quot (td_secs x) rhs;
            carry = rem (td_secs x) rhs;
            extra_nanos = quot (carry * NANOS_PER_SEC) rhs;
            nanos = quot (td_nanos x) rhs + extra_nanos
        in Some (if nanos < 0 then \<lparr>td_secs = secs - 1, td_nanos = nanos + NANOS_PER_SEC\<rparr>
                 else if nanos \<ge> NANOS_PER_SEC then \<lparr>td_secs = secs + 1, td_nanos = nanos - NANOS_PER_SEC\<rparr>
                 else \<lparr>td_secs = secs, td_nanos = nanos\<rparr>))"

definition i64_range :: "int \<Rightarrow> bool" where "i64_range x \<longleftrightarrow> - (2 ^ 63) \<le> x \<and> x < 2 ^ 63"

definition num_nanoseconds :: "time_delta \<Rightarrow> int option" where
  "num_nanoseconds x =
     (let secs_part = (if td_secs x < 0 \<and> td_nanos x > 0 then td_secs x + 1 else td_secs x) * NANOS_PER_SEC;
          nanos_part = (if td_secs x < 0 \<and> td_nanos x > 0 then td_nanos x - NANOS_PER_SEC else td_nanos x)
      in if i64_range secs_part \<and> i64_range (secs_part + nanos_part) then Some (secs_part + nanos_part) else None)"

section \<open>Time stamps\<close>

definition EPOCH_DELTA :: int where "EPOCH_DELTA = 0x83AA7E80"

text \<open>\<^verbatim>\<open>DateTime::from_timestamp\<close> accepts the years up to 262142; the unwrapping is unchecked.\<close>

definition from_timestamp :: "int \<Rightarrow> int \<Rightarrow> time_delta ub" where
  "from_timestamp secs nanos =
     (if -8334601228800 \<le> secs \<and> secs \<le> 8210266876799 \<and> 0 \<le> nanos \<and> nanos < NANOS_PER_SEC
      then Some \<lparr>td_secs = secs, td_nanos = nanos\<rparr> else None)"

definition ntp_to_unix_timestamp :: "u64 \<Rightarrow> time_delta ub" where
  "ntp_to_unix_timestamp ntp_ts =
     (let ntp_secs = uint (drop_bit 32 ntp_ts);
          ntp_frac = and ntp_ts 0xFFFFFFFF;
          unix_secs = ntp_secs - EPOCH_DELTA;
          nanos = uint (ucast (drop_bit 32 (ntp_frac * 1000000000)) :: u32)
      in from_timestamp unix_secs nanos)"

datatype protocol_error = NoServer | WrongMode | KissOfDeath | Unsynchronised | BadStratum | OffsetRange | RttRange | TooFewSamples

datatype ntp_error = Protocol protocol_error | Io bytes | Timeout | TimeParse

text \<open>The system clock: seconds and nanoseconds since 1970, or earlier.\<close>

type_synonym system_time = "(u64 \<times> u32) option"

definition system_time_to_ntp_timestamp :: "system_time \<Rightarrow> ntp_error + u64" where
  "system_time_to_ntp_timestamp t =
     (case t of
        None \<Rightarrow> Inl TimeParse
      | Some (s, n) \<Rightarrow>
          let secs = s + of_int EPOCH_DELTA;
              nanos = ucast n :: u64;
              frac = push_bit 32 nanos div 1000000000
          in Inr (or (push_bit 32 secs) frac))"

record ntp_timestamps =
  t1 :: time_delta
  t2 :: time_delta
  t3 :: time_delta
  t4 :: time_delta

text \<open>The sums panic out of range.\<close>

definition clock_offset :: "ntp_timestamps \<Rightarrow> time_delta ub" where
  "clock_offset ts = do {
     term1 \<leftarrow> checked_sub (t2 ts) (t1 ts);
     term2 \<leftarrow> checked_sub (t4 ts) (t3 ts);
     s \<leftarrow> checked_add term1 term2;
     checked_div s 2
   }"

definition round_trip_delay :: "ntp_timestamps \<Rightarrow> time_delta ub" where
  "round_trip_delay ts = do {
     total_time \<leftarrow> checked_sub (t4 ts) (t1 ts);
     server_time \<leftarrow> checked_sub (t3 ts) (t2 ts);
     checked_sub total_time server_time
   }"

definition validate_ntp_response :: "bytes \<Rightarrow> ntp_error + unit" where
  "validate_ntp_response packet =
     (let mode = and (packet ! 0) 0x7; stratum = packet ! 1
      in if mode \<noteq> 4 then Inl (Protocol WrongMode)
         else if stratum = 0 then Inl (Protocol KissOfDeath)
         else if stratum = 16 then Inl (Protocol Unsynchronised)
         else if stratum \<ge> 17 then Inl (Protocol BadStratum)
         else Inr ())"

section \<open>Measurement\<close>

definition request_packet :: "u64 \<Rightarrow> bytes" where
  "request_packet t = (or (push_bit 3 4) 3) # replicate 39 0 @ be_bytes 8 (unat t)"

text \<open>The datagram overwrites the beginning of the packet; its length is not looked at.\<close>

definition recv_into :: "bytes \<Rightarrow> bytes \<Rightarrow> bytes" where
  "recv_into packet datagram = take 48 datagram @ drop (length datagram) packet"

definition send_and_receive_ntp_packet ::
  "system_time \<Rightarrow> ntp_error option \<Rightarrow> (bytes \<Rightarrow> ntp_error + bytes) \<Rightarrow> system_time \<Rightarrow> (ntp_error + bytes \<times> ntp_timestamps) ub" where
  "send_and_receive_ntp_packet t1_system send recv t4_system =
     (case system_time_to_ntp_timestamp t1_system of
        Inl e \<Rightarrow> Some (Inl e)
      | Inr t1_ntp \<Rightarrow>
          let packet = request_packet t1_ntp
          in case send of
            Some e \<Rightarrow> Some (Inl e)
          | None \<Rightarrow>
              case recv packet of
                Inl e \<Rightarrow> Some (Inl e)
              | Inr datagram \<Rightarrow>
                  let packet = recv_into packet datagram
                  in case system_time_to_ntp_timestamp t4_system of
                    Inl e \<Rightarrow> Some (Inl e)
                  | Inr t4_ntp \<Rightarrow> do {
                      a \<leftarrow> ntp_to_unix_timestamp t1_ntp;
                      b \<leftarrow> ntp_to_unix_timestamp (of_nat (be_val (take 8 (drop 32 packet))));
                      c \<leftarrow> ntp_to_unix_timestamp (of_nat (be_val (take 8 (drop 40 packet))));
                      d \<leftarrow> ntp_to_unix_timestamp t4_ntp;
                      Some (Inr (packet, \<lparr>t1 = a, t2 = b, t3 = c, t4 = d\<rparr>))
                    })"

definition measure_once ::
  "(ntp_error + unit) \<Rightarrow> (ntp_error + bytes \<times> ntp_timestamps) \<Rightarrow> (ntp_error + int \<times> int) ub" where
  "measure_once link exchange =
     (case link of
        Inl e \<Rightarrow> Some (Inl e)
      | Inr _ \<Rightarrow>
          case exchange of
            Inl e \<Rightarrow> Some (Inl e)
          | Inr (packet, ts) \<Rightarrow>
              case validate_ntp_response packet of
                Inl e \<Rightarrow> Some (Inl e)
              | Inr _ \<Rightarrow> do {
                  offset \<leftarrow> clock_offset ts;
                  rtt \<leftarrow> round_trip_delay ts;
                  Some (case num_nanoseconds offset of
                      None \<Rightarrow> Inl (Protocol OffsetRange)
                    | Some offset_nanos \<Rightarrow>
                        (case num_nanoseconds rtt of
                           None \<Rightarrow> Inl (Protocol RttRange)
                         | Some rtt_nanos \<Rightarrow> Inr (offset_nanos, rtt_nanos)))
                })"

text \<open>The operations on \<^verbatim>\<open>f64\<close>.\<close>

record 'f f64_ops =
  f_of_int :: "int \<Rightarrow> 'f"
  f_add :: "'f \<Rightarrow> 'f \<Rightarrow> 'f"
  f_mul :: "'f \<Rightarrow> 'f \<Rightarrow> 'f"
  f_div :: "'f \<Rightarrow> 'f \<Rightarrow> 'f"
  f_to_i64 :: "'f \<Rightarrow> int"

definition weigh :: "'f f64_ops \<Rightarrow> int \<times> int \<Rightarrow> 'f \<times> 'f \<Rightarrow> 'f \<times> 'f" where
  "weigh f sample acc =
     (let weight = f_div f (f_of_int f 1) (f_of_int f (snd sample))
      in (f_add f (fst acc) (f_mul f (f_of_int f (fst sample)) weight), f_add f (snd acc) weight))"

definition filter_count :: "nat \<Rightarrow> nat" where
  "filter_count success_count = (if success_count \<ge> 8 then 3 else if success_count \<ge> 5 then 2 else 0)"

definition valid_samples :: "(int \<times> int) list \<Rightarrow> (int \<times> int) list" where
  "valid_samples samples = take (length samples - filter_count (length samples)) (sort_key snd samples)"

text \<open>\<open>results\<close> are the measurements, one after the other.\<close>

fun collect_samples :: "(ntp_error + int \<times> int) list \<Rightarrow> (int \<times> int) list" where
  "collect_samples [] = []"
| "collect_samples (r # rs) = (case r of Inr s \<Rightarrow> s # collect_samples rs | Inl _ \<Rightarrow> collect_samples rs)"

definition sync_once :: "'f f64_ops \<Rightarrow> (ntp_error + int \<times> int) list \<Rightarrow> ntp_error + int" where
  "sync_once f results =
     (let samples = collect_samples results
      in if length samples < 3 then Inl (Protocol TooFewSamples)
         else let (weighted_sum, weight_sum) = fold (weigh f) (valid_samples samples) (f_of_int f 0, f_of_int f 0)
           in Inr (f_to_i64 f (f_div f weighted_sum weight_sum)))"

section \<open>The correction of the clock\<close>

record ntp_state =
  DELTA :: int
  periodic :: bool

definition ntp_initial :: ntp_state where "ntp_initial = \<lparr>DELTA = 0, periodic = False\<rparr>"

definition store_delta :: "ntp_error + int \<Rightarrow> ntp_state \<Rightarrow> ntp_state" where
  "store_delta r s = (case r of Inr d \<Rightarrow> s\<lparr>DELTA := d\<rparr> | Inl _ \<Rightarrow> s)"

definition init_sync :: "bytes list \<Rightarrow> nat \<Rightarrow> ntp_error + int \<Rightarrow> ntp_state \<Rightarrow> ntp_state" where
  "init_sync servers interval_secs r s =
     (if servers = [] then s
      else case r of
        Inr d \<Rightarrow> s\<lparr>DELTA := d, periodic := interval_secs \<noteq> 0\<rparr>
      | Inl _ \<Rightarrow> s)"

text \<open>\<^verbatim>\<open>now_with_epoch\<close> in nanoseconds: \<open>elapsed\<close> is the time of the system clock since the epoch.\<close>

definition now_with_epoch :: "nat \<Rightarrow> ntp_state \<Rightarrow> nat ub" where
  "now_with_epoch elapsed s =
     (if DELTA s < 0 then (if nat (- DELTA s) \<le> elapsed then Some (elapsed - nat (- DELTA s)) else None)
      else if elapsed + nat (DELTA s) < 2 ^ 64 * 1000000000 then Some (elapsed + nat (DELTA s)) else None)"

section \<open>Arithmetic of durations\<close>

definition td_value :: "time_delta \<Rightarrow> int" where "td_value x = td_secs x * NANOS_PER_SEC + td_nanos x"

definition td_ok :: "time_delta \<Rightarrow> bool" where "td_ok x \<longleftrightarrow> 0 \<le> td_nanos x \<and> td_nanos x < NANOS_PER_SEC"

definition td_limit :: int where "td_limit = (2 ^ 63 - 1) * 1000000"

lemma checked_sub_value:
  "td_ok x \<Longrightarrow> td_ok y \<Longrightarrow> \<bar>td_value x - td_value y\<bar> \<le> td_limit \<Longrightarrow>
   \<exists>z. checked_sub x y = Some z \<and> td_ok z \<and> td_value z = td_value x - td_value y"
  by (auto simp: checked_sub_def td_new_def td_ok_def td_value_def td_limit_def Let_def algebra_simps)

lemma checked_add_value:
  "td_ok x \<Longrightarrow> td_ok y \<Longrightarrow> \<bar>td_value x + td_value y\<bar> \<le> td_limit \<Longrightarrow>
   \<exists>z. checked_add x y = Some z \<and> td_ok z \<and> td_value z = td_value x + td_value y"
  by (auto simp: checked_add_def td_new_def td_ok_def td_value_def td_limit_def Let_def algebra_simps)

lemma quot_2: "quot x 2 = (if x < 0 then - ((- x) div 2) else x div 2)"
  by (auto simp: quot_def sgn_if)

lemma checked_div_2_value:
  assumes "td_ok x"
  shows "\<exists>z. checked_div x 2 = Some z \<and> td_ok z \<and> td_value z = td_value x div 2"
proof -
  define q where "q = quot (td_secs x) 2"
  define c where "c = rem (td_secs x) 2"
  have s: "td_secs x = 2 * q + c" by (simp add: q_def c_def rem_def)
  have "c = -1 \<or> c = 0 \<or> c = 1" unfolding c_def rem_def quot_2 by (auto split: if_splits)
  then have e: "quot (c * NANOS_PER_SEC) 2 = c * 500000000" by (auto simp: quot_2)
  have n: "quot (td_nanos x) 2 = td_nanos x div 2" using assms by (simp add: quot_2 td_ok_def)
  have v: "td_value x div 2 = q * NANOS_PER_SEC + (td_nanos x div 2 + c * 500000000)"
    unfolding td_value_def s by (simp add: algebra_simps)
  show ?thesis
    using assms \<open>c = -1 \<or> c = 0 \<or> c = 1\<close> unfolding v checked_div_def Let_def q_def [symmetric] c_def [symmetric] e n
    by (auto simp: td_ok_def td_value_def algebra_simps)
qed

text \<open>The offset is computed with the wrong sign of the second term: for a server whose clock is ahead by \<open>\<theta>\<close> and a delay of
  \<open>d\<close> each way the result is \<open>d\<close>, whatever \<open>\<theta>\<close> is.  The round trip is right.\<close>

theorem clock_offset_is_delay:
  assumes ok: "td_ok (t1 ts)" "td_ok (t2 ts)" "td_ok (t3 ts)" "td_ok (t4 ts)"
    and out: "td_value (t2 ts) = td_value (t1 ts) + \<theta> + d" and ret: "td_value (t4 ts) = td_value (t3 ts) - \<theta> + d"
    and bounds: "\<bar>\<theta>\<bar> \<le> 10 ^ 20" "0 \<le> d" "d \<le> 10 ^ 20" "\<bar>td_value (t3 ts) - td_value (t2 ts)\<bar> \<le> 10 ^ 20"
  shows "map_option td_value (clock_offset ts) = Some d \<and> map_option td_value (round_trip_delay ts) = Some (2 * d)"
proof -
  have lim: "(10 :: int) ^ 20 * 5 \<le> td_limit" by (simp add: td_limit_def)
  obtain x where x: "checked_sub (t2 ts) (t1 ts) = Some x" "td_ok x" "td_value x = \<theta> + d"
    using checked_sub_value [OF ok(2,1)] out bounds lim by fastforce
  obtain y where y: "checked_sub (t4 ts) (t3 ts) = Some y" "td_ok y" "td_value y = d - \<theta>"
    using checked_sub_value [OF ok(4,3)] ret bounds lim by fastforce
  obtain z where z: "checked_add x y = Some z" "td_ok z" "td_value z = 2 * d"
    using checked_add_value [OF x(2) y(2)] x(3) y(3) bounds lim by fastforce
  obtain o' where o': "checked_div z 2 = Some o'" "td_value o' = d" using checked_div_2_value [OF z(2)] z(3) by auto
  obtain a where a: "checked_sub (t4 ts) (t1 ts) = Some a" "td_ok a" "td_value a = td_value (t4 ts) - td_value (t1 ts)"
    using checked_sub_value [OF ok(4,1)] out ret bounds lim by fastforce
  obtain b where b: "checked_sub (t3 ts) (t2 ts) = Some b" "td_ok b" "td_value b = td_value (t3 ts) - td_value (t2 ts)"
    using checked_sub_value [OF ok(3,2)] bounds lim by fastforce
  obtain r where r: "checked_sub a b = Some r" "td_value r = 2 * d"
    using checked_sub_value [OF a(2) b(2)] a(3) b(3) out ret bounds lim by fastforce
  show ?thesis using x y z o' a b r by (simp add: clock_offset_def round_trip_delay_def)
qed

section \<open>Time stamps in 64 bits\<close>

lemma ntp_parts:
  fixes S F :: u64
  assumes "uint S < 2 ^ 32" "uint F < 2 ^ 32"
  shows "drop_bit 32 (or (push_bit 32 S) F) = S" "and (or (push_bit 32 S) F) 0xFFFFFFFF = F"
proof -
  have m: "(0xFFFFFFFF :: u64) = mask 32" by (simp add: mask_eq_exp_minus_1)
  have "drop_bit 32 (take_bit 64 (uint F)) = 0" using assms by (simp add: drop_bit_eq_div take_bit_int_eq_self)
  then have D: "drop_bit 32 F = 0" by (simp add: word_uint_eq_iff unsigned_drop_bit_eq)
  have S: "take_bit 32 S = S" and F: "take_bit 32 F = F"
    using assms by (simp_all add: word_uint_eq_iff unsigned_take_bit_eq take_bit_int_eq_self)
  show "drop_bit 32 (or (push_bit 32 S) F) = S"
  proof (rule bit_word_eqI)
    fix n
    have "bit S n \<Longrightarrow> n < 32" using S by (metis bit_take_bit_iff)
    moreover have "\<not> bit F (32 + n)" using arg_cong [OF D, of "\<lambda>w. bit w n"] by (simp add: bit_drop_bit_eq)
    ultimately show "bit (drop_bit 32 (or (push_bit 32 S) F)) n = bit S n"
      by (auto simp: bit_drop_bit_eq bit_or_iff bit_push_bit_iff)
  qed
  show "and (or (push_bit 32 S) F) 0xFFFFFFFF = F"
    using F unfolding m by (simp flip: take_bit_eq_mask add: take_bit_push_bit)
qed

lemma frac_bounds:
  fixes n :: nat
  assumes "n < 1000000000"
  defines "f \<equiv> n * 2 ^ 32 div 1000000000"
  shows "f < 2 ^ 32" "n - 1 \<le> f * 1000000000 div 2 ^ 32" "f * 1000000000 div 2 ^ 32 \<le> n"
proof -
  have f: "f * 1000000000 \<le> n * 2 ^ 32" "n * 2 ^ 32 < f * 1000000000 + 1000000000"
    unfolding f_def by (simp_all add: mult.commute dividend_less_div_times)
  show "f < 2 ^ 32" using f(1) assms(1) by simp
  show "f * 1000000000 div 2 ^ 32 \<le> n" using f(1) by simp
  have "(n - 1) * 2 ^ 32 \<le> f * 1000000000" using f(2) by (cases n) auto
  then show "n - 1 \<le> f * 1000000000 div 2 ^ 32" by (simp add: less_eq_div_iff_mult_less_eq)
qed

text \<open>C38: Until the seconds since 1900 exceed 32 bits, a time that is converted and converted back keeps its seconds, loses at most
  one nanosecond, and the unchecked unwrapping is defined.\<close>

theorem ntp_time_roundtrip:
  assumes "uint s + EPOCH_DELTA < 2 ^ 32" "uint n < 1000000000"
  shows "\<exists>x t. system_time_to_ntp_timestamp (Some (s, n)) = Inr x \<and> ntp_to_unix_timestamp x = Some t \<and>
    td_secs t = uint s \<and> uint n - 1 \<le> td_nanos t \<and> td_nanos t \<le> uint n"
proof -
  define N where "N = unat n"
  define S where "S = s + of_int EPOCH_DELTA"
  define F where "F = push_bit 32 (ucast n :: u64) div 1000000000"
  have N: "N < 1000000000" using assms(2) unfolding N_def uint_nat by linarith
  note fb = frac_bounds [OF N]
  have US: "uint S = uint s + EPOCH_DELTA"
    using assms(1) by (simp add: S_def EPOCH_DELTA_def uint_word_ariths take_bit_int_eq_self)
  have u: "unat (ucast n :: u64) = N"
    using N by (simp add: N_def unsigned_ucast_eq take_bit_nat_eq_self)
  have "unat (push_bit 32 (ucast n :: u64)) = N * 2 ^ 32"
    using N by (simp add: push_bit_eq_mult unat_word_ariths u)
  then have F: "unat F = N * 2 ^ 32 div 1000000000" by (simp add: F_def unat_div)
  have "unat F < 2 ^ 32" using fb(1) F by simp
  then have "int (unat F) < 2 ^ 32" by (simp only: of_nat_less_numeral_power_cancel_iff)
  then have SF: "uint S < 2 ^ 32" "uint F < 2 ^ 32" "uint S - EPOCH_DELTA = uint s"
    using assms(1) US by simp_all
  have "unat (F * 1000000000) = unat F * 1000000000" using fb(1) F by (simp add: unat_word_ariths)
  then have "unat (drop_bit 32 (F * 1000000000)) = unat F * 1000000000 div 2 ^ 32"
    by (simp add: drop_bit_eq_div unat_div)
  moreover have "unat F * 1000000000 div 2 ^ 32 \<le> N" using fb(3) F by simp
  ultimately have nanos: "unat (ucast (drop_bit 32 (F * 1000000000)) :: u32) = unat F * 1000000000 div 2 ^ 32"
    using N by (simp add: unsigned_ucast_eq take_bit_nat_eq_self)
  then have un: "uint (ucast (drop_bit 32 (F * 1000000000)) :: u32) = int (unat F * 1000000000 div 2 ^ 32)"
    unfolding uint_nat by (rule arg_cong)
  define K where "K = unat F * 1000000000 div 2 ^ 32"
  have K: "int K \<le> int N" "int N - 1 \<le> int K" using fb(2,3) F by (simp_all add: K_def)
  have n: "uint n = int N" unfolding N_def by (rule uint_nat)
  have "uint s \<le> 8210266876799" using assms(1) by (simp add: EPOCH_DELTA_def)
  moreover have "-8334601228800 \<le> uint s" using uint_ge_0 [of s] by linarith
  ultimately have "from_timestamp (uint s) (int K) = Some \<lparr>td_secs = uint s, td_nanos = int K\<rparr>"
    using K(1) N unfolding from_timestamp_def by simp
  moreover have "ntp_to_unix_timestamp (or (push_bit 32 S) F) = from_timestamp (uint s) (int K)"
    unfolding ntp_to_unix_timestamp_def Let_def ntp_parts [OF SF(1,2)] SF(3) un K_def by (rule refl)
  moreover have "system_time_to_ntp_timestamp (Some (s, n)) = Inr (or (push_bit 32 S) F)"
    by (simp add: system_time_to_ntp_timestamp_def S_def F_def)
  ultimately show ?thesis using K unfolding n by simp
qed

theorem ntp_time_roundtrip_witness:
  "\<exists>x t. system_time_to_ntp_timestamp (Some (1700000000, 123456789)) = Inr x \<and> ntp_to_unix_timestamp x = Some t \<and>
    td_secs t = 1700000000 \<and> 123456788 \<le> td_nanos t \<and> td_nanos t \<le> 123456789"
  using ntp_time_roundtrip [of 1700000000 123456789] by (simp add: EPOCH_DELTA_def)

section \<open>Samples\<close>

lemma filter_count_le: "3 \<le> n \<Longrightarrow> 3 \<le> n - filter_count n"
  by (auto simp: filter_count_def)

text \<open>The samples that count are the ones with the shortest round trips.\<close>

lemma valid_samples_fastest:
  assumes "x \<in> set (valid_samples samples)" "y \<in> set (drop (length samples - filter_count (length samples)) (sort_key snd samples))"
  shows "snd x \<le> snd y"
proof -
  let ?n = "length samples - filter_count (length samples)"
  have "sorted (map snd (take ?n (sort_key snd samples) @ drop ?n (sort_key snd samples)))" by simp
  then show ?thesis using assms unfolding valid_samples_def map_append sorted_append by fastforce
qed

definition truncate_real :: "real \<Rightarrow> int" where
  "truncate_real x = (if x \<ge> 0 then \<lfloor>x\<rfloor> else \<lceil>x\<rceil>)"

definition exact :: "real f64_ops" where
  "exact = \<lparr>f_of_int = of_int, f_add = (+), f_mul = (*), f_div = (/), f_to_i64 = truncate_real\<rparr>"

lemma fold_weigh:
  "fold (weigh exact) xs (a, b) =
     (a + (\<Sum>x \<leftarrow> xs. of_int (fst x) / of_int (snd x)), b + (\<Sum>x \<leftarrow> xs. 1 / of_int (snd x)))"
  by (induction xs arbitrary: a b) (simp_all add: weigh_def exact_def Let_def)

lemma weighted_bounds:
  assumes "\<forall>x \<in> set xs. 0 < snd x \<and> lo \<le> fst x \<and> fst x \<le> hi"
  shows "of_int lo * (\<Sum>x \<leftarrow> xs. 1 / real_of_int (snd x)) \<le> (\<Sum>x \<leftarrow> xs. of_int (fst x) / of_int (snd x))"
    "(\<Sum>x \<leftarrow> xs. of_int (fst x) / of_int (snd x)) \<le> of_int hi * (\<Sum>x \<leftarrow> xs. 1 / real_of_int (snd x))"
  using assms by (induction xs) (auto simp: distrib_left divide_right_mono add_mono)

lemma truncate_bounds: "of_int lo \<le> x \<Longrightarrow> x \<le> of_int hi \<Longrightarrow> lo \<le> truncate_real x \<and> truncate_real x \<le> hi"
  by (auto simp: truncate_real_def le_floor_iff floor_le_iff ceiling_le_iff le_ceiling_iff)

text \<open>A synchronisation fails exactly when fewer than three measurements succeed.  Otherwise at least three samples count, those
  with the shortest round trips, and in exact arithmetic the correction lies between the smallest and the largest offset
  among them when their round trips are positive.\<close>

theorem sync_once_spec:
  assumes "\<forall>x \<in> set (valid_samples (collect_samples rs)). 0 < snd x \<and> lo \<le> fst x \<and> fst x \<le> hi"
  shows "(length (collect_samples rs) < 3 \<longrightarrow> sync_once exact rs = Inl (Protocol TooFewSamples)) \<and>
    (3 \<le> length (collect_samples rs) \<longrightarrow>
       3 \<le> length (valid_samples (collect_samples rs)) \<and>
       (\<forall>x \<in> set (valid_samples (collect_samples rs)).
          \<forall>y \<in> set (drop (length (valid_samples (collect_samples rs))) (sort_key snd (collect_samples rs))). snd x \<le> snd y) \<and>
       (\<exists>d. sync_once exact rs = Inr d \<and> lo \<le> d \<and> d \<le> hi))"
proof -
  let ?xs = "collect_samples rs" and ?v = "valid_samples (collect_samples rs)"
  let ?w = "\<Sum>x \<leftarrow> ?v. 1 / real_of_int (snd x)" and ?s = "\<Sum>x \<leftarrow> ?v. real_of_int (fst x) / of_int (snd x)"
  have len: "length ?v = length ?xs - filter_count (length ?xs)" by (simp add: valid_samples_def)
  show ?thesis
  proof (intro conjI impI)
    assume n: "3 \<le> length ?xs"
    show v: "3 \<le> length ?v" using filter_count_le [OF n] by (simp add: len)
    show "\<forall>x \<in> set ?v. \<forall>y \<in> set (drop (length ?v) (sort_key snd ?xs)). snd x \<le> snd y"
      unfolding len using valid_samples_fastest by blast
    obtain x ys where xs: "?v = x # ys" using v by (cases ?v) auto
    have "0 \<le> (\<Sum>y \<leftarrow> ys. 1 / real_of_int (snd y))" by (rule sum_list_nonneg) (use assms xs in force)
    then have w: "0 < ?w" using assms xs by (simp add: add_pos_nonneg)
    have "of_int lo \<le> ?s / ?w" "?s / ?w \<le> of_int hi"
      using weighted_bounds [OF assms] w by (simp_all add: pos_le_divide_eq pos_divide_le_eq)
    moreover have "sync_once exact rs = Inr (truncate_real (?s / ?w))"
      using n by (simp add: sync_once_def fold_weigh Let_def) (simp add: exact_def)
    ultimately show "\<exists>d. sync_once exact rs = Inr d \<and> lo \<le> d \<and> d \<le> hi" using truncate_bounds by blast
  qed (simp add: sync_once_def)
qed

theorem sync_once_spec_witness:
  "\<exists>d. sync_once exact [Inr (5, 30), Inl Timeout, Inr (7, 10), Inr (6, 20)] = Inr d \<and> 5 \<le> d \<and> d \<le> 7"
proof -
  let ?rs = "[Inr (5, 30), Inl Timeout, Inr (7, 10), Inr (6, 20)] :: (ntp_error + int \<times> int) list"
  have v: "valid_samples (collect_samples ?rs) = [(7, 10), (6, 20), (5, 30)]"
    by (simp add: valid_samples_def filter_count_def)
  have "\<forall>x \<in> set (valid_samples (collect_samples ?rs)). 0 < snd x \<and> 5 \<le> fst x \<and> fst x \<le> 7" unfolding v by simp
  from sync_once_spec [OF this] show ?thesis by simp
qed

text \<open>The length of the answer is not checked: two bytes are taken for an answer, with the rest of the request in the place of
  the times of the server.\<close>

theorem short_answer_accepted:
  assumes "system_time_to_ntp_timestamp c1 = Inr x" "system_time_to_ntp_timestamp c4 = Inr y"
    "ntp_to_unix_timestamp x = Some a" "ntp_to_unix_timestamp y = Some d"
  shows "\<exists>packet ts. send_and_receive_ntp_packet c1 None (\<lambda>_. Inr [0x24, 1]) c4 = Some (Inr (packet, ts)) \<and>
    validate_ntp_response packet = Inr () \<and> t3 ts = t1 ts"
proof -
  have p: "recv_into (request_packet x) [0x24, 1] = [0x24, 1] @ replicate 38 0 @ be_bytes 8 (unat x)"
    by (simp add: recv_into_def request_packet_def numeral_eq_Suc)
  have "take 8 (drop 40 ([0x24, 1] @ replicate 38 0 @ be_bytes 8 (unat x))) = be_bytes 8 (unat x)" by (simp add: numeral_eq_Suc)
  moreover have "take 8 (drop 32 ([0x24, 1] @ replicate 38 0 @ be_bytes 8 (unat x))) = replicate 8 0" by (simp add: numeral_eq_Suc)
  moreover have "be_val (replicate 8 0) = 0" by (simp add: be_val_def numeral_eq_Suc)
  moreover have "of_nat (be_val (be_bytes 8 (unat x))) = x"
    using unsigned_less [of x, where ?'a = nat] by (simp add: be_val_be_bytes)
  moreover obtain z where "ntp_to_unix_timestamp 0 = Some z"
    by (simp add: ntp_to_unix_timestamp_def from_timestamp_def EPOCH_DELTA_def)
  moreover have "\<not> (17 :: u8) \<le> 1" by (simp add: word_le_nat_alt)
  ultimately show ?thesis
    using assms by (simp add: send_and_receive_ntp_packet_def p validate_ntp_response_def)
qed

end
