(* ===== verification/Spec2Isabelle.thy ===== *)
theory Spec2Isabelle
  imports Base62 Token_Routes OpenAI_Chat Anthropic_Chat OpenAI_Adapter Anthropic_Adapter Cpp_Stream Chat_Handler Proxy_Pool
    Interned Log_Routes Natural_Args String_Builder App_Version Display_Name Ntp
begin

text \<open>
  \<^bold>\<open>The program.\<close>  The repository is a Rust server that offers the OpenAI and the Anthropic chat protocols on top of the
  gRPC service of an editor.  A request runs through these parts.

  \<^item> The middleware (\<^verbatim>\<open>core/auth\<close>) chooses a token for the credential of the request: one of the manager, one
    seen before, or one inside a dynamic key (\<^verbatim>\<open>core/config.rs\<close>).  The administrator gives the server access tokens (\<^verbatim>\<open>core/route/tokens.rs\<close>); the token
    manager (\<^verbatim>\<open>app/model/state/token.rs\<close>) keeps them in slots with three indices and a round-robin queue, shares
    the token values through a reference-counted cache (\<^verbatim>\<open>app/model/token/cache.rs\<close>) and saves them.
  \<^item> The messages of the client are adapted (\<^verbatim>\<open>core/adapter\<close>) to one upstream request, with the default
    instructions, images, links and tool results, and sent as one gRPC frame (\<^verbatim>\<open>common/utils/proto_encode.rs\<close>).
    The headers of the request carry a checksum and an obfuscated time (\<^verbatim>\<open>app/model/checksum.rs\<close>).
  \<^item> The answer arrives in chunks.  The stream decoders (\<^verbatim>\<open>crates/grpc-stream\<close>, \<^verbatim>\<open>core/stream/decoder\<close>) cut
    it into frames and messages, the handlers (\<^verbatim>\<open>core/service.rs\<close>, \<^verbatim>\<open>core/service/cpp.rs\<close>) turn the messages into
    the events of the client's protocol or into one answer.  Errors of the upstream service become errors of the
    client's protocol (\<^verbatim>\<open>core/error\<close>).
  \<^item> The model is resolved in a catalogue (\<^verbatim>\<open>core/constant.rs\<close>, \<^verbatim>\<open>core/model/resolver.rs\<close>) that the upstream service
    can refresh; upstream requests go through the client of a named proxy (\<^verbatim>\<open>app/model/proxy_pool.rs\<close>); \<^verbatim>\<open>app/model/config.rs\<close> holds the configuration that can change while the server runs.
  \<^item> An actor (\<^verbatim>\<open>app/model/log/manager.rs\<close>) keeps the log of the requests, which \<^verbatim>\<open>core/route/logs.rs\<close> shows to
    its clients, \<^verbatim>\<open>app/model/state.rs\<close> the counters.
  \<^item> The start reads a command line of English phrases (\<^verbatim>\<open>natural_args.rs\<close>) and asks a time server how far the clock
    is off (\<^verbatim>\<open>common/model/ntp.rs\<close>).  Texts that occur often are interned (\<^verbatim>\<open>crates/interned\<close>).

  \<^bold>\<open>Theories.\<close>  Paths are relative to \<^verbatim>\<open>src/src\<close> of the repository unless they start with \<^verbatim>\<open>crates\<close> or \<^verbatim>\<open>patch\<close>.

  \<^item> \<^verbatim>\<open>Prelude\<close>, \<^verbatim>\<open>Alphabet\<close>, \<^verbatim>\<open>Text_Util\<close>: types of machine integers and bytes, unchecked accesses as values of an
    option type, alphabets with their decoding tables (locale and interpretations for each codec), texts as bytes.
  \<^item> \<^verbatim>\<open>Base62\<close>, \<^verbatim>\<open>Base64\<close>, \<^verbatim>\<open>Hex_Hash\<close> and \<^verbatim>\<open>Ulid\<close>: the codecs \<^verbatim>\<open>common/utils/base62.rs\<close>, \<^verbatim>\<open>base64.rs\<close>, \<^verbatim>\<open>hex.rs\<close>,
    \<^verbatim>\<open>app/model/hash.rs\<close>, \<^verbatim>\<open>patch/ulid-1.2.1/src/base32.rs\<close>.  Round trips, exactness of the division by multiplication
    and shift on 128-bit words, memory safety of unchecked writes.
  \<^item> \<^verbatim>\<open>Checksum\<close>: \<^verbatim>\<open>app/model/checksum.rs\<close> and \<^verbatim>\<open>timestamp_header.rs\<close>; strict and repairing parsers agree.
  \<^item> \<^verbatim>\<open>Grpc_Stream\<close>, \<^verbatim>\<open>Proto_Encode\<close>: \<^verbatim>\<open>crates/grpc-stream\<close> and the frame encoder.  A reference parser on the whole
    byte string specifies the incremental one (locale \<open>incremental\<close>); messages survive framing and any chunking.
  \<^item> \<^verbatim>\<open>Token_Types\<close>, \<^verbatim>\<open>Raw_Token\<close>: identifiers, keys and JWT payloads of \<^verbatim>\<open>app/model/token.rs\<close> and
    \<^verbatim>\<open>common/model/token.rs\<close> with printers, parsers and archive forms.
  \<^item> \<^verbatim>\<open>Token_Cache\<close>: the cache on an explicit heap of allocations with reference counts; every sequential program is
    safe and frees what it allocates.  \<^verbatim>\<open>Token_Store\<close> shows that it implements interning in a map.
  \<^item> \<^verbatim>\<open>Token_Manager\<close>, \<^verbatim>\<open>Token_Store\<close>, \<^verbatim>\<open>Token_Routes\<close>: slots, indices, free list and queue, saving and loading, and the
    request handlers above them.  The invariant that makes every unchecked access defined is kept by every operation
    and every sequence of requests; the manager refines a table from aliases to tokens; selection is a rotation.
  \<^item> \<^verbatim>\<open>Request_Log\<close>: the log actor with its commands, bounded by its limit, with exact reference counts.
  \<^item> \<^verbatim>\<open>Adapter\<close>, \<^verbatim>\<open>Instructions\<close>, \<^verbatim>\<open>Chat_Request\<close>, \<^verbatim>\<open>OpenAI_Adapter\<close>, \<^verbatim>\<open>Anthropic_Adapter\<close>: web references and links of
    \<^verbatim>\<open>core/adapter.rs\<close>, the instruction template of \<^verbatim>\<open>app/model/default_instructions.rs\<close> (in-place copies equal textual
    replacement), the messages of the upstream request and the two adapters, which keep every message in order.
  \<^item> \<^verbatim>\<open>Chat_Decoder\<close>, \<^verbatim>\<open>Chat_Stream\<close>, \<^verbatim>\<open>OpenAI_Chat\<close>, \<^verbatim>\<open>Anthropic_Chat\<close>: the decoder of chat answers, the streaming loop
    shared by both handlers (locale \<open>message_processor\<close>, interpreted for each) and the events they send.  Answers do
    not depend on the chunks, streaming agrees with the complete answer, events follow the protocol.
  \<^item> \<^verbatim>\<open>Upstream_Error\<close>, \<^verbatim>\<open>Cpp_Stream\<close>: errors of the upstream service, and the code completion stream.
  \<^item> \<^verbatim>\<open>Models\<close>: the catalogue of models, its refresh and the resolution of names; the index always points into the list.
  \<^item> \<^verbatim>\<open>App_Config\<close>: the configuration and the handler that changes it, for the administrator only and field by field.
  \<^item> \<^verbatim>\<open>Auth\<close>: dynamic keys, the choice of a token and the middlewares.  Which credential gets which token, with the
    reason of every refusal; keys the server builds come back to it.
  \<^item> \<^verbatim>\<open>Chat_Handler\<close>: the handlers of \<^verbatim>\<open>core/service.rs\<close> as a whole, made of \<^verbatim>\<open>Auth\<close>, \<^verbatim>\<open>Models\<close>, \<^verbatim>\<open>Request_Log\<close>, the
    adapters and the responses (locale \<open>responder\<close>, interpreted for both protocols).  Counters, log and answer agree on
    every path; the task that refreshes a profile keeps the invariants of the manager.
  \<^item> \<^verbatim>\<open>Proxy_Pool\<close>: the proxies, their clients and the routes that change them; both tables agree after any requests.
  \<^item> \<^verbatim>\<open>Log_Routes\<close>: the routes that show the log; a client sees only the entries of his own key.
  \<^item> \<^verbatim>\<open>Interned\<close>: the pool of reference-counted strings on an explicit heap, with the threads as a step relation: creation
    and drop are split where they take a lock.  Safety under an order of drops; without it the memory is freed twice.
  \<^item> \<^verbatim>\<open>Natural_Args\<close>: words, phrases and actions of the command line; every phrase of the help text is understood.
  \<^item> \<^verbatim>\<open>Ntp\<close>: time stamps of the network protocol on 64-bit words, packets, one measurement and the weighted mean over
    several; it uses the durations of \<^verbatim>\<open>patch/chrono-0.4.42/src/time_delta.rs\<close>.  Floating point operations are a
    parameter; with exact ones the mean lies between the samples it is made of.
  \<^item> \<^verbatim>\<open>String_Builder\<close>, \<^verbatim>\<open>App_Version\<close>, \<^verbatim>\<open>Display_Name\<close>: concatenation and joining equal the list functions; versions
    are a linear order (instance of the library's class) with a binary form that reads back; display names of models are
    always defined and the cache does not change them.

  \<^bold>\<open>Conventions.\<close>  A value of type \<open>'a ub\<close> is \<^term>\<open>None\<close> where the code would have undefined behaviour or panic: an
  unchecked access out of bounds, a false unchecked assertion, use after free.  Results of fallible code are sums.
  \<^verbatim>\<open>u8\<close> to \<^verbatim>\<open>u128\<close> are words of their width; \<^verbatim>\<open>usize\<close> values that are lengths or positions in memory are natural
  numbers, since they cannot wrap on 64-bit targets.  Texts are their bytes.  Loops are structural or come with a
  termination proof; the one loop that need not end, eviction in the log, returns \<^term>\<open>None\<close> then, and there is a theorem
  that says when it does.  Libraries (prost, flate2, serde, base64, image, rkyv, clocks, random
  numbers, the network) are parameters; what the theorems need of them are hypotheses with a witness.

  \<^bold>\<open>Theorems about defects.\<close>  Where the code does not do what it means to, the property carries the condition under
  which it does, and a theorem beside it shows what happens otherwise: \<open>token_drop_race\<close>, \<open>short_chunk_deadlock\<close>,
  \<open>single_chunk_response_lost\<close>, \<open>first_result_reordered\<close>, \<open>upstream_error_sticks\<close>, \<open>text_after_tool_misplaced\<close>,
  \<open>tool_first_no_message_start\<close>, \<open>tool_input_lost_across_chunks\<close>, \<open>parallel_tool_results_lost\<close>, \<open>blank_line_in_chunk\<close>,
  \<open>duplicate_key_select_undefined\<close>, \<open>merge_duplicate_key_undefined\<close>, \<open>log_ids_collide\<close>,
  \<open>dropped_receiver_kills_actor\<close>, \<open>token_key_string2_confused\<close>, \<open>advertised_max_refused\<close>,
  \<open>manager_token_settings_empty\<close>, \<open>manager_token_chat_undefined\<close>, \<open>unread_body_counts_as_success\<close>, \<open>usage_check_race\<close>,
  \<open>empty_table_undefined\<close>, \<open>arc_str_race\<close>, \<open>port_out_of_range_ignored\<close>, \<open>join_of_empty_parts\<close>, \<open>clock_offset_is_delay\<close>,
  \<open>short_answer_accepted\<close>.

  \<^bold>\<open>Not modelled.\<close>  The patched third-party crates under \<^verbatim>\<open>patch\<close> (except the base32 codec and the durations), code generated by
  prost beyond the messages used, sending of requests, routing and pages, reading of environment variables, cells that
  are initialised late, records of the account service, the format of durations, the build scripts: they are third-party,
  effects outside the program or data without behaviour.  Concurrency is modelled where the code splits an operation at a lock (dropping tokens and
  interned strings, the decoder mutex,
  the log's identifiers, the profile task); everywhere else the locks make an operation one step.
\<close>

end
